(* ===== verification/Prelude.thy ===== *)
theory Prelude
  imports Complex_Main "HOL-Library.Multiset" "HOL-Library.AList" "HOL-Library.List_Lexorder"
    "HOL-Library.Char_ord"
begin

text \<open>
  What the console's TypeScript uses of its language and standard library, and the generic lemmas
  the component theories share.

  Strings are HOL strings and are compared with \<open><\<close> in the order of their code units, as
  JavaScript's relational operators do. \<open>undefined\<close> and \<open>null\<close> are both \<^term>\<open>None\<close>: the
  modelled code never tells them apart (\<open>??\<close>, \<open>?.\<close>, \<open>== null\<close>), and where it tests truthiness
  the empty string is falsy too, which is \<open>truthy\<close> below. A \<open>Map\<close> or \<open>Set\<close> of the source
  keeps its insertion order, so it is an association list updated by \<^const>\<open>AList.update\<close> or a
  list extended by \<open>set_add\<close>. A JavaScript number that is an instant, a count or an index is an
  \<^typ>\<open>int\<close> or \<^typ>\<open>nat\<close>; any other number is a \<^typ>\<open>real\<close>, so the rounding of double
  arithmetic is not modelled.
\<close>

named_theorems js_ops \<open>evaluation of the standard-library operations\<close>
named_theorems invars \<open>invariants of the components and their preservation\<close>

section \<open>Truthiness and defaults\<close>

definition truthy :: "string option \<Rightarrow> bool" where
  "truthy s \<longleftrightarrow> (case s of None \<Rightarrow> False | Some t \<Rightarrow> t \<noteq> [])"

lemma truthy_simps [simp]:
  "\<not> truthy None" "truthy (Some t) \<longleftrightarrow> t \<noteq> []"
  by (simp_all add: truthy_def)

definition nullish :: "'a option \<Rightarrow> 'a \<Rightarrow> 'a" where
  "nullish x d = (case x of None \<Rightarrow> d | Some v \<Rightarrow> v)"

lemma nullish_simps [simp]: "nullish None d = d" "nullish (Some v) d = v"
  by (simp_all add: nullish_def)

definition or_else :: "'a option \<Rightarrow> 'a option \<Rightarrow> 'a option" where
  "or_else x y = (case x of None \<Rightarrow> y | Some v \<Rightarrow> Some v)"

lemma or_else_simps [simp]: "or_else None y = y" "or_else (Some v) y = Some v" "or_else x None = x"
  by (auto simp: or_else_def split: option.splits)

section \<open>Strings\<close>

definition ascii_lower :: "char \<Rightarrow> char" where
  "ascii_lower c = (let n = (of_char c :: nat) in if 65 \<le> n \<and> n \<le> 90 then char_of (n + 32) else c)"

definition to_lower :: "string \<Rightarrow> string" where
  "to_lower s = List.map ascii_lower s"

definition is_space :: "char \<Rightarrow> bool" where
  "is_space c = (let n = (of_char c :: nat) in n = 32 \<or> (9 \<le> n \<and> n \<le> 13))"

definition trim :: "string \<Rightarrow> string" where
  "trim s = rev (dropWhile is_space (rev (dropWhile is_space s)))"

fun starts_with :: "string \<Rightarrow> string \<Rightarrow> bool" where
  "starts_with _ [] = True"
| "starts_with [] (_ # _) = False"
| "starts_with (c # cs) (p # ps) = (c = p \<and> starts_with cs ps)"

fun js_includes :: "string \<Rightarrow> string \<Rightarrow> bool" where
  "js_includes hay needle =
     (starts_with hay needle \<or> (case hay of [] \<Rightarrow> False | _ # t \<Rightarrow> js_includes t needle))"

declare js_includes.simps [simp del]

lemma starts_with_iff: "starts_with h p \<longleftrightarrow> (\<exists>t. h = p @ t)"
  by (induction h p rule: starts_with.induct) auto

lemma js_includes_iff: "js_includes h n \<longleftrightarrow> (\<exists>a b. h = a @ n @ b)"
proof (induction h)
  case Nil
  then show ?case by (auto simp: js_includes.simps [of "[]"] starts_with_iff)
next
  case (Cons c h)
  have "(\<exists>a b. c # h = a @ n @ b) \<longleftrightarrow> (\<exists>b. c # h = n @ b) \<or> (\<exists>a b. h = a @ n @ b)"
  proof
    assume "\<exists>a b. c # h = a @ n @ b"
    then obtain a b where "c # h = a @ n @ b" by blast
    then show "(\<exists>b. c # h = n @ b) \<or> (\<exists>a b. h = a @ n @ b)" by (cases a) auto
  next
    assume "(\<exists>b. c # h = n @ b) \<or> (\<exists>a b. h = a @ n @ b)"
    then show "\<exists>a b. c # h = a @ n @ b"
    proof (elim disjE exE)
      fix b assume "c # h = n @ b"
      then have "c # h = [] @ n @ b" by simp
      then show ?thesis by blast
    next
      fix a b assume "h = a @ n @ b"
      then have "c # h = (c # a) @ n @ b" by simp
      then show ?thesis by blast
    qed
  qed
  then show ?case
    using Cons.IH by (simp add: js_includes.simps [of "c # h"] starts_with_iff)
qed

fun join :: "string \<Rightarrow> string list \<Rightarrow> string" where
  "join _ [] = []"
| "join _ [s] = s"
| "join sep (s # t # ts) = s @ sep @ join sep (t # ts)"

fun split_on :: "char \<Rightarrow> string \<Rightarrow> string \<Rightarrow> string list" where
  "split_on c part [] = [part]"
| "split_on c part (x # xs) = (if x = c then part # split_on c [] xs else split_on c (part @ [x]) xs)"

lemma split_on_part: "c \<notin> set x \<Longrightarrow> split_on c part (x @ s) = split_on c (part @ x) s"
  by (induction x arbitrary: part) auto

lemma split_on_join:
  "xs \<noteq> [] \<Longrightarrow> \<forall>x \<in> set xs. c \<notin> set x \<Longrightarrow> split_on c [] (join [c] xs) = xs"
proof (induction xs rule: list_nonempty_induct)
  case (single x)
  then show ?case using split_on_part [of c x "[]" "[]"] by simp
next
  case (cons x xs)
  then show ?case using split_on_part [of c x "[]" "c # join [c] xs"] by (cases xs) simp_all
qed

fun digits_of_nat :: "nat \<Rightarrow> string" where
  "digits_of_nat n =
     (if n < 10 then [char_of (48 + n)] else digits_of_nat (n div 10) @ [char_of (48 + n mod 10)])"

declare digits_of_nat.simps [simp del]

definition string_of_int :: "int \<Rightarrow> string" where
  "string_of_int i = (if i < 0 then ''-'' @ digits_of_nat (nat (- i)) else digits_of_nat (nat i))"

definition pad_start :: "nat \<Rightarrow> string \<Rightarrow> string" where
  "pad_start n s = replicate (n - length s) (CHR ''0'') @ s"

definition js_round :: "real \<Rightarrow> int" where
  "js_round x = \<lfloor>x + 1 / 2\<rfloor>"

definition to_fixed :: "nat \<Rightarrow> real \<Rightarrow> string" where
  "to_fixed d x =
     (let n = nat (js_round (\<bar>x\<bar> * 10 ^ d));
          whole = digits_of_nat (n div 10 ^ d);
          frac = pad_start d (digits_of_nat (n mod 10 ^ d))
      in (if x < 0 then ''-'' else '''') @ whole @ (if d = 0 then '''' else ''.'' @ frac))"

text \<open>Characters outside ASCII are written as their UTF-8 bytes.\<close>

definition em_dash :: string where "em_dash = [CHR 0xE2, CHR 0x80, CHR 0x94]"
definition right_arrow :: string where "right_arrow = [CHR 0xE2, CHR 0x86, CHR 0x92]"
definition ellipsis :: string where "ellipsis = [CHR 0xE2, CHR 0x80, CHR 0xA6]"
definition ge_sign :: string where "ge_sign = [CHR 0xE2, CHR 0x89, CHR 0xA5]"

section \<open>Arrays\<close>

definition take_last :: "nat \<Rightarrow> 'a list \<Rightarrow> 'a list" where
  "take_last n xs = drop (length xs - n) xs"

lemma length_take_last [simp]: "length (take_last n xs) = min n (length xs)"
  by (simp add: take_last_def)

lemma take_last_all: "length xs \<le> n \<Longrightarrow> take_last n xs = xs"
  by (simp add: take_last_def)

fun find_index :: "('a \<Rightarrow> bool) \<Rightarrow> 'a list \<Rightarrow> nat option" where
  "find_index p [] = None"
| "find_index p (x # xs) = (if p x then Some 0 else map_option Suc (find_index p xs))"

lemma find_index_None_iff: "find_index p xs = None \<longleftrightarrow> (\<forall>x \<in> set xs. \<not> p x)"
  by (induction xs) auto

lemma find_index_Some:
  "find_index p xs = Some i \<Longrightarrow> i < length xs \<and> p (xs ! i) \<and> (\<forall>j < i. \<not> p (xs ! j))"
proof (induction xs arbitrary: i)
  case Nil
  then show ?case by simp
next
  case (Cons x xs)
  then show ?case
    by (cases i) (auto split: if_splits simp: less_Suc_eq_0_disj)
qed

definition array_get :: "'a list \<Rightarrow> int \<Rightarrow> 'a option" where
  "array_get xs i = (if 0 \<le> i \<and> i < int (length xs) then Some (xs ! nat i) else None)"

definition set_add :: "'a \<Rightarrow> 'a list \<Rightarrow> 'a list" where
  "set_add x xs = (if x \<in> set xs then xs else xs @ [x])"

lemma set_set_add [simp]: "set (set_add x xs) = insert x (set xs)"
  by (auto simp: set_add_def)

lemma distinct_set_add [simp]: "distinct (set_add x xs) \<longleftrightarrow> distinct xs"
  by (auto simp: set_add_def)

lemma map_fst_update:
  "List.map fst (AList.update k v al) = set_add k (List.map fst al)"
  by (auto simp: update_keys set_add_def)

lemma filter_singleton: "distinct xs \<Longrightarrow> x \<in> set xs \<Longrightarrow> List.filter (\<lambda>y. y = x) xs = [x]"
  by (induction xs) (auto simp: filter_empty_conv)

lemma sorted_wrt_take_drop:
  "sorted_wrt R xs \<Longrightarrow> a \<in> set (take k xs) \<Longrightarrow> b \<in> set (drop k xs) \<Longrightarrow> R a b"
  by (metis append_take_drop_id sorted_wrt_append)

section \<open>Sorting\<close>

text \<open>
  \<open>Array.prototype.sort\<close> with a comparator: since ECMAScript 2019 it is stable, and with a
  consistent comparator its result is determined. \<open>js_sort\<close> is the stable insertion sort;
  \<open>array_sort.sort_unique\<close> below shows that every sort the standard allows agrees with it.
\<close>

fun js_insert :: "('a \<Rightarrow> 'a \<Rightarrow> 'n::{zero,ord}) \<Rightarrow> 'a \<Rightarrow> 'a list \<Rightarrow> 'a list" where
  "js_insert c x [] = [x]"
| "js_insert c x (y # ys) = (if 0 < c x y then y # js_insert c x ys else x # y # ys)"

fun js_sort :: "('a \<Rightarrow> 'a \<Rightarrow> 'n::{zero,ord}) \<Rightarrow> 'a list \<Rightarrow> 'a list" where
  "js_sort c [] = []"
| "js_sort c (x # xs) = js_insert c x (js_sort c xs)"

lemma mset_js_insert [simp]: "mset (js_insert c x ys) = add_mset x (mset ys)"
  by (induction ys) auto

lemma mset_js_sort [simp]: "mset (js_sort c xs) = mset xs"
  by (induction xs) auto

lemma set_js_sort [simp]: "set (js_sort c xs) = set xs"
  by (metis mset_js_sort set_mset_mset)

lemma length_js_sort [simp]: "length (js_sort c xs) = length xs"
  by (metis mset_js_sort size_mset)

lemma distinct_js_sort [simp]: "distinct (js_sort c xs) \<longleftrightarrow> distinct xs"
  by (rule mset_eq_imp_distinct_iff) simp

lemma distinct_map_js_sort [simp]:
  "distinct (List.map f (js_sort c xs)) \<longleftrightarrow> distinct (List.map f xs)"
proof -
  have "mset (List.map f (js_sort c xs)) = mset (List.map f xs)"
    by (simp only: mset_map mset_js_sort)
  then show ?thesis by (rule mset_eq_imp_distinct_iff)
qed

lemma mset_filter_js_sort: "mset (List.filter P (js_sort c xs)) = mset (List.filter P xs)"
  by (simp add: mset_filter)

definition consistent_cmp :: "('a \<Rightarrow> 'a \<Rightarrow> 'n::{zero,ord}) \<Rightarrow> 'a set \<Rightarrow> bool" where
  "consistent_cmp c A \<longleftrightarrow>
     (\<forall>x \<in> A. \<forall>y \<in> A. 0 < c x y \<longrightarrow> \<not> 0 < c y x) \<and>
     (\<forall>x \<in> A. \<forall>y \<in> A. \<forall>z \<in> A. \<not> 0 < c x y \<longrightarrow> \<not> 0 < c y z \<longrightarrow> \<not> 0 < c x z)"

definition in_order :: "('a \<Rightarrow> 'a \<Rightarrow> 'n::{zero,ord}) \<Rightarrow> 'a \<Rightarrow> 'a \<Rightarrow> bool" where
  "in_order c x y \<longleftrightarrow> \<not> 0 < c x y"

lemma consistent_cmp_mono: "consistent_cmp c A \<Longrightarrow> B \<subseteq> A \<Longrightarrow> consistent_cmp c B"
  unfolding consistent_cmp_def by (meson subsetD)

lemma consistent_cmpD:
  assumes "consistent_cmp c A"
  shows "x \<in> A \<Longrightarrow> y \<in> A \<Longrightarrow> 0 < c x y \<Longrightarrow> in_order c y x"
    and "x \<in> A \<Longrightarrow> y \<in> A \<Longrightarrow> z \<in> A \<Longrightarrow> in_order c x y \<Longrightarrow> in_order c y z \<Longrightarrow> in_order c x z"
  using assms unfolding consistent_cmp_def in_order_def by blast+

lemma set_js_insert [simp]: "set (js_insert c x ys) = insert x (set ys)"
  by (induction ys) auto

lemma sorted_js_insert:
  assumes "consistent_cmp c (insert x (set ys))" and "sorted_wrt (in_order c) ys"
  shows "sorted_wrt (in_order c) (js_insert c x ys)"
  using assms
proof (induction ys)
  case Nil
  then show ?case by simp
next
  case (Cons y ys)
  let ?A = "insert x (set (y # ys))"
  have cc: "consistent_cmp c (insert x (set ys))"
    using Cons.prems(1) by (rule consistent_cmp_mono) (simp add: subset_insertI2 insert_mono subset_insertI)
  have srt: "sorted_wrt (in_order c) ys" and hd: "\<forall>z \<in> set ys. in_order c y z"
    using Cons.prems(2) by simp_all
  show ?case
  proof (cases "0 < c x y")
    case True
    have "in_order c y x"
      using True by (rule consistent_cmpD(1) [OF Cons.prems(1), rotated 2]) simp_all
    then show ?thesis using True Cons.IH [OF cc srt] hd by simp
  next
    case False
    then have xy: "in_order c x y" by (simp add: in_order_def)
    have "in_order c x z" if "z \<in> set ys" for z
    proof (rule consistent_cmpD(2) [OF Cons.prems(1) _ _ _ xy])
      show "in_order c y z" using hd that by blast
    qed (use that in simp_all)
    then show ?thesis using False xy srt hd by simp
  qed
qed

lemma sorted_js_sort:
  "consistent_cmp c (set xs) \<Longrightarrow> sorted_wrt (in_order c) (js_sort c xs)"
proof (induction xs)
  case Nil
  then show ?case by simp
next
  case (Cons x xs)
  have "consistent_cmp c (set xs)"
    using Cons.prems by (rule consistent_cmp_mono) (simp add: subset_insertI)
  then have "sorted_wrt (in_order c) (js_sort c xs)" by (rule Cons.IH)
  then show ?case using Cons.prems by (simp add: sorted_js_insert)
qed

text \<open>Elements that the comparator ties keep their order: stability.\<close>

lemma filter_js_insert:
  "(\<And>y. y \<in> set ys \<Longrightarrow> P x \<Longrightarrow> P y \<Longrightarrow> \<not> 0 < c x y) \<Longrightarrow>
   List.filter P (js_insert c x ys) = (if P x then x # List.filter P ys else List.filter P ys)"
  by (induction ys) auto

lemma filter_js_sort:
  "(\<And>x y. x \<in> set xs \<Longrightarrow> y \<in> set xs \<Longrightarrow> P x \<Longrightarrow> P y \<Longrightarrow> \<not> 0 < c x y) \<Longrightarrow>
   List.filter P (js_sort c xs) = List.filter P xs"
proof (induction xs)
  case Nil
  then show ?case by simp
next
  case (Cons x xs)
  then have "List.filter P (js_sort c xs) = List.filter P xs" by simp
  moreover have "List.filter P (js_insert c x (js_sort c xs)) =
      (if P x then x # List.filter P (js_sort c xs) else List.filter P (js_sort c xs))"
    by (rule filter_js_insert) (use Cons.prems in simp)
  ultimately show ?case by simp
qed

text \<open>A comparator that compares keys sorts by the key.\<close>

lemma js_insert_insort_key:
  assumes "\<And>y. y \<in> set ys \<Longrightarrow> 0 < c x y \<longleftrightarrow> k y < k x"
  shows "js_insert c x ys = insort_key k x ys"
  using assms by (induction ys) (auto simp: not_less)

lemma js_sort_sort_key:
  assumes "\<And>x y. x \<in> set xs \<Longrightarrow> y \<in> set xs \<Longrightarrow> 0 < c x y \<longleftrightarrow> k y < k x"
  shows "js_sort c xs = sort_key k xs"
  using assms
proof (induction xs)
  case Nil
  then show ?case by simp
next
  case (Cons x xs)
  then have "js_sort c xs = sort_key k xs" by simp
  moreover have "js_insert c x (sort_key k xs) = insort_key k x (sort_key k xs)"
    by (rule js_insert_insort_key) (use Cons.prems in auto)
  ultimately show ?case by (simp add: sort_key_def)
qed

lemma in_order_key:
  assumes "\<And>x y. x \<in> A \<Longrightarrow> y \<in> A \<Longrightarrow> 0 < c x y \<longleftrightarrow> k y < (k x :: 'k::linorder)"
  shows "consistent_cmp c A"
  unfolding consistent_cmp_def
proof (intro conjI ballI impI)
  fix x y assume "x \<in> A" "y \<in> A" "0 < c x y"
  then show "\<not> 0 < c y x" using assms by force
next
  fix x y z assume xyz: "x \<in> A" "y \<in> A" "z \<in> A" and "\<not> 0 < c x y" "\<not> 0 < c y z"
  then have "k x \<le> k y" "k y \<le> k z" using assms by (auto simp: not_less)
  then show "\<not> 0 < c x z" using assms xyz by (meson leD le_less_trans order_trans)
qed

lemma sorted_js_sort_key:
  assumes "\<And>x y. x \<in> set xs \<Longrightarrow> y \<in> set xs \<Longrightarrow> 0 < c x y \<longleftrightarrow> k y < (k x :: 'k::linorder)"
  shows "sorted (List.map k (js_sort c xs))"
  using js_sort_sort_key [of xs c k, OF assms] by simp

section \<open>The interface of a standard-conforming sort\<close>

locale array_sort =
  fixes sort_by :: "'a list \<Rightarrow> 'a list" and cmp :: "'a \<Rightarrow> 'a \<Rightarrow> 'n::{zero,ord}"
  assumes perm: "mset (sort_by xs) = mset xs"
    and ordered: "consistent_cmp cmp (set xs) \<Longrightarrow> sorted_wrt (in_order cmp) (sort_by xs)"
    and stable: "(\<And>x y. x \<in> set xs \<Longrightarrow> y \<in> set xs \<Longrightarrow> P x \<Longrightarrow> P y \<Longrightarrow> in_order cmp x y) \<Longrightarrow>
      List.filter P (sort_by xs) = List.filter P xs"
begin

lemma length_sort_by: "length (sort_by xs) = length xs"
  by (metis perm size_mset)

lemma set_sort_by: "set (sort_by xs) = set xs"
  by (metis perm set_mset_mset)

lemma tied_in_order:
  assumes "consistent_cmp cmp (set xs)" and "x \<in> set xs"
  shows "List.filter (\<lambda>y. in_order cmp x y \<and> in_order cmp y x) (sort_by xs) =
         List.filter (\<lambda>y. in_order cmp x y \<and> in_order cmp y x) xs"
proof (rule stable)
  fix a b
  assume "a \<in> set xs" "b \<in> set xs" "in_order cmp x a \<and> in_order cmp a x"
    "in_order cmp x b \<and> in_order cmp b x"
  with assms show "in_order cmp a b"
    unfolding consistent_cmp_def in_order_def by blast
qed

end

lemma sorted_tied_unique:
  assumes cc: "consistent_cmp c (set xs)"
    and srt: "sorted_wrt (in_order c) xs" "sorted_wrt (in_order c) ys"
    and perm: "mset xs = mset ys"
    and tied: "\<And>x. x \<in> set xs \<Longrightarrow>
      List.filter (\<lambda>y. in_order c x y \<and> in_order c y x) xs =
      List.filter (\<lambda>y. in_order c x y \<and> in_order c y x) ys"
  shows "xs = ys"
  using assms
proof (induction xs arbitrary: ys)
  case Nil
  then show ?case by simp
next
  case (Cons x xs)
  then obtain y zs where ys: "ys = y # zs" by (cases ys) auto
  have sets: "set (x # xs) = set (y # zs)"
    using Cons.prems(4) ys by (metis set_mset_mset)
  have refl: "in_order c z z" if "z \<in> set (x # xs)" for z
    using Cons.prems(1) that unfolding consistent_cmp_def in_order_def by blast
  have "in_order c x y"
    using sets Cons.prems(2) refl by (metis list.set_intros(1) set_ConsD sorted_wrt.simps(2))
  moreover have "in_order c y x"
  proof -
    have "x \<in> set (y # zs)" "y \<in> set (x # xs)" using sets by auto
    then show ?thesis using Cons.prems(3) ys refl by (metis set_ConsD sorted_wrt.simps(2))
  qed
  ultimately have eq: "x = y"
    using Cons.prems(5) [of x] refl [of x] by (simp add: ys)
  have "xs = zs"
  proof (rule Cons.IH)
    show "consistent_cmp c (set xs)" using Cons.prems(1) by (rule consistent_cmp_mono) auto
    show "sorted_wrt (in_order c) xs" "sorted_wrt (in_order c) zs" "mset xs = mset zs"
      using Cons.prems(2-4) ys eq by auto
    fix z assume "z \<in> set xs"
    then show "List.filter (\<lambda>y. in_order c z y \<and> in_order c y z) xs =
        List.filter (\<lambda>y. in_order c z y \<and> in_order c y z) zs"
      using Cons.prems(5) [of z] ys eq by (auto split: if_splits)
  qed
  then show ?case using ys eq by simp
qed

text \<open>A comparator that ties no two elements leaves one order, whatever order they came in.\<close>

lemma js_sort_unique:
  assumes cc: "consistent_cmp c (set xs)" and d: "distinct xs" and perm: "mset xs = mset ys"
    and strict: "\<And>x y. x \<in> set xs \<Longrightarrow> y \<in> set xs \<Longrightarrow> in_order c x y \<Longrightarrow> in_order c y x \<Longrightarrow> x = y"
  shows "js_sort c xs = js_sort c ys"
proof -
  have sets: "set ys = set xs" using perm by (metis mset_eq_setD)
  have dys: "distinct ys" using d perm by (metis mset_eq_imp_distinct_iff)
  have one: "List.filter (\<lambda>y. in_order c x y \<and> in_order c y x) zs = [x]"
    if "x \<in> set xs" "set zs = set xs" "distinct zs" for x zs
  proof -
    have "in_order c x x" using cc that(1) unfolding consistent_cmp_def in_order_def by blast
    then have "List.filter (\<lambda>y. in_order c x y \<and> in_order c y x) zs = List.filter (\<lambda>y. y = x) zs"
      using strict [OF that(1)] that(2) by (intro filter_cong) auto
    then show ?thesis using that by (simp add: filter_singleton)
  qed
  show ?thesis
  proof (rule sorted_tied_unique [of c])
    show "consistent_cmp c (set (js_sort c xs))" using cc by simp
    show "sorted_wrt (in_order c) (js_sort c xs)" "sorted_wrt (in_order c) (js_sort c ys)"
      using cc sets by (simp_all add: sorted_js_sort)
    show "mset (js_sort c xs) = mset (js_sort c ys)" using perm by simp
    fix x assume "x \<in> set (js_sort c xs)"
    then show "List.filter (\<lambda>y. in_order c x y \<and> in_order c y x) (js_sort c xs) =
        List.filter (\<lambda>y. in_order c x y \<and> in_order c y x) (js_sort c ys)"
      using one sets d dys by simp
  qed
qed

interpretation js: array_sort "js_sort cmp" cmp for cmp :: "'a \<Rightarrow> 'a \<Rightarrow> 'n::{zero,ord}"
  by unfold_locales (auto simp: sorted_js_sort in_order_def intro: filter_js_sort)

context array_sort begin

lemma sort_unique:
  assumes "consistent_cmp cmp (set xs)"
  shows "sort_by xs = js_sort cmp xs"
proof (rule sorted_tied_unique [of cmp])
  show "consistent_cmp cmp (set (sort_by xs))" using assms by (simp add: set_sort_by)
  show "sorted_wrt (in_order cmp) (sort_by xs)" using assms by (rule ordered)
  show "sorted_wrt (in_order cmp) (js_sort cmp xs)" using assms by (rule sorted_js_sort)
  show "mset (sort_by xs) = mset (js_sort cmp xs)" by (simp add: perm)
  fix x assume "x \<in> set (sort_by xs)"
  then have "x \<in> set xs" by (simp add: set_sort_by)
  then show "List.filter (\<lambda>y. in_order cmp x y \<and> in_order cmp y x) (sort_by xs) =
      List.filter (\<lambda>y. in_order cmp x y \<and> in_order cmp y x) (js_sort cmp xs)"
    using assms by (simp add: tied_in_order js.tied_in_order)
qed

end

section \<open>Collation\<close>

text \<open>What \<open>localeCompare\<close> is relied on for: a total order of the texts compared.\<close>

definition collates :: "(string \<Rightarrow> string \<Rightarrow> int) \<Rightarrow> string set \<Rightarrow> bool" where
  "collates lc A \<longleftrightarrow>
     (\<forall>x \<in> A. \<forall>y \<in> A. (0 < lc x y) = (lc y x < 0)) \<and>
     (\<forall>x \<in> A. \<forall>y \<in> A. \<forall>z \<in> A. lc x y \<le> 0 \<longrightarrow> lc y z \<le> 0 \<longrightarrow> lc x z \<le> 0) \<and>
     (\<forall>x \<in> A. \<forall>y \<in> A. lc x y = 0 \<longrightarrow> x = y)"

lemma collatesD:
  assumes "collates lc A" "x \<in> A" "y \<in> A"
  shows "0 < lc x y \<longleftrightarrow> lc y x < 0" "lc x y = 0 \<Longrightarrow> x = y"
    "z \<in> A \<Longrightarrow> lc x y \<le> 0 \<Longrightarrow> lc y z \<le> 0 \<Longrightarrow> lc x z \<le> 0"
  using assms unfolding collates_def by blast+

lemma collates_consistent: "collates lc A \<Longrightarrow> consistent_cmp lc A"
  unfolding collates_def consistent_cmp_def by (metis not_less order_less_imp_le order_less_irrefl linorder_le_less_linear)

text \<open>Comparison by code units is one.\<close>

definition code_unit_compare :: "string \<Rightarrow> string \<Rightarrow> int" where
  "code_unit_compare a b = (if a < b then -1 else if b < a then 1 else 0)"

lemma collates_code_unit_compare: "collates code_unit_compare A"
  by (auto simp: collates_def code_unit_compare_def)

section \<open>The digits of a number tell it\<close>

lemma digits_of_nat_inject [simp]: "digits_of_nat m = digits_of_nat n \<longleftrightarrow> m = n"
proof
  define val where "val cs = foldl (\<lambda>a c. 10 * a + ((of_char c :: nat) - 48)) 0 cs" for cs
  have v: "val (digits_of_nat n) = n" for n
  proof (induction n rule: digits_of_nat.induct)
    case (1 n)
    have d: "val [char_of (48 + k)] = k" "val (cs @ [char_of (48 + k)]) = 10 * val cs + k" if "k < 10" for k cs
      using that by (simp_all add: val_def)
    show ?case
    proof (cases "n < 10")
      case False
      then have "val (digits_of_nat (n div 10) @ [char_of (48 + n mod 10)]) = 10 * (n div 10) + n mod 10"
        using 1 d(2) [of "n mod 10"] by simp
      then show ?thesis using False by (simp add: digits_of_nat.simps [of n])
    next
      case True
      then show ?thesis using d(1) [OF True] by (simp add: digits_of_nat.simps [of n])
    qed
  qed
  show "m = n" if "digits_of_nat m = digits_of_nat n" using v that by metis
qed simp

end
