(* ===== verification/JsDate.thy ===== *)
theory JsDate
  imports Prelude
begin

text \<open>
  The part of JavaScript's \<open>Date\<close> the console uses: instants as epoch milliseconds, the UTC
  calendar, \<open>Date.UTC\<close>, \<open>toISOString\<close> and \<open>Date.parse\<close> on the RFC 3339 texts the API writes.
  \<^term>\<open>None\<close> is \<open>NaN\<close>, the result of \<open>Date.parse\<close> on any other text. A local-time reading
  needs the host's time zone, which is a parameter of the definitions that use it.
\<close>

section \<open>Days and years\<close>

definition day_ms :: int where
  "day_ms = 86400000"

definition leap_year :: "int \<Rightarrow> bool" where
  "leap_year y \<longleftrightarrow> y mod 4 = 0 \<and> (y mod 100 \<noteq> 0 \<or> y mod 400 = 0)"

definition day_from_year :: "int \<Rightarrow> int" where
  "day_from_year y =
     365 * (y - 1970) + (y - 1969) div 4 - (y - 1901) div 100 + (y - 1601) div 400"

lemma div_step:
  fixes x k :: int
  assumes "0 < k"
  shows "(x + 1) div k = x div k + (if k dvd x + 1 then 1 else 0)"
proof (cases "x mod k + 1 = k")
  case True
  have "x + 1 = k * (x div k) + (x mod k + 1)" by simp
  also have "\<dots> = k * (x div k + 1)" unfolding True by (simp add: algebra_simps)
  finally have e: "x + 1 = k * (x div k + 1)" .
  then have "(x + 1) div k = x div k + 1" using assms by (metis nonzero_mult_div_cancel_left less_irrefl)
  moreover have "k dvd x + 1" unfolding e by simp
  ultimately show ?thesis by simp
next
  case False
  have r: "0 \<le> x mod k + 1" "x mod k + 1 < k"
    using assms False pos_mod_bound [of k x] pos_mod_sign [of k x] by linarith+
  have e: "x + 1 = k * (x div k) + (x mod k + 1)" by simp
  have "(x + 1) div k = x div k" by (rule int_div_pos_eq [OF e r])
  moreover have "(x + 1) mod k = x mod k + 1" by (rule int_mod_pos_eq [OF e r])
  then have "\<not> k dvd x + 1"
    using pos_mod_sign [OF assms, of x] by (simp add: dvd_eq_mod_eq_0)
  ultimately show ?thesis by simp
qed

lemma day_from_year_Suc:
  "day_from_year (y + 1) = day_from_year y + (if leap_year y then 366 else 365)"
proof -
  have d4: "(y + 1 - 1969) div 4 = (y - 1969) div 4 + (if 4 dvd y then 1 else 0)"
    using div_step [of 4 "y - 1969"] dvd_diff_left_iff [of 4 1968 y] by (simp add: algebra_simps)
  have d100: "(y + 1 - 1901) div 100 = (y - 1901) div 100 + (if 100 dvd y then 1 else 0)"
    using div_step [of 100 "y - 1901"] dvd_diff_left_iff [of 100 1900 y] by (simp add: algebra_simps)
  have d400: "(y + 1 - 1601) div 400 = (y - 1601) div 400 + (if 400 dvd y then 1 else 0)"
    using div_step [of 400 "y - 1601"] dvd_diff_left_iff [of 400 1600 y] by (simp add: algebra_simps)
  have m: "400 dvd y \<Longrightarrow> 100 dvd y" "100 dvd y \<Longrightarrow> 4 dvd y"
    by (rule dvd_trans [of 100 400 y], simp, assumption) (rule dvd_trans [of 4 100 y], simp)
  have l: "leap_year y \<longleftrightarrow> 4 dvd y \<and> (\<not> 100 dvd y \<or> 400 dvd y)"
    by (simp add: leap_year_def dvd_eq_mod_eq_0)
  define P Q R where "P = ((4 :: int) dvd y)" and "Q = ((100 :: int) dvd y)"
    and "R = ((400 :: int) dvd y)"
  have "R \<longrightarrow> Q" "Q \<longrightarrow> P" using m unfolding P_def Q_def R_def by blast+
  then show ?thesis
    unfolding day_from_year_def l d4 d100 d400
    unfolding P_def [symmetric] Q_def [symmetric] R_def [symmetric]
    by (cases P; cases Q; cases R) simp_all
qed

text \<open>
  The year of a day, counted in 400-year cycles from 2001-01-01, so that the leap year of each
  span is its last.
\<close>

definition year_of_day :: "int \<Rightarrow> int" where
  "year_of_day n =
     (let m = n - 11323; q = m div 146097; r = m mod 146097;
          c = min 3 (r div 36524); r2 = r - c * 36524;
          f = r2 div 1461; r3 = r2 mod 1461;
          a = min 3 (r3 div 365)
      in 2001 + 400 * q + 100 * c + 4 * f + a)"

lemma day_from_year_parts:
  assumes "0 \<le> c" "c \<le> 3" "0 \<le> f" "f \<le> 24" "0 \<le> a" "a \<le> 3"
  shows "day_from_year (2001 + 400 * q + 100 * c + 4 * f + a) =
         11323 + 146097 * q + 36524 * c + 1461 * f + 365 * a"
proof -
  have d4: "(2001 + 400 * q + 100 * c + 4 * f + a - 1969) div 4 = 100 * q + 25 * c + f + 8"
    by (rule int_div_pos_eq [where r = a]) (use assms in auto)
  have d100: "(2001 + 400 * q + 100 * c + 4 * f + a - 1901) div 100 = 4 * q + c + 1"
    by (rule int_div_pos_eq [where r = "4 * f + a"]) (use assms in auto)
  have d400: "(2001 + 400 * q + 100 * c + 4 * f + a - 1601) div 400 = q + 1"
    by (rule int_div_pos_eq [where r = "100 * c + 4 * f + a"]) (use assms in auto)
  show ?thesis
    unfolding day_from_year_def d4 d100 d400 by simp
qed

lemma leap_year_parts:
  assumes "0 \<le> c" "c \<le> 3" "0 \<le> f" "f \<le> 24" "0 \<le> a" "a \<le> 3"
  shows "leap_year (2001 + 400 * q + 100 * c + 4 * f + a) \<longleftrightarrow> a = 3 \<and> (f < 24 \<or> c = 3)"
proof -
  let ?y = "2001 + 400 * q + 100 * c + 4 * f + a"
  have "?y mod 4 = (if a = 3 then 0 else a + 1)"
    by (cases "a = 3"; rule int_mod_pos_eq [where q = "500 + 100 * q + 25 * c + f + (if a = 3 then 1 else 0)"])
      (use assms in auto)
  then have "?y mod 4 = 0 \<longleftrightarrow> a = 3" using assms by auto
  moreover have "?y mod 100 = (if f = 24 \<and> a = 3 then 0 else 4 * f + a + 1)"
    by (cases "f = 24 \<and> a = 3";
        rule int_mod_pos_eq [where q = "20 + 4 * q + c + (if f = 24 \<and> a = 3 then 1 else 0)"])
      (use assms in auto)
  then have "?y mod 100 = 0 \<longleftrightarrow> f = 24 \<and> a = 3" using assms by auto
  moreover have "?y mod 400 =
      (if c = 3 \<and> f = 24 \<and> a = 3 then 0 else 100 * c + 4 * f + a + 1)"
    by (cases "c = 3 \<and> f = 24 \<and> a = 3";
        rule int_mod_pos_eq [where q = "5 + q + (if c = 3 \<and> f = 24 \<and> a = 3 then 1 else 0)"])
      (use assms in auto)
  then have "?y mod 400 = 0 \<longleftrightarrow> c = 3 \<and> f = 24 \<and> a = 3" using assms by auto
  ultimately show ?thesis using assms unfolding leap_year_def by auto
qed

lemma year_of_day_bounds:
  "day_from_year (year_of_day n) \<le> n \<and> n < day_from_year (year_of_day n + 1)"
proof -
  define m q r where "m = n - 11323" and "q = m div 146097" and "r = m mod 146097"
  define c where "c = min 3 (r div 36524)"
  define r2 where "r2 = r - c * 36524"
  define f r3 where "f = r2 div 1461" and "r3 = r2 mod 1461"
  define a where "a = min 3 (r3 div 365)"
  have y: "year_of_day n = 2001 + 400 * q + 100 * c + 4 * f + a"
    unfolding year_of_day_def Let_def m_def q_def r_def c_def r2_def f_def r3_def a_def ..
  have n: "n = 11323 + 146097 * q + r" unfolding q_def r_def m_def by simp
  have r: "0 \<le> r" "r < 146097" unfolding r_def by simp_all
  have c: "0 \<le> c" "c \<le> 3" using r unfolding c_def by simp_all
  have r2: "0 \<le> r2" "r2 \<le> 36524" "c < 3 \<longrightarrow> r2 < 36524"
  proof -
    have e: "r = 36524 * (r div 36524) + r mod 36524" "0 \<le> r mod 36524" "r mod 36524 < 36524"
      by simp_all
    show "0 \<le> r2" "r2 \<le> 36524" "c < 3 \<longrightarrow> r2 < 36524"
      using r e unfolding r2_def c_def min_def by (auto split: if_splits)
  qed
  have f: "0 \<le> f" "f \<le> 24"
    using r2(1,2) zdiv_mono1 [of r2 36524 1461] unfolding f_def by simp_all
  have r3: "0 \<le> r3" "r3 < 1461" and r2': "r2 = 1461 * f + r3" unfolding r3_def f_def by simp_all
  have a: "0 \<le> a" "a \<le> 3" using r3 unfolding a_def by simp_all
  have a3: "365 * a \<le> r3" "r3 \<le> 365 * a + 365" "a < 3 \<longrightarrow> r3 < 365 * a + 365"
  proof -
    have e: "r3 = 365 * (r3 div 365) + r3 mod 365" "0 \<le> r3 mod 365" "r3 mod 365 < 365"
      by simp_all
    show "365 * a \<le> r3" "r3 \<le> 365 * a + 365" "a < 3 \<longrightarrow> r3 < 365 * a + 365"
      using r3 e unfolding a_def min_def by (auto split: if_splits)
  qed
  have le: "leap_year (year_of_day n) \<longleftrightarrow> a = 3 \<and> (f < 24 \<or> c = 3)"
    unfolding y by (rule leap_year_parts) (use c f a in simp_all)
  have df: "day_from_year (year_of_day n) =
      11323 + 146097 * q + 36524 * c + 1461 * f + 365 * a"
    unfolding y by (rule day_from_year_parts) (use c f a in simp_all)
  have nn: "n = 11323 + 146097 * q + 36524 * c + 1461 * f + r3"
    using n r2' unfolding r2_def by simp
  have last: "\<not> leap_year (year_of_day n) \<Longrightarrow> r3 < 365 * a + 365"
    unfolding le using a3 a r2 r2' f c by (cases "a < 3") auto
  show ?thesis
    unfolding day_from_year_Suc df using nn a3 last by (auto split: if_splits)
qed

lemma day_from_year_mono: "y \<le> z \<Longrightarrow> day_from_year y \<le> day_from_year z"
proof (induction "nat (z - y)" arbitrary: z)
  case 0
  then show ?case by simp
next
  case (Suc k)
  then have "day_from_year y \<le> day_from_year (z - 1)" by simp
  also have "\<dots> \<le> day_from_year z" using day_from_year_Suc [of "z - 1"] by simp
  finally show ?case .
qed

lemma year_of_day_unique:
  assumes "day_from_year y \<le> n" and "n < day_from_year (y + 1)"
  shows "year_of_day n = y"
proof (rule ccontr)
  assume "year_of_day n \<noteq> y"
  then consider "year_of_day n + 1 \<le> y" | "y + 1 \<le> year_of_day n" by linarith
  then show False
  proof cases
    case 1
    then have "day_from_year (year_of_day n + 1) \<le> day_from_year y" by (rule day_from_year_mono)
    then show False using assms year_of_day_bounds [of n] by linarith
  next
    case 2
    then have "day_from_year (y + 1) \<le> day_from_year (year_of_day n)" by (rule day_from_year_mono)
    then show False using assms year_of_day_bounds [of n] by linarith
  qed
qed

section \<open>Months\<close>

text \<open>Months are numbered from 0, as \<open>getUTCMonth\<close> does.\<close>

definition day_of_month_start :: "int \<Rightarrow> bool \<Rightarrow> int" where
  "day_of_month_start m leap =
     (if m \<le> 0 then 0 else
       [0, 31, 59, 90, 120, 151, 181, 212, 243, 273, 304, 334] ! nat m +
       (if leap \<and> 2 \<le> m then 1 else 0))"

definition days_in_month :: "int \<Rightarrow> bool \<Rightarrow> int" where
  "days_in_month m leap =
     (if m = 1 then (if leap then 29 else 28) else if m \<in> {3, 5, 8, 10} then 30 else 31)"

definition month_of_day :: "int \<Rightarrow> bool \<Rightarrow> int" where
  "month_of_day d leap =
     (let e = (if leap then 1 else 0) in
      if d < 31 then 0 else if d < 59 + e then 1 else if d < 90 + e then 2
      else if d < 120 + e then 3 else if d < 151 + e then 4 else if d < 181 + e then 5
      else if d < 212 + e then 6 else if d < 243 + e then 7 else if d < 273 + e then 8
      else if d < 304 + e then 9 else if d < 334 + e then 10 else 11)"

lemma month_cases:
  fixes m :: int
  assumes "0 \<le> m" and "m \<le> 11"
  obtains "m = 0" | "m = 1" | "m = 2" | "m = 3" | "m = 4" | "m = 5" | "m = 6" | "m = 7" | "m = 8"
    | "m = 9" | "m = 10" | "m = 11"
  using assms by (cases "m \<le> 5") force+

lemma month_of_day_start:
  assumes "0 \<le> m" "m \<le> 11" "0 \<le> d" "d < days_in_month m leap"
  shows "month_of_day (day_of_month_start m leap + d) leap = m"
  using assms(1,2)
  by (cases m rule: month_cases)
    (use assms(3,4) in \<open>auto simp: month_of_day_def day_of_month_start_def days_in_month_def Let_def\<close>)

lemma day_of_month_bounds:
  assumes "0 \<le> d" "d < (if leap then 366 else 365)"
  defines "m \<equiv> month_of_day d leap"
  shows "0 \<le> m \<and> m \<le> 11 \<and> day_of_month_start m leap \<le> d \<and>
         d < day_of_month_start m leap + days_in_month m leap"
  using assms(1,2) unfolding m_def
  by (cases leap) (auto simp: month_of_day_def day_of_month_start_def days_in_month_def Let_def)

section \<open>Calendar dates\<close>

definition make_day :: "int \<Rightarrow> int \<Rightarrow> int \<Rightarrow> int" where
  "make_day y m d =
     (let ym = y + m div 12; mn = m mod 12
      in day_from_year ym + day_of_month_start mn (leap_year ym) + d - 1)"

definition civil_of_day :: "int \<Rightarrow> int \<times> int \<times> int" where
  "civil_of_day n =
     (let y = year_of_day n; leap = leap_year y; doy = n - day_from_year y;
          m = month_of_day doy leap
      in (y, m, doy - day_of_month_start m leap + 1))"

definition valid_civil :: "int \<Rightarrow> int \<Rightarrow> int \<Rightarrow> bool" where
  "valid_civil y m d \<longleftrightarrow>
     0 \<le> m \<and> m \<le> 11 \<and> 1 \<le> d \<and> d \<le> days_in_month m (leap_year y)"

lemma civil_of_day_valid: "civil_of_day n = (y, m, d) \<Longrightarrow> valid_civil y m d"
proof -
  assume c: "civil_of_day n = (y, m, d)"
  define doy where "doy = n - day_from_year y"
  have y: "y = year_of_day n" using c by (simp add: civil_of_day_def Let_def)
  have "0 \<le> doy" "doy < (if leap_year y then 366 else 365)"
    using year_of_day_bounds [of n] day_from_year_Suc [of y] unfolding doy_def y by auto
  from day_of_month_bounds [OF this] show ?thesis
    using c unfolding y [symmetric] doy_def valid_civil_def civil_of_day_def Let_def by auto
qed

lemma make_day_civil_of_day:
  assumes "civil_of_day n = (y, m, d)"
  shows "make_day y m d = n"
proof -
  have "0 \<le> m" "m \<le> 11" using civil_of_day_valid [OF assms] by (simp_all add: valid_civil_def)
  then have "m div 12 = 0" "m mod 12 = m" by simp_all
  then show ?thesis
    using assms by (auto simp: make_day_def civil_of_day_def Let_def)
qed

lemma month_end_le_year:
  assumes "0 \<le> m" "m \<le> 11"
  shows "day_of_month_start m leap + days_in_month m leap \<le> (if leap then 366 else 365)"
    and "0 \<le> day_of_month_start m leap"
  using assms by (cases m rule: month_cases; simp add: day_of_month_start_def days_in_month_def)+

lemma civil_of_day_make_day:
  assumes "valid_civil y m d"
  shows "civil_of_day (make_day y m d) = (y, m, d)"
proof -
  let ?l = "leap_year y"
  have m: "0 \<le> m" "m \<le> 11" and d: "1 \<le> d" "d \<le> days_in_month m ?l"
    using assms by (simp_all add: valid_civil_def)
  have md: "make_day y m d = day_from_year y + (day_of_month_start m ?l + (d - 1))"
    using m by (simp add: make_day_def)
  have yr: "year_of_day (make_day y m d) = y"
    by (rule year_of_day_unique)
      (use md d month_end_le_year [OF m, of ?l] day_from_year_Suc [of y] in auto)
  have mo: "month_of_day (day_of_month_start m ?l + (d - 1)) ?l = m"
    by (rule month_of_day_start) (use m d in auto)
  show ?thesis
    unfolding civil_of_day_def yr Let_def using md mo by simp
qed

text \<open>\<open>Date.UTC\<close> reads a year from 0 to 99 as one of the twentieth century.\<close>

definition date_utc :: "int \<Rightarrow> int \<Rightarrow> int \<Rightarrow> int" where
  "date_utc y m d = make_day (if 0 \<le> y \<and> y \<le> 99 then 1900 + y else y) m d * day_ms"

definition utc_parts :: "int \<Rightarrow> int \<times> int \<times> int" where
  "utc_parts ms = civil_of_day (ms div day_ms)"

section \<open>Reading and writing ISO 8601\<close>

definition digits_padded :: "nat \<Rightarrow> int \<Rightarrow> string" where
  "digits_padded n i = pad_start n (digits_of_nat (nat i))"

definition to_iso :: "int \<Rightarrow> string" where
  "to_iso ms =
     (let (y, m, d) = utc_parts ms; t = ms mod day_ms;
          year = (if 0 \<le> y \<and> y \<le> 9999 then digits_padded 4 y
                  else (if y < 0 then ''-'' else ''+'') @ digits_padded 6 \<bar>y\<bar>)
      in year @ ''-'' @ digits_padded 2 (m + 1) @ ''-'' @ digits_padded 2 d @ ''T'' @
         digits_padded 2 (t div 3600000) @ '':'' @ digits_padded 2 (t div 60000 mod 60) @ '':'' @
         digits_padded 2 (t div 1000 mod 60) @ ''.'' @ digits_padded 3 (t mod 1000) @ ''Z'')"

definition digit_value :: "char \<Rightarrow> int option" where
  "digit_value c = (let n = (of_char c :: nat) in if 48 \<le> n \<and> n \<le> 57 then Some (int n - 48) else None)"

fun read_digits :: "nat \<Rightarrow> int \<Rightarrow> string \<Rightarrow> (int \<times> string) option" where
  "read_digits 0 acc cs = Some (acc, cs)"
| "read_digits (Suc n) acc [] = None"
| "read_digits (Suc n) acc (c # cs) =
     (case digit_value c of None \<Rightarrow> None | Some v \<Rightarrow> read_digits n (10 * acc + v) cs)"

fun read_char :: "char \<Rightarrow> string \<Rightarrow> string option" where
  "read_char c [] = None"
| "read_char c (d # ds) = (if c = d then Some ds else None)"

text \<open>Fraction digits beyond the third are dropped; missing ones are zeros.\<close>

fun read_fraction :: "nat \<Rightarrow> int \<Rightarrow> string \<Rightarrow> int \<times> string" where
  "read_fraction k acc [] = (acc * 10 ^ k, [])"
| "read_fraction k acc (c # cs) =
     (case digit_value c of
        None \<Rightarrow> (acc * 10 ^ k, c # cs)
      | Some v \<Rightarrow> (case k of 0 \<Rightarrow> read_fraction 0 acc cs
                    | Suc k' \<Rightarrow> read_fraction k' (10 * acc + v) cs))"

fun read_seconds :: "string \<Rightarrow> (int \<times> string) option" where
  "read_seconds cs =
     (case read_digits 2 0 cs of
        None \<Rightarrow> None
      | Some (s, rest) \<Rightarrow>
          if s > 59 then None
          else (case rest of
                  c # c2 # r \<Rightarrow>
                    (if c = CHR ''.'' \<and> digit_value c2 \<noteq> None
                     then (case read_fraction 3 0 (c2 # r) of (f, r') \<Rightarrow> Some (s * 1000 + f, r'))
                     else Some (s * 1000, rest))
                | _ \<Rightarrow> Some (s * 1000, rest)))"

definition read_zone :: "string \<Rightarrow> int option" where
  "read_zone cs =
     (case cs of
        [] \<Rightarrow> None
      | c # r \<Rightarrow>
          if c = CHR ''Z'' then (if r = [] then Some 0 else None)
          else if c = CHR ''+'' \<or> c = CHR ''-'' then
            (case read_digits 2 0 r of None \<Rightarrow> None
             | Some (h, r1) \<Rightarrow>
             (case read_char (CHR '':'') r1 of None \<Rightarrow> None
              | Some r2 \<Rightarrow>
              (case read_digits 2 0 r2 of
                 Some (m, []) \<Rightarrow>
                   if h \<le> 23 \<and> m \<le> 59
                   then Some ((if c = CHR ''+'' then 1 else - 1) * (h * 60 + m) * 60000) else None
               | _ \<Rightarrow> None)))
          else None)"

definition read_time :: "string \<Rightarrow> int option" where
  "read_time cs =
     (case read_digits 2 0 cs of None \<Rightarrow> None
      | Some (h, r1) \<Rightarrow>
      (case read_char (CHR '':'') r1 of None \<Rightarrow> None
       | Some r2 \<Rightarrow>
       (case read_digits 2 0 r2 of None \<Rightarrow> None
        | Some (mi, r3) \<Rightarrow>
          (case (case read_char (CHR '':'') r3 of None \<Rightarrow> Some (0, r3) | Some r4 \<Rightarrow> read_seconds r4) of
             None \<Rightarrow> None
           | Some (sms, r5) \<Rightarrow>
             (case read_zone r5 of None \<Rightarrow> None
              | Some off \<Rightarrow>
                if h \<le> 23 \<and> mi \<le> 59 then Some (h * 3600000 + mi * 60000 + sms - off) else None)))))"

definition date_parse :: "string \<Rightarrow> int option" where
  "date_parse cs =
     (case read_digits 4 0 cs of None \<Rightarrow> None
      | Some (y, r1) \<Rightarrow>
      (case read_char (CHR ''-'') r1 of None \<Rightarrow> None
       | Some r2 \<Rightarrow>
       (case read_digits 2 0 r2 of None \<Rightarrow> None
        | Some (mo, r3) \<Rightarrow>
        (case read_char (CHR ''-'') r3 of None \<Rightarrow> None
         | Some r4 \<Rightarrow>
         (case read_digits 2 0 r4 of None \<Rightarrow> None
          | Some (d, r5) \<Rightarrow>
            if \<not> valid_civil y (mo - 1) d then None
            else if r5 = [] then Some (make_day y (mo - 1) d * day_ms)
            else (case read_char (CHR ''T'') r5 of None \<Rightarrow> None
                  | Some r6 \<Rightarrow> map_option (\<lambda>t. make_day y (mo - 1) d * day_ms + t) (read_time r6)))))))"

section \<open>What is written is read back\<close>

lemma digit_value_char [simp]: "n < 10 \<Longrightarrow> digit_value (char_of (48 + n)) = Some (int n)"
  by (simp add: digit_value_def Let_def)

lemma digit_value_zero [simp]: "digit_value (CHR ''0'') = Some 0"
  by (simp add: digit_value_def)

lemma read_digits_add:
  "read_digits (m + k) acc cs =
     (case read_digits m acc cs of None \<Rightarrow> None | Some (a, r) \<Rightarrow> read_digits k a r)"
  by (induction m acc cs rule: read_digits.induct) (auto split: option.splits)

lemma read_digits_of_nat:
  "read_digits (length (digits_of_nat n)) acc (digits_of_nat n @ rest) =
     Some (acc * 10 ^ length (digits_of_nat n) + int n, rest)"
proof (induction n arbitrary: rest rule: digits_of_nat.induct)
  case (1 n)
  show ?case
  proof (cases "n < 10")
    case True
    then show ?thesis by (simp add: digits_of_nat.simps [of n])
  next
    case False
    let ?h = "digits_of_nat (n div 10)"
    have e: "digits_of_nat n = ?h @ [char_of (48 + n mod 10)]"
      using False by (simp add: digits_of_nat.simps [of n])
    have "read_digits (length ?h + 1) acc (?h @ char_of (48 + n mod 10) # rest) =
        Some (10 * (acc * 10 ^ length ?h + int (n div 10)) + int (n mod 10), rest)"
      unfolding read_digits_add using "1.IH" [OF False] by simp
    moreover have "10 * int (n div 10) + int (n mod 10) = int n"
      by (metis mult_div_mod_eq of_nat_add of_nat_mult of_nat_numeral)
    ultimately show ?thesis unfolding e by (simp add: algebra_simps)
  qed
qed

lemma read_digits_zeros: "read_digits k 0 (replicate k (CHR ''0'') @ rest) = Some (0, rest)"
  by (induction k) simp_all

lemma length_digits_of_nat: "0 < k \<Longrightarrow> n < 10 ^ k \<Longrightarrow> length (digits_of_nat n) \<le> k"
proof (induction n arbitrary: k rule: digits_of_nat.induct)
  case (1 n)
  show ?case
  proof (cases "n < 10")
    case True
    then show ?thesis using "1.prems" by (simp add: digits_of_nat.simps [of n])
  next
    case False
    then obtain k' where k: "k = Suc k'" "0 < k'"
      using "1.prems" by (cases k; cases "k - 1") auto
    have "n div 10 < 10 ^ k'" using "1.prems"(2) k by (simp add: less_mult_imp_div_less mult.commute)
    then show ?thesis using "1.IH" [OF False k(2)] False k(1) by (simp add: digits_of_nat.simps [of n])
  qed
qed

lemma read_digits_padded:
  assumes "0 < k" "0 \<le> i" "i < 10 ^ k"
  shows "read_digits k 0 (digits_padded k i @ rest) = Some (i, rest)"
proof -
  let ?ds = "digits_of_nat (nat i)"
  have "nat i < 10 ^ k" using assms by (simp add: nat_less_iff)
  then have le: "length ?ds \<le> k" using assms(1) by (intro length_digits_of_nat)
  have "read_digits ((k - length ?ds) + length ?ds) 0
      (replicate (k - length ?ds) (CHR ''0'') @ ?ds @ rest) = Some (int (nat i), rest)"
    unfolding read_digits_add read_digits_zeros by (simp add: read_digits_of_nat)
  then show ?thesis using le assms(2) by (simp add: digits_padded_def pad_start_def)
qed

lemma read_fraction_digits:
  "read_digits k acc cs = Some (v, rest) \<Longrightarrow>
   (case rest of [] \<Rightarrow> True | c # _ \<Rightarrow> digit_value c = None) \<Longrightarrow> read_fraction k acc cs = (v, rest)"
proof (induction k arbitrary: acc cs)
  case 0
  then show ?case by (cases cs) auto
next
  case (Suc k)
  then show ?case by (cases cs) (auto split: option.splits)
qed

lemma digits_padded_first:
  assumes "0 < k" "0 \<le> i" "i < 10 ^ k"
  obtains c cs where "digits_padded k i = c # cs" "digit_value c \<noteq> None"
proof -
  have r: "read_digits k 0 (digits_padded k i @ []) = Some (i, [])"
    by (rule read_digits_padded [OF assms])
  then show thesis using assms(1) that
    by (cases k; cases "digits_padded k i") (auto split: option.splits)
qed

lemma read_seconds_iso:
  assumes "0 \<le> s" "s < 60" "0 \<le> f" "f < 1000"
  shows "read_seconds (digits_padded 2 s @ ''.'' @ digits_padded 3 f @ ''Z'') =
         Some (s * 1000 + f, ''Z'')"
proof -
  obtain c cs where c: "digits_padded 3 f = c # cs" "digit_value c \<noteq> None"
    using digits_padded_first [of 3 f] assms by auto
  have "read_fraction 3 0 (digits_padded 3 f @ ''Z'') = (f, ''Z'')"
    by (rule read_fraction_digits [OF read_digits_padded])
      (use assms in \<open>simp_all add: digit_value_def\<close>)
  then show ?thesis using assms c by (simp add: read_digits_padded)
qed

lemma read_time_parts:
  assumes "0 \<le> h" "h < 24" "0 \<le> mi" "mi < 60" "0 \<le> s" "s < 60" "0 \<le> f" "f < 1000"
  shows "read_time (digits_padded 2 h @ '':'' @ digits_padded 2 mi @ '':'' @ digits_padded 2 s @
           ''.'' @ digits_padded 3 f @ ''Z'') = Some (h * 3600000 + mi * 60000 + (s * 1000 + f))"
proof -
  have sec: "read_seconds (digits_padded 2 s @ CHR ''.'' # digits_padded 3 f @ ''Z'') =
      Some (s * 1000 + f, ''Z'')"
    using read_seconds_iso [of s f] assms by simp
  show ?thesis
    using assms sec
    by (simp add: read_time_def read_digits_padded read_zone_def del: read_seconds.simps)
qed

lemma clock_sum:
  fixes t :: int
  shows "t = s * 1000 + f \<Longrightarrow> s = m * 60 + ss \<Longrightarrow> m = h * 60 + mm \<Longrightarrow>
    t = h * 3600000 + mm * 60000 + (ss * 1000 + f)"
  by simp

lemma read_time_iso:
  assumes "0 \<le> t" "t < day_ms"
  shows "read_time (digits_padded 2 (t div 3600000) @ '':'' @ digits_padded 2 (t div 60000 mod 60) @
           '':'' @ digits_padded 2 (t div 1000 mod 60) @ ''.'' @ digits_padded 3 (t mod 1000) @ ''Z'')
         = Some t"
proof -
  have h: "0 \<le> t div 3600000" "t div 3600000 < 24"
    using assms zdiv_mono1 [of t 86399999 3600000]
    by (simp_all add: day_ms_def pos_imp_zdiv_nonneg_iff)
  have dd: "t div 60000 = t div 1000 div 60" "t div 3600000 = t div 60000 div 60"
    using zdiv_zmult2_eq [of 60 t 1000] zdiv_zmult2_eq [of 60 t 60000] by simp_all
  have "t = t div 1000 * 1000 + t mod 1000" by (rule div_mult_mod_eq [symmetric])
  moreover have "t div 1000 = t div 60000 * 60 + t div 1000 mod 60"
    unfolding dd(1) by (rule div_mult_mod_eq [symmetric])
  moreover have "t div 60000 = t div 3600000 * 60 + t div 60000 mod 60"
    unfolding dd(2) by (rule div_mult_mod_eq [symmetric])
  ultimately have "t = t div 3600000 * 3600000 + t div 60000 mod 60 * 60000 +
      (t div 1000 mod 60 * 1000 + t mod 1000)" by (rule clock_sum)
  moreover have "read_time (digits_padded 2 (t div 3600000) @ '':'' @
      digits_padded 2 (t div 60000 mod 60) @ '':'' @ digits_padded 2 (t div 1000 mod 60) @ ''.'' @
      digits_padded 3 (t mod 1000) @ ''Z'') =
      Some (t div 3600000 * 3600000 + t div 60000 mod 60 * 60000 +
        (t div 1000 mod 60 * 1000 + t mod 1000))"
    by (rule read_time_parts) (rule h pos_mod_sign pos_mod_bound; simp)+
  ultimately show ?thesis by (simp only:)
qed

lemma date_parse_to_iso:
  assumes "utc_parts ms = (y, m, d)" "0 \<le> y" "y \<le> 9999"
  shows "date_parse (to_iso ms) = Some ms"
proof -
  have c: "civil_of_day (ms div day_ms) = (y, m, d)" using assms(1) by (simp add: utc_parts_def)
  have v: "valid_civil y m d" using c by (rule civil_of_day_valid)
  have "m \<le> 11" "0 \<le> m" "1 \<le> d" "d \<le> 31"
    using v by (auto simp: valid_civil_def days_in_month_def split: if_splits)
  moreover have "read_time (digits_padded 2 (ms mod day_ms div 3600000) @ '':'' @
      digits_padded 2 (ms mod day_ms div 60000 mod 60) @ '':'' @
      digits_padded 2 (ms mod day_ms div 1000 mod 60) @ ''.'' @
      digits_padded 3 (ms mod day_ms mod 1000) @ ''Z'') = Some (ms mod day_ms)"
    by (rule read_time_iso) (simp_all add: day_ms_def)
  moreover have "make_day y m d = ms div day_ms" using c by (rule make_day_civil_of_day)
  ultimately show ?thesis
    using assms v unfolding to_iso_def Let_def
    by (simp add: date_parse_def read_digits_padded)
qed

end
