(* ===== verification/LogStore.thy ===== *)
theory LogStore
  imports JsDate "HOL-Library.Sublist"
begin

text \<open>
  \<open>features/logs/log-store.ts\<close>: the session event log, a bounded buffer whose appends are batched
  by a timer and whose debug bursts are rate limited. The first section is the interface the log
  shares with the cleared-notification store: keeping the newest part of a list.
\<close>

section \<open>Keeping the newest\<close>

locale keep_newest =
  fixes keep :: "nat \<Rightarrow> 'a list \<Rightarrow> 'a list"
  assumes keep_suffix: "suffix (keep n xs) xs"
    and keep_length: "0 < n \<Longrightarrow> length (keep n xs) = min n (length xs)"
begin

lemma keep_eq:
  assumes "0 < n"
  shows "keep n xs = drop (length xs - n) xs"
proof -
  obtain zs where zs: "xs = zs @ keep n xs" using keep_suffix [of n xs] by (auto simp: suffix_def)
  then have "length xs = length zs + length (keep n xs)" by (metis length_append)
  then have "length xs - n = length zs" using keep_length [OF assms, of xs] by auto
  then show ?thesis using zs by (metis append_eq_conv_conj)
qed

lemma keep_all: "0 < n \<Longrightarrow> length xs \<le> n \<Longrightarrow> keep n xs = xs"
  by (simp add: keep_eq)

text \<open>Batching does not matter: trimming between two appends changes nothing.\<close>

lemma keep_append: "0 < n \<Longrightarrow> keep n (keep n xs @ ys) = keep n (xs @ ys)"
  by (cases "length xs \<le> n") (simp_all add: keep_eq add.commute)

lemma set_keep: "set (keep n xs) \<subseteq> set xs"
  using keep_suffix by (rule set_mono_suffix)

lemma distinct_keep: "distinct xs \<Longrightarrow> distinct (keep n xs)"
  using keep_suffix [of n xs] by (metis distinct_append suffix_def)

lemma newest_kept: "0 < n \<Longrightarrow> xs \<noteq> [] \<Longrightarrow> last xs \<in> set (keep n xs)"
  by (metis diff_less in_set_conv_nth keep_eq last_conv_nth last_drop last_in_set length_greater_0_conv
      drop_eq_Nil not_le)

end

text \<open>\<open>slice(-n)\<close>; \<open>slice(-0)\<close> is the whole array.\<close>

definition slice_last :: "nat \<Rightarrow> 'a list \<Rightarrow> 'a list" where
  "slice_last n xs = (if n = 0 then xs else take_last n xs)"

section \<open>Entries\<close>

datatype log_level = Debug | Info | Warn | Error

fun level_rank :: "log_level \<Rightarrow> nat" where
  "level_rank Debug = 0"
| "level_rank Info = 1"
| "level_rank Warn = 2"
| "level_rank Error = 3"

datatype log_source =
    SrcStream | SrcTrack | SrcDetection | SrcSensor | SrcCapture | SrcSpectrum | SrcDeploy | SrcApi
  | SrcUi

datatype detail_value = DStr string | DNum real | DBool bool | DNull

type_synonym log_detail = "(string \<times> detail_value) list"

record log_entry =
  le_id :: nat
  le_at :: string
  le_level :: log_level
  le_source :: log_source
  le_message :: string
  le_detail :: "log_detail option"
  le_track_id :: "string option"

record log_input =
  li_at :: "string option"
  li_level :: log_level
  li_source :: log_source
  li_message :: string
  li_detail :: "log_detail option"
  li_track_id :: "string option"

definition default_limit :: nat where "default_limit = 1000"
definition debug_burst_limit :: nat where "debug_burst_limit = 12"
definition debug_burst_window_ms :: int where "debug_burst_window_ms = 1000"

section \<open>The store\<close>

text \<open>
  \<open>ls_timer\<close> says whether a flush is scheduled; \<open>ls_emits\<close> counts the notifications sent to the
  subscribers, the only thing \<open>emit\<close> does.
\<close>

record log_store =
  ls_entries :: "log_entry list"
  ls_pending :: "log_entry list"
  ls_timer :: bool
  ls_next_id :: nat
  ls_limit :: nat
  ls_dropped :: nat
  ls_debug_window_start :: int
  ls_debug_window_count :: nat
  ls_suppressed_debug :: nat
  ls_emits :: nat

definition new_log_store :: log_store where
  "new_log_store = \<lparr> ls_entries = [], ls_pending = [], ls_timer = False, ls_next_id = 1,
     ls_limit = default_limit, ls_dropped = 0, ls_debug_window_start = 0,
     ls_debug_window_count = 0, ls_suppressed_debug = 0, ls_emits = 0 \<rparr>"

definition log_emit :: "log_store \<Rightarrow> log_store" where
  "log_emit s = s\<lparr> ls_emits := Suc (ls_emits s) \<rparr>"

definition log_schedule :: "log_store \<Rightarrow> log_store" where
  "log_schedule s = (if ls_timer s then s else s\<lparr> ls_timer := True \<rparr>)"

definition log_push :: "int \<Rightarrow> log_input \<Rightarrow> log_store \<Rightarrow> log_store" where
  "log_push now input s =
     (let entry = \<lparr> le_id = ls_next_id s, le_at = nullish (li_at input) (to_iso now),
                    le_level = li_level input, le_source = li_source input,
                    le_message = li_message input, le_detail = li_detail input,
                    le_track_id = li_track_id input \<rparr>
      in log_schedule (s\<lparr> ls_pending := ls_pending s @ [entry], ls_next_id := Suc (ls_next_id s) \<rparr>))"

definition is_debug_throttled :: "int \<Rightarrow> log_store \<Rightarrow> bool \<times> log_store" where
  "is_debug_throttled now s =
     (let s1 = (if now - ls_debug_window_start s > debug_burst_window_ms
                then s\<lparr> ls_debug_window_start := now, ls_debug_window_count := 0 \<rparr> else s);
          s2 = s1\<lparr> ls_debug_window_count := Suc (ls_debug_window_count s1) \<rparr>
      in (debug_burst_limit < ls_debug_window_count s2, s2))"

definition suppressed_input :: "nat \<Rightarrow> log_input" where
  "suppressed_input k =
     \<lparr> li_at = None, li_level = Debug, li_source = SrcUi,
       li_message = digits_of_nat k @ '' further detection '' @
         (if k = 1 then ''entry'' else ''entries'') @ '' not logged (rate limit)'',
       li_detail = None, li_track_id = None \<rparr>"

definition log_append :: "int \<Rightarrow> log_input \<Rightarrow> log_store \<Rightarrow> log_store" where
  "log_append now input s =
     (let (throttled, s1) = (if li_level input = Debug then is_debug_throttled now s else (False, s))
      in if throttled then s1\<lparr> ls_suppressed_debug := Suc (ls_suppressed_debug s1) \<rparr>
         else
           let s2 = (if 0 < ls_suppressed_debug s1 \<and> li_level input \<noteq> Debug
                     then log_push now (suppressed_input (ls_suppressed_debug s1))
                            (s1\<lparr> ls_suppressed_debug := 0 \<rparr>)
                     else s1)
           in log_push now input s2)"

definition log_keep :: "nat \<Rightarrow> 'a list \<Rightarrow> 'a list" where
  "log_keep limit xs = (if limit < length xs then slice_last limit xs else xs)"

definition log_flush :: "log_store \<Rightarrow> log_store" where
  "log_flush s =
     (if ls_pending s = [] then s
      else
        let merged = ls_entries s @ ls_pending s
        in log_emit (s\<lparr> ls_pending := [], ls_entries := log_keep (ls_limit s) merged,
             ls_dropped := ls_dropped s + (length merged - ls_limit s) \<rparr>))"

definition log_timer :: "log_store \<Rightarrow> log_store" where
  "log_timer s = (if ls_timer s then log_flush (s\<lparr> ls_timer := False \<rparr>) else s)"

definition clamp_limit :: "int \<Rightarrow> nat" where
  "clamp_limit limit = nat (max 50 (min 10000 limit))"

lemma clamp_limit_bounds: "50 \<le> clamp_limit limit" "clamp_limit limit \<le> 10000"
  unfolding clamp_limit_def by linarith+

definition log_set_limit :: "int \<Rightarrow> log_store \<Rightarrow> log_store" where
  "log_set_limit limit s =
     (let l = clamp_limit limit; s1 = s\<lparr> ls_limit := l \<rparr>
      in if l < length (ls_entries s1)
         then log_emit (s1\<lparr> ls_dropped := ls_dropped s1 + (length (ls_entries s1) - l),
                            ls_entries := slice_last l (ls_entries s1) \<rparr>)
         else s1)"

definition log_clear :: "log_store \<Rightarrow> log_store" where
  "log_clear s = log_emit (s\<lparr> ls_entries := [], ls_pending := [], ls_dropped := 0 \<rparr>)"

datatype log_event = LogAppend int log_input | LogTimer | LogSetLimit int | LogClear

fun log_step :: "log_event \<Rightarrow> log_store \<Rightarrow> log_store" where
  "log_step (LogAppend now input) s = log_append now input s"
| "log_step LogTimer s = log_timer s"
| "log_step (LogSetLimit limit) s = log_set_limit limit s"
| "log_step LogClear s = log_clear s"

definition log_run :: "log_event list \<Rightarrow> log_store \<Rightarrow> log_store" where
  "log_run evs s = fold log_step evs s"

interpretation logk: keep_newest log_keep
proof
  fix n and xs :: "'a list"
  show "suffix (log_keep n xs) xs"
    by (auto simp: log_keep_def slice_last_def take_last_def suffix_drop)
  assume "0 < n"
  then show "length (log_keep n xs) = min n (length xs)"
    by (simp add: log_keep_def slice_last_def)
qed

section \<open>Invariant\<close>

text \<open>
  Everything held, recorded or waiting, is a contiguous run of ids ending at the last one given
  out; the buffer respects its limit; entries wait only while a flush is scheduled.
\<close>

definition log_ids :: "log_store \<Rightarrow> nat list" where
  "log_ids s = List.map le_id (ls_entries s @ ls_pending s)"

definition log_inv :: "log_store \<Rightarrow> bool" where
  "log_inv s \<longleftrightarrow>
     50 \<le> ls_limit s \<and> ls_limit s \<le> 10000 \<and> length (ls_entries s) \<le> ls_limit s \<and>
     length (log_ids s) < ls_next_id s \<and>
     log_ids s = [ls_next_id s - length (log_ids s) ..< ls_next_id s] \<and>
     (ls_pending s \<noteq> [] \<longrightarrow> ls_timer s)"

lemma log_inv_new [invars]: "log_inv new_log_store"
  by (simp add: log_inv_def new_log_store_def log_ids_def default_limit_def)

lemma log_schedule_simps [simp]:
  "ls_entries (log_schedule s) = ls_entries s" "ls_pending (log_schedule s) = ls_pending s"
  "ls_timer (log_schedule s)" "ls_next_id (log_schedule s) = ls_next_id s"
  "ls_limit (log_schedule s) = ls_limit s" "ls_dropped (log_schedule s) = ls_dropped s"
  "ls_suppressed_debug (log_schedule s) = ls_suppressed_debug s"
  by (auto simp: log_schedule_def)

lemma log_push_simps [simp]:
  "ls_entries (log_push now i s) = ls_entries s" "ls_timer (log_push now i s)"
  "ls_next_id (log_push now i s) = Suc (ls_next_id s)" "ls_limit (log_push now i s) = ls_limit s"
  "ls_dropped (log_push now i s) = ls_dropped s"
  "ls_suppressed_debug (log_push now i s) = ls_suppressed_debug s"
  "log_ids (log_push now i s) = log_ids s @ [ls_next_id s]"
  by (simp_all add: log_push_def Let_def log_ids_def)

lemma log_inv_push: "log_inv s \<Longrightarrow> log_inv (log_push now i s)"
  by (auto simp: log_inv_def)

lemma is_debug_throttled_frame:
  assumes "is_debug_throttled now s = (b, s')"
  shows "ls_entries s' = ls_entries s" "ls_pending s' = ls_pending s" "ls_timer s' = ls_timer s"
    "ls_next_id s' = ls_next_id s" "ls_limit s' = ls_limit s" "ls_dropped s' = ls_dropped s"
    "ls_suppressed_debug s' = ls_suppressed_debug s" "log_ids s' = log_ids s"
  using assms by (auto simp: is_debug_throttled_def Let_def log_ids_def split: if_splits)

lemma log_inv_throttled: "is_debug_throttled now s = (b, s') \<Longrightarrow> log_inv s \<Longrightarrow> log_inv s'"
  by (simp add: log_inv_def is_debug_throttled_frame)

lemma log_inv_suppressed [simp]:
  "log_inv (s\<lparr> ls_suppressed_debug := k \<rparr>) = log_inv s"
  "log_ids (s\<lparr> ls_suppressed_debug := k \<rparr>) = log_ids s"
  by (simp_all add: log_inv_def log_ids_def)

lemma log_inv_append [invars]: "log_inv s \<Longrightarrow> log_inv (log_append now input s)"
  unfolding log_append_def Let_def
  by (auto split: prod.splits if_splits intro!: log_inv_push dest: log_inv_throttled)

lemma upt_suffix:
  assumes "suffix ys [a ..< b]" and "a \<le> b"
  shows "ys = [b - length ys ..< b]"
proof -
  obtain zs where zs: "[a ..< b] = zs @ ys" using assms(1) by (auto simp: suffix_def)
  then have "ys = drop (length zs) [a ..< b]" by simp
  moreover have "length zs + length ys = b - a" using zs by (metis length_append length_upt)
  ultimately show ?thesis using assms(2) by auto
qed

lemma log_inv_flush: "log_inv s \<Longrightarrow> log_inv (log_flush (s\<lparr> ls_timer := False \<rparr>))"
proof (cases "ls_pending s = []")
  case True
  then show "log_inv s \<Longrightarrow> ?thesis" by (simp add: log_flush_def log_inv_def log_ids_def)
next
  case False
  assume inv: "log_inv s"
  let ?m = "ls_entries s @ ls_pending s" and ?n = "ls_next_id s"
  let ?k = "log_keep (ls_limit s) ?m"
  have ids: "List.map le_id ?m = [?n - length ?m ..< ?n]" and len: "length ?m < ?n"
    using inv by (simp_all add: log_inv_def log_ids_def)
  have "suffix (List.map le_id ?k) [?n - length ?m ..< ?n]"
    unfolding ids [symmetric] by (rule map_mono_suffix) (rule logk.keep_suffix)
  then have "List.map le_id ?k = [?n - length ?k ..< ?n]"
    using upt_suffix [of "List.map le_id ?k"] by simp
  moreover have "length ?k \<le> ls_limit s" "length ?k < ?n"
    using inv len by (simp_all add: logk.keep_length log_inv_def)
  ultimately show ?thesis
    using inv False by (simp add: log_flush_def log_emit_def Let_def log_inv_def log_ids_def)
qed

lemma log_inv_timer [invars]: "log_inv s \<Longrightarrow> log_inv (log_timer s)"
  by (simp add: log_timer_def log_inv_flush)

lemma log_inv_clear [invars]: "log_inv s \<Longrightarrow> log_inv (log_clear s)"
  by (simp add: log_clear_def log_emit_def log_inv_def log_ids_def)

lemma log_set_limit_entries:
  "ls_entries (log_set_limit limit s) = log_keep (ls_limit (log_set_limit limit s)) (ls_entries s)"
  "ls_limit (log_set_limit limit s) = clamp_limit limit"
  "ls_pending (log_set_limit limit s) = ls_pending s"
  "ls_next_id (log_set_limit limit s) = ls_next_id s"
  "ls_timer (log_set_limit limit s) = ls_timer s"
  by (simp_all add: log_set_limit_def log_keep_def Let_def log_emit_def)

lemma log_inv_set_limit [invars]:
  assumes "log_inv s"
  shows "log_inv (log_set_limit limit s)"
proof -
  let ?n = "ls_next_id s" and ?p = "ls_pending s" and ?l = "clamp_limit limit"
  let ?k = "log_keep ?l (ls_entries s)"
  have ids: "List.map le_id (ls_entries s @ ?p) = [?n - length (ls_entries s @ ?p) ..< ?n]"
    and len: "length (ls_entries s @ ?p) < ?n"
    using assms by (simp_all add: log_inv_def log_ids_def)
  have "suffix (List.map le_id (?k @ ?p)) [?n - length (ls_entries s @ ?p) ..< ?n]"
    unfolding ids [symmetric]
    by (rule map_mono_suffix) (use logk.keep_suffix [of ?l "ls_entries s"] in \<open>auto simp: suffix_def\<close>)
  then have "List.map le_id (?k @ ?p) = [?n - length (?k @ ?p) ..< ?n]"
    using upt_suffix [of "List.map le_id (?k @ ?p)"] by simp
  moreover have "length ?k \<le> ?l" "length ?k \<le> length (ls_entries s)"
    using clamp_limit_bounds(1) [of limit] by (simp_all add: logk.keep_length)
  ultimately show ?thesis
    using assms len clamp_limit_bounds [of limit] by (simp add: log_inv_def log_ids_def log_set_limit_entries)
qed

lemma log_inv_step [invars]: "log_inv s \<Longrightarrow> log_inv (log_step e s)"
  by (cases e) (auto intro: invars)

lemma log_inv_run [invars]: "log_inv s \<Longrightarrow> log_inv (log_run evs s)"
  unfolding log_run_def by (induction evs arbitrary: s) (auto intro: invars)

section \<open>Nothing is lost silently\<close>

text \<open>
  \<open>log_total\<close> counts every entry since the last \<open>clear\<close>: shown, waiting, or reported as dropped.
\<close>

definition log_total :: "log_store \<Rightarrow> nat" where
  "log_total s = ls_dropped s + length (ls_entries s) + length (ls_pending s)"

lemma log_total_push [simp]: "log_total (log_push now i s) = Suc (log_total s)"
  by (simp add: log_total_def log_push_def Let_def)

lemma log_total_throttled: "is_debug_throttled now s = (b, s') \<Longrightarrow> log_total s' = log_total s"
  by (simp add: log_total_def is_debug_throttled_frame)

lemma log_total_suppressed [simp]: "log_total (s\<lparr> ls_suppressed_debug := k \<rparr>) = log_total s"
  by (simp add: log_total_def)

lemma log_total_flush:
  "0 < ls_limit s \<Longrightarrow> log_total (log_flush (s\<lparr> ls_timer := b \<rparr>)) = log_total s"
  by (auto simp: log_total_def log_flush_def log_emit_def Let_def log_keep_def slice_last_def)

lemma log_total_timer: "log_inv s \<Longrightarrow> log_total (log_timer s) = log_total s"
  by (simp add: log_timer_def log_total_flush log_inv_def)

lemma log_timer_next_id [simp]: "ls_next_id (log_timer s) = ls_next_id s"
  by (simp add: log_timer_def log_flush_def log_emit_def Let_def)

lemma log_total_set_limit [simp]: "log_total (log_set_limit limit s) = log_total s"
  using clamp_limit_bounds(1) [of limit]
  by (auto simp: log_total_def log_set_limit_def log_emit_def Let_def slice_last_def)

lemma log_append_total:
  "log_total (log_append now input s) + ls_next_id s = log_total s + ls_next_id (log_append now input s)"
  by (auto simp: log_append_def Let_def is_debug_throttled_frame log_total_throttled
      split: prod.splits if_splits)

lemma log_step_total:
  "e \<noteq> LogClear \<Longrightarrow> log_inv s \<Longrightarrow>
   log_total (log_step e s) + ls_next_id s = log_total s + ls_next_id (log_step e s)"
proof (cases e)
  case (LogAppend now input)
  then show ?thesis by (simp add: log_append_total)
next
  case LogTimer
  assume "log_inv s"
  with LogTimer show ?thesis by (simp add: log_total_timer)
next
  case (LogSetLimit l)
  then show ?thesis by (simp add: log_set_limit_entries)
qed simp

lemma log_run_total:
  "LogClear \<notin> set evs \<Longrightarrow> log_inv s \<Longrightarrow>
   log_total (log_run evs s) + ls_next_id s = log_total s + ls_next_id (log_run evs s)"
proof (induction evs arbitrary: s)
  case Nil
  then show ?case by (simp add: log_run_def)
next
  case (Cons e evs)
  have "log_total (log_run evs (log_step e s)) + ls_next_id (log_step e s) =
      log_total (log_step e s) + ls_next_id (log_run evs (log_step e s))"
    using Cons.prems by (intro Cons.IH) (auto intro: invars)
  moreover have "log_total (log_step e s) + ls_next_id s = log_total s + ls_next_id (log_step e s)"
    using Cons.prems by (intro log_step_total) auto
  ultimately show ?case by (simp add: log_run_def)
qed

text \<open>The events up to the last clear, and how many entries the appends of a run put in the log.\<close>

definition until_clear :: "log_event list \<Rightarrow> log_event list" where
  "until_clear evs = rev (dropWhile (\<lambda>e. e \<noteq> LogClear) (rev evs))"

fun entries_recorded :: "log_event list \<Rightarrow> log_store \<Rightarrow> nat" where
  "entries_recorded [] s = 0"
| "entries_recorded (LogAppend now i # evs) s =
     length (ls_pending (log_append now i s)) - length (ls_pending s) +
       entries_recorded evs (log_append now i s)"
| "entries_recorded (e # evs) s = entries_recorded evs (log_step e s)"

lemma log_account:
  "log_total (log_run evs new_log_store) + ls_next_id (log_run (until_clear evs) new_log_store) =
   ls_next_id (log_run evs new_log_store)"
proof -
  define after where "after = rev (takeWhile (\<lambda>e. e \<noteq> LogClear) (rev evs))"
  have split: "evs = until_clear evs @ after"
    by (metis after_def until_clear_def rev_append rev_rev_ident takeWhile_dropWhile_id)
  have none: "LogClear \<notin> set after" by (auto simp: after_def dest: set_takeWhileD)
  let ?s = "log_run (until_clear evs) new_log_store"
  have "log_total ?s + ls_next_id ?s = ls_next_id ?s + log_total ?s" by simp
  moreover have "until_clear evs = [] \<or> (\<exists>before. until_clear evs = before @ [LogClear])"
    using hd_dropWhile [of "\<lambda>e. e \<noteq> LogClear" "rev evs"]
    by (cases "dropWhile (\<lambda>e. e \<noteq> LogClear) (rev evs)") (auto simp: until_clear_def)
  then have "log_total ?s = (if until_clear evs = [] then log_total new_log_store else 0)"
    by (auto simp: log_run_def log_total_def log_clear_def log_emit_def)
  then have "log_total ?s = 0" by (auto simp: log_total_def new_log_store_def)
  moreover have "log_run evs new_log_store = log_run after ?s"
    using split by (metis fold_append comp_apply log_run_def)
  ultimately show ?thesis
    using log_run_total [OF none log_inv_run [OF log_inv_new, of "until_clear evs"]] by simp
qed

lemma log_append_ids:
  "ls_next_id (log_append now i s) = ls_next_id s + (length (ls_pending (log_append now i s)) - length (ls_pending s))"
  by (auto simp: log_append_def Let_def log_push_def log_schedule_def is_debug_throttled_frame split: prod.splits)

lemma log_ids_recorded: "ls_next_id (log_run evs s) = ls_next_id s + entries_recorded evs s"
proof (induction evs s rule: entries_recorded.induct)
  case (2 now i evs s)
  then show ?case using log_append_ids [of now i s] by (simp add: log_run_def)
qed (simp_all add: log_run_def log_timer_def log_flush_def log_emit_def log_set_limit_def log_clear_def Let_def)

section \<open>The rate limit\<close>

text \<open>\<open>debug_inputs\<close> appended one after another: how many are recorded.\<close>

fun debug_burst :: "(int \<times> log_input) list \<Rightarrow> log_store \<Rightarrow> nat" where
  "debug_burst [] s = 0"
| "debug_burst ((now, i) # rest) s =
     (let s' = log_append now i s
      in (ls_next_id s' - ls_next_id s) + debug_burst rest s')"

lemma log_append_debug:
  assumes "li_level i = Debug"
  shows "ls_next_id (log_append now i s) - ls_next_id s =
      (if fst (is_debug_throttled now s) then 0 else 1)"
    and "ls_debug_window_start (log_append now i s) =
      ls_debug_window_start (snd (is_debug_throttled now s))"
    and "ls_debug_window_count (log_append now i s) =
      ls_debug_window_count (snd (is_debug_throttled now s))"
  using assms
  by (auto simp: log_append_def Let_def log_push_def log_schedule_def is_debug_throttled_frame
      split: prod.splits if_splits)

lemma debug_burst_one_window:
  assumes "\<forall>(now, i) \<in> set xs. li_level i = Debug \<and> now - ls_debug_window_start s \<le> debug_burst_window_ms"
  shows "debug_burst xs s \<le> debug_burst_limit - ls_debug_window_count s"
  using assms
proof (induction xs arbitrary: s)
  case Nil
  then show ?case by simp
next
  case (Cons x xs)
  obtain now i where x: "x = (now, i)" by (cases x)
  have i: "li_level i = Debug" and w: "\<not> debug_burst_window_ms < now - ls_debug_window_start s"
    using Cons.prems x by auto
  let ?s' = "log_append now i s"
  have s': "ls_debug_window_start ?s' = ls_debug_window_start s"
    "ls_debug_window_count ?s' = Suc (ls_debug_window_count s)"
    "ls_next_id ?s' - ls_next_id s = (if debug_burst_limit < Suc (ls_debug_window_count s) then 0 else 1)"
    using w by (simp_all add: log_append_debug [OF i] is_debug_throttled_def Let_def)
  have "debug_burst xs ?s' \<le> debug_burst_limit - ls_debug_window_count ?s'"
    by (rule Cons.IH) (use Cons.prems s' in auto)
  then have "debug_burst xs ?s' \<le> debug_burst_limit - Suc (ls_debug_window_count s)"
    by (simp only: s')
  moreover have "debug_burst (x # xs) s =
      (if debug_burst_limit < Suc (ls_debug_window_count s) then 0 else 1) + debug_burst xs ?s'"
    using s' by (simp add: x Let_def)
  ultimately show ?case by (auto split: if_splits)
qed

section \<open>Batching is invisible\<close>

text \<open>
  The reference log never flushes: its history is everything ever pushed. Whatever timers fire in
  between, the log holds the newest part of that history.
\<close>

fun is_append :: "log_event \<Rightarrow> bool" where
  "is_append (LogAppend _ _) = True"
| "is_append _ = False"

definition same_clock :: "log_store \<Rightarrow> log_store \<Rightarrow> bool" where
  "same_clock s u \<longleftrightarrow>
     ls_next_id s = ls_next_id u \<and> ls_limit s = ls_limit u \<and> 0 < ls_limit u \<and>
     ls_debug_window_start s = ls_debug_window_start u \<and>
     ls_debug_window_count s = ls_debug_window_count u \<and>
     ls_suppressed_debug s = ls_suppressed_debug u"

definition shadows :: "log_store \<Rightarrow> log_store \<Rightarrow> bool" where
  "shadows s u \<longleftrightarrow> same_clock s u \<and>
     log_keep (ls_limit u) (ls_entries s @ ls_pending s) = log_keep (ls_limit u) (ls_pending u)"

lemma keep_snoc_cong:
  "0 < n \<Longrightarrow> log_keep n xs = log_keep n ys \<Longrightarrow> log_keep n (xs @ [z]) = log_keep n (ys @ [z])"
  by (metis logk.keep_append)

lemma shadows_push: "shadows s u \<Longrightarrow> shadows (log_push now i s) (log_push now i u)"
  using keep_snoc_cong [of "ls_limit u" "ls_entries s @ ls_pending s" "ls_pending u"]
  by (simp add: shadows_def same_clock_def log_push_def log_schedule_def Let_def)

lemma shadows_throttled:
  "shadows s u \<Longrightarrow> fst (is_debug_throttled now s) = fst (is_debug_throttled now u) \<and>
     shadows (snd (is_debug_throttled now s)) (snd (is_debug_throttled now u))"
  by (simp add: shadows_def same_clock_def is_debug_throttled_def Let_def)

lemma shadows_suppressed:
  "shadows s u \<Longrightarrow> shadows (s\<lparr> ls_suppressed_debug := k \<rparr>) (u\<lparr> ls_suppressed_debug := k \<rparr>)"
  by (simp add: shadows_def same_clock_def)

lemma shadows_suppressed_eq: "shadows s u \<Longrightarrow> ls_suppressed_debug s = ls_suppressed_debug u"
  by (simp add: shadows_def same_clock_def)

lemma shadows_append: "shadows s u \<Longrightarrow> shadows (log_append now i s) (log_append now i u)"
  using shadows_throttled [of s u now]
  by (auto simp: log_append_def Let_def shadows_suppressed_eq split_def
      intro!: shadows_push shadows_suppressed)

lemma shadows_timer:
  assumes "shadows s u"
  shows "shadows (log_timer s) u"
proof -
  have "0 < ls_limit u" using assms by (simp add: shadows_def same_clock_def)
  then have "log_keep (ls_limit u) (log_keep (ls_limit u) xs) = log_keep (ls_limit u) xs"
    for xs :: "log_entry list"
    using logk.keep_append [of "ls_limit u" xs "[]"] by simp
  then show ?thesis
    using assms
    by (cases "ls_pending s = []")
      (auto simp: shadows_def same_clock_def log_timer_def log_flush_def log_emit_def Let_def)
qed

lemma shadows_run:
  assumes "shadows s u" "\<forall>e \<in> set evs. is_append e \<or> e = LogTimer"
  shows "shadows (log_run evs s) (log_run (List.filter is_append evs) u)"
  using assms
proof (induction evs arbitrary: s u)
  case Nil
  then show ?case by (simp add: log_run_def)
next
  case (Cons e evs)
  show ?case
  proof (cases e)
    case (LogAppend now i)
    then show ?thesis using Cons.IH [OF shadows_append] Cons.prems by (simp add: log_run_def)
  next
    case LogTimer
    then show ?thesis using Cons.IH [OF shadows_timer] Cons.prems by (simp add: log_run_def)
  qed (use Cons.prems in auto)
qed

section \<open>Properties\<close>

text \<open>C5: Whatever is appended, whenever the timer fires, the limit changes or the log is cleared,
  the buffer stays within its limit of 50 to 10000 entries, what it holds and what waits is one
  contiguous run of ids up to the last one given out, and entries wait only while a flush is
  scheduled.\<close>

theorem log_invariant: "log_inv (log_run evs new_log_store)"
  by (intro log_inv_run log_inv_new)

text \<open>C6: Nothing is lost silently, and clearing starts the account afresh: after any run, however often it
  cleared the log, every id handed out since the last clear (or since the start) is an entry shown, an
  entry waiting, or one the \<open>dropped\<close> counter reports, and there are no others; right after a clear
  all three are zero. Ids are never reused: the next id is one more than the number of entries ever
  recorded, through all clears.\<close>

theorem log_nothing_lost:
  "ls_dropped (log_run evs new_log_store) + length (ls_entries (log_run evs new_log_store)) +
      length (ls_pending (log_run evs new_log_store)) + ls_next_id (log_run (until_clear evs) new_log_store) =
    ls_next_id (log_run evs new_log_store) \<and>
   ls_next_id (log_run evs new_log_store) = 1 + entries_recorded evs new_log_store"
  using log_account [of evs] log_ids_recorded [of evs new_log_store] by (simp add: log_total_def new_log_store_def)

definition sample_input :: "log_level \<Rightarrow> log_input" where
  "sample_input l = \<lparr> li_at = Some ''2026-01-01T00:00:00.000Z'', li_level = l, li_source = SrcUi,
     li_message = ''x'', li_detail = None, li_track_id = None \<rparr>"

text \<open>Within one window of a second at most twelve debug entries are recorded, less those the
  window has already counted, however many are appended; an entry of any other level is always
  recorded, at once.\<close>

theorem debug_entries_rate_limited:
  assumes "\<forall>(now, i) \<in> set xs. li_level i = Debug \<and> now - ls_debug_window_start s \<le> debug_burst_window_ms"
    and "li_level other \<noteq> Debug"
  shows "debug_burst xs s \<le> debug_burst_limit - ls_debug_window_count s \<and>
    ls_next_id s < ls_next_id (log_append t other s)"
  using debug_burst_one_window [OF assms(1)] assms(2) by (simp_all add: log_append_def Let_def)

theorem debug_entries_rate_limited_witness:
  "debug_burst (replicate 40 (500, sample_input Debug)) new_log_store \<le>
     debug_burst_limit - ls_debug_window_count new_log_store \<and>
   ls_next_id new_log_store < ls_next_id (log_append 0 (sample_input Info) new_log_store)"
  by (rule debug_entries_rate_limited)
    (simp_all add: sample_input_def new_log_store_def debug_burst_window_ms_def)

text \<open>C12: Batching is invisible: after any run of appends and timers, once the pending entries are
  flushed the log shows exactly the newest \<open>limit\<close> entries of what a log that never flushes has
  collected.\<close>

theorem log_batching_invisible:
  assumes "\<forall>e \<in> set evs. is_append e \<or> e = LogTimer"
  shows "ls_entries (log_flush (log_run evs new_log_store)) =
    log_keep default_limit (ls_pending (log_run (List.filter is_append evs) new_log_store))"
proof -
  let ?s = "log_run evs new_log_store" and ?u = "log_run (List.filter is_append evs) new_log_store"
  have "shadows new_log_store new_log_store"
    by (simp add: shadows_def same_clock_def new_log_store_def default_limit_def)
  then have sh: "shadows ?s ?u" using assms by (rule shadows_run)
  have "log_inv ?s" by (intro log_inv_run log_inv_new)
  then have "length (ls_entries ?s) \<le> ls_limit ?s" by (simp add: log_inv_def)
  moreover have "ls_limit ?u = default_limit"
  proof -
    have "fold log_step (List.filter is_append evs) s = s' \<Longrightarrow> ls_limit s' = ls_limit s" for s s'
    proof (induction evs arbitrary: s)
      case (Cons e evs)
      have "ls_limit (log_append now i s) = ls_limit s" for now i
        by (auto simp: log_append_def Let_def is_debug_throttled_frame split: prod.splits if_splits)
      then show ?case using Cons by (cases e) auto
    qed simp
    then show ?thesis by (simp add: log_run_def new_log_store_def)
  qed
  ultimately show ?thesis
    using sh by (auto simp: shadows_def same_clock_def log_flush_def log_emit_def Let_def log_keep_def)
qed

theorem log_batching_invisible_witness:
  "ls_entries (log_flush (log_run [LogAppend 0 (sample_input Warn), LogTimer] new_log_store)) =
    log_keep default_limit (ls_pending (log_run (List.filter is_append
      [LogAppend 0 (sample_input Warn), LogTimer]) new_log_store))"
  by (rule log_batching_invisible) simp

end
