(* ===== verification/ApiTypes.thy ===== *)
theory ApiTypes
  imports Prelude
begin

text \<open>
  The documents the console exchanges with the API: \<open>lib/api/schema.gen.ts\<close> (Detection, Track,
  Position, generated from the JSON Schemas) and \<open>lib/api/types.ts\<close> (the rest of the contract).
  A field keeps its name under a prefix naming its record, because HOL has one name space for
  fields; an optional or nullable field is an \<^typ>\<open>'a option\<close>.
\<close>

section \<open>JSON values\<close>

datatype json =
    JNull
  | JBool bool
  | JNum real
  | JStr string
  | JArr "json list"
  | JObj "(string \<times> json) list"

section \<open>Positions, detections and tracks\<close>

datatype track_state = TENTATIVE | CONFIRMED | COASTING | CLOSED

datatype detection_class = ClassA | ClassB | ClassC | ClassD | ClassE | ClassF | ClassG | ClassH

datatype sensor_kind = Wifi | Sdr | Ble | Net

text \<open>The texts these unions are made of.\<close>

fun state_text :: "track_state \<Rightarrow> string" where
  "state_text TENTATIVE = ''TENTATIVE''"
| "state_text CONFIRMED = ''CONFIRMED''"
| "state_text COASTING = ''COASTING''"
| "state_text CLOSED = ''CLOSED''"

fun class_text :: "detection_class \<Rightarrow> string" where
  "class_text ClassA = ''A''"
| "class_text ClassB = ''B''"
| "class_text ClassC = ''C''"
| "class_text ClassD = ''D''"
| "class_text ClassE = ''E''"
| "class_text ClassF = ''F''"
| "class_text ClassG = ''G''"
| "class_text ClassH = ''H''"

fun kind_text :: "sensor_kind \<Rightarrow> string" where
  "kind_text Wifi = ''wifi''"
| "kind_text Sdr = ''sdr''"
| "kind_text Ble = ''ble''"
| "kind_text Net = ''net''"

text \<open>Their order is the order of these texts, which is what sorting an array of them uses.\<close>

lemma class_text_inject: "class_text a = class_text b \<longleftrightarrow> a = b"
  by (cases a; cases b; simp)

lemma kind_text_inject: "kind_text a = kind_text b \<longleftrightarrow> a = b"
  by (cases a; cases b; simp)

instantiation detection_class :: linorder
begin

definition less_eq_detection_class :: "detection_class \<Rightarrow> detection_class \<Rightarrow> bool" where
  "less_eq_detection_class a b \<longleftrightarrow> class_text a \<le> class_text b"

definition less_detection_class :: "detection_class \<Rightarrow> detection_class \<Rightarrow> bool" where
  "less_detection_class a b \<longleftrightarrow> class_text a < class_text b"

instance
  by standard (auto simp: less_eq_detection_class_def less_detection_class_def class_text_inject
      dest: antisym)

end

instantiation sensor_kind :: linorder
begin

definition less_eq_sensor_kind :: "sensor_kind \<Rightarrow> sensor_kind \<Rightarrow> bool" where
  "less_eq_sensor_kind a b \<longleftrightarrow> kind_text a \<le> kind_text b"

definition less_sensor_kind :: "sensor_kind \<Rightarrow> sensor_kind \<Rightarrow> bool" where
  "less_sensor_kind a b \<longleftrightarrow> kind_text a < kind_text b"

instance
  by standard (auto simp: less_eq_sensor_kind_def less_sensor_kind_def kind_text_inject dest: antisym)

end

record position =
  pos_lat :: real
  pos_lon :: real
  pos_alt_geodetic_m :: "real option"
  pos_height_agl_m :: "real option"
  pos_terrain_elevation_m :: "real option"
  pos_speed_mps :: "real option"
  pos_track_deg :: "real option"
  pos_at :: "string option"

record detection_rf =
  rf_freq_hz :: "real option"
  rf_channel :: "int option"
  rf_rssi_dbm :: "real option"
  rf_bandwidth_hz :: "real option"
  rf_snr_db :: "real option"

record detection_identity =
  di_serial :: "string option"
  di_mac :: "string option"
  di_id_type :: "string option"
  di_ua_type :: "string option"
  di_operator_id :: "string option"
  di_self_id :: "string option"
  di_vendor_hint :: "string option"

record detection_position =
  dp_lat :: "real option"
  dp_lon :: "real option"
  dp_alt_geodetic_m :: "real option"
  dp_alt_pressure_m :: "real option"
  dp_height_agl_m :: "real option"
  dp_h_accuracy_m :: "real option"
  dp_v_accuracy_m :: "real option"

record detection_kinematics =
  dk_speed_mps :: "real option"
  dk_track_deg :: "real option"
  dk_vertical_speed_mps :: "real option"

record detection_adsb =
  adsb_icao :: string
  adsb_callsign :: "string option"
  adsb_alt_ft :: "real option"
  adsb_ground_speed_kt :: "real option"

record detection_operator =
  do_lat :: "real option"
  do_lon :: "real option"
  do_alt_m :: "real option"

record signal_features =
  sf_burst_rate_hz :: "real option"
  sf_burst_duration_us :: "real option"
  sf_duty_cycle :: "real option"
  sf_hop_count :: "int option"
  sf_occupied_bw_hz :: "real option"
  sf_protocol_hint :: "string option"

record detection_raw =
  raw_encoding :: string
  raw_bytes :: string
  raw_parser :: string

record detection =
  det_detection_id :: string
  det_ts :: string
  det_sensor_id :: string
  det_sensor_kind :: sensor_kind
  det_class :: detection_class
  det_rf :: "detection_rf option"
  det_identity :: "detection_identity option"
  det_position :: "detection_position option"
  det_kinematics :: "detection_kinematics option"
  det_operator :: "detection_operator option"
  det_signal_features :: "signal_features option"
  det_adsb :: "detection_adsb option"
  det_raw :: "detection_raw option"

record evidence =
  ev_class :: detection_class
  ev_sensor_kind :: sensor_kind
  ev_weight :: real
  ev_count :: int
  ev_last_seen :: "string option"

record receiver =
  rcv_sensor_id :: string
  rcv_sensor_kind :: sensor_kind
  rcv_detection_count :: int
  rcv_rssi_dbm :: "real option"
  rcv_last_seen :: "string option"

record track_identity =
  id_serial :: "string option"
  id_macs :: "string list option"
  id_vendor :: "string option"
  id_manufacturer_code :: "string option"
  id_model_hint :: "string option"
  id_operator_id :: "string option"
  id_ua_type :: "string option"

record track =
  trk_track_id :: string
  trk_state :: track_state
  trk_first_seen :: string
  trk_last_seen :: string
  trk_detection_count :: int
  trk_identity :: "track_identity option"
  trk_confidence :: real
  trk_evidence :: "evidence list option"
  trk_current :: "position option"
  trk_history :: "position list option"
  trk_operator :: "position option"
  trk_rssi_dbm :: "real option"
  trk_receivers :: "receiver list option"
  trk_adsb_correlated :: "bool option"

text \<open>Optional chaining through \<open>identity\<close>, as \<open>track.identity?.serial\<close>.\<close>

definition trk_serial :: "track \<Rightarrow> string option" where
  "trk_serial t = Option.bind (trk_identity t) id_serial"

definition trk_vendor :: "track \<Rightarrow> string option" where
  "trk_vendor t = Option.bind (trk_identity t) id_vendor"

definition trk_ua_type :: "track \<Rightarrow> string option" where
  "trk_ua_type t = Option.bind (trk_identity t) id_ua_type"

definition trk_macs :: "track \<Rightarrow> string list" where
  "trk_macs t = nullish (Option.bind (trk_identity t) id_macs) []"

definition trk_first_mac :: "track \<Rightarrow> string option" where
  "trk_first_mac t = (case trk_macs t of [] \<Rightarrow> None | m # _ \<Rightarrow> Some m)"

section \<open>Health, monitoring, captures and sweeps\<close>

datatype system_status = StatusOk | StatusDegraded | StatusDown

fun status_text :: "system_status \<Rightarrow> string" where
  "status_text StatusOk = ''ok''"
| "status_text StatusDegraded = ''degraded''"
| "status_text StatusDown = ''down''"

record sensor_capture_config =
  scc_supported :: bool
  scc_interface :: "string option"
  scc_channel :: "int option"
  scc_duration_s :: "real option"
  scc_label :: "string option"

record sensor_runtime_config =
  src_unit :: string
  src_stale_after_s :: real
  src_expected :: bool
  src_restart_command :: string
  src_restart_available :: bool
  src_restart_unavailable_reason :: "string option"
  src_capture :: sensor_capture_config

record sensor_health =
  sh_sensor_id :: string
  sh_sensor_kind :: sensor_kind
  sh_healthy :: bool
  sh_last_heartbeat :: string
  sh_seconds_since_heartbeat :: real
  sh_detections_5m :: "int option"
  sh_reason :: "string option"
  sh_detail :: "(string \<times> json) list option"
  sh_optional :: "bool option"
  sh_config :: "sensor_runtime_config option"

record health =
  hl_status :: system_status
  hl_uptime_s :: real
  hl_version :: string
  hl_sensors :: "sensor_health list"

record monitoring_state =
  mon_enabled :: bool
  mon_since :: string
  mon_reason :: "string option"
  mon_discarded_while_paused :: int

datatype run_state = Running | Completed | Failed

fun run_state_text :: "run_state \<Rightarrow> string" where
  "run_state_text Running = ''running''"
| "run_state_text Completed = ''completed''"
| "run_state_text Failed = ''failed''"

record capture_analysis =
  ca_analyzed :: bool
  ca_drone_transmitters :: "int option"
  ca_class_a :: "int option"
  ca_class_b :: "int option"

record capture =
  cap_capture_id :: string
  cap_filename :: string
  cap_state :: run_state
  cap_started_at :: string
  cap_ended_at :: "string option"
  cap_iface :: string
  cap_channel :: int
  cap_duration_s :: real
  cap_size_bytes :: int
  cap_frame_count :: int
  cap_label :: "string option"
  cap_error :: "string option"
  cap_analysis :: "capture_analysis option"

record spectrum_sweep =
  sw_sweep_id :: string
  sw_band :: string
  sw_state :: run_state
  sw_started_at :: string
  sw_ended_at :: "string option"
  sw_class :: "string option"
  sw_note :: "string option"
  sw_start_hz :: "real option"
  sw_stop_hz :: "real option"
  sw_steps :: "int option"
  sw_noise_floor_dbfs :: "real option"
  sw_threshold_dbfs :: "real option"
  sw_peak_dbfs :: "real option"
  sw_peak_hz :: "real option"
  sw_short_reads :: "int option"
  sw_error :: "string option"

section \<open>Responses and queries\<close>

record tracks_response =
  tr_tracks :: "track list"
  tr_next_cursor :: "string option"
  tr_total :: int

record detections_response =
  dr_detections :: "detection list"
  dr_next_cursor :: "string option"
  dr_total :: int

record tracks_query =
  tq_state :: "track_state list option"
  tq_since :: "string option"
  tq_until :: "string option"
  tq_serial :: "string option"
  tq_vendor :: "string option"
  tq_min_confidence :: "real option"
  tq_limit :: "int option"
  tq_cursor :: "string option"

definition empty_tracks_query :: tracks_query where
  "empty_tracks_query = \<lparr> tq_state = None, tq_since = None, tq_until = None, tq_serial = None,
     tq_vendor = None, tq_min_confidence = None, tq_limit = None, tq_cursor = None \<rparr>"

record detections_query =
  dq_class :: "detection_class list option"
  dq_sensor_id :: "string option"
  dq_since :: "string option"
  dq_limit :: "int option"
  dq_cursor :: "string option"

record sweeps_response =
  sr_sweeps :: "spectrum_sweep list"

datatype aircraft_flag = NoFlag | Known | Watch | Ignore

record aircraft_label =
  al_serial :: string
  al_label :: string
  al_flag :: aircraft_flag
  al_updated_at :: string

section \<open>The live stream's frames\<close>

text \<open>
  The constant \<open>schema_version\<close> and the frames' own \<open>ts\<close>, which nothing in the console reads,
  are left out.
\<close>

text \<open>
  The wire form of a track: \<open>evidence\<close> may be an array or an object keyed by class, and the
  ADS-B suppression flag may be nested under \<open>suppression\<close>. \<open>raw_track\<close> carries the two shapes
  beside the fields the client passes through; \<open>rt_fields\<close>'s own evidence and flag are not used.
\<close>

datatype raw_evidence =
    EvArray "evidence list"
  | EvObject "(string \<times> evidence option) list"
  | EvAbsent

record raw_track =
  rt_fields :: track
  rt_evidence :: raw_evidence
  rt_adsb_correlated :: "bool option"
  rt_suppression_adsb_correlated :: "bool option"

datatype server_frame =
    TrackUpdate raw_track
  | TrackClosed string
  | DetectionFrame detection
  | HealthFrame health
  | CaptureStatus capture
  | SweepStatus spectrum_sweep
  | MonitoringFrame monitoring_state
  | Ping

datatype stream_topic = TopicTracks | TopicHealth | TopicDetections | TopicCaptures | TopicSpectrum

datatype client_frame = Subscribe "stream_topic list" | Pong

section \<open>Deployment and watchdog\<close>

datatype artefact_state = ArtCurrent | ArtBehind | ArtRebuilt | ArtFailed | ArtAbsent

record deployment_artefact =
  art_name :: string
  art_state :: artefact_state

record deployment_status =
  dep_configured :: bool
  dep_reason :: "string option"
  dep_commit :: "string option"
  dep_commit_subject :: "string option"
  dep_commit_at :: "string option"
  dep_last_check_at :: "string option"
  dep_last_result :: "string option"
  dep_last_reason :: "string option"
  dep_last_deploy_at :: "string option"
  dep_last_deploy_commit :: "string option"
  dep_last_deploy_ok :: "bool option"
  dep_remote_commit :: "string option"
  dep_remote_ci :: "string option"
  dep_timer_enabled :: "bool option"
  dep_update_available :: bool
  dep_deploy_requested :: bool
  dep_state_age_s :: "real option"
  dep_artefacts :: "deployment_artefact list option"
  dep_log :: "string list option"

record watchdog_status =
  wd_configured :: bool
  wd_reason :: "string option"
  wd_last_check_at :: "string option"
  wd_actions_taken :: int
  wd_needs_hands :: "string option"
  wd_api_healthy :: bool
  wd_wifi_adapter_present :: bool
  wd_wifi_tplink_adapter_present :: "bool option"
  wd_sdr_present :: bool
  wd_state_age_s :: "real option"
  wd_log :: "string list option"

section \<open>Receiver position and roles\<close>

record latlon =
  ll_lat :: real
  ll_lon :: real

text \<open>\<open>asReceiverPosition\<close>: the settings value is checked, not cast.\<close>

definition as_receiver_position :: "json \<Rightarrow> latlon option" where
  "as_receiver_position value =
     (case value of
        JObj fs \<Rightarrow>
          (case (map_of fs ''lat'', map_of fs ''lon'') of
             (Some (JNum lat), Some (JNum lon)) \<Rightarrow> Some \<lparr> ll_lat = lat, ll_lon = lon \<rparr>
           | _ \<Rightarrow> None)
      | _ \<Rightarrow> None)"

definition role_rank :: "string \<Rightarrow> nat option" where
  "role_rank r =
     (if r = ''viewer'' then Some 1 else if r = ''operator'' then Some 2
      else if r = ''admin'' then Some 3 else None)"

definition role_at_least :: "string option \<Rightarrow> string \<Rightarrow> bool" where
  "role_at_least have need =
     (if \<not> truthy have then False
      else (case (role_rank (nullish have []), role_rank need) of
              (Some a, Some b) \<Rightarrow> b \<le> a
            | _ \<Rightarrow> False))"

section \<open>Sample values\<close>

text \<open>Used by the concrete instances of the properties.\<close>

definition sample_track :: track where
  "sample_track = \<lparr> trk_track_id = ''T1'', trk_state = CONFIRMED,
     trk_first_seen = ''2026-01-01T00:00:00.000Z'', trk_last_seen = ''2026-01-01T00:00:05.000Z'',
     trk_detection_count = 4, trk_identity = None, trk_confidence = 0.9, trk_evidence = None,
     trk_current = None, trk_history = None, trk_operator = None, trk_rssi_dbm = None,
     trk_receivers = None, trk_adsb_correlated = None \<rparr>"

definition sample_raw :: "raw_evidence \<Rightarrow> raw_track" where
  "sample_raw e = \<lparr> rt_fields = sample_track, rt_evidence = e, rt_adsb_correlated = None,
     rt_suppression_adsb_correlated = None \<rparr>"

definition sample_health :: health where
  "sample_health = \<lparr> hl_status = StatusOk, hl_uptime_s = 60, hl_version = ''1'', hl_sensors = [] \<rparr>"

end
