(* ===== verification/LogBridge.thy ===== *)
theory LogBridge
  imports LogStore ApiTypes
begin

text \<open>
  \<open>features/logs/log-bridge.ts\<close>: the frame logger, which keeps the last observed shape of every
  track and sensor and writes a line only when it changed. A logger step returns the lines it
  wrote, its new state, and whether it threw: \<open>evidenceClasses\<close> calls \<open>map\<close> on the wire value of
  \<open>evidence\<close>, which is a TypeError when the value is an object.
\<close>

section \<open>State\<close>

record track_memo =
  tm_state :: track_state
  tm_confirmed :: bool
  tm_had_position :: bool

record frame_logger =
  fl_tracks :: "(string \<times> track_memo) list"
  fl_last_status :: "system_status option"
  fl_sensor_health :: "(string \<times> bool) list"
  fl_last_recording :: "bool option"

definition new_frame_logger :: frame_logger where
  "new_frame_logger = \<lparr> fl_tracks = [], fl_last_status = None, fl_sensor_health = [],
     fl_last_recording = None \<rparr>"

record log_outcome =
  lo_lines :: "log_input list"
  lo_state :: frame_logger
  lo_threw :: bool

definition done_with :: "log_input list \<Rightarrow> frame_logger \<Rightarrow> log_outcome" where
  "done_with ls s = \<lparr> lo_lines = ls, lo_state = s, lo_threw = False \<rparr>"

definition throw_with :: "log_input list \<Rightarrow> frame_logger \<Rightarrow> log_outcome" where
  "throw_with ls s = \<lparr> lo_lines = ls, lo_state = s, lo_threw = True \<rparr>"

lemma outcome_simps [simp]:
  "lo_lines (done_with ls s) = ls" "lo_state (done_with ls s) = s" "\<not> lo_threw (done_with ls s)"
  "lo_lines (throw_with ls s) = ls" "lo_state (throw_with ls s) = s" "lo_threw (throw_with ls s)"
  by (simp_all add: done_with_def throw_with_def)

section \<open>Texts\<close>

definition confirm_threshold :: real where
  "confirm_threshold = 0.6"

definition track_name :: "track \<Rightarrow> string" where
  "track_name t = nullish (or_else (trk_serial t) (trk_first_mac t)) (trk_track_id t)"

definition evidence_classes :: "raw_evidence \<Rightarrow> string option" where
  "evidence_classes e =
     (let render = (\<lambda>es. if es = [] then em_dash else concat (List.map (\<lambda>x. class_text (ev_class x)) es))
      in case e of
           EvArray es \<Rightarrow> Some (render es)
         | EvAbsent \<Rightarrow> Some (render [])
         | EvObject _ \<Rightarrow> None)"

definition arrow_text :: string where "arrow_text = '' '' @ right_arrow @ '' ''"

definition line :: "log_level \<Rightarrow> log_source \<Rightarrow> string \<Rightarrow> log_detail option \<Rightarrow> string option \<Rightarrow> log_input" where
  "line level src msg detail tid =
     \<lparr> li_at = None, li_level = level, li_source = src, li_message = msg, li_detail = detail,
       li_track_id = tid \<rparr>"

section \<open>Health\<close>

definition status_line :: "system_status \<Rightarrow> health \<Rightarrow> log_input" where
  "status_line previous h =
     line (case hl_status h of StatusOk \<Rightarrow> Info | StatusDown \<Rightarrow> Error | StatusDegraded \<Rightarrow> Warn)
       SrcSensor
       (''System status '' @ status_text previous @ arrow_text @ status_text (hl_status h))
       (Some [(''sensors'', DNum (real (length (hl_sensors h)))), (''version'', DStr (hl_version h))])
       None"

definition sensor_line :: "sensor_health \<Rightarrow> log_input" where
  "sensor_line s =
     line (if sh_healthy s then Info else Error) SrcSensor
       (''Sensor '' @ sh_sensor_id s @ (if sh_healthy s then '' recovered'' else '' unhealthy''))
       (Some ((''kind'', DStr (kind_text (sh_sensor_kind s))) #
              (if truthy (sh_reason s) then [(''reason'', DStr (nullish (sh_reason s) []))] else []) @
              [(''last_heartbeat'', DStr (sh_last_heartbeat s))]))
       None"

fun log_sensors :: "sensor_health list \<Rightarrow> (string \<times> bool) list \<Rightarrow> log_input list \<times> (string \<times> bool) list"
where
  "log_sensors [] seen = ([], seen)"
| "log_sensors (s # ss) seen =
     (let previous = map_of seen (sh_sensor_id s)
      in if previous = Some (sh_healthy s) then log_sensors ss seen
         else
           let seen' = AList.update (sh_sensor_id s) (sh_healthy s) seen;
               (ls, seen'') = log_sensors ss seen'
           in (if previous = None \<and> sh_healthy s then ls else sensor_line s # ls, seen''))"

definition on_health :: "health \<Rightarrow> frame_logger \<Rightarrow> log_input list \<times> frame_logger" where
  "on_health h s =
     (let status = (if fl_last_status s = Some (hl_status h) then []
                    else (case fl_last_status s of None \<Rightarrow> [] | Some p \<Rightarrow> [status_line p h]));
          (ls, seen) = log_sensors (hl_sensors h) (fl_sensor_health s)
      in (status @ ls, s\<lparr> fl_last_status := Some (hl_status h), fl_sensor_health := seen \<rparr>))"

section \<open>Tracks\<close>

definition opened_line :: "track \<Rightarrow> string \<Rightarrow> log_input" where
  "opened_line t classes =
     line Info SrcTrack (''Track opened: '' @ track_name t)
       (Some [(''state'', DStr (state_text (trk_state t))),
              (''confidence'', DStr (to_fixed 2 (trk_confidence t))),
              (''evidence'', DStr classes),
              (''position'', DStr (if trk_current t \<noteq> None then ''reported'' else ''none''))])
       (Some (trk_track_id t))"

definition state_line :: "track_state \<Rightarrow> track \<Rightarrow> log_input" where
  "state_line previous t =
     line (if trk_state t = COASTING then Warn else Info) SrcTrack
       (''Track '' @ track_name t @ '': '' @ state_text previous @ arrow_text @ state_text (trk_state t))
       (Some [(''confidence'', DStr (to_fixed 2 (trk_confidence t)))])
       (Some (trk_track_id t))"

definition confirmed_line :: "bool \<Rightarrow> track \<Rightarrow> string \<Rightarrow> log_input" where
  "confirmed_line confirmed t classes =
     line Info SrcTrack
       (''Track '' @ track_name t @
        (if confirmed then '' crossed the confirmation threshold''
         else '' fell below the confirmation threshold''))
       (Some [(''confidence'', DStr (to_fixed 2 (trk_confidence t))), (''evidence'', DStr classes)])
       (Some (trk_track_id t))"

definition position_line :: "bool \<Rightarrow> track \<Rightarrow> log_input" where
  "position_line has_position t =
     line (if has_position then Info else Warn) SrcTrack
       (''Track '' @ track_name t @
        (if has_position then '' started reporting position''
         else '' stopped reporting position '' @ em_dash @ '' no longer on the map''))
       None (Some (trk_track_id t))"

definition is_confirmed :: "track \<Rightarrow> bool" where
  "is_confirmed t \<longleftrightarrow> confirm_threshold \<le> trk_confidence t"

definition memo_of :: "track \<Rightarrow> track_memo" where
  "memo_of t = \<lparr> tm_state = trk_state t, tm_confirmed = is_confirmed t,
     tm_had_position = (trk_current t \<noteq> None) \<rparr>"

definition set_memo :: "string \<Rightarrow> track_memo \<Rightarrow> frame_logger \<Rightarrow> frame_logger" where
  "set_memo tid m s = s\<lparr> fl_tracks := AList.update tid m (fl_tracks s) \<rparr>"

definition log_track_update :: "raw_track \<Rightarrow> frame_logger \<Rightarrow> log_outcome" where
  "log_track_update raw s =
     (let t = rt_fields raw; tid = trk_track_id t; classes = evidence_classes (rt_evidence raw)
      in case map_of (fl_tracks s) tid of
           None \<Rightarrow>
             let s1 = set_memo tid (memo_of t) s
             in (case classes of None \<Rightarrow> throw_with [] s1 | Some c \<Rightarrow> done_with [opened_line t c] s1)
         | Some memo \<Rightarrow>
             let l1 = (if tm_state memo \<noteq> trk_state t then [state_line (tm_state memo) t] else []);
                 m1 = memo\<lparr> tm_state := trk_state t \<rparr>;
                 crossed = (tm_confirmed memo \<noteq> is_confirmed t)
             in if crossed \<and> classes = None then throw_with l1 (set_memo tid m1 s)
                else
                  let l2 = (if crossed then [confirmed_line (is_confirmed t) t (the classes)] else []);
                      moved = (tm_had_position memo \<noteq> (trk_current t \<noteq> None));
                      l3 = (if moved then [position_line (trk_current t \<noteq> None) t] else [])
                  in done_with (l1 @ l2 @ l3) (set_memo tid (memo_of t) s))"

definition log_track_closed :: "string \<Rightarrow> frame_logger \<Rightarrow> log_outcome" where
  "log_track_closed tid s =
     done_with
       [line Info SrcTrack (''Track closed: '' @ tid)
          (case map_of (fl_tracks s) tid of None \<Rightarrow> None
           | Some memo \<Rightarrow> Some [(''last_state'', DStr (state_text (tm_state memo)))])
          (Some tid)]
       (s\<lparr> fl_tracks := AList.delete tid (fl_tracks s) \<rparr>)"

section \<open>The other frames\<close>

definition detection_line :: "detection \<Rightarrow> log_input" where
  "detection_line d =
     line Debug SrcDetection
       (''Class '' @ class_text (det_class d) @ '' detection from '' @ det_sensor_id d)
       (Some ((''kind'', DStr (kind_text (det_sensor_kind d))) #
              (case Option.bind (det_rf d) rf_rssi_dbm of None \<Rightarrow> [] | Some r \<Rightarrow> [(''rssi_dbm'', DNum r)]) @
              (case det_adsb d of None \<Rightarrow> []
               | Some a \<Rightarrow> if adsb_icao a \<noteq> [] then [(''icao'', DStr (adsb_icao a))] else [])))
       None"

definition log_monitoring :: "monitoring_state \<Rightarrow> frame_logger \<Rightarrow> log_outcome" where
  "log_monitoring m s =
     (if fl_last_recording s = Some (mon_enabled m) then done_with [] s
      else done_with
        [line (if mon_enabled m then Info else Warn) SrcUi
           (if mon_enabled m then ''Recording resumed'' else ''Recording paused'')
           (Some ((if truthy (mon_reason m) then [(''reason'', DStr (nullish (mon_reason m) []))] else []) @
                  (if 0 < mon_discarded_while_paused m
                   then [(''discarded_while_paused'', DNum (of_int (mon_discarded_while_paused m)))] else [])))
           None]
        (s\<lparr> fl_last_recording := Some (mon_enabled m) \<rparr>))"

definition capture_line :: "capture \<Rightarrow> log_input" where
  "capture_line c =
     line (if cap_state c = Failed then Error else Info) SrcCapture
       (''Capture '' @ cap_capture_id c @ '' '' @ run_state_text (cap_state c))
       (Some [(''iface'', DStr (cap_iface c)), (''channel'', DNum (of_int (cap_channel c))),
              (''frames'', DNum (of_int (cap_frame_count c))),
              (''bytes'', DNum (of_int (cap_size_bytes c)))])
       None"

definition sweep_line :: "spectrum_sweep \<Rightarrow> log_input" where
  "sweep_line w =
     line (if sw_state w = Failed then Error else Info) SrcSpectrum
       (if sw_state w = Running
        then ''Sweep of '' @ sw_band w @ '' started '' @ em_dash @ '' ADS-B is blind until it finishes''
        else ''Sweep of '' @ sw_band w @ '' '' @ run_state_text (sw_state w))
       (Some ((''sweep_id'', DStr (sw_sweep_id w)) #
              (case sw_noise_floor_dbfs w of None \<Rightarrow> [] | Some v \<Rightarrow> [(''noise_floor_dbfs'', DNum v)]) @
              (case sw_peak_dbfs w of None \<Rightarrow> [] | Some v \<Rightarrow> [(''peak_dbfs'', DNum v)]) @
              (if truthy (sw_error w) then [(''error'', DStr (nullish (sw_error w) []))] else [])))
       None"

fun log_frame :: "server_frame \<Rightarrow> frame_logger \<Rightarrow> log_outcome" where
  "log_frame (TrackUpdate raw) s = log_track_update raw s"
| "log_frame (TrackClosed tid) s = log_track_closed tid s"
| "log_frame (DetectionFrame d) s = done_with [detection_line d] s"
| "log_frame (HealthFrame h) s = (case on_health h s of (ls, s') \<Rightarrow> done_with ls s')"
| "log_frame (MonitoringFrame m) s = log_monitoring m s"
| "log_frame (CaptureStatus c) s = done_with [capture_line c] s"
| "log_frame (SweepStatus w) s = done_with [sweep_line w] s"
| "log_frame Ping s = done_with [] s"

text \<open>Connection transitions, from the socket's state listener.\<close>

definition log_connection :: "string \<Rightarrow> nat \<Rightarrow> log_input option" where
  "log_connection state attempt =
     (if state = ''open'' then
        Some (line Info SrcStream ''Live stream connected''
          (Some [(''note'', DStr ''tracks refetched to close the gap'')]) None)
      else if state = ''reconnecting'' then
        Some (line Warn SrcStream
          (''Live stream dropped '' @ em_dash @ '' reconnecting (attempt '' @ digits_of_nat attempt @ '')'')
          (Some [(''note'', DStr ''positions on screen may be stale'')]) None)
      else if state = ''closed'' then Some (line Error SrcStream ''Live stream closed'' None None)
      else None)"

definition log_session_start :: "bool \<Rightarrow> log_input list \<times> bool" where
  "log_session_start announced =
     (if announced then ([], True)
      else ([line Info SrcUi ''Console session started''
               (Some [(''note'', DStr ''this log covers this browser session only'')]) None], True))"

section \<open>Transitions, not samples\<close>

lemma map_of_update: "map_of (AList.update k v al) k' = (if k = k' then Some v else map_of al k')"
  by (simp add: update_conv)

lemma log_sensors_frame:
  "k \<notin> sh_sensor_id ` set ss \<Longrightarrow> map_of (snd (log_sensors ss seen)) k = map_of seen k"
  by (induction ss arbitrary: seen) (auto simp: Let_def map_of_update split_def)

lemma log_sensors_memo:
  "distinct (List.map sh_sensor_id ss) \<Longrightarrow> s \<in> set ss \<Longrightarrow>
   map_of (snd (log_sensors ss seen)) (sh_sensor_id s) = Some (sh_healthy s)"
proof (induction ss arbitrary: seen)
  case Nil
  then show ?case by simp
next
  case (Cons r ss)
  have notin: "sh_sensor_id r \<notin> sh_sensor_id ` set ss" using Cons.prems(1) by simp
  show ?case
  proof (cases "s = r")
    case True
    then show ?thesis
      using log_sensors_frame [OF notin] by (auto simp: Let_def split_def map_of_update)
  next
    case False
    then show ?thesis using Cons by (auto simp: Let_def split_def)
  qed
qed

lemma log_sensors_quiet:
  assumes "\<forall>s \<in> set ss. map_of seen (sh_sensor_id s) = Some (sh_healthy s)"
  shows "log_sensors ss seen = ([], seen)"
  using assms by (induction ss) simp_all

lemma track_update_memo:
  "\<not> lo_threw (log_track_update raw s) \<Longrightarrow>
   map_of (fl_tracks (lo_state (log_track_update raw s))) (trk_track_id (rt_fields raw)) =
     Some (memo_of (rt_fields raw))"
  by (auto simp: log_track_update_def Let_def set_memo_def map_of_update split: option.splits if_splits)

lemma track_update_quiet:
  assumes "map_of (fl_tracks s) (trk_track_id (rt_fields raw)) = Some (memo_of (rt_fields raw))"
  shows "log_track_update raw s = done_with [] s"
proof -
  have "AList.update (trk_track_id (rt_fields raw)) (memo_of (rt_fields raw)) (fl_tracks s) = fl_tracks s"
    using assms by (rule update_triv)
  then show ?thesis
    using assms by (simp add: log_track_update_def memo_of_def set_memo_def Let_def)
qed

lemma monitoring_quiet:
  "log_monitoring m (lo_state (log_monitoring m s)) = done_with [] (lo_state (log_monitoring m s))"
  by (simp add: log_monitoring_def)

lemma health_quiet:
  assumes "distinct (List.map sh_sensor_id (hl_sensors h))"
  shows "on_health h (snd (on_health h s)) = ([], snd (on_health h s))"
proof -
  have "\<forall>r \<in> set (hl_sensors h).
      map_of (fl_sensor_health (snd (on_health h s))) (sh_sensor_id r) = Some (sh_healthy r)"
    using log_sensors_memo [OF assms] by (simp add: on_health_def Let_def split_def)
  then have "log_sensors (hl_sensors h) (fl_sensor_health (snd (on_health h s))) =
      ([], fl_sensor_health (snd (on_health h s)))"
    by (rule log_sensors_quiet)
  moreover have "fl_last_status (snd (on_health h s)) = Some (hl_status h)"
    by (simp add: on_health_def Let_def split_def)
  ultimately show ?thesis by (simp add: on_health_def [of h "snd (on_health h s)"])
qed

section \<open>Properties\<close>

text \<open>The frames that carry a state rather than an event.\<close>

fun is_state_frame :: "server_frame \<Rightarrow> bool" where
  "is_state_frame (TrackUpdate _) = True"
| "is_state_frame (HealthFrame h) = distinct (List.map sh_sensor_id (hl_sensors h))"
| "is_state_frame (MonitoringFrame _) = True"
| "is_state_frame _ = False"

text \<open>The log records transitions, not samples: once the logger has processed a track, health
  or monitoring frame without an exception, the same frame again writes no line and changes no
  state.\<close>

theorem repeated_frame_is_silent:
  assumes "is_state_frame f" and "\<not> lo_threw (log_frame f s)"
  shows "log_frame f (lo_state (log_frame f s)) = done_with [] (lo_state (log_frame f s))"
proof (cases f)
  case (TrackUpdate raw)
  then show ?thesis using assms by (simp add: track_update_quiet track_update_memo)
next
  case (HealthFrame h)
  then show ?thesis using assms health_quiet [of h s] by (simp add: split_def)
next
  case (MonitoringFrame m)
  then show ?thesis by (simp add: monitoring_quiet)
qed (use assms in auto)

definition sample_monitoring :: monitoring_state where
  "sample_monitoring = \<lparr> mon_enabled = False, mon_since = ''2026-01-01T00:00:00.000Z'',
     mon_reason = Some ''maintenance'', mon_discarded_while_paused = 3 \<rparr>"

theorem repeated_frame_is_silent_witness:
  "log_frame (MonitoringFrame sample_monitoring)
     (lo_state (log_frame (MonitoringFrame sample_monitoring) new_frame_logger)) =
   done_with [] (lo_state (log_frame (MonitoringFrame sample_monitoring) new_frame_logger))"
  by (rule repeated_frame_is_silent) (simp_all add: log_monitoring_def)

text \<open>A track whose first frame carries its evidence as an object, a shape the REST client
  accepts, makes the frame logger throw; the memo is already written, so the same frame delivered
  again is silent and the track's opening is never logged.\<close>

theorem object_evidence_loses_opening:
  assumes "map_of (fl_tracks s) (trk_track_id (rt_fields raw)) = None"
    and "rt_evidence raw = EvObject es"
  shows "lo_threw (log_frame (TrackUpdate raw) s) \<and> lo_lines (log_frame (TrackUpdate raw) s) = [] \<and>
    log_frame (TrackUpdate raw) (lo_state (log_frame (TrackUpdate raw) s)) =
      done_with [] (lo_state (log_frame (TrackUpdate raw) s))"
proof -
  have step: "log_frame (TrackUpdate raw) s =
      throw_with [] (set_memo (trk_track_id (rt_fields raw)) (memo_of (rt_fields raw)) s)"
    using assms by (simp add: log_track_update_def Let_def evidence_classes_def)
  have "log_track_update raw (set_memo (trk_track_id (rt_fields raw)) (memo_of (rt_fields raw)) s) =
      done_with [] (set_memo (trk_track_id (rt_fields raw)) (memo_of (rt_fields raw)) s)"
    by (rule track_update_quiet) (simp add: set_memo_def map_of_update)
  then show ?thesis using step by simp
qed

theorem object_evidence_loses_opening_witness:
  "lo_threw (log_frame (TrackUpdate (sample_raw (EvObject []))) new_frame_logger) \<and>
   lo_lines (log_frame (TrackUpdate (sample_raw (EvObject []))) new_frame_logger) = [] \<and>
   log_frame (TrackUpdate (sample_raw (EvObject [])))
      (lo_state (log_frame (TrackUpdate (sample_raw (EvObject []))) new_frame_logger)) =
   done_with [] (lo_state (log_frame (TrackUpdate (sample_raw (EvObject []))) new_frame_logger))"
  by (rule object_evidence_loses_opening) (simp_all add: sample_raw_def new_frame_logger_def)

end
