(* ===== verification/LiveStream.thy ===== *)
theory LiveStream
  imports ApiTypes
begin

text \<open>
  \<open>lib/api/live.ts\<close>: the reconnecting WebSocket client as a state machine. The browser's part is
  explicit: every socket the client ever made, with its \<open>readyState\<close> and whether the client's
  handlers are still attached; which event comes next, whether the socket factory throws and what
  the jitter function returns are inputs of a step. Everything the client does to the outside is
  appended to \<open>lv_out\<close>; a state notification carries what \<open>getAttempt\<close> answers to the listener it calls. Listeners that call back into the stream are not modelled.
\<close>

section \<open>State\<close>

datatype connection_state = Connecting | Open | Reconnecting | Closed

datatype ready_state = SockConnecting | SockOpen | SockClosing | SockClosed

record sock =
  so_ready :: ready_state
  so_attached :: bool

datatype live_effect =
    NewSocket nat
  | SendFrame nat client_frame
  | CloseSocket nat
  | NotifyState connection_state nat
  | NotifyConnect bool
  | NotifyFrame server_frame

record live_config =
  lc_topics :: "stream_topic list"
  lc_base_delay_ms :: int
  lc_max_delay_ms :: int

definition default_topics :: "stream_topic list" where
  "default_topics = [TopicTracks, TopicHealth, TopicDetections, TopicCaptures, TopicSpectrum]"

definition default_config :: live_config where
  "default_config = \<lparr> lc_topics = default_topics, lc_base_delay_ms = 500, lc_max_delay_ms = 30000 \<rparr>"

record live_stream =
  lv_sockets :: "sock list"
  lv_socket :: "nat option"
  lv_timer :: "int option"
  lv_attempt :: nat
  lv_ever_connected :: bool
  lv_stopped :: bool
  lv_state :: connection_state
  lv_out :: "live_effect list"

definition new_live_stream :: live_stream where
  "new_live_stream = \<lparr> lv_sockets = [], lv_socket = None, lv_timer = None, lv_attempt = 0,
     lv_ever_connected = False, lv_stopped = False, lv_state = Closed, lv_out = [] \<rparr>"

section \<open>Operations\<close>

definition live_emit :: "live_effect \<Rightarrow> live_stream \<Rightarrow> live_stream" where
  "live_emit e s = s\<lparr> lv_out := lv_out s @ [e] \<rparr>"

definition live_set_state :: "connection_state \<Rightarrow> live_stream \<Rightarrow> live_stream" where
  "live_set_state st s =
     (if lv_state s = st then s else live_emit (NotifyState st (lv_attempt s)) (s\<lparr> lv_state := st \<rparr>))"

definition live_clear_timer :: "live_stream \<Rightarrow> live_stream" where
  "live_clear_timer s = (if lv_timer s \<noteq> None then s\<lparr> lv_timer := None \<rparr> else s)"

definition delay_for :: "live_config \<Rightarrow> real \<Rightarrow> nat \<Rightarrow> int" where
  "delay_for c jitter attempt =
     (let ceil = min (lc_base_delay_ms c * 2 ^ (attempt - 1)) (lc_max_delay_ms c)
      in \<lfloor>jitter * of_int ceil\<rfloor>)"

definition schedule_reconnect :: "live_config \<Rightarrow> real \<Rightarrow> live_stream \<Rightarrow> live_stream" where
  "schedule_reconnect c jitter s =
     (if lv_stopped s then s
      else
        let s1 = s\<lparr> lv_attempt := Suc (lv_attempt s) \<rparr>;
            s2 = live_clear_timer (live_set_state Reconnecting s1)
        in s2\<lparr> lv_timer := Some (delay_for c jitter (lv_attempt s2)) \<rparr>)"

definition live_open :: "live_config \<Rightarrow> bool \<Rightarrow> real \<Rightarrow> live_stream \<Rightarrow> live_stream" where
  "live_open c factory_ok jitter s =
     (if lv_stopped s then s
      else
        let s1 = live_set_state (if lv_ever_connected s then Reconnecting else Connecting) s
        in if \<not> factory_ok then schedule_reconnect c jitter s1
           else
             let i = length (lv_sockets s1)
             in live_emit (NewSocket i)
                  (s1\<lparr> lv_sockets := lv_sockets s1 @ [\<lparr> so_ready = SockConnecting, so_attached = True \<rparr>],
                       lv_socket := Some i \<rparr>))"

definition live_connect :: "live_config \<Rightarrow> bool \<Rightarrow> real \<Rightarrow> live_stream \<Rightarrow> live_stream" where
  "live_connect c factory_ok jitter s = live_open c factory_ok jitter (s\<lparr> lv_stopped := False \<rparr>)"

definition ready_of :: "live_stream \<Rightarrow> ready_state option" where
  "ready_of s = map_option (\<lambda>i. so_ready (lv_sockets s ! i)) (lv_socket s)"

definition set_sock :: "nat \<Rightarrow> sock \<Rightarrow> live_stream \<Rightarrow> live_stream" where
  "set_sock i k s = s\<lparr> lv_sockets := (lv_sockets s)[i := k] \<rparr>"

definition live_close :: "live_stream \<Rightarrow> live_stream" where
  "live_close s =
     (let s1 = live_clear_timer (s\<lparr> lv_stopped := True \<rparr>);
          s2 = (case lv_socket s1 of
                  None \<Rightarrow> s1
                | Some i \<Rightarrow>
                    let k = lv_sockets s1 ! i;
                        r = (if so_ready k = SockClosed then SockClosed else SockClosing)
                    in (live_emit (CloseSocket i)
                          (set_sock i \<lparr> so_ready = r, so_attached = False \<rparr> s1))\<lparr> lv_socket := None \<rparr>)
      in live_set_state Closed s2)"

definition live_resume :: "live_config \<Rightarrow> bool \<Rightarrow> real \<Rightarrow> live_stream \<Rightarrow> live_stream" where
  "live_resume c factory_ok jitter s =
     (if lv_stopped s then s
      else if ready_of s = Some SockOpen then s
      else if ready_of s = Some SockConnecting then s
      else live_open c factory_ok jitter ((live_clear_timer s)\<lparr> lv_attempt := 0 \<rparr>))"

definition live_send :: "client_frame \<Rightarrow> live_stream \<Rightarrow> live_stream" where
  "live_send f s =
     (case lv_socket s of
        Some i \<Rightarrow> if so_ready (lv_sockets s ! i) = SockOpen then live_emit (SendFrame i f) s else s
      | None \<Rightarrow> s)"

definition on_socket_open :: "live_config \<Rightarrow> live_stream \<Rightarrow> live_stream" where
  "on_socket_open c s =
     (let s1 = live_set_state Open (s\<lparr> lv_ever_connected := True, lv_attempt := 0 \<rparr>);
          s2 = live_send (Subscribe (lc_topics c)) s1
      in live_emit (NotifyConnect (lv_ever_connected s)) s2)"

datatype message = Binary | Malformed | Parsed server_frame

definition on_socket_message :: "message \<Rightarrow> live_stream \<Rightarrow> live_stream" where
  "on_socket_message m s =
     (case m of
        Binary \<Rightarrow> s
      | Malformed \<Rightarrow> s
      | Parsed f \<Rightarrow> if f = Ping then live_send Pong s else live_emit (NotifyFrame f) s)"

definition on_socket_close :: "live_config \<Rightarrow> real \<Rightarrow> live_stream \<Rightarrow> live_stream" where
  "on_socket_close c jitter s = schedule_reconnect c jitter (s\<lparr> lv_socket := None \<rparr>)"

definition on_timer :: "live_config \<Rightarrow> bool \<Rightarrow> real \<Rightarrow> live_stream \<Rightarrow> live_stream" where
  "on_timer c factory_ok jitter s = live_open c factory_ok jitter (s\<lparr> lv_timer := None \<rparr>)"

section \<open>Events and steps\<close>

text \<open>
  What can happen next: the provider calls \<open>connect\<close>, \<open>close\<close> or \<open>resume\<close>; the browser opens a
  socket, delivers a message, starts a closing handshake (\<open>readyState\<close> changes, no handler runs),
  delivers \<open>close\<close>, or fires the timer.
\<close>

datatype live_event =
    Connect bool real
  | Close
  | Resume bool real
  | SocketOpened nat
  | SocketMessage nat message
  | SocketClosing nat
  | SocketClosed nat real
  | TimerFired bool real

fun live_enabled :: "live_event \<Rightarrow> live_stream \<Rightarrow> bool" where
  "live_enabled (Connect _ _) s = True"
| "live_enabled Close s = True"
| "live_enabled (Resume _ _) s = True"
| "live_enabled (SocketOpened i) s \<longleftrightarrow>
     i < length (lv_sockets s) \<and> so_ready (lv_sockets s ! i) = SockConnecting"
| "live_enabled (SocketMessage i _) s \<longleftrightarrow>
     i < length (lv_sockets s) \<and> so_ready (lv_sockets s ! i) = SockOpen"
| "live_enabled (SocketClosing i) s \<longleftrightarrow>
     i < length (lv_sockets s) \<and> so_ready (lv_sockets s ! i) \<in> {SockConnecting, SockOpen}"
| "live_enabled (SocketClosed i _) s \<longleftrightarrow>
     i < length (lv_sockets s) \<and> so_ready (lv_sockets s ! i) \<noteq> SockClosed"
| "live_enabled (TimerFired _ _) s \<longleftrightarrow> lv_timer s \<noteq> None"

definition with_ready :: "nat \<Rightarrow> ready_state \<Rightarrow> live_stream \<Rightarrow> live_stream" where
  "with_ready i r s = set_sock i ((lv_sockets s ! i)\<lparr> so_ready := r \<rparr>) s"

definition attached :: "nat \<Rightarrow> live_stream \<Rightarrow> bool" where
  "attached i s \<longleftrightarrow> so_attached (lv_sockets s ! i)"

fun live_step :: "live_config \<Rightarrow> live_event \<Rightarrow> live_stream \<Rightarrow> live_stream" where
  "live_step c (Connect ok j) s = live_connect c ok j s"
| "live_step c Close s = live_close s"
| "live_step c (Resume ok j) s = live_resume c ok j s"
| "live_step c (SocketOpened i) s =
     (let s1 = with_ready i SockOpen s in if attached i s then on_socket_open c s1 else s1)"
| "live_step c (SocketMessage i m) s = (if attached i s then on_socket_message m s else s)"
| "live_step c (SocketClosing i) s = with_ready i SockClosing s"
| "live_step c (SocketClosed i j) s =
     (let s1 = with_ready i SockClosed s in if attached i s then on_socket_close c j s1 else s1)"
| "live_step c (TimerFired ok j) s = on_timer c ok j s"

text \<open>
  Runs in which every event is enabled and satisfies \<open>P\<close>, a restriction on when the provider
  calls; \<open>\<lambda>_ _. True\<close> is no restriction.
\<close>

inductive live_reach :: "live_config \<Rightarrow> (live_event \<Rightarrow> live_stream \<Rightarrow> bool) \<Rightarrow> live_stream \<Rightarrow> bool"
  for c P where
  live_init: "live_reach c P new_live_stream"
| live_next: "live_reach c P s \<Longrightarrow> live_enabled e s \<Longrightarrow> P e s \<Longrightarrow> live_reach c P (live_step c e s)"

section \<open>The stream's address\<close>

definition strip_slash :: "string \<Rightarrow> string" where
  "strip_slash s = (if s \<noteq> [] \<and> last s = CHR ''/'' then butlast s else s)"

definition stream_url :: "string \<Rightarrow> string \<Rightarrow> string" where
  "stream_url api_base origin =
     (if starts_with api_base ''ws://'' \<or> starts_with api_base ''wss://''
      then strip_slash api_base @ ''/stream''
      else
        let absolute = (if starts_with api_base ''http://'' \<or> starts_with api_base ''https://''
                        then api_base else strip_slash origin @ api_base);
            ws = (if starts_with absolute ''http'' then ''ws'' @ drop 4 absolute else absolute)
        in strip_slash ws @ ''/stream'')"

section \<open>How each operation moves the state\<close>

lemma live_emit_simps [simp]:
  "lv_sockets (live_emit e s) = lv_sockets s" "lv_socket (live_emit e s) = lv_socket s"
  "lv_timer (live_emit e s) = lv_timer s" "lv_attempt (live_emit e s) = lv_attempt s"
  "lv_ever_connected (live_emit e s) = lv_ever_connected s"
  "lv_stopped (live_emit e s) = lv_stopped s" "lv_state (live_emit e s) = lv_state s"
  "lv_out (live_emit e s) = lv_out s @ [e]"
  by (simp_all add: live_emit_def)

lemma live_set_state_simps [simp]:
  "lv_sockets (live_set_state st s) = lv_sockets s" "lv_socket (live_set_state st s) = lv_socket s"
  "lv_timer (live_set_state st s) = lv_timer s" "lv_attempt (live_set_state st s) = lv_attempt s"
  "lv_ever_connected (live_set_state st s) = lv_ever_connected s"
  "lv_stopped (live_set_state st s) = lv_stopped s" "lv_state (live_set_state st s) = st"
  "lv_out (live_set_state st s) =
     lv_out s @ (if lv_state s = st then [] else [NotifyState st (lv_attempt s)])"
  by (simp_all add: live_set_state_def)

lemma live_clear_timer_simps [simp]:
  "lv_sockets (live_clear_timer s) = lv_sockets s" "lv_socket (live_clear_timer s) = lv_socket s"
  "lv_timer (live_clear_timer s) = None" "lv_attempt (live_clear_timer s) = lv_attempt s"
  "lv_ever_connected (live_clear_timer s) = lv_ever_connected s"
  "lv_stopped (live_clear_timer s) = lv_stopped s" "lv_state (live_clear_timer s) = lv_state s"
  "lv_out (live_clear_timer s) = lv_out s"
  by (simp_all add: live_clear_timer_def)

lemma set_sock_simps [simp]:
  "lv_sockets (set_sock i k s) = (lv_sockets s)[i := k]" "lv_socket (set_sock i k s) = lv_socket s"
  "lv_timer (set_sock i k s) = lv_timer s" "lv_attempt (set_sock i k s) = lv_attempt s"
  "lv_ever_connected (set_sock i k s) = lv_ever_connected s"
  "lv_stopped (set_sock i k s) = lv_stopped s" "lv_state (set_sock i k s) = lv_state s"
  "lv_out (set_sock i k s) = lv_out s"
  by (simp_all add: set_sock_def)

lemma live_send_simps [simp]:
  "lv_sockets (live_send f s) = lv_sockets s" "lv_socket (live_send f s) = lv_socket s"
  "lv_timer (live_send f s) = lv_timer s" "lv_attempt (live_send f s) = lv_attempt s"
  "lv_ever_connected (live_send f s) = lv_ever_connected s"
  "lv_stopped (live_send f s) = lv_stopped s" "lv_state (live_send f s) = lv_state s"
  by (simp_all add: live_send_def split: option.splits)

lemma schedule_reconnect_simps [simp]:
  "lv_sockets (schedule_reconnect c j s) = lv_sockets s"
  "lv_socket (schedule_reconnect c j s) = lv_socket s"
  "lv_ever_connected (schedule_reconnect c j s) = lv_ever_connected s"
  "lv_stopped (schedule_reconnect c j s) = lv_stopped s"
  by (simp_all add: schedule_reconnect_def Let_def)

lemmas live_ops = live_open_def live_connect_def live_close_def live_resume_def on_socket_open_def
  on_socket_message_def on_socket_close_def on_timer_def with_ready_def Let_def

section \<open>The references are sound\<close>

text \<open>\<open>lv_socket\<close> always names a socket that was made.\<close>

definition live_wf :: "live_stream \<Rightarrow> bool" where
  "live_wf s \<longleftrightarrow> (\<forall>i. lv_socket s = Some i \<longrightarrow> i < length (lv_sockets s))"

lemma live_wf_step: "live_wf s \<Longrightarrow> live_wf (live_step c e s)"
  by (cases e) (auto simp: live_wf_def live_ops split: option.splits message.splits)

section \<open>Never stuck\<close>

text \<open>
  Unless it has been stopped or never started, the stream waits for something that will come: a
  retry timer, or a socket with its handlers attached that has not closed yet. A socket that is
  open or opening is covered by its \<open>close\<close> event at the latest.
\<close>

definition waits_on_socket :: "live_stream \<Rightarrow> bool" where
  "waits_on_socket s \<longleftrightarrow>
     (\<exists>i < length (lv_sockets s). so_attached (lv_sockets s ! i) \<and>
        so_ready (lv_sockets s ! i) \<noteq> SockClosed)"

lemma waits_on_socket_append:
  "lv_sockets s' = xs @ [\<lparr> so_ready = SockConnecting, so_attached = True \<rparr>] \<Longrightarrow> waits_on_socket s'"
  unfolding waits_on_socket_def by (rule exI [of _ "length xs"]) simp

lemma waits_on_socket_cong: "lv_sockets s' = lv_sockets s \<Longrightarrow> waits_on_socket s' = waits_on_socket s"
  by (simp add: waits_on_socket_def)

lemma waits_on_socket_with_ready:
  assumes "r \<noteq> SockClosed" "waits_on_socket s" "lv_sockets s' = lv_sockets (with_ready i r s)"
  shows "waits_on_socket s'"
proof -
  obtain k where k: "k < length (lv_sockets s)" "so_attached (lv_sockets s ! k)"
    "so_ready (lv_sockets s ! k) \<noteq> SockClosed"
    using assms(2) unfolding waits_on_socket_def by blast
  have "so_attached (lv_sockets s' ! k) \<and> so_ready (lv_sockets s' ! k) \<noteq> SockClosed"
    using k assms(1,3) by (cases "k = i") (simp_all add: with_ready_def)
  then show ?thesis
    using k(1) assms(3) unfolding waits_on_socket_def by (intro exI [of _ k]) (simp add: with_ready_def)
qed

definition never_stuck :: "live_stream \<Rightarrow> bool" where
  "never_stuck s \<longleftrightarrow>
     (\<forall>i. lv_socket s = Some i \<longrightarrow> i < length (lv_sockets s) \<and> so_attached (lv_sockets s ! i)) \<and>
     (lv_stopped s \<or> lv_state s = Closed \<or> lv_timer s \<noteq> None \<or> waits_on_socket s)"

lemma never_stuck_open:
  assumes "\<forall>i. lv_socket s = Some i \<longrightarrow> i < length (lv_sockets s) \<and> so_attached (lv_sockets s ! i)"
  shows "never_stuck (live_open c ok j s)"
proof (cases "lv_stopped s")
  case True
  then show ?thesis using assms by (simp add: live_open_def never_stuck_def)
next
  case False
  show ?thesis
  proof (cases ok)
    case True
    have "waits_on_socket (live_open c ok j s)"
      by (rule waits_on_socket_append [of _ "lv_sockets s"]) (simp add: live_open_def Let_def False True)
    then show ?thesis
      using False True by (simp add: never_stuck_def) (simp add: live_open_def Let_def)
  next
    case False
    have "lv_timer (live_open c ok j s) \<noteq> None"
      using False \<open>\<not> lv_stopped s\<close> by (simp add: live_open_def Let_def schedule_reconnect_def)
    then show ?thesis using assms False \<open>\<not> lv_stopped s\<close>
      by (simp add: never_stuck_def) (simp add: live_open_def Let_def)
  qed
qed

lemma refs_with_ready:
  assumes "\<forall>i. lv_socket s = Some i \<longrightarrow> i < length (lv_sockets s) \<and> so_attached (lv_sockets s ! i)"
  shows "\<forall>i. lv_socket (with_ready k r s) = Some i \<longrightarrow>
           i < length (lv_sockets (with_ready k r s)) \<and> so_attached (lv_sockets (with_ready k r s) ! i)"
proof (intro allI impI)
  fix i assume "lv_socket (with_ready k r s) = Some i"
  then have "i < length (lv_sockets s)" "so_attached (lv_sockets s ! i)"
    using assms by (simp_all add: with_ready_def)
  then show "i < length (lv_sockets (with_ready k r s)) \<and> so_attached (lv_sockets (with_ready k r s) ! i)"
    by (cases "k = i") (simp_all add: with_ready_def)
qed

lemma with_ready_simps [simp]:
  "lv_socket (with_ready i r s) = lv_socket s" "lv_timer (with_ready i r s) = lv_timer s"
  "lv_attempt (with_ready i r s) = lv_attempt s" "lv_stopped (with_ready i r s) = lv_stopped s"
  "lv_ever_connected (with_ready i r s) = lv_ever_connected s"
  "lv_state (with_ready i r s) = lv_state s" "lv_out (with_ready i r s) = lv_out s"
  "length (lv_sockets (with_ready i r s)) = length (lv_sockets s)"
  by (simp_all add: with_ready_def)

lemma never_stuck_with_ready:
  assumes "never_stuck s" "r \<noteq> SockClosed"
  shows "never_stuck (with_ready i r s)"
  using assms refs_with_ready [of s i r] waits_on_socket_with_ready [of r s "with_ready i r s" i]
  by (auto simp: never_stuck_def)

lemma waits_on_socket_detached:
  assumes "waits_on_socket s" "\<not> attached i s"
  shows "waits_on_socket (with_ready i r s)"
proof -
  obtain k where k: "k < length (lv_sockets s)" "so_attached (lv_sockets s ! k)"
    "so_ready (lv_sockets s ! k) \<noteq> SockClosed"
    using assms(1) unfolding waits_on_socket_def by blast
  then have "k \<noteq> i" using assms(2) by (auto simp: attached_def)
  then show ?thesis using k unfolding waits_on_socket_def by (auto simp: with_ready_def)
qed

lemma never_stuck_step:
  assumes "never_stuck s" "live_enabled e s"
  shows "never_stuck (live_step c e s)"
proof (cases e)
  case (Connect ok j)
  then show ?thesis using assms(1)
    by (simp add: live_connect_def) (rule never_stuck_open, simp add: never_stuck_def)
next
  case Close
  then show ?thesis by (auto simp: live_close_def never_stuck_def Let_def split: option.splits)
next
  case (Resume ok j)
  have "never_stuck (live_open c ok j ((live_clear_timer s)\<lparr> lv_attempt := 0 \<rparr>))"
    by (rule never_stuck_open) (use assms(1) in \<open>simp add: never_stuck_def\<close>)
  then show ?thesis using Resume assms(1) by (simp add: live_resume_def)
next
  case (SocketOpened i)
  let ?s1 = "with_ready i SockOpen s"
  have ns: "never_stuck ?s1" using assms(1) by (rule never_stuck_with_ready) simp
  show ?thesis
  proof (cases "attached i s")
    case True
    have "i < length (lv_sockets s)" using assms(2) SocketOpened by simp
    then have "waits_on_socket ?s1"
      using True unfolding waits_on_socket_def attached_def
      by (intro exI [of _ i]) (simp add: with_ready_def)
    then have "waits_on_socket (on_socket_open c ?s1)"
      by (rule waits_on_socket_cong [THEN iffD2, rotated]) (simp add: on_socket_open_def Let_def)
    moreover have "lv_sockets (on_socket_open c ?s1) = lv_sockets ?s1"
      "lv_socket (on_socket_open c ?s1) = lv_socket ?s1"
      by (simp_all add: on_socket_open_def Let_def)
    ultimately show ?thesis using ns True SocketOpened by (simp add: never_stuck_def Let_def)
  next
    case False
    then show ?thesis using ns SocketOpened by (simp add: Let_def)
  qed
next
  case (SocketMessage i m)
  have "lv_sockets (on_socket_message m s) = lv_sockets s"
    "lv_socket (on_socket_message m s) = lv_socket s" "lv_timer (on_socket_message m s) = lv_timer s"
    "lv_stopped (on_socket_message m s) = lv_stopped s" "lv_state (on_socket_message m s) = lv_state s"
    by (simp_all add: on_socket_message_def split: message.splits)
  then show ?thesis
    using SocketMessage assms(1) waits_on_socket_cong [of "on_socket_message m s" s]
    by (simp add: never_stuck_def)
next
  case (SocketClosing i)
  then show ?thesis using assms(1) by (simp add: never_stuck_with_ready)
next
  case (SocketClosed i j)
  let ?s1 = "with_ready i SockClosed s"
  show ?thesis
  proof (cases "attached i s")
    case True
    then show ?thesis using SocketClosed
      by (auto simp: on_socket_close_def never_stuck_def schedule_reconnect_def Let_def)
  next
    case False
    then show ?thesis
      using SocketClosed assms(1) refs_with_ready [of s i SockClosed] waits_on_socket_detached [of s i]
      by (auto simp: never_stuck_def Let_def)
  qed
next
  case (TimerFired ok j)
  then show ?thesis using assms(1)
    by (simp add: on_timer_def) (rule never_stuck_open, simp add: never_stuck_def)
qed

lemma never_stuck_reach: "live_reach c P s \<Longrightarrow> never_stuck s"
proof (induction rule: live_reach.induct)
  case live_init
  then show ?case by (simp add: never_stuck_def new_live_stream_def)
next
  case (live_next s e)
  then show ?case by (blast intro: never_stuck_step)
qed

section \<open>One connection at a time\<close>

text \<open>
  The provider's own discipline: \<open>connect\<close> only on a stream that holds neither a socket nor a
  timer, \<open>resume\<close> never while the socket is in its closing handshake. Under it the client never
  has two live connections.
\<close>

definition disciplined :: "live_event \<Rightarrow> live_stream \<Rightarrow> bool" where
  "disciplined e s \<longleftrightarrow>
     (case e of
        Connect _ _ \<Rightarrow> lv_socket s = None \<and> lv_timer s = None
      | Resume _ _ \<Rightarrow> ready_of s \<noteq> Some SockClosing
      | _ \<Rightarrow> True)"

definition one_connection :: "live_stream \<Rightarrow> bool" where
  "one_connection s \<longleftrightarrow>
     (\<forall>i. lv_socket s = Some i \<longrightarrow> i < length (lv_sockets s)) \<and>
     (\<forall>i < length (lv_sockets s).
        so_attached (lv_sockets s ! i) \<and> so_ready (lv_sockets s ! i) \<noteq> SockClosed \<longleftrightarrow>
        lv_socket s = Some i) \<and>
     (lv_timer s \<noteq> None \<longrightarrow> lv_socket s = None) \<and>
     (lv_stopped s \<longrightarrow> lv_socket s = None \<and> lv_timer s = None \<and> lv_state s = Closed) \<and>
     (lv_state s = Open \<longrightarrow> lv_attempt s = 0)"

lemma one_connection_open:
  assumes "one_connection s" "lv_socket s = None" "lv_timer s = None"
  shows "one_connection (live_open c ok j s)"
  using assms by (auto simp: one_connection_def live_open_def Let_def schedule_reconnect_def nth_append)

lemma one_connection_unstop:
  "one_connection s \<Longrightarrow> lv_stopped s = True \<Longrightarrow> one_connection (s\<lparr> lv_stopped := False \<rparr>)"
  by (simp add: one_connection_def)

lemma one_connection_step:
  assumes inv: "one_connection s" and en: "live_enabled e s" and d: "disciplined e s"
  shows "one_connection (live_step c e s)"
proof (cases e)
  case (Connect ok j)
  then have "lv_socket s = None" "lv_timer s = None" using d by (simp_all add: disciplined_def)
  moreover have "one_connection (s\<lparr> lv_stopped := False \<rparr>)" using inv by (simp add: one_connection_def)
  ultimately show ?thesis
    using Connect by (simp add: live_connect_def one_connection_open)
next
  case Close
  show ?thesis
  proof (cases "lv_socket s")
    case None
    then show ?thesis using inv Close by (simp add: live_close_def Let_def one_connection_def)
  next
    case (Some i)
    then show ?thesis
      using inv Close by (auto simp: live_close_def Let_def one_connection_def nth_list_update)
  qed
next
  case (Resume ok j)
  show ?thesis
  proof (cases "lv_stopped s \<or> ready_of s = Some SockOpen \<or> ready_of s = Some SockConnecting")
    case True
    then show ?thesis using Resume inv by (auto simp: live_resume_def)
  next
    case False
    then have "lv_socket s = None"
    proof (cases "lv_socket s")
      case (Some i)
      then have "so_ready (lv_sockets s ! i) \<noteq> SockClosed" "ready_of s = Some (so_ready (lv_sockets s ! i))"
        using inv by (auto simp: one_connection_def ready_of_def)
      then show ?thesis
        using False d Resume by (cases "so_ready (lv_sockets s ! i)") (auto simp: disciplined_def)
    qed simp
    moreover have "one_connection ((live_clear_timer s)\<lparr> lv_attempt := 0 \<rparr>)"
      using inv by (auto simp: one_connection_def)
    ultimately show ?thesis
      using Resume False by (simp add: live_resume_def one_connection_open)
  qed
next
  case (SocketOpened i)
  then show ?thesis
    using inv en
    by (auto simp: one_connection_def on_socket_open_def with_ready_def attached_def Let_def nth_list_update)
next
  case (SocketMessage i m)
  have "one_connection (on_socket_message m s)"
    using inv by (auto simp: one_connection_def on_socket_message_def split: message.splits)
  then show ?thesis using SocketMessage inv by simp
next
  case (SocketClosing i)
  then show ?thesis
    using inv en by (auto simp: one_connection_def with_ready_def nth_list_update)
next
  case (SocketClosed i j)
  show ?thesis
  proof (cases "attached i s")
    case True
    then have "lv_socket s = Some i"
      using inv en SocketClosed by (auto simp: one_connection_def attached_def)
    then show ?thesis
      using inv en SocketClosed True
      by (auto simp: one_connection_def on_socket_close_def with_ready_def schedule_reconnect_def Let_def
          nth_list_update)
  next
    case False
    then show ?thesis
      using inv en SocketClosed
      by (auto simp: one_connection_def with_ready_def attached_def Let_def nth_list_update)
  qed
next
  case (TimerFired ok j)
  then have "lv_socket s = None" using inv en by (auto simp: one_connection_def)
  moreover have "one_connection (s\<lparr> lv_timer := None \<rparr>)" using inv by (auto simp: one_connection_def)
  ultimately show ?thesis
    using TimerFired by (simp add: on_timer_def one_connection_open)
qed

lemma one_connection_reach: "live_reach c disciplined s \<Longrightarrow> one_connection s"
proof (induction rule: live_reach.induct)
  case live_init
  then show ?case by (simp add: one_connection_def new_live_stream_def)
next
  case (live_next s e)
  then show ?case by (blast intro: one_connection_step)
qed

section \<open>What listeners hear\<close>

definition heard_ping :: "live_stream \<Rightarrow> bool" where
  "heard_ping s \<longleftrightarrow> NotifyFrame Ping \<in> set (lv_out s)"

lemma schedule_reconnect_out:
  "set (lv_out (schedule_reconnect c j s)) \<subseteq> insert (NotifyState Reconnecting (Suc (lv_attempt s))) (set (lv_out s))"
  by (auto simp: schedule_reconnect_def Let_def)

lemma live_open_out:
  "set (lv_out (live_open c ok j s)) \<subseteq>
     {NotifyState Reconnecting (lv_attempt s), NotifyState Reconnecting (Suc (lv_attempt s)),
      NotifyState Connecting (lv_attempt s), NewSocket (length (lv_sockets s))} \<union> set (lv_out s)"
  by (auto simp: live_open_def Let_def schedule_reconnect_def)

lemma heard_ping_step: "\<not> heard_ping s \<Longrightarrow> \<not> heard_ping (live_step c e s)"
  using live_open_out
  by (cases e)
    (fastforce simp: heard_ping_def live_connect_def live_close_def live_resume_def on_timer_def
      on_socket_open_def on_socket_message_def on_socket_close_def live_send_def Let_def
      schedule_reconnect_def split: option.splits message.splits if_splits)+

lemma heard_ping_reach: "live_reach c P s \<Longrightarrow> \<not> heard_ping s"
proof (induction rule: live_reach.induct)
  case live_init
  then show ?case by (simp add: heard_ping_def new_live_stream_def)
next
  case (live_next s e)
  from live_next.IH show ?case by (rule heard_ping_step)
qed

section \<open>Back-off\<close>

lemma delay_for_bounds:
  assumes "0 \<le> lc_base_delay_ms c" "0 \<le> lc_max_delay_ms c" "0 \<le> j" "j \<le> 1"
  shows "0 \<le> delay_for c j n" "delay_for c j n \<le> lc_max_delay_ms c"
    "delay_for c j n \<le> lc_base_delay_ms c * 2 ^ (n - 1)"
proof -
  let ?m = "min (lc_base_delay_ms c * 2 ^ (n - 1)) (lc_max_delay_ms c)"
  have m: "0 \<le> ?m" using assms(1,2) by simp
  then have "j * of_int ?m \<le> 1 * of_int ?m" using assms(4) by (intro mult_right_mono) simp_all
  moreover have "real_of_int (delay_for c j n) \<le> j * of_int ?m"
    unfolding delay_for_def Let_def by (rule of_int_floor_le)
  ultimately have "real_of_int (delay_for c j n) \<le> of_int ?m" by linarith
  then have "delay_for c j n \<le> ?m" by (simp only: of_int_le_iff)
  then show "delay_for c j n \<le> lc_max_delay_ms c" "delay_for c j n \<le> lc_base_delay_ms c * 2 ^ (n - 1)"
    by simp_all
  show "0 \<le> delay_for c j n"
    using m assms(3) by (simp add: delay_for_def Let_def zero_le_floor del: of_int_min)
qed

text \<open>What an armed timer can hold, and the events a jitter in the unit interval comes with.\<close>

definition timer_ok :: "live_config \<Rightarrow> live_stream \<Rightarrow> bool" where
  "timer_ok c s \<longleftrightarrow> (\<forall>d. lv_timer s = Some d \<longrightarrow> 0 \<le> d \<and> d \<le> lc_max_delay_ms c)"

fun jitter_ok :: "live_event \<Rightarrow> live_stream \<Rightarrow> bool" where
  "jitter_ok (Connect _ j) s \<longleftrightarrow> 0 \<le> j \<and> j \<le> 1"
| "jitter_ok (Resume _ j) s \<longleftrightarrow> 0 \<le> j \<and> j \<le> 1"
| "jitter_ok (SocketClosed _ j) s \<longleftrightarrow> 0 \<le> j \<and> j \<le> 1"
| "jitter_ok (TimerFired _ j) s \<longleftrightarrow> 0 \<le> j \<and> j \<le> 1"
| "jitter_ok _ s \<longleftrightarrow> True"

locale sane_delays =
  fixes c :: live_config
  assumes base: "0 \<le> lc_base_delay_ms c" and cap: "0 \<le> lc_max_delay_ms c"
begin

lemma timer_ok_schedule:
  "0 \<le> j \<Longrightarrow> j \<le> 1 \<Longrightarrow> timer_ok c s \<Longrightarrow> timer_ok c (schedule_reconnect c j s)"
  using delay_for_bounds [OF base cap] by (simp add: timer_ok_def schedule_reconnect_def Let_def)

lemma timer_ok_open: "0 \<le> j \<Longrightarrow> j \<le> 1 \<Longrightarrow> timer_ok c s \<Longrightarrow> timer_ok c (live_open c ok j s)"
  using timer_ok_schedule [of j "live_set_state (if lv_ever_connected s then Reconnecting else Connecting) s"]
  by (auto simp: live_open_def Let_def timer_ok_def [of c s] timer_ok_def [of c "live_emit _ _"]
      timer_ok_def [of c "live_set_state _ _"])

lemma timer_ok_cong: "lv_timer s' = lv_timer s \<Longrightarrow> timer_ok c s' = timer_ok c s"
  by (simp add: timer_ok_def)

lemma timer_ok_none: "lv_timer s = None \<Longrightarrow> timer_ok c s"
  by (simp add: timer_ok_def)

lemma timer_ok_step:
  assumes "timer_ok c s" "jitter_ok e s"
  shows "timer_ok c (live_step c e s)"
proof (cases e)
  case (Connect ok j)
  then show ?thesis using assms timer_ok_cong [of "s\<lparr> lv_stopped := False \<rparr>" s]
    by (simp add: live_connect_def timer_ok_open)
next
  case Close
  then show ?thesis by (auto simp: live_close_def Let_def intro: timer_ok_none split: option.splits)
next
  case (Resume ok j)
  then show ?thesis using assms
    by (auto simp: live_resume_def intro!: timer_ok_open intro: timer_ok_none)
next
  case (SocketOpened i)
  then show ?thesis using assms(1) by (simp add: timer_ok_def on_socket_open_def Let_def)
next
  case (SocketMessage i m)
  then show ?thesis using assms(1)
    by (auto simp: timer_ok_def on_socket_message_def split: message.splits)
next
  case (SocketClosing i)
  then show ?thesis using assms(1) by (simp add: timer_ok_def)
next
  case (SocketClosed i j)
  then show ?thesis using assms timer_ok_cong [of "with_ready i SockClosed s" s]
    timer_ok_cong [of "(with_ready i SockClosed s)\<lparr> lv_socket := None \<rparr>" s]
    by (auto simp: on_socket_close_def Let_def intro!: timer_ok_schedule)
next
  case (TimerFired ok j)
  then show ?thesis using assms by (auto simp: on_timer_def intro!: timer_ok_open intro: timer_ok_none)
qed

lemma timer_ok_reach: "live_reach c jitter_ok s \<Longrightarrow> timer_ok c s"
proof (induction rule: live_reach.induct)
  case live_init
  then show ?case by (simp add: timer_ok_def new_live_stream_def)
next
  case (live_next s e)
  then show ?case by (intro timer_ok_step)
qed

end

interpretation default_delays: sane_delays default_config
  by unfold_locales (simp_all add: default_config_def)

section \<open>Replaying a run\<close>

definition run_live :: "live_event list \<Rightarrow> live_stream" where
  "run_live es = fold (live_step default_config) es new_live_stream"

fun allowed :: "(live_event \<Rightarrow> live_stream \<Rightarrow> bool) \<Rightarrow> live_event list \<Rightarrow> live_stream \<Rightarrow> bool" where
  "allowed P [] s \<longleftrightarrow> True"
| "allowed P (e # es) s \<longleftrightarrow>
     live_enabled e s \<and> P e s \<and> allowed P es (live_step default_config e s)"

lemma fold_reach:
  "live_reach default_config P s \<Longrightarrow> allowed P es s \<Longrightarrow>
   live_reach default_config P (fold (live_step default_config) es s)"
  by (induction es arbitrary: s) (auto intro: live_next)

lemma run_live_reach: "allowed P es new_live_stream \<Longrightarrow> live_reach default_config P (run_live es)"
  unfolding run_live_def by (rule fold_reach [OF live_init])

text \<open>Connect, open, lose the socket, wait for the retry.\<close>

definition sample_run :: "live_event list" where
  "sample_run = [Connect True 1, SocketOpened 0, SocketMessage 0 (Parsed Ping), SocketClosed 0 1]"

lemmas live_eval = sample_run_def run_live_def new_live_stream_def live_connect_def live_open_def
  live_emit_def live_set_state_def with_ready_def set_sock_def attached_def on_socket_open_def
  on_socket_message_def live_send_def on_socket_close_def schedule_reconnect_def
  live_clear_timer_def delay_for_def default_config_def ready_of_def on_timer_def live_close_def
  live_resume_def disciplined_def

section \<open>Properties\<close>

text \<open>C2: The stream is never stuck: in any order of calls and socket events, unless it was stopped
  or never started, either a reconnect timer is armed or a socket whose handlers are attached has
  not closed yet; and the socket it holds is always one it made and still listens to.\<close>

theorem live_never_stuck:
  assumes "live_reach c (\<lambda>_ _. True) s"
  shows "(\<forall>i. lv_socket s = Some i \<longrightarrow> i < length (lv_sockets s) \<and> so_attached (lv_sockets s ! i)) \<and>
    (lv_stopped s \<or> lv_state s = Closed \<or> lv_timer s \<noteq> None \<or> waits_on_socket s)"
  using never_stuck_reach [OF assms] by (simp add: never_stuck_def)

theorem live_never_stuck_witness:
  "0 < length (lv_sockets (run_live [Connect True 1, SocketOpened 0])) \<and>
   so_attached (lv_sockets (run_live [Connect True 1, SocketOpened 0]) ! 0)"
proof -
  let ?es = "[Connect True 1, SocketOpened 0]"
  have "allowed (\<lambda>_ _. True) ?es new_live_stream" by (simp add: live_eval)
  from live_never_stuck [OF run_live_reach [OF this]]
  have "lv_socket (run_live ?es) = Some 0 \<longrightarrow>
      0 < length (lv_sockets (run_live ?es)) \<and> so_attached (lv_sockets (run_live ?es) ! 0)" by blast
  moreover have "lv_socket (run_live ?es) = Some 0" by (simp add: live_eval)
  ultimately show ?thesis by blast
qed

text \<open>C1: One connection at a time: when the provider connects only a stream that holds no socket
  and no timer and never resumes during a closing handshake, the attached sockets that have not
  closed are exactly the one the client holds, a timer and a socket never coexist, and an open
  stream has its attempt counter reset.\<close>

theorem live_one_connection:
  assumes "live_reach c disciplined s"
  shows "(\<forall>i < length (lv_sockets s).
      (so_attached (lv_sockets s ! i) \<and> so_ready (lv_sockets s ! i) \<noteq> SockClosed) =
        (lv_socket s = Some i)) \<and>
    (lv_timer s \<noteq> None \<longrightarrow> lv_socket s = None) \<and> (lv_state s = Open \<longrightarrow> lv_attempt s = 0)"
  using one_connection_reach [OF assms] by (auto simp: one_connection_def)

theorem live_one_connection_witness:
  "lv_timer (run_live sample_run) = Some 500 \<and> lv_socket (run_live sample_run) = None"
proof -
  have timer: "lv_timer (run_live sample_run) = Some 500" by (simp add: live_eval)
  have "allowed disciplined sample_run new_live_stream" by (simp add: live_eval)
  from live_one_connection [OF run_live_reach [OF this]]
  have "lv_timer (run_live sample_run) \<noteq> None \<longrightarrow> lv_socket (run_live sample_run) = None" by blast
  then show ?thesis using timer by simp
qed

text \<open>A stopped stream is silent: under the same discipline, once \<open>close\<close> has run no timer is
  armed, no frame the browser still delivers reaches a listener or is answered, and a socket that
  closes late schedules no reconnect.\<close>

theorem live_closed_is_silent:
  assumes "live_reach c disciplined s" and "lv_stopped s"
    and "live_enabled e s" and "e = SocketMessage i m \<or> e = SocketClosed i j \<or> e = SocketOpened i"
  shows "lv_timer s = None \<and> lv_out (live_step c e s) = lv_out s \<and>
    lv_timer (live_step c e s) = None \<and> lv_state (live_step c e s) = Closed"
proof -
  have one: "one_connection s" using assms(1) by (rule one_connection_reach)
  then have off: "lv_socket s = None" "lv_timer s = None" "lv_state s = Closed"
    using assms(2) by (simp_all add: one_connection_def)
  have "i < length (lv_sockets s)" "so_ready (lv_sockets s ! i) \<noteq> SockClosed"
    using assms(3,4) by auto
  then have "\<not> attached i s" using one off(1) by (auto simp: one_connection_def attached_def)
  then show ?thesis using off assms(4) by (auto simp: Let_def)
qed

definition closed_run :: "live_event list" where
  "closed_run = [Connect True 1, SocketOpened 0, Close]"

theorem live_closed_is_silent_witness:
  "lv_timer (run_live closed_run) = None \<and>
   lv_out (live_step default_config (SocketClosed 0 1) (run_live closed_run)) =
     lv_out (run_live closed_run) \<and>
   lv_timer (live_step default_config (SocketClosed 0 1) (run_live closed_run)) = None \<and>
   lv_state (live_step default_config (SocketClosed 0 1) (run_live closed_run)) = Closed"
  by (rule live_closed_is_silent [OF run_live_reach, where j = 1 and i = 0 and m = Binary])
    (simp_all add: closed_run_def live_eval)

text \<open>Keep-alives stay inside the client: no listener ever hears a ping, and a ping delivered
  on the stream's own open socket is answered with one pong on that socket.\<close>

theorem live_pings_answered:
  assumes "live_reach c P s"
  shows "NotifyFrame Ping \<notin> set (lv_out s) \<and>
    (\<forall>i. lv_socket s = Some i \<and> live_enabled (SocketMessage i (Parsed Ping)) s \<longrightarrow>
       lv_out (live_step c (SocketMessage i (Parsed Ping)) s) = lv_out s @ [SendFrame i Pong])"
proof -
  have "attached i s" if "lv_socket s = Some i" for i
    using never_stuck_reach [OF assms] that by (simp add: never_stuck_def attached_def)
  then show ?thesis
    using heard_ping_reach [OF assms] by (simp add: heard_ping_def on_socket_message_def live_send_def)
qed

theorem live_pings_answered_witness:
  "lv_out (live_step default_config (SocketMessage 0 (Parsed Ping))
      (run_live [Connect True 1, SocketOpened 0])) =
    lv_out (run_live [Connect True 1, SocketOpened 0]) @ [SendFrame 0 Pong]"
proof -
  let ?es = "[Connect True 1, SocketOpened 0]"
  have "allowed (\<lambda>_ _. True) ?es new_live_stream" by (simp add: live_eval)
  from live_pings_answered [OF run_live_reach [OF this]]
  have "lv_socket (run_live ?es) = Some 0 \<and> live_enabled (SocketMessage 0 (Parsed Ping)) (run_live ?es) \<longrightarrow>
      lv_out (live_step default_config (SocketMessage 0 (Parsed Ping)) (run_live ?es)) =
        lv_out (run_live ?es) @ [SendFrame 0 Pong]" by blast
  moreover have "lv_socket (run_live ?es) = Some 0 \<and>
      live_enabled (SocketMessage 0 (Parsed Ping)) (run_live ?es)" by (simp add: live_eval)
  ultimately show ?thesis by blast
qed

text \<open>Back-off is bounded: with a jitter between 0 and 1 an armed retry never waits longer than
  the maximum, whatever happened before, and the n-th attempt never longer than the base doubled
  n - 1 times.\<close>

theorem live_backoff_bounded:
  assumes "live_reach default_config jitter_ok s" "0 \<le> j" "j \<le> 1"
  shows "(\<forall>d. lv_timer s = Some d \<longrightarrow> 0 \<le> d \<and> d \<le> 30000) \<and>
    delay_for default_config j n \<le> 500 * 2 ^ (n - 1)"
  using default_delays.timer_ok_reach [OF assms(1)] delay_for_bounds(3) [of default_config j n] assms(2,3)
  by (simp add: timer_ok_def default_config_def)

theorem live_backoff_bounded_witness:
  "\<exists>d. lv_timer (run_live sample_run) = Some d \<and> 0 \<le> d \<and> d \<le> 30000 \<and>
    delay_for default_config 1 3 \<le> 500 * 2 ^ (3 - 1)"
proof -
  have timer: "lv_timer (run_live sample_run) = Some 500" by (simp add: live_eval)
  have "allowed jitter_ok sample_run new_live_stream" by (simp add: live_eval)
  from live_backoff_bounded [OF run_live_reach [OF this], of 1 3] timer
  show ?thesis by simp
qed

definition orphan_run :: "live_event list" where
  "orphan_run = [Connect True 1, SocketOpened 0, SocketClosing 0, Resume True 1, SocketClosed 0 1,
     SocketOpened 1, TimerFired True 1, SocketOpened 2, Close]"

text \<open>Resuming while the old socket is still in its closing handshake opens a second one; when
  the first then closes, the client forgets the second, dials a third, and \<open>close\<close> leaves the
  second open with its handlers attached: frames keep arriving after the stream was closed.\<close>

theorem live_resume_orphans_socket:
  "allowed (\<lambda>_ _. True) orphan_run new_live_stream \<and> lv_state (run_live orphan_run) = Closed \<and>
   live_enabled (SocketMessage 1 (Parsed (TrackClosed tid))) (run_live orphan_run) \<and>
   lv_out (live_step default_config (SocketMessage 1 (Parsed (TrackClosed tid))) (run_live orphan_run)) =
     lv_out (run_live orphan_run) @ [NotifyFrame (TrackClosed tid)]"
  by (simp add: orphan_run_def live_eval)

end
