(* ===== verification/ApiClient.thy ===== *)
theory ApiClient
  imports ApiTypes
begin

text \<open>
  \<open>lib/api/client.ts\<close>: how a request's answer becomes a value or an \<open>ApiError\<close>, the query string
  of a request, and the normalisation of wire tracks; with it the page walk of
  \<open>lib/api/queries.ts\<close>. \<open>fetch\<close> is the browser's: a response is an input.
\<close>

section \<open>Normalisation\<close>

definition normalize_evidence :: "raw_evidence \<Rightarrow> evidence list" where
  "normalize_evidence e =
     (case e of
        EvArray es \<Rightarrow> es
      | EvObject kvs \<Rightarrow> List.map_filter snd kvs
      | EvAbsent \<Rightarrow> [])"

definition normalize_track :: "raw_track \<Rightarrow> track" where
  "normalize_track raw =
     (rt_fields raw)\<lparr>
       trk_evidence := Some (normalize_evidence (rt_evidence raw)),
       trk_history := Some (nullish (trk_history (rt_fields raw)) []),
       trk_adsb_correlated :=
         Some (nullish (or_else (rt_adsb_correlated raw) (rt_suppression_adsb_correlated raw)) False) \<rparr>"

text \<open>A normalised track sent over the wire again.\<close>

definition raw_of_track :: "track \<Rightarrow> raw_track" where
  "raw_of_track t =
     \<lparr> rt_fields = t,
       rt_evidence = (case trk_evidence t of None \<Rightarrow> EvAbsent | Some es \<Rightarrow> EvArray es),
       rt_adsb_correlated = trk_adsb_correlated t, rt_suppression_adsb_correlated = None \<rparr>"

lemma normalize_track_id [simp]: "trk_track_id (normalize_track raw) = trk_track_id (rt_fields raw)"
  by (simp add: normalize_track_def)

lemma normalize_track_state [simp]: "trk_state (normalize_track raw) = trk_state (rt_fields raw)"
  by (simp add: normalize_track_def)

section \<open>Responses\<close>

text \<open>
  \<open>http_body\<close> is \<^term>\<open>None\<close> when \<open>response.json()\<close> rejects. A request ends with a value, with
  \<open>undefined\<close> for 204, with an \<open>ApiError\<close>, or with the rejection of \<open>json()\<close> itself.
\<close>

record http_response =
  http_status :: nat
  http_status_text :: string
  http_body :: "json option"

record api_error =
  ae_status :: nat
  ae_code :: "json option"
  ae_message :: "json option"
  ae_field :: "json option"

datatype request_result = Value json | NoContent | Failed api_error | BadJson

definition obj_get :: "json \<Rightarrow> string \<Rightarrow> json option" where
  "obj_get v k = (case v of JObj fs \<Rightarrow> map_of fs k | _ \<Rightarrow> None)"

text \<open>The \<open>error\<close> member must be an object that has a \<open>message\<close>.\<close>

definition api_error_body :: "json \<Rightarrow> (string \<times> json) list option" where
  "api_error_body v =
     (case obj_get v ''error'' of
        Some (JObj err) \<Rightarrow> if map_of err ''message'' \<noteq> None then Some err else None
      | _ \<Rightarrow> None)"

definition response_ok :: "http_response \<Rightarrow> bool" where
  "response_ok r \<longleftrightarrow> 200 \<le> http_status r \<and> http_status r \<le> 299"

definition request_result_of :: "http_response \<Rightarrow> request_result" where
  "request_result_of r =
     (if \<not> response_ok r then
        (case Option.bind (http_body r) api_error_body of
           Some err \<Rightarrow>
             Failed \<lparr> ae_status = http_status r, ae_code = map_of err ''code'',
                      ae_message = map_of err ''message'', ae_field = map_of err ''field'' \<rparr>
         | None \<Rightarrow>
             Failed \<lparr> ae_status = http_status r, ae_code = Some (JStr ''internal''),
                      ae_message = Some (JStr (digits_of_nat (http_status r) @ '' '' @ http_status_text r)),
                      ae_field = None \<rparr>)
      else if http_status r = 204 then NoContent
      else (case http_body r of None \<Rightarrow> BadJson | Some v \<Rightarrow> Value v))"

definition is_privileges_required :: "api_error \<Rightarrow> bool" where
  "is_privileges_required e \<longleftrightarrow> ae_code e = Some (JStr ''privileges_required'')"

definition is_not_found :: "api_error \<Rightarrow> bool" where
  "is_not_found e \<longleftrightarrow> ae_code e = Some (JStr ''not_found'') \<or> ae_status e = 404"

text \<open>Config endpoints answer with an envelope; older builds with the value itself.\<close>

definition unwrap_config_value :: "json \<Rightarrow> json" where
  "unwrap_config_value r = (case obj_get r ''value'' of Some v \<Rightarrow> v | None \<Rightarrow> r)"

section \<open>URLs\<close>

definition hex_digit :: "nat \<Rightarrow> char" where
  "hex_digit n = (if n < 10 then char_of (48 + n) else char_of (55 + n))"

definition percent_byte :: "char \<Rightarrow> string" where
  "percent_byte c = (let n = (of_char c :: nat) in [CHR ''%'', hex_digit (n div 16), hex_digit (n mod 16)])"

definition is_alnum :: "char \<Rightarrow> bool" where
  "is_alnum c = (let n = (of_char c :: nat) in
     48 \<le> n \<and> n \<le> 57 \<or> 65 \<le> n \<and> n \<le> 90 \<or> 97 \<le> n \<and> n \<le> 122)"

definition uri_unreserved :: "char \<Rightarrow> bool" where
  "uri_unreserved c \<longleftrightarrow> is_alnum c \<or> c \<in> set ''-_.!~*()'' \<or> c = CHR 0x27"

definition encode_uri_component :: "string \<Rightarrow> string" where
  "encode_uri_component s = concat (List.map (\<lambda>c. if uri_unreserved c then [c] else percent_byte c) s)"

definition form_char :: "char \<Rightarrow> string" where
  "form_char c =
     (if is_alnum c \<or> c \<in> set ''*-._'' then [c] else if c = CHR '' '' then ''+'' else percent_byte c)"

definition form_encode :: "string \<Rightarrow> string" where
  "form_encode s = concat (List.map form_char s)"

datatype param = PUndef | PStr string | PInt int | PList "string list"

definition param_text :: "param \<Rightarrow> string option" where
  "param_text p =
     (case p of
        PUndef \<Rightarrow> None
      | PStr s \<Rightarrow> Some s
      | PInt i \<Rightarrow> Some (string_of_int i)
      | PList xs \<Rightarrow> if xs = [] then None else Some (join '','' xs))"

definition build_query :: "(string \<times> param) list \<Rightarrow> string" where
  "build_query params =
     (let pairs = fold (\<lambda>(k, p) acc. case param_text p of None \<Rightarrow> acc | Some v \<Rightarrow> AList.update k v acc)
                    params [];
          qs = join ''&'' (List.map (\<lambda>(k, v). form_encode k @ ''='' @ form_encode v) pairs)
      in if qs = [] then [] else ''?'' @ qs)"

definition tracks_path :: "tracks_query \<Rightarrow> (real \<Rightarrow> string) \<Rightarrow> string" where
  "tracks_path q num =
     ''/tracks'' @ build_query
       [(''state'', PList (List.map state_text (nullish (tq_state q) []))),
        (''since'', case tq_since q of None \<Rightarrow> PUndef | Some s \<Rightarrow> PStr s),
        (''until'', case tq_until q of None \<Rightarrow> PUndef | Some s \<Rightarrow> PStr s),
        (''serial'', case tq_serial q of None \<Rightarrow> PUndef | Some s \<Rightarrow> PStr s),
        (''vendor'', case tq_vendor q of None \<Rightarrow> PUndef | Some s \<Rightarrow> PStr s),
        (''min_confidence'', case tq_min_confidence q of None \<Rightarrow> PUndef | Some x \<Rightarrow> PStr (num x)),
        (''limit'', case tq_limit q of None \<Rightarrow> PUndef | Some i \<Rightarrow> PInt i),
        (''cursor'', case tq_cursor q of None \<Rightarrow> PUndef | Some s \<Rightarrow> PStr s)]"

text \<open>No encoded identifier can leave its path segment or start a query.\<close>

lemma hex_digit_alnum: "n < 16 \<Longrightarrow> is_alnum (hex_digit n)"
  by (auto simp: hex_digit_def is_alnum_def Let_def)

lemma percent_byte_chars: "set (percent_byte c) \<subseteq> {x. is_alnum x} \<union> {CHR ''%''}"
proof -
  have "(of_char c :: nat) div 16 < 16"
    using nat_of_char_less_256 [of c] by (simp add: less_mult_imp_div_less)
  then show ?thesis by (simp add: percent_byte_def Let_def hex_digit_alnum)
qed

lemma encode_uri_component_chars:
  "set (encode_uri_component s) \<subseteq> {c. uri_unreserved c} \<union> {CHR ''%''}"
  using percent_byte_chars by (force simp: encode_uri_component_def uri_unreserved_def)

section \<open>The page walk\<close>

text \<open>
  \<open>trackPathQuery\<close> of \<open>queries.ts\<close>: follow \<open>next_cursor\<close> for at most ten pages. \<open>fetch cursor\<close>
  is the page the API answers with, or \<^term>\<open>None\<close> when the request rejects.
\<close>

definition path_max_pages :: nat where "path_max_pages = 10"

fun walk_pages ::
  "nat \<Rightarrow> (string option \<Rightarrow> detections_response option) \<Rightarrow> string option \<Rightarrow> detection list \<Rightarrow> detection list option"
where
  "walk_pages 0 fetch cursor all = Some all"
| "walk_pages (Suc n) fetch cursor all =
     (case fetch cursor of
        None \<Rightarrow> None
      | Some res \<Rightarrow>
          let all' = all @ dr_detections res
          in if truthy (dr_next_cursor res) then walk_pages n fetch (dr_next_cursor res) all'
             else Some all')"

definition track_path :: "(string option \<Rightarrow> detections_response option) \<Rightarrow> detection list option" where
  "track_path fetch = walk_pages path_max_pages fetch None []"

text \<open>The pages a walk that is never rejected visits, at most \<open>n\<close>.\<close>

fun pages_from ::
  "nat \<Rightarrow> (string option \<Rightarrow> detections_response) \<Rightarrow> string option \<Rightarrow> detections_response list"
where
  "pages_from 0 page cursor = []"
| "pages_from (Suc n) page cursor =
     page cursor # (if truthy (dr_next_cursor (page cursor))
                    then pages_from n page (dr_next_cursor (page cursor)) else [])"

lemma walk_pages_eq:
  "walk_pages n (\<lambda>c. Some (page c)) cursor all =
     Some (all @ concat (List.map dr_detections (pages_from n page cursor)))"
  by (induction n arbitrary: cursor all) (simp_all add: Let_def)

lemma length_pages_from: "length (pages_from n page cursor) \<le> n"
  by (induction n arbitrary: cursor) auto

lemma pages_from_linked:
  "Suc i < length (pages_from n page cursor) \<Longrightarrow>
   truthy (dr_next_cursor (pages_from n page cursor ! i)) \<and>
   pages_from n page cursor ! Suc i = page (dr_next_cursor (pages_from n page cursor ! i))"
proof (induction n arbitrary: cursor i)
  case (Suc n)
  show ?case
  proof (cases i)
    case 0
    then show ?thesis using Suc.prems by (cases n) (auto split: if_splits)
  next
    case (Suc j)
    then show ?thesis using Suc.prems Suc.IH [of j "dr_next_cursor (page cursor)"]
      by (auto split: if_splits)
  qed
qed simp

lemma pages_from_ne: "0 < n \<Longrightarrow> pages_from n page cursor \<noteq> []"
  by (cases n) simp_all

lemma pages_from_stop:
  "length (pages_from n page cursor) < n \<Longrightarrow>
   \<not> truthy (dr_next_cursor (last (pages_from n page cursor)))"
proof (induction n arbitrary: cursor)
  case (Suc n)
  show ?case
  proof (cases "truthy (dr_next_cursor (page cursor))")
    case True
    then have "length (pages_from n page (dr_next_cursor (page cursor))) < n" using Suc.prems by simp
    moreover from this have "pages_from n page (dr_next_cursor (page cursor)) \<noteq> []"
      by (intro pages_from_ne) simp
    ultimately show ?thesis using True Suc.IH [of "dr_next_cursor (page cursor)"] by simp
  qed simp
qed simp

section \<open>Decoding\<close>

text \<open>The inverse of the percent encoding, to show that it loses nothing.\<close>

definition hex_value :: "char \<Rightarrow> nat" where
  "hex_value c = (let n = of_char c in if n < 58 then n - 48 else n - 55)"

fun percent_decode :: "string \<Rightarrow> string" where
  "percent_decode (c # a # b # rest) =
     (if c = CHR ''%'' then char_of (16 * hex_value a + hex_value b) # percent_decode rest
      else c # percent_decode (a # b # rest))"
| "percent_decode s = s"

lemma hex_value_digit: "n < 16 \<Longrightarrow> hex_value (hex_digit n) = n"
  by (auto simp: hex_value_def hex_digit_def Let_def)

lemma percent_decode_byte: "percent_decode (percent_byte c @ rest) = c # percent_decode rest"
proof -
  let ?n = "of_char c :: nat"
  have "?n div 16 < 16" "?n mod 16 < 16"
    using nat_of_char_less_256 [of c] by (simp_all add: less_mult_imp_div_less)
  then show ?thesis by (simp add: percent_byte_def Let_def hex_value_digit)
qed

lemma percent_decode_plain: "c \<noteq> CHR ''%'' \<Longrightarrow> percent_decode (c # rest) = c # percent_decode rest"
  by (cases rest rule: percent_decode.cases) simp_all

lemma unreserved_not_percent: "uri_unreserved c \<Longrightarrow> c \<noteq> CHR ''%''"
  by (auto simp: uri_unreserved_def is_alnum_def Let_def)

lemma percent_decode_encode: "percent_decode (encode_uri_component s) = s"
  by (induction s)
    (simp_all add: encode_uri_component_def percent_decode_byte percent_decode_plain unreserved_not_percent)

lemma encoded_segment_safe_aux: "set (encode_uri_component s) \<inter> set ''/?#& '' = {}"
proof -
  have "c \<notin> set ''/?#& ''" if "uri_unreserved c \<or> c = CHR ''%''" for c
    using that by (auto simp: uri_unreserved_def is_alnum_def Let_def)
  then show ?thesis using encode_uri_component_chars [of s] by blast
qed

section \<open>Properties\<close>

text \<open>An identifier put into a path by \<open>encodeURIComponent\<close> stays one path segment, with no
  slash, question mark, hash, ampersand or space, and two different identifiers never give the same
  segment.\<close>

theorem encoded_segment_safe:
  "set (encode_uri_component s) \<inter> set ''/?#& '' = {} \<and> inj encode_uri_component"
  using encoded_segment_safe_aux by (metis injI percent_decode_encode)

text \<open>Normalising a wire track always gives it an evidence list, a history and a correlation
  flag, leaves its identity, state and confidence alone, and is idempotent: a normalised track sent
  over the wire again comes back unchanged.\<close>

theorem normalize_track_idempotent:
  "trk_evidence (normalize_track raw) \<noteq> None \<and> trk_history (normalize_track raw) \<noteq> None \<and>
   trk_adsb_correlated (normalize_track raw) \<noteq> None \<and>
   trk_identity (normalize_track raw) = trk_identity (rt_fields raw) \<and>
   trk_state (normalize_track raw) = trk_state (rt_fields raw) \<and>
   trk_confidence (normalize_track raw) = trk_confidence (rt_fields raw) \<and>
   normalize_track (raw_of_track (normalize_track raw)) = normalize_track raw"
  by (simp add: normalize_track_def raw_of_track_def normalize_evidence_def nullish_def)

text \<open>Every answer outside the 200s becomes an \<open>ApiError\<close> that carries the status, whatever its
  body; with an error envelope it carries the envelope's code, message and field, without one the
  code \<open>internal\<close>. An answer in the 200s is never an error.\<close>

theorem request_errors_are_values:
  "(if response_ok r then \<forall>e. request_result_of r \<noteq> Failed e
    else \<exists>e. request_result_of r = Failed e \<and> ae_status e = http_status r \<and> ae_message e \<noteq> None \<and>
      (case Option.bind (http_body r) api_error_body of
         Some err \<Rightarrow> ae_code e = map_of err ''code'' \<and> ae_message e = map_of err ''message'' \<and>
           ae_field e = map_of err ''field''
       | None \<Rightarrow> ae_code e = Some (JStr ''internal'')))"
  by (auto simp: request_result_of_def api_error_body_def bind_eq_Some_conv
      split: option.splits json.splits if_splits)

text \<open>The track path is the detections of at most ten pages, each page the one the previous
  page's cursor names, and the walk stops early only at a page without a cursor.\<close>

theorem track_path_pages:
  "\<exists>pages. track_path (\<lambda>c. Some (page c)) = Some (concat (List.map dr_detections pages)) \<and>
     length pages \<le> 10 \<and> pages ! 0 = page None \<and>
     (\<forall>i. Suc i < length pages \<longrightarrow> truthy (dr_next_cursor (pages ! i)) \<and>
        pages ! Suc i = page (dr_next_cursor (pages ! i))) \<and>
     (length pages < 10 \<longrightarrow> \<not> truthy (dr_next_cursor (last pages)))"
proof -
  have ten: "path_max_pages = Suc 9" by (simp add: path_max_pages_def)
  have first: "pages_from (Suc 9) page None ! 0 = page None"
    by (simp only: pages_from.simps nth_Cons_0)
  show ?thesis
    unfolding track_path_def walk_pages_eq ten
    using first pages_from_stop [of "Suc 9" page None] length_pages_from [of "Suc 9" page None] pages_from_linked [of _ "Suc 9" page None]
    by (intro exI [of _ "pages_from (Suc 9) page None"]) auto
qed

definition two_pages :: "string option \<Rightarrow> detections_response" where
  "two_pages c = \<lparr> dr_detections = [], dr_next_cursor = (if c = None then Some ''x'' else None),
     dr_total = 0 \<rparr>"

theorem track_path_pages_witness:
  "\<exists>pages. track_path (\<lambda>c. Some (two_pages c)) = Some (concat (List.map dr_detections pages)) \<and>
     length pages \<le> 10 \<and> pages ! 0 = two_pages None \<and>
     (\<forall>i. Suc i < length pages \<longrightarrow> truthy (dr_next_cursor (pages ! i)) \<and>
        pages ! Suc i = two_pages (dr_next_cursor (pages ! i))) \<and>
     (length pages < 10 \<longrightarrow> \<not> truthy (dr_next_cursor (last pages)))"
  by (rule track_path_pages)

end
