(* ===== verification/LiveFrames.thy ===== *)
theory LiveFrames
  imports ApiClient "HOL-Library.Sublist"
begin

text \<open>
  \<open>app/live-frames.ts\<close>: the cache reducer for one server frame. The cache is TanStack Query's
  \<open>QueryClient\<close>, which is not part of this repository: its operations are the record
  \<open>query_client\<close> that \<open>apply_frame\<close> takes as an argument, and \<open>query_client_laws\<close> states what the
  reducer relies on.
\<close>

section \<open>Which lists a track belongs to\<close>

definition matches_query :: "track \<Rightarrow> tracks_query \<Rightarrow> bool" where
  "matches_query t q \<longleftrightarrow>
     (case tq_state q of None \<Rightarrow> True | Some ss \<Rightarrow> ss = [] \<or> trk_state t \<in> set ss) \<and>
     (truthy (tq_since q) \<longrightarrow> \<not> trk_last_seen t < nullish (tq_since q) []) \<and>
     (truthy (tq_until q) \<longrightarrow> \<not> nullish (tq_until q) [] < trk_last_seen t) \<and>
     (case tq_serial q of None \<Rightarrow> True | Some s \<Rightarrow> trk_serial t = Some s) \<and>
     (case tq_vendor q of None \<Rightarrow> True | Some v \<Rightarrow> to_lower (nullish (trk_vendor t) []) = to_lower v) \<and>
     (case tq_min_confidence q of None \<Rightarrow> True | Some m \<Rightarrow> m \<le> trk_confidence t)"

definition max_closed_per_list :: nat where
  "max_closed_per_list = 500"

definition is_closed :: "track \<Rightarrow> bool" where
  "is_closed t \<longleftrightarrow> trk_state t = CLOSED"

definition last_seen_cmp :: "track \<Rightarrow> track \<Rightarrow> int" where
  "last_seen_cmp a b =
     (if trk_last_seen a < trk_last_seen b then -1
      else if trk_last_seen b < trk_last_seen a then 1 else 0)"

definition evict_excess_closed :: "track list \<Rightarrow> track list" where
  "evict_excess_closed tracks =
     (let closed = List.filter is_closed tracks
      in if length closed \<le> max_closed_per_list then tracks
         else
           let doomed = List.map trk_track_id
                 (take (length closed - max_closed_per_list) (js_sort last_seen_cmp closed))
           in List.filter (\<lambda>t. trk_track_id t \<notin> set doomed) tracks)"

section \<open>The effect on one cache entry\<close>

text \<open>\<^term>\<open>None\<close>: the entry is left alone.\<close>

definition list_after_update :: "track \<Rightarrow> tracks_query \<Rightarrow> tracks_response \<Rightarrow> tracks_response option" where
  "list_after_update t q old =
     (let matches = matches_query t q
      in case find_index (\<lambda>x. trk_track_id x = trk_track_id t) (tr_tracks old) of
           None \<Rightarrow>
             if \<not> matches then None
             else Some (old\<lparr> tr_tracks := evict_excess_closed (tr_tracks old @ [t]),
                             tr_total := tr_total old + 1 \<rparr>)
         | Some i \<Rightarrow>
             if \<not> matches then
               Some (old\<lparr> tr_tracks := List.filter (\<lambda>x. trk_track_id x \<noteq> trk_track_id t) (tr_tracks old),
                          tr_total := max 0 (tr_total old - 1) \<rparr>)
             else Some (old\<lparr> tr_tracks := (tr_tracks old)[i := t] \<rparr>))"

definition list_after_close :: "string \<Rightarrow> tracks_query \<Rightarrow> tracks_response \<Rightarrow> tracks_response option" where
  "list_after_close tid q old =
     (case find_index (\<lambda>x. trk_track_id x = tid) (tr_tracks old) of
        None \<Rightarrow> None
      | Some i \<Rightarrow>
          let existing = tr_tracks old ! i
          in if is_closed existing then None
             else
               let closed = existing\<lparr> trk_state := CLOSED \<rparr>
               in if \<not> matches_query closed q then
                    Some (old\<lparr> tr_tracks := List.filter (\<lambda>x. trk_track_id x \<noteq> tid) (tr_tracks old),
                               tr_total := max 0 (tr_total old - 1) \<rparr>)
                  else Some (old\<lparr> tr_tracks := (tr_tracks old)[i := closed] \<rparr>))"

definition det_icao :: "detection \<Rightarrow> string option" where
  "det_icao d = map_option adsb_icao (det_adsb d)"

definition detections_after :: "detection \<Rightarrow> detections_response \<Rightarrow> detections_response" where
  "detections_after d old =
     (let rest = (if truthy (det_icao d)
                  then List.filter (\<lambda>x. det_icao x \<noteq> det_icao d) (dr_detections old)
                  else List.filter (\<lambda>x. det_detection_id x \<noteq> det_detection_id d) (dr_detections old))
      in old\<lparr> dr_detections := take 200 (d # rest) \<rparr>)"

definition sensors_after :: "health \<Rightarrow> sensor_health list \<Rightarrow> sensor_health list" where
  "sensors_after h old =
     (let config = fold (\<lambda>s acc. AList.update (sh_sensor_id s) (sh_config s) acc) old []
      in List.map (\<lambda>s. case map_of config (sh_sensor_id s) of
                         Some (Some known) \<Rightarrow> s\<lparr> sh_config := Some known \<rparr>
                       | _ \<Rightarrow> s) (hl_sensors h))"

definition sweeps_after :: "spectrum_sweep \<Rightarrow> sweeps_response \<Rightarrow> sweeps_response" where
  "sweeps_after w old =
     (case find_index (\<lambda>x. sw_sweep_id x = sw_sweep_id w) (sr_sweeps old) of
        None \<Rightarrow> old\<lparr> sr_sweeps := w # sr_sweeps old \<rparr>
      | Some i \<Rightarrow> old\<lparr> sr_sweeps := (sr_sweeps old)[i := w] \<rparr>)"

section \<open>The query client\<close>

datatype qkey =
    KTrack string
  | KTracks "tracks_query option"
  | KDetections string
  | KHealth
  | KSensors
  | KMonitoring
  | KCapture string
  | KCaptures
  | KSweeps
  | KSweep string nat
  | KBands

datatype qdata =
    QTrack track
  | QTracks tracks_response
  | QDetections detections_response
  | QHealth health
  | QSensors "sensor_health list"
  | QMonitoring monitoring_state
  | QCapture capture
  | QSweeps sweeps_response

record 'c query_client =
  qc_get :: "'c \<Rightarrow> qkey \<Rightarrow> qdata option"
  qc_set :: "qkey \<Rightarrow> qdata \<Rightarrow> 'c \<Rightarrow> 'c"
  qc_keys :: "'c \<Rightarrow> qkey list"
  qc_invalidate :: "(qkey \<Rightarrow> bool) \<Rightarrow> 'c \<Rightarrow> 'c"
  qc_remove :: "qkey \<Rightarrow> 'c \<Rightarrow> 'c"

text \<open>
  \<open>setQueryData\<close> stores under exactly its key; every key that holds data is found, once, by
  \<open>getQueriesData\<close>; invalidating refetches later but changes no data now.
\<close>

definition query_client_laws :: "'c query_client \<Rightarrow> bool" where
  "query_client_laws qc \<longleftrightarrow>
     (\<forall>c k v k'. qc_get qc (qc_set qc k v c) k' = (if k' = k then Some v else qc_get qc c k')) \<and>
     (\<forall>c. distinct (qc_keys qc c)) \<and>
     (\<forall>c k. qc_get qc c k \<noteq> None \<longrightarrow> k \<in> set (qc_keys qc c)) \<and>
     (\<forall>c f k. qc_get qc (qc_invalidate qc f c) k = qc_get qc c k)"

text \<open>
  The other half of the cache's documentation. \<open>invalidateQueries\<close> asks for a refetch of exactly the
  keys it matches, and nothing else asks for one; \<open>asked c k\<close> is how often that was so for \<open>k\<close>. The
  cache may throw an unused entry away, which leaves the others alone.
\<close>

definition refetch_laws :: "'c query_client \<Rightarrow> ('c \<Rightarrow> qkey \<Rightarrow> nat) \<Rightarrow> bool" where
  "refetch_laws qc asked \<longleftrightarrow>
     (\<forall>c k k'. qc_get qc (qc_remove qc k c) k' = (if k' = k then None else qc_get qc c k')) \<and>
     (\<forall>c k k'. asked (qc_remove qc k c) k' = asked c k') \<and>
     (\<forall>c k v k'. asked (qc_set qc k v c) k' = asked c k') \<and>
     (\<forall>c f k. asked (qc_invalidate qc f c) k = asked c k + of_bool (f k))"

text \<open>\<open>setQueryData\<close> with an updater: an undefined result leaves the entry alone.\<close>

definition set_query_data ::
  "'c query_client \<Rightarrow> qkey \<Rightarrow> (qdata option \<Rightarrow> qdata option) \<Rightarrow> 'c \<Rightarrow> 'c" where
  "set_query_data qc k f c = (case f (qc_get qc c k) of None \<Rightarrow> c | Some v \<Rightarrow> qc_set qc k v c)"

text \<open>
  The loops over \<open>getQueriesData\<close> and \<open>setQueriesData\<close>: each matching entry is read from the
  snapshot and written back under its own key.
\<close>

definition update_queries ::
  "'c query_client \<Rightarrow> (qkey \<Rightarrow> bool) \<Rightarrow> (qkey \<Rightarrow> qdata \<Rightarrow> qdata option) \<Rightarrow> 'c \<Rightarrow> 'c" where
  "update_queries qc p f c =
     fold (\<lambda>(k, old) c'. case Option.bind old (f k) of None \<Rightarrow> c' | Some v \<Rightarrow> qc_set qc k v c')
       (List.map (\<lambda>k. (k, qc_get qc c k)) (List.filter p (qc_keys qc c))) c"

fun is_list_key :: "qkey \<Rightarrow> bool" where
  "is_list_key (KTracks _) = True"
| "is_list_key _ = False"

fun is_detections_key :: "qkey \<Rightarrow> bool" where
  "is_detections_key (KDetections _) = True"
| "is_detections_key _ = False"

fun is_sweep_key :: "string \<Rightarrow> qkey \<Rightarrow> bool" where
  "is_sweep_key i (KSweep j _) = (i = j)"
| "is_sweep_key i _ = False"

fun is_captures_key :: "qkey \<Rightarrow> bool" where
  "is_captures_key KCaptures = True"
| "is_captures_key (KCapture _) = True"
| "is_captures_key _ = False"

fun key_query :: "qkey \<Rightarrow> tracks_query" where
  "key_query (KTracks (Some q)) = q"
| "key_query _ = empty_tracks_query"

fun on_tracks :: "(tracks_response \<Rightarrow> tracks_response option) \<Rightarrow> qdata \<Rightarrow> qdata option" where
  "on_tracks f (QTracks r) = map_option QTracks (f r)"
| "on_tracks f _ = None"

fun on_detections :: "(detections_response \<Rightarrow> detections_response) \<Rightarrow> qdata \<Rightarrow> qdata option" where
  "on_detections f (QDetections r) = Some (QDetections (f r))"
| "on_detections f _ = None"

fun close_track :: "qdata option \<Rightarrow> qdata option" where
  "close_track (Some (QTrack t)) = Some (QTrack (t\<lparr> trk_state := CLOSED \<rparr>))"
| "close_track old = old"

fun merge_sensors :: "health \<Rightarrow> qdata option \<Rightarrow> qdata option" where
  "merge_sensors h (Some (QSensors old)) = Some (QSensors (sensors_after h old))"
| "merge_sensors h old = old"

fun merge_sweeps :: "spectrum_sweep \<Rightarrow> qdata option \<Rightarrow> qdata option" where
  "merge_sweeps w (Some (QSweeps old)) = Some (QSweeps (sweeps_after w old))"
| "merge_sweeps w old = old"

section \<open>The reducer\<close>

fun apply_frame :: "'c query_client \<Rightarrow> server_frame \<Rightarrow> 'c \<Rightarrow> 'c" where
  "apply_frame qc (TrackUpdate raw) c =
     (let track = normalize_track raw
      in update_queries qc is_list_key (\<lambda>k. on_tracks (list_after_update track (key_query k)))
           (qc_set qc (KTrack (trk_track_id track)) (QTrack track) c))"
| "apply_frame qc (TrackClosed tid) c =
     update_queries qc is_list_key (\<lambda>k. on_tracks (list_after_close tid (key_query k)))
       (set_query_data qc (KTrack tid) close_track c)"
| "apply_frame qc (DetectionFrame d) c =
     (if det_class d \<noteq> ClassD then c
      else update_queries qc is_detections_key (\<lambda>_. on_detections (detections_after d)) c)"
| "apply_frame qc (HealthFrame h) c =
     set_query_data qc KSensors (merge_sensors h) (qc_set qc KHealth (QHealth h) c)"
| "apply_frame qc (MonitoringFrame m) c = qc_set qc KMonitoring (QMonitoring m) c"
| "apply_frame qc (CaptureStatus cap) c =
     qc_invalidate qc is_captures_key (qc_set qc (KCapture (cap_capture_id cap)) (QCapture cap) c)"
| "apply_frame qc (SweepStatus w) c =
     (let c1 = set_query_data qc KSweeps (merge_sweeps w) c
      in if sw_state w \<noteq> Running
         then qc_invalidate qc (\<lambda>k. k = KBands) (qc_invalidate qc (is_sweep_key (sw_sweep_id w)) c1)
         else c1)"
| "apply_frame qc Ping c = c"

section \<open>The abstract effect of a frame\<close>

text \<open>What one frame means for the entry under one key, with no cache in sight.\<close>

fun frame_effect :: "server_frame \<Rightarrow> qkey \<Rightarrow> qdata option \<Rightarrow> qdata option" where
  "frame_effect (TrackUpdate raw) k old =
     (let track = normalize_track raw
      in if k = KTrack (trk_track_id track) then Some (QTrack track)
         else if is_list_key k
         then or_else (Option.bind old (on_tracks (list_after_update track (key_query k)))) old
         else old)"
| "frame_effect (TrackClosed tid) k old =
     (if k = KTrack tid then close_track old
      else if is_list_key k
      then or_else (Option.bind old (on_tracks (list_after_close tid (key_query k)))) old
      else old)"
| "frame_effect (DetectionFrame d) k old =
     (if det_class d = ClassD \<and> is_detections_key k
      then or_else (Option.bind old (on_detections (detections_after d))) old else old)"
| "frame_effect (HealthFrame h) k old =
     (if k = KHealth then Some (QHealth h) else if k = KSensors then merge_sensors h old else old)"
| "frame_effect (MonitoringFrame m) k old = (if k = KMonitoring then Some (QMonitoring m) else old)"
| "frame_effect (CaptureStatus cap) k old =
     (if k = KCapture (cap_capture_id cap) then Some (QCapture cap) else old)"
| "frame_effect (SweepStatus w) k old = (if k = KSweeps then merge_sweeps w old else old)"
| "frame_effect Ping k old = old"

section \<open>The interface of the cache\<close>

locale query_cache =
  fixes qc :: "'c query_client"
  assumes laws: "query_client_laws qc"
begin

lemma get_set: "qc_get qc (qc_set qc k v c) k' = (if k' = k then Some v else qc_get qc c k')"
  using laws by (simp add: query_client_laws_def)

lemma get_invalidate: "qc_get qc (qc_invalidate qc f c) k = qc_get qc c k"
  using laws by (simp add: query_client_laws_def)

lemma keys_distinct: "distinct (qc_keys qc c)"
  using laws by (simp add: query_client_laws_def)

lemma keys_complete: "qc_get qc c k \<noteq> None \<Longrightarrow> k \<in> set (qc_keys qc c)"
  using laws unfolding query_client_laws_def by blast

lemma get_set_query_data:
  "qc_get qc (set_query_data qc k f c) k' =
     (if k' = k then or_else (f (qc_get qc c k)) (qc_get qc c k) else qc_get qc c k')"
  by (auto simp: set_query_data_def get_set split: option.splits)

lemma get_fold_other:
  "k \<notin> set ks \<Longrightarrow>
   qc_get qc (fold (\<lambda>(k, old) c'. case Option.bind old (f k) of None \<Rightarrow> c' | Some v \<Rightarrow> qc_set qc k v c')
     (List.map (\<lambda>k. (k, g k)) ks) c) k = qc_get qc c k"
  by (induction ks arbitrary: c) (auto simp: get_set split: option.splits)

lemma get_fold:
  "distinct ks \<Longrightarrow> k \<in> set ks \<Longrightarrow>
   qc_get qc (fold (\<lambda>(k, old) c'. case Option.bind old (f k) of None \<Rightarrow> c' | Some v \<Rightarrow> qc_set qc k v c')
     (List.map (\<lambda>k. (k, g k)) ks) c) k = or_else (Option.bind (g k) (f k)) (qc_get qc c k)"
proof (induction ks arbitrary: c)
  case Nil
  then show ?case by simp
next
  case (Cons a ks)
  show ?case
  proof (cases "a = k")
    case True
    then have "k \<notin> set ks" using Cons.prems(1) by simp
    then show ?thesis using True by (auto simp: get_fold_other get_set split: option.splits)
  next
    case False
    then have "k \<in> set ks" "distinct ks" using Cons.prems by auto
    then show ?thesis using False by (auto simp: Cons.IH get_set split: option.splits)
  qed
qed

lemma get_update_queries:
  "qc_get qc (update_queries qc p f c) k =
     (if p k then or_else (Option.bind (qc_get qc c k) (f k)) (qc_get qc c k) else qc_get qc c k)"
proof (cases "p k \<and> qc_get qc c k \<noteq> None")
  case True
  then have "k \<in> set (List.filter p (qc_keys qc c))" using keys_complete by simp
  then show ?thesis
    unfolding update_queries_def using True by (simp add: get_fold keys_distinct)
next
  case False
  have "qc_get qc (update_queries qc p f c) k = qc_get qc c k"
  proof (cases "k \<in> set (List.filter p (qc_keys qc c))")
    case True
    then have "qc_get qc c k = None" using False by simp
    then show ?thesis
      unfolding update_queries_def using True by (simp add: get_fold keys_distinct)
  next
    case False
    then show ?thesis unfolding update_queries_def by (rule get_fold_other)
  qed
  then show ?thesis using False by auto
qed

lemma apply_frame_refines:
  "qc_get qc (apply_frame qc f c) k = frame_effect f k (qc_get qc c k)"
proof (cases f)
  case (TrackUpdate raw)
  then show ?thesis by (cases k) (simp_all add: Let_def get_update_queries get_set)
next
  case (TrackClosed tid)
  have "close_track old = or_else (close_track old) old" for old
    by (cases old rule: close_track.cases) simp_all
  then show ?thesis using TrackClosed
    by (cases k) (simp_all add: get_update_queries get_set_query_data)
next
  case (HealthFrame h)
  have "merge_sensors h old = or_else (merge_sensors h old) old" for old
    by (cases "(h, old)" rule: merge_sensors.cases) simp_all
  then show ?thesis using HealthFrame by (simp add: get_set_query_data get_set)
next
  case (SweepStatus w)
  have "merge_sweeps w old = or_else (merge_sweeps w old) old" for old
    by (cases "(w, old)" rule: merge_sweeps.cases) simp_all
  then show ?thesis using SweepStatus
    by (simp add: Let_def get_set_query_data get_invalidate)
qed (simp_all add: get_update_queries get_set get_invalidate)

end

text \<open>Which keys a frame has refetched.\<close>

fun frame_asks :: "server_frame \<Rightarrow> qkey \<Rightarrow> bool" where
  "frame_asks (CaptureStatus cap) k = is_captures_key k"
| "frame_asks (SweepStatus w) k = (sw_state w \<noteq> Running \<and> (is_sweep_key (sw_sweep_id w) k \<or> k = KBands))"
| "frame_asks _ k = False"

locale refetching_cache = query_cache qc for qc :: "'c query_client" +
  fixes asked :: "'c \<Rightarrow> qkey \<Rightarrow> nat"
  assumes asks: "refetch_laws qc asked"
begin

lemma get_remove: "qc_get qc (qc_remove qc k c) k' = (if k' = k then None else qc_get qc c k')"
  and asked_remove [simp]: "asked (qc_remove qc k c) k' = asked c k'"
  and asked_set [simp]: "asked (qc_set qc k v c) k' = asked c k'"
  and asked_invalidate: "asked (qc_invalidate qc f c) k' = asked c k' + of_bool (f k')"
  using asks by (simp_all add: refetch_laws_def)

lemma asked_set_query_data [simp]: "asked (set_query_data qc k f c) k' = asked c k'"
  by (simp add: set_query_data_def split: option.split)

lemma asked_update_queries [simp]: "asked (update_queries qc p f c) k' = asked c k'"
proof -
  have "asked (fold (\<lambda>(k, old) c'. case Option.bind old (f k) of None \<Rightarrow> c' | Some v \<Rightarrow> qc_set qc k v c') es c) k' =
      asked c k'" for es
    by (induction es arbitrary: c) (auto split: option.split)
  then show ?thesis by (simp add: update_queries_def)
qed

lemma apply_frame_asks: "asked (apply_frame qc f c) k = asked c k + of_bool (frame_asks f k)"
proof (cases f)
  case (SweepStatus w)
  then show ?thesis by (cases k) (simp_all add: Let_def asked_invalidate)
qed (simp_all add: Let_def asked_invalidate)

end

text \<open>
  A concrete cache that keeps the laws: an association list. It is what the laws describe, and the
  instance the concrete runs of this development use.
\<close>

definition assoc_client :: "(qkey \<times> qdata) list query_client" where
  "assoc_client = \<lparr> qc_get = map_of, qc_set = AList.update,
     qc_keys = (\<lambda>c. remdups (List.map fst c)), qc_invalidate = (\<lambda>_ c. c),
     qc_remove = AList.delete \<rparr>"

lemma assoc_client_laws: "query_client_laws assoc_client"
  by (auto simp: query_client_laws_def assoc_client_def update_conv' image_iff
      dest!: map_of_SomeD intro!: rev_bexI)

interpretation assoc: query_cache assoc_client
  by unfold_locales (rule assoc_client_laws)

text \<open>The same list beside the invalidations so far, which keeps both halves of the laws.\<close>

definition counting_client :: "((qkey \<times> qdata) list \<times> (qkey \<Rightarrow> bool) list) query_client" where
  "counting_client = \<lparr> qc_get = (\<lambda>(d, fs). map_of d), qc_set = (\<lambda>k v (d, fs). (AList.update k v d, fs)),
     qc_keys = (\<lambda>(d, fs). remdups (List.map fst d)), qc_invalidate = (\<lambda>f (d, fs). (d, f # fs)),
     qc_remove = (\<lambda>k (d, fs). (AList.delete k d, fs)) \<rparr>"

definition times_asked :: "(qkey \<times> qdata) list \<times> (qkey \<Rightarrow> bool) list \<Rightarrow> qkey \<Rightarrow> nat" where
  "times_asked c k = length (filter (\<lambda>f. f k) (snd c))"

lemma counting_client_laws: "query_client_laws counting_client"
  by (auto simp: query_client_laws_def counting_client_def update_conv' image_iff
      dest!: map_of_SomeD intro!: rev_bexI)

lemma counting_client_asks: "refetch_laws counting_client times_asked"
  by (auto simp: refetch_laws_def counting_client_def times_asked_def AList.delete_conv')

interpretation counting: refetching_cache counting_client times_asked
  by unfold_locales (rule counting_client_laws, rule counting_client_asks)

section \<open>Track lists stay well formed\<close>

definition list_ok :: "tracks_query \<Rightarrow> tracks_response \<Rightarrow> bool" where
  "list_ok q r \<longleftrightarrow> distinct (List.map trk_track_id (tr_tracks r)) \<and>
     (\<forall>t \<in> set (tr_tracks r). matches_query t q)"

lemma distinct_map_list_update:
  "distinct (List.map f xs) \<Longrightarrow> i < length xs \<Longrightarrow> f x = f (xs ! i) \<Longrightarrow>
   distinct (List.map f (xs[i := x]))"
  by (metis length_map list_update_id map_update nth_map)

lemma list_ok_replace:
  "list_ok q r \<Longrightarrow> i < length (tr_tracks r) \<Longrightarrow> trk_track_id t = trk_track_id (tr_tracks r ! i) \<Longrightarrow>
   matches_query t q \<Longrightarrow> list_ok q (r\<lparr> tr_tracks := (tr_tracks r)[i := t] \<rparr>)"
  by (auto simp: list_ok_def distinct_map_list_update dest!: set_update_subset_insert [THEN subsetD])

lemma list_ok_filter:
  "list_ok q r \<Longrightarrow> list_ok q (r\<lparr> tr_tracks := List.filter P (tr_tracks r), tr_total := n \<rparr>)"
  by (auto simp: list_ok_def distinct_map_filter)

lemma evict_is_filter:
  obtains P where "evict_excess_closed ts = List.filter P ts"
    and "\<And>t. t \<in> set ts \<Longrightarrow> distinct (List.map trk_track_id ts) \<Longrightarrow> \<not> is_closed t \<Longrightarrow> P t"
proof -
  let ?closed = "List.filter is_closed ts"
  let ?doomed = "List.map trk_track_id
    (take (length ?closed - max_closed_per_list) (js_sort last_seen_cmp ?closed))"
  show thesis
  proof (cases "length ?closed \<le> max_closed_per_list")
    case True
    then show ?thesis by (intro that [of "\<lambda>_. True"]) (simp_all add: evict_excess_closed_def Let_def)
  next
    case False
    show ?thesis
    proof (rule that [of "\<lambda>t. trk_track_id t \<notin> set ?doomed"])
      fix t assume t: "t \<in> set ts" "distinct (List.map trk_track_id ts)" "\<not> is_closed t"
      have mem: "x \<in> set ts \<and> is_closed x" if "x \<in> set (take k (js_sort last_seen_cmp ?closed))" for x k
        using in_set_takeD [OF that] by simp
      then show "trk_track_id t \<notin> set ?doomed"
        proof -
        have "trk_track_id t \<noteq> trk_track_id x"
          if "x \<in> set (take k (js_sort last_seen_cmp ?closed))" for x k
          using mem [OF that] t unfolding distinct_map inj_on_def by metis
        then show ?thesis by (simp only: set_map) blast
      qed
    qed (use False in \<open>simp add: evict_excess_closed_def Let_def\<close>)
  qed
qed

lemma list_ok_update:
  assumes "list_ok q old" "list_after_update t q old = Some new"
  shows "list_ok q new"
proof (cases "find_index (\<lambda>x. trk_track_id x = trk_track_id t) (tr_tracks old)")
  case None
  then have "matches_query t q" and
    new: "new = old\<lparr> tr_tracks := evict_excess_closed (tr_tracks old @ [t]), tr_total := tr_total old + 1 \<rparr>"
    using assms(2) by (auto simp: list_after_update_def Let_def split: if_splits)
  then have "list_ok q (old\<lparr> tr_tracks := tr_tracks old @ [t] \<rparr>)"
    using assms(1) None by (auto simp: list_ok_def find_index_None_iff)
  then show ?thesis
    using list_ok_filter [of q "old\<lparr> tr_tracks := tr_tracks old @ [t] \<rparr>"] new
    by (cases rule: evict_is_filter [of "tr_tracks old @ [t]"]) simp
next
  case (Some i)
  note found = find_index_Some [OF Some]
  then show ?thesis
    using assms Some list_ok_filter [OF assms(1)] list_ok_replace [OF assms(1), of i t]
    by (auto simp: list_after_update_def Let_def split: if_splits)
qed

lemma list_ok_close:
  assumes "list_ok q old" "list_after_close tid q old = Some new"
  shows "list_ok q new"
proof (cases "find_index (\<lambda>x. trk_track_id x = tid) (tr_tracks old)")
  case None
  then show ?thesis using assms(2) by (simp add: list_after_close_def)
next
  case (Some i)
  note found = find_index_Some [OF Some]
  then show ?thesis
    using assms Some list_ok_filter [OF assms(1)]
      list_ok_replace [OF assms(1), of i "(tr_tracks old ! i)\<lparr> trk_state := CLOSED \<rparr>"]
    by (auto simp: list_after_close_def Let_def split: if_splits)
qed

definition entry_ok :: "qkey \<Rightarrow> qdata option \<Rightarrow> bool" where
  "entry_ok k d \<longleftrightarrow> (\<forall>r. is_list_key k \<longrightarrow> d = Some (QTracks r) \<longrightarrow> list_ok (key_query k) r)"

lemma entry_ok_on_tracks:
  assumes "entry_ok k old" "\<And>r r'. list_ok (key_query k) r \<Longrightarrow> f r = Some r' \<Longrightarrow> list_ok (key_query k) r'"
  shows "entry_ok k (or_else (Option.bind old (on_tracks f)) old)"
proof (cases old)
  case (Some d)
  show ?thesis
  proof (cases d)
    case (QTracks r)
    then show ?thesis using Some assms by (cases "f r") (auto simp: entry_ok_def)
  qed (use Some assms in \<open>simp_all add: entry_ok_def\<close>)
qed (use assms in simp)

lemma frame_effect_entry_ok: "entry_ok k old \<Longrightarrow> entry_ok k (frame_effect f k old)"
proof (cases "is_list_key k")
  case True
  then obtain q where k: "k = KTracks q" by (cases k) auto
  assume ok: "entry_ok k old"
  have upd: "entry_ok k (or_else (Option.bind old (on_tracks (list_after_update t (key_query k)))) old)" for t
    using ok by (rule entry_ok_on_tracks) (rule list_ok_update)
  have cls: "entry_ok k (or_else (Option.bind old (on_tracks (list_after_close tid (key_query k)))) old)" for tid
    using ok by (rule entry_ok_on_tracks) (rule list_ok_close)
  show ?thesis
  proof (cases f)
    case (TrackUpdate raw)
    then show ?thesis
      using upd [of "normalize_track raw"] k by (simp add: Let_def)
  next
    case (TrackClosed tid)
    then show ?thesis using cls [of tid] k by simp
  qed (use ok k in simp_all)
qed (simp add: entry_ok_def)

context query_cache begin

lemma frames_refine:
  "qc_get qc (fold (apply_frame qc) fs c) k = fold (\<lambda>f. frame_effect f k) fs (qc_get qc c k)"
  by (induction fs arbitrary: c) (simp_all add: apply_frame_refines)

lemma frames_entry_ok:
  "entry_ok k (qc_get qc c k) \<Longrightarrow> entry_ok k (qc_get qc (fold (apply_frame qc) fs c) k)"
proof (induction fs arbitrary: c)
  case (Cons f fs)
  then show ?case by (simp add: apply_frame_refines frame_effect_entry_ok)
qed simp

end

section \<open>Eviction takes the oldest closed tracks\<close>

lemma last_seen_in_order: "in_order last_seen_cmp a b \<longleftrightarrow> trk_last_seen a \<le> trk_last_seen b"
  by (auto simp: in_order_def last_seen_cmp_def)

lemma last_seen_consistent: "consistent_cmp last_seen_cmp A"
  by (rule in_order_key [of _ _ trk_last_seen]) (auto simp: last_seen_cmp_def)

lemma js_sort_last_seen: "sorted_wrt (\<lambda>a b. trk_last_seen a \<le> trk_last_seen b) (js_sort last_seen_cmp ts)"
  using sorted_js_sort [OF last_seen_consistent, of ts]
  by (simp add: last_seen_in_order [abs_def])

lemma filter_not_taken:
  assumes "distinct (List.map f ys)" "set ys = set xs"
  shows "set (List.filter (\<lambda>t. f t \<notin> set (List.map f (take k ys))) xs) = set (drop k ys)"
proof -
  have "distinct (List.map f (take k ys @ drop k ys))" using assms(1) by simp
  then have disj: "f ` set (take k ys) \<inter> f ` set (drop k ys) = {}"
    by (simp only: map_append distinct_append set_map)
  have "set xs = set (take k ys) \<union> set (drop k ys)"
    using assms(2) by (metis append_take_drop_id set_append)
  then show ?thesis using disj by auto
qed

lemma evict_closed:
  assumes "distinct (List.map trk_track_id ts)" "\<not> length (List.filter is_closed ts) \<le> max_closed_per_list"
  defines "S \<equiv> js_sort last_seen_cmp (List.filter is_closed ts)"
  shows "set (List.filter is_closed (evict_excess_closed ts)) =
    set (drop (length (List.filter is_closed ts) - max_closed_per_list) S)"
proof -
  let ?k = "length (List.filter is_closed ts) - max_closed_per_list"
  have "List.filter is_closed (evict_excess_closed ts) =
      List.filter (\<lambda>t. trk_track_id t \<notin> set (List.map trk_track_id (take ?k S))) (List.filter is_closed ts)"
    using assms(2) by (simp add: evict_excess_closed_def Let_def S_def conj_commute)
  also have "set \<dots> = set (drop ?k S)"
    by (rule filter_not_taken) (use assms(1) in \<open>simp_all add: S_def distinct_map_filter\<close>)
  finally show ?thesis .
qed

lemma evict_distinct: "distinct (List.map trk_track_id ts) \<Longrightarrow> distinct (evict_excess_closed ts)"
  by (cases rule: evict_is_filter [of ts]) (auto simp: distinct_map)

lemma evict_bound:
  assumes "distinct (List.map trk_track_id ts)"
  shows "length (List.filter is_closed (evict_excess_closed ts)) =
    min max_closed_per_list (length (List.filter is_closed ts))"
proof (cases "length (List.filter is_closed ts) \<le> max_closed_per_list")
  case True
  then show ?thesis by (simp add: evict_excess_closed_def Let_def)
next
  case False
  let ?S = "js_sort last_seen_cmp (List.filter is_closed ts)"
  let ?r = "List.filter is_closed (evict_excess_closed ts)"
  have "length ?r = card (set ?r)"
    using evict_distinct [OF assms] by (intro distinct_card [symmetric] distinct_filter)
  also have "\<dots> = length (drop (length (List.filter is_closed ts) - max_closed_per_list) ?S)"
    unfolding evict_closed [OF assms False]
    by (rule distinct_card) (use assms in \<open>simp add: distinct_map\<close>)
  finally show ?thesis using False by simp
qed

lemma evict_active: 
  assumes "distinct (List.map trk_track_id ts)"
  shows "List.filter (\<lambda>t. \<not> is_closed t) (evict_excess_closed ts) = List.filter (\<lambda>t. \<not> is_closed t) ts"
proof -
  obtain P where "evict_excess_closed ts = List.filter P ts"
    and "\<And>t. t \<in> set ts \<Longrightarrow> distinct (List.map trk_track_id ts) \<Longrightarrow> \<not> is_closed t \<Longrightarrow> P t"
    using evict_is_filter [of ts] by blast
  then show ?thesis using assms by (auto intro!: filter_cong)
qed

lemma evict_oldest:
  assumes d: "distinct (List.map trk_track_id ts)" and a: "a \<in> set ts" "a \<notin> set (evict_excess_closed ts)"
    and b: "b \<in> set (evict_excess_closed ts)" "is_closed b"
  shows "is_closed a \<and> trk_last_seen a \<le> trk_last_seen b"
proof -
  let ?S = "js_sort last_seen_cmp (List.filter is_closed ts)"
  let ?k = "length (List.filter is_closed ts) - max_closed_per_list"
  have big: "\<not> length (List.filter is_closed ts) \<le> max_closed_per_list"
    using a by (auto simp: evict_excess_closed_def Let_def)
  have ca: "is_closed a"
  proof (rule ccontr)
    assume "\<not> is_closed a"
    then have "a \<in> set (List.filter (\<lambda>t. \<not> is_closed t) (evict_excess_closed ts))"
      using evict_active [OF d] a(1) by simp
    then show False using a(2) by simp
  qed
  have "b \<in> set (drop ?k ?S)" using evict_closed [OF d big] b by auto
  moreover have "a \<notin> set (drop ?k ?S)" using evict_closed [OF d big] a(2) by auto
  moreover have "a \<in> set (take ?k ?S @ drop ?k ?S)"
    unfolding append_take_drop_id using a(1) ca by simp
  ultimately have ab: "a \<in> set (take ?k ?S)" "b \<in> set (drop ?k ?S)"
    by (simp_all only: set_append Un_iff) blast
  show ?thesis using sorted_wrt_take_drop [OF js_sort_last_seen ab] ca by simp
qed

section \<open>Detections and sensors\<close>

definition one_per_aircraft :: "detection list \<Rightarrow> bool" where
  "one_per_aircraft ds \<longleftrightarrow> distinct (List.map det_icao (List.filter (\<lambda>d. truthy (det_icao d)) ds))"

lemma one_per_aircraft_take: "one_per_aircraft ds \<Longrightarrow> one_per_aircraft (take n ds)"
  unfolding one_per_aircraft_def
  by (metis append_take_drop_id distinct_append filter_append map_append)

lemma one_per_aircraft_filter:
  assumes "one_per_aircraft ds"
  shows "one_per_aircraft (List.filter P ds)"
proof -
  have "List.filter (\<lambda>d. truthy (det_icao d)) (List.filter P ds) =
      List.filter P (List.filter (\<lambda>d. truthy (det_icao d)) ds)"
    by (simp add: conj_commute)
  then show ?thesis using assms unfolding one_per_aircraft_def by (simp only: distinct_map_filter)
qed

lemma one_per_aircraft_Cons:
  "one_per_aircraft ds \<Longrightarrow> (truthy (det_icao d) \<Longrightarrow> det_icao d \<notin> det_icao ` set ds) \<Longrightarrow>
   one_per_aircraft (d # ds)"
  by (auto simp: one_per_aircraft_def)

lemma detections_after_one_per_aircraft:
  assumes "one_per_aircraft (dr_detections old)"
  shows "one_per_aircraft (dr_detections (detections_after d old))"
  using one_per_aircraft_filter [OF assms]
  by (simp add: detections_after_def Let_def)
    (intro conjI impI one_per_aircraft_take one_per_aircraft_Cons; auto dest: in_set_takeD)

lemma last_config:
  "map_of (fold (\<lambda>s acc. AList.update (sh_sensor_id s) (sh_config s) acc) old acc) i =
     (case List.filter (\<lambda>s. sh_sensor_id s = i) old of [] \<Rightarrow> map_of acc i
      | ss \<Rightarrow> Some (sh_config (last ss)))"
  by (induction old arbitrary: acc) (auto simp: update_conv split: list.splits)

section \<open>Properties\<close>

text \<open>C3: Through any query cache that keeps the laws of \<open>QueryClient\<close>, processing a sequence of
  frames changes the data under each key exactly as the abstract effect of the frames on that one
  entry: the traversal order, the other entries and the invalidations do not matter.\<close>

theorem apply_frames_refine_effects:
  assumes "query_client_laws qc"
  shows "qc_get qc (fold (apply_frame qc) fs c) k = fold (\<lambda>f. frame_effect f k) fs (qc_get qc c k)"
  using query_cache.frames_refine [OF query_cache.intro [OF assms]] .

theorem apply_frames_refine_effects_witness:
  "qc_get assoc_client (fold (apply_frame assoc_client) [HealthFrame sample_health, Ping] []) KHealth =
     fold (\<lambda>f. frame_effect f KHealth) [HealthFrame sample_health, Ping] (qc_get assoc_client [] KHealth)"
  by (rule apply_frames_refine_effects [OF assoc_client_laws])

text \<open>C8: A cached track list stays well formed under any sequence of frames: if its tracks have
  distinct ids and all match the query it is stored under, so they do afterwards.\<close>

theorem cached_lists_well_formed:
  assumes "query_client_laws qc" and "qc_get qc c (KTracks q) = Some (QTracks r)"
    and "list_ok (key_query (KTracks q)) r"
    and "qc_get qc (fold (apply_frame qc) fs c) (KTracks q) = Some (QTracks r')"
  shows "distinct (List.map trk_track_id (tr_tracks r')) \<and>
    (\<forall>t \<in> set (tr_tracks r'). matches_query t (key_query (KTracks q)))"
  using query_cache.frames_entry_ok [OF query_cache.intro [OF assms(1)], of "KTracks q" c fs] assms(2-4)
  by (auto simp: entry_ok_def list_ok_def)

definition sample_list :: tracks_response where
  "sample_list = \<lparr> tr_tracks = [sample_track], tr_next_cursor = None, tr_total = 1 \<rparr>"

theorem cached_lists_well_formed_witness:
  "matches_query (sample_track\<lparr> trk_state := CLOSED \<rparr>) (key_query (KTracks None))"
proof -
  let ?c = "[(KTracks None, QTracks sample_list)]"
  let ?r = "sample_list\<lparr> tr_tracks := [sample_track\<lparr> trk_state := CLOSED \<rparr>] \<rparr>"
  have "qc_get assoc_client ?c (KTracks None) = Some (QTracks sample_list)"
    by (simp add: assoc_client_def)
  moreover have "list_ok (key_query (KTracks None)) sample_list"
    by (simp add: list_ok_def sample_list_def matches_query_def empty_tracks_query_def truthy_def)
  moreover have "qc_get assoc_client (fold (apply_frame assoc_client) [TrackClosed ''T1''] ?c)
      (KTracks None) = Some (QTracks ?r)"
    by (simp add: assoc_client_def set_query_data_def update_queries_def sample_list_def sample_track_def
        list_after_close_def matches_query_def empty_tracks_query_def truthy_def is_closed_def)
  ultimately have "\<forall>t \<in> set (tr_tracks ?r). matches_query t (key_query (KTracks None))"
    using cached_lists_well_formed [OF assoc_client_laws] by blast
  then show ?thesis by simp
qed

text \<open>Eviction on append keeps every track that is not closed, in order, leaves the closed ones
  at most 500, and what it drops are the closed tracks last seen longest ago.\<close>

theorem eviction_takes_oldest_closed:
  assumes "distinct (List.map trk_track_id ts)"
  shows "List.filter (\<lambda>t. \<not> is_closed t) (evict_excess_closed ts) = List.filter (\<lambda>t. \<not> is_closed t) ts \<and>
    length (List.filter is_closed (evict_excess_closed ts)) =
      min 500 (length (List.filter is_closed ts)) \<and>
    (\<forall>a \<in> set ts - set (evict_excess_closed ts). \<forall>b \<in> set (evict_excess_closed ts).
       is_closed b \<longrightarrow> is_closed a \<and> trk_last_seen a \<le> trk_last_seen b)"
  using evict_active [OF assms] evict_bound [OF assms] evict_oldest [OF assms]
  by (simp add: max_closed_per_list_def)

theorem eviction_takes_oldest_closed_witness:
  "List.filter (\<lambda>t. \<not> is_closed t) (evict_excess_closed [sample_track]) =
      List.filter (\<lambda>t. \<not> is_closed t) [sample_track] \<and>
   length (List.filter is_closed (evict_excess_closed [sample_track])) =
      min 500 (length (List.filter is_closed [sample_track]))"
  using eviction_takes_oldest_closed [of "[sample_track]"] by simp

text \<open>A detection frame puts its detection first, keeps the list at 200 and at one row per
  aircraft, and otherwise keeps the old rows, in order.\<close>

theorem detections_stay_unique:
  assumes "one_per_aircraft (dr_detections old)"
  shows "\<exists>rest. dr_detections (detections_after d old) = d # rest \<and> length rest < 200 \<and>
    subseq rest (dr_detections old) \<and> one_per_aircraft (d # rest) \<and>
    (truthy (det_icao d) \<longrightarrow> (\<forall>x \<in> set rest. det_icao x \<noteq> det_icao d))"
proof -
  have take: "subseq (take n (List.filter P xs)) xs" for n P and xs :: "detection list"
    by (metis prefix_imp_subseq subseq_filter_left subseq_order.order_trans take_is_prefix)
  let ?rest = "tl (dr_detections (detections_after d old))"
  have "dr_detections (detections_after d old) = d # ?rest"
    by (simp add: detections_after_def Let_def)
  moreover have "one_per_aircraft (d # ?rest)"
    using detections_after_one_per_aircraft [OF assms, of d] calculation by simp
  moreover have "length ?rest < 200" by (auto simp: detections_after_def Let_def)
  moreover have "subseq ?rest (dr_detections old)" by (simp add: detections_after_def Let_def take)
  moreover have "truthy (det_icao d) \<longrightarrow> (\<forall>x \<in> set ?rest. det_icao x \<noteq> det_icao d)"
    by (auto simp: detections_after_def Let_def dest: in_set_takeD)
  ultimately show ?thesis by blast
qed

definition sample_detection :: detection where
  "sample_detection = \<lparr> det_detection_id = ''D1'', det_ts = ''2026-01-01T00:00:00.000Z'',
     det_sensor_id = ''sdr0'', det_sensor_kind = Sdr, det_class = ClassD, det_rf = None,
     det_identity = None, det_position = None, det_kinematics = None,
     det_operator = None, det_signal_features = None, det_adsb = None, det_raw = None \<rparr>"

theorem detections_stay_unique_witness:
  "\<exists>rest. dr_detections (detections_after sample_detection
      \<lparr> dr_detections = [sample_detection], dr_next_cursor = None, dr_total = 1 \<rparr>) = sample_detection # rest \<and>
    length rest < 200 \<and> subseq rest [sample_detection] \<and> one_per_aircraft (sample_detection # rest) \<and>
    (truthy (det_icao sample_detection) \<longrightarrow>
      (\<forall>x \<in> set rest. det_icao x \<noteq> det_icao sample_detection))"
  using detections_stay_unique [of "\<lparr> dr_detections = [sample_detection], dr_next_cursor = None, dr_total = 1 \<rparr>"
      sample_detection]
  by (simp add: one_per_aircraft_def sample_detection_def det_icao_def truthy_def)

text \<open>A health frame replaces the sensor list: its sensors in its order, each field from the
  frame except that a configuration the cache already knew for that sensor is kept.\<close>

theorem sensors_follow_health:
  "sensors_after h old = List.map (\<lambda>s.
     case List.filter (\<lambda>r. sh_sensor_id r = sh_sensor_id s) old of
       [] \<Rightarrow> s
     | rs \<Rightarrow> s\<lparr> sh_config := or_else (sh_config (last rs)) (sh_config s) \<rparr>) (hl_sensors h)"
  unfolding sensors_after_def Let_def
  by (rule map_cong) (auto simp: last_config split: list.splits option.splits)

end
