(* ===== verification/Geo.thy ===== *)
theory Geo
  imports ApiTypes JsDate
begin

text \<open>
  \<open>features/map/geo.ts\<close>: reception gaps and the legs of a trail, operator tethers, bounds and
  distances. Coordinates are reals; \<open>distance_metres\<close> and \<open>bearing_degrees\<close> use the library's
  trigonometric functions and are not evaluated by the witnesses.
\<close>

section \<open>Reception gaps\<close>

definition has_position :: "track \<Rightarrow> bool" where
  "has_position t \<longleftrightarrow> trk_current t \<noteq> None"

definition trail_gap_ms :: int where "trail_gap_ms = 30000"

record trail_gap =
  tg_from :: position
  tg_to :: position
  tg_seconds :: int

text \<open>The milliseconds of silence between two positions, when they are a gap.\<close>

definition gap_between :: "position \<Rightarrow> position \<Rightarrow> int option" where
  "gap_between a b =
     (if truthy (pos_at a) \<and> truthy (pos_at b) then
        (case (date_parse (nullish (pos_at a) []), date_parse (nullish (pos_at b) [])) of
           (Some from, Some to) \<Rightarrow> if trail_gap_ms < to - from then Some (to - from) else None
         | _ \<Rightarrow> None)
      else None)"

fun trail_gaps :: "position list \<Rightarrow> trail_gap list" where
  "trail_gaps (a # b # rest) =
     (case gap_between a b of
        None \<Rightarrow> trail_gaps (b # rest)
      | Some ms \<Rightarrow> \<lparr> tg_from = a, tg_to = b, tg_seconds = js_round (of_int ms / 1000) \<rparr> #
          trail_gaps (b # rest))"
| "trail_gaps _ = []"

text \<open>
  The loop over the history that starts a new leg at each position where reception resumed; the
  source finds those positions by object identity, here it is the position after the gap.
\<close>

fun trail_legs :: "position list \<Rightarrow> position list list" where
  "trail_legs (a # b # rest) =
     (case trail_legs (b # rest) of
        [] \<Rightarrow> [[a]]
      | l # ls \<Rightarrow> if gap_between a b = None then (a # l) # ls else [a] # l # ls)"
| "trail_legs ps = [ps]"

section \<open>Features\<close>

type_synonym coord = "real \<times> real"

datatype feature =
    HeardTrail string real track_state bool "coord list list"
  | GapLine string string int "coord \<times> coord"
  | OperatorLine string string "coord \<times> coord"

definition coord_of :: "position \<Rightarrow> coord" where
  "coord_of p = (pos_lon p, pos_lat p)"

definition gap_features :: "string \<Rightarrow> trail_gap list \<Rightarrow> feature list" where
  "gap_features tid gaps =
     map (\<lambda>(i, g). GapLine (tid @ ''-gap-'' @ digits_of_nat i) tid (tg_seconds g)
            (coord_of (tg_from g), coord_of (tg_to g)))
       (enumerate 0 gaps)"

definition track_features :: "track \<Rightarrow> feature list" where
  "track_features t =
     (let history = nullish (trk_history t) []
      in if length history < 2 then []
         else
           let heard = filter (\<lambda>s. 2 \<le> length s) (trail_legs history)
           in (if heard \<noteq> [] then
                 [HeardTrail (trk_track_id t) (trk_confidence t) (trk_state t)
                    (trk_state t = COASTING) (map (map coord_of) heard)]
               else []) @
              gap_features (trk_track_id t) (trail_gaps history))"

definition trails_geo_json :: "track list \<Rightarrow> feature list" where
  "trails_geo_json tracks = concat (map track_features tracks)"

definition operator_links_geo_json :: "track list \<Rightarrow> feature list" where
  "operator_links_geo_json tracks =
     List.map_filter (\<lambda>t. case (trk_operator t, trk_current t) of
         (Some op, Some cur) \<Rightarrow>
           Some (OperatorLine (trk_track_id t @ ''-operator-link'') (trk_track_id t)
             (coord_of cur, coord_of op))
       | _ \<Rightarrow> None) tracks"

section \<open>Bounds\<close>

record bounds =
  bd_west :: real
  bd_south :: real
  bd_east :: real
  bd_north :: real

definition widen :: "latlon \<Rightarrow> bounds \<Rightarrow> bounds" where
  "widen p b = \<lparr> bd_west = min (bd_west b) (ll_lon p), bd_south = min (bd_south b) (ll_lat p),
     bd_east = max (bd_east b) (ll_lon p), bd_north = max (bd_north b) (ll_lat p) \<rparr>"

definition bounds_of :: "latlon list \<Rightarrow> bounds option" where
  "bounds_of points =
     (if points = [] then None
      else Some (fold widen points
        \<lparr> bd_west = 180, bd_south = 90, bd_east = -180, bd_north = -90 \<rparr>))"

definition latlon_of :: "position \<Rightarrow> latlon" where
  "latlon_of p = \<lparr> ll_lat = pos_lat p, ll_lon = pos_lon p \<rparr>"

definition plottable_points :: "track list \<Rightarrow> latlon list" where
  "plottable_points tracks =
     concat (map (\<lambda>t. map latlon_of (nullish (trk_history t) []) @
       (case trk_current t of None \<Rightarrow> [] | Some p \<Rightarrow> [latlon_of p]) @
       (case trk_operator t of None \<Rightarrow> [] | Some p \<Rightarrow> [latlon_of p])) tracks)"

section \<open>Distances\<close>

definition radians :: "real \<Rightarrow> real" where
  "radians d = d * pi / 180"

definition distance_metres :: "latlon \<Rightarrow> latlon \<Rightarrow> real" where
  "distance_metres a b =
     (let d_lat = radians (ll_lat b - ll_lat a); d_lon = radians (ll_lon b - ll_lon a);
          lat1 = radians (ll_lat a); lat2 = radians (ll_lat b);
          h = sin (d_lat / 2) ^ 2 + sin (d_lon / 2) ^ 2 * cos lat1 * cos lat2
      in 2 * 6371000 * arcsin (min 1 (sqrt h)))"

text \<open>\<open>Math.atan2\<close>, with no signed zeros, and the remainder of a positive number by 360.\<close>

definition atan2 :: "real \<Rightarrow> real \<Rightarrow> real" where
  "atan2 y x =
     (if 0 < x then arctan (y / x)
      else if x < 0 then (if 0 \<le> y then arctan (y / x) + pi else arctan (y / x) - pi)
      else if 0 < y then pi / 2 else if y < 0 then - (pi / 2) else 0)"

definition mod_360 :: "real \<Rightarrow> real" where
  "mod_360 x = x - 360 * of_int \<lfloor>x / 360\<rfloor>"

definition bearing_degrees :: "latlon \<Rightarrow> latlon \<Rightarrow> real" where
  "bearing_degrees a b =
     (let lat1 = radians (ll_lat a); lat2 = radians (ll_lat b);
          d_lon = radians (ll_lon b - ll_lon a);
          y = sin d_lon * cos lat2;
          x = cos lat1 * sin lat2 - sin lat1 * cos lat2 * cos d_lon
      in mod_360 (atan2 y x * 180 / pi + 360))"

section \<open>Lemmas\<close>

lemma trail_legs_ne: "trail_legs ps \<noteq> []"
  by (cases ps rule: trail_legs.cases) (simp_all split: list.split)

lemma trail_legs_step:
  "trail_legs (b # rest) = l # ls \<Longrightarrow>
   trail_legs (a # b # rest) = (if gap_between a b = None then (a # l) # ls else [a] # l # ls)"
  by simp

declare trail_legs.simps(1) [simp del]

lemma concat_trail_legs: "concat (trail_legs ps) = ps"
proof (induction ps rule: trail_legs.induct)
  case (1 a b rest)
  obtain l ls where step: "trail_legs (b # rest) = l # ls"
    using trail_legs_ne by (cases "trail_legs (b # rest)") auto
  then show ?case using 1 trail_legs_step [OF step, of a] by simp
qed simp_all

lemma hd_trail_legs: "trail_legs (p # ps) = l # ls \<Longrightarrow> l \<noteq> [] \<and> hd l = p"
proof (cases ps)
  case (Cons q qs)
  obtain l' ls' where step: "trail_legs (q # qs) = l' # ls'"
    using trail_legs_ne by (cases "trail_legs (q # qs)") auto
  assume "trail_legs (p # ps) = l # ls"
  then show ?thesis using Cons trail_legs_step [OF step, of p] by (auto split: if_splits)
qed auto

lemma length_trail_legs: "length (trail_legs ps) = Suc (length (trail_gaps ps))"
proof (induction ps rule: trail_legs.induct)
  case (1 a b rest)
  obtain l ls where step: "trail_legs (b # rest) = l # ls"
    using trail_legs_ne by (cases "trail_legs (b # rest)") auto
  then show ?case using 1 trail_legs_step [OF step, of a] by (simp split: option.splits)
qed simp_all

lemma trail_legs_heard:
  "list_all (successively (\<lambda>a b. gap_between a b = None)) (trail_legs ps)"
proof (induction ps rule: trail_legs.induct)
  case (1 a b rest)
  obtain l ls where legs: "trail_legs (b # rest) = l # ls"
    using trail_legs_ne by (cases "trail_legs (b # rest)") auto
  have "l \<noteq> []" "hd l = b" using hd_trail_legs [OF legs] by simp_all
  then show ?case using 1 legs trail_legs_step [OF legs, of a] by (cases l) auto
qed simp_all

lemma gap_between_long: "gap_between a b = Some ms \<Longrightarrow> trail_gap_ms < ms"
  by (auto simp: gap_between_def split: option.splits if_splits)

lemma trail_gaps_silent:
  "list_all (\<lambda>g. \<exists>ms > trail_gap_ms. gap_between (tg_from g) (tg_to g) = Some ms) (trail_gaps ps)"
  by (induction ps rule: trail_gaps.induct) (auto split: option.split dest: gap_between_long)

lemma fold_widen:
  "bd_west (fold widen ps b) \<le> bd_west b \<and> bd_south (fold widen ps b) \<le> bd_south b \<and>
   bd_east b \<le> bd_east (fold widen ps b) \<and> bd_north b \<le> bd_north (fold widen ps b)"
proof (induction ps arbitrary: b)
  case (Cons p ps)
  then show ?case using Cons.IH [of "widen p b"] by (simp add: widen_def)
qed simp

lemma widen_contains:
  "bd_west (widen p b) \<le> ll_lon p \<and> ll_lon p \<le> bd_east (widen p b) \<and>
   bd_south (widen p b) \<le> ll_lat p \<and> ll_lat p \<le> bd_north (widen p b)"
  by (simp add: widen_def)

lemma fold_widen_contains:
  "p \<in> set ps \<Longrightarrow>
   bd_west (fold widen ps b) \<le> ll_lon p \<and> ll_lon p \<le> bd_east (fold widen ps b) \<and>
   bd_south (fold widen ps b) \<le> ll_lat p \<and> ll_lat p \<le> bd_north (fold widen ps b)"
proof (induction ps arbitrary: b)
  case (Cons q ps)
  show ?case
  proof (cases "p = q")
    case True
    show ?thesis
      using fold_widen [of ps "widen q b"] widen_contains [of q b] unfolding True fold_simps
      by (meson order_trans)
  next
    case False
    then show ?thesis using Cons by simp
  qed
qed simp

lemma mod_360_range: "0 \<le> mod_360 x \<and> mod_360 x < 360"
proof -
  have "of_int \<lfloor>x / 360\<rfloor> \<le> x / 360" "x / 360 < of_int \<lfloor>x / 360\<rfloor> + 1" by linarith+
  then have "360 * of_int \<lfloor>x / 360\<rfloor> \<le> x" "x < 360 * of_int \<lfloor>x / 360\<rfloor> + 360"
    by (simp_all add: field_simps)
  then show ?thesis by (simp add: mod_360_def)
qed

section \<open>Properties\<close>

text \<open>A trail never draws a line across a reception gap: its legs are the recorded history cut
  exactly at the gaps, one leg more than there are gaps; two consecutive points of a leg are never
  separated by more than 30 seconds of silence, and every gap that is drawn is.\<close>

theorem trail_never_crosses_gap:
  "concat (trail_legs history) = history \<and>
   length (trail_legs history) = Suc (length (trail_gaps history)) \<and>
   list_all (successively (\<lambda>a b. gap_between a b = None)) (trail_legs history) \<and>
   list_all (\<lambda>g. \<exists>ms > 30000. gap_between (tg_from g) (tg_to g) = Some ms) (trail_gaps history)"
  using concat_trail_legs length_trail_legs trail_legs_heard trail_gaps_silent
  unfolding trail_gap_ms_def by blast

end
