(* ===== verification/TrackTier.thy ===== *)
theory TrackTier
  imports Geo
begin

text \<open>
  What a track is read as: \<open>features/tracks/tier.ts\<close> and \<open>partition.ts\<close> (identified, unidentified
  or closed), \<open>flight-path.ts\<close> and \<open>rssi-samples.ts\<close> (the path and signal rebuilt from
  detections), \<open>height-provenance.ts\<close>, and \<open>features/map/aircraft.ts\<close> with \<open>selection.ts\<close>.
\<close>

section \<open>Tier and partition\<close>

definition corroborating_only :: "detection_class set" where
  "corroborating_only = {ClassC, ClassD, ClassH}"

definition is_identified :: "track \<Rightarrow> bool" where
  "is_identified t =
     (let evidence = nullish (trk_evidence t) []
      in if evidence = [] then True
         else list_ex (\<lambda>e. ev_class e \<notin> corroborating_only) evidence)"

record track_partition =
  tp_active :: "track list"
  tp_unidentified :: "track list"
  tp_closed :: "track list"

definition place_track :: "track \<Rightarrow> track_partition \<Rightarrow> track_partition" where
  "place_track t p =
     (if trk_state t = CLOSED then p\<lparr> tp_closed := tp_closed p @ [t] \<rparr>
      else if is_identified t then p\<lparr> tp_active := tp_active p @ [t] \<rparr>
      else p\<lparr> tp_unidentified := tp_unidentified p @ [t] \<rparr>)"

definition partition_tracks :: "track list \<Rightarrow> track_partition" where
  "partition_tracks tracks =
     fold place_track tracks \<lparr> tp_active = [], tp_unidentified = [], tp_closed = [] \<rparr>"

lemma fold_place_track:
  "fold place_track ts p =
     \<lparr> tp_active = tp_active p @ filter (\<lambda>t. trk_state t \<noteq> CLOSED \<and> is_identified t) ts,
       tp_unidentified = tp_unidentified p @ filter (\<lambda>t. trk_state t \<noteq> CLOSED \<and> \<not> is_identified t) ts,
       tp_closed = tp_closed p @ filter (\<lambda>t. trk_state t = CLOSED) ts \<rparr>"
  by (induction ts arbitrary: p) (simp_all add: place_track_def)

section \<open>The path of a flight\<close>

definition finite_position :: "detection \<Rightarrow> (real \<times> real) option" where
  "finite_position d =
     (case det_position d of None \<Rightarrow> None
      | Some p \<Rightarrow> (case (dp_lat p, dp_lon p) of (Some lat, Some lon) \<Rightarrow> Some (lat, lon) | _ \<Rightarrow> None))"

text \<open>
  \<open>Date.parse(a.ts) - Date.parse(b.ts)\<close>: the comparator is \<open>NaN\<close> when either does not parse, and
  the standard's sort then treats the two as equal.
\<close>

definition ts_cmp :: "('a \<Rightarrow> string) \<Rightarrow> 'a \<Rightarrow> 'a \<Rightarrow> int" where
  "ts_cmp ts a b =
     (case (date_parse (ts a), date_parse (ts b)) of (Some x, Some y) \<Rightarrow> x - y | _ \<Rightarrow> 0)"

definition path_point :: "detection \<Rightarrow> position" where
  "path_point d =
     (let (lat, lon) = nullish (finite_position d) (0, 0)
      in \<lparr> pos_lat = lat, pos_lon = lon,
           pos_alt_geodetic_m = Option.bind (det_position d) dp_alt_geodetic_m,
           pos_height_agl_m = Option.bind (det_position d) dp_height_agl_m,
           pos_terrain_elevation_m = None,
           pos_speed_mps = Option.bind (det_kinematics d) dk_speed_mps,
           pos_track_deg = Option.bind (det_kinematics d) dk_track_deg,
           pos_at = Some (det_ts d) \<rparr>)"

definition flight_path :: "detection list \<Rightarrow> position list \<Rightarrow> position list" where
  "flight_path detections history =
     (let from_detections = map path_point
            (js_sort (ts_cmp det_ts) (filter (\<lambda>d. finite_position d \<noteq> None) detections))
      in if length history < length from_detections then from_detections else history)"

section \<open>Signal samples\<close>

record rssi_sample =
  rs_ts :: string
  rs_rssi :: real

definition rssi_of :: "detection \<Rightarrow> real option" where
  "rssi_of d = Option.bind (det_rf d) rf_rssi_dbm"

definition samples_from_detections :: "detection list \<Rightarrow> rssi_sample list" where
  "samples_from_detections detections =
     js_sort (ts_cmp rs_ts)
       (List.map_filter (\<lambda>d. map_option (\<lambda>r. \<lparr> rs_ts = det_ts d, rs_rssi = r \<rparr>) (rssi_of d)) detections)"

definition add_sample ::
  "detection \<Rightarrow> (string \<times> rssi_sample list) list \<Rightarrow> (string \<times> rssi_sample list) list" where
  "add_sample d m =
     (case rssi_of d of None \<Rightarrow> m
      | Some r \<Rightarrow>
          AList.update (det_sensor_id d)
            (nullish (map_of m (det_sensor_id d)) [] @ [\<lparr> rs_ts = det_ts d, rs_rssi = r \<rparr>]) m)"

definition samples_by_receiver :: "detection list \<Rightarrow> (string \<times> rssi_sample list) list" where
  "samples_by_receiver detections =
     map (\<lambda>(k, samples). (k, js_sort (ts_cmp rs_ts) samples)) (fold add_sample detections [])"

section \<open>Where a height came from\<close>

datatype height_source = Derived | Broadcast

record height_provenance =
  hp_source :: height_source
  hp_terrain_elevation_m :: "real option"

definition derived_mark :: string where
  "derived_mark = [CHR 0xE2, CHR 0x80, CHR 0xA0]"

definition height_provenance_of :: "position option \<Rightarrow> height_provenance option" where
  "height_provenance_of position =
     (if Option.bind position pos_height_agl_m = None then None
      else (case Option.bind position pos_terrain_elevation_m of
              None \<Rightarrow> Some \<lparr> hp_source = Broadcast, hp_terrain_elevation_m = None \<rparr>
            | Some e \<Rightarrow> Some \<lparr> hp_source = Derived, hp_terrain_elevation_m = Some e \<rparr>))"

definition height_provenance_hint :: "height_provenance \<Rightarrow> (real option \<Rightarrow> string) \<Rightarrow> string" where
  "height_provenance_hint p len =
     (if hp_source p = Derived then ''derived '' @ em_dash @ '' terrain '' @ len (hp_terrain_elevation_m p)
      else ''as broadcast'')"

section \<open>Manned traffic\<close>

definition too_old :: "int option \<Rightarrow> int \<Rightarrow> detection \<Rightarrow> bool" where
  "too_old max_age now d =
     (case (max_age, date_parse (det_ts d)) of (Some m, Some t) \<Rightarrow> m < now - t | _ \<Rightarrow> False)"

definition note_contact ::
  "int option \<Rightarrow> int \<Rightarrow> detection \<Rightarrow> (string \<times> detection) list \<times> detection list \<Rightarrow>
   (string \<times> detection) list \<times> detection list" where
  "note_contact max_age now d s =
     (case s of (newest, rest) \<Rightarrow>
        if too_old max_age now d then (newest, rest)
        else
          let icao = nullish (map_option adsb_icao (det_adsb d)) []
          in if icao = [] then (newest, rest @ [d])
             else (case map_of newest icao of
                     None \<Rightarrow> (AList.update icao d newest, rest)
                   | Some seen \<Rightarrow>
                       if det_ts seen < det_ts d then (AList.update icao d newest, rest)
                       else (newest, rest)))"

text \<open>
  The source's comparator answers -1 for equal timestamps in both directions, so the order of two
  reports with the same timestamp is left to the engine; the properties do not rely on it.
\<close>

definition newest_first :: "detection \<Rightarrow> detection \<Rightarrow> int" where
  "newest_first a b = (if det_ts a < det_ts b then 1 else -1)"

definition aircraft_from_detections :: "detection list \<Rightarrow> int option \<Rightarrow> int \<Rightarrow> detection list" where
  "aircraft_from_detections detections max_age now =
     (let (newest, rest) = fold (note_contact max_age now) detections ([], [])
      in js_sort newest_first (map snd newest @ rest))"

section \<open>Selection\<close>

datatype contact_kind = Drone | Manned

type_synonym selection = "(contact_kind \<times> string) option"

definition select_track :: "string option \<Rightarrow> selection \<Rightarrow> selection" where
  "select_track tid s = map_option (Pair Drone) tid"

definition select_manned :: "string option \<Rightarrow> selection \<Rightarrow> selection" where
  "select_manned icao s = map_option (Pair Manned) icao"

definition selected_track_id :: "selection \<Rightarrow> string option" where
  "selected_track_id s = (case s of Some (Drone, i) \<Rightarrow> Some i | _ \<Rightarrow> None)"

definition selected_manned_icao :: "selection \<Rightarrow> string option" where
  "selected_manned_icao s = (case s of Some (Manned, i) \<Rightarrow> Some i | _ \<Rightarrow> None)"

section \<open>One entry per aircraft\<close>

definition icao_of :: "detection \<Rightarrow> string" where
  "icao_of d = nullish (map_option adsb_icao (det_adsb d)) []"

text \<open>What holds of the two collections after the reports \<open>seen\<close>.\<close>

definition contacts_inv :: "detection list \<Rightarrow> (string \<times> detection) list \<times> detection list \<Rightarrow> bool" where
  "contacts_inv seen s \<longleftrightarrow>
     snd s = filter (\<lambda>d. icao_of d = []) seen \<and> distinct (map fst (fst s)) \<and>
     (\<forall>i d. map_of (fst s) i = Some d \<longrightarrow> i \<noteq> [] \<and> icao_of d = i \<and> d \<in> set seen) \<and>
     (\<forall>x \<in> set seen. icao_of x \<noteq> [] \<longrightarrow>
        (\<exists>d. map_of (fst s) (icao_of x) = Some d \<and> \<not> det_ts d < det_ts x))"

lemma contacts_inv_someD:
  "contacts_inv seen (newest, rest) \<Longrightarrow> x \<in> set seen \<Longrightarrow> icao_of x \<noteq> [] \<Longrightarrow>
   \<exists>d. map_of newest (icao_of x) = Some d \<and> \<not> det_ts d < det_ts x"
  unfolding contacts_inv_def fst_conv by blast

lemma distinct_fst_update: "distinct (map fst (AList.update k v al)) = distinct (map fst al)"
  by (simp add: map_fst_update)

lemma contacts_inv_old: "too_old m now d \<Longrightarrow> contacts_inv seen s \<Longrightarrow> contacts_inv seen (note_contact m now d s)"
  by (cases s) (simp add: note_contact_def)

lemma contacts_inv_replace:
  assumes inv: "contacts_inv seen (newest, rest)" and "icao_of d \<noteq> []"
    and newer: "\<And>old. map_of newest (icao_of d) = Some old \<Longrightarrow> det_ts old < det_ts d"
  shows "contacts_inv (seen @ [d]) (AList.update (icao_of d) d newest, rest)"
proof -
  have "\<exists>e. map_of (AList.update (icao_of d) d newest) (icao_of x) = Some e \<and> \<not> det_ts e < det_ts x"
    if "x \<in> set seen" "icao_of x \<noteq> []" for x
  proof -
    obtain old where old: "map_of newest (icao_of x) = Some old" "\<not> det_ts old < det_ts x"
      using contacts_inv_someD [OF inv \<open>x \<in> set seen\<close> \<open>icao_of x \<noteq> []\<close>] by blast
    show ?thesis
    proof (cases "icao_of x = icao_of d")
      case True
      then have "det_ts old < det_ts d" using newer old(1) by simp
      then have "\<not> det_ts d < det_ts x" using old(2) by (meson less_trans)
      then show ?thesis using True by (simp add: update_conv)
    next
      case False
      then show ?thesis using old by (simp add: update_conv)
    qed
  qed
  then show ?thesis
    using inv assms(2) by (auto simp: contacts_inv_def distinct_fst_update update_conv)
qed

lemma contacts_inv_new:
  assumes "contacts_inv seen s" "\<not> too_old m now d"
  shows "contacts_inv (seen @ [d]) (note_contact m now d s)"
proof -
  obtain newest rest where s: "s = (newest, rest)" by (cases s)
  have step: "note_contact m now d s =
      (if icao_of d = [] then (newest, rest @ [d])
       else (case map_of newest (icao_of d) of
               None \<Rightarrow> (AList.update (icao_of d) d newest, rest)
             | Some old \<Rightarrow> if det_ts old < det_ts d then (AList.update (icao_of d) d newest, rest)
                        else (newest, rest)))"
    using assms(2) unfolding note_contact_def s icao_of_def Let_def by simp
  show ?thesis
  proof (cases "icao_of d = []")
    case True
    then show ?thesis using assms(1) step by (auto simp: contacts_inv_def s)
  next
    case False
    show ?thesis
    proof (cases "\<exists>old. map_of newest (icao_of d) = Some old \<and> \<not> det_ts old < det_ts d")
      case True
      then have "note_contact m now d s = s" using False step s by auto
      then show ?thesis
        using True False assms(1) unfolding contacts_inv_def s fst_conv snd_conv
        by (auto simp del: map_of_eq_Some_iff)
    next
      case no: False
      then have "note_contact m now d s = (AList.update (icao_of d) d newest, rest)"
        using False step by (auto split: option.splits)
      then show ?thesis
        using contacts_inv_replace [of seen newest rest d] assms(1) no False s by auto
    qed
  qed
qed

lemma contacts_inv_fold:
  "contacts_inv seen s \<Longrightarrow>
   contacts_inv (seen @ filter (\<lambda>d. \<not> too_old m now d) ds) (fold (note_contact m now) ds s)"
proof (induction ds arbitrary: seen s)
  case (Cons d ds)
  show ?case
  proof (cases "too_old m now d")
    case True
    then show ?thesis using Cons.IH [OF contacts_inv_old [OF True Cons.prems]] by simp
  next
    case False
    then show ?thesis using Cons.IH [OF contacts_inv_new [OF Cons.prems False]] by simp
  qed
qed simp

lemma newest_first_order:
  "sorted_wrt (\<lambda>a b. \<not> det_ts a < det_ts b) (js_sort newest_first ds)"
proof -
  have "consistent_cmp newest_first (set ds)"
    by (auto simp: consistent_cmp_def newest_first_def)
  from sorted_js_sort [OF this] show ?thesis
    by (rule sorted_wrt_mono_rel [rotated]) (simp add: in_order_def newest_first_def split: if_splits)
qed

text \<open>The collapsed list and the recent reports it stands for.\<close>

definition recent_reports :: "int option \<Rightarrow> int \<Rightarrow> detection list \<Rightarrow> detection list" where
  "recent_reports max_age now ds = filter (\<lambda>d. \<not> too_old max_age now d) ds"

lemma aircraft_parts:
  obtains newest where
    "aircraft_from_detections ds max_age now =
       js_sort newest_first (map snd newest @ filter (\<lambda>d. icao_of d = []) (recent_reports max_age now ds))"
    and "contacts_inv (recent_reports max_age now ds)
       (newest, filter (\<lambda>d. icao_of d = []) (recent_reports max_age now ds))"
proof -
  obtain newest rest where fold: "fold (note_contact max_age now) ds ([], []) = (newest, rest)"
    by fastforce
  have "contacts_inv [] ([], [])" by (simp add: contacts_inv_def)
  then have inv: "contacts_inv (recent_reports max_age now ds) (newest, rest)"
    using contacts_inv_fold [of "[]" "([], [])" max_age now ds] fold by (simp add: recent_reports_def)
  then have "rest = filter (\<lambda>d. icao_of d = []) (recent_reports max_age now ds)"
    by (simp add: contacts_inv_def)
  then show ?thesis using inv fold that [of newest] by (simp add: aircraft_from_detections_def)
qed

lemma contacts_inv_entries:
  assumes "contacts_inv seen (newest, rest)"
  shows "(i, d) \<in> set newest \<Longrightarrow> i \<noteq> [] \<and> icao_of d = i \<and> d \<in> set seen"
    and "map (icao_of \<circ> snd) newest = map fst newest"
    and "filter (\<lambda>d. icao_of d \<noteq> []) (map snd newest) = map snd newest"
    and "filter (\<lambda>d. icao_of d = []) (map snd newest) = []"
proof -
  show e: "i \<noteq> [] \<and> icao_of d = i \<and> d \<in> set seen" if "(i, d) \<in> set newest" for i d
    using assms that unfolding contacts_inv_def fst_conv
    by (metis map_of_eq_Some_iff)
  show "map (icao_of \<circ> snd) newest = map fst newest"
    using e by (intro map_cong) auto
  show "filter (\<lambda>d. icao_of d \<noteq> []) (map snd newest) = map snd newest"
    using e by (intro filter_True) force
  show "filter (\<lambda>d. icao_of d = []) (map snd newest) = []"
    using e by (intro filter_False) force
qed

lemma aircraft_distinct:
  "distinct (map icao_of (filter (\<lambda>d. icao_of d \<noteq> []) (aircraft_from_detections ds max_age now)))"
proof (rule aircraft_parts [of ds max_age now])
  fix newest
  let ?rest = "filter (\<lambda>d. icao_of d = []) (recent_reports max_age now ds)"
  assume eq: "aircraft_from_detections ds max_age now = js_sort newest_first (map snd newest @ ?rest)"
    and inv: "contacts_inv (recent_reports max_age now ds) (newest, ?rest)"
  note e = contacts_inv_entries [OF inv]
  have "mset (filter (\<lambda>d. icao_of d \<noteq> []) (aircraft_from_detections ds max_age now)) =
      mset (map snd newest)"
    unfolding eq mset_filter_js_sort by (simp add: e(3) filter_empty_conv del: mset_map)
  then have "mset (map icao_of (filter (\<lambda>d. icao_of d \<noteq> []) (aircraft_from_detections ds max_age now))) =
      mset (map fst newest)"
    by (simp only: mset_map) (simp add: e(2) [symmetric] flip: mset_map)
  then show ?thesis
    using inv by (metis contacts_inv_def fst_conv mset_eq_imp_distinct_iff)
qed

lemma aircraft_complete:
  "set (aircraft_from_detections ds max_age now) \<subseteq> set (recent_reports max_age now ds)"
  "mset (filter (\<lambda>d. icao_of d = []) (aircraft_from_detections ds max_age now)) =
     mset (filter (\<lambda>d. icao_of d = []) (recent_reports max_age now ds))"
  "x \<in> set (recent_reports max_age now ds) \<Longrightarrow> icao_of x \<noteq> [] \<Longrightarrow>
     \<exists>d \<in> set (aircraft_from_detections ds max_age now). icao_of d = icao_of x \<and> det_ts x \<le> det_ts d"
proof (atomize (full), rule aircraft_parts [of ds max_age now])
  fix newest
  let ?recent = "recent_reports max_age now ds"
  let ?rest = "filter (\<lambda>d. icao_of d = []) ?recent"
  assume eq: "aircraft_from_detections ds max_age now = js_sort newest_first (map snd newest @ ?rest)"
    and inv: "contacts_inv ?recent (newest, ?rest)"
  note e = contacts_inv_entries [OF inv]
  have sub: "set (aircraft_from_detections ds max_age now) \<subseteq> set ?recent"
    using e(1) unfolding eq by auto
  have unattributed: "mset (filter (\<lambda>d. icao_of d = []) (aircraft_from_detections ds max_age now)) = mset ?rest"
    unfolding eq mset_filter_js_sort by (simp add: e(4))
  have "\<exists>d \<in> set (aircraft_from_detections ds max_age now). icao_of d = icao_of x \<and> det_ts x \<le> det_ts d"
    if x: "x \<in> set ?recent" "icao_of x \<noteq> []"
  proof -
    obtain d where d: "map_of newest (icao_of x) = Some d" "\<not> det_ts d < det_ts x"
      using contacts_inv_someD [OF inv x] by blast
    have "(icao_of x, d) \<in> set newest" using d(1) by (rule map_of_SomeD)
    then have "d \<in> set (aircraft_from_detections ds max_age now)" "icao_of d = icao_of x"
      using e(1) unfolding eq by force+
    then show ?thesis using d(2) by (metis not_less)
  qed
  then show "set (aircraft_from_detections ds max_age now) \<subseteq> set ?recent \<and>
      mset (filter (\<lambda>d. icao_of d = []) (aircraft_from_detections ds max_age now)) = mset ?rest \<and>
      (x \<in> set ?recent \<longrightarrow> icao_of x \<noteq> [] \<longrightarrow>
        (\<exists>d \<in> set (aircraft_from_detections ds max_age now).
          icao_of d = icao_of x \<and> det_ts x \<le> det_ts d))"
    using sub unattributed by blast
qed

lemma aircraft_newest:
  assumes "d \<in> set (aircraft_from_detections ds max_age now)" "icao_of d \<noteq> []"
    and "x \<in> set (recent_reports max_age now ds)" "icao_of x = icao_of d"
  shows "det_ts x \<le> det_ts d"
proof -
  let ?r = "filter (\<lambda>d. icao_of d \<noteq> []) (aircraft_from_detections ds max_age now)"
  obtain e where e: "e \<in> set (aircraft_from_detections ds max_age now)" "icao_of e = icao_of d"
    "det_ts x \<le> det_ts e"
    using aircraft_complete(3) [OF assms(3)] assms(2,4) by auto
  have "inj_on icao_of (set ?r)" using aircraft_distinct [of ds max_age now] by (simp add: distinct_map)
  then have "e = d" using e assms(1,2) by (auto simp: inj_on_def)
  then show ?thesis using e(3) by simp
qed

section \<open>Properties\<close>

text \<open>The partition files every track under exactly one heading, in order: closed tracks,
  contacts with evidence beyond the corroborating classes (or none at all) as active, and the rest,
  which have evidence and only of classes C, D and H, as unidentified.\<close>

theorem partition_is_exact:
  "partition_tracks ts =
     \<lparr> tp_active = filter (\<lambda>t. trk_state t \<noteq> CLOSED \<and> is_identified t) ts,
       tp_unidentified = filter (\<lambda>t. trk_state t \<noteq> CLOSED \<and> \<not> is_identified t) ts,
       tp_closed = filter (\<lambda>t. trk_state t = CLOSED) ts \<rparr> \<and>
   mset (tp_active (partition_tracks ts)) + mset (tp_unidentified (partition_tracks ts)) +
     mset (tp_closed (partition_tracks ts)) = mset ts \<and>
   list_all (\<lambda>t. nullish (trk_evidence t) [] \<noteq> [] \<and>
       ev_class ` set (nullish (trk_evidence t) []) \<subseteq> {ClassC, ClassD, ClassH})
     (tp_unidentified (partition_tracks ts))"
proof -
  have eq: "partition_tracks ts =
     \<lparr> tp_active = filter (\<lambda>t. trk_state t \<noteq> CLOSED \<and> is_identified t) ts,
       tp_unidentified = filter (\<lambda>t. trk_state t \<noteq> CLOSED \<and> \<not> is_identified t) ts,
       tp_closed = filter (\<lambda>t. trk_state t = CLOSED) ts \<rparr>"
    by (simp add: partition_tracks_def fold_place_track)
  moreover have "mset (filter (\<lambda>t. trk_state t \<noteq> CLOSED \<and> is_identified t) ts) +
      mset (filter (\<lambda>t. trk_state t \<noteq> CLOSED \<and> \<not> is_identified t) ts) +
      mset (filter (\<lambda>t. trk_state t = CLOSED) ts) = mset ts"
    by (induction ts) auto
  ultimately show ?thesis
    by (auto simp: list_all_iff is_identified_def corroborating_only_def list_ex_iff Let_def
        split: if_splits)
qed

text \<open>The manned-traffic list has at most one entry per ICAO address, the newest report of it
  within the age limit; every recent report with an address is represented, every recent report
  without one is kept, nothing else appears, and the list runs from newest to oldest.\<close>

theorem aircraft_one_per_address:
  "distinct (map icao_of (filter (\<lambda>d. icao_of d \<noteq> []) (aircraft_from_detections ds max_age now))) \<and>
   set (aircraft_from_detections ds max_age now) \<subseteq> set (recent_reports max_age now ds) \<and>
   mset (filter (\<lambda>d. icao_of d = []) (aircraft_from_detections ds max_age now)) =
     mset (filter (\<lambda>d. icao_of d = []) (recent_reports max_age now ds)) \<and>
   icao_of ` set (aircraft_from_detections ds max_age now) =
     icao_of ` set (recent_reports max_age now ds) \<and>
   list_all (\<lambda>d. icao_of d = [] \<or>
       list_all (\<lambda>x. det_ts x \<le> det_ts d)
         (filter (\<lambda>x. icao_of x = icao_of d) (recent_reports max_age now ds)))
     (aircraft_from_detections ds max_age now) \<and>
   sorted_wrt (\<lambda>a b. det_ts b \<le> det_ts a) (aircraft_from_detections ds max_age now)"
proof (intro conjI)
  let ?r = "aircraft_from_detections ds max_age now" and ?recent = "recent_reports max_age now ds"
  show "icao_of ` set ?r = icao_of ` set ?recent"
  proof (intro equalityI subsetI)
    fix i assume "i \<in> icao_of ` set ?recent"
    then obtain x where x: "x \<in> set ?recent" "i = icao_of x" by blast
    show "i \<in> icao_of ` set ?r"
    proof (cases "icao_of x = []")
      case True
      have "set (filter (\<lambda>d. icao_of d = []) ?r) = set (filter (\<lambda>d. icao_of d = []) ?recent)"
        using aircraft_complete(2) [of ds max_age now] by (rule mset_eq_setD)
      then show ?thesis using True x by (auto intro!: rev_image_eqI [of x])
    next
      case False
      then obtain d where "d \<in> set ?r" "icao_of d = icao_of x"
        using aircraft_complete(3) [OF x(1)] by blast
      then show ?thesis using x(2) by (auto intro: rev_image_eqI)
    qed
  qed (use aircraft_complete(1) in blast)
  show "list_all (\<lambda>d. icao_of d = [] \<or>
      list_all (\<lambda>x. det_ts x \<le> det_ts d) (filter (\<lambda>x. icao_of x = icao_of d) ?recent)) ?r"
    using aircraft_newest by (auto simp: list_all_iff)
  show "sorted_wrt (\<lambda>a b. det_ts b \<le> det_ts a) ?r"
    using newest_first_order by (simp add: aircraft_from_detections_def not_less split_def Let_def)
qed (rule aircraft_distinct aircraft_complete)+

end
