(* ===== verification/FlightMetrics.thy ===== *)
theory FlightMetrics
  imports TrackTier
begin

text \<open>
  \<open>features/tracks/flight-metrics.ts\<close> and \<open>flight-groups.ts\<close>: a flight derived from its track
  document, the order of an aircraft's flights, the sortable columns, and the flights grouped
  under the airframe that flew them. \<open>localeCompare\<close> is the argument \<open>lc\<close> of what uses it.
\<close>

section \<open>Identity and times\<close>

definition aircraft_key :: "track \<Rightarrow> string" where
  "aircraft_key t =
     (if truthy (trk_serial t) then ''serial:'' @ nullish (trk_serial t) []
      else if truthy (trk_first_mac t) then ''mac:'' @ nullish (trk_first_mac t) []
      else ''track:'' @ trk_track_id t)"

definition aircraft_name :: "track \<Rightarrow> string" where
  "aircraft_name t = nullish (or_else (trk_serial t) (trk_first_mac t)) (trk_track_id t)"

definition flight_start_ms :: "track \<Rightarrow> int option" where
  "flight_start_ms t = date_parse (trk_first_seen t)"

definition flight_end_ms :: "track \<Rightarrow> int option" where
  "flight_end_ms t = date_parse (trk_last_seen t)"

definition flight_duration_s :: "track \<Rightarrow> real option" where
  "flight_duration_s t =
     (case (flight_start_ms t, flight_end_ms t) of
        (Some s, Some e) \<Rightarrow> if e < s then None else Some (real_of_int (e - s) / 1000)
      | _ \<Rightarrow> None)"

section \<open>Measurements\<close>

definition flight_positions :: "track \<Rightarrow> position list" where
  "flight_positions t =
     (let history = nullish (trk_history t) []
      in if history \<noteq> [] then history
         else (case trk_current t of None \<Rightarrow> [] | Some p \<Rightarrow> [p]))"

text \<open>The loop that keeps the largest of the values present.\<close>

definition max_of :: "('a \<Rightarrow> real option) \<Rightarrow> 'a list \<Rightarrow> real option" where
  "max_of f xs =
     fold (\<lambda>x acc. case f x of None \<Rightarrow> acc
        | Some v \<Rightarrow> (case acc of None \<Rightarrow> Some v | Some m \<Rightarrow> if m < v then Some v else acc)) xs None"

definition max_range_m :: "track \<Rightarrow> latlon option \<Rightarrow> real option" where
  "max_range_m t receiver =
     (case receiver of None \<Rightarrow> None
      | Some r \<Rightarrow> max_of (\<lambda>p. Some (distance_metres r (latlon_of p))) (flight_positions t))"

definition max_height_agl_m :: "track \<Rightarrow> real option" where
  "max_height_agl_m t = max_of pos_height_agl_m (flight_positions t)"

definition max_speed_mps :: "track \<Rightarrow> real option" where
  "max_speed_mps t = max_of pos_speed_mps (flight_positions t)"

definition has_operator_fix :: "track \<Rightarrow> bool" where
  "has_operator_fix t \<longleftrightarrow> trk_operator t \<noteq> None"

section \<open>An aircraft's flights in order\<close>

definition flight_cmp :: "(string \<Rightarrow> string \<Rightarrow> int) \<Rightarrow> track \<Rightarrow> track \<Rightarrow> int" where
  "flight_cmp lc a b =
     (case (flight_start_ms a, flight_start_ms b) of
        (Some x, Some y) \<Rightarrow> if x \<noteq> y then x - y else lc (trk_track_id a) (trk_track_id b)
      | (None, Some _) \<Rightarrow> 1
      | (Some _, None) \<Rightarrow> -1
      | (None, None) \<Rightarrow> lc (trk_track_id a) (trk_track_id b))"

definition order_flights :: "(string \<Rightarrow> string \<Rightarrow> int) \<Rightarrow> track list \<Rightarrow> track list" where
  "order_flights lc tracks = js_sort (flight_cmp lc) tracks"

record flight_neighbours =
  fn_number :: "nat option"
  fn_total :: nat
  fn_previous :: "track option"
  fn_next :: "track option"

definition flight_neighbours_of :: "track list \<Rightarrow> string \<Rightarrow> flight_neighbours" where
  "flight_neighbours_of ordered tid =
     (case find_index (\<lambda>t. trk_track_id t = tid) ordered of
        None \<Rightarrow> \<lparr> fn_number = None, fn_total = length ordered, fn_previous = None, fn_next = None \<rparr>
      | Some i \<Rightarrow>
          \<lparr> fn_number = Some (i + 1), fn_total = length ordered,
            fn_previous = array_get ordered (int i - 1), fn_next = array_get ordered (int i + 1) \<rparr>)"

definition flights_around :: "('a \<Rightarrow> string) \<Rightarrow> 'a list \<Rightarrow> string \<Rightarrow> nat \<Rightarrow> 'a list \<times> nat" where
  "flights_around track_id ordered tid max_items =
     (if length ordered \<le> max_items then (ordered, 0)
      else
        let centre = nullish (find_index (\<lambda>t. track_id t = tid) ordered) 0;
            from = min (centre - max_items div 2) (length ordered - max_items)
        in (take max_items (drop from ordered), from))"

definition flight_range_ms :: "track list \<Rightarrow> (int \<times> int) option" where
  "flight_range_ms tracks =
     fold (\<lambda>t acc. case flight_start_ms t of None \<Rightarrow> acc
        | Some ms \<Rightarrow> (case acc of None \<Rightarrow> Some (ms, ms) | Some (s, e) \<Rightarrow> Some (min s ms, max e ms)))
       tracks None"

section \<open>Sorting by a column\<close>

datatype sort_column = SortStart | SortDuration | SortRange | SortAgl | SortDetections | SortRssi

record flight_sort =
  fs_column :: sort_column
  fs_desc :: bool

definition default_flight_sort :: flight_sort where
  "default_flight_sort = \<lparr> fs_column = SortStart, fs_desc = True \<rparr>"

fun column_text :: "sort_column \<Rightarrow> string" where
  "column_text SortStart = ''start''"
| "column_text SortDuration = ''duration''"
| "column_text SortRange = ''range''"
| "column_text SortAgl = ''agl''"
| "column_text SortDetections = ''detections''"
| "column_text SortRssi = ''rssi''"

definition flight_sort_value :: "flight_sort \<Rightarrow> string" where
  "flight_sort_value s = column_text (fs_column s) @ (if fs_desc s then ''-desc'' else ''-asc'')"

definition flight_sort_values :: "string list" where
  "flight_sort_values =
     concat (map (\<lambda>c. [flight_sort_value \<lparr> fs_column = c, fs_desc = False \<rparr>,
                       flight_sort_value \<lparr> fs_column = c, fs_desc = True \<rparr>])
       [SortStart, SortDuration, SortRange, SortAgl, SortDetections, SortRssi])"

text \<open>\<open>lastIndexOf('-')\<close> and \<open>endsWith('-desc')\<close>; the column is the text before the last dash.\<close>

definition parse_flight_sort :: "string \<Rightarrow> string \<times> bool" where
  "parse_flight_sort s =
     (let tail = takeWhile (\<lambda>c. c \<noteq> CHR ''-'') (rev s)
      in (take (length s - length tail - 1) s, starts_with (rev s) (rev ''-desc'')))"

fun sort_value :: "sort_column \<Rightarrow> latlon option \<Rightarrow> track \<Rightarrow> real option" where
  "sort_value SortStart r t = map_option real_of_int (flight_start_ms t)"
| "sort_value SortDuration r t = flight_duration_s t"
| "sort_value SortRange r t = max_range_m t r"
| "sort_value SortAgl r t = max_height_agl_m t"
| "sort_value SortDetections r t = Some (real_of_int (trk_detection_count t))"
| "sort_value SortRssi r t = trk_rssi_dbm t"

definition value_cmp :: "bool \<Rightarrow> track \<times> real option \<Rightarrow> track \<times> real option \<Rightarrow> real" where
  "value_cmp desc a b =
     (case (snd a, snd b) of
        (None, None) \<Rightarrow> 0
      | (None, Some _) \<Rightarrow> 1
      | (Some _, None) \<Rightarrow> -1
      | (Some x, Some y) \<Rightarrow> if desc then y - x else x - y)"

definition sort_flights :: "track list \<Rightarrow> flight_sort \<Rightarrow> latlon option \<Rightarrow> track list" where
  "sort_flights tracks s receiver =
     (let keyed = map (\<lambda>t. (t, sort_value (fs_column s) receiver t)) tracks
      in map fst (js_sort (value_cmp (fs_desc s)) keyed))"

section \<open>Groups\<close>

record aircraft_group =
  ag_key :: string
  ag_label :: string
  ag_serial :: "string option"
  ag_mac :: "string option"
  ag_vendor :: "string option"
  ag_ua_type :: "string option"
  ag_flights :: "track list"
  ag_first_seen_ms :: "int option"
  ag_last_seen_ms :: "int option"

fun first_string :: "string option list \<Rightarrow> string option" where
  "first_string [] = None"
| "first_string (v # vs) = (if truthy v then v else first_string vs)"

definition new_group :: "track \<Rightarrow> aircraft_group" where
  "new_group t =
     \<lparr> ag_key = aircraft_key t, ag_label = aircraft_name t, ag_serial = trk_serial t,
       ag_mac = trk_first_mac t, ag_vendor = trk_vendor t, ag_ua_type = trk_ua_type t,
       ag_flights = [t], ag_first_seen_ms = flight_start_ms t, ag_last_seen_ms = flight_end_ms t \<rparr>"

definition earlier :: "int option \<Rightarrow> int option \<Rightarrow> int option" where
  "earlier new old =
     (case new of None \<Rightarrow> old
      | Some n \<Rightarrow> (case old of None \<Rightarrow> new | Some v \<Rightarrow> if n < v then new else old))"

definition later :: "int option \<Rightarrow> int option \<Rightarrow> int option" where
  "later new old =
     (case new of None \<Rightarrow> old
      | Some n \<Rightarrow> (case old of None \<Rightarrow> new | Some v \<Rightarrow> if v < n then new else old))"

definition join_group :: "track \<Rightarrow> aircraft_group \<Rightarrow> aircraft_group" where
  "join_group t g =
     g\<lparr> ag_flights := ag_flights g @ [t],
        ag_serial := first_string [ag_serial g, trk_serial t],
        ag_mac := first_string [ag_mac g, trk_first_mac t],
        ag_vendor := first_string [ag_vendor g, trk_vendor t],
        ag_ua_type := first_string [ag_ua_type g, trk_ua_type t],
        ag_first_seen_ms := earlier (flight_start_ms t) (ag_first_seen_ms g),
        ag_last_seen_ms := later (flight_end_ms t) (ag_last_seen_ms g) \<rparr>"

definition add_flight :: "track \<Rightarrow> (string \<times> aircraft_group) list \<Rightarrow> (string \<times> aircraft_group) list" where
  "add_flight t groups =
     (case map_of groups (aircraft_key t) of
        None \<Rightarrow> AList.update (aircraft_key t) (new_group t) groups
      | Some g \<Rightarrow> AList.update (aircraft_key t) (join_group t g) groups)"

definition group_cmp :: "aircraft_group \<Rightarrow> aircraft_group \<Rightarrow> int" where
  "group_cmp a b = nullish (ag_last_seen_ms b) 0 - nullish (ag_last_seen_ms a) 0"

definition group_by_aircraft :: "track list \<Rightarrow> aircraft_group list" where
  "group_by_aircraft tracks = js_sort group_cmp (map snd (fold add_flight tracks []))"

section \<open>The order of flights is total\<close>

lemma flight_cmp_swap:
  assumes "collates lc (trk_track_id ` A)" "a \<in> A" "b \<in> A"
  shows "0 < flight_cmp lc a b \<longleftrightarrow> flight_cmp lc b a < 0"
  using collatesD(1) [OF assms(1), of "trk_track_id a" "trk_track_id b"] assms(2,3)
  by (auto simp: flight_cmp_def split: option.splits)

lemma flight_cmp_trans:
  assumes "collates lc (trk_track_id ` A)" "a \<in> A" "b \<in> A" "c \<in> A"
    and "\<not> 0 < flight_cmp lc a b" "\<not> 0 < flight_cmp lc b c"
  shows "\<not> 0 < flight_cmp lc a c"
  using collatesD(3) [OF assms(1), of "trk_track_id a" "trk_track_id b" "trk_track_id c"] assms(2-)
  by (auto simp: flight_cmp_def not_less split: option.splits if_splits)

lemma flight_cmp_consistent:
  assumes "collates lc (trk_track_id ` A)"
  shows "consistent_cmp (flight_cmp lc) A"
proof -
  have "\<not> 0 < flight_cmp lc y x" if "x \<in> A" "y \<in> A" "0 < flight_cmp lc x y" for x y
    using flight_cmp_swap [OF assms that(2,1)] that(3) flight_cmp_swap [OF assms that(1,2)] by linarith
  then show ?thesis
    unfolding consistent_cmp_def using flight_cmp_trans [OF assms] by blast
qed

lemma flight_cmp_tied:
  assumes "collates lc (trk_track_id ` A)" "a \<in> A" "b \<in> A" "inj_on trk_track_id A"
    and "\<not> 0 < flight_cmp lc a b" "\<not> 0 < flight_cmp lc b a"
  shows "a = b"
proof -
  have "flight_cmp lc a b = 0" using assms(5,6) flight_cmp_swap [OF assms(1) assms(3,2)] by linarith
  then have "lc (trk_track_id a) (trk_track_id b) = 0"
    by (auto simp: flight_cmp_def split: option.splits if_splits)
  then have "trk_track_id a = trk_track_id b" using collatesD(2) [OF assms(1)] assms(2,3) by blast
  then show ?thesis using assms(2-4) by (simp add: inj_on_def)
qed

lemma order_flights_unique:
  assumes "collates lc (trk_track_id ` set xs)" "distinct (map trk_track_id xs)" "mset xs = mset ys"
  shows "order_flights lc xs = order_flights lc ys"
  unfolding order_flights_def
proof (rule js_sort_unique [OF flight_cmp_consistent [OF assms(1)] _ assms(3)])
  show "distinct xs" using assms(2) by (simp add: distinct_map)
  fix x y assume "x \<in> set xs" "y \<in> set xs" "in_order (flight_cmp lc) x y" "in_order (flight_cmp lc) y x"
  moreover have "inj_on trk_track_id (set xs)" using assms(2) by (simp add: distinct_map)
  ultimately show "x = y" by (intro flight_cmp_tied [OF assms(1)]) (simp_all add: in_order_def)
qed

section \<open>Neighbours and the window around a flight\<close>

lemma find_index_nth:
  assumes "distinct (map f xs)" "i < length xs"
  shows "find_index (\<lambda>x. f x = f (xs ! i)) xs = Some i"
proof (cases "find_index (\<lambda>x. f x = f (xs ! i)) xs")
  case None
  then show ?thesis using assms(2) by (auto simp: find_index_None_iff)
next
  case (Some j)
  have "j < length xs" "f (xs ! j) = f (xs ! i)" using find_index_Some [OF Some] by simp_all
  then have "j = i" using assms by (simp add: distinct_conv_nth) (metis)
  then show ?thesis using Some by simp
qed

lemma neighbours_at:
  assumes "distinct (map trk_track_id xs)" "i < length xs"
  shows "flight_neighbours_of xs (trk_track_id (xs ! i)) =
    \<lparr> fn_number = Some (i + 1), fn_total = length xs,
      fn_previous = (if i = 0 then None else Some (xs ! (i - 1))),
      fn_next = (if i + 1 < length xs then Some (xs ! (i + 1)) else None) \<rparr>"
  using find_index_nth [OF assms] assms(2)
  by (auto simp: flight_neighbours_of_def array_get_def nat_diff_distrib' nat_add_distrib)

lemma flights_around_window:
  assumes "flights_around f xs tid m = (items, from)"
  shows "items = take m (drop from xs)" "length items = min m (length xs)" "from + length items \<le> length xs"
  using assms by (auto simp: flights_around_def Let_def split: if_splits)

lemma flights_around_contains:
  assumes "flights_around f xs tid m = (items, from)" "0 < m" "t \<in> set xs" "f t = tid"
  shows "tid \<in> f ` set items"
proof (cases "length xs \<le> m")
  case True
  then show ?thesis using assms by (auto simp: flights_around_def)
next
  case False
  obtain i where i: "find_index (\<lambda>x. f x = tid) xs = Some i"
    using assms(3,4) by (cases "find_index (\<lambda>x. f x = tid) xs") (auto simp: find_index_None_iff)
  note found = find_index_Some [OF i]
  have start: "from = min (i - m div 2) (length xs - m)" and items: "items = take m (drop from xs)"
    using assms(1) False i by (auto simp: flights_around_def Let_def)
  have "from \<le> i" "i < from + m" using start found False assms(2) by linarith+
  then have "xs ! i \<in> set items"
    using found unfolding items in_set_conv_nth by (intro exI [of _ "i - from"]) auto
  then show ?thesis using found by blast
qed

section \<open>Missing values sink\<close>

lemma js_insert_missing:
  "\<forall>a \<in> set A. snd a \<noteq> None \<Longrightarrow> \<forall>b \<in> set B. snd b = None \<Longrightarrow> snd x = None \<Longrightarrow>
   js_insert (value_cmp desc) x (A @ B) = A @ x # B"
  by (induction A) (cases B; auto simp: value_cmp_def)+

lemma js_insert_present:
  "\<forall>a \<in> set A. snd a \<noteq> None \<Longrightarrow> \<forall>b \<in> set B. snd b = None \<Longrightarrow> snd x \<noteq> None \<Longrightarrow>
   js_insert (value_cmp desc) x (A @ B) = js_insert (value_cmp desc) x A @ B"
  by (induction A) (cases B; auto simp: value_cmp_def)+

lemma js_sort_missing_last:
  "js_sort (value_cmp desc) ks =
     js_sort (value_cmp desc) (filter (\<lambda>k. snd k \<noteq> None) ks) @ filter (\<lambda>k. snd k = None) ks"
proof (induction ks)
  case (Cons k ks)
  then show ?case by (simp add: js_insert_missing js_insert_present)
qed simp

lemma js_sort_present_sorted:
  assumes "\<forall>k \<in> set ks. snd k \<noteq> None"
  shows "sorted (map (\<lambda>k. if desc then - the (snd k) else the (snd k)) (js_sort (value_cmp desc) ks))"
proof (rule sorted_js_sort_key)
  fix x y assume "x \<in> set ks" "y \<in> set ks"
  then obtain v w where "snd x = Some v" "snd y = Some w" using assms by blast
  then show "(0 < value_cmp desc x y) =
      ((if desc then - the (snd y) else the (snd y)) < (if desc then - the (snd x) else the (snd x)))"
    by (simp add: value_cmp_def)
qed

lemma sort_flights_split:
  "sort_flights ts s r =
     map fst (js_sort (value_cmp (fs_desc s))
       (map (\<lambda>t. (t, sort_value (fs_column s) r t)) (filter (\<lambda>t. sort_value (fs_column s) r t \<noteq> None) ts))) @
     filter (\<lambda>t. sort_value (fs_column s) r t = None) ts"
  unfolding sort_flights_def Let_def
  by (subst js_sort_missing_last) (simp add: filter_map comp_def)

lemma sorted_values:
  assumes "\<forall>t \<in> set ts. v t \<noteq> None"
  shows "sorted (map (\<lambda>t. if desc then - the (v t) else the (v t) :: real)
    (map fst (js_sort (value_cmp desc) (map (\<lambda>t. (t, v t)) ts))))"
proof -
  let ?ks = "map (\<lambda>t. (t, v t)) ts"
  have "snd k = v (fst k)" if "k \<in> set (js_sort (value_cmp desc) ?ks)" for k using that by auto
  then have eq: "map (\<lambda>t. if desc then - the (v t) else the (v t))
      (map fst (js_sort (value_cmp desc) ?ks)) =
    map (\<lambda>k. if desc then - the (snd k) else the (snd k)) (js_sort (value_cmp desc) ?ks)"
    unfolding map_map by (intro map_cong) simp_all
  show ?thesis unfolding eq by (rule js_sort_present_sorted) (use assms in simp)
qed

lemma parse_flight_sort_value:
  "parse_flight_sort (flight_sort_value s) = (column_text (fs_column s), fs_desc s)"
  by (cases "fs_column s"; cases "fs_desc s") (simp_all add: parse_flight_sort_def flight_sort_value_def)

section \<open>Grouping\<close>

text \<open>What the group map holds after the flights \<open>seen\<close>.\<close>

definition group_ok :: "track list \<Rightarrow> aircraft_group \<Rightarrow> bool" where
  "group_ok seen g \<longleftrightarrow>
     ag_flights g = filter (\<lambda>t. aircraft_key t = ag_key g) seen \<and> ag_flights g \<noteq> [] \<and>
     (\<forall>t \<in> set (ag_flights g). \<forall>e. flight_end_ms t = Some e \<longrightarrow>
        (\<exists>m. ag_last_seen_ms g = Some m \<and> e \<le> m)) \<and>
     (\<forall>t \<in> set (ag_flights g). \<forall>b. flight_start_ms t = Some b \<longrightarrow>
        (\<exists>m. ag_first_seen_ms g = Some m \<and> m \<le> b))"

definition groups_inv :: "track list \<Rightarrow> (string \<times> aircraft_group) list \<Rightarrow> bool" where
  "groups_inv seen groups \<longleftrightarrow>
     distinct (map fst groups) \<and> fst ` set groups = aircraft_key ` set seen \<and>
     (\<forall>(k, g) \<in> set groups. ag_key g = k \<and> group_ok seen g)"

lemma later_bound: "later new old = Some m \<Longrightarrow> new = Some n \<Longrightarrow> n \<le> m"
  "old = Some n \<Longrightarrow> \<exists>m. later new old = Some m \<and> n \<le> m"
  "\<exists>m. later (Some n) old = Some m \<and> n \<le> m"
  by (auto simp: later_def split: option.splits if_splits)

lemma earlier_bound: "old = Some n \<Longrightarrow> \<exists>m. earlier new old = Some m \<and> m \<le> n"
  "\<exists>m. earlier (Some n) old = Some m \<and> m \<le> n"
  by (auto simp: earlier_def split: option.splits if_splits)

lemma group_ok_new: "aircraft_key t \<notin> aircraft_key ` set seen \<Longrightarrow> group_ok (seen @ [t]) (new_group t)"
  by (auto simp: group_ok_def new_group_def filter_empty_conv) (metis image_eqI)

lemma group_ok_join:
  assumes "group_ok seen g" "aircraft_key t = ag_key g"
  shows "group_ok (seen @ [t]) (join_group t g)"
proof -
  have "\<exists>m. later (flight_end_ms t) (ag_last_seen_ms g) = Some m \<and> e \<le> m"
    if u: "u = t \<or> u \<in> set (ag_flights g)" and e: "flight_end_ms u = Some e" for u e
  proof (cases "u = t")
    case False
    then have "\<exists>m. ag_last_seen_ms g = Some m \<and> e \<le> m"
      using assms(1) u e unfolding group_ok_def by blast
    then show ?thesis using later_bound(2) by (meson order_trans)
  qed (use e later_bound(3) in simp)
  moreover have "\<exists>m. earlier (flight_start_ms t) (ag_first_seen_ms g) = Some m \<and> m \<le> b"
    if u: "u = t \<or> u \<in> set (ag_flights g)" and b: "flight_start_ms u = Some b" for u b
  proof (cases "u = t")
    case False
    then have "\<exists>m. ag_first_seen_ms g = Some m \<and> m \<le> b"
      using assms(1) u b unfolding group_ok_def by blast
    then show ?thesis using earlier_bound(1) by (meson order_trans)
  qed (use b earlier_bound(2) in simp)
  ultimately show ?thesis using assms by (auto simp: group_ok_def join_group_def)
qed

lemma group_ok_other: "group_ok seen g \<Longrightarrow> aircraft_key t \<noteq> ag_key g \<Longrightarrow> group_ok (seen @ [t]) g"
  by (auto simp: group_ok_def)

lemma set_update_distinct:
  "distinct (map fst al) \<Longrightarrow>
   set (AList.update k v al) = insert (k, v) {(k', v') \<in> set al. k' \<noteq> k}"
  by (induction al) (auto simp: image_iff)

lemma groups_inv_add:
  assumes "groups_inv seen groups"
  shows "groups_inv (seen @ [t]) (add_flight t groups)"
proof -
  have d: "distinct (map fst groups)" and keys: "fst ` set groups = aircraft_key ` set seen"
    and ok: "\<And>k g. (k, g) \<in> set groups \<Longrightarrow> ag_key g = k \<and> group_ok seen g"
    using assms by (auto simp: groups_inv_def)
  define g' where "g' = (case map_of groups (aircraft_key t) of
      None \<Rightarrow> new_group t | Some g \<Rightarrow> join_group t g)"
  have add: "add_flight t groups = AList.update (aircraft_key t) g' groups"
    by (simp add: add_flight_def g'_def split: option.split)
  have "ag_key g' = aircraft_key t \<and> group_ok (seen @ [t]) g'"
  proof (cases "map_of groups (aircraft_key t)")
    case None
    then have "aircraft_key t \<notin> aircraft_key ` set seen" using keys by (simp add: map_of_eq_None_iff)
    then show ?thesis using None by (simp add: g'_def group_ok_new) (simp add: new_group_def)
  next
    case (Some g)
    then have "ag_key g = aircraft_key t" "group_ok seen g" using ok map_of_SomeD by fast+
    then show ?thesis using Some by (simp add: g'_def group_ok_join) (simp add: join_group_def)
  qed
  moreover have "group_ok (seen @ [t]) g" if "(k, g) \<in> set groups" "k \<noteq> aircraft_key t" for k g
    using ok [OF that(1)] that(2) by (auto intro: group_ok_other)
  ultimately have "ag_key g = k \<and> group_ok (seen @ [t]) g"
    if "(k, g) \<in> set (add_flight t groups)" for k g
    using that ok d by (auto simp: add set_update_distinct)
  moreover have "fst ` set (add_flight t groups) = aircraft_key ` set (seen @ [t])"
    using keys by (simp add: add dom_update)
  moreover have "distinct (map fst (add_flight t groups))" using d by (simp add: add map_fst_update)
  ultimately show ?thesis by (auto simp: groups_inv_def)
qed

lemma groups_inv_fold: "groups_inv seen gs \<Longrightarrow> groups_inv (seen @ ts) (fold add_flight ts gs)"
proof (induction ts arbitrary: seen gs)
  case (Cons t ts)
  then show ?case using groups_inv_add [of seen gs t] by fastforce
qed simp

lemma groups_inv_all: "groups_inv ts (fold add_flight ts [])"
  using groups_inv_fold [of "[]" "[]" ts] by (simp add: groups_inv_def)

lemma group_cmp_order:
  "sorted_wrt (\<lambda>a b. nullish (ag_last_seen_ms b) 0 \<le> nullish (ag_last_seen_ms a) 0) (js_sort group_cmp gs)"
proof -
  have "consistent_cmp group_cmp (set gs)" by (auto simp: consistent_cmp_def group_cmp_def)
  from sorted_js_sort [OF this] show ?thesis
    by (rule sorted_wrt_mono_rel [rotated]) (simp add: in_order_def group_cmp_def)
qed

lemma group_members:
  "g \<in> set (group_by_aircraft ts) \<Longrightarrow> (ag_key g, g) \<in> set (fold add_flight ts []) \<and> group_ok ts g"
  using groups_inv_all [of ts] by (auto simp: group_by_aircraft_def groups_inv_def)

lemma group_keys:
  "distinct (map ag_key (group_by_aircraft ts))"
  "ag_key ` set (group_by_aircraft ts) = aircraft_key ` set ts"
proof -
  have inv: "groups_inv ts (fold add_flight ts [])" by (rule groups_inv_all)
  then have keys: "map (ag_key \<circ> snd) (fold add_flight ts []) = map fst (fold add_flight ts [])"
    by (intro map_cong) (auto simp: groups_inv_def)
  have "distinct (map ag_key (map snd (fold add_flight ts [])))"
    using inv unfolding map_map keys by (simp only: groups_inv_def)
  then show "distinct (map ag_key (group_by_aircraft ts))" by (simp add: group_by_aircraft_def)
  have "ag_key ` snd ` set (fold add_flight ts []) = fst ` set (fold add_flight ts [])"
    using keys by (metis image_comp set_map)
  then show "ag_key ` set (group_by_aircraft ts) = aircraft_key ` set ts"
    using inv by (simp add: group_by_aircraft_def groups_inv_def)
qed

section \<open>Properties\<close>

text \<open>The order of an aircraft's flights depends only on which flights there are: with a
  \<open>localeCompare\<close> that orders their ids totally, any permutation of the same flights is put in the
  same order, unparseable start times and ties included.\<close>

theorem flight_order_canonical:
  assumes "collates lc (trk_track_id ` set xs)" "distinct (map trk_track_id xs)" "mset xs = mset ys"
  shows "order_flights lc xs = order_flights lc ys"
  using assms by (rule order_flights_unique)

theorem flight_order_canonical_witness:
  "order_flights code_unit_compare [sample_track, sample_track\<lparr> trk_track_id := ''T2'' \<rparr>] =
   order_flights code_unit_compare [sample_track\<lparr> trk_track_id := ''T2'' \<rparr>, sample_track]"
  by (rule flight_order_canonical)
    (auto simp: collates_def code_unit_compare_def sample_track_def)

text \<open>Sorting the flights by a column puts every flight that has no value for it after every
  flight that has one, in both directions, keeps those in their given order, and orders the rest by
  the value, ascending or descending as asked; no flight is lost or repeated.\<close>

theorem sort_flights_missing_last:
  "\<exists>present. sort_flights ts s r =
      present @ filter (\<lambda>t. sort_value (fs_column s) r t = None) ts \<and>
    mset present = mset (filter (\<lambda>t. sort_value (fs_column s) r t \<noteq> None) ts) \<and>
    sorted (map (\<lambda>t. if fs_desc s then - the (sort_value (fs_column s) r t)
                     else the (sort_value (fs_column s) r t)) present)"
proof (intro exI conjI)
  let ?v = "sort_value (fs_column s) r" and ?ts = "filter (\<lambda>t. sort_value (fs_column s) r t \<noteq> None) ts"
  let ?p = "map fst (js_sort (value_cmp (fs_desc s)) (map (\<lambda>t. (t, ?v t)) ?ts))"
  show "sort_flights ts s r = ?p @ filter (\<lambda>t. ?v t = None) ts" by (rule sort_flights_split)
  show "mset ?p = mset ?ts" by (simp add: image_mset.compositionality comp_def)
  show "sorted (map (\<lambda>t. if fs_desc s then - the (?v t) else the (?v t)) ?p)"
    by (rule sorted_values) simp
qed

text \<open>The previous and next flight of the detail page are each other's neighbours: from the i-th
  flight of an aircraft whose flights have distinct ids, next leads to the flight whose previous is
  the i-th again, and the number shown is i + 1 of the total.\<close>

theorem flight_neighbours_symmetric:
  assumes "distinct (map trk_track_id xs)" "Suc i < length xs"
  shows "fn_next (flight_neighbours_of xs (trk_track_id (xs ! i))) = Some (xs ! Suc i) \<and>
    fn_previous (flight_neighbours_of xs (trk_track_id (xs ! Suc i))) = Some (xs ! i) \<and>
    fn_number (flight_neighbours_of xs (trk_track_id (xs ! i))) = Some (i + 1) \<and>
    fn_total (flight_neighbours_of xs (trk_track_id (xs ! i))) = length xs"
  using assms by (simp add: neighbours_at)

theorem flight_neighbours_symmetric_witness:
  "fn_next (flight_neighbours_of [sample_track, sample_track\<lparr> trk_track_id := ''T2'' \<rparr>]
      (trk_track_id ([sample_track, sample_track\<lparr> trk_track_id := ''T2'' \<rparr>] ! 0))) =
    Some ([sample_track, sample_track\<lparr> trk_track_id := ''T2'' \<rparr>] ! Suc 0)"
  using flight_neighbours_symmetric [of "[sample_track, sample_track\<lparr> trk_track_id := ''T2'' \<rparr>]" 0]
  by (simp add: sample_track_def)

text \<open>The strip of flights around the current one is a contiguous window of the given size (or
  the whole list when it is shorter), starts where the caption says, and always contains the
  current flight when the list does.\<close>

theorem flights_around_holds_current:
  assumes "0 < m"
  shows "fst (flights_around f xs tid m) = take m (drop (snd (flights_around f xs tid m)) xs) \<and>
    length (fst (flights_around f xs tid m)) = min m (length xs) \<and>
    (tid \<in> f ` set xs \<longrightarrow> tid \<in> f ` set (fst (flights_around f xs tid m)))"
  using flights_around_window [of f xs tid m] flights_around_contains [of f xs tid m] assms
  by (cases "flights_around f xs tid m") auto

theorem flights_around_holds_current_witness:
  "length (fst (flights_around id [''a'', ''b'', ''c''] ''c'' 2)) = 2 \<and>
   ''c'' \<in> set (fst (flights_around id [''a'', ''b'', ''c''] ''c'' 2))"
proof -
  note at_c = flights_around_holds_current [OF pos2, of id "[''a'', ''b'', ''c'']" "''c''"]
  show ?thesis using conjunct1 [OF conjunct2 [OF at_c]] conjunct2 [OF conjunct2 [OF at_c]] by simp
qed

text \<open>Grouping by airframe files every flight under exactly one heading: the groups' keys are
  distinct and are exactly the keys of the flights, each group lists the flights of its key in the
  order given, its last-seen time is not before any of theirs, and the groups run from the most
  recently seen aircraft to the least.\<close>

theorem groups_partition_flights:
  "distinct (map ag_key (group_by_aircraft ts)) \<and>
   ag_key ` set (group_by_aircraft ts) = aircraft_key ` set ts \<and>
   list_all (\<lambda>g. ag_flights g = filter (\<lambda>t. aircraft_key t = ag_key g) ts \<and>
       list_all (\<lambda>t. flight_end_ms t = None \<or>
         the (flight_end_ms t) \<le> nullish (ag_last_seen_ms g) 0) (ag_flights g))
     (group_by_aircraft ts) \<and>
   sorted_wrt (\<lambda>a b. nullish (ag_last_seen_ms b) 0 \<le> nullish (ag_last_seen_ms a) 0)
     (group_by_aircraft ts)"
proof (intro conjI)
  show "list_all (\<lambda>g. ag_flights g = filter (\<lambda>t. aircraft_key t = ag_key g) ts \<and>
       list_all (\<lambda>t. flight_end_ms t = None \<or>
         the (flight_end_ms t) \<le> nullish (ag_last_seen_ms g) 0) (ag_flights g))
     (group_by_aircraft ts)"
    unfolding list_all_iff
  proof (intro ballI conjI)
    fix g assume "g \<in> set (group_by_aircraft ts)"
    then have ok: "group_ok ts g" using group_members by blast
    then show "ag_flights g = filter (\<lambda>t. aircraft_key t = ag_key g) ts" by (simp add: group_ok_def)
    fix t assume "t \<in> set (ag_flights g)"
    then show "flight_end_ms t = None \<or> the (flight_end_ms t) \<le> nullish (ag_last_seen_ms g) 0"
      using ok unfolding group_ok_def by (cases "flight_end_ms t") fastforce+
  qed
  show "sorted_wrt (\<lambda>a b. nullish (ag_last_seen_ms b) 0 \<le> nullish (ag_last_seen_ms a) 0)
      (group_by_aircraft ts)"
    unfolding group_by_aircraft_def by (rule group_cmp_order)
qed (rule group_keys)+

end
