(* ===== verification/FlightTime.thy ===== *)
theory FlightTime
  imports FlightMetrics
begin

text \<open>
  \<open>features/tracks/flight-time.ts\<close>: day keys, window chips and the day histogram of the flights
  list. The host's time zone is the record \<open>zone\<close>, an argument: \<open>zn_parts\<close> is what
  \<open>getFullYear\<close>, \<open>getMonth\<close> and \<open>getDate\<close> read, \<open>zn_make\<close> what \<open>new Date(y, m, d).getTime()\<close>
  makes; the locale \<open>calendar_zone\<close> states what the code relies on, and UTC is an instance.
\<close>

section \<open>Zones\<close>

record zone =
  zn_parts :: "int \<Rightarrow> int \<times> int \<times> int"
  zn_make :: "int \<Rightarrow> int \<Rightarrow> int \<Rightarrow> int"

definition utc_zone :: zone where
  "utc_zone = \<lparr> zn_parts = utc_parts, zn_make = date_utc \<rparr>"

definition in_zone :: "zone \<Rightarrow> bool \<Rightarrow> zone" where
  "in_zone z utc = (if utc then utc_zone else z)"

text \<open>
  Days follow each other, an instant lies in its own day, and a day holds no instant of another
  one. Years before 100 are left out: \<open>Date.UTC\<close> and \<open>new Date\<close> read them as 19xx.
\<close>

definition calendar :: "zone \<Rightarrow> bool" where
  "calendar z \<longleftrightarrow>
     (\<forall>y m d. zn_make z y m d < zn_make z y m (d + 1)) \<and>
     (\<forall>t y m d. zn_parts z t = (y, m, d) \<longrightarrow> 0 \<le> m \<and> m \<le> 11 \<and> 1 \<le> d \<and> d \<le> 31) \<and>
     (\<forall>t y m d. zn_parts z t = (y, m, d) \<longrightarrow> 100 \<le> y \<longrightarrow>
        zn_make z y m d \<le> t \<and> t < zn_make z y m (d + 1)) \<and>
     (\<forall>t t' y m d. zn_parts z t = (y, m, d) \<longrightarrow> 100 \<le> y \<longrightarrow>
        zn_make z y m d \<le> t' \<longrightarrow> t' < zn_make z y m (d + 1) \<longrightarrow> zn_parts z t' = (y, m, d))"

section \<open>Days\<close>

datatype window_chip = ChipToday | Chip24h | Chip7d | Chip30d | ChipAll

definition day_parts :: "zone \<Rightarrow> bool \<Rightarrow> int \<Rightarrow> int \<times> int \<times> int" where
  "day_parts z utc ms = zn_parts (in_zone z utc) ms"

definition start_of_day_ms :: "zone \<Rightarrow> bool \<Rightarrow> int \<Rightarrow> int \<Rightarrow> int" where
  "start_of_day_ms z utc ms offset_days =
     (case day_parts z utc ms of (y, m, d) \<Rightarrow> zn_make (in_zone z utc) y m (d + offset_days))"

definition day_key :: "zone \<Rightarrow> bool \<Rightarrow> int \<Rightarrow> string" where
  "day_key z utc ms =
     (case day_parts z utc ms of (y, m, d) \<Rightarrow>
        pad_start 4 (string_of_int y) @ ''-'' @ pad_start 2 (string_of_int (m + 1)) @ ''-'' @
        pad_start 2 (string_of_int d))"

text \<open>The regular expression: four digits, two, two, separated by dashes, and nothing else.\<close>

definition read_day :: "string \<Rightarrow> (int \<times> int \<times> int) option" where
  "read_day key =
     (case read_digits 4 0 key of
        Some (y, r1) \<Rightarrow>
          (case Option.bind (read_char (CHR ''-'') r1) (read_digits 2 0) of
             Some (m, r2) \<Rightarrow>
               (case Option.bind (read_char (CHR ''-'') r2) (read_digits 2 0) of
                  Some (d, []) \<Rightarrow> Some (y, m, d)
                | _ \<Rightarrow> None)
           | None \<Rightarrow> None)
      | None \<Rightarrow> None)"

text \<open>With four digits of year the instants are always finite.\<close>

definition day_range_ms :: "zone \<Rightarrow> bool \<Rightarrow> string \<Rightarrow> (int \<times> int) option" where
  "day_range_ms z utc key =
     (case read_day key of None \<Rightarrow> None
      | Some (y, m, d) \<Rightarrow>
          Some (zn_make (in_zone z utc) y (m - 1) d, zn_make (in_zone z utc) y (m - 1) (d + 1)))"

section \<open>Windows\<close>

definition window_since :: "zone \<Rightarrow> window_chip \<Rightarrow> int \<Rightarrow> bool \<Rightarrow> string option" where
  "window_since z chip now utc =
     (case chip of
        ChipToday \<Rightarrow> Some (to_iso (start_of_day_ms z utc now 0))
      | Chip24h \<Rightarrow> Some (to_iso (now - day_ms))
      | Chip7d \<Rightarrow> Some (to_iso (now - 7 * day_ms))
      | Chip30d \<Rightarrow> Some (to_iso (now - 30 * day_ms))
      | ChipAll \<Rightarrow> None)"

definition min_opt :: "int option \<Rightarrow> int option \<Rightarrow> int option" where
  "min_opt acc x = (case (acc, x) of (Some a, Some v) \<Rightarrow> Some (min a v) | (None, v) \<Rightarrow> v | (a, None) \<Rightarrow> a)"

definition max_opt :: "int option \<Rightarrow> int option \<Rightarrow> int option" where
  "max_opt acc x = (case (acc, x) of (Some a, Some v) \<Rightarrow> Some (max a v) | (None, v) \<Rightarrow> v | (a, None) \<Rightarrow> a)"

text \<open>The edges of the flights loaded; \<^term>\<open>None\<close> is the infinity the loop starts from.\<close>

definition loaded_span :: "track list \<Rightarrow> (int \<times> int) option" where
  "loaded_span tracks =
     (case (fold (\<lambda>t acc. min_opt acc (flight_start_ms t)) tracks None,
            fold (\<lambda>t acc. max_opt acc (flight_end_ms t)) tracks None) of
        (Some s, Some e) \<Rightarrow> if e \<le> s then None else Some (s, e)
      | _ \<Rightarrow> None)"

definition flight_window_ms ::
  "zone \<Rightarrow> track list \<Rightarrow> window_chip \<Rightarrow> string option \<Rightarrow> int \<Rightarrow> bool \<Rightarrow> real \<times> real" where
  "flight_window_ms z tracks chip day now utc =
     (case Option.bind day (day_range_ms z utc) of
        Some (s, e) \<Rightarrow> (of_int s, of_int e)
      | None \<Rightarrow>
          (case Option.bind (window_since z chip now utc)
                  (\<lambda>since. Option.bind (date_parse since) (\<lambda>s. if s < now then Some s else None)) of
             Some s \<Rightarrow> (of_int s, of_int now)
           | None \<Rightarrow>
               (case loaded_span tracks of
                  None \<Rightarrow> (of_int (now - day_ms), of_int now)
                | Some (s, e) \<Rightarrow>
                    (of_int s, of_int e + min (of_int day_ms) (max 60000 (of_int (e - s) / 20))))))"

section \<open>The histogram\<close>

record day_bucket =
  db_key :: string
  db_start_ms :: int
  db_count :: nat

definition max_contiguous_days :: int where "max_contiguous_days = 120"

record day_histogram =
  dh_buckets :: "day_bucket list"
  dh_contiguous :: bool

definition count_flight ::
  "zone \<Rightarrow> bool \<Rightarrow> track \<Rightarrow> (string \<times> int \<times> nat) list \<Rightarrow> (string \<times> int \<times> nat) list" where
  "count_flight z utc t counts =
     (case flight_start_ms t of None \<Rightarrow> counts
      | Some ms \<Rightarrow>
          let key = day_key z utc ms
          in (case map_of counts key of
                None \<Rightarrow> AList.update key (start_of_day_ms z utc ms 0, 1) counts
              | Some (s, n) \<Rightarrow> AList.update key (s, n + 1) counts))"

definition present_days :: "(string \<times> int \<times> nat) list \<Rightarrow> day_bucket list" where
  "present_days counts =
     js_sort (\<lambda>a b. db_start_ms a - db_start_ms b)
       (map (\<lambda>(k, s, n). \<lparr> db_key = k, db_start_ms = s, db_count = n \<rparr>) counts)"

text \<open>
  The loop that fills the empty days. A contiguous span is at most 120 days of at least 23 hours,
  so 130 rounds are enough; the fuel only keeps the definition total for a zone that does not move.
\<close>

fun fill_days ::
  "nat \<Rightarrow> zone \<Rightarrow> bool \<Rightarrow> (string \<times> int \<times> nat) list \<Rightarrow> int \<Rightarrow> int \<Rightarrow> day_bucket list"
where
  "fill_days 0 z utc counts cursor last_ms = []"
| "fill_days (Suc n) z utc counts cursor last_ms =
     (if last_ms < cursor then []
      else
        let key = day_key z utc cursor
        in \<lparr> db_key = key, db_start_ms = cursor,
             db_count = (case map_of counts key of None \<Rightarrow> 0 | Some (_, c) \<Rightarrow> c) \<rparr> #
           fill_days n z utc counts (start_of_day_ms z utc cursor 1) last_ms)"

definition bucket_flights_by_day :: "zone \<Rightarrow> track list \<Rightarrow> bool \<Rightarrow> day_histogram" where
  "bucket_flights_by_day z tracks utc =
     (let counts = fold (count_flight z utc) tracks []
      in if counts = [] then \<lparr> dh_buckets = [], dh_contiguous = True \<rparr>
         else
           let present = present_days counts;
               first_ms = db_start_ms (hd present); last_ms = db_start_ms (last present);
               span_days = js_round (of_int (last_ms - first_ms) / of_int day_ms) + 1
           in if max_contiguous_days < span_days
              then \<lparr> dh_buckets = present, dh_contiguous = False \<rparr>
              else \<lparr> dh_buckets = fill_days 130 z utc counts first_ms last_ms,
                     dh_contiguous = True \<rparr>)"

section \<open>The calendar's laws\<close>

locale calendar_zone =
  fixes z :: zone
  assumes laws: "calendar z"
begin

lemma next_day: "zn_make z y m d < zn_make z y m (d + 1)"
  using laws by (simp add: calendar_def)

lemma parts_range: "zn_parts z t = (y, m, d) \<Longrightarrow> 0 \<le> m \<and> m \<le> 11 \<and> 1 \<le> d \<and> d \<le> 31"
  using laws unfolding calendar_def by blast

lemma own_day:
  "zn_parts z t = (y, m, d) \<Longrightarrow> 100 \<le> y \<Longrightarrow> zn_make z y m d \<le> t \<and> t < zn_make z y m (d + 1)"
  using laws unfolding calendar_def by blast

lemma same_day:
  "zn_parts z t = (y, m, d) \<Longrightarrow> 100 \<le> y \<Longrightarrow> zn_make z y m d \<le> t' \<Longrightarrow> t' < zn_make z y m (d + 1) \<Longrightarrow>
   zn_parts z t' = (y, m, d)"
  using laws unfolding calendar_def by blast

end

lemma make_day_Suc: "make_day y m (d + 1) = make_day y m d + 1"
  by (simp add: make_day_def Let_def)

lemma calendar_utc: "calendar utc_zone"
proof -
  have next_day: "date_utc y m d < date_utc y m (d + 1)" for y m d
    by (simp add: date_utc_def make_day_Suc day_ms_def)
  have day: "make_day y m d = t div day_ms" "0 \<le> m" "m \<le> 11" "1 \<le> d" "d \<le> 31"
    if "utc_parts t = (y, m, d)" for t y m d
  proof -
    have "valid_civil y m d" using that by (auto simp: utc_parts_def intro: civil_of_day_valid)
    then show "0 \<le> m" "m \<le> 11" "1 \<le> d" "d \<le> 31"
      by (auto simp: valid_civil_def days_in_month_def split: if_splits)
    show "make_day y m d = t div day_ms"
      using that by (simp add: utc_parts_def make_day_civil_of_day)
  qed
  have make: "date_utc y m d = make_day y m d * day_ms" if "100 \<le> y" for y m d
    using that by (simp add: date_utc_def)
  have inside: "n * day_ms \<le> t \<and> t < (n + 1) * day_ms \<longleftrightarrow> t div day_ms = n" for n t
    unfolding day_ms_def by auto
  have own: "date_utc y m d \<le> t \<and> t < date_utc y m (d + 1)"
    if "utc_parts t = (y, m, d)" "100 \<le> y" for t y m d
    unfolding make [OF that(2)] make_day_Suc inside using day(1) [OF that(1)] by simp
  have same: "utc_parts t' = (y, m, d)"
    if "utc_parts t = (y, m, d)" "100 \<le> y" "date_utc y m d \<le> t'" "t' < date_utc y m (d + 1)" for t t' y m d
  proof -
    have "t' div day_ms = t div day_ms"
      using that(3,4) day(1) [OF that(1)] unfolding make [OF that(2)] make_day_Suc by (simp flip: inside)
    then show ?thesis using that(1) by (simp add: utc_parts_def)
  qed
  show ?thesis
    unfolding calendar_def utc_zone_def zone.simps
  proof (intro conjI allI impI)
    fix t t' y m d
    show "date_utc y m d < date_utc y m (d + 1)" by (rule next_day)
    assume parts: "utc_parts t = (y, m, d)"
    show "0 \<le> m" "m \<le> 11" "1 \<le> d" "d \<le> 31" using day(2-5) [OF parts] by simp_all
    assume "100 \<le> y"
    then show "date_utc y m d \<le> t" "t < date_utc y m (d + 1)" using own [OF parts] by simp_all
    assume "date_utc y m d \<le> t'" "t' < date_utc y m (d + 1)"
    then show "utc_parts t' = (y, m, d)" using same [OF parts \<open>100 \<le> y\<close>] by simp
  qed
qed

interpretation utc: calendar_zone utc_zone
  by unfold_locales (rule calendar_utc)

lemma calendar_in_zone: "calendar z \<Longrightarrow> calendar_zone (in_zone z utc)"
  by (simp add: in_zone_def calendar_zone_def calendar_utc)

section \<open>Keys and ranges\<close>

lemma pad_start_int: "0 \<le> i \<Longrightarrow> pad_start n (string_of_int i) = digits_padded n i"
  by (simp add: string_of_int_def digits_padded_def)

lemma read_day_key:
  assumes "0 \<le> y" "y \<le> 9999" "0 \<le> m" "m \<le> 11" "1 \<le> d" "d \<le> 31"
  shows "read_day (pad_start 4 (string_of_int y) @ ''-'' @ pad_start 2 (string_of_int (m + 1)) @ ''-'' @
     pad_start 2 (string_of_int d)) = Some (y, m + 1, d)"
proof -
  have y: "read_digits 4 0 (digits_padded 4 y @ rest) = Some (y, rest)" for rest
    using assms by (intro read_digits_padded) simp_all
  have m: "read_digits 2 0 (digits_padded 2 (m + 1) @ rest) = Some (m + 1, rest)" for rest
    using assms by (intro read_digits_padded) simp_all
  have d: "read_digits 2 0 (digits_padded 2 d) = Some (d, [])"
    using read_digits_padded [of 2 d "[]"] assms by simp
  show ?thesis using assms by (simp add: read_day_def pad_start_int y m d)
qed

text \<open>The years whose keys read back: four digits, and not taken for 19xx.\<close>

definition plain_year :: "zone \<Rightarrow> bool \<Rightarrow> int \<Rightarrow> bool" where
  "plain_year z utc ms = (case day_parts z utc ms of (y, _) \<Rightarrow> 100 \<le> y \<and> y \<le> 9999)"

context calendar_zone begin

lemma range_of_key:
  assumes "zn_parts z ms = (y, m, d)" "0 \<le> y" "y \<le> 9999"
  shows "read_day (pad_start 4 (string_of_int y) @ ''-'' @ pad_start 2 (string_of_int (m + 1)) @ ''-'' @
     pad_start 2 (string_of_int d)) = Some (y, m + 1, d)"
  using parts_range [OF assms(1)] assms(2,3) by (intro read_day_key) auto

end

lemma day_range_of_key:
  assumes "calendar z" "day_parts z utc ms = (y, m, d)" "plain_year z utc ms"
  shows "day_range_ms z utc (day_key z utc ms) =
    Some (zn_make (in_zone z utc) y m d, zn_make (in_zone z utc) y m (d + 1))"
  using calendar_zone.range_of_key [OF calendar_in_zone [OF assms(1)], of utc ms y m d] assms(2,3)
  by (simp add: day_range_ms_def day_key_def plain_year_def day_parts_def)

lemma day_key_eq:
  assumes "calendar z" "plain_year z utc a" "plain_year z utc b"
  shows "day_key z utc a = day_key z utc b \<longleftrightarrow> day_parts z utc a = day_parts z utc b"
proof
  assume eq: "day_key z utc a = day_key z utc b"
  obtain y m d where a: "day_parts z utc a = (y, m, d)" by (cases "day_parts z utc a") auto
  obtain y' m' d' where b: "day_parts z utc b = (y', m', d')" by (cases "day_parts z utc b") auto
  note rd = calendar_zone.range_of_key [OF calendar_in_zone [OF assms(1)], of utc]
  have "read_day (day_key z utc a) = Some (y, m + 1, d)"
    using rd [of a y m d] a assms(2) by (simp add: day_key_def plain_year_def day_parts_def)
  moreover have "read_day (day_key z utc b) = Some (y', m' + 1, d')"
    using rd [of b y' m' d'] b assms(3) by (simp add: day_key_def plain_year_def day_parts_def)
  ultimately show "day_parts z utc a = day_parts z utc b" using eq a b by simp
qed (simp add: day_key_def)

lemma in_day_range:
  assumes "calendar z" "plain_year z utc ms" "plain_year z utc t"
    and "day_range_ms z utc (day_key z utc ms) = Some (s, e)"
  shows "s \<le> t \<and> t < e \<longleftrightarrow> day_key z utc t = day_key z utc ms"
proof -
  obtain y m d where p: "day_parts z utc ms = (y, m, d)" by (cases "day_parts z utc ms") auto
  have zp: "zn_parts (in_zone z utc) ms = (y, m, d)" and y: "100 \<le> y"
    using p assms(2) by (simp_all add: day_parts_def plain_year_def)
  have se: "s = zn_make (in_zone z utc) y m d" "e = zn_make (in_zone z utc) y m (d + 1)"
    using day_range_of_key [OF assms(1) p assms(2)] assms(4) by simp_all
  note cal = calendar_in_zone [OF assms(1), of utc]
  show ?thesis
  proof
    assume "s \<le> t \<and> t < e"
    then have "zn_parts (in_zone z utc) t = (y, m, d)"
      using calendar_zone.same_day [OF cal zp y] se by simp
    then show "day_key z utc t = day_key z utc ms" using p by (simp add: day_key_def day_parts_def)
  next
    assume "day_key z utc t = day_key z utc ms"
    then have "zn_parts (in_zone z utc) t = (y, m, d)"
      using day_key_eq [OF assms(1,3,2)] p by (simp add: day_parts_def)
    then show "s \<le> t \<and> t < e" using calendar_zone.own_day [OF cal _ y] se by simp
  qed
qed

section \<open>The histogram counts\<close>

definition flight_day :: "zone \<Rightarrow> bool \<Rightarrow> track \<Rightarrow> string option" where
  "flight_day z utc t = map_option (day_key z utc) (flight_start_ms t)"

definition counted :: "(string \<times> int \<times> nat) list \<Rightarrow> string \<Rightarrow> nat" where
  "counted counts key = (case map_of counts key of None \<Rightarrow> 0 | Some (_, c) \<Rightarrow> c)"

lemma counted_count_flight:
  "counted (count_flight z utc t counts) key =
     counted counts key + (if flight_day z utc t = Some key then 1 else 0)"
  by (auto simp: counted_def count_flight_def flight_day_def update_conv Let_def split: option.splits)

lemma counted_fold:
  "counted (fold (count_flight z utc) ts counts) key =
     counted counts key + length (filter (\<lambda>t. flight_day z utc t = Some key) ts)"
  by (induction ts arbitrary: counts) (simp_all add: counted_count_flight)

lemma distinct_count_flight:
  "distinct (map fst counts) \<Longrightarrow> distinct (map fst (fold (count_flight z utc) ts counts))"
  by (induction ts arbitrary: counts)
    (auto simp: count_flight_def Let_def distinct_fst_update split: option.splits)

lemma present_counted:
  "distinct (map fst counts) \<Longrightarrow> b \<in> set (present_days counts) \<Longrightarrow> db_count b = counted counts (db_key b)"
  by (auto simp: present_days_def counted_def)

lemma fill_counted:
  "b \<in> set (fill_days n z utc counts c l) \<Longrightarrow> db_count b = counted counts (db_key b)"
  by (induction n arbitrary: c) (auto simp: counted_def Let_def split: if_splits)

lemma bucket_counted:
  assumes "b \<in> set (dh_buckets (bucket_flights_by_day z ts utc))"
  shows "db_count b = length (filter (\<lambda>t. flight_day z utc t = Some (db_key b)) ts)"
proof -
  let ?counts = "fold (count_flight z utc) ts []"
  have "distinct (map fst ?counts)" by (rule distinct_count_flight) simp
  then have "db_count b = counted ?counts (db_key b)"
    using assms present_counted fill_counted
    by (auto simp: bucket_flights_by_day_def Let_def split: if_splits)
  then show ?thesis by (simp add: counted_fold) (simp add: counted_def)
qed

section \<open>Properties\<close>

text \<open>A day key names exactly its day: for the years 100 to 9999 the half-open range read back
  from the key of an instant contains an instant if and only if that instant has the same key, in
  UTC and in any zone whose calendar behaves.\<close>

theorem day_key_names_its_day:
  assumes "calendar z" "plain_year z utc ms" "plain_year z utc t"
  shows "\<exists>s e. day_range_ms z utc (day_key z utc ms) = Some (s, e) \<and>
    (s \<le> t \<and> t < e \<longleftrightarrow> day_key z utc t = day_key z utc ms) \<and> s \<le> ms \<and> ms < e"
proof -
  obtain y m d where "day_parts z utc ms = (y, m, d)" by (cases "day_parts z utc ms") auto
  then obtain s e where r: "day_range_ms z utc (day_key z utc ms) = Some (s, e)"
    using day_range_of_key [OF assms(1) _ assms(2)] by blast
  show ?thesis
    using r in_day_range [OF assms r] in_day_range [OF assms(1,2,2) r] by blast
qed

theorem day_key_names_its_day_witness:
  "\<exists>s e. day_range_ms utc_zone True (day_key utc_zone True 1750000000000) = Some (s, e) \<and>
    (s \<le> 1750000000001 \<and> 1750000000001 < e \<longleftrightarrow>
       day_key utc_zone True 1750000000001 = day_key utc_zone True 1750000000000) \<and>
    s \<le> 1750000000000 \<and> 1750000000000 < e"
  by (rule day_key_names_its_day [OF calendar_utc])
    (simp_all add: plain_year_def day_parts_def in_zone_def utc_zone_def utc_parts_def day_ms_def
      civil_of_day_def year_of_day_def day_from_year_def Let_def)

text \<open>The band of time the list looks at never has zero width: whatever the day, the chip and
  the flights loaded, it starts strictly before it ends, so no scale divides by zero.\<close>

theorem flight_window_not_empty:
  assumes "calendar z"
  shows "fst (flight_window_ms z ts chip day now utc) < snd (flight_window_ms z ts chip day now utc)"
proof -
  have range: "s < e" if "day_range_ms z utc k = Some (s, e)" for k s e
    using that calendar_zone.next_day [OF calendar_in_zone [OF assms]]
    by (auto simp: day_range_ms_def split: option.splits)
  have span: "s < e" if "loaded_span ts = Some (s, e)" for s e
    using that by (auto simp: loaded_span_def split: option.splits if_splits)
  show ?thesis
  proof (cases "Option.bind day (day_range_ms z utc)")
    case (Some r)
    then show ?thesis using range by (cases r) (auto simp: flight_window_ms_def bind_eq_Some_conv)
  next
    case None
    show ?thesis
    proof (cases "Option.bind (window_since z chip now utc)
        (\<lambda>since. Option.bind (date_parse since) (\<lambda>s. if s < now then Some s else None))")
      case (Some s)
      then show ?thesis
        using None by (auto simp: flight_window_ms_def bind_eq_Some_conv split: if_splits)
    next
      case no: None
      then show ?thesis
        using None span
        by (cases "loaded_span ts") (auto simp: flight_window_ms_def day_ms_def)
    qed
  qed
qed

theorem flight_window_not_empty_witness:
  "fst (flight_window_ms utc_zone [sample_track] ChipAll None 1750000000000 True) <
   snd (flight_window_ms utc_zone [sample_track] ChipAll None 1750000000000 True)"
  by (rule flight_window_not_empty [OF calendar_utc])

end
