(* ===== verification/FlightFilters.thy ===== *)
theory FlightFilters
  imports FlightTime
begin

text \<open>
  \<open>features/tracks/flight-filters.ts\<close>: the facets of the flights list and the count beside each
  option. \<open>localeCompare\<close> (\<open>lc\<close>) and the text of a number (\<open>num\<close>) are arguments.
\<close>

section \<open>Filtering\<close>

definition searchable_identity :: "track \<Rightarrow> string" where
  "searchable_identity t =
     join '' '' (filter (\<lambda>s. s \<noteq> [])
       (map (\<lambda>s. nullish s [])
          [trk_serial t, Option.bind (trk_identity t) id_manufacturer_code, trk_vendor t,
           Option.bind (trk_identity t) id_model_hint, Option.bind (trk_identity t) id_operator_id,
           Some (trk_track_id t)] @ trk_macs t))"

record flight_filters =
  ff_q :: "string option"
  ff_day :: "string option"
  ff_vendor :: "string option"
  ff_evidence :: "detection_class option"
  ff_operator :: "bool option"
  ff_min_duration_s :: "int option"
  ff_min_detections :: "int option"

datatype flight_facet =
  FacetQ | FacetDay | FacetVendor | FacetEvidence | FacetOperator | FacetMinDuration | FacetMinDetections

definition duration_thresholds_s :: "int list" where
  "duration_thresholds_s = [60, 300, 900]"

definition detection_thresholds :: "int list" where
  "detection_thresholds = [10, 100, 1000]"

definition has_class :: "detection_class \<Rightarrow> track \<Rightarrow> bool" where
  "has_class c t = list_ex (\<lambda>e. ev_class e = c) (nullish (trk_evidence t) [])"

definition lasts :: "int \<Rightarrow> track \<Rightarrow> bool" where
  "lasts n t = (case flight_duration_s t of None \<Rightarrow> False | Some s \<Rightarrow> of_int n \<le> s)"

fun matches_facet :: "zone \<Rightarrow> bool \<Rightarrow> flight_filters \<Rightarrow> flight_facet \<Rightarrow> track \<Rightarrow> bool" where
  "matches_facet z utc f FacetQ t =
     (let q = to_lower (trim (nullish (ff_q f) []))
      in if q = [] then True else js_includes (to_lower (searchable_identity t)) q)"
| "matches_facet z utc f FacetDay t =
     (if \<not> truthy (ff_day f) then True
      else (case day_range_ms z utc (nullish (ff_day f) []) of
              None \<Rightarrow> True
            | Some (s, e) \<Rightarrow>
                (case date_parse (trk_first_seen t) of None \<Rightarrow> False | Some ms \<Rightarrow> s \<le> ms \<and> ms < e)))"
| "matches_facet z utc f FacetVendor t \<longleftrightarrow> \<not> truthy (ff_vendor f) \<or> trk_vendor t = ff_vendor f"
| "matches_facet z utc f FacetEvidence t =
     (case ff_evidence f of None \<Rightarrow> True | Some c \<Rightarrow> has_class c t)"
| "matches_facet z utc f FacetOperator t =
     (case ff_operator f of None \<Rightarrow> True | Some yes \<Rightarrow> has_operator_fix t = yes)"
| "matches_facet z utc f FacetMinDuration t =
     (case ff_min_duration_s f of None \<Rightarrow> True | Some n \<Rightarrow> lasts n t)"
| "matches_facet z utc f FacetMinDetections t =
     (case ff_min_detections f of None \<Rightarrow> True | Some n \<Rightarrow> n \<le> trk_detection_count t)"

definition all_facets :: "flight_facet list" where
  "all_facets = [FacetQ, FacetDay, FacetVendor, FacetEvidence, FacetOperator, FacetMinDuration,
     FacetMinDetections]"

definition filter_flights ::
  "zone \<Rightarrow> track list \<Rightarrow> flight_filters \<Rightarrow> bool \<Rightarrow> flight_facet option \<Rightarrow> track list" where
  "filter_flights z tracks f utc except =
     filter (\<lambda>t. list_all (\<lambda>facet. Some facet = except \<or> matches_facet z utc f facet t) all_facets) tracks"

section \<open>Facet options\<close>

record 'v facet_option =
  fo_value :: 'v
  fo_label :: string
  fo_count :: nat

record flight_facets =
  fc_vendor :: "string facet_option list"
  fc_evidence :: "detection_class facet_option list"
  fc_operator :: "bool facet_option list"
  fc_duration :: "int facet_option list"
  fc_detections :: "int facet_option list"

definition duration_label :: "(real \<Rightarrow> string) \<Rightarrow> int \<Rightarrow> string" where
  "duration_label num s =
     (if 3600 \<le> s then ge_sign @ '' '' @ num (of_int s / 3600) @ '' h''
      else if 60 \<le> s then ge_sign @ '' '' @ num (of_int s / 60) @ '' min''
      else ge_sign @ '' '' @ num (of_int s) @ '' s'')"

definition bump :: "'k \<Rightarrow> ('k \<times> nat) list \<Rightarrow> ('k \<times> nat) list" where
  "bump k m = AList.update k (nullish (map_of m k) 0 + 1) m"

definition count_vendor :: "track \<Rightarrow> (string \<times> nat) list \<Rightarrow> (string \<times> nat) list" where
  "count_vendor t m =
     (case trk_vendor t of None \<Rightarrow> m | Some v \<Rightarrow> if v = [] then m else bump v m)"

definition vendor_counts :: "track list \<Rightarrow> (string \<times> nat) list" where
  "vendor_counts tracks = fold count_vendor tracks []"

text \<open>\<open>new Set\<close> over the classes: each class of a track counts once.\<close>

definition track_classes :: "track \<Rightarrow> detection_class list" where
  "track_classes t = fold (\<lambda>e cs. set_add (ev_class e) cs) (nullish (trk_evidence t) []) []"

definition evidence_counts :: "track list \<Rightarrow> (detection_class \<times> nat) list" where
  "evidence_counts tracks = fold (\<lambda>t m. fold bump (track_classes t) m) tracks []"

definition keep_selected :: "'k option \<Rightarrow> ('k \<times> nat) list \<Rightarrow> ('k \<times> nat) list" where
  "keep_selected sel m =
     (case sel of None \<Rightarrow> m | Some k \<Rightarrow> if map_of m k = None then AList.update k 0 m else m)"

definition threshold_options ::
  "(int \<Rightarrow> string) \<Rightarrow> (int \<Rightarrow> track \<Rightarrow> bool) \<Rightarrow> int list \<Rightarrow> int option \<Rightarrow> track list \<Rightarrow> int facet_option list" where
  "threshold_options label reaches thresholds sel tracks =
     filter (\<lambda>opt. 0 < fo_count opt \<or> sel = Some (fo_value opt))
       (map (\<lambda>n. \<lparr> fo_value = n, fo_label = label n, fo_count = length (filter (reaches n) tracks) \<rparr>)
          thresholds)"

definition flight_facets_of ::
  "(string \<Rightarrow> string \<Rightarrow> int) \<Rightarrow> (real \<Rightarrow> string) \<Rightarrow> zone \<Rightarrow> track list \<Rightarrow> flight_filters \<Rightarrow> bool \<Rightarrow> flight_facets" where
  "flight_facets_of lc num z tracks f utc =
     (let for_vendor = filter_flights z tracks f utc (Some FacetVendor);
          for_evidence = filter_flights z tracks f utc (Some FacetEvidence);
          for_operator = filter_flights z tracks f utc (Some FacetOperator);
          for_duration = filter_flights z tracks f utc (Some FacetMinDuration);
          for_detections = filter_flights z tracks f utc (Some FacetMinDetections);
          vendors = keep_selected (if truthy (ff_vendor f) then ff_vendor f else None)
                      (vendor_counts for_vendor);
          classes = keep_selected (ff_evidence f) (evidence_counts for_evidence);
          located = length (filter has_operator_fix for_operator)
      in \<lparr> fc_vendor =
             map (\<lambda>(v, n). \<lparr> fo_value = v, fo_label = v, fo_count = n \<rparr>)
               (js_sort (\<lambda>a b. let d = int (snd b) - int (snd a)
                               in if d \<noteq> 0 then d else lc (fst a) (fst b)) vendors),
           fc_evidence =
             map (\<lambda>(c, n). \<lparr> fo_value = c, fo_label = ''Class '' @ class_text c, fo_count = n \<rparr>)
               (js_sort (\<lambda>a b. lc (class_text (fst a)) (class_text (fst b))) classes),
           fc_operator =
             filter (\<lambda>opt. 0 < fo_count opt \<or> ff_operator f = Some (fo_value opt))
               [\<lparr> fo_value = True, fo_label = ''Located'', fo_count = located \<rparr>,
                \<lparr> fo_value = False, fo_label = ''Not located'',
                  fo_count = length for_operator - located \<rparr>],
           fc_duration =
             threshold_options (duration_label num) lasts duration_thresholds_s
               (ff_min_duration_s f) for_duration,
           fc_detections =
             threshold_options (\<lambda>n. ge_sign @ '' '' @ string_of_int n)
               (\<lambda>n t. n \<le> trk_detection_count t) detection_thresholds
               (ff_min_detections f) for_detections \<rparr>)"

section \<open>Picking an option\<close>

text \<open>
  Each facet reads only its own field, so picking a value of one facet filters what the other
  facets leave: the list its count is taken over.
\<close>

lemma list_all_facets:
  "list_all P all_facets \<longleftrightarrow>
     P FacetQ \<and> P FacetDay \<and> P FacetVendor \<and> P FacetEvidence \<and> P FacetOperator \<and>
     P FacetMinDuration \<and> P FacetMinDetections"
  by (simp add: all_facets_def)

lemma pick_vendor:
  "v \<noteq> [] \<Longrightarrow> filter_flights z ts (f\<lparr> ff_vendor := Some v \<rparr>) utc None =
     filter (\<lambda>t. trk_vendor t = Some v) (filter_flights z ts f utc (Some FacetVendor))"
  by (auto simp: filter_flights_def list_all_facets Let_def intro!: filter_cong)

lemma pick_evidence:
  "filter_flights z ts (f\<lparr> ff_evidence := Some c \<rparr>) utc None =
     filter (has_class c) (filter_flights z ts f utc (Some FacetEvidence))"
  by (auto simp: filter_flights_def list_all_facets Let_def intro!: filter_cong)

lemma pick_operator:
  "filter_flights z ts (f\<lparr> ff_operator := Some yes \<rparr>) utc None =
     filter (\<lambda>t. has_operator_fix t = yes) (filter_flights z ts f utc (Some FacetOperator))"
  by (auto simp: filter_flights_def list_all_facets Let_def intro!: filter_cong)

lemma pick_min_duration:
  "filter_flights z ts (f\<lparr> ff_min_duration_s := Some n \<rparr>) utc None =
     filter (lasts n) (filter_flights z ts f utc (Some FacetMinDuration))"
  by (auto simp: filter_flights_def list_all_facets Let_def intro!: filter_cong)

lemma pick_min_detections:
  "filter_flights z ts (f\<lparr> ff_min_detections := Some n \<rparr>) utc None =
     filter (\<lambda>t. n \<le> trk_detection_count t) (filter_flights z ts f utc (Some FacetMinDetections))"
  by (auto simp: filter_flights_def list_all_facets Let_def intro!: filter_cong)

section \<open>The counts\<close>

definition tally :: "('k \<times> nat) list \<Rightarrow> 'k \<Rightarrow> nat" where
  "tally m k = nullish (map_of m k) 0"

lemma tally_bump: "tally (bump k m) k' = tally m k' + (if k = k' then 1 else 0)"
  by (simp add: tally_def bump_def update_conv)

lemma distinct_bump: "distinct (map fst m) \<Longrightarrow> distinct (map fst (bump k m))"
  by (simp add: bump_def distinct_fst_update)

lemma tally_vendor_counts:
  assumes "v \<noteq> []"
  shows "tally (vendor_counts ts) v = length (filter (\<lambda>t. trk_vendor t = Some v) ts)"
proof -
  have "tally (fold count_vendor ts m) v = tally m v + length (filter (\<lambda>t. trk_vendor t = Some v) ts)" for m
    using assms by (induction ts arbitrary: m) (auto simp: tally_bump count_vendor_def split: option.splits)
  then show ?thesis by (simp add: vendor_counts_def) (simp add: tally_def)
qed

lemma vendor_counts_wf: "distinct (map fst (vendor_counts ts)) \<and> [] \<notin> fst ` set (vendor_counts ts)"
proof -
  have step: "distinct (map fst (count_vendor t m)) \<and> [] \<notin> fst ` set (count_vendor t m)"
    if "distinct (map fst m) \<and> [] \<notin> fst ` set m" for t m
    using that by (auto simp: count_vendor_def bump_def distinct_fst_update dom_update split: option.split)
  have "distinct (map fst m) \<and> [] \<notin> fst ` set m \<Longrightarrow>
      distinct (map fst (fold count_vendor ts m)) \<and> [] \<notin> fst ` set (fold count_vendor ts m)" for m
  proof (induction ts arbitrary: m)
    case (Cons t ts)
    show ?case using Cons.IH [OF step [OF Cons.prems]] by simp
  qed simp
  then show ?thesis by (simp add: vendor_counts_def)
qed

lemma track_classes_spec:
  "distinct cs \<Longrightarrow> distinct (fold (\<lambda>e cs. set_add (ev_class e) cs) es cs) \<and>
   set (fold (\<lambda>e cs. set_add (ev_class e) cs) es cs) = set cs \<union> ev_class ` set es"
  by (induction es arbitrary: cs) auto

lemma has_class_iff: "c \<in> set (track_classes t) \<longleftrightarrow> has_class c t"
  using track_classes_spec [of "[]" "nullish (trk_evidence t) []"]
  by (auto simp: track_classes_def has_class_def list_ex_iff)

lemma tally_fold_bump:
  "distinct cs \<Longrightarrow> tally (fold bump cs m) c = tally m c + (if c \<in> set cs then 1 else 0)"
  by (induction cs arbitrary: m) (auto simp: tally_bump)

lemma tally_evidence_counts: "tally (evidence_counts ts) c = length (filter (has_class c) ts)"
proof -
  have "tally (fold (\<lambda>t m. fold bump (track_classes t) m) ts m) c =
      tally m c + length (filter (has_class c) ts)" for m
  proof (induction ts arbitrary: m)
    case (Cons t ts)
    have "distinct (track_classes t)"
      using track_classes_spec [of "[]" "nullish (trk_evidence t) []"] by (simp add: track_classes_def)
    then show ?case by (simp add: Cons.IH tally_fold_bump has_class_iff)
  qed simp
  then show ?thesis by (simp add: evidence_counts_def) (simp add: tally_def)
qed

lemma distinct_evidence_counts: "distinct (map fst (evidence_counts ts))"
proof -
  have bumps: "distinct (map fst m) \<Longrightarrow> distinct (map fst (fold bump cs m))"
    for cs :: "detection_class list" and m
    by (induction cs arbitrary: m) (simp_all add: distinct_bump)
  have "distinct (map fst m) \<Longrightarrow>
      distinct (map fst (fold (\<lambda>t m. fold bump (track_classes t) m) ts m))" for m
    by (induction ts arbitrary: m) (simp_all add: bumps)
  then show ?thesis by (simp add: evidence_counts_def)
qed

lemma keep_selected_entry:
  assumes "distinct (map fst m)" "(k, n) \<in> set (keep_selected sel m)"
  shows "n = tally m k"
proof -
  have "map_of (keep_selected sel m) k = Some n"
    using assms by (cases sel) (auto simp: keep_selected_def distinct_fst_update intro: map_of_is_SomeI)
  then show ?thesis
    by (auto simp: keep_selected_def tally_def update_conv split: option.splits if_splits)
qed

lemma keep_selected_keys:
  "(k, n) \<in> set (keep_selected sel m) \<Longrightarrow> k \<in> fst ` set m \<or> sel = Some k"
proof -
  assume "(k, n) \<in> set (keep_selected sel m)"
  then have "k \<in> fst ` set (keep_selected sel m)" by (rule image_eqI [rotated]) simp
  then show ?thesis by (auto simp: keep_selected_def dom_update split: option.splits if_splits)
qed

text \<open>The promise of a list of options: the count is what picking the option would leave.\<close>

definition honest :: "('v \<Rightarrow> track list) \<Rightarrow> 'v facet_option list \<Rightarrow> bool" where
  "honest pick opts \<longleftrightarrow> list_all (\<lambda>opt. fo_count opt = length (pick (fo_value opt))) opts"

lemma honest_vendor:
  "honest (\<lambda>v. filter_flights z ts (f\<lparr> ff_vendor := Some v \<rparr>) utc None)
     (fc_vendor (flight_facets_of lc num z ts f utc))"
proof -
  let ?rest = "filter_flights z ts f utc (Some FacetVendor)"
  let ?m = "keep_selected (if truthy (ff_vendor f) then ff_vendor f else None) (vendor_counts ?rest)"
  have "n = length (filter_flights z ts (f\<lparr> ff_vendor := Some v \<rparr>) utc None)" if "(v, n) \<in> set ?m" for v n
  proof -
    have "v \<noteq> []"
      using keep_selected_keys [OF that] vendor_counts_wf [of ?rest]
      by (metis option.distinct(1) truthy_simps(2))
    moreover have "n = tally (vendor_counts ?rest) v"
      using vendor_counts_wf that by (blast intro: keep_selected_entry)
    ultimately show ?thesis by (simp add: pick_vendor tally_vendor_counts)
  qed
  then show ?thesis by (auto simp: honest_def flight_facets_of_def Let_def list_all_iff)
qed

lemma honest_evidence:
  "honest (\<lambda>c. filter_flights z ts (f\<lparr> ff_evidence := Some c \<rparr>) utc None)
     (fc_evidence (flight_facets_of lc num z ts f utc))"
proof -
  let ?rest = "filter_flights z ts f utc (Some FacetEvidence)"
  have "n = length (filter_flights z ts (f\<lparr> ff_evidence := Some c \<rparr>) utc None)"
    if "(c, n) \<in> set (keep_selected (ff_evidence f) (evidence_counts ?rest))" for c n
    using keep_selected_entry [OF distinct_evidence_counts that]
    by (simp add: pick_evidence tally_evidence_counts)
  then show ?thesis by (auto simp: honest_def flight_facets_of_def Let_def list_all_iff)
qed

lemma length_filter_not: "length (filter (\<lambda>t. P t = False) ts) = length ts - length (filter P ts)"
  by (induction ts) (auto simp: Suc_diff_le)

lemma honest_operator:
  "honest (\<lambda>yes. filter_flights z ts (f\<lparr> ff_operator := Some yes \<rparr>) utc None)
     (fc_operator (flight_facets_of lc num z ts f utc))"
  by (simp add: honest_def flight_facets_of_def Let_def list_all_iff pick_operator
      length_filter_not [of has_operator_fix, simplified])

lemma honest_threshold:
  "(\<And>n. pick n = filter (reaches n) ts) \<Longrightarrow> honest pick (threshold_options label reaches ns sel ts)"
  by (auto simp: honest_def threshold_options_def list_all_iff)

section \<open>Properties\<close>

text \<open>C15: Every count beside a facet option is what the list would have if that option were picked
  with all the other filters left as they are: for vendors, evidence classes, located operators,
  durations and detection counts alike.\<close>

theorem facet_counts_honest:
  "honest (\<lambda>v. filter_flights z ts (f\<lparr> ff_vendor := Some v \<rparr>) utc None)
      (fc_vendor (flight_facets_of lc num z ts f utc)) \<and>
   honest (\<lambda>c. filter_flights z ts (f\<lparr> ff_evidence := Some c \<rparr>) utc None)
      (fc_evidence (flight_facets_of lc num z ts f utc)) \<and>
   honest (\<lambda>yes. filter_flights z ts (f\<lparr> ff_operator := Some yes \<rparr>) utc None)
      (fc_operator (flight_facets_of lc num z ts f utc)) \<and>
   honest (\<lambda>n. filter_flights z ts (f\<lparr> ff_min_duration_s := Some n \<rparr>) utc None)
      (fc_duration (flight_facets_of lc num z ts f utc)) \<and>
   honest (\<lambda>n. filter_flights z ts (f\<lparr> ff_min_detections := Some n \<rparr>) utc None)
      (fc_detections (flight_facets_of lc num z ts f utc))"
  by (intro conjI honest_vendor honest_evidence honest_operator)
    (simp_all add: flight_facets_of_def Let_def honest_threshold pick_min_duration pick_min_detections)

text \<open>A bar of the day histogram is as tall as the list it filters to: for flights whose start
  falls in the years 100 to 9999, a bucket's count is the number of flights the filter with that
  bucket's day leaves, provided the bucket is the day of some instant of those years.\<close>

theorem histogram_matches_day_filter:
  assumes "calendar z" and "b \<in> set (dh_buckets (bucket_flights_by_day z ts utc))"
    and "db_key b = day_key z utc ms" "plain_year z utc ms"
    and "\<forall>t \<in> set ts. \<forall>s. flight_start_ms t = Some s \<longrightarrow> plain_year z utc s"
  shows "db_count b = length (filter_flights z ts
    \<lparr> ff_q = None, ff_day = Some (db_key b), ff_vendor = None, ff_evidence = None,
      ff_operator = None, ff_min_duration_s = None, ff_min_detections = None \<rparr> utc None)"
proof -
  obtain y m d where "day_parts z utc ms = (y, m, d)" by (cases "day_parts z utc ms") auto
  then obtain s e where r: "day_range_ms z utc (db_key b) = Some (s, e)"
    using day_range_of_key [OF assms(1) _ assms(4)] assms(3) by metis
  have ne: "db_key b \<noteq> []" using assms(3) by (simp add: day_key_def split: prod.splits)
  have "matches_facet z utc \<lparr> ff_q = None, ff_day = Some (db_key b), ff_vendor = None, ff_evidence = None,
      ff_operator = None, ff_min_duration_s = None, ff_min_detections = None \<rparr> FacetDay t \<longleftrightarrow>
    flight_day z utc t = Some (db_key b)" if t: "t \<in> set ts" for t
  proof (cases "flight_start_ms t")
    case (Some start)
    then have "plain_year z utc start" using assms(5) t by blast
    then have "s \<le> start \<and> start < e \<longleftrightarrow> day_key z utc start = day_key z utc ms"
      using in_day_range [OF assms(1,4)] r assms(3) by simp
    then show ?thesis
      using Some r ne assms(3) by (simp add: flight_day_def flight_start_ms_def)
  qed (use r ne in \<open>simp add: flight_day_def flight_start_ms_def\<close>)
  then have "filter (\<lambda>t. flight_day z utc t = Some (db_key b)) ts = filter_flights z ts
    \<lparr> ff_q = None, ff_day = Some (db_key b), ff_vendor = None, ff_evidence = None,
      ff_operator = None, ff_min_duration_s = None, ff_min_detections = None \<rparr> utc None"
    unfolding filter_flights_def by (intro filter_cong) (simp_all add: list_all_facets trim_def to_lower_def)
  then show ?thesis using bucket_counted [OF assms(2)] by simp
qed

lemma sample_start: "date_parse ''2026-01-01T00:00:00.000Z'' = Some 1767225600000"
  by code_simp

lemma sample_histogram:
  "dh_buckets (bucket_flights_by_day utc_zone [sample_track] True) =
     [\<lparr> db_key = ''2026-01-01'', db_start_ms = 1767225600000, db_count = 1 \<rparr>]"
  by code_simp

theorem histogram_matches_day_filter_witness:
  "1 = length (filter_flights utc_zone [sample_track]
     \<lparr> ff_q = None, ff_day = Some ''2026-01-01'', ff_vendor = None, ff_evidence = None,
       ff_operator = None, ff_min_duration_s = None, ff_min_detections = None \<rparr> True None)"
proof -
  have key: "day_key utc_zone True 1767225600000 = ''2026-01-01''" by code_simp
  have plain: "plain_year utc_zone True 1767225600000" by code_simp
  have start: "flight_start_ms sample_track = Some 1767225600000"
    using sample_start by (simp add: flight_start_ms_def sample_track_def)
  show ?thesis
    using histogram_matches_day_filter [OF calendar_utc, where ms = 1767225600000 and
        b = "\<lparr> db_key = ''2026-01-01'', db_start_ms = 1767225600000, db_count = 1 \<rparr>" and
        ts = "[sample_track]" and utc = True]
    by (simp add: sample_histogram key plain start)
qed

end
