(* ===== verification/JsNumber.thy ===== *)
theory JsNumber
  imports JsDate
begin

text \<open>
  Numbers read from texts: the digits other theories read, and \<open>Number(text)\<close>, ECMAScript's
  StringToNumber. \<^term>\<open>None\<close> is a result that is not finite. The value is the exact one.
\<close>

definition is_digit :: "char \<Rightarrow> bool" where
  "is_digit c \<longleftrightarrow> digit_value c \<noteq> None"

definition digits_value :: "string \<Rightarrow> real" where
  "digits_value cs = real_of_int (fold (\<lambda>c n. 10 * n + nullish (digit_value c) 0) cs 0)"

definition radix_digit :: "nat \<Rightarrow> char \<Rightarrow> nat option" where
  "radix_digit base c =
     (let n = (of_char c :: nat);
          v = (if 48 \<le> n \<and> n \<le> 57 then n - 48
               else if 97 \<le> n \<and> n \<le> 122 then n - 87
               else if 65 \<le> n \<and> n \<le> 90 then n - 55 else base)
      in if v < base then Some v else None)"

definition radix_number :: "nat \<Rightarrow> string \<Rightarrow> real option" where
  "radix_number base cs =
     (if cs = [] \<or> list_ex (\<lambda>c. radix_digit base c = None) cs then None
      else Some (real (fold (\<lambda>c n. base * n + nullish (radix_digit base c) 0) cs 0)))"

definition read_sign :: "string \<Rightarrow> bool \<times> string" where
  "read_sign cs =
     (case cs of [] \<Rightarrow> (False, [])
      | c # r \<Rightarrow> if c = CHR ''-'' then (True, r) else if c = CHR ''+'' then (False, r) else (False, cs))"

text \<open>The exponent that ends a decimal literal; a text that is none is refused.\<close>

definition read_exponent :: "string \<Rightarrow> int option" where
  "read_exponent cs =
     (case cs of [] \<Rightarrow> Some 0
      | c # r \<Rightarrow>
          let (neg, ds) = read_sign r
          in if c \<in> {CHR ''e'', CHR ''E''} \<and> ds \<noteq> [] \<and> list_all is_digit ds
             then Some ((if neg then - 1 else 1) * \<lfloor>digits_value ds\<rfloor>) else None)"

definition decimal_number :: "string \<Rightarrow> real option" where
  "decimal_number cs =
     (let (neg, r) = read_sign cs;
          whole = takeWhile is_digit r; r1 = dropWhile is_digit r;
          after = (case r1 of [] \<Rightarrow> [] | c # t \<Rightarrow> if c = CHR ''.'' then t else []);
          dotted = (r1 \<noteq> [] \<and> hd r1 = CHR ''.'');
          frac = takeWhile is_digit after;
          rest = (if dotted then dropWhile is_digit after else r1)
      in if whole = [] \<and> frac = [] then None
         else (case read_exponent rest of
             None \<Rightarrow> None
           | Some e \<Rightarrow>
               let v = digits_value whole + digits_value frac / 10 ^ length frac;
                   scaled = (if 0 \<le> e then v * 10 ^ nat e else v / 10 ^ nat (- e))
               in Some (if neg then - scaled else scaled)))"

definition js_number :: "string \<Rightarrow> real option" where
  "js_number s =
     (let t = trim s
      in if t = [] then Some 0
         else if take 2 t \<in> {''0x'', ''0X''} then radix_number 16 (drop 2 t)
         else if take 2 t \<in> {''0o'', ''0O''} then radix_number 8 (drop 2 t)
         else if take 2 t \<in> {''0b'', ''0B''} then radix_number 2 (drop 2 t)
         else decimal_number t)"

section \<open>Whole numbers\<close>

lemma digits_of_nat_digits: "list_all is_digit (digits_of_nat n)"
proof (induction n rule: digits_of_nat.induct)
  case (1 n)
  have d: "is_digit (char_of (48 + m))" if "m < 10" for m :: nat
    using that by (simp add: is_digit_def)
  show ?case
    by (cases "n < 10") (use 1 d in \<open>simp_all add: digits_of_nat.simps [of n]\<close>)
qed

lemma digits_of_nat_ne: "digits_of_nat n \<noteq> []"
  by (subst digits_of_nat.simps) simp

lemma digits_of_nat_value: "digits_value (digits_of_nat n) = real n"
proof (induction n rule: digits_of_nat.induct)
  case (1 n)
  show ?case
  proof (cases "n < 10")
    case False
    have "digits_value (digits_of_nat n) = 10 * digits_value (digits_of_nat (n div 10)) + real (n mod 10)"
      using False by (simp add: digits_of_nat.simps [of n] digits_value_def)
    also have "\<dots> = real (10 * (n div 10) + n mod 10)" unfolding 1 [OF False] of_nat_add of_nat_mult by simp
    also have "10 * (n div 10) + n mod 10 = n" by simp
    finally show ?thesis .
  qed (simp add: digits_of_nat.simps [of n] digits_value_def)
qed

lemma digits_of_nat_no_zero: "hd (digits_of_nat n) = CHR ''0'' \<Longrightarrow> length (digits_of_nat n) = 1"
proof (induction n rule: digits_of_nat.induct)
  case (1 n)
  show ?case
  proof (cases "n < 10")
    case False
    have "hd (digits_of_nat (n div 10)) = CHR ''0''"
      using "1.prems" False by (simp add: digits_of_nat.simps [of n] hd_append digits_of_nat_ne)
    then have "length (digits_of_nat (n div 10)) = 1" using 1 False by simp
    then have "n div 10 < 10" by (subst (asm) digits_of_nat.simps) (auto simp: digits_of_nat_ne split: if_splits)
    then have "hd (digits_of_nat (n div 10)) = char_of (48 + n div 10)" by (simp add: digits_of_nat.simps [of "n div 10"])
    then have "(of_char (char_of (48 + n div 10) :: char) :: nat) = of_char (CHR ''0'')"
      using \<open>hd (digits_of_nat (n div 10)) = CHR ''0''\<close> by simp
    then show ?thesis using \<open>n div 10 < 10\<close> False by simp
  qed (simp add: digits_of_nat.simps [of n])
qed

lemma takeWhile_digits: "takeWhile is_digit (digits_of_nat n) = digits_of_nat n"
  and dropWhile_digits: "dropWhile is_digit (digits_of_nat n) = []"
  using digits_of_nat_digits by (simp_all add: takeWhile_eq_all_conv dropWhile_eq_Nil_conv list_all_iff)

lemma digit_not_space: "is_digit c \<Longrightarrow> \<not> is_space c"
  by (auto simp: is_digit_def digit_value_def is_space_def Let_def split: if_splits)

lemma trim_no_space: "list_all (\<lambda>c. \<not> is_space c) s \<Longrightarrow> trim s = s"
proof -
  have d: "list_all (\<lambda>c. \<not> is_space c) t \<Longrightarrow> dropWhile is_space t = t" for t
    by (cases t) simp_all
  show "list_all (\<lambda>c. \<not> is_space c) s \<Longrightarrow> trim s = s"
    using d [of s] d [of "rev s"] by (simp add: trim_def list_all_iff)
qed

text \<open>The decimal text of a whole number is read back.\<close>

lemma js_number_whole: "js_number (string_of_int i) = Some (of_int i)"
proof -
  let ?ds = "digits_of_nat (nat \<bar>i\<bar>)"
  have t: "string_of_int i = (if i < 0 then CHR ''-'' # ?ds else ?ds)"
    by (simp add: string_of_int_def)
  have digits: "list_all is_digit ?ds" by (rule digits_of_nat_digits)
  then have h: "?ds \<noteq> []" "hd ?ds \<notin> {CHR ''-'', CHR ''+''}"
    "take 2 ?ds \<notin> {''0x'', ''0X'', ''0o'', ''0O'', ''0b'', ''0B''}"
    using digits_of_nat_ne [of "nat \<bar>i\<bar>"]
    by (cases ?ds; cases "tl ?ds"; auto simp: is_digit_def digit_value_def)+
  have "trim (string_of_int i) = string_of_int i"
  proof (rule trim_no_space)
    have "\<not> is_space (CHR ''-'')" by (simp add: is_space_def)
    then show "list_all (\<lambda>c. \<not> is_space c) (string_of_int i)"
      using digits digit_not_space by (auto simp: t list_all_iff)
  qed
  moreover have "read_sign (string_of_int i) = (i < 0, ?ds)"
    using h(1,2) by (cases ?ds) (auto simp: t read_sign_def)
  moreover have "take 2 (string_of_int i) \<notin> {''0x'', ''0X'', ''0o'', ''0O'', ''0b'', ''0B''}" "string_of_int i \<noteq> []"
    using h by (auto simp: t)
  ultimately show ?thesis
    using h(1) by (simp add: js_number_def decimal_number_def takeWhile_digits dropWhile_digits
        digits_of_nat_value digits_value_def [of "[]"] read_exponent_def Let_def)
qed

end
