(* ===== verification/Format.thy ===== *)
theory Format
  imports ApiTypes JsNumber
begin

text \<open>
  \<open>lib/format.ts\<close>: how measurements are written. A missing value is an em dash, never a zero.
  The two formatters built on \<open>Intl\<close> and on a clock face (\<open>formatClock\<close>) are left out. A number
  that is not finite cannot occur here: the arguments are reals.
\<close>

section \<open>Numbers\<close>

definition nbsp :: string where "nbsp = [CHR 0xC2, CHR 0xA0]"
definition degree_sign :: string where "degree_sign = [CHR 0xC2, CHR 0xB0]"

definition format_lat_lon :: "real \<Rightarrow> real \<Rightarrow> string" where
  "format_lat_lon lat lon = to_fixed 6 lat @ '', '' @ to_fixed 6 lon"

definition empty_text :: string where "empty_text = em_dash"

definition format_number :: "nat \<Rightarrow> string \<Rightarrow> real option \<Rightarrow> string" where
  "format_number digits un value =
     (case value of None \<Rightarrow> empty_text
      | Some v \<Rightarrow> to_fixed digits v @ (if un \<noteq> [] then nbsp @ un else []))"

definition format_metres :: "real option \<Rightarrow> string" where
  "format_metres value = format_number 1 ''m'' value"

definition format_speed :: "real option \<Rightarrow> string" where
  "format_speed value = format_number 1 ''m/s'' value"

definition format_rssi :: "real option \<Rightarrow> string" where
  "format_rssi value = format_number 0 ''dBm'' value"

definition format_heading :: "real option \<Rightarrow> string" where
  "format_heading value =
     (case value of None \<Rightarrow> empty_text | Some v \<Rightarrow> string_of_int (js_round v) @ degree_sign)"

definition format_confidence :: "real \<Rightarrow> string" where
  "format_confidence value = string_of_int (js_round (value * 100)) @ ''%''"

text \<open>The loop over the units stops at the last one.\<close>

fun scale_bytes :: "string list \<Rightarrow> real \<Rightarrow> real \<times> string" where
  "scale_bytes [] v = (v, [])"
| "scale_bytes [u] v = (v, u)"
| "scale_bytes (u # w # us) v = (if 1024 \<le> v then scale_bytes (w # us) (v / 1024) else (v, u))"

definition format_bytes :: "int \<Rightarrow> string" where
  "format_bytes bytes =
     (if bytes < 1024 then string_of_int bytes @ '' B''
      else
        let (v, u) = scale_bytes [''KiB'', ''MiB'', ''GiB''] (of_int bytes / 1024)
        in to_fixed 1 v @ nbsp @ u)"

section \<open>Durations\<close>

text \<open>\<open>Math.floor (seconds % 60)\<close> and its fellows are the digits of the whole seconds.\<close>

definition format_duration :: "real \<Rightarrow> string" where
  "format_duration seconds =
     (if seconds < 0 then empty_text
      else
        let n = nat \<lfloor>seconds\<rfloor>;
            s = n mod 60; m = n div 60 mod 60; h = n div 3600 mod 24; d = n div 86400
        in if 0 < d then digits_of_nat d @ ''d '' @ digits_of_nat h @ ''h''
           else if 0 < h then digits_of_nat h @ ''h '' @ digits_of_nat m @ ''m''
           else if 0 < m then digits_of_nat m @ ''m '' @ digits_of_nat s @ ''s''
           else digits_of_nat s @ ''s'')"

text \<open>\<open>(\d+(?:\.\d+)?)u\<close> at the front of the text, \<open>u\<close> a unit letter.\<close>

definition read_amount :: "char \<Rightarrow> string \<Rightarrow> (real \<times> string) option" where
  "read_amount u cs =
     (let whole = takeWhile is_digit cs; rest = dropWhile is_digit cs
      in if whole = [] then None
         else
           (case rest of
              [] \<Rightarrow> None
            | c # after \<Rightarrow>
                if c = u then Some (digits_value whole, after)
                else if c = CHR ''.'' then
                  let frac = takeWhile is_digit after
                  in (case dropWhile is_digit after of
                        [] \<Rightarrow> None
                      | d # tail \<Rightarrow>
                          if frac \<noteq> [] \<and> d = u
                          then Some (digits_value whole + digits_value frac / 10 ^ length frac, tail)
                          else None)
                else None))"

definition optional_amount :: "char \<Rightarrow> string \<Rightarrow> real option \<times> string" where
  "optional_amount u cs = (case read_amount u cs of None \<Rightarrow> (None, cs) | Some (v, r) \<Rightarrow> (Some v, r))"

text \<open>The sign and the total seconds of a Go duration, when the whole text is one.\<close>

definition read_go_duration :: "string \<Rightarrow> (bool \<times> real) option" where
  "read_go_duration text =
     (let (neg, cs) = (case text of CHR ''-'' # r \<Rightarrow> (True, r) | _ \<Rightarrow> (False, text));
          (h, r1) = optional_amount (CHR ''h'') cs;
          (m, r2) = optional_amount (CHR ''m'') r1;
          (s, r3) = optional_amount (CHR ''s'') r2
      in if r3 \<noteq> [] \<or> (h = None \<and> m = None \<and> s = None) then None
         else Some (neg, nullish h 0 * 3600 + nullish m 0 * 60 + nullish s 0))"

definition whole :: "real \<Rightarrow> int option" where
  "whole x = (if of_int \<lfloor>x\<rfloor> = x then Some \<lfloor>x\<rfloor> else None)"

definition counted_unit :: "int \<Rightarrow> string \<Rightarrow> string" where
  "counted_unit n un = string_of_int n @ '' '' @ un @ (if n = 1 then [] else ''s'')"

definition format_go_duration :: "string option \<Rightarrow> string" where
  "format_go_duration raw =
     (if \<not> truthy raw then empty_text
      else
        let text = trim (nullish raw [])
        in (case read_go_duration text of
              None \<Rightarrow> text
            | Some (neg, secs) \<Rightarrow>
                if secs \<le> 0 then text
                else
                  let sign = (if neg then ''-'' else [])
                  in if 1 \<le> secs / 86400 \<and> whole (secs / 86400) \<noteq> None
                     then sign @ counted_unit (the (whole (secs / 86400))) ''day''
                     else if 1 \<le> secs / 3600 \<and> whole (secs / 3600) \<noteq> None
                     then sign @ counted_unit (the (whole (secs / 3600))) ''hour''
                     else if 1 \<le> secs / 60 \<and> whole (secs / 60) \<noteq> None
                     then sign @ counted_unit (the (whole (secs / 60))) ''minute''
                     else sign @ format_duration secs))"

section \<open>Instants\<close>

definition format_relative :: "string option \<Rightarrow> int \<Rightarrow> string" where
  "format_relative stamp now =
     (if \<not> truthy stamp then empty_text
      else (case date_parse (nullish stamp []) of
              None \<Rightarrow> empty_text
            | Some t \<Rightarrow>
                let delta = nat (max 0 (js_round (of_int (now - t) / 1000)))
                in if delta < 5 then ''just now''
                   else if delta < 60 then digits_of_nat delta @ ''s ago''
                   else if delta < 3600 then digits_of_nat (delta div 60) @ ''m ago''
                   else if delta < 86400 then digits_of_nat (delta div 3600) @ ''h ago''
                   else digits_of_nat (delta div 86400) @ ''d ago''))"

definition format_timestamp :: "string option \<Rightarrow> string" where
  "format_timestamp stamp =
     (if \<not> truthy stamp then empty_text
      else (case date_parse (nullish stamp []) of
              None \<Rightarrow> empty_text
            | Some t \<Rightarrow> map (\<lambda>c. if c = CHR ''T'' then CHR '' '' else c) (to_iso t)))"

definition split_serial :: "string option \<Rightarrow> string option \<times> string option" where
  "split_serial serial =
     (case serial of
        None \<Rightarrow> (None, None)
      | Some s \<Rightarrow> if length s < 5 then (None, Some s) else (Some (take 4 s), Some (drop 4 s)))"

end
