(* ===== verification/Health.thy ===== *)
theory Health
  imports Format LiveStream
begin

text \<open>
  What the console says about itself: \<open>features/health/sky-state.ts\<close> (is an empty map evidence),
  \<open>features/health/status-summary.ts\<close> (the header's one verdict),
  \<open>features/monitoring/recording-state.ts\<close> and \<open>features/offline/freshness.ts\<close>.
\<close>

section \<open>The state of the sky\<close>

datatype sky_state_kind = Active | ActiveDegraded | Quiet | Degraded | Blind | Unknown

datatype tone = ToneOk | ToneWarn | ToneDown | ToneMuted

record sky_state =
  sky_kind :: sky_state_kind
  sky_absence_is_evidence :: bool
  sky_title :: string
  sky_detail :: string
  sky_tone :: tone
  sky_unhealthy :: "sensor_health list"
  sky_healthy :: "sensor_health list"
  sky_track_count :: nat

definition describe_sensors :: "sensor_health list \<Rightarrow> string" where
  "describe_sensors sensors =
     (let names = map (\<lambda>s. sh_sensor_id s @ '' ('' @ nullish (sh_reason s) ''no heartbeat'' @ '')'') sensors
      in case names of
           [] \<Rightarrow> []
         | [n] \<Rightarrow> n
         | _ \<Rightarrow> join '', '' (butlast names) @ '' and '' @ last names)"

definition is_manned :: "sensor_health \<Rightarrow> bool" where
  "is_manned s \<longleftrightarrow> sh_sensor_kind s = Sdr \<or> sh_sensor_kind s = Net"

definition count_5m :: "(sensor_health \<Rightarrow> bool) \<Rightarrow> sensor_health list \<Rightarrow> int" where
  "count_5m pick sensors = sum_list (map (\<lambda>s. nullish (sh_detections_5m s) 0) (filter pick sensors))"

definition quiet_detail :: "sensor_health list \<Rightarrow> nat \<Rightarrow> string" where
  "quiet_detail sensors healthy =
     (let manned = count_5m is_manned sensors; drone = count_5m (\<lambda>s. \<not> is_manned s) sensors;
          reporting = ''All '' @ digits_of_nat healthy @ '' sensors are reporting.''
      in if 0 < drone \<and> 0 < manned then
           reporting @ '' '' @ string_of_int drone @
           '' detections in the last 5 minutes did not correlate into a track; the '' @
           string_of_int manned @ '' ADS-B reports are manned aircraft.''
         else if 0 < drone then
           reporting @ '' '' @ string_of_int drone @
           '' detections in the last 5 minutes did not correlate into a track.''
         else if 0 < manned then
           reporting @ '' '' @ string_of_int manned @
           '' ADS-B reports from manned aircraft in the last 5 minutes and nothing from a drone '' @
           em_dash @ '' the empty map means an empty sky.''
         else
           ''All '' @ digits_of_nat healthy @
           '' sensors are reporting and have seen nothing for 5 minutes. The empty map means an empty sky.'')"

definition compute_sky_state :: "health option \<Rightarrow> nat \<Rightarrow> sky_state" where
  "compute_sky_state health track_count =
     (case health of
        None \<Rightarrow>
          \<lparr> sky_kind = Unknown, sky_absence_is_evidence = False, sky_title = ''Sensor status unknown'',
            sky_detail = ''The API has not reported health yet. Do not read anything into what is or is not on the map.'',
            sky_tone = ToneMuted, sky_unhealthy = [], sky_healthy = [], sky_track_count = track_count \<rparr>
      | Some h \<Rightarrow>
          let good = filter sh_healthy (hl_sensors h);
              bad = filter (\<lambda>s. \<not> sh_healthy s) (hl_sensors h);
              state = (\<lambda>k evidence title detail tn.
                \<lparr> sky_kind = k, sky_absence_is_evidence = evidence, sky_title = title,
                  sky_detail = detail, sky_tone = tn, sky_unhealthy = bad, sky_healthy = good,
                  sky_track_count = track_count \<rparr>)
          in if good = [] then
               state Blind False ''No sensor coverage''
                 (if hl_sensors h = []
                  then ''No sensors are registered. Nothing on this screen is evidence of anything.''
                  else ''Every sensor is unhealthy: '' @ describe_sensors bad @
                    ''. Nothing on this screen is evidence of anything.'') ToneDown
             else if bad \<noteq> [] then
               state (if 0 < track_count then ActiveDegraded else Degraded) False ''Coverage degraded''
                 (if 0 < track_count
                  then describe_sensors bad @ '' is not reporting, so this picture is incomplete.''
                  else describe_sensors bad @
                    '' is not reporting. An empty map is not evidence of an empty sky.'') ToneWarn
             else if 0 < track_count then
               state Active True
                 (if track_count = 1 then ''1 active track''
                  else digits_of_nat track_count @ '' active tracks'')
                 ''All sensors are reporting.'' ToneOk
             else
               state Quiet True ''Quiet sky'' (quiet_detail (hl_sensors h) (length good)) ToneOk)"

section \<open>The header's verdict\<close>

datatype status_tone = SummaryOk | SummaryWarn | SummaryDown | SummaryUnknown

record status_summary =
  ss_tone :: status_tone
  ss_label :: string
  ss_detail :: string

definition verdict :: "status_tone \<Rightarrow> string \<Rightarrow> string \<Rightarrow> status_summary" where
  "verdict tn label detail = \<lparr> ss_tone = tn, ss_label = label, ss_detail = detail \<rparr>"

definition summarise_status ::
  "health option \<Rightarrow> monitoring_state option \<Rightarrow> connection_state \<Rightarrow> bool \<Rightarrow> status_summary" where
  "summarise_status health monitoring connection health_error =
     (if health_error then
        verdict SummaryDown ''No API'' ''The console cannot reach the API. Nothing on screen is current.''
      else (case health of
        None \<Rightarrow> verdict SummaryUnknown ''Checking''
          ''Waiting for the first health report. Do not read anything into the screen yet.''
      | Some h \<Rightarrow>
          let bad = length (filter (\<lambda>s. \<not> sh_healthy s) (hl_sensors h));
              all = length (hl_sensors h)
          in if hl_status h = StatusDown then
               verdict SummaryDown ''No coverage''
                 (if all = 0
                  then ''No sensors are registered. Nothing on screen is evidence of anything.''
                  else ''Every sensor is unhealthy ('' @ digits_of_nat bad @ '' of '' @ digits_of_nat all @
                    ''). Nothing on screen is evidence of anything.'')
             else if (case monitoring of None \<Rightarrow> False | Some m \<Rightarrow> \<not> mon_enabled m) then
               verdict SummaryWarn ''Paused''
                 (if 0 < mon_discarded_while_paused (the monitoring)
                  then ''Recording is paused; '' @
                    string_of_int (mon_discarded_while_paused (the monitoring)) @ '' detections discarded so far.''
                  else ''Recording is paused. Detections are being discarded rather than stored.'')
             else if hl_status h = StatusDegraded \<or> 0 < bad then
               verdict SummaryWarn
                 (if bad = 1 then ''1 sensor down'' else digits_of_nat bad @ '' sensors down'')
                 (digits_of_nat bad @ '' of '' @ digits_of_nat all @
                  '' sensors are unhealthy. Part of the sky is unwatched.'')
             else if connection \<noteq> Open then
               verdict SummaryWarn ''Stale''
                 (if connection = Closed
                  then ''The live stream is disconnected. The detector is fine; this screen may be minutes old.''
                  else ''The live stream is reconnecting. This screen may be a little behind.'')
             else
               verdict SummaryOk ''Healthy''
                 (''Recording, '' @ digits_of_nat all @ '' sensor'' @ (if all = 1 then [] else ''s'') @
                  '' healthy, live stream connected.'')))"

section \<open>Recording\<close>

datatype recording_state = Recording | NoCoverage | RecDegraded | Paused

definition recording_state_of ::
  "monitoring_state option \<Rightarrow> health option \<Rightarrow> recording_state option" where
  "recording_state_of monitoring health =
     (case monitoring of None \<Rightarrow> None
      | Some m \<Rightarrow>
          if \<not> mon_enabled m then Some Paused
          else (case health of None \<Rightarrow> Some Recording
                | Some h \<Rightarrow>
                    let all = length (hl_sensors h); good = length (filter sh_healthy (hl_sensors h))
                    in if all = 0 then Some NoCoverage
                       else if good = 0 then Some NoCoverage
                       else if good < all then Some RecDegraded
                       else Some Recording))"

fun recording_label :: "recording_state \<Rightarrow> string" where
  "recording_label Paused = ''Paused''"
| "recording_label _ = ''Recording''"

fun recording_tone :: "recording_state \<Rightarrow> tone" where
  "recording_tone Recording = ToneOk"
| "recording_tone NoCoverage = ToneMuted"
| "recording_tone RecDegraded = ToneMuted"
| "recording_tone Paused = ToneWarn"

fun recording_description :: "recording_state \<Rightarrow> string" where
  "recording_description Recording = ''Detections are being recorded.''"
| "recording_description NoCoverage =
     ''Recording is on, but every sensor is unhealthy '' @ em_dash @ '' nothing is reaching it. '' @
     ''An empty map right now is evidence of nothing.''"
| "recording_description RecDegraded =
     ''Recording, but at least one sensor is unhealthy '' @ em_dash @ '' coverage is incomplete.''"
| "recording_description Paused = ''Recording is stopped. Detections are being discarded.''"

section \<open>Freshness\<close>

datatype freshness_level = FreshLive | FreshReconnecting | FreshStale | FreshOffline

record freshness =
  fr_level :: freshness_level
  fr_age_ms :: "int option"
  fr_announce :: bool
  fr_title :: string
  fr_detail :: string

definition stale_after_ms :: int where "stale_after_ms = 30000"
definition attempts_before_announcing :: nat where "attempts_before_announcing = 2"

definition age_text :: "int \<Rightarrow> string" where
  "age_text ms = format_duration (of_int (js_round (of_int ms / 1000)))"

definition compute_freshness ::
  "bool \<Rightarrow> connection_state \<Rightarrow> nat \<Rightarrow> int option \<Rightarrow> int \<Rightarrow> int \<Rightarrow> freshness" where
  "compute_freshness online connection attempt last_update now stale_after =
     (let age = map_option (\<lambda>t. max 0 (now - t)) last_update;
          fresh = (\<lambda>level announce title detail.
            \<lparr> fr_level = level, fr_age_ms = age, fr_announce = announce, fr_title = title,
              fr_detail = detail \<rparr>)
      in if \<not> online then
           fresh FreshOffline True (''Offline '' @ em_dash @ '' this is not the live sky'')
             (case age of
                None \<Rightarrow> ''This device has no network connection and nothing was received before it dropped. The map is empty because no sensor has been heard from, not because nothing is flying.''
              | Some a \<Rightarrow> ''This device has no network connection. Everything on screen is frozen as it was '' @
                  age_text a @ '' ago and will not update until the connection returns.'')
         else if connection = Open then fresh FreshLive False ''Live'' ''The stream is connected.''
         else (case age of
           None \<Rightarrow>
             if attempt < attempts_before_announcing
             then fresh FreshReconnecting False ''Connecting'' ''Waiting for the first frame from the API.''
             else fresh FreshStale True (''No data received '' @ em_dash @ '' this screen is not a reading'')
               ''The console is running but has not reached the API. Nothing shown here has been measured this session.''
         | Some a \<Rightarrow>
             if a < stale_after
             then fresh FreshReconnecting False ''Reconnecting''
               (''The live stream dropped. The newest reading is '' @ age_text a @ '' old.'')
             else fresh FreshStale True
               (''Live stream down '' @ em_dash @ '' this screen has stopped updating'')
               (''The newest reading is '' @ age_text a @ '' old. Track positions, sensor health and detection counts are all frozen at that moment, whatever the sky has done since.'')))"

section \<open>Properties\<close>

text \<open>C35: An empty map is called evidence exactly when health is known, there is at least one sensor
  and every sensor is healthy; a blind or unknown sky is never green, and tracks alone never make
  the picture complete.\<close>

theorem absence_is_evidence_iff:
  "sky_absence_is_evidence (compute_sky_state health n) =
     (\<exists>h. health = Some h \<and> hl_sensors h \<noteq> [] \<and> list_all sh_healthy (hl_sensors h)) \<and>
   (sky_tone (compute_sky_state health n) = ToneOk) =
     sky_absence_is_evidence (compute_sky_state health n) \<and>
   (sky_kind (compute_sky_state health n) = Quiet) =
     (sky_absence_is_evidence (compute_sky_state health n) \<and> n = 0)"
proof (cases health)
  case (Some h)
  have "filter sh_healthy (hl_sensors h) = [] \<or> filter (\<lambda>s. \<not> sh_healthy s) (hl_sensors h) \<noteq> [] \<longleftrightarrow>
      \<not> (hl_sensors h \<noteq> [] \<and> list_all sh_healthy (hl_sensors h))"
    by (cases "hl_sensors h") (auto simp: filter_empty_conv list_all_iff)
  then show ?thesis using Some by (auto simp: compute_sky_state_def Let_def)
qed (simp add: compute_sky_state_def)

text \<open>The two surfaces agree: whenever the header says healthy, health is known and the stream is
  open, and if any sensor is registered the sky state counts an empty map as evidence and the
  recorder is neither paused, degraded nor without coverage.\<close>

theorem header_and_sky_agree:
  assumes "ss_tone (summarise_status health monitoring connection err) = SummaryOk"
  shows "\<exists>h. health = Some h \<and> connection = Open \<and>
    (hl_sensors h = [] \<or>
       sky_absence_is_evidence (compute_sky_state health n) \<and>
       recording_state_of monitoring health \<in> {None, Some Recording})"
proof (cases health)
  case None
  then show ?thesis using assms by (auto simp: summarise_status_def verdict_def split: if_splits)
next
  case (Some h)
  have ok: "filter (\<lambda>s. \<not> sh_healthy s) (hl_sensors h) = []" "connection = Open"
    "(case monitoring of None \<Rightarrow> False | Some m \<Rightarrow> \<not> mon_enabled m) = False"
    using assms Some by (auto simp: summarise_status_def verdict_def Let_def split: if_splits)
  then have all: "filter sh_healthy (hl_sensors h) = hl_sensors h"
    by (simp add: filter_empty_conv filter_True)
  show ?thesis
    using Some ok all
    by (auto simp: compute_sky_state_def recording_state_of_def Let_def split: option.splits)
qed

definition sample_sensor :: sensor_health where
  "sample_sensor = \<lparr> sh_sensor_id = ''wifi0'', sh_sensor_kind = Wifi, sh_healthy = True,
     sh_last_heartbeat = ''2026-01-01T00:00:00.000Z'', sh_seconds_since_heartbeat = 1,
     sh_detections_5m = None, sh_reason = None, sh_detail = None, sh_optional = None,
     sh_config = None \<rparr>"

theorem header_and_sky_agree_witness:
  "\<exists>h. Some (sample_health\<lparr> hl_sensors := [sample_sensor] \<rparr>) = Some h \<and> Open = Open \<and>
    (hl_sensors h = [] \<or>
       sky_absence_is_evidence
         (compute_sky_state (Some (sample_health\<lparr> hl_sensors := [sample_sensor] \<rparr>)) 0) \<and>
       recording_state_of None (Some (sample_health\<lparr> hl_sensors := [sample_sensor] \<rparr>))
         \<in> {None, Some Recording})"
  by (rule header_and_sky_agree [where err = False])
    (simp add: summarise_status_def verdict_def sample_health_def sample_sensor_def)

text \<open>The freshness banner interrupts exactly when the screen cannot be trusted: offline, or the
  stream down with nothing received for the stale limit, or nothing ever received after two failed
  attempts; an open stream on a connected device is live and silent, and the age shown is never
  negative.\<close>

theorem freshness_announces_iff:
  "fr_announce (compute_freshness online conn attempt last_update now limit) =
     (if online then conn \<noteq> Open \<and>
       (case last_update of None \<Rightarrow> 2 \<le> attempt | Some t \<Rightarrow> limit \<le> max 0 (now - t)) else True) \<and>
   (fr_level (compute_freshness online conn attempt last_update now limit) = FreshLive) =
     (online \<and> conn = Open) \<and>
   fr_announce (compute_freshness online conn attempt last_update now limit) =
     (fr_level (compute_freshness online conn attempt last_update now limit)
        \<in> {FreshStale, FreshOffline}) \<and>
   0 \<le> nullish (fr_age_ms (compute_freshness online conn attempt last_update now limit)) 0"
  by (cases last_update)
    (auto simp: compute_freshness_def Let_def attempts_before_announcing_def)

end

