(* ===== verification/Lanes.thy ===== *)
theory Lanes
  imports ApiTypes JsDate
begin

text \<open>
  \<open>features/timeline/lanes.ts\<close>: the event timeline. A track is an interval; the intervals are packed
  into as few rows as hold them apart. Times are epoch milliseconds.
\<close>

section \<open>Packing\<close>

record timeline_window =
  tw_start_ms :: int
  tw_end_ms :: int

record timeline_event =
  te_track :: track
  te_from_ms :: int
  te_to_ms :: int
  te_clipped_start :: bool
  te_clipped_end :: bool
  te_lane :: nat

definition min_event_ms :: int where "min_event_ms = 60000"

record dated_track =
  dt_track :: track
  dt_first :: int
  dt_last :: int

definition date_track :: "track \<Rightarrow> dated_track option" where
  "date_track t =
     (case date_parse (trk_first_seen t) of None \<Rightarrow> None
      | Some a \<Rightarrow> (case date_parse (trk_last_seen t) of None \<Rightarrow> None
          | Some b \<Rightarrow> Some \<lparr> dt_track = t, dt_first = a, dt_last = b \<rparr>))"

definition dated_cmp :: "dated_track \<Rightarrow> dated_track \<Rightarrow> int" where
  "dated_cmp a b =
     (if dt_first a - dt_first b \<noteq> 0 then dt_first a - dt_first b else dt_last a - dt_last b)"

definition ordered_tracks :: "track list \<Rightarrow> timeline_window \<Rightarrow> dated_track list" where
  "ordered_tracks tracks w =
     js_sort dated_cmp
       (filter (\<lambda>d. tw_start_ms w \<le> dt_last d \<and> dt_first d < tw_end_ms w)
         (List.map_filter date_track tracks))"

text \<open>One turn of the loop: the ends of the lanes so far, and the events so far.\<close>

definition bar_from :: "timeline_window \<Rightarrow> dated_track \<Rightarrow> int" where
  "bar_from w d = max (dt_first d) (tw_start_ms w)"

definition bar_to :: "timeline_window \<Rightarrow> dated_track \<Rightarrow> int" where
  "bar_to w d = min (max (dt_last d) (bar_from w d + min_event_ms)) (tw_end_ms w)"

definition bar_event :: "timeline_window \<Rightarrow> dated_track \<Rightarrow> nat \<Rightarrow> timeline_event" where
  "bar_event w d lane =
     \<lparr> te_track = dt_track d, te_from_ms = bar_from w d, te_to_ms = bar_to w d,
       te_clipped_start = (dt_first d < tw_start_ms w), te_clipped_end = (tw_end_ms w < dt_last d),
       te_lane = lane \<rparr>"

definition pack_step ::
  "timeline_window \<Rightarrow> int \<Rightarrow> int list \<times> timeline_event list \<Rightarrow> dated_track \<Rightarrow>
   int list \<times> timeline_event list" where
  "pack_step w gap st d =
     (let (ends, events) = st
      in case find_index (\<lambda>end. end + gap \<le> bar_from w d) ends of
           None \<Rightarrow> (ends @ [bar_to w d], events @ [bar_event w d (length ends)])
         | Some lane \<Rightarrow> (ends[lane := bar_to w d], events @ [bar_event w d lane]))"

definition pack_lanes :: "track list \<Rightarrow> timeline_window \<Rightarrow> int \<Rightarrow> timeline_event list" where
  "pack_lanes tracks w gap = snd (foldl (pack_step w gap) ([], []) (ordered_tracks tracks w))"

definition lane_count :: "timeline_event list \<Rightarrow> nat" where
  "lane_count events = foldl (\<lambda>m e. max m (te_lane e + 1)) 0 events"

section \<open>The axis\<close>

definition minute_ms :: int where "minute_ms = 60000"
definition coarsest_ms :: int where "coarsest_ms = 7 * 24 * 60 * minute_ms"

definition tick_candidates :: "int list" where
  "tick_candidates =
     [minute_ms, 5 * minute_ms, 15 * minute_ms, 30 * minute_ms, 60 * minute_ms,
      3 * 60 * minute_ms, 6 * 60 * minute_ms, 12 * 60 * minute_ms, 24 * 60 * minute_ms, coarsest_ms]"

definition tick_step :: "timeline_window \<Rightarrow> int \<Rightarrow> int" where
  "tick_step w target =
     nullish (find (\<lambda>c. real_of_int (tw_end_ms w - tw_start_ms w) / real_of_int c \<le> real_of_int target)
       tick_candidates) coarsest_ms"

text \<open>The loop; the step is one of the candidates, so the guard on it only makes the loop total.\<close>

function tick_loop :: "int \<Rightarrow> int \<Rightarrow> int \<Rightarrow> int list" where
  "tick_loop step limit t =
     (if 0 < step \<and> t < limit then t # tick_loop step limit (t + step) else [])"
  by pat_completeness auto
termination by (relation "measure (\<lambda>(step, limit, t). nat (limit - t))") auto

declare tick_loop.simps [simp del]

definition ticks :: "timeline_window \<Rightarrow> int \<Rightarrow> int list" where
  "ticks w target =
     (if tw_end_ms w - tw_start_ms w \<le> 0 then []
      else
        let step = tick_step w target
        in tick_loop step (tw_end_ms w)
             (\<lceil>real_of_int (tw_start_ms w) / real_of_int step\<rceil> * step))"

definition fraction_at :: "timeline_window \<Rightarrow> real \<Rightarrow> real" where
  "fraction_at w ms =
     (let span = tw_end_ms w - tw_start_ms w
      in if span \<le> 0 then 0
         else min 1 (max 0 ((ms - of_int (tw_start_ms w)) / of_int span)))"

definition time_at :: "timeline_window \<Rightarrow> real \<Rightarrow> real" where
  "time_at w fraction =
     (let span = tw_end_ms w - tw_start_ms w
      in of_int (tw_start_ms w) + min 1 (max 0 fraction) * of_int span)"

section \<open>The state of the packing loop\<close>

text \<open>A bar occupies its lane from its start until the gap behind its end has passed.\<close>

definition covers :: "int \<Rightarrow> int \<Rightarrow> timeline_event \<Rightarrow> bool" where
  "covers gap t e \<longleftrightarrow> te_from_ms e \<le> t \<and> t < te_to_ms e + gap"

definition overlap_at :: "int \<Rightarrow> timeline_event list \<Rightarrow> int \<Rightarrow> nat" where
  "overlap_at gap events t = length (filter (covers gap t) events)"

definition peak_overlap :: "int \<Rightarrow> timeline_event list \<Rightarrow> nat" where
  "peak_overlap gap events = Max (insert 0 (set (map (\<lambda>e. overlap_at gap events (te_from_ms e)) events)))"

definition kept_apart :: "int \<Rightarrow> timeline_event \<Rightarrow> timeline_event \<Rightarrow> bool" where
  "kept_apart gap a b \<longleftrightarrow> (te_lane a = te_lane b \<longrightarrow> te_to_ms a + gap \<le> te_from_ms b)"

definition packing :: "int \<Rightarrow> int list \<Rightarrow> timeline_event list \<Rightarrow> bool" where
  "packing gap ends events \<longleftrightarrow>
     (\<forall>e \<in> set events. te_lane e < length ends \<and> te_to_ms e \<le> ends ! te_lane e \<and>
        te_from_ms e < te_to_ms e) \<and>
     (\<forall>l < length ends. \<exists>e \<in> set events. te_lane e = l \<and> te_to_ms e = ends ! l) \<and>
     sorted_wrt (kept_apart gap) events"

lemma lane_count_snoc: "lane_count (es @ [e]) = max (lane_count es) (te_lane e + 1)"
  by (simp add: lane_count_def)

lemma lane_count_eq:
  assumes "packing gap ends events"
  shows "lane_count events = length ends"
proof (rule antisym)
  have "(\<forall>e \<in> set es. te_lane e < n) \<Longrightarrow> lane_count es \<le> n" for es n
    by (induction es rule: rev_induct) (auto simp: lane_count_snoc lane_count_def)
  then show "lane_count events \<le> length ends" using assms by (simp add: packing_def)
  have up: "e \<in> set es \<Longrightarrow> te_lane e + 1 \<le> lane_count es" for e es
    by (induction es rule: rev_induct) (auto simp: lane_count_snoc)
  show "length ends \<le> lane_count events"
  proof (cases "length ends")
    case (Suc l)
    then obtain e where "e \<in> set events" "te_lane e = l" using assms by (auto simp: packing_def)
    then show ?thesis using up [of e events] Suc by simp
  qed simp
qed

lemma overlap_le_lanes:
  assumes "packing gap ends events"
  shows "overlap_at gap events t \<le> length ends"
proof -
  have apart: "sorted_wrt (kept_apart gap) es \<Longrightarrow> distinct (map te_lane (filter (covers gap t) es))" for es
    by (induction es) (auto simp: kept_apart_def covers_def)
  let ?ls = "map te_lane (filter (covers gap t) events)"
  have "distinct ?ls" using apart assms by (simp add: packing_def)
  moreover have "set ?ls \<subseteq> {..<length ends}" using assms by (auto simp: packing_def)
  ultimately have "card (set ?ls) \<le> length ends" "card (set ?ls) = length ?ls"
    using card_mono [of "{..<length ends}" "set ?ls"] by (auto simp: distinct_card simp del: set_map)
  then show ?thesis by (simp add: overlap_at_def)
qed

lemma bar_not_empty:
  assumes "tw_start_ms w < tw_end_ms w" "dt_first d < tw_end_ms w"
  shows "bar_from w d < bar_to w d"
  using assms by (simp add: bar_from_def bar_to_def min_event_ms_def less_max_iff_disj)

lemma bar_event_simps [simp]:
  "te_from_ms (bar_event w d l) = bar_from w d" "te_to_ms (bar_event w d l) = bar_to w d"
  "te_lane (bar_event w d l) = l"
  by (simp_all add: bar_event_def)

lemma pack_step_packing:
  assumes inv: "packing gap ends events" and gap: "0 \<le> gap"
    and bar: "bar_from w d < bar_to w d"
    and "pack_step w gap (ends, events) d = (ends', events')"
  shows "packing gap ends' events'"
proof (cases "find_index (\<lambda>end. end + gap \<le> bar_from w d) ends")
  case None
  with assms have "ends' = ends @ [bar_to w d]" "events' = events @ [bar_event w d (length ends)]"
    by (auto simp: pack_step_def)
  moreover have "\<exists>e \<in> set events'. te_lane e = l \<and> te_to_ms e = ends' ! l" if "l < length ends'" for l
    using that inv calculation by (cases "l = length ends") (auto simp: packing_def nth_append)
  ultimately show ?thesis using inv bar
    by (auto simp: packing_def nth_append sorted_wrt_append kept_apart_def)
next
  case (Some i)
  then have i: "i < length ends" "ends ! i + gap \<le> bar_from w d" by (auto dest: find_index_Some)
  from Some assms have e: "ends' = ends[i := bar_to w d]" "events' = events @ [bar_event w d i]"
    by (auto simp: pack_step_def)
  have old: "te_to_ms e + gap \<le> bar_from w d" if "e \<in> set events" "te_lane e = i" for e
    using that i inv by (force simp: packing_def)
  have 1: "te_lane e < length ends' \<and> te_to_ms e \<le> ends' ! te_lane e \<and> te_from_ms e < te_to_ms e"
    if "e \<in> set events'" for e
  proof (cases "e = bar_event w d i")
    case False
    then have m: "e \<in> set events" using that e by simp
    then show ?thesis using e inv bar gap old [OF m] i(1)
      by (cases "te_lane e = i") (auto simp: packing_def)
  qed (use e i bar in simp)
  have 2: "\<exists>e \<in> set events'. te_lane e = l \<and> te_to_ms e = ends' ! l" if "l < length ends'" for l
    using that inv e i by (cases "l = i") (auto simp: packing_def)
  have 3: "sorted_wrt (kept_apart gap) events'"
    using inv e old by (auto simp: packing_def sorted_wrt_append kept_apart_def)
  show ?thesis using 1 2 3 by (simp add: packing_def)
qed

text \<open>How full the fullest instant is, as the bars arrive in the order of their starts.\<close>

lemma overlap_at_append: "overlap_at gap (es @ fs) t = overlap_at gap es t + overlap_at gap fs t"
  by (simp add: overlap_at_def)

lemma peak_overlap_ge:
  "e \<in> set es \<Longrightarrow> overlap_at gap es (te_from_ms e) \<le> peak_overlap gap es"
  by (auto simp: peak_overlap_def intro: Max_ge)

lemma peak_overlap_le:
  "(\<And>e. e \<in> set es \<Longrightarrow> overlap_at gap es (te_from_ms e) \<le> n) \<Longrightarrow> peak_overlap gap es \<le> n"
  by (auto simp: peak_overlap_def)

lemma peak_overlap_mono: "peak_overlap gap es \<le> peak_overlap gap (es @ fs)"
proof (rule peak_overlap_le)
  fix e assume "e \<in> set es"
  then have "overlap_at gap (es @ fs) (te_from_ms e) \<le> peak_overlap gap (es @ fs)"
    by (intro peak_overlap_ge) simp
  then show "overlap_at gap es (te_from_ms e) \<le> peak_overlap gap (es @ fs)"
    by (simp add: overlap_at_append)
qed

lemma pack_step_peak:
  assumes inv: "packing gap ends events" and gap: "0 \<le> gap"
    and bar: "bar_from w d < bar_to w d"
    and old: "\<And>e. e \<in> set events \<Longrightarrow> te_from_ms e \<le> bar_from w d"
    and full: "length ends \<le> peak_overlap gap events"
    and step: "pack_step w gap (ends, events) d = (ends', events')"
  shows "length ends' \<le> peak_overlap gap events'"
proof (cases "find_index (\<lambda>end. end + gap \<le> bar_from w d) ends")
  case (Some i)
  with step have "length ends' = length ends" "events' = events @ [bar_event w d i]"
    by (auto simp: pack_step_def)
  then show ?thesis using full peak_overlap_mono [of gap events "[bar_event w d i]"] by simp
next
  case None
  let ?t = "bar_from w d" and ?new = "bar_event w d (length ends)"
  from None step have e: "ends' = ends @ [bar_to w d]" "events' = events @ [?new]"
    by (auto simp: pack_step_def)
  have busy: "?t < ends ! l + gap" if "l < length ends" for l
    using None that by (force simp: find_index_None_iff not_le)
  have "{..<length ends} \<subseteq> te_lane ` set (filter (covers gap ?t) events)"
  proof
    fix l assume "l \<in> {..<length ends}"
    moreover then obtain e where "e \<in> set events" "te_lane e = l" "te_to_ms e = ends ! l"
      using inv by (auto simp: packing_def)
    ultimately show "l \<in> te_lane ` set (filter (covers gap ?t) events)"
      using busy old by (auto simp: covers_def)
  qed
  then have "length ends \<le> card (te_lane ` set (filter (covers gap ?t) events))"
    using card_mono [of "te_lane ` set (filter (covers gap ?t) events)" "{..<length ends}"] by simp
  also have "\<dots> \<le> overlap_at gap events ?t"
    unfolding overlap_at_def by (metis List.finite_set card_image_le card_length le_trans)
  finally have "length ends + 1 \<le> overlap_at gap events' ?t"
    using bar gap e by (simp add: overlap_at_append) (simp add: overlap_at_def covers_def)
  also have "\<dots> \<le> peak_overlap gap events'"
    using peak_overlap_ge [of ?new events' gap] e by simp
  finally show ?thesis using e by simp
qed

lemma pack_step_events: "\<exists>l. snd (pack_step w gap st d) = snd st @ [bar_event w d l]"
  by (auto simp: pack_step_def Let_def split: prod.split option.split)

lemma packing_loop:
  assumes w: "tw_start_ms w < tw_end_ms w" and gap: "0 \<le> gap"
  shows "sorted_wrt (\<lambda>a b. dt_first a \<le> dt_first b) ds \<Longrightarrow>
    (\<forall>d \<in> set ds. dt_first d < tw_end_ms w) \<Longrightarrow>
    foldl (pack_step w gap) ([], []) ds = (ends, events) \<Longrightarrow>
    packing gap ends events \<and> length ends \<le> peak_overlap gap events \<and>
    map te_track events = map dt_track ds \<and> map te_from_ms events = map (bar_from w) ds"
proof (induction ds arbitrary: ends events rule: rev_induct)
  case Nil
  then show ?case by (simp add: packing_def)
next
  case (snoc d ds)
  obtain ends0 events0 where st: "foldl (pack_step w gap) ([], []) ds = (ends0, events0)"
    by fastforce
  then have step: "pack_step w gap (ends0, events0) d = (ends, events)" using snoc.prems by simp
  have ih: "packing gap ends0 events0" "length ends0 \<le> peak_overlap gap events0"
    "map te_track events0 = map dt_track ds" "map te_from_ms events0 = map (bar_from w) ds"
    using snoc.IH [OF _ _ st] snoc.prems by (simp_all add: sorted_wrt_append)
  have bar: "bar_from w d < bar_to w d" using bar_not_empty w snoc.prems by simp
  have "te_from_ms e \<le> bar_from w d" if "e \<in> set events0" for e
  proof -
    have "te_from_ms e \<in> set (map (bar_from w) ds)" using that ih(4) by (metis image_eqI set_map)
    then show ?thesis using snoc.prems by (auto simp: sorted_wrt_append bar_from_def)
  qed
  note 1 = pack_step_packing [OF ih(1) gap bar step] pack_step_peak [OF ih(1) gap bar this ih(2) step]
  obtain l where "events = events0 @ [bar_event w d l]"
    using pack_step_events [of w gap "(ends0, events0)" d] step by auto
  then show ?case using 1 ih by (simp add: bar_event_def)
qed

lemma dated_cmp_consistent: "consistent_cmp dated_cmp A"
  by (auto simp: consistent_cmp_def dated_cmp_def)

lemma ordered_tracks_sorted:
  "sorted_wrt (\<lambda>a b. dt_first a \<le> dt_first b) (ordered_tracks tracks w)"
  "\<forall>d \<in> set (ordered_tracks tracks w). dt_first d < tw_end_ms w"
proof -
  have "sorted_wrt (in_order dated_cmp) (ordered_tracks tracks w)"
    unfolding ordered_tracks_def by (rule sorted_js_sort [OF dated_cmp_consistent])
  then show "sorted_wrt (\<lambda>a b. dt_first a \<le> dt_first b) (ordered_tracks tracks w)"
    by (rule sorted_wrt_mono_rel [rotated]) (auto simp: in_order_def dated_cmp_def split: if_splits)
qed (simp add: ordered_tracks_def)

lemma pack_lanes_packing:
  assumes "tw_start_ms w < tw_end_ms w" "0 \<le> gap"
  obtains ends where "packing gap ends (pack_lanes tracks w gap)"
    "length ends \<le> peak_overlap gap (pack_lanes tracks w gap)"
    "map te_track (pack_lanes tracks w gap) = map dt_track (ordered_tracks tracks w)"
proof -
  obtain ends events where "foldl (pack_step w gap) ([], []) (ordered_tracks tracks w) = (ends, events)"
    by fastforce
  then show thesis
    using packing_loop [OF assms ordered_tracks_sorted, of tracks ends events] that [of ends]
    by (simp add: pack_lanes_def)
qed

section \<open>Rows of the axis\<close>

lemma tick_step_pos: "0 < tick_step w target" "tick_step w target \<le> coarsest_ms"
  by (auto simp: tick_step_def tick_candidates_def minute_ms_def coarsest_ms_def split: if_splits)

lemma tick_step_fits:
  assumes "tw_end_ms w - tw_start_ms w \<le> target * coarsest_ms"
  shows "tw_end_ms w - tw_start_ms w \<le> target * tick_step w target"
proof (cases "find (\<lambda>c. real_of_int (tw_end_ms w - tw_start_ms w) / real_of_int c \<le> real_of_int target)
    tick_candidates")
  case None
  then show ?thesis using assms by (simp add: tick_step_def)
next
  case (Some c)
  then have "real_of_int (tw_end_ms w - tw_start_ms w) / real_of_int c \<le> real_of_int target"
    and "c \<in> set tick_candidates" by (auto simp only: find_Some_iff nth_mem)
  moreover from this(2) have "0 < c" by (auto simp: tick_candidates_def minute_ms_def coarsest_ms_def)
  ultimately have "real_of_int (tw_end_ms w - tw_start_ms w) \<le> real_of_int (target * c)"
    by (simp add: field_simps)
  then show ?thesis using Some by (simp only: tick_step_def nullish_simps of_int_le_iff)
qed

lemma first_multiple:
  assumes "0 < s"
  shows "x \<le> \<lceil>real_of_int x / real_of_int s\<rceil> * s" (is ?first)
    and "x \<le> k * s \<Longrightarrow> \<lceil>real_of_int x / real_of_int s\<rceil> * s \<le> k * s"
proof -
  have s: "0 < real_of_int s" using assms by simp
  have "real_of_int x \<le> real_of_int \<lceil>real_of_int x / real_of_int s\<rceil> * real_of_int s"
    using le_of_int_ceiling [of "real_of_int x / real_of_int s"] by (simp only: pos_divide_le_eq [OF s])
  then show ?first by (simp only: of_int_le_iff flip: of_int_mult)
  assume "x \<le> k * s"
  then have "real_of_int x \<le> real_of_int k * real_of_int s" by (simp only: of_int_le_iff flip: of_int_mult)
  then have "real_of_int x / real_of_int s \<le> real_of_int k" by (simp only: pos_divide_le_eq [OF s])
  then have "\<lceil>real_of_int x / real_of_int s\<rceil> \<le> k" by (rule ceiling_le)
  then show "\<lceil>real_of_int x / real_of_int s\<rceil> * s \<le> k * s" using assms by simp
qed

lemma set_tick_loop:
  "0 < step \<Longrightarrow> set (tick_loop step limit t) = {u. t \<le> u \<and> u < limit \<and> step dvd u - t}"
proof (induction step limit t rule: tick_loop.induct)
  case (1 step limit t)
  show ?case
  proof (cases "t < limit")
    case True
    have "t \<le> u \<and> step dvd u - t \<longleftrightarrow> u = t \<or> t + step \<le> u \<and> step dvd u - (t + step)" for u
    proof -
      have "step dvd u - t \<longleftrightarrow> step dvd u - (t + step)"
        by (metis diff_diff_eq dvd_refl dvd_diff_right_iff dvd_diff_left_iff)
      moreover have "step dvd u - t \<Longrightarrow> t \<le> u \<Longrightarrow> u \<noteq> t \<Longrightarrow> t + step \<le> u"
        using zdvd_imp_le [of step "u - t"] by simp
      ultimately show ?thesis using "1.prems" by auto
    qed
    then show ?thesis using 1 True by (subst tick_loop.simps) (auto simp: conj_ac)
  qed (use "1.prems" in \<open>subst tick_loop.simps, auto\<close>)
qed

lemma sorted_tick_loop: "0 < step \<Longrightarrow> sorted_wrt (<) (tick_loop step limit t)"
proof (induction step limit t rule: tick_loop.induct)
  case (1 step limit t)
  then show ?case by (subst tick_loop.simps) (auto simp: set_tick_loop)
qed

lemma length_tick_loop:
  "0 < step \<Longrightarrow> limit \<le> t + n * step \<Longrightarrow> 0 \<le> n \<Longrightarrow> int (length (tick_loop step limit t)) \<le> n"
proof (induction step limit t arbitrary: n rule: tick_loop.induct)
  case (1 step limit t)
  show ?case
  proof (cases "t < limit")
    case True
    then have "0 < n" using "1.prems" by (cases "n = 0") auto
    then have "int (length (tick_loop step limit (t + step))) \<le> n - 1"
      using "1.prems" True by (intro "1.IH") (auto simp: algebra_simps)
    then show ?thesis using True "1.prems" by (subst tick_loop.simps) simp
  qed (use "1.prems" in \<open>subst tick_loop.simps, simp\<close>)
qed

section \<open>Properties\<close>

text \<open>C10: The packing is optimal: on a window that is not empty the timeline uses exactly as many
  lanes as the largest number of bars that hold one instant, a bar holding the instants from its
  start until its gap has passed; two bars of a lane are always at least the gap apart; and every
  track of the window with readable times has exactly one bar, in the order of first sight.\<close>

theorem packing_is_optimal:
  assumes "tw_start_ms w < tw_end_ms w" and "0 \<le> gap"
  shows "lane_count (pack_lanes tracks w gap) = peak_overlap gap (pack_lanes tracks w gap) \<and>
    sorted_wrt (kept_apart gap) (pack_lanes tracks w gap) \<and>
    map te_track (pack_lanes tracks w gap) = map dt_track (ordered_tracks tracks w)"
proof -
  obtain ends where p: "packing gap ends (pack_lanes tracks w gap)"
    "length ends \<le> peak_overlap gap (pack_lanes tracks w gap)"
    "map te_track (pack_lanes tracks w gap) = map dt_track (ordered_tracks tracks w)"
    by (rule pack_lanes_packing [OF assms])
  then show ?thesis
    using peak_overlap_le [OF overlap_le_lanes [OF p(1)]] lane_count_eq [OF p(1)]
    by (simp add: packing_def)
qed

definition seen_between :: "string \<Rightarrow> string \<Rightarrow> track" where
  "seen_between a b = sample_track\<lparr> trk_first_seen := a, trk_last_seen := b \<rparr>"

theorem packing_is_optimal_witness:
  "\<exists>tracks. lane_count (pack_lanes tracks \<lparr> tw_start_ms = 0, tw_end_ms = 86400000 \<rparr> 60000) =
      peak_overlap 60000 (pack_lanes tracks \<lparr> tw_start_ms = 0, tw_end_ms = 86400000 \<rparr> 60000) \<and>
    lane_count (pack_lanes tracks \<lparr> tw_start_ms = 0, tw_end_ms = 86400000 \<rparr> 60000) = 2"
proof (intro exI conjI)
  let ?ts = "[seen_between ''1970-01-01T01:00:00Z'' ''1970-01-01T02:00:00Z'',
      seen_between ''1970-01-01T01:30:00Z'' ''1970-01-01T03:00:00Z'',
      seen_between ''1970-01-01T02:30:00Z'' ''1970-01-01T04:00:00Z'']"
  show "lane_count (pack_lanes ?ts \<lparr> tw_start_ms = 0, tw_end_ms = 86400000 \<rparr> 60000) =
      peak_overlap 60000 (pack_lanes ?ts \<lparr> tw_start_ms = 0, tw_end_ms = 86400000 \<rparr> 60000)"
    by (rule packing_is_optimal [THEN conjunct1]) simp_all
  show "lane_count (pack_lanes ?ts \<lparr> tw_start_ms = 0, tw_end_ms = 86400000 \<rparr> 60000) = 2"
    by code_simp
qed

text \<open>The axis marks exactly the multiples of its step that lie in the window, in order, and no
  more of them than were asked for unless the window is longer than that many weeks.\<close>

theorem ticks_mark_the_axis:
  "sorted_wrt (<) (ticks w target) \<and>
   set (ticks w target) = {t. tw_start_ms w \<le> t \<and> t < tw_end_ms w \<and> tick_step w target dvd t} \<and>
   (target * coarsest_ms < tw_end_ms w - tw_start_ms w \<or> target < 0 \<or>
    int (length (ticks w target)) \<le> target)"
proof (cases "tw_end_ms w - tw_start_ms w \<le> 0")
  case True
  then show ?thesis by (auto simp: ticks_def)
next
  case False
  let ?s = "tick_step w target"
  let ?t = "\<lceil>real_of_int (tw_start_ms w) / real_of_int ?s\<rceil> * ?s"
  have s: "0 < ?s" by (rule tick_step_pos)
  have t: "ticks w target = tick_loop ?s (tw_end_ms w) ?t" using False by (simp add: ticks_def Let_def)
  note first = first_multiple(1) [OF s, of "tw_start_ms w"]
  note least = first_multiple(2) [OF s, of "tw_start_ms w"]
  have "set (ticks w target) = {t. tw_start_ms w \<le> t \<and> t < tw_end_ms w \<and> ?s dvd t}"
  proof -
    have "?t \<le> u \<and> ?s dvd u - ?t \<longleftrightarrow> tw_start_ms w \<le> u \<and> ?s dvd u" for u
    proof -
      have "?s dvd u - ?t \<longleftrightarrow> ?s dvd u" by (simp add: dvd_diff_left_iff)
      moreover have "?s dvd u \<Longrightarrow> tw_start_ms w \<le> u \<Longrightarrow> ?t \<le> u"
        using least by (metis dvdE mult.commute)
      ultimately show ?thesis using first by auto
    qed
    then show ?thesis unfolding t set_tick_loop [OF s] by blast
  qed
  moreover have "int (length (ticks w target)) \<le> target"
    if "\<not> target * coarsest_ms < tw_end_ms w - tw_start_ms w" "\<not> target < 0"
  proof -
    have "tw_end_ms w - tw_start_ms w \<le> target * ?s" using that by (intro tick_step_fits) simp
    then show ?thesis unfolding t using s first that by (intro length_tick_loop) simp_all
  qed
  ultimately show ?thesis using sorted_tick_loop [OF s] unfolding t by blast
qed

text \<open>A pointer position on the timeline and the time it stands for are inverse to each other
  inside the window, and no position leads outside it.\<close>

theorem time_at_fraction_at:
  assumes "real_of_int (tw_start_ms w) \<le> ms" "ms \<le> real_of_int (tw_end_ms w)"
    and "tw_start_ms w < tw_end_ms w"
  shows "time_at w (fraction_at w ms) = ms \<and>
    real_of_int (tw_start_ms w) \<le> time_at w f \<and> time_at w f \<le> real_of_int (tw_end_ms w)"
proof -
  let ?a = "real_of_int (tw_start_ms w)" and ?b = "real_of_int (tw_end_ms w)"
  have lt: "?a < ?b" using assms(3) by simp
  have "0 \<le> (ms - ?a) / (?b - ?a)" "(ms - ?a) / (?b - ?a) \<le> 1"
    using assms lt by (simp_all add: divide_le_eq)
  then have "time_at w (fraction_at w ms) = ms"
    using lt assms(3) by (simp add: time_at_def fraction_at_def Let_def)
  moreover define x where "x = min 1 (max 0 f) * (?b - ?a)"
  moreover have "0 \<le> x" unfolding x_def using lt by (intro mult_nonneg_nonneg) simp_all
  moreover have "x \<le> 1 * (?b - ?a)" unfolding x_def using lt by (intro mult_right_mono) simp_all
  moreover have "time_at w f = ?a + x"
    using assms(3) by (simp add: time_at_def Let_def x_def)
  ultimately show ?thesis by auto
qed

theorem time_at_fraction_at_witness:
  "time_at \<lparr> tw_start_ms = 1000, tw_end_ms = 5000 \<rparr>
     (fraction_at \<lparr> tw_start_ms = 1000, tw_end_ms = 5000 \<rparr> 2000) = 2000"
  by (rule time_at_fraction_at [THEN conjunct1]) simp_all

end
