(* ===== verification/SearchResolver.thy ===== *)
theory SearchResolver
  imports ApiTypes "HOL-Library.AList" "HOL-Library.Sublist"
begin

text \<open>
  \<open>components/layout/search-resolver.ts\<close>: what a string typed in the header means.
  \<open>localeCompare\<close> is the argument \<open>lc\<close>. Insertion-ordered \<open>Map\<close>s are association lists.
\<close>

section \<open>Hits\<close>

datatype search_hit_kind = HitTrack | HitSerial | HitLabel | HitMac | HitSensor

datatype search_target = ToTrack string | ToFlights string | ToSensor string

record search_hit =
  hit_id :: string
  hit_kind :: search_hit_kind
  hit_label :: string
  hit_detail :: "string option"
  hit_target :: search_target

fun search_kind_label :: "search_hit_kind \<Rightarrow> string" where
  "search_kind_label HitTrack = ''Flight''"
| "search_kind_label HitSerial = ''Serial''"
| "search_kind_label HitLabel = ''Aircraft''"
| "search_kind_label HitMac = ''MAC''"
| "search_kind_label HitSensor = ''Sensor''"

record serial_entry =
  se_value :: string
  se_vendor :: "string option"
  se_label :: "string option"

record mac_entry =
  me_value :: string
  me_vendor :: "string option"

record sensor_entry =
  sn_id :: string
  sn_kind :: "string option"

record search_index =
  si_track_ids :: "string list"
  si_serials :: "serial_entry list"
  si_macs :: "mac_entry list"
  si_sensors :: "sensor_entry list"

definition ulid_char :: "char \<Rightarrow> bool" where
  "ulid_char c \<longleftrightarrow> to_lower [c] \<in> (\<lambda>d. [d]) ` set ''0123456789abcdefghjkmnpqrstvwxyz''"

definition is_ulid :: "string \<Rightarrow> bool" where
  "is_ulid s \<longleftrightarrow> length s = 26 \<and> list_all ulid_char s"

definition rank_of :: "string \<Rightarrow> string \<Rightarrow> nat option" where
  "rank_of needle haystack =
     (let hay = to_lower haystack
      in if hay = needle then Some 0
         else if starts_with hay needle then Some 1
         else if js_includes hay needle then Some 2 else None)"

definition normalise_mac :: "string \<Rightarrow> string" where
  "normalise_mac value =
     to_lower (filter (\<lambda>c. c \<notin> set '':-.'' \<and> \<not> is_space c) value)"

fun kind_order :: "search_hit_kind \<Rightarrow> nat" where
  "kind_order HitTrack = 0"
| "kind_order HitSerial = 1"
| "kind_order HitLabel = 2"
| "kind_order HitMac = 3"
| "kind_order HitSensor = 4"

type_synonym ranked = "nat \<times> search_hit"

definition search_result_limit :: int where "search_result_limit = 8"

section \<open>Resolving\<close>

definition track_hit :: "string \<Rightarrow> string option \<Rightarrow> search_hit" where
  "track_hit track_id detail =
     \<lparr> hit_id = ''track:'' @ track_id, hit_kind = HitTrack, hit_label = track_id,
       hit_detail = detail, hit_target = ToTrack track_id \<rparr>"

text \<open>A typed ULID, offered whether or not the console has seen the track.\<close>

definition ulid_ranked :: "string \<Rightarrow> search_index \<Rightarrow> ranked list" where
  "ulid_ranked raw index =
     (if is_ulid raw
      then [(0, track_hit raw
        (if raw \<in> set (si_track_ids index) then None
         else Some (''not in this session'' @ [CHR 0xE2, CHR 0x80, CHR 0x99] @ ''s list'')))]
      else [])"

definition rank_track :: "string \<Rightarrow> string \<Rightarrow> string \<Rightarrow> ranked option" where
  "rank_track raw needle track_id =
     (if is_ulid raw \<and> to_lower track_id = needle then None
      else map_option (\<lambda>r. (r, track_hit track_id None)) (rank_of needle track_id))"

definition rank_serial :: "string \<Rightarrow> serial_entry \<Rightarrow> ranked option" where
  "rank_serial needle entry =
     (let serial_rank = rank_of needle (se_value entry);
          label_rank = (if truthy (se_label entry) then rank_of needle (nullish (se_label entry) []) else None);
          use_label = (case label_rank of None \<Rightarrow> False
            | Some l \<Rightarrow> (case serial_rank of None \<Rightarrow> True | Some s \<Rightarrow> l < s))
      in map_option (\<lambda>r. (r,
           \<lparr> hit_id = ''serial:'' @ se_value entry,
             hit_kind = (if use_label then HitLabel else HitSerial),
             hit_label = (if use_label then nullish (se_label entry) (se_value entry) else se_value entry),
             hit_detail = (if use_label then Some (se_value entry) else se_label entry),
             hit_target = ToFlights (se_value entry) \<rparr>))
         (if use_label then label_rank else serial_rank))"

definition rank_mac :: "string \<Rightarrow> mac_entry \<Rightarrow> ranked option" where
  "rank_mac mac_needle entry =
     map_option (\<lambda>r. (r,
         \<lparr> hit_id = ''mac:'' @ me_value entry, hit_kind = HitMac, hit_label = me_value entry,
           hit_detail = me_vendor entry, hit_target = ToFlights (me_value entry) \<rparr>))
       (rank_of mac_needle (normalise_mac (me_value entry)))"

definition rank_sensor :: "string \<Rightarrow> sensor_entry \<Rightarrow> ranked option" where
  "rank_sensor needle sensor =
     map_option (\<lambda>r. (r,
         \<lparr> hit_id = ''sensor:'' @ sn_id sensor, hit_kind = HitSensor, hit_label = sn_id sensor,
           hit_detail = sn_kind sensor, hit_target = ToSensor (sn_id sensor) \<rparr>))
       (rank_of needle (sn_id sensor))"

definition search_candidates :: "string \<Rightarrow> search_index \<Rightarrow> ranked list" where
  "search_candidates raw index =
     (let needle = to_lower raw
      in ulid_ranked raw index @
         List.map_filter (rank_track raw needle) (si_track_ids index) @
         List.map_filter (rank_serial needle) (si_serials index) @
         List.map_filter (rank_mac (normalise_mac raw)) (si_macs index) @
         List.map_filter (rank_sensor needle) (si_sensors index))"

definition ranked_cmp :: "(string \<Rightarrow> string \<Rightarrow> int) \<Rightarrow> ranked \<Rightarrow> ranked \<Rightarrow> int" where
  "ranked_cmp lc a b =
     (let by_rank = int (fst a) - int (fst b);
          by_kind = int (kind_order (hit_kind (snd a))) - int (kind_order (hit_kind (snd b)))
      in if by_rank \<noteq> 0 then by_rank else if by_kind \<noteq> 0 then by_kind
         else lc (hit_label (snd a)) (hit_label (snd b)))"

text \<open>The last loop: the hits pushed so far stand for \<open>seen\<close> too. The limit is looked at after a
  push.\<close>

fun take_hits :: "int \<Rightarrow> ranked list \<Rightarrow> search_hit list \<Rightarrow> search_hit list" where
  "take_hits limit [] hits = hits"
| "take_hits limit ((_, h) # rest) hits =
     (if hit_id h \<in> set (map hit_id hits) then take_hits limit rest hits
      else let hits' = hits @ [h]
           in if limit \<le> int (length hits') then hits' else take_hits limit rest hits')"

definition resolve_search ::
  "(string \<Rightarrow> string \<Rightarrow> int) \<Rightarrow> string \<Rightarrow> search_index \<Rightarrow> int \<Rightarrow> search_hit list" where
  "resolve_search lc query index limit =
     (let raw = trim query
      in if raw = [] then []
         else take_hits limit (js_sort (ranked_cmp lc) (search_candidates raw index)) [])"

section \<open>The index\<close>

definition labels_by_serial :: "aircraft_label list \<Rightarrow> (string \<times> string) list" where
  "labels_by_serial labels =
     fold (\<lambda>l m. if al_label l \<noteq> [] then AList.update (al_serial l) (al_label l) m else m) labels []"

definition index_serial ::
  "(string \<times> string) list \<Rightarrow> track \<Rightarrow> serial_entry list \<Rightarrow> serial_entry list" where
  "index_serial labels t serials =
     (case trk_serial t of
        None \<Rightarrow> serials
      | Some serial \<Rightarrow>
          if serial \<noteq> [] \<and> serial \<notin> set (map se_value serials)
          then serials @ [\<lparr> se_value = serial,
            se_vendor = (if truthy (trk_vendor t) then trk_vendor t else None),
            se_label = map_of labels serial \<rparr>]
          else serials)"

definition index_macs :: "track \<Rightarrow> mac_entry list \<Rightarrow> mac_entry list" where
  "index_macs t macs =
     fold (\<lambda>mac ms. if mac = [] \<or> mac \<in> set (map me_value ms) then ms
        else ms @ [\<lparr> me_value = mac, me_vendor = (if truthy (trk_vendor t) then trk_vendor t else None) \<rparr>])
       (trk_macs t) macs"

definition index_label :: "string \<times> string \<Rightarrow> serial_entry list \<Rightarrow> serial_entry list" where
  "index_label sl serials =
     (if fst sl \<notin> set (map se_value serials)
      then serials @ [\<lparr> se_value = fst sl, se_vendor = None, se_label = Some (snd sl) \<rparr>]
      else serials)"

definition build_search_index ::
  "track list \<Rightarrow> aircraft_label list \<Rightarrow> sensor_health list \<Rightarrow> search_index" where
  "build_search_index tracks labels sensors =
     (let by_serial = labels_by_serial labels;
          serials = fold (index_serial by_serial) tracks []
      in \<lparr> si_track_ids = map trk_track_id tracks,
           si_serials = fold index_label by_serial serials,
           si_macs = fold index_macs tracks [],
           si_sensors = map (\<lambda>s. \<lparr> sn_id = sh_sensor_id s, sn_kind = Some (kind_text (sh_sensor_kind s)) \<rparr>)
             sensors \<rparr>)"

section \<open>Ranking\<close>

lemma ranked_cmp_consistent:
  assumes "collates lc UNIV"
  shows "consistent_cmp (ranked_cmp lc) A"
  unfolding consistent_cmp_def
proof (intro conjI ballI impI)
  fix x y assume "0 < ranked_cmp lc x y"
  then show "\<not> 0 < ranked_cmp lc y x"
    using collatesD(1) [OF assms, of "hit_label (snd x)" "hit_label (snd y)"]
    by (auto simp: ranked_cmp_def Let_def split: if_splits)
next
  fix x y z assume "\<not> 0 < ranked_cmp lc x y" "\<not> 0 < ranked_cmp lc y z"
  then show "\<not> 0 < ranked_cmp lc x z"
    using collatesD(3) [OF assms, of "hit_label (snd x)" "hit_label (snd y)" "hit_label (snd z)"]
    by (auto simp: ranked_cmp_def Let_def not_less split: if_splits)
qed

text \<open>What the last loop keeps of a sorted list.\<close>

lemma take_hits_keeps:
  "\<exists>ys. take_hits limit xs acc = acc @ map snd ys \<and> subseq ys xs"
proof (induction xs arbitrary: acc)
  case Nil
  then show ?case by simp
next
  case (Cons x xs)
  obtain r h where x: "x = (r, h)" by (cases x)
  obtain ys zs where "take_hits limit xs acc = acc @ map snd ys" "subseq ys xs"
    "take_hits limit xs (acc @ [h]) = (acc @ [h]) @ map snd zs" "subseq zs xs"
    using Cons.IH [of acc] Cons.IH [of "acc @ [h]"] by metis
  then have "take_hits limit (x # xs) acc \<in> {acc @ map snd ys, acc @ map snd [x], acc @ map snd (x # zs)}"
    "subseq ys (x # xs)" "subseq [x] (x # xs)" "subseq (x # zs) (x # xs)"
    by (auto simp: x Let_def)
  then show ?case by blast
qed

lemma subseq_subset: "subseq xs ys \<Longrightarrow> set xs \<subseteq> set ys"
  by (induction rule: list_emb.induct) auto

lemma take_hits_distinct:
  "distinct (map hit_id acc) \<Longrightarrow> distinct (map hit_id (take_hits limit xs acc))"
  by (induction limit xs acc rule: take_hits.induct) (auto simp: Let_def)

lemma take_hits_length:
  "int (length acc) < max 1 limit \<Longrightarrow> int (length (take_hits limit xs acc)) \<le> max 1 limit"
  by (induction limit xs acc rule: take_hits.induct) (auto simp: Let_def)

lemma take_hits_extends: "set acc \<subseteq> set (take_hits limit xs acc)"
  by (induction limit xs acc rule: take_hits.induct) (auto simp: Let_def)

lemma take_hits_complete:
  "sorted_wrt R xs \<Longrightarrow> x \<in> set xs \<Longrightarrow>
    hit_id (snd x) \<notin> hit_id ` set (take_hits limit xs acc) \<Longrightarrow>
    limit \<le> int (length (take_hits limit xs acc)) \<and>
    (\<forall>h \<in> set (take_hits limit xs acc). h \<in> set acc \<or> (\<exists>y \<in> set xs. snd y = h \<and> R y x))"
proof (induction xs arbitrary: acc)
  case (Cons w xs)
  obtain r h where w: "w = (r, h)" by (cases w)
  show ?case
  proof (cases "hit_id h \<in> set (map hit_id acc)")
    case True
    then have t: "take_hits limit (w # xs) acc = take_hits limit xs acc" by (simp add: w)
    have "x \<noteq> w"
    proof
      assume "x = w"
      then show False using Cons.prems(3) True take_hits_extends [of acc limit xs] unfolding t
        by (auto simp: w)
    qed
    then show ?thesis using Cons.IH [of acc] Cons.prems unfolding t by auto
  next
    case False
    let ?acc = "acc @ [h]"
    show ?thesis
    proof (cases "limit \<le> int (length ?acc)")
      case True
      then have t: "take_hits limit (w # xs) acc = ?acc" using False by (simp add: w Let_def)
      then have "x \<noteq> w" using Cons.prems(3) by (auto simp: w)
      then have "R w x" using Cons.prems by auto
      then show ?thesis using True unfolding t by (auto simp: w)
    next
      case no: False
      then have t: "take_hits limit (w # xs) acc = take_hits limit xs ?acc"
        using False by (simp add: w Let_def)
      have ne: "x \<noteq> w" using Cons.prems(3) take_hits_extends [of ?acc limit xs] unfolding t
        by (auto simp: w)
      then have "R w x" using Cons.prems by auto
      moreover have "limit \<le> int (length (take_hits limit xs ?acc)) \<and>
        (\<forall>h \<in> set (take_hits limit xs ?acc). h \<in> set ?acc \<or> (\<exists>y \<in> set xs. snd y = h \<and> R y x))"
        using Cons.prems ne unfolding t by (intro Cons.IH) auto
      ultimately show ?thesis unfolding t by (auto simp: w)
    qed
  qed
qed simp

section \<open>The candidates\<close>

lemma map_filter_iff: "y \<in> set (List.map_filter f xs) \<longleftrightarrow> (\<exists>x \<in> set xs. f x = Some y)"
  by (induction xs) (auto simp: List.map_filter_simps split: option.splits)

lemma rank_shapes:
  "rank_track raw n t = Some c \<Longrightarrow> snd c = track_hit t None \<and> \<not> (is_ulid raw \<and> to_lower t = n)"
  "rank_serial n se = Some c \<Longrightarrow> hit_kind (snd c) \<in> {HitSerial, HitLabel} \<and> hit_target (snd c) = ToFlights (se_value se)"
  "rank_mac n me = Some c \<Longrightarrow> hit_kind (snd c) = HitMac \<and> hit_target (snd c) = ToFlights (me_value me)"
  "rank_sensor n sn = Some c \<Longrightarrow> hit_kind (snd c) = HitSensor \<and> hit_target (snd c) = ToSensor (sn_id sn)"
  by (auto simp: rank_track_def rank_serial_def rank_mac_def rank_sensor_def Let_def split: if_splits)

lemma rank_track_weaker:
  "is_ulid raw \<Longrightarrow> rank_track raw (to_lower raw) t = Some c \<Longrightarrow> 0 < fst c"
  by (auto simp: rank_track_def rank_of_def Let_def split: if_splits)

lemma search_candidates_cases:
  assumes "c \<in> set (search_candidates raw index)"
  shows "c \<in> set (ulid_ranked raw index) \<or>
    (\<exists>t. rank_track raw (to_lower raw) t = Some c) \<or>
    hit_kind (snd c) \<noteq> HitTrack \<and> (\<forall>t. hit_target (snd c) \<noteq> ToTrack t)"
proof -
  have "c \<in> set (ulid_ranked raw index) \<or> (\<exists>t. rank_track raw (to_lower raw) t = Some c) \<or>
    (\<exists>e. rank_serial (to_lower raw) e = Some c) \<or> (\<exists>e. rank_mac (normalise_mac raw) e = Some c) \<or>
    (\<exists>e. rank_sensor (to_lower raw) e = Some c)"
    using assms by (auto simp: search_candidates_def Let_def map_filter_iff)
  then show ?thesis by (auto dest!: rank_shapes(2-4))
qed

lemma kind_order_pos: "k \<noteq> HitTrack \<Longrightarrow> 0 < kind_order k"
  by (cases k) auto

lemma resolve_search_hits:
  assumes "h \<in> set (resolve_search lc q index limit)"
  shows "\<exists>c \<in> set (search_candidates (trim q) index). snd c = h"
proof (cases "trim q = []")
  case False
  let ?xs = "js_sort (ranked_cmp lc) (search_candidates (trim q) index)"
  obtain ys where "take_hits limit ?xs [] = map snd ys" "subseq ys ?xs"
    using take_hits_keeps [of limit ?xs "[]"] by auto
  moreover have "set ys \<subseteq> set ?xs" using calculation(2) by (rule subseq_subset)
  ultimately show ?thesis using assms False by (auto simp: resolve_search_def Let_def)
qed (use assms in \<open>simp add: resolve_search_def\<close>)

section \<open>What the index holds\<close>

lemma fold_invariant:
  "P a \<Longrightarrow> (\<And>x b. x \<in> set xs \<Longrightarrow> P b \<Longrightarrow> P (f x b)) \<Longrightarrow> P (fold f xs a)"
  by (induction xs arbitrary: a) auto

text \<open>The operator's last label that is not empty.\<close>

definition last_label :: "aircraft_label list \<Rightarrow> string \<Rightarrow> string option" where
  "last_label labels s =
     map_option al_label (find (\<lambda>l. al_serial l = s \<and> al_label l \<noteq> []) (rev labels))"

lemma labels_by_serial_distinct: "distinct (map fst (labels_by_serial labels))"
  unfolding labels_by_serial_def by (rule fold_invariant) (auto simp: distinct_update)

lemma map_of_labels_by_serial: "map_of (labels_by_serial labels) s = last_label labels s"
  unfolding labels_by_serial_def last_label_def
  by (induction labels rule: rev_induct) (auto simp: update_conv')

lemma labels_by_serial_keys:
  "fst ` set (labels_by_serial labels) = al_serial ` {l \<in> set labels. al_label l \<noteq> []}"
proof -
  have "s \<in> dom (map_of (labels_by_serial labels)) \<longleftrightarrow> (\<exists>l \<in> set labels. al_serial l = s \<and> al_label l \<noteq> [])" for s
    by (auto simp: map_of_labels_by_serial last_label_def domIff find_None_iff)
  then show ?thesis unfolding dom_map_of_conv_image_fst [symmetric] by (intro set_eqI) auto
qed

lemma index_macs_distinct: "distinct (map me_value ms) \<Longrightarrow> distinct (map me_value (index_macs t ms))"
  unfolding index_macs_def by (rule fold_invariant) auto

lemma fold_macs_set:
  "me_value ` set (fold (\<lambda>mac ms. if mac = [] \<or> mac \<in> set (map me_value ms) then ms
      else ms @ [\<lparr> me_value = mac, me_vendor = v \<rparr>]) macs ms) = me_value ` set ms \<union> (set macs - {[]})"
  by (induction macs arbitrary: ms) auto

lemma index_macs_values:
  "me_value ` set (index_macs t ms) = me_value ` set ms \<union> (set (trk_macs t) - {[]})"
  unfolding index_macs_def by (rule fold_macs_set)

lemma index_macs_set:
  "me_value ` set (fold index_macs tracks ms) =
     me_value ` set ms \<union> ((\<Union>t \<in> set tracks. set (trk_macs t)) - {[]})"
  by (induction tracks arbitrary: ms) (auto simp: index_macs_values)

definition labelled_by :: "(string \<times> string) list \<Rightarrow> serial_entry list \<Rightarrow> bool" where
  "labelled_by labels serials \<longleftrightarrow> distinct (map se_value serials) \<and>
     list_all (\<lambda>e. se_label e = map_of labels (se_value e)) serials"

lemma index_serial_labelled:
  "labelled_by labels serials \<Longrightarrow> labelled_by labels (fold (index_serial labels) tracks serials)"
  by (rule fold_invariant) (auto simp: labelled_by_def index_serial_def split: option.splits)

lemma index_serial_values:
  "se_value ` set (index_serial labels t serials) =
     se_value ` set serials \<union> {s. s \<noteq> [] \<and> Some s = trk_serial t}"
  by (cases "trk_serial t") (auto simp: index_serial_def)

lemma index_serial_set:
  "se_value ` set (fold (index_serial labels) tracks serials) =
     se_value ` set serials \<union> {s. s \<noteq> [] \<and> Some s \<in> trk_serial ` set tracks}"
  by (induction tracks arbitrary: serials) (auto simp: index_serial_values)

lemma index_label_labelled:
  assumes "distinct (map fst labels)" "labelled_by labels serials"
  shows "labelled_by labels (fold index_label labels serials)"
proof (rule fold_invariant [of "labelled_by labels", OF assms(2)])
  fix x b assume "x \<in> set labels" "labelled_by labels b"
  moreover have "map_of labels (fst x) = Some (snd x)"
    using assms(1) \<open>x \<in> set labels\<close> by (metis map_of_is_SomeI prod.collapse)
  ultimately show "labelled_by labels (index_label x b)"
    by (auto simp: labelled_by_def index_label_def)
qed

lemma index_label_set:
  "se_value ` set (fold index_label labels serials) = se_value ` set serials \<union> fst ` set labels"
  by (induction labels arbitrary: serials) (auto simp: index_label_def)

section \<open>Properties\<close>

text \<open>The list under the search box is the best of what is known: with a total
  \<open>localeCompare\<close> no two rows share an id, there are at most \<open>limit\<close> rows (one at least is
  allowed), and a candidate whose id is missing was left out only because the list is full of
  candidates that rank no lower.\<close>

theorem search_keeps_the_best:
  assumes "collates lc UNIV"
  shows "distinct (map hit_id (resolve_search lc q index limit)) \<and>
    int (length (resolve_search lc q index limit)) \<le> max 1 limit \<and>
    (trim q = [] \<or> (\<forall>c \<in> set (search_candidates (trim q) index).
       hit_id (snd c) \<in> hit_id ` set (resolve_search lc q index limit) \<or>
       limit \<le> int (length (resolve_search lc q index limit)) \<and>
       (\<forall>h \<in> set (resolve_search lc q index limit).
          \<exists>b \<in> set (search_candidates (trim q) index). snd b = h \<and> in_order (ranked_cmp lc) b c)))"
proof (cases "trim q = []")
  case False
  let ?cs = "search_candidates (trim q) index"
  let ?xs = "js_sort (ranked_cmp lc) ?cs"
  have r: "resolve_search lc q index limit = take_hits limit ?xs []"
    using False by (simp add: resolve_search_def Let_def)
  have "sorted_wrt (in_order (ranked_cmp lc)) ?xs"
    by (rule sorted_js_sort [OF ranked_cmp_consistent [OF assms]])
  note complete = take_hits_complete [OF this, of _ limit "[]"]
  show ?thesis
    using complete take_hits_distinct [of "[]" limit ?xs] take_hits_length [of "[]" limit ?xs]
    unfolding r by auto
qed (simp add: resolve_search_def)

definition sample_index :: search_index where
  "sample_index = \<lparr> si_track_ids = [''01ARZ3NDEKTSV4RRFFQ69G5FAV''],
     si_serials = [\<lparr> se_value = ''1581F5B'', se_vendor = Some ''DJI'', se_label = Some ''Farm drone'' \<rparr>],
     si_macs = [\<lparr> me_value = ''a4:2b:b0:00:00:01'', me_vendor = None \<rparr>],
     si_sensors = [\<lparr> sn_id = ''wifi0'', sn_kind = Some ''wifi'' \<rparr>] \<rparr>"

theorem search_keeps_the_best_witness:
  "distinct (map hit_id (resolve_search code_unit_compare '' farm '' sample_index 8)) \<and>
   map hit_target (resolve_search code_unit_compare '' farm '' sample_index 8) = [ToFlights ''1581F5B'']"
proof
  show "distinct (map hit_id (resolve_search code_unit_compare '' farm '' sample_index 8))"
    by (rule search_keeps_the_best [THEN conjunct1]) (rule collates_code_unit_compare)
  show "map hit_target (resolve_search code_unit_compare '' farm '' sample_index 8) = [ToFlights ''1581F5B'']"
    by code_simp
qed

text \<open>A typed track id always comes first: with a total \<open>localeCompare\<close> a query that reads as a
  ULID has the flight of exactly that text as its first row, whatever the index holds. The same
  rule hides a known flight: when the text differs from the known id only in case, no row of the
  list leads to the known flight.\<close>

theorem pasted_ulid_comes_first:
  assumes "collates lc UNIV" and "is_ulid (trim q)"
  shows "(\<exists>rest. map hit_target (resolve_search lc q index limit) = ToTrack (trim q) # rest) \<and>
    (to_lower t = to_lower (trim q) \<and> t \<noteq> trim q \<longrightarrow>
       ToTrack t \<notin> hit_target ` set (resolve_search lc q index limit))"
proof
  let ?raw = "trim q"
  let ?cs = "search_candidates ?raw index"
  let ?xs = "js_sort (ranked_cmp lc) ?cs"
  have ne: "?raw \<noteq> []" using assms(2) by (auto simp: is_ulid_def)
  obtain d where d: "(0, track_hit ?raw d) \<in> set ?cs" "ulid_ranked ?raw index = [(0, track_hit ?raw d)]"
    using assms(2) by (auto simp: search_candidates_def Let_def ulid_ranked_def)
  have behind: "ranked_cmp lc c (0, track_hit ?raw d) > 0"
    if "c \<in> set ?cs" "c \<noteq> (0, track_hit ?raw d)" for c
  proof -
    have "0 < fst c \<or> 0 < kind_order (hit_kind (snd c))"
      using search_candidates_cases [OF that(1)]
    proof (elim disjE exE conjE)
      fix i assume "rank_track ?raw (to_lower ?raw) i = Some c"
      then show ?thesis using rank_track_weaker [OF assms(2)] by blast
    qed (use that(2) d(2) kind_order_pos in simp_all)
    then show ?thesis by (auto simp: ranked_cmp_def Let_def track_hit_def)
  qed
  have "0 < length ?xs" using length_pos_if_in_set [OF d(1)] by (simp only: length_js_sort)
  then obtain x xs where xs: "?xs = x # xs" by (auto simp only: length_greater_0_conv neq_Nil_conv)
  have srt: "sorted_wrt (in_order (ranked_cmp lc)) (x # xs)"
    unfolding xs [symmetric] by (rule sorted_js_sort [OF ranked_cmp_consistent [OF assms(1)]])
  have m: "set (x # xs) = set ?cs" unfolding xs [symmetric] by simp
  have x: "x \<in> set ?cs" unfolding m [symmetric] by simp
  have "(0, track_hit ?raw d) \<in> set (x # xs)" unfolding m by (rule d(1))
  then have "in_order (ranked_cmp lc) x (0, track_hit ?raw d) \<or> x = (0, track_hit ?raw d)"
    using srt by auto
  then have "x = (0, track_hit ?raw d)" using behind [OF x] by (auto simp: in_order_def)
  moreover have "\<exists>hs. take_hits limit xs [track_hit ?raw d] = track_hit ?raw d # hs"
    using take_hits_keeps [of limit xs "[track_hit ?raw d]"] by auto
  ultimately have "\<exists>rest. resolve_search lc q index limit = track_hit ?raw d # rest"
    using ne by (simp add: resolve_search_def Let_def xs)
  then show "\<exists>rest. map hit_target (resolve_search lc q index limit) = ToTrack ?raw # rest"
    by (auto simp: track_hit_def)
  show "to_lower t = to_lower ?raw \<and> t \<noteq> ?raw \<longrightarrow>
      ToTrack t \<notin> hit_target ` set (resolve_search lc q index limit)"
  proof (intro impI notI)
    assume t: "to_lower t = to_lower ?raw \<and> t \<noteq> ?raw"
      and "ToTrack t \<in> hit_target ` set (resolve_search lc q index limit)"
    then obtain c where c: "c \<in> set ?cs" "hit_target (snd c) = ToTrack t"
      by (auto dest!: resolve_search_hits)
    have "c \<in> set (ulid_ranked ?raw index) \<or>
        (\<exists>i. rank_track ?raw (to_lower ?raw) i = Some c)"
      using c search_candidates_cases [OF c(1)] by blast
    then show False
      using t c(2) d(2) assms(2) rank_shapes(1) [where c = c] by (auto simp: track_hit_def)
  qed
qed

theorem pasted_ulid_comes_first_witness:
  "ToTrack ''01ARZ3NDEKTSV4RRFFQ69G5FAV'' \<notin> hit_target `
     set (resolve_search code_unit_compare ''01arz3ndektsv4rrffq69g5fav'' sample_index 8)"
proof -
  have "is_ulid (trim ''01arz3ndektsv4rrffq69g5fav'')" by code_simp
  from pasted_ulid_comes_first [OF collates_code_unit_compare this, THEN conjunct2,
      of "''01ARZ3NDEKTSV4RRFFQ69G5FAV''"]
  show ?thesis by (rule mp) code_simp
qed

text \<open>The search index lists every aircraft once: each serial broadcast by a track or carrying a
  label that is not empty has exactly one entry, which shows the last such label when there is
  one; each MAC has exactly one entry; the empty text is never one that a track brings in.\<close>

theorem search_index_complete:
  "distinct (map se_value (si_serials (build_search_index tracks labels sensors))) \<and>
   distinct (map me_value (si_macs (build_search_index tracks labels sensors))) \<and>
   set (map se_value (si_serials (build_search_index tracks labels sensors))) =
     {s. s \<noteq> [] \<and> Some s \<in> trk_serial ` set tracks} \<union>
     al_serial ` {l \<in> set labels. al_label l \<noteq> []} \<and>
   set (map me_value (si_macs (build_search_index tracks labels sensors))) =
     (\<Union>t \<in> set tracks. set (trk_macs t)) - {[]} \<and>
   list_all (\<lambda>e. se_label e = last_label labels (se_value e))
     (si_serials (build_search_index tracks labels sensors))"
proof -
  let ?l = "labels_by_serial labels"
  have "labelled_by ?l (fold index_label ?l (fold (index_serial ?l) tracks []))"
    by (intro index_label_labelled index_serial_labelled labels_by_serial_distinct)
      (simp add: labelled_by_def)
  moreover have "distinct (map me_value (fold index_macs tracks []))"
    by (rule fold_invariant) (simp_all add: index_macs_distinct)
  ultimately show ?thesis
    by (simp add: build_search_index_def Let_def labelled_by_def index_label_set index_serial_set
        index_macs_set labels_by_serial_keys map_of_labels_by_serial)
qed

end
