(* ===== verification/PathShape.thy ===== *)
theory PathShape
  imports Geo
begin

text \<open>
  \<open>features/tracks/path-shape.ts\<close>: the row-sized thumbnail of a flight. A number is a real, so a
  rounding error of the browser is not modelled.
\<close>

section \<open>Thinning\<close>

text \<open>
  The loop with its stride: the source's \<open>points[i]\<close> for \<open>i = 0, stride, 2 * stride, ...\<close>.
  The stride of the caller is positive.
  The source compares the last point kept with the last point by object identity, here by index.
\<close>

function every_nth :: "nat \<Rightarrow> 'a list \<Rightarrow> 'a list" where
  "every_nth stride xs =
     (case xs of [] \<Rightarrow> [] | x # _ \<Rightarrow> if stride = 0 then [x] else x # every_nth stride (drop stride xs))"
  by pat_completeness auto
termination by (relation "measure (\<lambda>(stride, xs). length xs)") auto

declare every_nth.simps [simp del]

definition simplify_path :: "'a list \<Rightarrow> int \<Rightarrow> 'a list" where
  "simplify_path points max_points =
     (if max_points < 2 \<or> int (length points) \<le> max_points then points
      else
        let stride = nat \<lceil>real (length points) / real_of_int (max_points - 1)\<rceil>;
            kept = every_nth stride points
        in if (length points - 1) mod stride \<noteq> 0 then kept @ [last points] else kept)"

section \<open>Projection\<close>

record point =
  pt_x :: real
  pt_y :: real

record path_shape =
  ps_path :: "point list"
  ps_operator :: "point option"
  ps_receiver :: "point option"

record project_options =
  po_width :: real
  po_height :: real
  po_padding :: real
  po_receiver :: "latlon option"
  po_operator :: "latlon option"

definition planar :: "latlon \<Rightarrow> latlon \<Rightarrow> point" where
  "planar p centre =
     (let kx = cos (ll_lat centre * pi / 180)
      in \<lparr> pt_x = (ll_lon p - ll_lon centre) * kx, pt_y = - (ll_lat p - ll_lat centre) \<rparr>)"

text \<open>The middle of the bounding box; the source starts from infinite bounds and its caller passes
  at least two points.\<close>

definition box_centre :: "latlon list \<Rightarrow> latlon" where
  "box_centre points =
     (let lats = map ll_lat points; lons = map ll_lon points
      in \<lparr> ll_lat = (Min (set lats) + Max (set lats)) / 2,
           ll_lon = (Min (set lons) + Max (set lons)) / 2 \<rparr>)"

definition half_extent :: "point list \<Rightarrow> real" where
  "half_extent projected = fold (\<lambda>p half. max half (max \<bar>pt_x p\<bar> \<bar>pt_y p\<bar>)) projected 0"

definition to_screen :: "real \<Rightarrow> real \<Rightarrow> real \<Rightarrow> point \<Rightarrow> point" where
  "to_screen width height scale p =
     \<lparr> pt_x = width / 2 + pt_x p * scale, pt_y = height / 2 + pt_y p * scale \<rparr>"

definition project_path :: "latlon list \<Rightarrow> project_options \<Rightarrow> path_shape option" where
  "project_path history opts =
     (if length history < 2 then None
      else
        let extras = (case po_operator opts of None \<Rightarrow> [] | Some p \<Rightarrow> [p]);
            all = history @ extras;
            centre = nullish (po_receiver opts) (box_centre all);
            projected = map (\<lambda>p. planar p centre) all;
            half = half_extent projected;
            box = min (po_width opts) (po_height opts) - 2 * po_padding opts;
            scale = (if 0 < half then box / (2 * half) else 0);
            screen = to_screen (po_width opts) (po_height opts) scale
        in Some \<lparr> ps_path = map (\<lambda>p. screen (planar p centre)) history,
                  ps_operator = map_option (\<lambda>p. screen (planar p centre)) (po_operator opts),
                  ps_receiver = map_option (\<lambda>_. \<lparr> pt_x = po_width opts / 2, pt_y = po_height opts / 2 \<rparr>)
                    (po_receiver opts) \<rparr>)"

text \<open>The text of a number, \<open>num\<close>, is an argument.\<close>

definition round_tenth :: "real \<Rightarrow> real" where
  "round_tenth v = of_int (js_round (v * 10)) / 10"

definition polyline_points :: "(real \<Rightarrow> string) \<Rightarrow> point list \<Rightarrow> string" where
  "polyline_points num points =
     join '' '' (map (\<lambda>p. num (round_tenth (pt_x p)) @ '','' @ num (round_tenth (pt_y p))) points)"

section \<open>Lemmas\<close>

lemma every_nth_hd: "xs \<noteq> [] \<Longrightarrow> every_nth stride xs \<noteq> [] \<and> hd (every_nth stride xs) = hd xs"
  by (subst (1 2) every_nth.simps) (auto split: list.splits)

lemma every_nth_set: "set (every_nth stride xs) \<subseteq> set xs"
proof (induction stride xs rule: every_nth.induct)
  case (1 stride xs)
  show ?case
  proof (cases xs)
    case (Cons x ys)
    have "set (every_nth stride (drop stride xs)) \<subseteq> set xs" if "stride \<noteq> 0"
      using 1 [OF Cons that] set_drop_subset [of stride xs] by blast
    then show ?thesis using Cons by (subst every_nth.simps) auto
  qed (simp add: every_nth.simps)
qed

lemma length_every_nth:
  "0 < stride \<Longrightarrow> length xs \<le> n * stride \<Longrightarrow> length (every_nth stride xs) \<le> n"
proof (induction stride xs arbitrary: n rule: every_nth.induct)
  case (1 stride xs)
  show ?case
  proof (cases xs)
    case (Cons x ys)
    then obtain m where m: "n = Suc m" using 1 by (cases n) auto
    have "length (every_nth stride (drop stride xs)) \<le> m"
      using 1 Cons m by (intro "1.IH") auto
    then show ?thesis using Cons m "1.prems" by (subst every_nth.simps) auto
  qed (simp add: every_nth.simps)
qed

lemma half_extent_fold:
  fixes ps :: "point list"
  defines "f \<equiv> \<lambda>p half. max half (max \<bar>pt_x p\<bar> \<bar>pt_y p\<bar>)"
  shows "a \<le> fold f ps a" "p \<in> set ps \<Longrightarrow> max \<bar>pt_x p\<bar> \<bar>pt_y p\<bar> \<le> fold f ps a"
proof -
  have mono: "a \<le> fold f qs a" for a and qs :: "point list"
  proof (induction qs arbitrary: a)
    case (Cons q qs)
    have "a \<le> f q a" by (simp add: f_def)
    also have "\<dots> \<le> fold f qs (f q a)" by (rule Cons)
    finally show ?case by simp
  qed simp
  then show "a \<le> fold f ps a" .
  show "max \<bar>pt_x p\<bar> \<bar>pt_y p\<bar> \<le> fold f ps a" if "p \<in> set ps"
    using that
  proof (induction ps arbitrary: a)
    case (Cons q qs)
    show ?case
    proof (cases "p = q")
      case True
      have "max \<bar>pt_x p\<bar> \<bar>pt_y p\<bar> \<le> f q a" by (simp add: f_def True)
      also have "\<dots> \<le> fold f qs (f q a)" by (rule mono)
      finally show ?thesis by simp
    qed (use Cons in simp)
  qed simp
qed

lemma half_extent_ge:
  assumes "p \<in> set ps"
  shows "\<bar>pt_x p\<bar> \<le> half_extent ps" "\<bar>pt_y p\<bar> \<le> half_extent ps"
proof -
  have "max \<bar>pt_x p\<bar> \<bar>pt_y p\<bar> \<le> half_extent ps"
    unfolding half_extent_def by (rule half_extent_fold(2) [OF assms])
  then show "\<bar>pt_x p\<bar> \<le> half_extent ps" "\<bar>pt_y p\<bar> \<le> half_extent ps" by simp_all
qed

lemma scaled_inside:
  assumes "0 \<le> box" and "\<bar>v :: real\<bar> \<le> half"
  shows "\<bar>v * (if 0 < half then box / (2 * half) else 0)\<bar> \<le> box / 2"
proof (cases "0 < half")
  case True
  then have "\<bar>v\<bar> * (box / (2 * half)) \<le> half * (box / (2 * half))"
    using assms by (intro mult_right_mono) auto
  then show ?thesis using True assms(1) by (simp add: abs_mult)
qed (use assms in simp)

text \<open>Inside the box that the padding leaves, centred in the drawing.\<close>

definition inside_box :: "project_options \<Rightarrow> point \<Rightarrow> bool" where
  "inside_box opts p \<longleftrightarrow>
     (let box = min (po_width opts) (po_height opts) - 2 * po_padding opts
      in \<bar>pt_x p - po_width opts / 2\<bar> \<le> box / 2 \<and> \<bar>pt_y p - po_height opts / 2\<bar> \<le> box / 2)"

lemma last_every_nth:
  "0 < stride \<Longrightarrow> xs \<noteq> [] \<Longrightarrow> (length xs - 1) mod stride = 0 \<Longrightarrow> last (every_nth stride xs) = last xs"
proof (induction stride xs rule: every_nth.induct)
  case (1 stride xs)
  obtain x ys where xs: "xs = x # ys" using "1.prems" by (cases xs) auto
  show ?case
  proof (cases "drop stride xs = []")
    case True
    then have "length xs - 1 < stride" using "1.prems" by auto
    then have "length xs - 1 = 0" using "1.prems"(3) by (simp only: mod_less)
    then show ?thesis using xs True by (subst every_nth.simps) (simp add: every_nth.simps)
  next
    case False
    then have "(length (drop stride xs) - 1) mod stride = 0"
      using "1.prems" by (simp add: mod_if [of "length xs - Suc 0" stride] not_le le_diff_conv split: if_splits)
    then have "last (every_nth stride (drop stride xs)) = last (drop stride xs)"
      using "1.IH" [OF xs] "1.prems" False by simp
    moreover have "every_nth stride (drop stride xs) \<noteq> []" using every_nth_hd [OF False] by blast
    ultimately show ?thesis using xs False "1.prems"
      by (subst every_nth.simps) (simp add: last_drop)
  qed
qed

section \<open>Properties\<close>

text \<open>Thinning a path keeps its ends: for a limit of at least two, the thinned path has at most
  that many points, starts where the flight started, ends where it ended, and holds no point that
  is not the flight's.\<close>

theorem simplify_path_keeps_ends:
  assumes "2 \<le> m" and "points \<noteq> []"
  shows "int (length (simplify_path points m)) \<le> m \<and>
    hd (simplify_path points m) = hd points \<and> last (simplify_path points m) = last points \<and>
    set (simplify_path points m) \<subseteq> set points"
proof (cases "int (length points) \<le> m")
  case False
  let ?n = "length points"
  let ?s = "nat \<lceil>real ?n / real_of_int (m - 1)\<rceil>"
  let ?k = "every_nth ?s points"
  have m: "0 < real_of_int (m - 1)" using assms by simp
  have "0 < real ?n / real_of_int (m - 1)" using assms m by simp
  then have s: "0 < ?s" by simp
  have "real ?n / real_of_int (m - 1) \<le> real ?s" by linarith
  then have "real ?n \<le> real ?s * real_of_int (m - 1)" by (simp only: pos_divide_le_eq [OF m])
  also have "\<dots> = real (nat (m - 1) * ?s)" using assms by (simp only: of_nat_mult of_nat_nat) simp
  finally have "real ?n \<le> real (nat (m - 1) * ?s)" .
  then have "?n \<le> nat (m - 1) * ?s" by (simp only: of_nat_le_iff)
  then have "length ?k \<le> nat (m - 1)" using s by (intro length_every_nth)
  then have len: "int (length ?k) \<le> m - 1" using assms by linarith
  have "last ?k = last points" if "(?n - 1) mod ?s = 0" using that s assms(2) by (simp add: last_every_nth)
  then show ?thesis
    using False assms len every_nth_hd [OF assms(2), of ?s] every_nth_set [of ?s points]
    by (auto simp: simplify_path_def Let_def)
qed (use assms in \<open>simp add: simplify_path_def\<close>)

theorem simplify_path_keeps_ends_witness:
  "last (simplify_path [1, 2, 3, 4, 5, 6, 7 :: int] 4) = 7 \<and>
   simplify_path [1, 2, 3, 4, 5, 6, 7 :: int] 4 = [1, 4, 7]"
  using simplify_path_keeps_ends [of 4 "[1, 2, 3, 4, 5, 6, 7 :: int]"]
  by (simp add: simplify_path_def every_nth.simps Let_def)

text \<open>A thumbnail stays inside its box: whatever the flight, the operator and the receiver, every
  point of the path and the operator's are drawn no further from the centre than half the box
  the padding leaves, and the receiver, when given, exactly in the centre.\<close>

theorem thumbnail_inside_box:
  assumes "2 * po_padding opts \<le> min (po_width opts) (po_height opts)"
    and "project_path history opts = Some shape"
  shows "list_all (inside_box opts) (ps_path shape) \<and>
    pred_option (inside_box opts) (ps_operator shape) \<and>
    pred_option (\<lambda>r. r = to_screen (po_width opts) (po_height opts) 0 r) (ps_receiver shape) \<and>
    length (ps_path shape) = length history"
proof -
  let ?all = "history @ (case po_operator opts of None \<Rightarrow> [] | Some p \<Rightarrow> [p])"
  let ?c = "nullish (po_receiver opts) (box_centre ?all)"
  let ?half = "half_extent (map (\<lambda>p. planar p ?c) ?all)"
  let ?box = "min (po_width opts) (po_height opts) - 2 * po_padding opts"
  let ?screen = "to_screen (po_width opts) (po_height opts) (if 0 < ?half then ?box / (2 * ?half) else 0)"
  have "inside_box opts (?screen (planar p ?c))" if "p \<in> set ?all" for p
  proof -
    have "planar p ?c \<in> set (map (\<lambda>p. planar p ?c) ?all)" using that by (simp only: set_map image_eqI)
    note ge = half_extent_ge [OF this]
    have "0 \<le> ?box" using assms(1) by simp
    from scaled_inside [OF this ge(1)] scaled_inside [OF this ge(2)]
    show ?thesis by (simp add: inside_box_def to_screen_def Let_def)
  qed
  moreover have "shape = \<lparr> ps_path = map (\<lambda>p. ?screen (planar p ?c)) history,
      ps_operator = map_option (\<lambda>p. ?screen (planar p ?c)) (po_operator opts),
      ps_receiver = map_option (\<lambda>_. \<lparr> pt_x = po_width opts / 2, pt_y = po_height opts / 2 \<rparr>)
        (po_receiver opts) \<rparr>"
    using assms(2) by (simp add: project_path_def Let_def split: if_splits)
  ultimately show ?thesis
    by (cases "po_operator opts"; cases "po_receiver opts") (auto simp: list_all_iff to_screen_def)
qed

theorem thumbnail_inside_box_witness:
  "\<exists>shape. project_path [\<lparr> ll_lat = 1, ll_lon = 1 \<rparr>, \<lparr> ll_lat = 2, ll_lon = 1 \<rparr>]
       \<lparr> po_width = 72, po_height = 28, po_padding = 2, po_receiver = None, po_operator = None \<rparr> = Some shape \<and>
     list_all (inside_box
       \<lparr> po_width = 72, po_height = 28, po_padding = 2, po_receiver = None, po_operator = None \<rparr>) (ps_path shape)"
proof -
  obtain shape where "project_path [\<lparr> ll_lat = 1, ll_lon = 1 \<rparr>, \<lparr> ll_lat = 2, ll_lon = 1 \<rparr>]
       \<lparr> po_width = 72, po_height = 28, po_padding = 2, po_receiver = None, po_operator = None \<rparr> = Some shape"
    by (simp add: project_path_def Let_def)
  from thumbnail_inside_box [OF _ this] this show ?thesis by auto
qed

end
