(* ===== verification/ShareCard.thy ===== *)
theory ShareCard
  imports Format TrackTier
begin

text \<open>
  \<open>features/tracks/share/share-card-model.ts\<close>: the flat model of the card someone may send to a
  neighbour. The date range of the card is \<open>Intl\<close> formatting, the argument \<open>seen\<close>; the text of a
  number is the argument \<open>num\<close>.
\<close>

section \<open>The headline\<close>

definition ascii_upper :: "char \<Rightarrow> char" where
  "ascii_upper c = (let n = (of_char c :: nat) in if 97 \<le> n \<and> n \<le> 122 then char_of (n - 32) else c)"

definition to_upper :: "string \<Rightarrow> string" where
  "to_upper s = map ascii_upper s"

text \<open>\<open>split(/\s+/).filter(Boolean)\<close>.\<close>

fun split_words :: "string \<Rightarrow> string \<Rightarrow> string list" where
  "split_words acc [] = (if acc = [] then [] else [rev acc])"
| "split_words acc (c # cs) =
     (if is_space c then (if acc = [] then split_words [] cs else rev acc # split_words [] cs)
      else split_words (c # acc) cs)"

definition headline_word :: "string \<Rightarrow> string" where
  "headline_word v = (if length v \<le> 3 then to_upper v else to_upper (take 1 v) @ drop 1 v)"

definition titled :: "string \<Rightarrow> string" where
  "titled v = join '' '' (map headline_word (split_words [] v))"

definition unidentified_aircraft :: string where "unidentified_aircraft = ''Unidentified aircraft''"

definition format_headline :: "string \<Rightarrow> string \<Rightarrow> string" where
  "format_headline vendor ua_type =
     (let parts = map titled (filter (\<lambda>v. v \<noteq> [] \<and> v \<noteq> empty_text) [vendor, ua_type])
      in if parts \<noteq> [] then join '' '' parts else unidentified_aircraft)"

section \<open>Charts\<close>

definition max_path_points :: nat where "max_path_points = 120"
definition min_movement_m :: real where "min_movement_m = 25"

record card_path_point =
  cpp_x :: real
  cpp_y :: real

record card_path =
  cp_points :: "card_path_point list"
  cp_span_metres :: real
  cp_stationary :: bool

text \<open>A sample whose time cannot be read makes every \<open>x\<close> of the signal NaN, here \<open>None\<close>.\<close>

record signal_point =
  sp_x :: "real option"
  sp_y :: real

record card_signal =
  cs_points :: "signal_point list"
  cs_min_rssi :: real
  cs_max_rssi :: real
  cs_peak_rssi :: real

definition downsample :: "'a list \<Rightarrow> nat \<Rightarrow> 'a list" where
  "downsample items limit =
     (if length items \<le> limit then items
      else
        let step = real (length items - 1) / real (limit - 1)
        in List.map_filter (\<lambda>i. array_get items (js_round (real i * step))) [0..<limit])"

definition signal_times :: "rssi_sample list \<Rightarrow> int list option" where
  "signal_times samples =
     (let ts = map (\<lambda>s. date_parse (rs_ts s)) samples
      in if None \<in> set ts then None else Some (map the ts))"

definition build_signal :: "rssi_sample list \<Rightarrow> card_signal option" where
  "build_signal samples =
     (if length samples < 2 then None
      else
        let values = map rs_rssi samples;
            raw_min = Min (set values); raw_max = Max (set values);
            min_rssi = max (- 110) (of_int \<lfloor>(raw_min - 3) / 5\<rfloor> * 5);
            max_rssi = min 0 (of_int \<lceil>(raw_max + 3) / 5\<rceil> * 5);
            range = max 1 (max_rssi - min_rssi);
            x_of = (case signal_times samples of
                None \<Rightarrow> (\<lambda>_. None)
              | Some stamps \<Rightarrow>
                  let min_time = Min (set stamps); span = max 1 (Max (set stamps) - min_time)
                  in (\<lambda>s. map_option (\<lambda>t. of_int (t - min_time) / of_int span) (date_parse (rs_ts s))))
        in Some \<lparr> cs_points = map (\<lambda>s. \<lparr> sp_x = x_of s, sp_y = 1 - (rs_rssi s - min_rssi) / range \<rparr>)
                    (downsample samples max_path_points),
                  cs_min_rssi = min_rssi, cs_max_rssi = max_rssi, cs_peak_rssi = raw_max \<rparr>)"

definition metres_between :: "latlon \<Rightarrow> latlon \<Rightarrow> real" where
  "metres_between a b =
     (let lat = (ll_lat a + ll_lat b) / 2 * (pi / 180);
          d_lat = (ll_lat b - ll_lat a) * (pi / 180);
          d_lon = (ll_lon b - ll_lon a) * (pi / 180);
          x = d_lon * cos lat
      in sqrt (x\<^sup>2 + d_lat\<^sup>2) * 6371000)"

definition build_path :: "position list \<Rightarrow> card_path option" where
  "build_path points =
     (if length points < 2 then None
      else
        let sampled = downsample points max_path_points;
            lats = map pos_lat sampled; lons = map pos_lon sampled;
            min_lat = Min (set lats); max_lat = Max (set lats);
            min_lon = Min (set lons); max_lon = Max (set lons);
            lat_span = max_lat - min_lat; lon_span = max_lon - min_lon
        in if lat_span = 0 \<and> lon_span = 0
           then Some \<lparr> cp_points = [\<lparr> cpp_x = 1 / 2, cpp_y = 1 / 2 \<rparr>], cp_span_metres = 0,
                       cp_stationary = True \<rparr>
           else
             let scale = max lat_span lon_span;
                 x_offset = (scale - lon_span) / 2; y_offset = (scale - lat_span) / 2
             in Some \<lparr> cp_points = map (\<lambda>p.
                   \<lparr> cpp_x = (pos_lon p - min_lon + x_offset) / scale,
                     cpp_y = 1 - (pos_lat p - min_lat + y_offset) / scale \<rparr>) sampled,
                   cp_span_metres = metres_between \<lparr> ll_lat = min_lat, ll_lon = min_lon \<rparr>
                     \<lparr> ll_lat = max_lat, ll_lon = max_lon \<rparr>,
                   cp_stationary = False \<rparr>)"

section \<open>The card\<close>

definition card_duration :: "string \<Rightarrow> string \<Rightarrow> string" where
  "card_duration first_seen last_seen =
     (if first_seen = [] \<or> last_seen = [] then empty_text
      else (case (date_parse first_seen, date_parse last_seen) of
        (Some a, Some b) \<Rightarrow>
          if b - a < 0 then empty_text
          else
            let seconds = nat (js_round (of_int (b - a) / 1000)); minutes = seconds div 60
            in if seconds < 60 then digits_of_nat seconds @ ''s''
               else if minutes < 60
               then digits_of_nat minutes @ ''m '' @ digits_of_nat (seconds mod 60) @ ''s''
               else digits_of_nat (minutes div 60) @ ''h '' @ digits_of_nat (minutes mod 60) @ ''m''
      | _ \<Rightarrow> empty_text))"

record share_card_model =
  card_title :: string
  card_track_id :: string
  card_state :: track_state
  card_vendor :: string
  card_ua_type :: string
  card_model_hint :: string
  card_confidence :: real
  card_confidence_label :: string
  card_detection_count :: int
  card_first_seen :: string
  card_last_seen :: string
  card_duration_label :: string
  card_evidence_classes :: "detection_class list"
  card_sensor_kinds :: "sensor_kind list"
  card_coordinates :: "string option"
  card_altitude_m :: "real option"
  card_height_agl_m :: "real option"
  card_path_of :: "card_path option"
  card_signal_of :: "card_signal option"
  card_peak_rssi_label :: string
  card_headline :: string
  card_seen_label :: string
  card_movement_label :: string
  card_redacted :: bool

text \<open>Only a genuine flight is drawn.\<close>

definition drawn_path :: "card_path option \<Rightarrow> card_path option" where
  "drawn_path raw =
     (case raw of None \<Rightarrow> None
      | Some p \<Rightarrow> if \<not> cp_stationary p \<and> min_movement_m \<le> cp_span_metres p then Some p else None)"

definition build_share_card_model ::
  "(string \<Rightarrow> string \<Rightarrow> string) \<Rightarrow> (real \<Rightarrow> string) \<Rightarrow> track \<Rightarrow> bool \<Rightarrow> rssi_sample list \<Rightarrow>
   share_card_model" where
  "build_share_card_model seen num t redacted samples =
     (let ev = nullish (trk_evidence t) []; signal = build_signal samples;
          raw_path = build_path (nullish (trk_history t) []); path = drawn_path raw_path;
          current = trk_current t
      in \<lparr> card_title = nullish (or_else (trk_serial t) (trk_first_mac t)) (trk_track_id t),
           card_track_id = trk_track_id t, card_state = trk_state t,
           card_vendor = nullish (trk_vendor t) empty_text,
           card_ua_type = nullish (trk_ua_type t) empty_text,
           card_model_hint = nullish (Option.bind (trk_identity t) id_model_hint) empty_text,
           card_confidence = trk_confidence t,
           card_confidence_label = format_confidence (trk_confidence t),
           card_detection_count = trk_detection_count t,
           card_first_seen = trk_first_seen t, card_last_seen = trk_last_seen t,
           card_duration_label = card_duration (trk_first_seen t) (trk_last_seen t),
           card_evidence_classes = sort (remdups (map ev_class ev)),
           card_sensor_kinds = sort (remdups (map ev_sensor_kind ev)),
           card_coordinates = (if redacted then None
             else map_option (\<lambda>p. format_lat_lon (pos_lat p) (pos_lon p)) current),
           card_altitude_m = (if redacted then None else Option.bind current pos_alt_geodetic_m),
           card_height_agl_m = Option.bind current pos_height_agl_m,
           card_path_of = path, card_signal_of = signal,
           card_peak_rssi_label = (case signal of None \<Rightarrow> empty_text
             | Some s \<Rightarrow> num (cs_peak_rssi s) @ '' dBm''),
           card_headline = format_headline (nullish (trk_vendor t) empty_text)
             (nullish (trk_ua_type t) empty_text),
           card_seen_label = seen (trk_first_seen t) (trk_last_seen t),
           card_movement_label = (case raw_path of None \<Rightarrow> empty_text
             | Some _ \<Rightarrow> (case path of
                 Some p \<Rightarrow> ''Moved ~'' @ string_of_int (js_round (cp_span_metres p)) @ '' m''
               | None \<Rightarrow> ''Stationary'')),
           card_redacted = redacted \<rparr>)"

section \<open>What a card reveals\<close>

lemma array_get_map: "array_get (map f xs) i = map_option f (array_get xs i)"
  by (auto simp: array_get_def)

lemma map_filter_map_option:
  "List.map_filter (\<lambda>i. map_option f (g i)) xs = map f (List.map_filter g xs)"
  by (induction xs) (auto simp: List.map_filter_simps split: option.splits)

lemma downsample_map: "downsample (map f xs) n = map f (downsample xs n)"
  by (simp add: downsample_def Let_def array_get_map map_filter_map_option)

lemma downsample_nonempty:
  assumes "xs \<noteq> []" "0 < n"
  shows "downsample xs n \<noteq> []"
proof -
  have "[0..<n] = 0 # [Suc 0..<n]" using assms(2) by (simp add: upt_conv_Cons)
  then show ?thesis
    using assms(1) by (simp add: downsample_def Let_def List.map_filter_simps array_get_def js_round_def)
qed

text \<open>A flight moved along its circle of latitude.\<close>

definition moved_east :: "(position \<Rightarrow> position) \<Rightarrow> real \<Rightarrow> bool" where
  "moved_east f c \<longleftrightarrow> (\<forall>p. pos_lat (f p) = pos_lat p \<and> pos_lon (f p) = pos_lon p + c)"

lemma Min_Max_shift:
  fixes c :: real
  assumes "xs \<noteq> []"
  shows "Min (set (map (\<lambda>x. x + c) xs)) = Min (set xs) + c" "Max (set (map (\<lambda>x. x + c) xs)) = Max (set xs) + c"
  using assms mono_Min_commute [of "\<lambda>x. x + c" "set xs"] mono_Max_commute [of "\<lambda>x. x + c" "set xs"]
  by (simp_all add: mono_def)

lemma metres_between_shift:
  "metres_between \<lparr> ll_lat = a, ll_lon = b + c \<rparr> \<lparr> ll_lat = d, ll_lon = e + c \<rparr> =
   metres_between \<lparr> ll_lat = a, ll_lon = b \<rparr> \<lparr> ll_lat = d, ll_lon = e \<rparr>"
  by (simp add: metres_between_def)

lemma build_path_moved_east:
  assumes "moved_east f c"
  shows "build_path (map f points) = build_path points"
proof (cases "length points < 2")
  case False
  then have ne: "downsample points max_path_points \<noteq> []"
    by (intro downsample_nonempty) (auto simp: max_path_points_def)
  let ?s = "downsample points max_path_points"
  have lats: "map pos_lat (map f ?s) = map pos_lat ?s" using assms by (simp add: moved_east_def)
  have "map pos_lon (map f ?s) = map (\<lambda>x. x + c) (map pos_lon ?s)" using assms by (simp add: moved_east_def)
  with Min_Max_shift [of "map pos_lon ?s" c] ne
  have lons: "Min (set (map pos_lon (map f ?s))) = Min (set (map pos_lon ?s)) + c"
    "Max (set (map pos_lon (map f ?s))) = Max (set (map pos_lon ?s)) + c"
    by simp_all
  show ?thesis
    unfolding build_path_def downsample_map Let_def lats lons metres_between_shift
    using assms by (simp add: moved_east_def add_diff_add cong: if_cong)
qed (simp add: build_path_def)

section \<open>Properties\<close>

text \<open>C39: A redacted card does not tell where the aircraft is: it carries no coordinates and no altitude,
  and it is the same card for a track whose current fix is put anywhere else at the same height
  above ground, whose operator is anywhere, and whose whole history is moved along its circle of
  latitude.\<close>

theorem redacted_card_hides_place:
  assumes "moved_east f c" and "\<forall>p. pos_height_agl_m (g p) = pos_height_agl_m p"
  shows "build_share_card_model seen num
      (t\<lparr> trk_current := map_option g (trk_current t), trk_operator := op,
          trk_history := map_option (map f) (trk_history t) \<rparr>) True samples =
    build_share_card_model seen num t True samples \<and>
    card_coordinates (build_share_card_model seen num t True samples) = None \<and>
    card_altitude_m (build_share_card_model seen num t True samples) = None"
proof -
  have "build_path (nullish (map_option (map f) (trk_history t)) []) =
      build_path (nullish (trk_history t) [])"
    by (cases "trk_history t") (simp_all add: build_path_moved_east [OF assms(1)])
  moreover have "Option.bind (map_option g (trk_current t)) pos_height_agl_m =
      Option.bind (trk_current t) pos_height_agl_m"
    using assms(2) by (cases "trk_current t") simp_all
  ultimately show ?thesis
    by (simp add: build_share_card_model_def Let_def trk_serial_def trk_first_mac_def trk_macs_def
        trk_vendor_def trk_ua_type_def)
qed

definition sample_position :: position where
  "sample_position = \<lparr> pos_lat = 51, pos_lon = 4, pos_alt_geodetic_m = Some 60, pos_height_agl_m = Some 40,
     pos_terrain_elevation_m = None, pos_speed_mps = None, pos_track_deg = None, pos_at = None \<rparr>"

theorem redacted_card_hides_place_witness:
  "build_share_card_model (\<lambda>a b. a) (\<lambda>_. ''0'')
     (sample_track\<lparr> trk_current := Some (sample_position\<lparr> pos_lat := 0, pos_lon := 0 \<rparr>),
        trk_operator := None,
        trk_history := Some [sample_position\<lparr> pos_lon := 14 \<rparr>, sample_position\<lparr> pos_lat := 52, pos_lon := 14 \<rparr>] \<rparr>)
     True [] =
   build_share_card_model (\<lambda>a b. a) (\<lambda>_. ''0'')
     (sample_track\<lparr> trk_current := Some sample_position,
        trk_history := Some [sample_position, sample_position\<lparr> pos_lat := 52 \<rparr>] \<rparr>) True []"
proof -
  let ?t = "sample_track\<lparr> trk_current := Some sample_position,
        trk_history := Some [sample_position, sample_position\<lparr> pos_lat := 52 \<rparr>] \<rparr>"
  from redacted_card_hides_place [of "\<lambda>p. p\<lparr> pos_lon := pos_lon p + 10 \<rparr>" 10
      "\<lambda>p. p\<lparr> pos_lat := 0, pos_lon := 0 \<rparr>" "\<lambda>a b. a" "\<lambda>_. ''0''" ?t None "[]"]
  show ?thesis by (simp add: moved_east_def sample_position_def)
qed

end
