(* ===== verification/Notifications.thy ===== *)
theory Notifications
  imports ShareCard LogStore
begin

text \<open>
  \<open>features/notifications/feed.ts\<close> (one list out of the tracks and the session log) and
  \<open>features/notifications/cleared-store.ts\<close> (the rows the operator cleared). \<open>localeCompare\<close> is the
  argument \<open>lc\<close>, the text of a number the argument \<open>num\<close>.
\<close>

section \<open>The feed\<close>

datatype notify_category =
  CatDrone | CatSensor | CatStream | CatCapture | CatSpectrum | CatUnit | CatApi | CatAction

definition notify_categories :: "notify_category list" where
  "notify_categories =
     [CatDrone, CatSensor, CatStream, CatCapture, CatSpectrum, CatUnit, CatApi, CatAction]"

fun notify_category_label :: "notify_category \<Rightarrow> string" where
  "notify_category_label CatDrone = ''Drone detections''"
| "notify_category_label CatSensor = ''Sensor health''"
| "notify_category_label CatStream = ''Connection''"
| "notify_category_label CatCapture = ''Captures''"
| "notify_category_label CatSpectrum = ''Band sweeps''"
| "notify_category_label CatUnit = ''Unit maintenance''"
| "notify_category_label CatApi = ''API errors''"
| "notify_category_label CatAction = ''Operator actions''"

fun source_category :: "log_source \<Rightarrow> notify_category option" where
  "source_category SrcSensor = Some CatSensor"
| "source_category SrcStream = Some CatStream"
| "source_category SrcCapture = Some CatCapture"
| "source_category SrcSpectrum = Some CatSpectrum"
| "source_category SrcDeploy = Some CatUnit"
| "source_category SrcApi = Some CatApi"
| "source_category SrcUi = Some CatAction"
| "source_category SrcTrack = None"
| "source_category SrcDetection = None"

record notification =
  nt_id :: string
  nt_at :: string
  nt_category :: notify_category
  nt_level :: log_level
  nt_title :: string
  nt_meta :: "string list"
  nt_confidence :: "real option"
  nt_track_id :: "string option"

type_synonym category_switches = "(notify_category \<times> bool) list option"

record feed_input =
  fi_tracks :: "track list"
  fi_entries :: "log_entry list"
  fi_categories :: category_switches
  fi_min_level :: "log_level option"
  fi_limit :: nat

definition is_category_enabled :: "category_switches \<Rightarrow> notify_category \<Rightarrow> bool" where
  "is_category_enabled categories c =
     (case categories of None \<Rightarrow> True | Some m \<Rightarrow> map_of m c \<noteq> Some False)"

definition state_label :: "track_state \<Rightarrow> string" where
  "state_label s = (if s = CONFIRMED then ''in flight'' else to_lower (state_text s))"

definition track_title :: "track \<Rightarrow> string" where
  "track_title t =
     (let label = format_headline (nullish (trk_vendor t) []) (nullish (trk_ua_type t) []);
          tail = (if truthy (trk_serial t)
                  then let s = nullish (trk_serial t) []
                       in Some (if 8 < length s then ellipsis @ take_last 6 s else s)
                  else None)
      in if label = unidentified_aircraft
         then (case tail of Some x \<Rightarrow> ''Drone '' @ x | None \<Rightarrow> ''Unidentified drone'')
         else (case tail of Some x \<Rightarrow> label @ '' '' @ x | None \<Rightarrow> label))"

definition track_notification :: "track \<Rightarrow> notification" where
  "track_notification t =
     \<lparr> nt_id = ''track:'' @ trk_track_id t, nt_at = trk_first_seen t, nt_category = CatDrone,
       nt_level = Info, nt_title = track_title t,
       nt_meta = [nullish (trk_vendor t) ''unknown vendor'', state_label (trk_state t)] @
         (if 0 < trk_detection_count t
          then [string_of_int (trk_detection_count t) @ '' detection'' @
            (if trk_detection_count t = 1 then [] else ''s'')]
          else []),
       nt_confidence = Some (trk_confidence t), nt_track_id = Some (trk_track_id t) \<rparr>"

fun detail_text :: "(real \<Rightarrow> string) \<Rightarrow> detail_value \<Rightarrow> string option" where
  "detail_text num DNull = None"
| "detail_text num (DStr s) = Some s"
| "detail_text num (DNum x) = Some (num x)"
| "detail_text num (DBool b) = Some (if b then ''true'' else ''false'')"

definition entry_notification ::
  "(real \<Rightarrow> string) \<Rightarrow> log_entry \<Rightarrow> notify_category \<Rightarrow> notification" where
  "entry_notification num e c =
     \<lparr> nt_id = ''log:'' @ digits_of_nat (le_id e), nt_at = le_at e, nt_category = c,
       nt_level = le_level e, nt_title = le_message e,
       nt_meta = List.map_filter (\<lambda>(k, v). map_option (\<lambda>x. k @ '' '' @ x) (detail_text num v))
         (nullish (le_detail e) []),
       nt_confidence = None,
       nt_track_id = (if truthy (le_track_id e) then le_track_id e else None) \<rparr>"

definition admit_entry ::
  "(real \<Rightarrow> string) \<Rightarrow> category_switches \<Rightarrow> nat \<Rightarrow> log_entry \<Rightarrow> notification option" where
  "admit_entry num categories least e =
     (case source_category (le_source e) of
        None \<Rightarrow> None
      | Some c \<Rightarrow>
          if \<not> is_category_enabled categories c then None
          else if level_rank (le_level e) < least then None
          else Some (entry_notification num e c))"

text \<open>A difference with a time that cannot be read is NaN, which a sort takes for no difference.\<close>

definition by_newest_first :: "(string \<Rightarrow> string \<Rightarrow> int) \<Rightarrow> notification \<Rightarrow> notification \<Rightarrow> int" where
  "by_newest_first lc a b =
     (case (date_parse (nt_at b), date_parse (nt_at a)) of
        (Some x, Some y) \<Rightarrow> if x - y \<noteq> 0 then x - y else lc (nt_id a) (nt_id b)
      | _ \<Rightarrow> 0)"

definition merged_feed :: "(real \<Rightarrow> string) \<Rightarrow> feed_input \<Rightarrow> notification list" where
  "merged_feed num i =
     (if is_category_enabled (fi_categories i) CatDrone
      then map track_notification (fi_tracks i) else []) @
     List.map_filter (admit_entry num (fi_categories i) (level_rank (nullish (fi_min_level i) Info)))
       (fi_entries i)"

definition build_feed ::
  "(string \<Rightarrow> string \<Rightarrow> int) \<Rightarrow> (real \<Rightarrow> string) \<Rightarrow> feed_input \<Rightarrow> notification list" where
  "build_feed lc num i = take (fi_limit i) (js_sort (by_newest_first lc) (merged_feed num i))"

definition count_unread :: "notification list \<Rightarrow> int \<Rightarrow> nat" where
  "count_unread feed last_seen_at =
     length (filter (\<lambda>n. (case date_parse (nt_at n) of None \<Rightarrow> False | Some t \<Rightarrow> last_seen_at < t) \<and>
       (nt_category n = CatDrone \<or> level_rank Info < level_rank (nt_level n))) feed)"

section \<open>The cleared rows\<close>

text \<open>
  A \<open>Set\<close> in insertion order is a list without repetitions. \<open>cl_stored\<close> is the value parsed from
  session storage, \<open>None\<close> when there is none or it is no JSON; \<open>cl_writable\<close> says whether a write
  to the storage succeeds. \<open>cl_emits\<close> counts the notifications of the subscribers.
\<close>

record cleared_store =
  cl_ids :: "string list"
  cl_stored :: "json option"
  cl_writable :: bool
  cl_emits :: nat

definition max_stored :: nat where "max_stored = 500"

definition cleared_has :: "cleared_store \<Rightarrow> string \<Rightarrow> bool" where
  "cleared_has s i \<longleftrightarrow> i \<in> set (cl_ids s)"

text \<open>The loop deletes while it iterates, from the oldest.\<close>

fun drop_oldest :: "nat \<Rightarrow> nat \<Rightarrow> 'a list \<Rightarrow> 'a list" where
  "drop_oldest overflow dropped [] = []"
| "drop_oldest overflow dropped (x # xs) =
     (if overflow \<le> dropped then x # xs else drop_oldest overflow (Suc dropped) xs)"

definition trim_to :: "nat \<Rightarrow> 'a list \<Rightarrow> 'a list" where
  "trim_to n ids = (if length ids \<le> n then ids else drop_oldest (length ids - n) 0 ids)"

definition trim_ids :: "string list \<Rightarrow> string list" where
  "trim_ids ids = trim_to max_stored ids"

definition persist_ids :: "cleared_store \<Rightarrow> cleared_store" where
  "persist_ids s =
     (if cl_writable s then s\<lparr> cl_stored := Some (JArr (map JStr (cl_ids s))) \<rparr> else s)"

definition emit_cleared :: "cleared_store \<Rightarrow> cleared_store" where
  "emit_cleared s = s\<lparr> cl_emits := Suc (cl_emits s) \<rparr>"

definition clear_id :: "string \<Rightarrow> cleared_store \<Rightarrow> cleared_store" where
  "clear_id i s =
     (if cleared_has s i then s
      else emit_cleared (persist_ids (s\<lparr> cl_ids := trim_ids (set_add i (cl_ids s)) \<rparr>)))"

definition clear_many :: "string list \<Rightarrow> cleared_store \<Rightarrow> cleared_store" where
  "clear_many ids s =
     (if list_all (cleared_has s) ids then s
      else emit_cleared (persist_ids (s\<lparr> cl_ids := trim_ids (fold set_add ids (cl_ids s)) \<rparr>)))"

fun json_text :: "json \<Rightarrow> string option" where
  "json_text (JStr s) = Some s"
| "json_text _ = None"

definition read_stored :: "json option \<Rightarrow> string list" where
  "read_stored stored =
     (case stored of
        Some (JArr vs) \<Rightarrow> fold set_add (List.map_filter json_text vs) []
      | _ \<Rightarrow> [])"

definition open_cleared_store :: "json option \<Rightarrow> bool \<Rightarrow> cleared_store" where
  "open_cleared_store stored writable =
     \<lparr> cl_ids = read_stored stored, cl_stored = stored, cl_writable = writable, cl_emits = 0 \<rparr>"

text \<open>The rows of the drawer: those of the feed that are not cleared.\<close>

definition shown_rows :: "cleared_store \<Rightarrow> notification list \<Rightarrow> notification list" where
  "shown_rows s feed = filter (\<lambda>n. \<not> cleared_has s (nt_id n)) feed"

section \<open>The order of the feed\<close>

definition dated :: "notification \<Rightarrow> bool" where
  "dated n \<longleftrightarrow> date_parse (nt_at n) \<noteq> None"

lemma by_newest_first_dated:
  assumes "dated a" "dated b"
  shows "by_newest_first lc a b =
    (let d = the (date_parse (nt_at b)) - the (date_parse (nt_at a))
     in if d \<noteq> 0 then d else lc (nt_id a) (nt_id b))"
  using assms by (auto simp: dated_def by_newest_first_def Let_def)

lemma by_newest_first_consistent:
  assumes "collates lc (nt_id ` A)" "\<forall>n \<in> A. dated n"
  shows "consistent_cmp (by_newest_first lc) A"
  unfolding consistent_cmp_def
proof (intro conjI ballI impI)
  fix x y assume "x \<in> A" "y \<in> A" "0 < by_newest_first lc x y"
  then show "\<not> 0 < by_newest_first lc y x"
    using collatesD(1) [OF assms(1), of "nt_id x" "nt_id y"] assms(2)
    by (auto simp: by_newest_first_dated Let_def split: if_splits)
next
  fix x y z assume "x \<in> A" "y \<in> A" "z \<in> A" "\<not> 0 < by_newest_first lc x y" "\<not> 0 < by_newest_first lc y z"
  then show "\<not> 0 < by_newest_first lc x z"
    using collatesD(3) [OF assms(1), of "nt_id x" "nt_id y" "nt_id z"] assms(2)
    by (auto simp: by_newest_first_dated Let_def not_less split: if_splits)
qed

lemma by_newest_first_strict:
  assumes "collates lc (nt_id ` A)" "\<forall>n \<in> A. dated n" "inj_on nt_id A" "x \<in> A" "y \<in> A"
    and "in_order (by_newest_first lc) x y" "in_order (by_newest_first lc) y x"
  shows "x = y"
proof -
  have "lc (nt_id x) (nt_id y) = 0"
    using assms(2,4-) collatesD(1) [OF assms(1), of "nt_id x" "nt_id y"]
      collatesD(1) [OF assms(1), of "nt_id y" "nt_id x"]
    by (auto simp: by_newest_first_dated Let_def in_order_def not_less split: if_splits)
  then have "nt_id x = nt_id y" using collatesD(2) [OF assms(1)] assms(4,5) by blast
  then show ?thesis using assms(3-5) by (simp add: inj_on_eq_iff)
qed

lemma mset_map_filter:
  "mset xs = mset ys \<Longrightarrow> mset (List.map_filter f xs) = mset (List.map_filter f ys)"
  by (simp add: List.map_filter_def)

lemma admit_entry_shape:
  assumes "admit_entry num cs least e = Some n"
  shows "nt_id n = ''log:'' @ digits_of_nat (le_id e)" "nt_at n = le_at e" "nt_category n \<noteq> CatDrone"
proof -
  obtain c where c: "source_category (le_source e) = Some c" "n = entry_notification num e c"
    using assms by (auto simp: admit_entry_def split: option.splits if_splits)
  then show "nt_id n = ''log:'' @ digits_of_nat (le_id e)" "nt_at n = le_at e" "nt_category n \<noteq> CatDrone"
    by (cases "le_source e"; auto simp: entry_notification_def)+
qed

lemma merged_feed_ids:
  assumes "distinct (map trk_track_id (fi_tracks i))" "distinct (map le_id (fi_entries i))"
  shows "distinct (map nt_id (merged_feed num i))"
proof -
  let ?ts = "map track_notification (fi_tracks i)"
  let ?es = "\<lambda>cs least. List.map_filter (admit_entry num cs least) (fi_entries i)"
  have 1: "distinct (map nt_id ?ts)"
    using assms(1) by (simp add: track_notification_def comp_def distinct_map inj_on_def)
  have 2: "nt_id ` set (List.map_filter (admit_entry num cs least) es) \<subseteq>
      (\<lambda>e. ''log:'' @ digits_of_nat (le_id e)) ` set es" for cs least es
    by (induction es) (auto simp: List.map_filter_simps dest: admit_entry_shape split: option.splits)
  have 3: "distinct (map nt_id (List.map_filter (admit_entry num cs least) es))"
    if "distinct (map le_id es)" for cs least es
    using that
  proof (induction es)
    case (Cons e es)
    then show ?case
      using 2 [of cs least es] by (auto simp: List.map_filter_simps admit_entry_shape split: option.splits)
  qed (simp add: List.map_filter_simps)
  have 4: "set (map nt_id ?ts) \<inter> set (map nt_id (?es cs least)) = {}" for cs least
    using 2 [of cs least "fi_entries i"] by (auto simp: track_notification_def)
  show ?thesis
    unfolding merged_feed_def using 1 3 [OF assms(2)] 4
    by (simp del: set_map List.map_map)
qed

lemma merged_feed_shape:
  assumes "n \<in> set (merged_feed num i)"
  shows "(\<exists>t \<in> set (fi_tracks i). n = track_notification t) \<or>
    (\<exists>e \<in> set (fi_entries i). nt_at n = le_at e \<and> nt_category n \<noteq> CatDrone)"
proof -
  have "\<exists>e \<in> set es. nt_at n = le_at e \<and> nt_category n \<noteq> CatDrone"
    if "n \<in> set (List.map_filter (admit_entry num cs least) es)" for cs least es
    using that
    by (induction es) (auto simp: List.map_filter_simps dest: admit_entry_shape split: option.splits)
  then show ?thesis using assms by (auto simp: merged_feed_def split: if_splits)
qed

lemma merged_feed_drones:
  assumes "is_category_enabled (fi_categories i) CatDrone"
  shows "filter (\<lambda>n. nt_category n = CatDrone) (merged_feed num i) = map track_notification (fi_tracks i)"
proof -
  have "filter (\<lambda>n. nt_category n = CatDrone) (List.map_filter (admit_entry num cs least) es) = []" for cs least es
    by (induction es) (auto simp: List.map_filter_simps admit_entry_shape split: option.splits)
  moreover have "filter (\<lambda>n. nt_category n = CatDrone) (map track_notification ts) = map track_notification ts" for ts
    by (induction ts) (auto simp: track_notification_def)
  ultimately show ?thesis using assms by (simp add: merged_feed_def)
qed

section \<open>The store of cleared rows\<close>

lemma drop_oldest_drop: "drop_oldest overflow dropped xs = drop (overflow - dropped) xs"
  by (induction xs arbitrary: dropped) (auto simp: drop_Cons' not_le)

lemma trim_to_drop: "trim_to n xs = drop (length xs - n) xs"
  by (simp add: trim_to_def drop_oldest_drop)

interpretation cleared: keep_newest trim_to
  by unfold_locales (auto simp: trim_to_drop suffix_drop)

lemma max_stored_pos: "0 < max_stored"
  by (simp add: max_stored_def)

lemma trim_ids_facts:
  "trim_ids (trim_ids xs @ ys) = trim_ids (xs @ ys)"
  "length xs \<le> max_stored \<Longrightarrow> trim_ids xs = xs"
  "length (trim_ids xs) \<le> max_stored"
  "distinct xs \<Longrightarrow> distinct (trim_ids xs)"
  by (simp_all add: trim_ids_def max_stored_pos cleared.keep_append cleared.keep_all
      cleared.keep_length cleared.distinct_keep)

lemma fold_set_add_fresh:
  "distinct ys \<Longrightarrow> set xs \<inter> set ys = {} \<Longrightarrow> fold set_add ys xs = xs @ ys"
  by (induction ys arbitrary: xs) (auto simp: set_add_def)

lemma distinct_fold_set_add [simp]: "distinct (fold set_add ys xs) = distinct xs"
  by (induction ys arbitrary: xs) auto

lemma read_stored_distinct: "distinct (read_stored st)"
  by (auto simp: read_stored_def split: option.split json.split)

lemma read_stored_persisted: "distinct ids \<Longrightarrow> read_stored (Some (JArr (map JStr ids))) = ids"
proof -
  assume "distinct ids"
  moreover have "List.map_filter json_text (map JStr ids) = ids"
    by (induction ids) (simp_all add: List.map_filter_simps)
  ultimately show ?thesis by (simp add: read_stored_def fold_set_add_fresh)
qed

text \<open>A store opened on an empty storage, the clears of the drawer, and reloads of the page.\<close>

inductive cleared_reach :: "cleared_store \<Rightarrow> bool" where
  first_visit: "cleared_reach (open_cleared_store None w)"
| reload: "cleared_reach s \<Longrightarrow> cleared_reach (open_cleared_store (cl_stored s) w)"
| clear_one: "cleared_reach s \<Longrightarrow> cleared_reach (clear_id i s)"
| clear_all: "cleared_reach s \<Longrightarrow> cleared_reach (clear_many ids s)"

definition cleared_inv :: "cleared_store \<Rightarrow> bool" where
  "cleared_inv s \<longleftrightarrow> distinct (cl_ids s) \<and> length (cl_ids s) \<le> max_stored \<and>
     length (read_stored (cl_stored s)) \<le> max_stored \<and>
     (cl_writable s \<longrightarrow> read_stored (cl_stored s) = cl_ids s)"

lemma persist_inv:
  assumes "cleared_inv s" "distinct ids" "length ids \<le> max_stored"
  shows "cleared_inv (emit_cleared (persist_ids (s\<lparr> cl_ids := ids \<rparr>)))"
  using assms by (auto simp: cleared_inv_def emit_cleared_def persist_ids_def read_stored_persisted)

lemma cleared_reach_inv [invars]: "cleared_reach s \<Longrightarrow> cleared_inv s"
proof (induction rule: cleared_reach.induct)
  case (first_visit w)
  then show ?case by (simp add: cleared_inv_def open_cleared_store_def read_stored_def)
next
  case (reload s w)
  then show ?case by (simp add: cleared_inv_def open_cleared_store_def read_stored_distinct)
next
  case (clear_one s i)
  then show ?case
    by (simp add: clear_id_def persist_inv trim_ids_facts(3,4) cleared_inv_def [THEN iffD1, THEN conjunct1])
next
  case (clear_all s ids)
  then show ?case
    by (simp add: clear_many_def persist_inv trim_ids_facts(3,4) cleared_inv_def [THEN iffD1, THEN conjunct1])
qed

lemma cl_ids_clear_id:
  "cl_ids (clear_id i s) = (if cleared_has s i then cl_ids s else trim_ids (cl_ids s @ [i]))"
  by (simp add: clear_id_def emit_cleared_def persist_ids_def set_add_def cleared_has_def)

lemma clears_append:
  assumes "length (cl_ids s) \<le> max_stored"
  shows "\<exists>zs. length zs \<le> length extra \<and> cl_ids (fold clear_id extra s) = trim_ids (cl_ids s @ zs)"
proof (induction extra rule: rev_induct)
  case Nil
  then show ?case using assms by (auto simp: trim_ids_facts(2))
next
  case (snoc m extra)
  then obtain zs where zs: "length zs \<le> length extra" "cl_ids (fold clear_id extra s) = trim_ids (cl_ids s @ zs)"
    by blast
  show ?case
  proof (cases "cleared_has (fold clear_id extra s) m")
    case False
    then have "cl_ids (fold clear_id (extra @ [m]) s) = trim_ids (cl_ids s @ zs @ [m])"
      using zs(2) trim_ids_facts(1) [of "cl_ids s @ zs" "[m]"] by (simp add: cl_ids_clear_id)
    then show ?thesis using zs(1) by (intro exI [of _ "zs @ [m]"]) simp
  next
    case True
    then show ?thesis using zs by (intro exI [of _ zs]) (simp add: cl_ids_clear_id)
  qed
qed

section \<open>Properties\<close>

text \<open>The feed is a function of what happened, not of the order in which it was learnt: with a
  total \<open>localeCompare\<close>, tracks and log entries of distinct ids and readable times, any
  permutation of the tracks and of the entries gives the same rows in the same order; and with
  room for all of them the drone rows are the tracks, each exactly once, whatever the severity
  floor.\<close>

theorem feed_is_canonical:
  assumes "collates lc UNIV"
    and "distinct (map trk_track_id (fi_tracks i))" "distinct (map le_id (fi_entries i))"
    and "\<forall>t \<in> set (fi_tracks i). date_parse (trk_first_seen t) \<noteq> None"
    and "\<forall>e \<in> set (fi_entries i). date_parse (le_at e) \<noteq> None"
    and "mset (fi_tracks i) = mset ts" "mset (fi_entries i) = mset es"
  shows "build_feed lc num (i\<lparr> fi_tracks := ts, fi_entries := es \<rparr>) = build_feed lc num i \<and>
    (is_category_enabled (fi_categories i) CatDrone \<and> length (merged_feed num i) \<le> fi_limit i \<longrightarrow>
      mset (filter (\<lambda>n. nt_category n = CatDrone) (build_feed lc num i)) =
      mset (map track_notification (fi_tracks i)))"
proof
  let ?A = "set (merged_feed num i)"
  have dated: "\<forall>n \<in> ?A. dated n"
    using merged_feed_shape [of _ num i] assms(4,5) by (force simp: dated_def track_notification_def)
  have coll: "collates lc (nt_id ` ?A)" using assms(1) by (simp add: collates_def)
  have d: "distinct (map nt_id (merged_feed num i))" using assms(2,3) by (rule merged_feed_ids)
  have perm: "mset (merged_feed num i) = mset (merged_feed num (i\<lparr> fi_tracks := ts, fi_entries := es \<rparr>))"
    using assms(6,7) by (simp add: merged_feed_def mset_map_filter [OF assms(7)])
  have "js_sort (by_newest_first lc) (merged_feed num i) =
      js_sort (by_newest_first lc) (merged_feed num (i\<lparr> fi_tracks := ts, fi_entries := es \<rparr>))"
    using d by (intro js_sort_unique [OF by_newest_first_consistent [OF coll dated] _ perm]
        by_newest_first_strict [OF coll dated]) (simp_all add: distinct_map)
  then show "build_feed lc num (i\<lparr> fi_tracks := ts, fi_entries := es \<rparr>) = build_feed lc num i"
    by (simp add: build_feed_def)
  show "is_category_enabled (fi_categories i) CatDrone \<and> length (merged_feed num i) \<le> fi_limit i \<longrightarrow>
      mset (filter (\<lambda>n. nt_category n = CatDrone) (build_feed lc num i)) =
      mset (map track_notification (fi_tracks i))"
    using merged_feed_drones [of i num] mset_filter_js_sort [of "\<lambda>n. nt_category n = CatDrone"]
    by (metis build_feed_def length_js_sort mset_map take_all)
qed

definition sample_feed :: feed_input where
  "sample_feed = \<lparr> fi_tracks = [sample_track, sample_track\<lparr> trk_track_id := ''T2'' \<rparr>], fi_entries = [],
     fi_categories = None, fi_min_level = Some Error, fi_limit = 200 \<rparr>"

theorem feed_is_canonical_witness:
  "build_feed code_unit_compare (\<lambda>_. []) (sample_feed\<lparr> fi_tracks := rev (fi_tracks sample_feed),
     fi_entries := [] \<rparr>) = build_feed code_unit_compare (\<lambda>_. []) sample_feed"
proof (rule feed_is_canonical [THEN conjunct1])
  have "date_parse (trk_first_seen sample_track) \<noteq> None" by code_simp
  then show "\<forall>t \<in> set (fi_tracks sample_feed). date_parse (trk_first_seen t) \<noteq> None"
    by (simp add: sample_feed_def)
qed (simp_all add: sample_feed_def sample_track_def collates_code_unit_compare)

text \<open>What was cleared stays hidden: after rows none of which was cleared before are cleared
  together, every one of them is still cleared after any further single clears, as long as there
  are at most 500 of both; the store never holds extra than 500 ids or one twice; and when the
  storage can be written, a reload of the page finds exactly the same ids.\<close>

theorem cleared_rows_stay_hidden:
  assumes "cleared_reach s" and "distinct ids" "\<forall>i \<in> set ids. \<not> cleared_has s i"
    and "length ids + length further \<le> max_stored"
    and "s' = fold clear_id further (clear_many ids s)"
  shows "list_all (cleared_has s') ids \<and>
    filter (\<lambda>n. nt_id n \<in> set ids) (shown_rows s' feed) = [] \<and>
    distinct (cl_ids s') \<and> length (cl_ids s') \<le> 500 \<and>
    (cl_writable s' \<longrightarrow> cl_ids (open_cleared_store (cl_stored s') w) = cl_ids s')"
proof -
  have r: "cleared_reach (fold clear_id xs (clear_many ids s))" for xs
    by (induction xs rule: rev_induct) (auto intro: cleared_reach.intros assms(1))
  have inv: "cleared_inv s'" using cleared_reach_inv [OF r [of further]] assms(5) by simp
  have "cl_ids (clear_many ids s) = trim_ids (cl_ids s @ ids)"
  proof (cases "ids = []")
    case True
    then show ?thesis using cleared_reach_inv [OF assms(1)]
      by (simp add: clear_many_def cleared_inv_def trim_ids_facts(2))
  next
    case False
    then have "\<not> list_all (cleared_has s) ids" using assms(3) by (cases ids) auto
    moreover have "fold set_add ids (cl_ids s) = cl_ids s @ ids"
      using assms(2,3) by (intro fold_set_add_fresh) (auto simp: cleared_has_def)
    ultimately show ?thesis by (simp add: clear_many_def emit_cleared_def persist_ids_def)
  qed
  moreover obtain zs where zs: "length zs \<le> length further"
    "cl_ids s' = trim_ids (cl_ids (clear_many ids s) @ zs)"
    using clears_append [of "clear_many ids s" further] cleared_reach_inv [OF r [of "[]"]] assms(5)
    by (auto simp: cleared_inv_def)
  ultimately have "cl_ids s' = trim_ids (cl_ids s @ ids @ zs)"
    using trim_ids_facts(1) [of "cl_ids s @ ids" zs] by simp
  then have "set ids \<subseteq> set (cl_ids s')"
    using assms(4) zs(1) by (auto simp: trim_ids_def trim_to_drop)
  then show ?thesis
    using inv by (auto simp: list_all_iff cleared_has_def cleared_inv_def shown_rows_def max_stored_def
        open_cleared_store_def filter_empty_conv)
qed

theorem cleared_rows_stay_hidden_witness:
  "list_all (cleared_has (fold clear_id [''log:3''] (clear_many [''track:A'', ''log:1''] (open_cleared_store None True))))
     [''track:A'', ''log:1'']"
  by (rule cleared_rows_stay_hidden [THEN conjunct1, OF cleared_reach.first_visit _ _ _ refl])
    (simp_all add: cleared_has_def open_cleared_store_def read_stored_def max_stored_def)

end
