(* ===== verification/UnitEvents.thy ===== *)
theory UnitEvents
  imports LogStore ApiTypes
begin

text \<open>
  \<open>features/deploy/unit-events.ts\<close>: what the unit did to itself, read off two polled status
  documents. Only a transition between two readings is an event.
\<close>

section \<open>The reducers\<close>

record unit_event =
  ue_level :: log_level
  ue_message :: string
  ue_detail :: log_detail

record unit_memo =
  um_deploy_result :: "string option"
  um_deploy_commit :: "string option"
  um_watchdog_actions :: "int option"
  um_needs_hands :: "string option"

definition empty_memo :: unit_memo where
  "empty_memo = \<lparr> um_deploy_result = None, um_deploy_commit = None, um_watchdog_actions = None,
     um_needs_hands = None \<rparr>"

text \<open>A detail whose value is undefined is left out of the record here.\<close>

definition detail_of :: "(string \<times> detail_value option) list \<Rightarrow> log_detail" where
  "detail_of kvs = List.map_filter (\<lambda>(k, v). map_option (\<lambda>x. (k, x)) v) kvs"

text \<open>The switch over the new result.\<close>

definition deploy_event :: "string option \<Rightarrow> deployment_status \<Rightarrow> unit_event list" where
  "deploy_event previous_commit status =
     (if dep_last_result status = Some ''deploying'' then
        [\<lparr> ue_level = Info,
           ue_message = ''Deploy started on the unit '' @ em_dash @ '' services restart as it goes'',
           ue_detail = detail_of [(''from'', map_option (\<lambda>c. DStr (take 8 c)) previous_commit)] \<rparr>]
      else if dep_last_result status = Some ''deployed'' then
        [\<lparr> ue_level = Info, ue_message = ''Deployed '' @ take 8 (nullish (dep_commit status) []),
           ue_detail = detail_of [(''subject'', map_option DStr (dep_commit_subject status)),
             (''ok'', map_option DBool (dep_last_deploy_ok status))] \<rparr>]
      else if dep_last_result status = Some ''rebuilt'' then
        [\<lparr> ue_level = Info,
           ue_message = ''Rebuilt a stale build artefact; the tree was already current'',
           ue_detail = detail_of [(''reason'', map_option DStr (dep_last_reason status))] \<rparr>]
      else if dep_last_result status = Some ''failed'' then
        [\<lparr> ue_level = Error, ue_message = ''Deploy failed on the unit'',
           ue_detail = detail_of [(''reason'', map_option DStr (dep_last_reason status))] \<rparr>]
      else [])"

definition deployment_events ::
  "unit_memo \<Rightarrow> deployment_status option \<Rightarrow> unit_event list \<times> unit_memo" where
  "deployment_events previous status =
     (case status of
        None \<Rightarrow> ([], previous)
      | Some st \<Rightarrow>
          if \<not> dep_configured st then ([], previous)
          else
            let memo = previous\<lparr> um_deploy_result := dep_last_result st, um_deploy_commit := dep_commit st \<rparr>
            in if um_deploy_result previous = None then ([], memo)
               else if dep_last_result st \<noteq> um_deploy_result previous
               then (deploy_event (um_deploy_commit previous) st, memo)
               else ([], memo))"

definition repair_event :: "int \<Rightarrow> watchdog_status \<Rightarrow> unit_event list" where
  "repair_event before status =
     (if before < wd_actions_taken status then
        let made = wd_actions_taken status - before
        in [\<lparr> ue_level = Warn,
              ue_message = ''The watchdog repaired something ('' @ string_of_int made @ '' action'' @
                (if made = 1 then [] else ''s'') @ '')'',
              ue_detail = detail_of [(''last_line'', map_option DStr
                (case wd_log status of None \<Rightarrow> None | Some [] \<Rightarrow> None | Some ls \<Rightarrow> Some (last ls)))] \<rparr>]
      else [])"

definition gave_up_event :: "string option \<Rightarrow> watchdog_status \<Rightarrow> unit_event list" where
  "gave_up_event before status =
     (if truthy (wd_needs_hands status) \<and> wd_needs_hands status \<noteq> before
      then [\<lparr> ue_level = Error,
              ue_message = ''The watchdog has given up: '' @ nullish (wd_needs_hands status) [],
              ue_detail = [] \<rparr>]
      else [])"

definition watchdog_events ::
  "unit_memo \<Rightarrow> watchdog_status option \<Rightarrow> unit_event list \<times> unit_memo" where
  "watchdog_events previous status =
     (case status of
        None \<Rightarrow> ([], previous)
      | Some st \<Rightarrow>
          if \<not> wd_configured st then ([], previous)
          else
            let memo = previous\<lparr> um_watchdog_actions := Some (wd_actions_taken st),
                  um_needs_hands := wd_needs_hands st \<rparr>
            in (case um_watchdog_actions previous of
                  None \<Rightarrow> ([], memo)
                | Some n \<Rightarrow> (repair_event n st @ gave_up_event (um_needs_hands previous) st, memo)))"

section \<open>A session of polls\<close>

text \<open>
  \<open>use-unit-events.ts\<close> keeps one memo for both and feeds each reading to its reducer as it
  arrives.
\<close>

datatype reading = DeployReading "deployment_status option" | WatchdogReading "watchdog_status option"

fun unit_poll :: "unit_memo \<Rightarrow> reading \<Rightarrow> unit_event list \<times> unit_memo" where
  "unit_poll m (DeployReading st) = deployment_events m st"
| "unit_poll m (WatchdogReading st) = watchdog_events m st"

fun unit_session :: "unit_memo \<Rightarrow> reading list \<Rightarrow> unit_event list" where
  "unit_session m [] = []"
| "unit_session m (r # rs) = (let (es, m') = unit_poll m r in es @ unit_session m' rs)"

text \<open>The two effects of the hook: each event becomes an entry of the session log.\<close>

definition unit_log_input :: "unit_event \<Rightarrow> log_input" where
  "unit_log_input e =
     \<lparr> li_at = None, li_level = ue_level e, li_source = SrcDeploy, li_message = ue_message e,
       li_detail = Some (ue_detail e), li_track_id = None \<rparr>"

definition unit_effect :: "int \<Rightarrow> reading \<Rightarrow> unit_memo \<times> log_store \<Rightarrow> unit_memo \<times> log_store" where
  "unit_effect now r ms =
     (let (es, m) = unit_poll (fst ms) r
      in (m, fold (\<lambda>e. log_append now (unit_log_input e)) es (snd ms)))"

section \<open>The reference: transitions between consecutive readings\<close>

definition deploy_transition :: "deployment_status \<Rightarrow> deployment_status \<Rightarrow> unit_event list" where
  "deploy_transition a b =
     (if dep_last_result a = None \<or> dep_last_result b = dep_last_result a then []
      else deploy_event (dep_commit a) b)"

definition watchdog_transition :: "watchdog_status \<Rightarrow> watchdog_status \<Rightarrow> unit_event list" where
  "watchdog_transition a b =
     repair_event (wd_actions_taken a) b @ gave_up_event (wd_needs_hands a) b"

fun between :: "('a \<Rightarrow> 'a \<Rightarrow> 'b list) \<Rightarrow> 'a list \<Rightarrow> 'b list" where
  "between f (a # b # xs) = f a b @ between f (b # xs)"
| "between f _ = []"

fun deploy_doc :: "reading \<Rightarrow> deployment_status option" where
  "deploy_doc (DeployReading (Some st)) = (if dep_configured st then Some st else None)"
| "deploy_doc _ = None"

fun watchdog_doc :: "reading \<Rightarrow> watchdog_status option" where
  "watchdog_doc (WatchdogReading (Some st)) = (if wd_configured st then Some st else None)"
| "watchdog_doc _ = None"

text \<open>What the memo remembers of the last readings that counted.\<close>

definition remembers :: "unit_memo \<Rightarrow> deployment_status option \<Rightarrow> watchdog_status option \<Rightarrow> bool" where
  "remembers m d w \<longleftrightarrow>
     um_deploy_result m = Option.bind d dep_last_result \<and> um_deploy_commit m = Option.bind d dep_commit \<and>
     um_watchdog_actions m = map_option wd_actions_taken w \<and> um_needs_hands m = Option.bind w wd_needs_hands"

definition opt_list :: "'a option \<Rightarrow> 'a list" where
  "opt_list o1 = (case o1 of None \<Rightarrow> [] | Some x \<Rightarrow> [x])"

lemma opt_list_simps [simp]: "opt_list None = []" "opt_list (Some x) = [x]"
  by (simp_all add: opt_list_def)

lemma between_opt: "between f (opt_list p @ x # xs) = (case p of None \<Rightarrow> [] | Some a \<Rightarrow> f a x) @ between f (x # xs)"
  by (cases p) simp_all

lemma unit_poll_deploy:
  assumes "remembers m d w" "deploy_doc r = Some st"
  shows "unit_poll m r = (case d of None \<Rightarrow> [] | Some a \<Rightarrow> deploy_transition a st, snd (unit_poll m r)) \<and>
    remembers (snd (unit_poll m r)) (Some st) w \<and> watchdog_doc r = None"
  using assms
  by (cases r rule: deploy_doc.cases; cases d)
    (auto simp: remembers_def deployment_events_def deploy_transition_def Let_def split: if_splits)

lemma unit_poll_watchdog:
  assumes "remembers m d w" "watchdog_doc r = Some st"
  shows "unit_poll m r = (case w of None \<Rightarrow> [] | Some a \<Rightarrow> watchdog_transition a st, snd (unit_poll m r)) \<and>
    remembers (snd (unit_poll m r)) d (Some st) \<and> deploy_doc r = None"
  using assms
  by (cases r rule: watchdog_doc.cases; cases w)
    (auto simp: remembers_def watchdog_events_def watchdog_transition_def Let_def split: if_splits)

lemma unit_poll_nothing:
  assumes "deploy_doc r = None" "watchdog_doc r = None"
  shows "unit_poll m r = ([], m)"
proof (cases r)
  case (DeployReading st)
  then show ?thesis using assms by (cases st) (auto simp: deployment_events_def split: if_splits)
next
  case (WatchdogReading st)
  then show ?thesis using assms by (cases st) (auto simp: watchdog_events_def split: if_splits)
qed

lemma unit_session_transitions:
  "remembers m d w \<Longrightarrow> mset (unit_session m rs) =
     mset (between deploy_transition (opt_list d @ List.map_filter deploy_doc rs)) +
     mset (between watchdog_transition (opt_list w @ List.map_filter watchdog_doc rs))"
proof (induction rs arbitrary: m d w)
  case Nil
  then show ?case by (cases d; cases w) (simp_all add: List.map_filter_simps)
next
  case (Cons r rs)
  consider st where "deploy_doc r = Some st" | st where "watchdog_doc r = Some st"
    | "deploy_doc r = None" "watchdog_doc r = None" by fastforce
  then show ?case
  proof cases
    case 1
    note poll = unit_poll_deploy [OF Cons.prems 1]
    obtain es m' where m': "unit_poll m r = (es, m')" by fastforce
    then have "mset (unit_session m' rs) =
        mset (between deploy_transition (st # List.map_filter deploy_doc rs)) +
        mset (between watchdog_transition (opt_list w @ List.map_filter watchdog_doc rs))"
      using Cons.IH [of m' "Some st" w] poll by simp
    then show ?thesis using poll m' 1 by (simp add: List.map_filter_simps between_opt)
  next
    case 2
    note poll = unit_poll_watchdog [OF Cons.prems 2]
    obtain es m' where m': "unit_poll m r = (es, m')" by fastforce
    then have "mset (unit_session m' rs) =
        mset (between deploy_transition (opt_list d @ List.map_filter deploy_doc rs)) +
        mset (between watchdog_transition (st # List.map_filter watchdog_doc rs))"
      using Cons.IH [of m' d "Some st"] poll by simp
    then show ?thesis using poll m' 2 by (simp add: List.map_filter_simps between_opt)
  next
    case 3
    then show ?thesis using Cons unit_poll_nothing [OF 3] by (simp add: List.map_filter_simps)
  qed
qed

section \<open>Properties\<close>

text \<open>The unit's log is the list of its transitions: over any session of polls, in any interleaving of
  the two documents and with unconfigured or missing ones among them, the events announced are
  exactly those that consecutive readings of the same document differ by, each once; the first
  reading of each, and a reading without a result before, announce nothing.\<close>

theorem unit_log_is_transitions:
  "mset (unit_session empty_memo rs) =
     mset (between deploy_transition (List.map_filter deploy_doc rs)) +
     mset (between watchdog_transition (List.map_filter watchdog_doc rs))"
  using unit_session_transitions [of empty_memo None None rs]
  by (simp add: remembers_def empty_memo_def)

end
