(* ===== verification/AppUpdate.thy ===== *)
theory AppUpdate
  imports Prelude
begin

text \<open>
  \<open>features/offline/app-update.ts\<close>: the watcher that offers a new build and applies it when its
  \<open>applyUpdate\<close> is called. The module speaks of the operator accepting the offer, but the one caller is
  the effect of \<open>useAppUpdate\<close>, which calls it by itself (\<open>Offline\<close>). The service worker registration and container are the browser's; their
  state, and which of the watcher's handlers are attached to them, are part of the record.
\<close>

section \<open>The watcher and the browser around it\<close>

datatype update_status = UpdIdle | UpdAvailable | UpdApplying

datatype worker_state = Installing | Installed | Activating | Activated | Redundant

text \<open>
  Workers are numbered. \<open>aw_statechange\<close> are the workers the \<open>onInstalledStateChange\<close> handler is
  attached to; \<open>aw_polls\<close> counts the calls of \<open>registration.update()\<close>, whose failure is swallowed;
  \<open>aw_heard\<close> is what the subscribers were told; \<open>aw_posted\<close> the workers sent \<open>SKIP_WAITING\<close>.
\<close>

record update_watcher =
  aw_status :: update_status
  aw_timer :: bool
  aw_started :: bool
  aw_applying :: bool
  aw_watched :: "nat option"
  aw_waiting :: "nat option"
  aw_installing :: "nat option"
  aw_worker_state :: "nat \<Rightarrow> worker_state"
  aw_controller :: bool
  aw_on_update_found :: bool
  aw_on_controller_change :: bool
  aw_statechange :: "nat set"
  aw_polls :: nat
  aw_heard :: "update_status list"
  aw_posted :: "nat list"
  aw_reloads :: nat

definition set_status :: "update_status \<Rightarrow> update_watcher \<Rightarrow> update_watcher" where
  "set_status st s =
     (if aw_status s = st then s else s\<lparr> aw_status := st, aw_heard := aw_heard s @ [st] \<rparr>)"

definition offer_if_superseding :: "update_watcher \<Rightarrow> update_watcher" where
  "offer_if_superseding s = (if \<not> aw_controller s then s else set_status UpdAvailable s)"

definition unwatch :: "update_watcher \<Rightarrow> update_watcher" where
  "unwatch s =
     (let s' = (case aw_watched s of None \<Rightarrow> s
                | Some w \<Rightarrow> s\<lparr> aw_statechange := aw_statechange s - {w} \<rparr>)
      in s'\<lparr> aw_watched := None \<rparr>)"

definition watch_installing :: "update_watcher \<Rightarrow> update_watcher" where
  "watch_installing s =
     (case aw_installing s of None \<Rightarrow> s
      | Some w \<Rightarrow>
          let s' = (unwatch s)\<lparr> aw_watched := Some w \<rparr>
          in if aw_worker_state s' w = Installed then offer_if_superseding s'
             else s'\<lparr> aw_statechange := insert w (aw_statechange s') \<rparr>)"

definition on_installed_state_change :: "update_watcher \<Rightarrow> update_watcher" where
  "on_installed_state_change s =
     (case aw_watched s of None \<Rightarrow> s
      | Some w \<Rightarrow>
          let s' = (if aw_worker_state s w = Installed then offer_if_superseding s else s)
          in if aw_worker_state s' w = Redundant then unwatch s' else s')"

definition on_controller_change :: "update_watcher \<Rightarrow> update_watcher" where
  "on_controller_change s = (if aw_applying s then s\<lparr> aw_reloads := Suc (aw_reloads s) \<rparr> else s)"

definition check_now :: "update_watcher \<Rightarrow> update_watcher" where
  "check_now s = s\<lparr> aw_polls := Suc (aw_polls s) \<rparr>"

definition start_watcher :: "update_watcher \<Rightarrow> update_watcher" where
  "start_watcher s =
     (if aw_started s then s
      else
        let s1 = s\<lparr> aw_started := True, aw_on_update_found := True, aw_on_controller_change := True \<rparr>;
            s2 = (if aw_waiting s1 \<noteq> None then offer_if_superseding s1
                  else if aw_installing s1 \<noteq> None then watch_installing s1 else s1)
        in s2\<lparr> aw_timer := True \<rparr>)"

definition stop_watcher :: "update_watcher \<Rightarrow> update_watcher" where
  "stop_watcher s =
     (if \<not> aw_started s then s
      else
        let s1 = s\<lparr> aw_started := False, aw_on_update_found := False, aw_on_controller_change := False \<rparr>;
            s2 = unwatch s1
        in if aw_timer s2 then s2\<lparr> aw_timer := False \<rparr> else s2)"

definition apply_update :: "update_watcher \<Rightarrow> update_watcher" where
  "apply_update s =
     (case aw_waiting s of None \<Rightarrow> s
      | Some w \<Rightarrow>
          if aw_status s \<noteq> UpdAvailable then s
          else
            let s' = set_status UpdApplying (s\<lparr> aw_applying := True \<rparr>)
            in s'\<lparr> aw_posted := aw_posted s' @ [w] \<rparr>)"

section \<open>Events\<close>

text \<open>
  The calls of the console, and what the browser does: an install begins, a worker changes state
  (an installed worker becomes the waiting one), or a worker takes the page over, which is the
  waiting one if there is one. A handler runs only while it is attached.
\<close>

datatype update_event =
    Start | Stop | Poll | Apply_Call
  | Begin_Install nat
  | Change_State nat worker_state
  | Take_Over

fun update_step :: "update_watcher \<Rightarrow> update_event \<Rightarrow> update_watcher" where
  "update_step s Start = start_watcher s"
| "update_step s Stop = stop_watcher s"
| "update_step s Poll = (if aw_timer s then check_now s else s)"
| "update_step s Apply_Call = apply_update s"
| "update_step s (Begin_Install w) =
     (let s' = s\<lparr> aw_installing := Some w, aw_worker_state := (aw_worker_state s)(w := Installing) \<rparr>
      in if aw_on_update_found s' then watch_installing s' else s')"
| "update_step s (Change_State w st) =
     (let s1 = s\<lparr> aw_worker_state := (aw_worker_state s)(w := st) \<rparr>;
          s2 = (if st \<noteq> Installing \<and> aw_installing s1 = Some w then s1\<lparr> aw_installing := None \<rparr> else s1);
          s3 = (if st = Installed then s2\<lparr> aw_waiting := Some w \<rparr>
                else if aw_waiting s2 = Some w then s2\<lparr> aw_waiting := None \<rparr> else s2)
      in if w \<in> aw_statechange s3 then on_installed_state_change s3 else s3)"
| "update_step s Take_Over =
     (let s' = s\<lparr> aw_controller := True, aw_waiting := None \<rparr>
      in if aw_on_controller_change s' then on_controller_change s' else s')"

definition update_run :: "update_watcher \<Rightarrow> update_event list \<Rightarrow> update_watcher" where
  "update_run s evs = foldl update_step s evs"

text \<open>A page that has just loaded: whatever the browser holds, nothing is attached yet.\<close>

definition page_loaded ::
  "nat option \<Rightarrow> nat option \<Rightarrow> (nat \<Rightarrow> worker_state) \<Rightarrow> bool \<Rightarrow> update_watcher" where
  "page_loaded waiting installing state controlled =
     \<lparr> aw_status = UpdIdle, aw_timer = False, aw_started = False, aw_applying = False,
       aw_watched = None, aw_waiting = waiting, aw_installing = installing, aw_worker_state = state,
       aw_controller = controlled, aw_on_update_found = False, aw_on_controller_change = False,
       aw_statechange = {}, aw_polls = 0, aw_heard = [], aw_posted = [], aw_reloads = 0 \<rparr>"

text \<open>The states a session of the page goes through.\<close>

inductive update_reach :: "update_watcher \<Rightarrow> bool" where
  loaded: "update_reach (page_loaded waiting installing state controlled)"
| step: "update_reach s \<Longrightarrow> update_reach (update_step s e)"

inductive_cases update_reach_cases: "update_reach s"

lemmas watcher_defs =
  set_status_def offer_if_superseding_def unwatch_def watch_installing_def
  on_installed_state_change_def on_controller_change_def check_now_def start_watcher_def
  stop_watcher_def apply_update_def Let_def

section \<open>The invariant\<close>

definition handlers_inv :: "update_watcher \<Rightarrow> bool" where
  "handlers_inv s \<longleftrightarrow> aw_timer s = aw_started s \<and> aw_on_update_found s = aw_started s \<and>
     aw_on_controller_change s = aw_started s"

text \<open>At most the watched worker reports to the watcher, and only while it runs.\<close>

definition watched_inv :: "update_watcher \<Rightarrow> bool" where
  "watched_inv s \<longleftrightarrow> aw_statechange s \<subseteq> set_option (aw_watched s) \<and>
     (aw_watched s \<noteq> None \<longrightarrow> aw_started s)"

text \<open>What a call of \<open>applyUpdate\<close> has to do with what happened.\<close>

definition accept_inv :: "update_watcher \<Rightarrow> bool" where
  "accept_inv s \<longleftrightarrow> (aw_status s = UpdAvailable \<longrightarrow> aw_controller s) \<and>
     (aw_applying s \<longleftrightarrow> aw_posted s \<noteq> []) \<and> (aw_status s = UpdApplying \<longrightarrow> aw_posted s \<noteq> []) \<and>
     (0 < aw_reloads s \<longrightarrow> aw_posted s \<noteq> [])"

lemma untouched_flags [simp]:
  "aw_started (offer_if_superseding s) = aw_started s"
  "aw_timer (offer_if_superseding s) = aw_timer s"
  "aw_on_update_found (offer_if_superseding s) = aw_on_update_found s"
  "aw_on_controller_change (offer_if_superseding s) = aw_on_controller_change s"
  "aw_watched (offer_if_superseding s) = aw_watched s"
  "aw_statechange (offer_if_superseding s) = aw_statechange s"
  "aw_controller (offer_if_superseding s) = aw_controller s"
  "aw_worker_state (offer_if_superseding s) = aw_worker_state s"
  "aw_installing (offer_if_superseding s) = aw_installing s"
  "aw_waiting (offer_if_superseding s) = aw_waiting s"
  "aw_applying (offer_if_superseding s) = aw_applying s"
  "aw_posted (offer_if_superseding s) = aw_posted s"
  "aw_reloads (offer_if_superseding s) = aw_reloads s"
  by (simp_all add: offer_if_superseding_def set_status_def)

lemma unwatch_flags [simp]:
  "aw_started (unwatch s) = aw_started s" "aw_timer (unwatch s) = aw_timer s"
  "aw_on_update_found (unwatch s) = aw_on_update_found s"
  "aw_on_controller_change (unwatch s) = aw_on_controller_change s"
  "aw_watched (unwatch s) = None"
  "aw_statechange (unwatch s) = aw_statechange s - set_option (aw_watched s)"
  "aw_controller (unwatch s) = aw_controller s" "aw_worker_state (unwatch s) = aw_worker_state s"
  "aw_status (unwatch s) = aw_status s" "aw_applying (unwatch s) = aw_applying s"
  "aw_waiting (unwatch s) = aw_waiting s" "aw_installing (unwatch s) = aw_installing s"
  "aw_posted (unwatch s) = aw_posted s" "aw_reloads (unwatch s) = aw_reloads s"
  by (simp_all add: unwatch_def Let_def split: option.split)

lemma accept_inv_offer: "accept_inv s \<Longrightarrow> accept_inv (offer_if_superseding s)"
  by (auto simp: accept_inv_def offer_if_superseding_def set_status_def)

lemma watch_installing_inv:
  "handlers_inv (watch_installing s) = handlers_inv s"
  "watched_inv s \<Longrightarrow> aw_started s \<Longrightarrow> watched_inv (watch_installing s)"
  "accept_inv s \<Longrightarrow> accept_inv (watch_installing s)"
  "aw_started (watch_installing s) = aw_started s"
proof -
  show "handlers_inv (watch_installing s) = handlers_inv s" "aw_started (watch_installing s) = aw_started s"
    by (simp_all add: watch_installing_def handlers_inv_def Let_def split: option.split)
  show "watched_inv (watch_installing s)" if "watched_inv s" "aw_started s"
    using that by (auto simp: watch_installing_def watched_inv_def Let_def split: option.split)
  have "accept_inv (unwatch s\<lparr> aw_watched := Some w \<rparr>)" "accept_inv (unwatch s\<lparr> aw_watched := Some w, aw_statechange := A \<rparr>)"
    if "accept_inv s" for w A using that by (simp_all add: accept_inv_def)
  then show "accept_inv (watch_installing s)" if "accept_inv s"
    using that by (auto simp: watch_installing_def Let_def accept_inv_offer split: option.split)
qed

lemma on_installed_state_change_inv:
  "handlers_inv (on_installed_state_change s) = handlers_inv s"
  "watched_inv s \<Longrightarrow> watched_inv (on_installed_state_change s)"
  "accept_inv s \<Longrightarrow> accept_inv (on_installed_state_change s)"
proof -
  show "handlers_inv (on_installed_state_change s) = handlers_inv s"
    by (simp add: on_installed_state_change_def handlers_inv_def Let_def split: option.split)
  show "watched_inv (on_installed_state_change s)" if "watched_inv s"
    using that by (auto simp: on_installed_state_change_def watched_inv_def Let_def split: option.split)
  have "accept_inv t \<Longrightarrow> accept_inv (unwatch t)" for t by (simp add: accept_inv_def)
  then show "accept_inv (on_installed_state_change s)" if "accept_inv s"
    using that by (auto simp: on_installed_state_change_def Let_def accept_inv_offer split: option.split)
qed

definition update_inv :: "update_watcher \<Rightarrow> bool" where
  "update_inv s \<longleftrightarrow> handlers_inv s \<and> watched_inv s \<and> accept_inv s"

lemma start_watcher_inv: "update_inv s \<Longrightarrow> update_inv (start_watcher s)"
proof -
  assume inv: "update_inv s"
  let ?s = "s\<lparr> aw_started := True, aw_on_update_found := True, aw_on_controller_change := True \<rparr>"
  let ?t = "if aw_waiting ?s \<noteq> None then offer_if_superseding ?s
    else if aw_installing ?s \<noteq> None then watch_installing ?s else ?s"
  have a: "accept_inv ?s" "watched_inv ?s" using inv by (simp_all add: update_inv_def accept_inv_def watched_inv_def)
  have "accept_inv ?t" using a by (simp add: accept_inv_offer watch_installing_inv)
  moreover have "watched_inv ?t" using a by (simp add: watch_installing_inv) (simp add: watched_inv_def)
  moreover have "handlers_inv (?t\<lparr> aw_timer := True \<rparr>)"
    using watch_installing_inv(1) [of "?s\<lparr> aw_timer := True \<rparr>"] by (simp add: handlers_inv_def watch_installing_def Let_def split: option.split)
  ultimately have "update_inv (?t\<lparr> aw_timer := True \<rparr>)"
    by (simp add: update_inv_def watched_inv_def accept_inv_def)
  then show ?thesis using inv by (simp add: start_watcher_def Let_def)
qed

lemma stop_watcher_inv: "update_inv s \<Longrightarrow> update_inv (stop_watcher s)"
  by (auto simp: stop_watcher_def Let_def update_inv_def handlers_inv_def watched_inv_def accept_inv_def)

lemma apply_update_inv: "update_inv s \<Longrightarrow> update_inv (apply_update s)"
  by (auto simp: apply_update_def set_status_def Let_def update_inv_def handlers_inv_def watched_inv_def
      accept_inv_def split: option.split)

lemma update_inv_step: "update_inv s \<Longrightarrow> update_inv (update_step s e)"
proof (cases e)
  case (Begin_Install w)
  let ?s = "s\<lparr> aw_installing := Some w, aw_worker_state := (aw_worker_state s)(w := Installing) \<rparr>"
  assume "update_inv s"
  then have "handlers_inv ?s" "watched_inv ?s" "accept_inv ?s"
    by (simp_all add: update_inv_def handlers_inv_def watched_inv_def accept_inv_def)
  moreover have "aw_started s" if "aw_on_update_found s" using that \<open>handlers_inv ?s\<close> by (simp add: handlers_inv_def)
  ultimately show ?thesis
    by (simp add: Begin_Install update_inv_def watch_installing_inv Let_def)
next
  case (Change_State w st)
  assume inv: "update_inv s"
  have same: "update_inv (s\<lparr> aw_worker_state := f, aw_installing := i, aw_waiting := v \<rparr>)"
    "update_inv (s\<lparr> aw_worker_state := f, aw_waiting := v \<rparr>)"
    "update_inv (s\<lparr> aw_worker_state := f, aw_installing := i \<rparr>)"
    "update_inv (s\<lparr> aw_worker_state := f \<rparr>)" for f i v
    using inv by (simp_all add: update_inv_def handlers_inv_def watched_inv_def accept_inv_def)
  have "update_inv t \<Longrightarrow> update_inv (if b then on_installed_state_change t else t)" for b t
    by (simp add: update_inv_def on_installed_state_change_inv)
  note fires = this
  show ?thesis
    unfolding Change_State update_step.simps Let_def by (rule fires) (simp add: same)
next
  case Take_Over
  assume "update_inv s"
  then show ?thesis
    by (auto simp: Take_Over Let_def on_controller_change_def update_inv_def handlers_inv_def
        watched_inv_def accept_inv_def)
qed (simp_all add: start_watcher_inv stop_watcher_inv apply_update_inv check_now_def,
     simp add: update_inv_def handlers_inv_def watched_inv_def accept_inv_def)

lemma update_reach_inv [invars]: "update_reach s \<Longrightarrow> update_inv s"
proof (induction rule: update_reach.induct)
  case (loaded waiting installing state controlled)
  then show ?case
    by (simp add: update_inv_def handlers_inv_def watched_inv_def accept_inv_def page_loaded_def)
qed (rule update_inv_step)

section \<open>Sessions\<close>

lemma update_run_simps [simp]:
  "update_run s [] = s" "update_run s (e # es) = update_run (update_step s e) es"
  "update_run s (xs @ ys) = update_run (update_run s xs) ys"
  by (simp_all add: update_run_def)

lemma update_run_reach: "update_reach s \<Longrightarrow> update_reach (update_run s evs)"
  by (induction evs arbitrary: s) (auto intro: update_reach.step)

text \<open>Only a call of \<open>applyUpdate\<close> posts to a worker.\<close>

lemma posted_unchanged: "e \<noteq> Apply_Call \<Longrightarrow> aw_posted (update_step s e) = aw_posted s"
  by (cases e)
    (simp_all add: start_watcher_def stop_watcher_def check_now_def watch_installing_def
      on_installed_state_change_def on_controller_change_def Let_def split: option.split)

lemma posted_without_accept: "Apply_Call \<notin> set evs \<Longrightarrow> aw_posted (update_run s evs) = aw_posted s"
  by (induction evs arbitrary: s) (auto simp: posted_unchanged)

lemma offered_when_installed:
  assumes "update_reach s" "aw_started s" "aw_controller s"
  shows "aw_status (update_run s [Begin_Install w, Change_State w Installed]) = UpdAvailable \<and>
    aw_waiting (update_run s [Begin_Install w, Change_State w Installed]) = Some w \<and>
    aw_on_controller_change (update_run s [Begin_Install w, Change_State w Installed])"
proof -
  have h: "aw_on_update_found s" "aw_on_controller_change s"
    using update_reach_inv [OF assms(1)] assms(2) by (simp_all add: update_inv_def handlers_inv_def)
  then show ?thesis using assms(3)
    by (simp add: watch_installing_def Let_def on_installed_state_change_def) (simp add: offer_if_superseding_def set_status_def)
qed

section \<open>Properties\<close>

text \<open>C9: The watcher does nothing of its own accord: from any page load, in any order of starts, stops,
  polls, installs, worker changes and takeovers (another tab's included) that holds no call of
  \<open>applyUpdate\<close>, no worker is told to take over and the page is never reloaded; and an update is offered
  only to a page that some worker already controls. Who makes that call is another matter: in this
  console the hook does, at once and without asking, as \<open>new_build_is_taken\<close> states.\<close>

theorem watcher_waits_to_be_told:
  assumes "Apply_Call \<notin> set evs" and "s = update_run (page_loaded waiting installing state controlled) evs"
  shows "aw_reloads s = 0 \<and> aw_posted s = [] \<and> aw_status s \<noteq> UpdApplying \<and>
    (aw_status s = UpdAvailable \<longrightarrow> aw_controller s)"
proof -
  have "aw_posted s = []"
    using posted_without_accept [OF assms(1)] assms(2) by (simp add: page_loaded_def)
  moreover have "update_inv s"
    using update_reach_inv [OF update_run_reach [OF update_reach.loaded]] assms(2) by simp
  ultimately show ?thesis by (auto simp: update_inv_def accept_inv_def)
qed

theorem watcher_waits_to_be_told_witness:
  "aw_reloads (update_run (page_loaded None None (\<lambda>_. Activated) True)
     [Start, Begin_Install 1, Change_State 1 Installed, Take_Over]) = 0"
  by (rule watcher_waits_to_be_told [THEN conjunct1, OF _ refl]) simp

text \<open>A build that is called for is applied: in a running watcher on a controlled page a worker that installs
  is offered; \<open>applyUpdate\<close> tells exactly that worker to take over, and the reload comes once, with
  the takeover and not before. If another tab lets the worker take over first, the status stays
  "available" and \<open>applyUpdate\<close> does nothing.\<close>

theorem accepted_update_is_applied:
  assumes "update_reach s" "aw_started s" "aw_controller s"
    and "t = update_run s [Begin_Install w, Change_State w Installed]"
  shows "aw_status t = UpdAvailable \<and>
    aw_posted (update_step t Apply_Call) = aw_posted t @ [w] \<and>
    aw_reloads (update_step t Apply_Call) = aw_reloads t \<and>
    aw_reloads (update_run t [Apply_Call, Take_Over]) = Suc (aw_reloads t) \<and>
    aw_status (update_step t Take_Over) = UpdAvailable \<and>
    update_run t [Take_Over, Apply_Call] = update_step t Take_Over"
proof -
  have t: "aw_status t = UpdAvailable" "aw_waiting t = Some w" "aw_on_controller_change t"
    using offered_when_installed [OF assms(1-3), of w] assms(4) by simp_all
  then show ?thesis
    by (simp add: apply_update_def set_status_def Let_def on_controller_change_def)
qed

theorem accepted_update_is_applied_witness:
  "aw_reloads (update_run (update_run (update_run (page_loaded None None (\<lambda>_. Activated) True) [Start])
      [Begin_Install 7, Change_State 7 Installed]) [Apply_Call, Take_Over]) =
   Suc (aw_reloads (update_run (update_run (page_loaded None None (\<lambda>_. Activated) True) [Start])
      [Begin_Install 7, Change_State 7 Installed]))"
proof -
  let ?s = "update_run (page_loaded None None (\<lambda>_. Activated) True) [Start]"
  have "update_reach ?s" by (rule update_run_reach [OF update_reach.loaded])
  moreover have "aw_started ?s" "aw_controller ?s"
    by (simp_all add: start_watcher_def page_loaded_def Let_def)
  ultimately show ?thesis using accepted_update_is_applied [of ?s, OF _ _ _ refl] by blast
qed

end
