(* ===== verification/Endpoints.thy ===== *)
theory Endpoints
  imports ApiClient
begin

text \<open>
  The \<open>api\<close> object of \<open>lib/api/client.ts\<close>: which request each of its functions makes. The body of
  a request, when it is a value the caller passes, is that value as JSON; \<open>num\<close> is the text of a
  number. What a browser makes of the path is the second half: dot segments are resolved before
  the request leaves, as the URL standard says.
\<close>

section \<open>Requests\<close>

datatype http_method = Get | Post | Put | Patch | Delete

record http_call =
  hc_method :: http_method
  hc_path :: string
  hc_body :: "json option"

definition bare :: "http_method \<Rightarrow> string \<Rightarrow> http_call" where
  "bare m p = \<lparr> hc_method = m, hc_path = p, hc_body = None \<rparr>"

definition with_body :: "http_method \<Rightarrow> string \<Rightarrow> json \<Rightarrow> http_call" where
  "with_body m p b = \<lparr> hc_method = m, hc_path = p, hc_body = Some b \<rparr>"

definition opt_param :: "string option \<Rightarrow> param" where
  "opt_param v = (case v of None \<Rightarrow> PUndef | Some s \<Rightarrow> PStr s)"

definition opt_int :: "int option \<Rightarrow> param" where
  "opt_int v = (case v of None \<Rightarrow> PUndef | Some i \<Rightarrow> PInt i)"

text \<open>A property that is undefined is left out by \<open>JSON.stringify\<close>.\<close>

definition opt_field :: "string \<Rightarrow> string option \<Rightarrow> (string \<times> json) list" where
  "opt_field k v = (case v of None \<Rightarrow> [] | Some s \<Rightarrow> [(k, JStr s)])"

section \<open>The endpoints\<close>

datatype sensing_endpoint =
    Get_Health
  | Get_System
  | Monitoring
  | Telemetry "string option" "string option"
  | Set_Monitoring bool "string option"
  | Sensors
  | Restart_Sensor string
  | Tracks tracks_query
  | Get_Track string
  | Track_Detections string detections_query
  | Detections detections_query
  | Aircraft_Labels
  | Get_Aircraft_Label string
  | Set_Aircraft_Label string json

datatype account_endpoint =
    Auth_Me
  | Login json
  | Logout
  | Setup_First_Admin json
  | Change_Password string string

datatype admin_endpoint =
    Hook_Rules
  | Create_Hook_Rule json
  | Update_Hook_Rule string json
  | Delete_Hook_Rule string
  | Test_Hook_Rule string
  | Hook_Deliveries
  | Boundaries
  | Create_Boundary json
  | Update_Boundary string json
  | Delete_Boundary string
  | Watchdog
  | Deployment
  | Deployment_History "int option"
  | Request_Deploy
  | Cancel_Deploy
  | Users
  | Create_User json
  | Update_User string json
  | Delete_User string
  | Sessions
  | Revoke_Session string

datatype radio_endpoint =
    Spectrum_Bands
  | Spectrum_Sweeps
  | Spectrum_Sweep string "int option"
  | Start_Sweep json
  | Captures
  | Get_Capture string
  | Start_Capture json
  | Stop_Capture string
  | Analyze_Capture string
  | Capture_Report string

datatype config_endpoint =
    Channel_Plan
  | Put_Channel_Plan json
  | Weights
  | Settings
  | Put_Settings "(string \<times> string) list"
  | Put_Weights json

datatype endpoint =
    Sensing sensing_endpoint
  | Account account_endpoint
  | Admin admin_endpoint
  | Radio radio_endpoint
  | Config config_endpoint

fun sensing_call :: "(real \<Rightarrow> string) \<Rightarrow> sensing_endpoint \<Rightarrow> http_call" where
  "sensing_call num Get_Health =
     bare Get ''/health''"
| "sensing_call num Get_System =
     bare Get ''/system''"
| "sensing_call num Monitoring =
     bare Get ''/monitoring''"
| "sensing_call num (Telemetry w since) =
     bare Get (''/telemetry'' @
       build_query [(''window'', opt_param w), (''since'', opt_param since)])"
| "sensing_call num (Set_Monitoring enabled reason) =
     with_body Put ''/monitoring'' (JObj ((''enabled'', JBool enabled) # opt_field ''reason'' reason))"
| "sensing_call num Sensors =
     bare Get ''/sensors''"
| "sensing_call num (Restart_Sensor i) =
     bare Post (''/sensors/'' @ encode_uri_component i @ ''/restart'')"
| "sensing_call num (Tracks q) =
     bare Get (tracks_path q num)"
| "sensing_call num (Get_Track i) =
     bare Get (''/tracks/'' @ encode_uri_component i)"
| "sensing_call num (Track_Detections i q) =
     bare Get (''/tracks/'' @ encode_uri_component i @ ''/detections'' @
       build_query [(''since'', opt_param (dq_since q)), (''limit'', opt_int (dq_limit q)), (''cursor'', opt_param (dq_cursor q))])"
| "sensing_call num (Detections q) =
     bare Get (''/detections'' @
       build_query [(''class'', PList (map class_text (nullish (dq_class q) []))), (''sensor_id'', opt_param (dq_sensor_id q)), (''since'', opt_param (dq_since q)), (''limit'', opt_int (dq_limit q)), (''cursor'', opt_param (dq_cursor q))])"
| "sensing_call num Aircraft_Labels =
     bare Get ''/aircraft/labels''"
| "sensing_call num (Get_Aircraft_Label i) =
     bare Get (''/aircraft/'' @ encode_uri_component i @ ''/label'')"
| "sensing_call num (Set_Aircraft_Label i b) =
     with_body Put (''/aircraft/'' @ encode_uri_component i @ ''/label'') b"

fun account_call :: "account_endpoint \<Rightarrow> http_call" where
  "account_call Auth_Me =
     bare Get ''/auth/me''"
| "account_call (Login b) =
     with_body Post ''/auth/login'' b"
| "account_call Logout =
     bare Post ''/auth/logout''"
| "account_call (Setup_First_Admin b) =
     with_body Post ''/auth/setup'' b"
| "account_call (Change_Password a b) =
     with_body Post ''/auth/password'' (JObj [(''current_password'', JStr a), (''new_password'', JStr b)])"

fun admin_call :: "admin_endpoint \<Rightarrow> http_call" where
  "admin_call Hook_Rules =
     bare Get ''/admin/hooks''"
| "admin_call (Create_Hook_Rule b) =
     with_body Post ''/admin/hooks'' b"
| "admin_call (Update_Hook_Rule i b) =
     with_body Put (''/admin/hooks/'' @ encode_uri_component i) b"
| "admin_call (Delete_Hook_Rule i) =
     bare Delete (''/admin/hooks/'' @ encode_uri_component i)"
| "admin_call (Test_Hook_Rule i) =
     bare Post (''/admin/hooks/'' @ encode_uri_component i @ ''/test'')"
| "admin_call Hook_Deliveries =
     bare Get ''/admin/hook-deliveries''"
| "admin_call Boundaries =
     bare Get ''/admin/boundaries''"
| "admin_call (Create_Boundary b) =
     with_body Post ''/admin/boundaries'' b"
| "admin_call (Update_Boundary i b) =
     with_body Put (''/admin/boundaries/'' @ encode_uri_component i) b"
| "admin_call (Delete_Boundary i) =
     bare Delete (''/admin/boundaries/'' @ encode_uri_component i)"
| "admin_call Watchdog =
     bare Get ''/admin/watchdog''"
| "admin_call Deployment =
     bare Get ''/admin/deployment''"
| "admin_call (Deployment_History l) =
     bare Get (''/admin/deployment/history'' @
       (case l of None \<Rightarrow> [] | Some n \<Rightarrow> ''?limit='' @ string_of_int n))"
| "admin_call Request_Deploy =
     bare Post ''/admin/deployment/deploy''"
| "admin_call Cancel_Deploy =
     bare Delete ''/admin/deployment/deploy''"
| "admin_call Users =
     bare Get ''/admin/users''"
| "admin_call (Create_User b) =
     with_body Post ''/admin/users'' b"
| "admin_call (Update_User i b) =
     with_body Patch (''/admin/users/'' @ encode_uri_component i) b"
| "admin_call (Delete_User i) =
     bare Delete (''/admin/users/'' @ encode_uri_component i)"
| "admin_call Sessions =
     bare Get ''/admin/sessions''"
| "admin_call (Revoke_Session i) =
     bare Delete (''/admin/sessions/'' @ encode_uri_component i)"

fun radio_call :: "radio_endpoint \<Rightarrow> http_call" where
  "radio_call Spectrum_Bands =
     bare Get ''/spectrum/bands''"
| "radio_call Spectrum_Sweeps =
     bare Get ''/spectrum/sweeps''"
| "radio_call (Spectrum_Sweep i n) =
     bare Get (''/spectrum/sweeps/'' @ encode_uri_component i @
       build_query [(''bins'', opt_int n)])"
| "radio_call (Start_Sweep b) =
     with_body Post ''/spectrum/sweeps'' b"
| "radio_call Captures =
     bare Get ''/captures''"
| "radio_call (Get_Capture i) =
     bare Get (''/captures/'' @ encode_uri_component i)"
| "radio_call (Start_Capture b) =
     with_body Post ''/captures'' b"
| "radio_call (Stop_Capture i) =
     bare Post (''/captures/'' @ encode_uri_component i @ ''/stop'')"
| "radio_call (Analyze_Capture i) =
     bare Post (''/captures/'' @ encode_uri_component i @ ''/analyze'')"
| "radio_call (Capture_Report i) =
     bare Get (''/captures/'' @ encode_uri_component i @ ''/report'')"

fun config_call :: "config_endpoint \<Rightarrow> http_call" where
  "config_call Channel_Plan =
     bare Get ''/config/channels''"
| "config_call (Put_Channel_Plan b) =
     with_body Put ''/config/channels'' b"
| "config_call Weights =
     bare Get ''/config/weights''"
| "config_call Settings =
     bare Get ''/config/settings''"
| "config_call (Put_Settings u) =
     with_body Put ''/config/settings'' (JObj (map (\<lambda>(k, v). (k, JStr v)) u))"
| "config_call (Put_Weights b) =
     with_body Put ''/config/weights'' b"

fun endpoint_call :: "(real \<Rightarrow> string) \<Rightarrow> endpoint \<Rightarrow> http_call" where
  "endpoint_call num (Sensing e) = sensing_call num e"
| "endpoint_call num (Account e) = account_call e"
| "endpoint_call num (Admin e) = admin_call e"
| "endpoint_call num (Radio e) = radio_call e"
| "endpoint_call num (Config e) = config_call e"

text \<open>The two functions that give a URL instead of making a request.\<close>

definition sso_start_url :: "string \<Rightarrow> string \<Rightarrow> string" where
  "sso_start_url base return_to = base @ ''/auth/sso/start'' @ build_query [(''return'', PStr return_to)]"

definition capture_download_url :: "string \<Rightarrow> string \<Rightarrow> string" where
  "capture_download_url base i = base @ ''/captures/'' @ encode_uri_component i @ ''/download''"

text \<open>What the client makes of an answer before it hands it on.\<close>

definition sensors_of_answer :: "json \<Rightarrow> json option" where
  "sensors_of_answer r = (case r of JArr _ \<Rightarrow> Some r | _ \<Rightarrow> obj_get r ''sensors'')"

definition tracks_of_answer :: "raw_track list \<Rightarrow> string option \<Rightarrow> int \<Rightarrow> tracks_response" where
  "tracks_of_answer raws cursor n =
     \<lparr> tr_tracks = map normalize_track raws, tr_next_cursor = cursor, tr_total = n \<rparr>"

section \<open>Routes\<close>

text \<open>The reference: the route of each function, its fixed segments and the identifier in its hole.\<close>

datatype segment = Fixed string | Hole string

fun sensing_route :: "sensing_endpoint \<Rightarrow> http_method \<times> segment list" where
  "sensing_route Get_Health = (Get, [Fixed ''health''])"
| "sensing_route Get_System = (Get, [Fixed ''system''])"
| "sensing_route Monitoring = (Get, [Fixed ''monitoring''])"
| "sensing_route (Telemetry _ _) = (Get, [Fixed ''telemetry''])"
| "sensing_route (Set_Monitoring _ _) = (Put, [Fixed ''monitoring''])"
| "sensing_route Sensors = (Get, [Fixed ''sensors''])"
| "sensing_route (Restart_Sensor i) = (Post, [Fixed ''sensors'', Hole i, Fixed ''restart''])"
| "sensing_route (Tracks _) = (Get, [Fixed ''tracks''])"
| "sensing_route (Get_Track i) = (Get, [Fixed ''tracks'', Hole i])"
| "sensing_route (Track_Detections i _) = (Get, [Fixed ''tracks'', Hole i, Fixed ''detections''])"
| "sensing_route (Detections _) = (Get, [Fixed ''detections''])"
| "sensing_route Aircraft_Labels = (Get, [Fixed ''aircraft'', Fixed ''labels''])"
| "sensing_route (Get_Aircraft_Label i) = (Get, [Fixed ''aircraft'', Hole i, Fixed ''label''])"
| "sensing_route (Set_Aircraft_Label i _) = (Put, [Fixed ''aircraft'', Hole i, Fixed ''label''])"

fun account_route :: "account_endpoint \<Rightarrow> http_method \<times> segment list" where
  "account_route Auth_Me = (Get, [Fixed ''auth'', Fixed ''me''])"
| "account_route (Login _) = (Post, [Fixed ''auth'', Fixed ''login''])"
| "account_route Logout = (Post, [Fixed ''auth'', Fixed ''logout''])"
| "account_route (Setup_First_Admin _) = (Post, [Fixed ''auth'', Fixed ''setup''])"
| "account_route (Change_Password _ _) = (Post, [Fixed ''auth'', Fixed ''password''])"

fun admin_route :: "admin_endpoint \<Rightarrow> http_method \<times> segment list" where
  "admin_route Hook_Rules = (Get, [Fixed ''admin'', Fixed ''hooks''])"
| "admin_route (Create_Hook_Rule _) = (Post, [Fixed ''admin'', Fixed ''hooks''])"
| "admin_route (Update_Hook_Rule i _) = (Put, [Fixed ''admin'', Fixed ''hooks'', Hole i])"
| "admin_route (Delete_Hook_Rule i) = (Delete, [Fixed ''admin'', Fixed ''hooks'', Hole i])"
| "admin_route (Test_Hook_Rule i) = (Post, [Fixed ''admin'', Fixed ''hooks'', Hole i, Fixed ''test''])"
| "admin_route Hook_Deliveries = (Get, [Fixed ''admin'', Fixed ''hook-deliveries''])"
| "admin_route Boundaries = (Get, [Fixed ''admin'', Fixed ''boundaries''])"
| "admin_route (Create_Boundary _) = (Post, [Fixed ''admin'', Fixed ''boundaries''])"
| "admin_route (Update_Boundary i _) = (Put, [Fixed ''admin'', Fixed ''boundaries'', Hole i])"
| "admin_route (Delete_Boundary i) = (Delete, [Fixed ''admin'', Fixed ''boundaries'', Hole i])"
| "admin_route Watchdog = (Get, [Fixed ''admin'', Fixed ''watchdog''])"
| "admin_route Deployment = (Get, [Fixed ''admin'', Fixed ''deployment''])"
| "admin_route (Deployment_History _) = (Get, [Fixed ''admin'', Fixed ''deployment'', Fixed ''history''])"
| "admin_route Request_Deploy = (Post, [Fixed ''admin'', Fixed ''deployment'', Fixed ''deploy''])"
| "admin_route Cancel_Deploy = (Delete, [Fixed ''admin'', Fixed ''deployment'', Fixed ''deploy''])"
| "admin_route Users = (Get, [Fixed ''admin'', Fixed ''users''])"
| "admin_route (Create_User _) = (Post, [Fixed ''admin'', Fixed ''users''])"
| "admin_route (Update_User i _) = (Patch, [Fixed ''admin'', Fixed ''users'', Hole i])"
| "admin_route (Delete_User i) = (Delete, [Fixed ''admin'', Fixed ''users'', Hole i])"
| "admin_route Sessions = (Get, [Fixed ''admin'', Fixed ''sessions''])"
| "admin_route (Revoke_Session i) = (Delete, [Fixed ''admin'', Fixed ''sessions'', Hole i])"

fun radio_route :: "radio_endpoint \<Rightarrow> http_method \<times> segment list" where
  "radio_route Spectrum_Bands = (Get, [Fixed ''spectrum'', Fixed ''bands''])"
| "radio_route Spectrum_Sweeps = (Get, [Fixed ''spectrum'', Fixed ''sweeps''])"
| "radio_route (Spectrum_Sweep i _) = (Get, [Fixed ''spectrum'', Fixed ''sweeps'', Hole i])"
| "radio_route (Start_Sweep _) = (Post, [Fixed ''spectrum'', Fixed ''sweeps''])"
| "radio_route Captures = (Get, [Fixed ''captures''])"
| "radio_route (Get_Capture i) = (Get, [Fixed ''captures'', Hole i])"
| "radio_route (Start_Capture _) = (Post, [Fixed ''captures''])"
| "radio_route (Stop_Capture i) = (Post, [Fixed ''captures'', Hole i, Fixed ''stop''])"
| "radio_route (Analyze_Capture i) = (Post, [Fixed ''captures'', Hole i, Fixed ''analyze''])"
| "radio_route (Capture_Report i) = (Get, [Fixed ''captures'', Hole i, Fixed ''report''])"

fun config_route :: "config_endpoint \<Rightarrow> http_method \<times> segment list" where
  "config_route Channel_Plan = (Get, [Fixed ''config'', Fixed ''channels''])"
| "config_route (Put_Channel_Plan _) = (Put, [Fixed ''config'', Fixed ''channels''])"
| "config_route Weights = (Get, [Fixed ''config'', Fixed ''weights''])"
| "config_route Settings = (Get, [Fixed ''config'', Fixed ''settings''])"
| "config_route (Put_Settings _) = (Put, [Fixed ''config'', Fixed ''settings''])"
| "config_route (Put_Weights _) = (Put, [Fixed ''config'', Fixed ''weights''])"

fun endpoint_route :: "endpoint \<Rightarrow> http_method \<times> segment list" where
  "endpoint_route (Sensing e) = sensing_route e"
| "endpoint_route (Account e) = account_route e"
| "endpoint_route (Admin e) = admin_route e"
| "endpoint_route (Radio e) = radio_route e"
| "endpoint_route (Config e) = config_route e"

definition api_routes :: "(http_method \<times> string option list) list" where
  "api_routes =
    [(Get, [Some ''health'']),
     (Get, [Some ''system'']),
     (Get, [Some ''monitoring'']),
     (Get, [Some ''telemetry'']),
     (Put, [Some ''monitoring'']),
     (Get, [Some ''sensors'']),
     (Post, [Some ''sensors'', None, Some ''restart'']),
     (Get, [Some ''tracks'']),
     (Get, [Some ''tracks'', None]),
     (Get, [Some ''tracks'', None, Some ''detections'']),
     (Get, [Some ''detections'']),
     (Get, [Some ''aircraft'', Some ''labels'']),
     (Get, [Some ''aircraft'', None, Some ''label'']),
     (Put, [Some ''aircraft'', None, Some ''label'']),
     (Get, [Some ''auth'', Some ''me'']),
     (Post, [Some ''auth'', Some ''login'']),
     (Post, [Some ''auth'', Some ''logout'']),
     (Post, [Some ''auth'', Some ''setup'']),
     (Post, [Some ''auth'', Some ''password'']),
     (Get, [Some ''admin'', Some ''hooks'']),
     (Post, [Some ''admin'', Some ''hooks'']),
     (Put, [Some ''admin'', Some ''hooks'', None]),
     (Delete, [Some ''admin'', Some ''hooks'', None]),
     (Post, [Some ''admin'', Some ''hooks'', None, Some ''test'']),
     (Get, [Some ''admin'', Some ''hook-deliveries'']),
     (Get, [Some ''admin'', Some ''boundaries'']),
     (Post, [Some ''admin'', Some ''boundaries'']),
     (Put, [Some ''admin'', Some ''boundaries'', None]),
     (Delete, [Some ''admin'', Some ''boundaries'', None]),
     (Get, [Some ''admin'', Some ''watchdog'']),
     (Get, [Some ''admin'', Some ''deployment'']),
     (Get, [Some ''admin'', Some ''deployment'', Some ''history'']),
     (Post, [Some ''admin'', Some ''deployment'', Some ''deploy'']),
     (Delete, [Some ''admin'', Some ''deployment'', Some ''deploy'']),
     (Get, [Some ''admin'', Some ''users'']),
     (Post, [Some ''admin'', Some ''users'']),
     (Patch, [Some ''admin'', Some ''users'', None]),
     (Delete, [Some ''admin'', Some ''users'', None]),
     (Get, [Some ''admin'', Some ''sessions'']),
     (Delete, [Some ''admin'', Some ''sessions'', None]),
     (Get, [Some ''spectrum'', Some ''bands'']),
     (Get, [Some ''spectrum'', Some ''sweeps'']),
     (Get, [Some ''spectrum'', Some ''sweeps'', None]),
     (Post, [Some ''spectrum'', Some ''sweeps'']),
     (Get, [Some ''captures'']),
     (Get, [Some ''captures'', None]),
     (Post, [Some ''captures'']),
     (Post, [Some ''captures'', None, Some ''stop'']),
     (Post, [Some ''captures'', None, Some ''analyze'']),
     (Get, [Some ''captures'', None, Some ''report'']),
     (Get, [Some ''config'', Some ''channels'']),
     (Put, [Some ''config'', Some ''channels'']),
     (Get, [Some ''config'', Some ''weights'']),
     (Get, [Some ''config'', Some ''settings'']),
     (Put, [Some ''config'', Some ''settings'']),
     (Put, [Some ''config'', Some ''weights''])]"

fun segment_text :: "segment \<Rightarrow> string" where
  "segment_text (Fixed s) = s"
| "segment_text (Hole i) = i"

fun segment_pattern :: "segment \<Rightarrow> string option" where
  "segment_pattern (Fixed s) = Some s"
| "segment_pattern (Hole i) = None"

text \<open>What the browser and the server make of a path.\<close>

fun split_path :: "string \<Rightarrow> string \<Rightarrow> string list" where
  "split_path acc [] = [rev acc]"
| "split_path acc (c # cs) =
     (if c = CHR ''?'' then [rev acc]
      else if c = CHR ''/'' then rev acc # split_path [] cs else split_path (c # acc) cs)"

fun resolve_dots :: "string list \<Rightarrow> string list \<Rightarrow> string list" where
  "resolve_dots acc [] = rev acc"
| "resolve_dots acc [s] =
     (if s = ''.'' then rev ([] # acc) else if s = ''..'' then rev ([] # drop 1 acc) else rev (s # acc))"
| "resolve_dots acc (s # t # ss) =
     (if s = ''.'' then resolve_dots acc (t # ss)
      else if s = ''..'' then resolve_dots (drop 1 acc) (t # ss) else resolve_dots (s # acc) (t # ss))"

text \<open>The segments the server sees below the base path, whose segments are \<open>base\<close>.\<close>

definition requested_segments :: "string list \<Rightarrow> string \<Rightarrow> string list" where
  "requested_segments base p = map percent_decode (resolve_dots (rev base) (drop 1 (split_path [] p)))"

definition route_matches :: "string option list \<Rightarrow> string list \<Rightarrow> bool" where
  "route_matches pat segs = list_all2 (\<lambda>p s. p = None \<or> p = Some s) pat segs"

section \<open>Lemmas\<close>

definition path_char :: "char \<Rightarrow> bool" where
  "path_char c \<longleftrightarrow> c \<noteq> CHR ''/'' \<and> c \<noteq> CHR ''?''"

fun segment_sent :: "segment \<Rightarrow> string" where
  "segment_sent (Fixed s) = s"
| "segment_sent (Hole i) = encode_uri_component i"

fun segment_ok :: "segment \<Rightarrow> bool" where
  "segment_ok (Fixed s) = (list_all path_char s \<and> percent_decode s = s \<and> s \<noteq> ''.'' \<and> s \<noteq> ''..'')"
| "segment_ok (Hole i) = (i \<noteq> ''.'' \<and> i \<noteq> ''..'')"

definition hole_ids :: "segment list \<Rightarrow> string list" where
  "hole_ids segs = List.map_filter (\<lambda>s. case s of Hole i \<Rightarrow> Some i | Fixed _ \<Rightarrow> None) segs"

definition query_text :: "string \<Rightarrow> bool" where
  "query_text q \<longleftrightarrow> (case q of [] \<Rightarrow> True | c # _ \<Rightarrow> c = CHR ''?'')"

definition route_text :: "segment list \<Rightarrow> string" where
  "route_text segs = concat (map (\<lambda>s. CHR ''/'' # segment_sent s) segs)"

lemma query_text_simps [simp]: "query_text []" "query_text (CHR ''?'' # q)"
  by (simp_all add: query_text_def)

lemma query_text_build_query [simp]: "query_text (build_query ps)"
  by (simp add: build_query_def query_text_def Let_def)

lemma split_path_plain:
  "list_all path_char s \<Longrightarrow> split_path acc (s @ rest) = split_path (rev s @ acc) rest"
  by (induction s arbitrary: acc) (auto simp: path_char_def)

lemma encoded_path_chars: "list_all path_char (encode_uri_component i)"
  using encoded_segment_safe_aux [of i] by (auto simp: list_all_iff path_char_def)

lemma segment_sent_chars: "segment_ok s \<Longrightarrow> list_all path_char (segment_sent s)"
  by (cases s) (simp_all add: encoded_path_chars)

lemma segment_sent_decode: "segment_ok s \<Longrightarrow> percent_decode (segment_sent s) = segment_text s"
  by (cases s) (simp_all add: percent_decode_encode)

lemma encode_dots: "encode_uri_component ''.'' = ''.''" "encode_uri_component ''..'' = ''..''"
  by code_simp+

lemma segment_sent_dots:
  assumes "segment_ok s"
  shows "segment_sent s \<noteq> ''.'' \<and> segment_sent s \<noteq> ''..''"
proof (cases s)
  case (Hole i)
  then show ?thesis using assms encode_dots percent_decode_encode by (metis segment_ok.simps(2) segment_sent.simps(2))
qed (use assms in simp)

lemma split_route_text:
  "list_all segment_ok segs \<Longrightarrow> query_text q \<Longrightarrow>
     split_path acc (route_text segs @ q) = rev acc # map segment_sent segs"
proof (induction segs arbitrary: acc)
  case Nil
  then show ?case by (cases q) (simp_all add: route_text_def query_text_def)
next
  case (Cons s segs)
  then have "split_path [] (segment_sent s @ route_text segs @ q) = segment_sent s # map segment_sent segs"
    by (simp add: split_path_plain segment_sent_chars)
  then show ?case by (simp add: route_text_def)
qed

lemma resolve_plain:
  "list_all (\<lambda>s. s \<noteq> ''.'' \<and> s \<noteq> ''..'') ss \<Longrightarrow> resolve_dots acc ss = rev acc @ ss"
  by (induction acc ss rule: resolve_dots.induct) auto

lemma requested_route_text:
  assumes "list_all segment_ok segs" "query_text q"
  shows "requested_segments base (route_text segs @ q) = map percent_decode base @ map segment_text segs"
proof -
  have "list_all (\<lambda>s. s \<noteq> ''.'' \<and> s \<noteq> ''..'') (map segment_sent segs)"
    using assms(1) segment_sent_dots by (auto simp: list_all_iff)
  moreover have "map percent_decode (map segment_sent segs) = map segment_text segs"
    using assms(1) segment_sent_decode by (auto simp: list_all_iff)
  ultimately show ?thesis
    by (simp add: requested_segments_def split_route_text [OF assms] resolve_plain del: map_map)
qed

lemmas call_defs = bare_def with_body_def route_text_def

lemma sensing_route_call:
  "\<exists>q. query_text q \<and> hc_path (sensing_call num e) = route_text (snd (sensing_route e)) @ q \<and>
     hc_method (sensing_call num e) = fst (sensing_route e)"
  by (cases e) (auto simp: call_defs tracks_path_def)

lemma account_route_call:
  "hc_path (account_call e) = route_text (snd (account_route e)) \<and>
     hc_method (account_call e) = fst (account_route e)"
  by (cases e) (auto simp: call_defs)

lemma admin_route_call:
  "\<exists>q. query_text q \<and> hc_path (admin_call e) = route_text (snd (admin_route e)) @ q \<and>
     hc_method (admin_call e) = fst (admin_route e)"
  by (cases e) (auto simp: call_defs split: option.split)

lemma radio_route_call:
  "\<exists>q. query_text q \<and> hc_path (radio_call e) = route_text (snd (radio_route e)) @ q \<and>
     hc_method (radio_call e) = fst (radio_route e)"
  by (cases e) (auto simp: call_defs)

lemma config_route_call:
  "hc_path (config_call e) = route_text (snd (config_route e)) \<and>
     hc_method (config_call e) = fst (config_route e)"
  by (cases e) (auto simp: call_defs)

lemma endpoint_route_call:
  obtains q where "query_text q" "hc_path (endpoint_call num e) = route_text (snd (endpoint_route e)) @ q"
    "hc_method (endpoint_call num e) = fst (endpoint_route e)"
proof (cases e)
  case (Sensing x)
  then show thesis using sensing_route_call [of num x] that by auto
next
  case (Account x)
  then show thesis using account_route_call [of x] that [of "[]"] by auto
next
  case (Admin x)
  then show thesis using admin_route_call [of x] that by auto
next
  case (Radio x)
  then show thesis using radio_route_call [of x] that by auto
next
  case (Config x)
  then show thesis using config_route_call [of x] that [of "[]"] by auto
qed

lemma route_segments_ok:
  assumes "list_all (\<lambda>i. i \<noteq> ''.'' \<and> i \<noteq> ''..'') (hole_ids (snd (endpoint_route e)))"
  shows "list_all segment_ok (snd (endpoint_route e))"
proof (cases e)
  case (Sensing x)
  then show ?thesis using assms by (cases x) (simp_all add: hole_ids_def List.map_filter_simps path_char_def)
next
  case (Account x)
  then show ?thesis using assms by (cases x) (simp_all add: path_char_def)
next
  case (Admin x)
  then show ?thesis using assms by (cases x) (simp_all add: hole_ids_def List.map_filter_simps path_char_def)
next
  case (Radio x)
  then show ?thesis using assms by (cases x) (simp_all add: hole_ids_def List.map_filter_simps path_char_def)
next
  case (Config x)
  then show ?thesis using assms by (cases x) (simp_all add: path_char_def)
qed

text \<open>No two routes of one method match the same path.\<close>

definition overlap :: "http_method \<times> string option list \<Rightarrow> http_method \<times> string option list \<Rightarrow> bool" where
  "overlap a b \<longleftrightarrow> fst a = fst b \<and> length (snd a) = length (snd b) \<and>
     list_all2 (\<lambda>p q. p = None \<or> q = None \<or> p = q) (snd a) (snd b)"

lemma routes_apart: "list_all (\<lambda>a. filter (overlap a) api_routes = [a]) api_routes"
  by code_simp

lemma matches_overlap: "route_matches p segs \<Longrightarrow> route_matches q segs \<Longrightarrow> overlap (m, p) (m, q)"
  unfolding route_matches_def overlap_def list_all2_conv_all_nth by simp (metis option.sel)

lemma route_listed: "(fst (endpoint_route e), map segment_pattern (snd (endpoint_route e))) \<in> set api_routes"
proof (cases e)
  case (Sensing x)
  then show ?thesis by (cases x) (simp_all add: api_routes_def)
next
  case (Account x)
  then show ?thesis by (cases x) (simp_all add: api_routes_def)
next
  case (Admin x)
  then show ?thesis by (cases x) (simp_all add: api_routes_def)
next
  case (Radio x)
  then show ?thesis by (cases x) (simp_all add: api_routes_def)
next
  case (Config x)
  then show ?thesis by (cases x) (simp_all add: api_routes_def)
qed

lemma own_route_matches: "route_matches (map segment_pattern segs) (map segment_text segs)"
proof -
  have "segment_pattern s = None \<or> segment_pattern s = Some (segment_text s)" for s by (cases s) simp_all
  then show ?thesis by (simp add: route_matches_def list_all2_conv_all_nth)
qed

lemma only_own_route_matches:
  "filter (\<lambda>r. fst r = fst (endpoint_route e) \<and> route_matches (snd r) (map segment_text (snd (endpoint_route e))))
     api_routes = [(fst (endpoint_route e), map segment_pattern (snd (endpoint_route e)))]" (is "filter ?P _ = [?r]")
proof -
  have "?P r \<longrightarrow> overlap ?r r" for r
    using matches_overlap [OF own_route_matches, where m = "fst (endpoint_route e)"]
    by (cases r) auto
  then have "filter ?P api_routes = filter ?P (filter (overlap ?r) api_routes)"
    unfolding filter_filter by (intro filter_cong) auto
  also have "filter (overlap ?r) api_routes = [?r]"
    using routes_apart route_listed [of e] by (simp add: list_all_iff)
  finally show ?thesis by (simp add: own_route_matches)
qed

section \<open>Properties\<close>

text \<open>C11: No identifier can turn a request into another one: whatever the identifiers, dot segments apart,
  the request of an API function arrives under the base path with exactly the segments of its own
  route, the identifiers decoded in their places, and of all the routes the client knows only
  that one matches its method and path.\<close>

theorem requests_reach_their_route:
  assumes "list_all (\<lambda>i. i \<noteq> ''.'' \<and> i \<noteq> ''..'') (hole_ids (snd (endpoint_route e)))"
    and "segs = map segment_text (snd (endpoint_route e))"
  shows "requested_segments base (hc_path (endpoint_call num e)) = map percent_decode base @ segs \<and>
    filter (\<lambda>r. fst r = hc_method (endpoint_call num e) \<and> route_matches (snd r) segs) api_routes =
      [(fst (endpoint_route e), map segment_pattern (snd (endpoint_route e)))]"
proof -
  obtain q where q: "query_text q" "hc_path (endpoint_call num e) = route_text (snd (endpoint_route e)) @ q"
    "hc_method (endpoint_call num e) = fst (endpoint_route e)" by (rule endpoint_route_call)
  show ?thesis
    unfolding q(2,3) assms(2)
    using requested_route_text [OF route_segments_ok [OF assms(1)] q(1)] only_own_route_matches by blast
qed

theorem requests_reach_their_route_witness:
  "requested_segments [''api'', ''v1''] (hc_path (endpoint_call (\<lambda>_. []) (Sensing (Get_Track ''a/detections?x''))))
     = [''api'', ''v1'', ''tracks'', ''a/detections?x'']"
proof -
  have "map percent_decode [''api'', ''v1''] = [''api'', ''v1'']" by code_simp
  then show ?thesis
    using requests_reach_their_route [of "Sensing (Get_Track ''a/detections?x'')" _ "[''api'', ''v1'']" "\<lambda>_. []", OF _ refl]
    by (simp add: hole_ids_def List.map_filter_simps)
qed

text \<open>Dot segments are the exception: \<open>encodeURIComponent\<close> leaves the dots of an identifier alone
  and the browser resolves them, so the label of an aircraft that broadcasts the serial \<open>..\<close> is
  asked for, and set, outside the aircraft routes, and deleting the hook rule \<open>..\<close> is sent to the
  admin root.\<close>

theorem dot_dot_id_leaves_its_route:
  "requested_segments base (hc_path (endpoint_call num (Sensing (Get_Aircraft_Label ''..'')))) =
     map percent_decode base @ [''label''] \<and>
   requested_segments base (hc_path (endpoint_call num (Sensing (Set_Aircraft_Label ''..'' b)))) =
     map percent_decode base @ [''label''] \<and>
   requested_segments base (hc_path (endpoint_call num (Admin (Delete_Hook_Rule ''..'')))) =
     map percent_decode base @ [''admin'', []]"
  by (simp add: requested_segments_def call_defs encode_dots)

end
