(* ===== verification/Runs.thy ===== *)
theory Runs
  imports Prelude
begin

text \<open>
  Two loops the console writes more than once. The first splits a series into runs of consecutive readings,
  broken at a missing one and at a jump between neighbours, which is how a chart avoids drawing a line over what was
  never measured (spectrum traces, host telemetry). The second is the binary search over a
  sorted series (the replay scrubber, the chart's hover readout).
\<close>

section \<open>Splitting a series into runs\<close>

fun split_step :: "('p \<Rightarrow> 'p \<Rightarrow> bool) \<Rightarrow> 'p option \<Rightarrow> 'p list list \<times> 'p list \<Rightarrow> 'p list list \<times> 'p list" where
  "split_step jump None (segs, current) = (if current \<noteq> [] then segs @ [current] else segs, [])"
| "split_step jump (Some p) (segs, current) =
     (if current \<noteq> [] \<and> jump (last current) p then (segs @ [current], [p]) else (segs, current @ [p]))"

definition close_run :: "'p list list \<times> 'p list \<Rightarrow> 'p list list" where
  "close_run st = (if snd st \<noteq> [] then fst st @ [snd st] else fst st)"

definition split_runs :: "('p \<Rightarrow> 'p \<Rightarrow> bool) \<Rightarrow> 'p option list \<Rightarrow> 'p list list" where
  "split_runs jump xs = close_run (fold (split_step jump) xs ([], []))"

text \<open>The reference: a run is told by its first index and the index after its last.\<close>

definition run_at :: "'p option list \<Rightarrow> nat \<times> nat \<Rightarrow> 'p list" where
  "run_at xs r = map (\<lambda>i. the (xs ! i)) [fst r..<snd r]"

definition fresh_at :: "('p \<Rightarrow> 'p \<Rightarrow> bool) \<Rightarrow> 'p option list \<Rightarrow> nat \<Rightarrow> bool" where
  "fresh_at jump xs i \<longleftrightarrow>
     i = 0 \<or> xs ! (i - 1) = None \<or> jump (the (xs ! (i - 1))) (the (xs ! i))"

definition maximal_run :: "('p \<Rightarrow> 'p \<Rightarrow> bool) \<Rightarrow> 'p option list \<Rightarrow> nat \<times> nat \<Rightarrow> bool" where
  "maximal_run jump xs r \<longleftrightarrow> fst r < snd r \<and> snd r \<le> length xs \<and> fresh_at jump xs (fst r) \<and>
     (snd r = length xs \<or> xs ! snd r = None \<or> fresh_at jump xs (snd r)) \<and>
     list_all (\<lambda>i. xs ! i \<noteq> None \<and> (i = fst r \<or> \<not> fresh_at jump xs i)) [fst r..<snd r]"

definition maximal_runs :: "('p \<Rightarrow> 'p \<Rightarrow> bool) \<Rightarrow> 'p option list \<Rightarrow> (nat \<times> nat) list \<Rightarrow> bool" where
  "maximal_runs jump xs rs \<longleftrightarrow>
     list_all (maximal_run jump xs) rs \<and> sorted_wrt (\<lambda>a b. snd a \<le> fst b) rs \<and>
     list_all (\<lambda>i. xs ! i = None \<or> list_ex (\<lambda>r. fst r \<le> i \<and> i < snd r) rs) [0..<length xs]"

definition open_run :: "('p \<Rightarrow> 'p \<Rightarrow> bool) \<Rightarrow> 'p option list \<Rightarrow> nat \<Rightarrow> nat \<Rightarrow> bool" where
  "open_run jump xs s n \<longleftrightarrow> s \<le> n \<and> (s < n \<longrightarrow> fresh_at jump xs s) \<and> (s = n \<longrightarrow> fresh_at jump xs s \<or> 0 < n \<and> xs ! (n - 1) = None) \<and>
     (\<forall>i. s \<le> i \<and> i < n \<longrightarrow> xs ! i \<noteq> None \<and> (i = s \<or> \<not> fresh_at jump xs i))"

text \<open>After \<open>n\<close> readings: the closed runs, and the open one that began at \<open>s\<close>.\<close>

definition split_inv ::
  "('p \<Rightarrow> 'p \<Rightarrow> bool) \<Rightarrow> 'p option list \<Rightarrow> nat \<Rightarrow> 'p list list \<times> 'p list \<Rightarrow> (nat \<times> nat) list \<Rightarrow> nat \<Rightarrow> bool" where
  "split_inv jump xs n st rs s \<longleftrightarrow>
     fst st = map (run_at xs) rs \<and> snd st = run_at xs (s, n) \<and> open_run jump xs s n \<and>
     list_all (maximal_run jump xs) rs \<and> sorted_wrt (\<lambda>a b. snd a \<le> fst b) rs \<and> (\<forall>r \<in> set rs. snd r \<le> s) \<and>
     (\<forall>i < s. xs ! i = None \<or> (\<exists>r \<in> set rs. fst r \<le> i \<and> i < snd r))"

lemma run_at_empty [simp]: "run_at xs (s, n) = [] \<longleftrightarrow> n \<le> s"
  by (auto simp: run_at_def)

lemma run_at_self [simp]: "run_at xs (n, n) = []"
  by (simp add: run_at_def)

lemma run_at_Suc: "s \<le> n \<Longrightarrow> run_at xs (s, Suc n) = run_at xs (s, n) @ [the (xs ! n)]"
  by (simp add: run_at_def)

lemma last_run_at: "s < n \<Longrightarrow> last (run_at xs (s, n)) = the (xs ! (n - 1))"
  by (cases n) (simp_all add: run_at_def)

lemma split_inv_close:
  assumes inv: "split_inv jump xs n st rs s" and n: "n \<le> length xs"
    and stop: "n = length xs \<or> xs ! n = None \<or> fresh_at jump xs n"
  shows "\<exists>rs'. close_run st = map (run_at xs) rs' \<and> list_all (maximal_run jump xs) rs' \<and>
     sorted_wrt (\<lambda>a b. snd a \<le> fst b) rs' \<and> (\<forall>r \<in> set rs'. snd r \<le> n) \<and>
     (\<forall>i < n. xs ! i = None \<or> (\<exists>r \<in> set rs'. fst r \<le> i \<and> i < snd r))"
proof (cases "s = n")
  case True
  then show ?thesis using inv by (intro exI [of _ rs]) (simp add: split_inv_def close_run_def)
next
  case False
  then have s: "s < n" "fresh_at jump xs s"
    "\<forall>i. s \<le> i \<and> i < n \<longrightarrow> xs ! i \<noteq> None \<and> (i = s \<or> \<not> fresh_at jump xs i)"
    using inv by (auto simp: split_inv_def open_run_def)
  then have "maximal_run jump xs (s, n)"
    using n stop by (auto simp: maximal_run_def list_all_iff)
  moreover have "close_run st = map (run_at xs) (rs @ [(s, n)])"
    using inv s(1) by (simp add: split_inv_def close_run_def)
  moreover have "sorted_wrt (\<lambda>a b. snd a \<le> fst b) (rs @ [(s, n)])"
    using inv by (auto simp: split_inv_def sorted_wrt_append)
  moreover have "\<forall>r \<in> set (rs @ [(s, n)]). snd r \<le> n"
    using inv s(1) by (auto simp: split_inv_def)
  moreover have "xs ! i = None \<or> (\<exists>r \<in> set (rs @ [(s, n)]). fst r \<le> i \<and> i < snd r)" if "i < n" for i
    using inv that by (cases "i < s") (auto simp: split_inv_def)
  ultimately show ?thesis using inv by (intro exI [of _ "rs @ [(s, n)]"]) (auto simp: split_inv_def)
qed

lemma split_step_inv:
  assumes inv: "split_inv jump xs n st rs s" and n: "n < length xs"
  shows "\<exists>rs' s'. split_inv jump xs (Suc n) (split_step jump (xs ! n) st) rs' s'"
proof -
  obtain segs current where st: "st = (segs, current)" by (cases st)
  have sn: "s \<le> n" and cur: "current = run_at xs (s, n)" using inv by (auto simp: st split_inv_def open_run_def)
  show ?thesis
  proof (cases "xs ! n")
    case None
    obtain rs' where rs': "close_run st = map (run_at xs) rs'" "list_all (maximal_run jump xs) rs'"
      "sorted_wrt (\<lambda>a b. snd a \<le> fst b) rs'" "\<forall>r \<in> set rs'. snd r \<le> n"
      "\<forall>i < n. xs ! i = None \<or> (\<exists>r \<in> set rs'. fst r \<le> i \<and> i < snd r)"
      using split_inv_close [OF inv] n None by auto
    have "split_step jump (xs ! n) st = (close_run st, [])" by (simp add: st None close_run_def)
    moreover have "open_run jump xs (Suc n) (Suc n)" using None by (auto simp: open_run_def)
    ultimately have "split_inv jump xs (Suc n) (split_step jump (xs ! n) st) rs' (Suc n)"
      using rs' None by (auto simp: split_inv_def less_Suc_eq intro: le_SucI)
    then show ?thesis by blast
  next
    case (Some p)
    show ?thesis
    proof (cases "current \<noteq> [] \<and> jump (last current) p")
      case True
      then have "s < n" by (auto simp: cur)
      then have cb: "fresh_at jump xs n"
        using True Some last_run_at [of s n xs] by (simp add: cur fresh_at_def)
      obtain rs' where rs': "close_run st = map (run_at xs) rs'" "list_all (maximal_run jump xs) rs'"
        "sorted_wrt (\<lambda>a b. snd a \<le> fst b) rs'" "\<forall>r \<in> set rs'. snd r \<le> n"
        "\<forall>i < n. xs ! i = None \<or> (\<exists>r \<in> set rs'. fst r \<le> i \<and> i < snd r)"
        using split_inv_close [OF inv] n cb by auto
      have "split_step jump (xs ! n) st = (close_run st, run_at xs (n, Suc n))"
        using True Some by (simp add: st close_run_def run_at_def)
      moreover have "open_run jump xs n (Suc n)" using cb Some by (auto simp: open_run_def le_less_Suc_eq)
      ultimately have "split_inv jump xs (Suc n) (split_step jump (xs ! n) st) rs' n"
        using rs' by (auto simp: split_inv_def)
      then show ?thesis by blast
    next
      case False
      have "open_run jump xs s (Suc n)"
      proof (cases "s < n")
        case True
        then have "\<not> fresh_at jump xs n"
          using False Some inv last_run_at [of s n xs]
          by (auto simp: cur fresh_at_def split_inv_def open_run_def)
        then show ?thesis using inv Some True by (auto simp: split_inv_def open_run_def less_Suc_eq)
      next
        case False
        then have "s = n" using sn by simp
        then have "fresh_at jump xs n" using inv by (auto simp: split_inv_def open_run_def fresh_at_def)
        then show ?thesis using \<open>s = n\<close> Some by (auto simp: open_run_def le_less_Suc_eq)
      qed
      moreover have "split_step jump (xs ! n) st = (segs, current @ [p])" using False Some by (auto simp: st)
      moreover have "fst st = segs" "snd st = current" by (simp_all add: st)
      ultimately have "split_inv jump xs (Suc n) (split_step jump (xs ! n) st) rs s"
        using inv Some sn unfolding split_inv_def by (simp del: split_step.simps add: run_at_Suc)
      then show ?thesis by blast
    qed
  qed
qed

lemma split_inv_fold:
  "n \<le> length xs \<Longrightarrow> \<exists>rs s. split_inv jump xs n (fold (split_step jump) (take n xs) ([], [])) rs s"
proof (induction n)
  case 0
  have "split_inv jump xs 0 ([], []) [] 0" by (simp add: split_inv_def open_run_def fresh_at_def run_at_def)
  then show ?case by auto
next
  case (Suc n)
  then obtain rs s where "split_inv jump xs n (fold (split_step jump) (take n xs) ([], [])) rs s" by auto
  then show ?case using split_step_inv [of jump xs n _ rs s] Suc.prems by (simp add: take_Suc_conv_app_nth)
qed

lemma split_runs_maximal: "\<exists>rs. split_runs jump xs = map (run_at xs) rs \<and> maximal_runs jump xs rs"
proof -
  obtain rs s where inv: "split_inv jump xs (length xs) (fold (split_step jump) xs ([], [])) rs s"
    using split_inv_fold [of "length xs" xs jump] by auto
  from split_inv_close [OF this] obtain rs' where
    "split_runs jump xs = map (run_at xs) rs'" "list_all (maximal_run jump xs) rs'"
    "sorted_wrt (\<lambda>a b. snd a \<le> fst b) rs'"
    "\<forall>i < length xs. xs ! i = None \<or> (\<exists>r \<in> set rs'. fst r \<le> i \<and> i < snd r)"
    unfolding split_runs_def by auto
  then show ?thesis by (intro exI [of _ rs']) (simp add: maximal_runs_def list_all_iff list_ex_iff)
qed

lemma maximal_run_covered:
  assumes "maximal_runs jump xs rs" "i < length xs" "xs ! i = Some p"
  shows "\<exists>r \<in> set rs. fst r \<le> i \<and> i < snd r"
proof -
  have "xs ! i = None \<or> (\<exists>r \<in> set rs. fst r \<le> i \<and> i < snd r)"
    using assms(1,2) unfolding maximal_runs_def list_all_iff list_ex_iff by simp
  then show ?thesis using assms(3) by simp
qed

section \<open>The extent of a series\<close>

definition extent_of :: "'a::linorder list \<Rightarrow> ('a \<times> 'a) option" where
  "extent_of xs =
     fold (\<lambda>x e. case e of None \<Rightarrow> Some (x, x) | Some (lo, hi) \<Rightarrow> Some (min lo x, max hi x)) xs None"

section \<open>Binary search\<close>

text \<open>Every index the search looks at lies between its two ends.\<close>

function bisect :: "(nat \<Rightarrow> bool) \<Rightarrow> nat \<Rightarrow> nat \<Rightarrow> nat \<times> nat" where
  "bisect low lo hi =
     (if 1 < hi - lo
      then let mid = (lo + hi) div 2 in if low mid then bisect low mid hi else bisect low lo mid
      else (lo, hi))"
  by pat_completeness auto
termination by (relation "measure (\<lambda>(low, lo, hi). hi - lo)") auto

declare bisect.simps [simp del]

lemma bisect_correct:
  assumes "lo \<le> hi" "bisect low lo hi = (i, j)"
  shows "lo \<le> i \<and> i \<le> j \<and> j \<le> hi \<and> j \<le> Suc i \<and> (lo < hi \<longrightarrow> j = Suc i) \<and> (i = lo \<or> low i) \<and> (j = hi \<or> \<not> low j)"
  using assms
proof (induction low lo hi rule: bisect.induct)
  case (1 low lo hi)
  let ?mid = "(lo + hi) div 2"
  show ?case
  proof (cases "1 < hi - lo")
    case True
    then have mid: "lo < ?mid" "?mid < hi" by auto
    show ?thesis
    proof (cases "low ?mid")
      case low: True
      then have "bisect low ?mid hi = (i, j)"
        using "1.prems"(2) True by (simp add: bisect.simps [of low lo hi] Let_def)
      then show ?thesis using "1.IH"(1) [OF True refl low] mid low by auto
    next
      case high: False
      then have "bisect low lo ?mid = (i, j)"
        using "1.prems"(2) True by (simp add: bisect.simps [of low lo hi] Let_def)
      then show ?thesis using "1.IH"(2) [OF True refl high] mid high by auto
    qed
  next
    case False
    then show ?thesis using "1.prems" by (auto simp: bisect.simps [of low lo hi])
  qed
qed

end
