(* ===== verification/FlightPlayback.thy ===== *)
theory FlightPlayback
  imports Geo Runs
begin

text \<open>
  \<open>features/tracks/flight-speed.ts\<close> (the speed at each point, segments, hovers) and
  \<open>features/tracks/flight-playback.ts\<close> (where the aircraft was at an instant). Numbers are reals,
  times integer milliseconds. The cache of dated points only saves work and is left out.
\<close>

section \<open>Points\<close>

definition point_ms :: "position \<Rightarrow> int option" where
  "point_ms p = (if truthy (pos_at p) then date_parse (nullish (pos_at p) []) else None)"

definition reported_speed :: "position \<Rightarrow> real option" where
  "reported_speed p = (case pos_speed_mps p of None \<Rightarrow> None | Some v \<Rightarrow> if 0 \<le> v then Some v else None)"

definition is_gap :: "position \<Rightarrow> position \<Rightarrow> bool" where
  "is_gap a b =
     (case (point_ms a, point_ms b) of
        (Some x, Some y) \<Rightarrow> trail_gap_ms < y - x
      | _ \<Rightarrow> False)"

section \<open>Speeds\<close>

text \<open>The weight of point \<open>i\<close> between the known points \<open>a\<close> and \<open>b\<close>: in time when it can be, else in index.\<close>

definition fill_weight :: "position list \<Rightarrow> nat \<Rightarrow> nat \<Rightarrow> nat \<Rightarrow> real" where
  "fill_weight path a b i =
     (let start_ms = point_ms (path ! a); end_ms = point_ms (path ! b);
          span = (case (start_ms, end_ms) of (Some x, Some y) \<Rightarrow> y - x | _ \<Rightarrow> 0);
          by_index = real (i - a) / real (b - a)
      in if 0 < span
         then (case (start_ms, point_ms (path ! i)) of
                 (Some x, Some ms) \<Rightarrow> of_int (ms - x) / of_int span
               | _ \<Rightarrow> by_index)
         else by_index)"

definition fill_between ::
  "position list \<Rightarrow> real option list \<Rightarrow> nat \<Rightarrow> nat \<Rightarrow> real option list" where
  "fill_between path out a b =
     (if list_ex (\<lambda>i. is_gap (path ! i) (path ! Suc i)) [a..<b] then out
      else (case (out ! a, out ! b) of
        (Some u, Some v) \<Rightarrow>
          fold (\<lambda>i o1. o1[i := Some (u + (v - u) * fill_weight path a b i)]) [Suc a..<b] out
      | _ \<Rightarrow> out))"

definition speed_step ::
  "position list \<Rightarrow> nat \<Rightarrow> real option list \<times> nat option \<Rightarrow> real option list \<times> nat option" where
  "speed_step path i st =
     (let (out, previous) = st
      in if reported_speed (path ! i) = None then (out, previous)
         else (case previous of
             None \<Rightarrow> (out, Some i)
           | Some j \<Rightarrow> (if 1 < i - j then fill_between path out j i else out, Some i)))"

definition point_speeds :: "position list \<Rightarrow> real option list" where
  "point_speeds path = fst (fold (speed_step path) [0..<length path] (map reported_speed path, None))"

record path_segment =
  sg_from :: position
  sg_to :: position
  sg_speed_mps :: "real option"
  sg_mid_ms :: "real option"
  sg_gap :: bool

definition mean_or_either :: "real option \<Rightarrow> real option \<Rightarrow> real option" where
  "mean_or_either a b = (case (a, b) of (Some x, Some y) \<Rightarrow> Some ((x + y) / 2) | _ \<Rightarrow> or_else a b)"

definition path_segments :: "position list \<Rightarrow> path_segment list" where
  "path_segments path =
     (let speeds = point_speeds path
      in map (\<lambda>i. let a = path ! i; b = path ! Suc i
           in \<lparr> sg_from = a, sg_to = b,
                sg_speed_mps = (if is_gap a b then None else mean_or_either (speeds ! i) (speeds ! Suc i)),
                sg_mid_ms = mean_or_either (map_option of_int (point_ms a)) (map_option of_int (point_ms b)),
                sg_gap = is_gap a b \<rparr>)
         [0..<length path - 1])"

definition speed_extent :: "path_segment list \<Rightarrow> (real \<times> real) option" where
  "speed_extent segs = extent_of (List.map_filter sg_speed_mps segs)"

definition time_extent :: "position list \<Rightarrow> (int \<times> int) option" where
  "time_extent path = extent_of (List.map_filter point_ms path)"

section \<open>Hovers\<close>

definition dwell_max_speed_mps :: real where "dwell_max_speed_mps = 1"
definition dwell_min_ms :: int where "dwell_min_ms = 10000"

record dwell =
  dw_lat :: real
  dw_lon :: real
  dw_seconds :: int
  dw_start_ms :: int
  dw_index :: nat

definition dwell_of_run :: "int \<Rightarrow> position list \<Rightarrow> nat \<Rightarrow> nat \<Rightarrow> dwell option" where
  "dwell_of_run min_ms path i end =
     (let run = drop i (take end path)
      in if run = [] then None
         else (case (point_ms (hd run), point_ms (last run)) of
           (Some a, Some b) \<Rightarrow>
             if min_ms \<le> b - a
             then Some \<lparr> dw_lat = sum_list (map pos_lat run) / real (length run),
                         dw_lon = sum_list (map pos_lon run) / real (length run),
                         dw_seconds = js_round (of_int (b - a) / 1000), dw_start_ms = a, dw_index = i \<rparr>
             else None
         | _ \<Rightarrow> None))"

definition flush_run ::
  "int \<Rightarrow> position list \<Rightarrow> nat \<Rightarrow> nat option \<times> dwell list \<Rightarrow> nat option \<times> dwell list" where
  "flush_run min_ms path end st =
     (case fst st of None \<Rightarrow> st
      | Some i \<Rightarrow> (None, snd st @ (case dwell_of_run min_ms path i end of None \<Rightarrow> [] | Some d \<Rightarrow> [d])))"

definition dwell_step ::
  "real \<Rightarrow> int \<Rightarrow> position list \<Rightarrow> nat \<Rightarrow> nat option \<times> dwell list \<Rightarrow> nat option \<times> dwell list" where
  "dwell_step max_speed min_ms path i st =
     (let speed = point_speeds path ! i;
          broken = (0 < i \<and> is_gap (path ! (i - 1)) (path ! i));
          slow = (case speed of None \<Rightarrow> False | Some v \<Rightarrow> v \<le> max_speed);
          st1 = (if broken then flush_run min_ms path i st else st)
      in if slow then (if fst st1 = None then (Some i, snd st1) else st1)
         else flush_run min_ms path i st1)"

definition dwell_points :: "real \<Rightarrow> int \<Rightarrow> position list \<Rightarrow> dwell list" where
  "dwell_points max_speed min_ms path =
     snd (flush_run min_ms path (length path)
       (fold (dwell_step max_speed min_ms path) [0..<length path] (None, [])))"

section \<open>Playback\<close>

definition playback_span :: "position list \<Rightarrow> (int \<times> int) option" where
  "playback_span path = extent_of (List.map_filter point_ms path)"

record playback_frame =
  pf_lat :: real
  pf_lon :: real
  pf_height_agl_m :: "real option"
  pf_speed_mps :: "real option"
  pf_track_deg :: "real option"
  pf_at_ms :: real
  pf_index :: nat
  pf_heard :: bool

definition lerp :: "real \<Rightarrow> real \<Rightarrow> real \<Rightarrow> real" where
  "lerp a b t = a + (b - a) * t"

text \<open>The remainder \<open>%\<close>, with the sign of the dividend.\<close>

definition js_rem :: "real \<Rightarrow> real \<Rightarrow> real" where
  "js_rem x m = x - m * of_int (if 0 \<le> x then \<lfloor>x / m\<rfloor> else \<lceil>x / m\<rceil>)"

definition lerp_degrees :: "real \<Rightarrow> real \<Rightarrow> real \<Rightarrow> real" where
  "lerp_degrees a b t = (let delta = js_rem (b - a + 540) 360 - 180 in js_rem (a + delta * t + 360) 360)"

definition optional_lerp :: "real option \<Rightarrow> real option \<Rightarrow> real \<Rightarrow> real option" where
  "optional_lerp a b t = (case (a, b) of (Some x, Some y) \<Rightarrow> Some (lerp x y t) | _ \<Rightarrow> or_else a b)"

type_synonym dated_point = "position \<times> int"

definition dated_points :: "position list \<Rightarrow> dated_point list" where
  "dated_points path =
     js_sort (\<lambda>a b. snd a - snd b)
       (List.map_filter (\<lambda>p. map_option (\<lambda>ms. (p, ms)) (point_ms p)) path)"

definition frame_of :: "position \<Rightarrow> real \<Rightarrow> nat \<Rightarrow> bool \<Rightarrow> playback_frame" where
  "frame_of p at_ms index heard =
     \<lparr> pf_lat = pos_lat p, pf_lon = pos_lon p, pf_height_agl_m = pos_height_agl_m p,
       pf_speed_mps = pos_speed_mps p, pf_track_deg = pos_track_deg p, pf_at_ms = at_ms,
       pf_index = index, pf_heard = heard \<rparr>"

definition search_at :: "dated_point list \<Rightarrow> real \<Rightarrow> nat \<Rightarrow> nat \<Rightarrow> nat \<times> nat" where
  "search_at dated at_ms lo hi = bisect (\<lambda>mid. of_int (snd (dated ! mid)) \<le> at_ms) lo hi"

definition frame_between :: "dated_point \<Rightarrow> dated_point \<Rightarrow> real \<Rightarrow> nat \<Rightarrow> playback_frame" where
  "frame_between from to at_ms lo =
     (let (p, a) = from; (q, b) = to; span = b - a;
          t = (if 0 < span then (at_ms - of_int a) / of_int span else 0)
      in if trail_gap_ms < span then frame_of p at_ms lo False
         else
           \<lparr> pf_lat = lerp (pos_lat p) (pos_lat q) t, pf_lon = lerp (pos_lon p) (pos_lon q) t,
             pf_height_agl_m = optional_lerp (pos_height_agl_m p) (pos_height_agl_m q) t,
             pf_speed_mps = optional_lerp (pos_speed_mps p) (pos_speed_mps q) t,
             pf_track_deg = (case (pos_track_deg p, pos_track_deg q) of
                 (Some x, Some y) \<Rightarrow> Some (lerp_degrees x y t)
               | _ \<Rightarrow> or_else (pos_track_deg p) (pos_track_deg q)),
             pf_at_ms = at_ms, pf_index = lo, pf_heard = True \<rparr>)"

definition frame_at :: "position list \<Rightarrow> real \<Rightarrow> playback_frame option" where
  "frame_at path at_ms =
     (let dated = dated_points path
      in if dated = [] then None
         else if at_ms \<le> of_int (snd (hd dated)) then Some (frame_of (fst (hd dated)) (of_int (snd (hd dated))) 0 True)
         else if of_int (snd (last dated)) \<le> at_ms
         then Some (frame_of (fst (last dated)) (of_int (snd (last dated))) (length dated - 1) True)
         else
           let (lo, hi) = search_at dated at_ms 0 (length dated - 1)
           in Some (frame_between (dated ! lo) (dated ! hi) at_ms lo))"

definition playback_rates :: "nat list" where "playback_rates = [1, 4, 10]"

section \<open>The search\<close>

lemma search_at_correct:
  assumes "lo < hi" "of_int (snd (dated ! lo)) \<le> at_ms" "at_ms < of_int (snd (dated ! hi))"
    and "search_at dated at_ms lo hi = (i, j)"
  shows "j = Suc i \<and> lo \<le> i \<and> j \<le> hi \<and> of_int (snd (dated ! i)) \<le> at_ms \<and> at_ms < of_int (snd (dated ! j))"
  using bisect_correct [of lo hi "\<lambda>mid. of_int (snd (dated ! mid)) \<le> at_ms" i j] assms
  by (auto simp: search_at_def)

lemma dated_points_sorted: "sorted (map snd (dated_points path))"
  unfolding dated_points_def by (rule sorted_js_sort_key) auto

text \<open>The reference: a scan that counts the points heard by then.\<close>

definition last_heard :: "dated_point list \<Rightarrow> real \<Rightarrow> nat" where
  "last_heard dated at_ms = length (filter (\<lambda>d. of_int (snd d) \<le> at_ms) dated) - 1"

lemma last_heard_unique:
  assumes "sorted (map snd ds)" "Suc i < length ds" "of_int (snd (ds ! i)) \<le> t" "t < of_int (snd (ds ! Suc i))"
  shows "last_heard ds t = i"
proof -
  have lt: "of_int (snd (ds ! k)) \<le> t \<longleftrightarrow> k < Suc i" if "k < length ds" for k
  proof
    assume le: "of_int (snd (ds ! k)) \<le> t"
    show "k < Suc i"
    proof (rule ccontr)
      assume "\<not> k < Suc i"
      then have "snd (ds ! Suc i) \<le> snd (ds ! k)" using sorted_nth_mono [OF assms(1), of "Suc i" k] that by simp
      then have "real_of_int (snd (ds ! Suc i)) \<le> of_int (snd (ds ! k))" by simp
      then show False using le assms(4) by linarith
    qed
  next
    assume "k < Suc i"
    then have "snd (ds ! k) \<le> snd (ds ! i)" using sorted_nth_mono [OF assms(1), of k i] assms(2) by simp
    then have "real_of_int (snd (ds ! k)) \<le> of_int (snd (ds ! i))" by simp
    then show "of_int (snd (ds ! k)) \<le> t" using assms(3) by linarith
  qed
  have "{k. k < length ds \<and> of_int (snd (ds ! k)) \<le> t} = {..<Suc i}" using lt assms(2) by auto
  then show ?thesis by (simp add: last_heard_def length_filter_conv_card)
qed

lemma lerp_between:
  assumes "0 \<le> t" "t \<le> 1"
  shows "min a b \<le> lerp a b t \<and> lerp a b t \<le> max a b"
proof -
  have up: "0 \<le> c * t \<and> c * t \<le> c" if "0 \<le> c" for c :: real
    using that assms mult_left_mono [of t 1 c] by simp
  show ?thesis
  proof (cases "a \<le> b")
    case True
    then show ?thesis using up [of "b - a"] by (simp add: lerp_def)
  next
    case False
    then show ?thesis using up [of "a - b"] by (simp add: lerp_def algebra_simps)
  qed
qed

section \<open>Speeds are known only between reports\<close>

definition gap_free :: "position list \<Rightarrow> nat \<Rightarrow> nat \<Rightarrow> bool" where
  "gap_free path a b \<longleftrightarrow> \<not> list_ex (\<lambda>i. is_gap (path ! i) (path ! Suc i)) [a..<b]"

text \<open>\<open>j\<close> and \<open>k\<close> are reports around \<open>i\<close> with none between them and no reception gap.\<close>

definition bracketed :: "position list \<Rightarrow> nat \<Rightarrow> nat \<Rightarrow> nat \<Rightarrow> bool" where
  "bracketed path j i k \<longleftrightarrow> j < i \<and> i < k \<and> k < length path \<and> gap_free path j k \<and>
     reported_speed (path ! j) \<noteq> None \<and> reported_speed (path ! k) \<noteq> None \<and>
     (\<forall>m. j < m \<and> m < k \<longrightarrow> reported_speed (path ! m) = None)"

lemma fold_update_nth:
  "(\<forall>i \<in> set is. i < length out) \<Longrightarrow> length (fold (\<lambda>i o1. o1[i := f i]) is out) = length out \<and>
   (\<forall>m < length out. fold (\<lambda>i o1. o1[i := f i]) is out ! m = (if m \<in> set is then f m else out ! m))"
proof (induction "is" arbitrary: out)
  case (Cons i js)
  have "length (fold (\<lambda>i o1. o1[i := f i]) js (out[i := f i])) = length (out[i := f i]) \<and>
    (\<forall>m < length (out[i := f i]). fold (\<lambda>i o1. o1[i := f i]) js (out[i := f i]) ! m =
      (if m \<in> set js then f m else out[i := f i] ! m))"
    using Cons.prems by (intro Cons.IH) simp
  then show ?case using Cons.prems by (auto simp: nth_list_update)
qed simp

lemma fill_between_nth:
  assumes "b < length out" "a < b" "out ! a = Some u" "out ! b = Some v"
  shows "length (fill_between path out a b) = length out"
    and "m < length out \<Longrightarrow> fill_between path out a b ! m =
      (if a < m \<and> m < b \<and> gap_free path a b then Some (u + (v - u) * fill_weight path a b m) else out ! m)"
proof -
  let ?f = "\<lambda>i. Some (u + (v - u) * fill_weight path a b i)"
  have "\<forall>i \<in> set [Suc a..<b]. i < length out" using assms(1) by auto
  note fold_update_nth [OF this, of ?f]
  then show "length (fill_between path out a b) = length out"
    "m < length out \<Longrightarrow> fill_between path out a b ! m =
      (if a < m \<and> m < b \<and> gap_free path a b then ?f m else out ! m)"
    using assms(3,4) by (auto simp: fill_between_def gap_free_def Let_def)
qed

definition speeds_inv :: "position list \<Rightarrow> nat \<Rightarrow> real option list \<times> nat option \<Rightarrow> bool" where
  "speeds_inv path n st \<longleftrightarrow>
     (let (out, previous) = st
      in length out = length path \<and>
         (\<forall>m < length path. reported_speed (path ! m) \<noteq> None \<longrightarrow> out ! m = reported_speed (path ! m)) \<and>
         (\<forall>m < length path. reported_speed (path ! m) = None \<longrightarrow>
            (out ! m \<noteq> None \<longleftrightarrow> (\<exists>j k. k < n \<and> bracketed path j m k))) \<and>
         (case previous of
            None \<Rightarrow> \<forall>m < n. reported_speed (path ! m) = None
          | Some j \<Rightarrow> j < n \<and> reported_speed (path ! j) \<noteq> None \<and>
              (\<forall>m. j < m \<and> m < n \<longrightarrow> reported_speed (path ! m) = None)))"

lemma bracketed_last:
  assumes "bracketed path j m n" "p < n" "reported_speed (path ! p) \<noteq> None"
    "\<forall>q. p < q \<and> q < n \<longrightarrow> reported_speed (path ! q) = None"
  shows "j = p"
proof (rule ccontr)
  assume "j \<noteq> p"
  then consider "j < p" | "p < j" by linarith
  then show False using assms by cases (auto simp: bracketed_def)
qed

lemma speed_step_inv:
  assumes inv: "speeds_inv path n st" and n: "n < length path"
  shows "speeds_inv path (Suc n) (speed_step path n st)"
proof -
  obtain out previous where st: "st = (out, previous)" by (cases st)
  note inv' = inv [unfolded st speeds_inv_def Let_def prod.case]
  have grow: "(\<exists>j k. k < Suc n \<and> bracketed path j m k) \<longleftrightarrow>
      (\<exists>j k. k < n \<and> bracketed path j m k) \<or> (\<exists>j. bracketed path j m n)" for m
    by (auto simp: less_Suc_eq)
  show ?thesis
  proof (cases "reported_speed (path ! n)")
    case None
    then have "\<not> bracketed path j m n" for j m by (simp add: bracketed_def)
    then show ?thesis using inv' None
      by (auto simp: st speed_step_def speeds_inv_def grow less_Suc_eq split: option.splits)
  next
    case (Some v)
    show ?thesis
    proof (cases previous)
      case None
      then have "\<not> bracketed path j m n" for j m using inv' by (auto simp: bracketed_def)
      then show ?thesis using inv' None Some
        by (auto simp: st speed_step_def speeds_inv_def grow less_Suc_eq)
    next
      case (Some p)
      then have p: "p < n" "reported_speed (path ! p) \<noteq> None"
        "\<forall>q. p < q \<and> q < n \<longrightarrow> reported_speed (path ! q) = None" using inv' by auto
      have br: "bracketed path j m n \<longleftrightarrow> j = p \<and> p < m \<and> m < n \<and> gap_free path p n" for j m
      proof
        assume b: "bracketed path j m n"
        then show "j = p \<and> p < m \<and> m < n \<and> gap_free path p n"
          using bracketed_last [OF b p] by (simp add: bracketed_def)
      next
        assume "j = p \<and> p < m \<and> m < n \<and> gap_free path p n"
        then show "bracketed path j m n"
          using p n \<open>reported_speed (path ! n) = Some v\<close> by (simp add: bracketed_def)
      qed
      let ?out = "if 1 < n - p then fill_between path out p n else out"
      obtain u where u: "out ! p = Some u" "out ! n = Some v"
        using inv' p n \<open>reported_speed (path ! n) = Some v\<close> by auto
      have len: "n < length out" using inv' n by simp
      note fb = fill_between_nth [OF len p(1) u]
      have filled: "?out ! m = (if p < m \<and> m < n \<and> gap_free path p n
          then Some (u + (v - u) * fill_weight path p n m) else out ! m)" if "m < length path" for m
        using fb(2) [of m] that inv' p(1) by auto
      have "length ?out = length path" using fb(1) inv' by simp
      moreover have "speed_step path n st = (?out, Some n)"
        using Some \<open>reported_speed (path ! n) = Some v\<close> by (simp add: st speed_step_def)
      moreover have "?out ! m = reported_speed (path ! m)" if "m < length path" "reported_speed (path ! m) \<noteq> None" for m
        using filled [OF that(1)] that p(3) inv' by auto
      moreover have "?out ! m \<noteq> None \<longleftrightarrow> (\<exists>j k. k < Suc n \<and> bracketed path j m k)"
        if "m < length path" "reported_speed (path ! m) = None" for m
        using filled [OF that(1)] that inv' unfolding grow br by auto
      ultimately show ?thesis
        using \<open>reported_speed (path ! n) = Some v\<close> by (auto simp: speeds_inv_def)
    qed
  qed
qed

lemma point_speeds_inv:
  "speeds_inv path (length path) (fold (speed_step path) [0..<length path] (map reported_speed path, None))"
proof -
  have "n \<le> length path \<Longrightarrow>
    speeds_inv path n (fold (speed_step path) [0..<n] (map reported_speed path, None))" for n
  proof (induction n)
    case 0
    then show ?case by (auto simp: speeds_inv_def)
  next
    case (Suc n)
    then show ?case using speed_step_inv by simp
  qed
  then show ?thesis by simp
qed

section \<open>Hovers are heard throughout\<close>

definition slow_run :: "real \<Rightarrow> position list \<Rightarrow> nat \<Rightarrow> nat \<Rightarrow> bool" where
  "slow_run max_speed path i e \<longleftrightarrow>
     list_all (\<lambda>m. case point_speeds path ! m of None \<Rightarrow> False | Some v \<Rightarrow> v \<le> max_speed) [i..<e] \<and>
     gap_free path i (e - 1)"

definition real_dwell :: "real \<Rightarrow> int \<Rightarrow> position list \<Rightarrow> dwell \<Rightarrow> bool" where
  "real_dwell max_speed min_ms path d \<longleftrightarrow>
     list_ex (\<lambda>e. dwell_of_run min_ms path (dw_index d) e = Some d \<and> slow_run max_speed path (dw_index d) e)
       [0..<Suc (length path)]"

lemma dwell_of_run_index: "dwell_of_run min_ms path i e = Some d \<Longrightarrow> dw_index d = i"
  by (auto simp: dwell_of_run_def Let_def split: if_splits option.splits)

lemma flush_run_real:
  assumes "n \<le> length path" "list_all (real_dwell v ms path) (snd st)"
    and "\<And>i. fst st = Some i \<Longrightarrow> slow_run v path i n"
  shows "fst (flush_run ms path n st) = None \<and> list_all (real_dwell v ms path) (snd (flush_run ms path n st))"
proof (cases "fst st")
  case (Some i)
  have "real_dwell v ms path d" if "dwell_of_run ms path i n = Some d" for d
  proof -
    have "dw_index d = i" "slow_run v path i n" "n \<in> set [0..<Suc (length path)]"
      using dwell_of_run_index [OF that] assms(1,3) Some by auto
    then show ?thesis using that unfolding real_dwell_def list_ex_iff by blast
  qed
  then show ?thesis using assms(2) Some by (auto simp: flush_run_def split: option.split)
qed (use assms in \<open>simp add: flush_run_def\<close>)

definition dwell_inv :: "real \<Rightarrow> int \<Rightarrow> position list \<Rightarrow> nat \<Rightarrow> nat option \<times> dwell list \<Rightarrow> bool" where
  "dwell_inv v ms path n st \<longleftrightarrow> list_all (real_dwell v ms path) (snd st) \<and>
     (\<forall>i. fst st = Some i \<longrightarrow> i < n \<and> slow_run v path i n)"

lemma slow_run_step:
  assumes "slow_run v path i n" "i < n" "\<not> is_gap (path ! (n - 1)) (path ! n)"
    and "case point_speeds path ! n of None \<Rightarrow> False | Some w \<Rightarrow> w \<le> v"
  shows "slow_run v path i (Suc n)"
proof -
  obtain m where n: "n = Suc m" "i \<le> m" using assms(2) by (cases n) auto
  then have "[i..<n] = [i..<m] @ [m]" by simp
  then show ?thesis using assms n by (simp add: slow_run_def gap_free_def)
qed

lemma dwell_step_inv:
  assumes inv: "dwell_inv v ms path n st" and n: "n < length path"
  shows "dwell_inv v ms path (Suc n) (dwell_step v ms path n st)"
proof -
  let ?slow = "case point_speeds path ! n of None \<Rightarrow> False | Some w \<Rightarrow> w \<le> v"
  let ?broken = "0 < n \<and> is_gap (path ! (n - 1)) (path ! n)"
  define st' where "st' = (if ?broken then flush_run ms path n st else st)"
  have step: "dwell_step v ms path n st =
      (if ?slow then (if fst st' = None then (Some n, snd st') else st') else flush_run ms path n st')"
    unfolding dwell_step_def Let_def st'_def by (rule refl)
  have fl: "fst (flush_run ms path n s) = None \<and> list_all (real_dwell v ms path) (snd (flush_run ms path n s))"
    if "dwell_inv v ms path n s" for s
    using that n by (intro flush_run_real) (auto simp: dwell_inv_def)
  have inv': "dwell_inv v ms path n st'" using inv fl [OF inv] by (simp add: dwell_inv_def st'_def)
  consider "\<not> ?slow" | "?slow" "fst st' = None" | i where "?slow" "fst st' = Some i" by blast
  then show ?thesis
  proof cases
    case 1
    then show ?thesis using fl [OF inv'] step by (simp add: dwell_inv_def)
  next
    case 2
    moreover have "slow_run v path n (Suc n)" using 2(1) by (simp add: slow_run_def gap_free_def)
    ultimately show ?thesis using inv' step by (simp add: dwell_inv_def)
  next
    case 3
    have b: "\<not> ?broken" using fl [OF inv] 3(2) by (auto simp: st'_def)
    have i: "i < n" "slow_run v path i n" using inv' 3(2) by (simp_all add: dwell_inv_def)
    have "slow_run v path i (Suc n)" using slow_run_step [OF i(2,1) _ 3(1)] b i(1) by simp
    moreover have "dwell_step v ms path n st = st'" using step 3 by simp
    ultimately show ?thesis using inv' 3(2) i(1) by (simp add: dwell_inv_def)
  qed
qed

lemma dwell_points_real: "list_all (real_dwell v ms path) (dwell_points v ms path)"
proof -
  have "n \<le> length path \<Longrightarrow> dwell_inv v ms path n (fold (dwell_step v ms path) [0..<n] (None, []))" for n
  proof (induction n)
    case (Suc n)
    then show ?case using dwell_step_inv by simp
  qed (simp add: dwell_inv_def)
  from this [of "length path"] show ?thesis
    unfolding dwell_points_def by (intro flush_run_real [THEN conjunct2]) (auto simp: dwell_inv_def)
qed

section \<open>Properties\<close>

text \<open>C19: The replayed marker is never somewhere the aircraft was not known to be: between the first
  and the last dated fix the frame is that of the last fix heard by then, as a scan of the fixes
  finds it; across a reception gap the position is that fix exactly and the frame says it was not
  heard, and otherwise it lies between that fix and the next, and was heard.\<close>

theorem frame_holds_across_gaps:
  assumes "ds = dated_points path" "ds \<noteq> []" "of_int (snd (hd ds)) < t" "t < of_int (snd (last ds))"
    and "i = last_heard ds t" "(p, a) = ds ! i" "(q, b) = ds ! Suc i"
  shows "\<exists>fr. frame_at path t = Some fr \<and> pf_index fr = i \<and> Suc i < length ds \<and> of_int a \<le> t \<and> t < of_int b \<and>
    (if trail_gap_ms < b - a then \<not> pf_heard fr \<and> pf_lat fr = pos_lat p \<and> pf_lon fr = pos_lon p
     else pf_heard fr \<and> pf_lat fr \<in> {min (pos_lat p) (pos_lat q)..max (pos_lat p) (pos_lat q)} \<and>
       pf_lon fr \<in> {min (pos_lon p) (pos_lon q)..max (pos_lon p) (pos_lon q)})"
proof -
  obtain lo hi where s: "search_at ds t 0 (length ds - 1) = (lo, hi)" by fastforce
  have ends: "of_int (snd (ds ! 0)) \<le> t" "t < of_int (snd (ds ! (length ds - 1)))"
    using assms(2-4) by (simp_all add: hd_conv_nth last_conv_nth)
  then have "0 < length ds - 1" by (cases "length ds - 1 = 0") auto
  from search_at_correct [OF this ends s]
  have hi: "hi = Suc lo" "hi \<le> length ds - 1" "of_int (snd (ds ! lo)) \<le> t" "t < of_int (snd (ds ! Suc lo))" by auto
  then have lo: "Suc lo < length ds" using assms(2) by (cases ds) auto
  have "lo = i" using last_heard_unique [OF _ lo hi(3,4)] dated_points_sorted assms(1,5) by simp
  then have ab: "ds ! lo = (p, a)" "ds ! Suc lo = (q, b)" "of_int a \<le> t" "t < of_int b"
    using assms(6,7) hi(3,4) by (metis snd_conv)+
  have w: "0 \<le> (t - of_int a) / of_int (b - a)" "(t - of_int a) / of_int (b - a) \<le> 1"
    using ab(3,4) by (simp_all add: divide_le_eq)
  have "frame_at path t = Some (frame_between (p, a) (q, b) t lo)"
    using assms(1-4) s hi(1) ab(1,2) by (simp add: frame_at_def Let_def)
  then show ?thesis
    using lo ab(3,4) \<open>lo = i\<close> lerp_between [OF w]
    by (auto simp: frame_between_def frame_of_def Let_def)
qed

definition fix_at :: "string \<Rightarrow> real \<Rightarrow> position" where
  "fix_at stamp lat = \<lparr> pos_lat = lat, pos_lon = 4, pos_alt_geodetic_m = None, pos_height_agl_m = None,
     pos_terrain_elevation_m = None, pos_speed_mps = None, pos_track_deg = None, pos_at = Some stamp \<rparr>"

definition silent_path :: "position list" where
  "silent_path = [fix_at ''1970-01-01T00:00:10Z'' 1, fix_at ''1970-01-01T00:02:00Z'' 2]"

lemma silent_path_dated: "dated_points silent_path =
    [(fix_at ''1970-01-01T00:00:10Z'' 1, 10000), (fix_at ''1970-01-01T00:02:00Z'' 2, 120000)]"
proof -
  have "date_parse ''1970-01-01T00:00:10Z'' = Some 10000" "date_parse ''1970-01-01T00:02:00Z'' = Some 120000"
    by code_simp+
  then show ?thesis
    by (simp add: silent_path_def dated_points_def List.map_filter_simps point_ms_def fix_at_def)
qed

theorem frame_holds_across_gaps_witness:
  "\<exists>fr. frame_at silent_path 60000 = Some fr \<and> \<not> pf_heard fr \<and> pf_lat fr = 1"
proof -
  let ?ds = "[(fix_at ''1970-01-01T00:00:10Z'' 1, 10000), (fix_at ''1970-01-01T00:02:00Z'' 2, 120000)] :: dated_point list"
  have "last_heard ?ds 60000 = 0" by (simp add: last_heard_def)
  then show ?thesis
    using frame_holds_across_gaps [of ?ds silent_path 60000 0 "fix_at ''1970-01-01T00:00:10Z'' 1" 10000
        "fix_at ''1970-01-01T00:02:00Z'' 2" 120000]
    by (auto simp: silent_path_dated trail_gap_ms_def fix_at_def)
qed

text \<open>A speed is never invented: each point that reported one keeps exactly that speed, and a
  point that did not has one if and only if reports surround it with no reception gap between
  them; before the first report, after the last and across a gap there is none.\<close>

theorem speeds_only_between_reports:
  assumes "m < length path"
  shows "length (point_speeds path) = length path \<and>
    (case reported_speed (path ! m) of
       Some v \<Rightarrow> point_speeds path ! m = Some v
     | None \<Rightarrow> (point_speeds path ! m \<noteq> None) = (\<exists>j k. bracketed path j m k))"
proof -
  have "k < length path" if "bracketed path j m k" for j k using that by (simp add: bracketed_def)
  then show ?thesis
    using point_speeds_inv [of path] assms
    by (auto simp: speeds_inv_def point_speeds_def Let_def split: prod.splits option.splits)
qed

theorem speeds_only_between_reports_witness:
  "point_speeds [fix_at [] 1, (fix_at [] 2)\<lparr> pos_speed_mps := Some 3 \<rparr>] ! 1 = Some 3 \<and>
   point_speeds [fix_at [] 1, (fix_at [] 2)\<lparr> pos_speed_mps := Some 3 \<rparr>] ! 0 = None"
proof -
  let ?p = "[fix_at [] 1, (fix_at [] 2)\<lparr> pos_speed_mps := Some 3 \<rparr>]"
  have "(\<exists>j k. bracketed ?p j 0 k) = False" by (simp add: bracketed_def)
  moreover have "reported_speed (?p ! 0) = None" "reported_speed (?p ! 1) = Some 3"
    by (simp_all add: reported_speed_def fix_at_def)
  ultimately show ?thesis
    using speeds_only_between_reports [of 1 ?p] speeds_only_between_reports [of 0 ?p]
    by (auto simp del: nth_Cons_0 nth_Cons_Suc)
qed

text \<open>A hover is only reported where the aircraft stopped and was heard to stay: each one is the
  run of a stretch of the path on which every point has a speed and none above the limit, with no
  reception gap inside it, whose ends are at least the minimum time apart.\<close>

theorem hovers_heard_throughout:
  "list_all (real_dwell max_speed min_ms path) (dwell_points max_speed min_ms path)"
  by (rule dwell_points_real)

end
