(* ===== verification/SpectrumViews.thy ===== *)
theory SpectrumViews
  imports ApiTypes Runs
begin

text \<open>
  \<open>features/spectrum/trace-series.ts\<close> (a spectrum trace as line segments) and
  \<open>features/spectrum/wifi-survey.ts\<close> (channel occupancy read out of an untyped heartbeat detail).
  A JSON number is a real; the text of a number is the argument \<open>num\<close>.
\<close>

section \<open>Traces\<close>

record spectrum_trace =
  st_start_hz :: real
  st_stop_hz :: real
  st_bin_width_hz :: real
  st_dbfs :: "real option list"
  st_blind :: int

record trace_point =
  tp_hz :: real
  tp_db :: real

definition cell_hz :: "spectrum_trace \<Rightarrow> nat \<Rightarrow> real" where
  "cell_hz trace i = st_start_hz trace + (real i + 1 / 2) * st_bin_width_hz trace"

text \<open>One turn of the \<open>forEach\<close>: the segments pushed so far and the current one.\<close>

fun segment_step ::
  "spectrum_trace \<Rightarrow> nat \<times> real option \<Rightarrow> trace_point list list \<times> trace_point list \<Rightarrow>
   trace_point list list \<times> trace_point list" where
  "segment_step trace (i, None) (segs, current) = (if current \<noteq> [] then segs @ [current] else segs, [])"
| "segment_step trace (i, Some db) (segs, current) =
     (segs, current @ [\<lparr> tp_hz = cell_hz trace i, tp_db = db \<rparr>])"

definition trace_segments :: "spectrum_trace option \<Rightarrow> trace_point list list" where
  "trace_segments t =
     (case t of None \<Rightarrow> []
      | Some trace \<Rightarrow>
          if st_dbfs trace = [] then []
          else
            let (segs, current) = fold (segment_step trace) (enumerate 0 (st_dbfs trace)) ([], [])
            in if current \<noteq> [] then segs @ [current] else segs)"

definition trace_extent :: "trace_point list list \<Rightarrow> (real \<times> real) option" where
  "trace_extent segs = extent_of (map tp_db (concat segs))"

definition plot_range ::
  "(real \<times> real) option \<Rightarrow> real option \<Rightarrow> real option \<Rightarrow> real \<times> real" where
  "plot_range extent floor_db threshold_db =
     (let widen_by = (\<lambda>line (lo, hi). case line of None \<Rightarrow> (lo, hi) | Some v \<Rightarrow> (min lo v, max hi v));
          (lo, hi) = widen_by threshold_db (widen_by floor_db (nullish extent (- 100, 0)));
          (lo1, hi1) = (if hi - lo < 6 then ((hi + lo) / 2 - 3, (hi + lo) / 2 + 3) else (lo, hi));
          pad = (hi1 - lo1) * 8 / 100
      in (lo1 - pad, hi1 + pad))"

definition nearest_cell :: "spectrum_trace option \<Rightarrow> real \<Rightarrow> nat option" where
  "nearest_cell t hz =
     (case t of None \<Rightarrow> None
      | Some trace \<Rightarrow>
          if st_dbfs trace = [] then None
          else
            let i = js_round ((hz - st_start_hz trace) / st_bin_width_hz trace - 1 / 2)
            in if i < 0 \<or> int (length (st_dbfs trace)) \<le> i then None else Some (nat i))"

definition hz_at_fraction :: "spectrum_trace \<Rightarrow> real \<Rightarrow> real" where
  "hz_at_fraction trace f = st_start_hz trace + f * (st_stop_hz trace - st_start_hz trace)"

definition fraction_at_hz :: "spectrum_trace \<Rightarrow> real \<Rightarrow> real" where
  "fraction_at_hz trace hz =
     (let span = st_stop_hz trace - st_start_hz trace
      in if span \<le> 0 then 0 else min 1 (max 0 ((hz - st_start_hz trace) / span)))"

definition format_mhz :: "nat \<Rightarrow> real \<Rightarrow> string" where
  "format_mhz digits hz = to_fixed digits (hz / 1000000) @ '' MHz''"

definition format_dbfs :: "real \<Rightarrow> string" where
  "format_dbfs db = to_fixed 1 db @ '' dBFS''"

definition blind_percent :: "spectrum_trace option \<Rightarrow> real" where
  "blind_percent t =
     (case t of None \<Rightarrow> 0
      | Some trace \<Rightarrow> if st_dbfs trace = [] then 0
          else of_int (st_blind trace) / real (length (st_dbfs trace)) * 100)"

section \<open>Channel occupancy\<close>

datatype band_key = Band24 | Band5 | Band6

record channel_occupancy =
  co_freq_mhz :: real
  co_channel :: "real option"
  co_band :: band_key
  co_active_ms :: real
  co_busy_fraction :: real
  co_noise_dbm :: "real option"
  co_rx_ms :: real
  co_tx_ms :: real
  co_in_use :: bool

datatype survey_state =
    NoSensor
  | SurveyUnknown string
  | Unsupported string string
  | Warming string
  | Ready string "channel_occupancy list"

fun json_num :: "json option \<Rightarrow> real option" where
  "json_num (Some (JNum x)) = Some x"
| "json_num _ = None"

definition band_for :: "real \<Rightarrow> band_key" where
  "band_for freq = (if freq < 3000 then Band24 else if freq < 5925 then Band5 else Band6)"

definition band_of :: "json option \<Rightarrow> real \<Rightarrow> band_key" where
  "band_of band freq =
     (if band = Some (JStr ''2.4'') then Band24 else if band = Some (JStr ''5'') then Band5
      else if band = Some (JStr ''6'') then Band6 else band_for freq)"

text \<open>An array is an object too, whose named fields are all undefined.\<close>

definition entry_fields :: "json \<Rightarrow> (string \<times> json) list option" where
  "entry_fields raw = (case raw of JObj fs \<Rightarrow> Some fs | JArr _ \<Rightarrow> Some [] | _ \<Rightarrow> None)"

definition read_channel :: "json \<Rightarrow> channel_occupancy option" where
  "read_channel raw =
     (case entry_fields raw of None \<Rightarrow> None
      | Some entry \<Rightarrow>
          (case (json_num (map_of entry ''freq_mhz''), json_num (map_of entry ''active_ms''),
                 json_num (map_of entry ''busy_fraction'')) of
             (Some freq, Some active, Some busy) \<Rightarrow>
               Some \<lparr> co_freq_mhz = freq, co_channel = json_num (map_of entry ''channel''),
                      co_band = band_of (map_of entry ''band'') freq, co_active_ms = active,
                      co_busy_fraction = min (max busy 0) 1,
                      co_noise_dbm = json_num (map_of entry ''noise_dbm''),
                      co_rx_ms = nullish (json_num (map_of entry ''rx_ms'')) 0,
                      co_tx_ms = nullish (json_num (map_of entry ''tx_ms'')) 0,
                      co_in_use = (map_of entry ''in_use'' = Some (JBool True)) \<rparr>
           | _ \<Rightarrow> None))"

definition survey_sensor :: "sensor_health list option \<Rightarrow> string option \<Rightarrow> sensor_health option" where
  "survey_sensor sensors want =
     (let wifi = filter (\<lambda>s. sh_sensor_kind s = Wifi) (nullish sensors [])
      in if truthy want then find (\<lambda>s. Some (sh_sensor_id s) = want) wifi
         else (case wifi of [] \<Rightarrow> None | s # _ \<Rightarrow> Some s))"

definition survey_channels :: "json list \<Rightarrow> channel_occupancy list" where
  "survey_channels raw =
     js_sort (\<lambda>a b. co_freq_mhz a - co_freq_mhz b) (List.map_filter read_channel raw)"

definition survey_state_of :: "sensor_health list option \<Rightarrow> string option \<Rightarrow> survey_state" where
  "survey_state_of sensors want =
     (case survey_sensor sensors want of None \<Rightarrow> NoSensor
      | Some sensor \<Rightarrow>
          let i = sh_sensor_id sensor; detail = nullish (sh_detail sensor) [];
              available = map_of detail ''survey_available'';
              reason = (case map_of detail ''survey_reason'' of Some (JStr r) \<Rightarrow> r | _ \<Rightarrow> [])
          in if available = Some (JBool False) \<or> reason \<noteq> [] then
               Unsupported i (if reason \<noteq> [] then reason
                 else ''the driver reported no survey for this interface'')
             else (case map_of detail ''survey'' of
                 Some (JArr raw) \<Rightarrow>
                   let channels = survey_channels raw
                   in if channels = [] then Warming i else Ready i channels
               | _ \<Rightarrow> if available = Some (JBool True) then Warming i else SurveyUnknown i))"

fun band_label :: "band_key \<Rightarrow> string" where
  "band_label Band24 = ''2.4 GHz''"
| "band_label Band5 = ''5 GHz''"
| "band_label Band6 = ''6 GHz''"

definition group_by_band :: "channel_occupancy list \<Rightarrow> (band_key \<times> string \<times> channel_occupancy list) list" where
  "group_by_band channels =
     filter (\<lambda>(b, l, cs). cs \<noteq> [])
       (map (\<lambda>b. (b, band_label b, filter (\<lambda>c. co_band c = b) channels)) [Band24, Band5, Band6])"

definition busiest :: "channel_occupancy list \<Rightarrow> channel_occupancy option" where
  "busiest channels =
     fold (\<lambda>c best. case best of None \<Rightarrow> Some c
             | Some b \<Rightarrow> if co_busy_fraction b < co_busy_fraction c then Some c else Some b) channels None"

definition transmitting :: "channel_occupancy list \<Rightarrow> channel_occupancy list" where
  "transmitting channels = filter (\<lambda>c. 0 < co_tx_ms c) channels"

definition format_channel :: "(real \<Rightarrow> string) \<Rightarrow> channel_occupancy \<Rightarrow> string" where
  "format_channel num c =
     (case co_channel c of None \<Rightarrow> num (co_freq_mhz c) @ '' MHz'' | Some n \<Rightarrow> ''ch '' @ num n)"

section \<open>Runs of measured cells\<close>

definition cell_point :: "spectrum_trace \<Rightarrow> nat \<Rightarrow> trace_point option" where
  "cell_point trace i = map_option (\<lambda>db. \<lparr> tp_hz = cell_hz trace i, tp_db = db \<rparr>) (st_dbfs trace ! i)"

definition cell_points :: "spectrum_trace \<Rightarrow> trace_point option list" where
  "cell_points trace = map (cell_point trace) [0..<length (st_dbfs trace)]"

lemma segment_step_split:
  "i < length (st_dbfs trace) \<Longrightarrow>
   segment_step trace (i, st_dbfs trace ! i) st = split_step (\<lambda>_ _. False) (cell_point trace i) st"
  by (cases st; cases "st_dbfs trace ! i") (simp_all add: cell_point_def)

lemma trace_segments_split: "trace_segments (Some trace) = split_runs (\<lambda>_ _. False) (cell_points trace)"
proof -
  have cells: "enumerate 0 (st_dbfs trace) = map (\<lambda>i. (i, st_dbfs trace ! i)) [0..<length (st_dbfs trace)]"
    by (rule nth_equalityI) (simp_all add: nth_enumerate_eq)
  have "fold (segment_step trace) (enumerate 0 (st_dbfs trace)) st =
      fold (split_step (\<lambda>_ _. False)) (cell_points trace) st" for st
    unfolding cells cell_points_def fold_map by (rule fold_cong) (auto simp: segment_step_split)
  then show ?thesis
    by (auto simp: trace_segments_def split_runs_def close_run_def cell_points_def split: prod.splits)
qed

section \<open>Readable channels\<close>

lemma read_channel_well_formed:
  "read_channel raw = Some c \<Longrightarrow> 0 \<le> co_busy_fraction c \<and> co_busy_fraction c \<le> 1"
  by (auto simp: read_channel_def split: option.splits)

lemma group_by_band_mset: "mset (concat (map (\<lambda>(b, l, cs). cs) (group_by_band cs))) = mset cs"
proof -
  have drop: "concat (map (\<lambda>(b, l, cs). cs) (filter (\<lambda>(b, l, cs). cs \<noteq> []) gs)) =
      concat (map (\<lambda>(b, l, cs). cs) gs)" for gs :: "(band_key \<times> string \<times> channel_occupancy list) list"
    by (induction gs) auto
  have "mset (filter (\<lambda>c. co_band c = Band24) cs) + (mset (filter (\<lambda>c. co_band c = Band5) cs) +
      mset (filter (\<lambda>c. co_band c = Band6) cs)) = mset cs"
  proof (induction cs)
    case (Cons c cs)
    then show ?case by (cases "co_band c") (simp_all add: ac_simps)
  qed simp
  then show ?thesis unfolding group_by_band_def drop by simp
qed

lemma survey_channels_well_formed:
  "list_all (\<lambda>c. 0 \<le> co_busy_fraction c \<and> co_busy_fraction c \<le> 1) (survey_channels raw)"
proof -
  have "c \<in> set (List.map_filter read_channel raw) \<Longrightarrow> 0 \<le> co_busy_fraction c \<and> co_busy_fraction c \<le> 1" for c
    by (induction raw) (auto simp: List.map_filter_simps split: option.splits dest: read_channel_well_formed)
  then show ?thesis by (simp add: survey_channels_def list_all_iff)
qed

lemma survey_channels_sorted: "sorted_wrt (\<lambda>a b. co_freq_mhz a \<le> co_freq_mhz b) (survey_channels raw)"
proof -
  have "survey_channels raw = sort_key co_freq_mhz (List.map_filter read_channel raw)"
    unfolding survey_channels_def by (rule js_sort_sort_key) simp
  then show ?thesis using sorted_sort_key [of co_freq_mhz "List.map_filter read_channel raw"]
    by (simp add: sorted_wrt_map)
qed

lemma survey_sensor_chosen:
  "survey_sensor sensors want = Some s \<Longrightarrow>
   s \<in> set (nullish sensors []) \<and> sh_sensor_kind s = Wifi \<and> (if truthy want then want = Some (sh_sensor_id s) else True)"
  by (auto simp: survey_sensor_def Let_def find_Some_iff split: if_splits list.splits
      dest: nth_mem simp: filter_eq_Cons_iff)

section \<open>Properties\<close>

text \<open>The plot never draws a line over a cell nobody measured, and leaves none out: the segments of
  a trace are exactly its maximal runs of measured cells, in order, each with one point per cell at
  the middle of the cell and at its level.\<close>

theorem trace_drawn_in_runs:
  "\<exists>rs. trace_segments (Some trace) = map (run_at (cell_points trace)) rs \<and>
     maximal_runs (\<lambda>_ _. False) (cell_points trace) rs"
  unfolding trace_segments_split by (rule split_runs_maximal)

text \<open>Whatever a sensor published as its free-form detail, an occupancy card that is ready is well
  formed and about the right radio: the sensor is a reported Wi-Fi sensor, the wanted one where one
  was named, every channel has a busy fraction between 0 and 1, the channels come in frequency
  order, there is at least one, and the bands split them without losing or repeating any.\<close>

theorem survey_ready_is_well_formed:
  assumes ready: "survey_state_of sensors want = Ready i channels"
  shows "list_ex (\<lambda>s. sh_sensor_id s = i \<and> sh_sensor_kind s = Wifi) (nullish sensors []) \<and>
    (if truthy want then want = Some i else True) \<and> channels \<noteq> [] \<and>
    list_all (\<lambda>c. 0 \<le> co_busy_fraction c \<and> co_busy_fraction c \<le> 1) channels \<and>
    sorted_wrt (\<lambda>a b. co_freq_mhz a \<le> co_freq_mhz b) channels \<and>
    mset (concat (map (\<lambda>(b, l, cs). cs) (group_by_band channels))) = mset channels"
proof -
  obtain s where s: "survey_sensor sensors want = Some s"
    using ready by (cases "survey_sensor sensors want") (simp_all add: survey_state_of_def)
  obtain raw where raw: "i = sh_sensor_id s" "channels = survey_channels raw" "channels \<noteq> []"
    using ready s by (auto simp: survey_state_of_def Let_def split: if_splits option.splits json.splits)
  show ?thesis
    using survey_sensor_chosen [OF s] raw survey_channels_well_formed [of raw] survey_channels_sorted [of raw]
      group_by_band_mset [of channels]
    by (auto simp: list_ex_iff)
qed

definition example_survey :: "sensor_health" where
  "example_survey =
     \<lparr> sh_sensor_id = ''wifi-1'', sh_sensor_kind = Wifi, sh_healthy = True, sh_last_heartbeat = [],
       sh_seconds_since_heartbeat = 1, sh_detections_5m = None, sh_reason = None,
       sh_detail = Some [(''survey_available'', JBool True),
         (''survey'', JArr [JObj [(''freq_mhz'', JNum 2462), (''active_ms'', JNum 100), (''busy_fraction'', JNum 2)],
           JNull, JObj [(''freq_mhz'', JNum 2412), (''active_ms'', JNum 100), (''busy_fraction'', JNum (1 / 2))]])],
       sh_optional = None, sh_config = None \<rparr>"

lemma example_survey_ready:
  "\<exists>channels. survey_state_of (Some [example_survey]) (Some ''wifi-1'') = Ready ''wifi-1'' channels"
  by (simp add: survey_state_of_def survey_sensor_def survey_channels_def read_channel_def entry_fields_def
      example_survey_def List.map_filter_simps band_of_def)

theorem survey_ready_is_well_formed_witness:
  "\<exists>channels. survey_state_of (Some [example_survey]) (Some ''wifi-1'') = Ready ''wifi-1'' channels \<and>
     list_all (\<lambda>c. 0 \<le> co_busy_fraction c \<and> co_busy_fraction c \<le> 1) channels"
  using example_survey_ready survey_ready_is_well_formed by blast

end
