(* ===== verification/Telemetry.thy ===== *)
theory Telemetry
  imports ApiTypes JsDate Runs "HOL-Library.Log_Nat"
begin

text \<open>
  \<open>features/settings/hosts/telemetry-series.ts\<close> (the host's history as drawable segments) and
  \<open>features/settings/storage/storage-forecast.ts\<close> (how long until the disk is full).

  Here the rounding of double arithmetic decides what is drawn, so \<open>downsampleSegment\<close> is modelled
  with it: \<open>double\<close> rounds a real to the nearest double, ties to even. The forecast is over exact reals.
\<close>

section \<open>Series\<close>

record telemetry_sample =
  tl_ts :: string
  tl_cpu_temp_c :: "real option"
  tl_load1 :: "real option"
  tl_mem_available_kb :: "real option"
  tl_disk_free_bytes :: "real option"
  tl_uptime_s :: "real option"

text \<open>A timestamp that does not parse is \<open>NaN\<close>, which no comparison holds of.\<close>

record telemetry_point =
  tm_t :: "int option"
  tm_v :: real

definition sample_ms :: "telemetry_sample \<Rightarrow> int option" where
  "sample_ms s = date_parse (tl_ts s)"

definition nominal_cadence_ms :: int where "nominal_cadence_ms = 60000"

definition sample_deltas :: "telemetry_sample list \<Rightarrow> int list" where
  "sample_deltas samples =
     List.map_filter
       (\<lambda>(previous, curr). case (sample_ms previous, sample_ms curr) of
            (Some a, Some b) \<Rightarrow> if 0 < b - a then Some (b - a) else None
          | _ \<Rightarrow> None)
       (zip samples (tl samples))"

definition sample_cadence_ms :: "telemetry_sample list \<Rightarrow> int" where
  "sample_cadence_ms samples =
     (let deltas = sample_deltas samples
      in if deltas = [] then nominal_cadence_ms
         else js_sort (\<lambda>a b. a - b) deltas ! (length deltas div 2))"

definition gap_threshold :: "telemetry_sample list \<Rightarrow> real" where
  "gap_threshold samples = of_int (sample_cadence_ms samples) * 5 / 2"

definition outage :: "real \<Rightarrow> telemetry_point \<Rightarrow> telemetry_point \<Rightarrow> bool" where
  "outage threshold previous p =
     (case (tm_t previous, tm_t p) of
        (Some a, Some b) \<Rightarrow> threshold < of_int (b - a)
      | _ \<Rightarrow> False)"

definition reading :: "(telemetry_sample \<Rightarrow> real option) \<Rightarrow> telemetry_sample \<Rightarrow> telemetry_point option" where
  "reading pick s = map_option (\<lambda>v. \<lparr> tm_t = sample_ms s, tm_v = v \<rparr>) (pick s)"

definition split_segments ::
  "telemetry_sample list \<Rightarrow> (telemetry_sample \<Rightarrow> real option) \<Rightarrow> telemetry_point list list" where
  "split_segments samples pick =
     close_run (fold (\<lambda>s. split_step (outage (gap_threshold samples)) (reading pick s)) samples ([], []))"

definition series_extent :: "telemetry_point list list \<Rightarrow> (real \<times> real) option" where
  "series_extent segs = extent_of (map tm_v (concat segs))"

text \<open>The nearest sample to a time.\<close>

definition at_or_before :: "telemetry_sample \<Rightarrow> real \<Rightarrow> bool" where
  "at_or_before s t = (case sample_ms s of None \<Rightarrow> False | Some a \<Rightarrow> of_int a \<le> t)"

definition no_farther :: "telemetry_sample \<Rightarrow> telemetry_sample \<Rightarrow> real \<Rightarrow> bool" where
  "no_farther s u t =
     (case (sample_ms s, sample_ms u) of
        (Some a, Some b) \<Rightarrow> \<bar>of_int a - t\<bar> \<le> \<bar>of_int b - t\<bar>
      | _ \<Rightarrow> False)"

definition nearest_sample_index :: "telemetry_sample list \<Rightarrow> real \<Rightarrow> nat option" where
  "nearest_sample_index samples t =
     (if samples = [] then None
      else
        let (lo, hi) = bisect (\<lambda>mid. at_or_before (samples ! mid) t) 0 (length samples - 1)
        in Some (if no_farther (samples ! lo) (samples ! hi) t then lo else hi))"

section \<open>Thinning a segment\<close>

definition round_half_even :: "real \<Rightarrow> int" where
  "round_half_even x =
     (let f = \<lfloor>x\<rfloor>; d = x - of_int f
      in if d < 1 / 2 then f else if 1 / 2 < d then f + 1 else if even f then f else f + 1)"

text \<open>
  The nearest double of a real that is at least 1 (and below \<open>2 ^ 53\<close>); 0 is the only smaller number
  the source computes here, and is a double.
\<close>

definition double :: "real \<Rightarrow> real" where
  "double x =
     (if x < 1 then x
      else let p = 53 - floorlog 2 (nat \<lfloor>x\<rfloor>)
           in of_int (round_half_even (x * 2 ^ p)) / 2 ^ p)"

definition bucket_start :: "real \<Rightarrow> nat \<Rightarrow> nat" where
  "bucket_start width b = nat \<lfloor>double (real b * width)\<rfloor>"

text \<open>The first lowest and the first highest point of a bucket, by index.\<close>

definition lowest_in :: "telemetry_point list \<Rightarrow> nat list \<Rightarrow> nat option" where
  "lowest_in points ks =
     fold (\<lambda>i lo. case lo of None \<Rightarrow> Some i
             | Some j \<Rightarrow> if tm_v (points ! i) < tm_v (points ! j) then Some i else Some j) ks None"

definition highest_in :: "telemetry_point list \<Rightarrow> nat list \<Rightarrow> nat option" where
  "highest_in points ks =
     fold (\<lambda>i hi. case hi of None \<Rightarrow> Some i
             | Some j \<Rightarrow> if tm_v (points ! j) < tm_v (points ! i) then Some i else Some j) ks None"

definition bucket_range :: "nat \<Rightarrow> real \<Rightarrow> nat \<Rightarrow> nat list" where
  "bucket_range n width b =
     (let start = bucket_start width b
      in [start..<min n (max (start + 1) (bucket_start width (b + 1)))])"

definition in_time_order :: "telemetry_point \<Rightarrow> telemetry_point \<Rightarrow> bool" where
  "in_time_order p q = (case (tm_t p, tm_t q) of (Some a, Some b) \<Rightarrow> a \<le> b | _ \<Rightarrow> False)"

definition bucket_points :: "telemetry_point list \<Rightarrow> nat list \<Rightarrow> telemetry_point list" where
  "bucket_points points ks =
     (case (lowest_in points ks, highest_in points ks) of
        (Some i, Some j) \<Rightarrow>
          (let lo = points ! i; hi = points ! j
           in if i = j then [lo] else if in_time_order lo hi then [lo, hi] else [hi, lo])
      | _ \<Rightarrow> [])"

definition downsample_segment :: "telemetry_point list \<Rightarrow> nat \<Rightarrow> telemetry_point list" where
  "downsample_segment points max_points =
     (if length points \<le> max_points \<or> max_points < 4 then points
      else
        let bucket_count = max_points div 2;
            bucket_width = double (real (length points) / real bucket_count)
        in concat (map (\<lambda>b. bucket_points points (bucket_range (length points) bucket_width b)) [0..<bucket_count]))"

section \<open>The disk forecast\<close>

datatype forecast_verdict = Filling real real | Stable real | ForecastUnknown string

record free_space_point =
  fs_ts :: "int option"
  fs_free :: "real option"

definition min_span_ms :: int where "min_span_ms = 60 * 60 * 1000"
definition min_points :: nat where "min_points = 8"
definition noise_floor_fraction :: real where "noise_floor_fraction = 1 / 1000"

definition usable_points :: "free_space_point list \<Rightarrow> (int \<times> real) list" where
  "usable_points points =
     js_sort (\<lambda>a b. fst a - fst b)
       (List.map_filter (\<lambda>p. case (fs_ts p, fs_free p) of (Some t, Some f) \<Rightarrow> Some (t, f) | _ \<Rightarrow> None) points)"

text \<open>The sums of the regression, over the time since the first reading.\<close>

definition regression_sums :: "int \<Rightarrow> (int \<times> real) list \<Rightarrow> real \<times> real \<times> real \<times> real" where
  "regression_sums first ps =
     fold (\<lambda>(ts, free) (sx, sy, sxy, sxx).
         let x = of_int (ts - first) in (sx + x, sy + free, sxy + x * free, sxx + x * x))
       ps (0, 0, 0, 0)"

definition ms_per_day :: real where "ms_per_day = 86400000"

definition verdict_of_slope :: "real \<Rightarrow> real \<Rightarrow> forecast_verdict" where
  "verdict_of_slope free_now bytes_per_day =
     (if free_now \<le> 0 then Filling bytes_per_day 0
      else if \<bar>bytes_per_day\<bar> < free_now * noise_floor_fraction then Stable bytes_per_day
      else if 0 \<le> bytes_per_day then Stable bytes_per_day
      else Filling bytes_per_day (free_now / - bytes_per_day))"

definition forecast_disk_full :: "free_space_point list \<Rightarrow> forecast_verdict" where
  "forecast_disk_full points =
     (let usable = usable_points points
      in if length usable < min_points then ForecastUnknown ''not enough recorded history yet''
         else if fst (last usable) - fst (hd usable) < min_span_ms
         then ForecastUnknown ''the recorded window is shorter than an hour''
         else
           let n = real (length usable);
               (sx, sy, sxy, sxx) = regression_sums (fst (hd usable)) usable;
               denom = n * sxx - sx * sx
           in if denom = 0 then ForecastUnknown ''every reading landed at the same moment''
              else verdict_of_slope (snd (last usable)) ((n * sxy - sx * sy) / denom * ms_per_day))"

definition used_fraction :: "real option \<Rightarrow> real option \<Rightarrow> real option" where
  "used_fraction total_bytes free_bytes =
     (case (total_bytes, free_bytes) of
        (Some t, Some f) \<Rightarrow>
          if t \<le> 0 then None else if f < 0 then None else Some (min 1 (max 0 (1 - f / t)))
      | _ \<Rightarrow> None)"

text \<open>The Storage panel's forecast: a week of host telemetry.\<close>

definition panel_points :: "telemetry_sample list \<Rightarrow> free_space_point list" where
  "panel_points = map (\<lambda>s. \<lparr> fs_ts = sample_ms s, fs_free = tl_disk_free_bytes s \<rparr>)"

section \<open>The fitted line\<close>

definition elapsed :: "int \<Rightarrow> int \<times> real \<Rightarrow> real" where
  "elapsed first p = of_int (fst p - first)"

definition squared_error :: "int \<Rightarrow> (int \<times> real) list \<Rightarrow> real \<Rightarrow> real \<Rightarrow> real" where
  "squared_error first ps a b = sum_list (map (\<lambda>p. (snd p - (a + b * elapsed first p)) ^ 2) ps)"

lemma regression_sums_eq:
  "regression_sums first ps =
     (sum_list (map (elapsed first) ps), sum_list (map snd ps),
      sum_list (map (\<lambda>p. elapsed first p * snd p) ps), sum_list (map (\<lambda>p. elapsed first p * elapsed first p) ps))"
proof -
  have "fold (\<lambda>(ts, free) (sx, sy, sxy, sxx).
         let x = of_int (ts - first) in (sx + x, sy + free, sxy + x * free, sxx + x * x)) ps (a, b, c, d) =
      (a + sum_list (map (elapsed first) ps), b + sum_list (map snd ps),
       c + sum_list (map (\<lambda>p. elapsed first p * snd p) ps),
       d + sum_list (map (\<lambda>p. elapsed first p * elapsed first p) ps))" for a b c d
    by (induction ps arbitrary: a b c d) (auto simp: elapsed_def Let_def)
  then show ?thesis by (simp add: regression_sums_def)
qed

lemma sum_list_affine:
  "sum_list (map (\<lambda>p. u * f p + v * g p) ps) = u * sum_list (map f ps) + v * sum_list (map g ps)"
  for u v :: real
  by (simp add: sum_list_addf sum_list_const_mult)

lemma spread_sum:
  "sum_list (map (\<lambda>p. (f p - c) ^ 2) ps) =
     sum_list (map (\<lambda>p. f p * f p) ps) - 2 * c * sum_list (map f ps) + real (length ps) * c ^ 2"
  for c :: real
  by (induction ps) (simp_all add: power2_eq_square algebra_simps)

text \<open>The denominator is the spread of the instants: it only vanishes when they all coincide.\<close>

lemma denominator_positive:
  assumes "p \<in> set ps" "q \<in> set ps" "f p \<noteq> (f q :: real)"
  shows "0 < real (length ps) * sum_list (map (\<lambda>p. f p * f p) ps) - sum_list (map f ps) * sum_list (map f ps)"
proof -
  define n c where "n = real (length ps)" and "c = sum_list (map f ps) / n"
  have n: "0 < n" using assms(1) by (auto simp: n_def length_pos_if_in_set)
  obtain r where r: "r \<in> set ps" "f r \<noteq> c" using assms by metis
  have "0 \<le> sum_list (map (\<lambda>p. (f p - c) ^ 2) ps)" by (rule sum_list_nonneg) auto
  moreover have "sum_list (map (\<lambda>p. (f p - c) ^ 2) ps) \<noteq> 0"
  proof
    assume "sum_list (map (\<lambda>p. (f p - c) ^ 2) ps) = 0"
    then have "\<forall>x \<in> set (map (\<lambda>p. (f p - c) ^ 2) ps). x = 0"
      by (subst (asm) sum_list_nonneg_eq_0_iff) auto
    then show False using r by auto
  qed
  ultimately have "0 < n * sum_list (map (\<lambda>p. (f p - c) ^ 2) ps)" using n by simp
  also have "n * sum_list (map (\<lambda>p. (f p - c) ^ 2) ps) =
      n * sum_list (map (\<lambda>p. f p * f p) ps) - sum_list (map f ps) * sum_list (map f ps)"
    using n unfolding spread_sum by (simp add: n_def [symmetric] c_def field_simps power2_eq_square)
  finally show ?thesis by (simp add: n_def)
qed

text \<open>A line that leaves residuals orthogonal to the line's own terms is the best one.\<close>

lemma normal_equations_best:
  fixes f g :: "'a \<Rightarrow> real"
  assumes "sum_list (map (\<lambda>p. g p - (c + m * f p)) ps) = 0"
    and "sum_list (map (\<lambda>p. f p * (g p - (c + m * f p))) ps) = 0"
  shows "sum_list (map (\<lambda>p. (g p - (c + m * f p)) ^ 2) ps) \<le> sum_list (map (\<lambda>p. (g p - (a + b * f p)) ^ 2) ps)"
proof -
  have "sum_list (map (\<lambda>p. (g p - (a + b * f p)) ^ 2) ps) =
      sum_list (map (\<lambda>p. (g p - (c + m * f p)) ^ 2 + ((c - a) + (m - b) * f p) ^ 2 +
        (2 * (c - a) * (g p - (c + m * f p)) + 2 * (m - b) * (f p * (g p - (c + m * f p))))) ps)"
    by (rule arg_cong [where f = sum_list], rule map_cong) (auto simp: power2_eq_square algebra_simps)
  also have "\<dots> = sum_list (map (\<lambda>p. (g p - (c + m * f p)) ^ 2) ps) +
      sum_list (map (\<lambda>p. ((c - a) + (m - b) * f p) ^ 2) ps)"
    unfolding sum_list_addf sum_list_const_mult assms by simp
  finally have "sum_list (map (\<lambda>p. (g p - (a + b * f p)) ^ 2) ps) =
      sum_list (map (\<lambda>p. (g p - (c + m * f p)) ^ 2) ps) + sum_list (map (\<lambda>p. ((c - a) + (m - b) * f p) ^ 2) ps)" .
  moreover have "0 \<le> sum_list (map (\<lambda>p. ((c - a) + (m - b) * f p) ^ 2) ps)" by (rule sum_list_nonneg) auto
  ultimately show ?thesis by linarith
qed

lemma regression_best:
  assumes n: "0 < length ps" and d: "denom \<noteq> 0"
    and denom: "denom = real (length ps) * sum_list (map (\<lambda>p. elapsed first p * elapsed first p) ps) -
      sum_list (map (elapsed first) ps) * sum_list (map (elapsed first) ps)"
    and m: "m = (real (length ps) * sum_list (map (\<lambda>p. elapsed first p * snd p) ps) -
      sum_list (map (elapsed first) ps) * sum_list (map snd ps)) / denom"
  shows "\<exists>c. \<forall>a b. squared_error first ps c m \<le> squared_error first ps a b"
proof -
  let ?n = "real (length ps)" and ?x = "sum_list (map (elapsed first) ps)" and ?y = "sum_list (map snd ps)"
    and ?xy = "sum_list (map (\<lambda>p. elapsed first p * snd p) ps)"
    and ?xx = "sum_list (map (\<lambda>p. elapsed first p * elapsed first p) ps)"
  define c where "c = (?y - m * ?x) / ?n"
  have md: "m * (?n * ?xx - ?x * ?x) = ?n * ?xy - ?x * ?y" using m d by (simp add: denom)
  have "sum_list (map (\<lambda>p. snd p - (c + m * elapsed first p)) ps) = ?y - (?n * c + m * ?x)"
    by (induction ps) (simp_all add: algebra_simps)
  also have "\<dots> = 0" using n by (simp add: c_def)
  finally have one: "sum_list (map (\<lambda>p. snd p - (c + m * elapsed first p)) ps) = 0" .
  have "sum_list (map (\<lambda>p. elapsed first p * (snd p - (c + m * elapsed first p))) ps) = ?xy - (c * ?x + m * ?xx)"
    by (induction ps) (simp_all add: algebra_simps)
  also have "\<dots> = (?n * ?xy - ?x * ?y - m * (?n * ?xx - ?x * ?x)) / ?n"
    using n by (simp add: c_def field_simps)
  also have "\<dots> = 0" unfolding md by simp
  finally have two: "sum_list (map (\<lambda>p. elapsed first p * (snd p - (c + m * elapsed first p))) ps) = 0" .
  show ?thesis using normal_equations_best [OF one two] unfolding squared_error_def by blast
qed

fun forecast_rate :: "forecast_verdict \<Rightarrow> real option" where
  "forecast_rate (Filling r d) = Some r"
| "forecast_rate (Stable r) = Some r"
| "forecast_rate (ForecastUnknown why) = None"

lemma verdict_of_slope_rate [simp]: "forecast_rate (verdict_of_slope free r) = Some r"
  by (simp add: verdict_of_slope_def)

definition enough_history :: "(int \<times> real) list \<Rightarrow> bool" where
  "enough_history u \<longleftrightarrow> min_points \<le> length u \<and> min_span_ms \<le> fst (last u) - fst (hd u)"

lemma enough_history_nonempty:
  assumes "enough_history u"
  shows "u \<noteq> []"
proof
  assume "u = []"
  then show False using assms by (simp add: enough_history_def min_points_def)
qed

lemma enough_history_denominator:
  assumes "enough_history u"
  shows "0 < real (length u) * sum_list (map (\<lambda>p. elapsed (fst (hd u)) p * elapsed (fst (hd u)) p) u) -
    sum_list (map (elapsed (fst (hd u))) u) * sum_list (map (elapsed (fst (hd u))) u)"
proof (rule denominator_positive)
  have "u \<noteq> []" using enough_history_nonempty [OF assms] .
  then show "hd u \<in> set u" "last u \<in> set u" by simp_all
  show "elapsed (fst (hd u)) (hd u) \<noteq> elapsed (fst (hd u)) (last u)"
    using assms by (simp add: elapsed_def enough_history_def min_span_ms_def)
qed

definition fitted_rate :: "(int \<times> real) list \<Rightarrow> real" where
  "fitted_rate u =
     (let (sx, sy, sxy, sxx) = regression_sums (fst (hd u)) u; n = real (length u)
      in (n * sxy - sx * sy) / (n * sxx - sx * sx) * ms_per_day)"

lemma forecast_enough:
  "enough_history (usable_points points) \<Longrightarrow>
   forecast_disk_full points =
     verdict_of_slope (snd (last (usable_points points))) (fitted_rate (usable_points points))"
  using enough_history_denominator [of "usable_points points"]
  by (simp add: forecast_disk_full_def enough_history_def fitted_rate_def regression_sums_eq Let_def)

lemma forecast_not_enough:
  "\<not> enough_history (usable_points points) \<Longrightarrow> forecast_rate (forecast_disk_full points) = None"
  by (auto simp: forecast_disk_full_def enough_history_def Let_def not_le)

lemma ms_per_day_nonzero [simp]: "ms_per_day \<noteq> 0"
  by (simp add: ms_per_day_def)

lemma fitted_rate_best:
  assumes "enough_history u"
  shows "\<exists>c. \<forall>a b. squared_error (fst (hd u)) u c (fitted_rate u / ms_per_day) \<le> squared_error (fst (hd u)) u a b"
proof (rule regression_best)
  show "0 < length u" using enough_history_nonempty [OF assms] by simp
  show "real (length u) * sum_list (map (\<lambda>p. elapsed (fst (hd u)) p * elapsed (fst (hd u)) p) u) -
    sum_list (map (elapsed (fst (hd u))) u) * sum_list (map (elapsed (fst (hd u))) u) \<noteq> 0"
    using enough_history_denominator [OF assms] by simp
  show "fitted_rate u / ms_per_day = (real (length u) * sum_list (map (\<lambda>p. elapsed (fst (hd u)) p * snd p) u) -
      sum_list (map (elapsed (fst (hd u))) u) * sum_list (map snd u)) /
    (real (length u) * sum_list (map (\<lambda>p. elapsed (fst (hd u)) p * elapsed (fst (hd u)) p) u) -
    sum_list (map (elapsed (fst (hd u))) u) * sum_list (map (elapsed (fst (hd u))) u))"
    by (simp add: fitted_rate_def regression_sums_eq Let_def)
qed (rule refl)

section \<open>Doubles\<close>

lemma round_half_even_error: "\<bar>of_int (round_half_even x) - x\<bar> \<le> 1 / 2"
  unfolding round_half_even_def Let_def by (auto simp: abs_le_iff)

lemma double_error:
  assumes "1 \<le> x" "x < 2 ^ 53"
  shows "\<bar>double x - x\<bar> \<le> x / 2 ^ 53"
proof -
  define k e where "k = nat \<lfloor>x\<rfloor>" and "e = floorlog 2 k"
  have k: "0 < k" "real k \<le> x" "x < real k + 1" using assms(1) unfolding k_def by linarith+
  have fl: "2 ^ (e - 1) \<le> k" "k < 2 ^ e" using floorlog_bounds [of k 2] k(1) by (simp_all add: e_def)
  have "k < 2 ^ 53" using k(2) assms(2) by (metis (mono_tags) le_less_trans of_nat_less_numeral_power_cancel_iff)
  then have e: "e \<le> 53" by (simp add: e_def floorlog_le_iff)
  have e0: "e \<noteq> 0" using fl(2) k(1) by (cases e) auto
  have low: "2 ^ (e - 1) \<le> x"
    using fl(1) k(2) by (metis (mono_tags) numeral_power_le_of_nat_cancel_iff order_trans)
  have "double x = of_int (round_half_even (x * 2 ^ (53 - e))) / 2 ^ (53 - e)"
    using assms(1) by (simp add: double_def e_def k_def Let_def)
  then have "double x - x = (of_int (round_half_even (x * 2 ^ (53 - e))) - x * 2 ^ (53 - e)) / 2 ^ (53 - e)"
    by (simp add: diff_divide_distrib)
  then have "\<bar>double x - x\<bar> = \<bar>of_int (round_half_even (x * 2 ^ (53 - e))) - x * 2 ^ (53 - e)\<bar> / 2 ^ (53 - e)"
    by simp
  also have "\<dots> \<le> 1 / 2 / 2 ^ (53 - e)"
    by (rule divide_right_mono [OF round_half_even_error]) simp
  also have "\<dots> = 2 ^ (e - 1) / 2 ^ 53"
    using e e0 by (simp add: field_simps flip: power_add power_Suc)
  also have "\<dots> \<le> x / 2 ^ 53" using low by (simp add: divide_right_mono)
  finally show ?thesis .
qed

text \<open>The rounding never moves a bucket's start by as much as a thousandth.\<close>

lemma bucket_start_near:
  assumes k: "0 < k" "2 * k < n" and n: "n < 2 ^ 40" and b: "b \<le> k"
  shows "\<bar>double (real b * double (real n / real k)) - real b * real n / real k\<bar> \<le> 1 / 1000"
proof (cases "b = 0")
  case True
  then show ?thesis by (simp add: double_def)
next
  case False
  define q w where "q = real n / real k" and "w = double q"
  have q2: "2 < q" using k by (simp add: q_def pos_less_divide_eq)
  have qn: "q \<le> real n" using k by (simp add: q_def divide_le_eq)
  have n': "real n < 2 ^ 40" using n by (metis of_nat_less_numeral_power_cancel_iff)
  have e1: "\<bar>w - q\<bar> \<le> q / 2 ^ 53" unfolding w_def using double_error [of q] q2 qn n' by simp
  have b1: "1 \<le> real b" using False by simp
  have bq: "real b * q \<le> real n" using b k unfolding q_def by (simp add: field_simps)
  have "\<bar>real b * w - real b * q\<bar> = real b * \<bar>w - q\<bar>" by (simp add: abs_mult flip: right_diff_distrib)
  also have "\<dots> \<le> real b * (q / 2 ^ 53)" by (rule mult_left_mono [OF e1]) simp
  also have "\<dots> \<le> real n / 2 ^ 53" using bq by (simp add: divide_right_mono)
  also have "\<dots> \<le> 1 / 4000" using n' by simp
  finally have e2: "\<bar>real b * w - real b * q\<bar> \<le> 1 / 4000" .
  have bq1: "q \<le> real b * q" using b1 q2 mult_right_mono [of 1 "real b" q] by simp
  have "(2::real) ^ 41 = 2 * 2 ^ 40" by simp
  then have bw: "1 \<le> real b * w" "real b * w \<le> 2 ^ 41" using e2 q2 bq1 bq n' by linarith+
  have "\<bar>double (real b * w) - real b * w\<bar> \<le> real b * w / 2 ^ 53"
    using double_error [of "real b * w"] bw by simp
  also have "\<dots> \<le> 2 ^ 41 / 2 ^ 53" by (rule divide_right_mono [OF bw(2)]) simp
  also have "\<dots> \<le> 1 / 4000" by simp
  finally have "\<bar>double (real b * w) - real b * w\<bar> \<le> 1 / 4000" .
  then have "\<bar>double (real b * w) - real b * q\<bar> \<le> 1 / 1000" using e2 by linarith
  then show ?thesis by (simp add: q_def w_def)
qed

definition thinnable :: "nat \<Rightarrow> nat \<Rightarrow> bool" where
  "thinnable n k \<longleftrightarrow> 0 < k \<and> 2 * k < n \<and> n < 2 ^ 40"

definition starts :: "nat \<Rightarrow> nat \<Rightarrow> nat \<Rightarrow> nat" where
  "starts n k b = bucket_start (double (real n / real k)) b"

lemma starts_near:
  assumes "thinnable n k" "b \<le> k"
  shows "real (starts n k b) \<le> real b * real n / real k + 1 / 1000"
    and "real b * real n / real k - 1 / 1000 < real (starts n k b) + 1"
proof -
  have near: "\<bar>double (real b * double (real n / real k)) - real b * real n / real k\<bar> \<le> 1 / 1000"
    using bucket_start_near [of k n b] assms by (simp add: thinnable_def)
  have "0 \<le> real b * real n / real k" by simp
  then show "real (starts n k b) \<le> real b * real n / real k + 1 / 1000"
    using near unfolding starts_def bucket_start_def by linarith
  show "real b * real n / real k - 1 / 1000 < real (starts n k b) + 1"
    using near unfolding starts_def bucket_start_def by linarith
qed

lemma starts_step:
  assumes "thinnable n k" "b < k"
  shows "starts n k b < starts n k (Suc b)"
proof -
  have "real (Suc b) * real n / real k = real b * real n / real k + real n / real k"
    by (simp add: algebra_simps add_divide_distrib)
  moreover have "2 < real n / real k" using assms(1) by (simp add: thinnable_def pos_less_divide_eq)
  ultimately have "real (starts n k b) < real (starts n k (Suc b))"
    using starts_near(1) [of n k b] starts_near(2) [of n k "Suc b"] assms by linarith
  then show ?thesis by simp
qed

lemma starts_0 [simp]: "starts n k 0 = 0"
  by (simp add: starts_def bucket_start_def double_def)

lemma starts_last: "thinnable n k \<Longrightarrow> n \<le> Suc (starts n k k)"
  using starts_near(2) [of n k k] by (simp add: thinnable_def)

lemma starts_inside:
  assumes "thinnable n k" "b < k"
  shows "starts n k b < n"
proof -
  have "real b * real n \<le> (real k - 1) * real n" using assms(2) by (intro mult_right_mono) auto
  then have "real b * real n / real k \<le> real n - real n / real k"
    using assms by (simp add: thinnable_def field_simps)
  moreover have "2 < real n / real k" using assms(1) by (simp add: thinnable_def pos_less_divide_eq)
  ultimately show ?thesis using starts_near(1) [of n k b] assms by linarith
qed

lemma bucket_range_starts:
  assumes "thinnable n k" "b < k"
  shows "bucket_range n (double (real n / real k)) b = [starts n k b..<min n (starts n k (Suc b))]"
  using starts_step [OF assms] by (simp add: bucket_range_def starts_def Let_def max_absorb2)

section \<open>Extremes of a bucket\<close>

lemma lowest_in_least:
  "ks \<noteq> [] \<Longrightarrow> \<exists>i \<in> set ks. lowest_in points ks = Some i \<and> (\<forall>j \<in> set ks. tm_v (points ! i) \<le> tm_v (points ! j))"
proof (induction ks rule: rev_induct)
  case (snoc x ks)
  show ?case
  proof (cases "ks = []")
    case True
    then show ?thesis by (simp add: lowest_in_def)
  next
    case False
    then obtain i where "i \<in> set ks" "lowest_in points ks = Some i" "\<forall>j \<in> set ks. tm_v (points ! i) \<le> tm_v (points ! j)"
      using snoc.IH by blast
    then show ?thesis by (auto simp: lowest_in_def)
  qed
qed simp

lemma highest_in_greatest:
  "ks \<noteq> [] \<Longrightarrow> \<exists>i \<in> set ks. highest_in points ks = Some i \<and> (\<forall>j \<in> set ks. tm_v (points ! j) \<le> tm_v (points ! i))"
proof (induction ks rule: rev_induct)
  case (snoc x ks)
  show ?case
  proof (cases "ks = []")
    case True
    then show ?thesis by (simp add: highest_in_def)
  next
    case False
    then obtain i where "i \<in> set ks" "highest_in points ks = Some i" "\<forall>j \<in> set ks. tm_v (points ! j) \<le> tm_v (points ! i)"
      using snoc.IH by blast
    then show ?thesis by (auto simp: highest_in_def)
  qed
qed simp

text \<open>What a bucket leaves: its points at one or two of its indexes, the extremes among them.\<close>

lemma bucket_points_extremes:
  assumes "ks \<noteq> []"
  shows "set (bucket_points points ks) \<subseteq> (!) points ` set ks \<and> length (bucket_points points ks) \<le> 2 \<and>
    (\<forall>j \<in> set ks. (\<exists>p \<in> set (bucket_points points ks). tm_v p \<le> tm_v (points ! j)) \<and>
      (\<exists>p \<in> set (bucket_points points ks). tm_v (points ! j) \<le> tm_v p))"
proof -
  obtain i where i: "i \<in> set ks" "lowest_in points ks = Some i" "\<forall>j \<in> set ks. tm_v (points ! i) \<le> tm_v (points ! j)"
    using lowest_in_least [OF assms] by blast
  obtain h where h: "h \<in> set ks" "highest_in points ks = Some h" "\<forall>j \<in> set ks. tm_v (points ! j) \<le> tm_v (points ! h)"
    using highest_in_greatest [OF assms] by blast
  have "set (bucket_points points ks) = {points ! i, points ! h}" "length (bucket_points points ks) \<le> 2"
    using i(2) h(2) by (auto simp: bucket_points_def Let_def)
  then show ?thesis using i h by auto
qed

lemma starts_cover:
  "i < starts n k m \<Longrightarrow> \<exists>b < m. starts n k b \<le> i \<and> i < starts n k (Suc b)"
proof (induction m)
  case (Suc m)
  then show ?case by (cases "i < starts n k m") (auto intro: less_SucI)
qed simp

text \<open>A segment longer than its budget, as the buckets' ranges.\<close>

definition thinned_ranges :: "nat \<Rightarrow> nat \<Rightarrow> nat list list" where
  "thinned_ranges n k = map (\<lambda>b. [starts n k b..<min n (starts n k (Suc b))]) [0..<k]"

lemma downsample_buckets:
  assumes "max_points < length points" "4 \<le> max_points" "length points < 2 ^ 40"
  shows "thinnable (length points) (max_points div 2)"
    and "downsample_segment points max_points =
      concat (map (bucket_points points) (thinned_ranges (length points) (max_points div 2)))"
proof -
  let ?n = "length points" and ?k = "max_points div 2"
  show th: "thinnable ?n ?k" using assms by (auto simp: thinnable_def)
  have "map (\<lambda>b. bucket_points points (bucket_range ?n (double (real ?n / real ?k)) b)) [0..<?k] =
      map (bucket_points points) (thinned_ranges ?n ?k)"
    unfolding thinned_ranges_def map_map by (rule map_cong) (simp_all add: bucket_range_starts [OF th])
  then show "downsample_segment points max_points =
      concat (map (bucket_points points) (thinned_ranges ?n ?k))"
    using assms by (simp add: downsample_segment_def Let_def)
qed

lemma thinned_range:
  assumes "thinnable n k" "r \<in> set (thinned_ranges n k)"
  shows "r \<noteq> [] \<and> set r \<subseteq> {..<n}"
proof -
  obtain b where b: "b < k" "r = [starts n k b..<min n (starts n k (Suc b))]"
    using assms(2) by (auto simp: thinned_ranges_def)
  have "starts n k b < min n (starts n k (Suc b))"
    using starts_inside [OF assms(1) b(1)] starts_step [OF assms(1) b(1)] by simp
  then show ?thesis unfolding b(2) by (simp add: subset_iff not_le)
qed

lemma thinned_covered:
  assumes "thinnable n k" "Suc i < n"
  shows "\<exists>r \<in> set (thinned_ranges n k). i \<in> set r"
proof -
  have "i < starts n k k" using starts_last [OF assms(1)] assms(2) by simp
  then obtain b where "b < k" "starts n k b \<le> i" "i < starts n k (Suc b)" using starts_cover by blast
  then show ?thesis using assms(2) by (auto simp: thinned_ranges_def intro!: bexI [of _ b])
qed

lemma length_concat_at_most:
  "(\<forall>x \<in> set xs. length (f x) \<le> c) \<Longrightarrow> length (concat (map f xs)) \<le> c * length xs"
  by (induction xs) auto

section \<open>Properties\<close>

text \<open>A host chart draws a line exactly where the host was read: for each figure the segments are the
  maximal runs of consecutive samples that carry a reading, broken where a sample has none and
  where the gap since the sample before exceeds two and a half times the median spacing.\<close>

theorem segments_are_unbroken_runs:
  "\<exists>rs. split_segments samples pick = map (run_at (map (reading pick) samples)) rs \<and>
     maximal_runs (outage (gap_threshold samples)) (map (reading pick) samples) rs"
proof -
  have "split_segments samples pick = split_runs (outage (gap_threshold samples)) (map (reading pick) samples)"
    by (simp add: split_segments_def split_runs_def fold_map comp_def)
  then show ?thesis using split_runs_maximal by metis
qed

text \<open>C37: Thinning a segment for drawing invents nothing and hides no spike but possibly the last point:
  the result fits the budget, all its points are readings of the segment, and for every reading
  but the last it has a point at least as low and one at least as high.\<close>

theorem thinning_keeps_extremes:
  assumes "max_points < length points" "4 \<le> max_points" "length points < 2 ^ 40"
  shows "length (downsample_segment points max_points) \<le> max_points \<and>
    set (downsample_segment points max_points) \<subseteq> set points \<and>
    list_all (\<lambda>i. list_ex (\<lambda>p. tm_v p \<le> tm_v (points ! i)) (downsample_segment points max_points) \<and>
        list_ex (\<lambda>p. tm_v (points ! i) \<le> tm_v p) (downsample_segment points max_points))
      [0..<length points - 1]"
proof (intro conjI)
  let ?n = "length points" and ?k = "max_points div 2"
  note th = downsample_buckets [OF assms]
  note ex = bucket_points_extremes [of _ points]
  have inner: "r \<noteq> []" "set r \<subseteq> {..<?n}" if "r \<in> set (thinned_ranges ?n ?k)" for r
    using thinned_range [OF th(1) that] by auto
  have "length (downsample_segment points max_points) \<le> 2 * length (thinned_ranges ?n ?k)"
    unfolding th(2) by (rule length_concat_at_most) (use ex inner(1) in blast)
  then show "length (downsample_segment points max_points) \<le> max_points" by (simp add: thinned_ranges_def)
  show "set (downsample_segment points max_points) \<subseteq> set points"
  proof
    fix p assume "p \<in> set (downsample_segment points max_points)"
    then obtain r where r: "r \<in> set (thinned_ranges ?n ?k)" "p \<in> set (bucket_points points r)" by (auto simp: th(2))
    then have "p \<in> (!) points ` set r" using ex [OF inner(1) [OF r(1)]] by blast
    then show "p \<in> set points" using inner(2) [OF r(1)] by auto
  qed
  have "(\<exists>p \<in> set (downsample_segment points max_points). tm_v p \<le> tm_v (points ! i)) \<and>
      (\<exists>p \<in> set (downsample_segment points max_points). tm_v (points ! i) \<le> tm_v p)" if i: "Suc i < ?n" for i
  proof -
    obtain r where r: "r \<in> set (thinned_ranges ?n ?k)" "i \<in> set r" using thinned_covered [OF th(1) i] by blast
    have "set (bucket_points points r) \<subseteq> set (downsample_segment points max_points)"
      using r(1) by (auto simp: th(2))
    moreover have "(\<exists>p \<in> set (bucket_points points r). tm_v p \<le> tm_v (points ! i)) \<and>
        (\<exists>p \<in> set (bucket_points points r). tm_v (points ! i) \<le> tm_v p)"
      using ex [OF inner(1) [OF r(1)]] r(2) by blast
    ultimately show ?thesis by blast
  qed
  then show "list_all (\<lambda>i. list_ex (\<lambda>p. tm_v p \<le> tm_v (points ! i)) (downsample_segment points max_points) \<and>
        list_ex (\<lambda>p. tm_v (points ! i) \<le> tm_v p) (downsample_segment points max_points)) [0..<?n - 1]"
    by (simp add: list_all_iff list_ex_iff)
qed

lemma starts_mono:
  assumes "thinnable n k" "m \<le> k" "b \<le> m"
  shows "starts n k b \<le> starts n k m"
  using assms(2,3)
proof (induction m)
  case (Suc m)
  then show ?case using starts_step [OF assms(1), of m] by (cases "b = Suc m") (auto intro: order_trans)
qed simp

lemma round_half_even_unique:
  assumes "of_int m - 1 / 2 < x" "x < of_int m + 1 / 2"
  shows "round_half_even x = m"
proof (cases "of_int m \<le> x")
  case True
  then have "\<lfloor>x\<rfloor> = m" using assms(2) by (intro floor_unique) simp_all
  then show ?thesis using assms True by (simp add: round_half_even_def Let_def)
next
  case False
  then have "\<lfloor>x\<rfloor> = m - 1" using assms(1) by (intro floor_unique) simp_all
  then show ?thesis using assms False by (simp add: round_half_even_def Let_def)
qed

lemma double_eq:
  assumes "1 \<le> x" "\<lfloor>x\<rfloor> = int k" "floorlog 2 k = e"
    and "of_int m - 1 / 2 < x * 2 ^ (53 - e)" "x * 2 ^ (53 - e) < of_int m + 1 / 2"
  shows "double x = of_int m / 2 ^ (53 - e)"
  using assms round_half_even_unique [OF assms(4,5)] by (simp add: double_def Let_def)

lemma start_of_last_bucket: "starts 701 350 350 = 700"
proof -
  have "double (701 / 350) = of_int 4510033341123882 / 2 ^ (53 - 2)"
  proof (rule double_eq)
    show "\<lfloor>(701::real) / 350\<rfloor> = int 2" by (rule floor_unique) simp_all
    show "floorlog 2 2 = 2" by (simp add: compute_floorlog)
  qed simp_all
  then have w: "double (701 / 350) = 4510033341123882 / 2 ^ 51" by simp
  have "double (350 * (4510033341123882 / 2 ^ 51)) = of_int 6166061208567807 / 2 ^ (53 - 10)"
  proof (rule double_eq)
    show "\<lfloor>(350::real) * (4510033341123882 / 2 ^ 51)\<rfloor> = int 700" by (rule floor_unique) simp_all
    show "floorlog 2 700 = 10" by (simp add: compute_floorlog)
  qed simp_all
  then have v: "double (350 * (4510033341123882 / 2 ^ 51)) = 6166061208567807 / 2 ^ 43" by simp
  have whole: "\<lfloor>(6166061208567807::real) / 2 ^ 43\<rfloor> = 700" by (rule floor_unique) simp_all
  have "starts 701 350 350 = nat \<lfloor>double (350 * double (701 / 350))\<rfloor>"
    by (simp add: starts_def bucket_start_def)
  also have "\<dots> = nat 700" by (simp only: w v whole)
  finally show ?thesis by simp
qed

text \<open>The newest reading can go missing from a chart: with the chart's budget of 700 points a segment of
  701 readings is drawn without its last one, whatever it read, because in double arithmetic the
  last of the 350 buckets ends at index 700.\<close>

theorem thinning_drops_the_newest:
  assumes "length points = 701" "last points \<notin> set (butlast points)"
  shows "last points \<notin> set (downsample_segment points 700)"
proof
  assume drawn: "last points \<in> set (downsample_segment points 700)"
  have budget: "(700::nat) < length points" "(4::nat) \<le> 700" "length points < 2 ^ 40" using assms(1) by simp_all
  have th: "thinnable 701 350" by (simp add: thinnable_def)
  obtain r where r: "r \<in> set (thinned_ranges 701 350)" "last points \<in> set (bucket_points points r)"
    using drawn downsample_buckets(2) [OF budget] assms(1) by auto
  then obtain b where b: "b < 350" "r = [starts 701 350 b..<min 701 (starts 701 350 (Suc b))]"
    by (auto simp: thinned_ranges_def)
  have "r \<noteq> []" using thinned_range [OF th r(1)] by simp
  then obtain i where i: "i \<in> set r" "last points = points ! i"
    using bucket_points_extremes [of r points] r(2) by blast
  have "starts 701 350 (Suc b) \<le> 700" using starts_mono [OF th, of 350 "Suc b"] b(1) start_of_last_bucket by simp
  then have "i < 700" using i(1) b(2) by simp
  then have "last points \<in> set (butlast points)"
    using i(2) assms(1) by (metis diff_Suc_1 eval_nat_numeral(3) length_butlast nth_butlast nth_mem numeral_eq_Suc)
  then show False using assms(2) by contradiction
qed

definition flat_then_spike :: "telemetry_point list" where
  "flat_then_spike = map (\<lambda>i. \<lparr> tm_t = Some (60000 * int i), tm_v = 1 \<rparr>) [0..<700] @ [\<lparr> tm_t = Some 42000000, tm_v = 0 \<rparr>]"

lemma flat_then_spike_shape:
  "length flat_then_spike = 701" "last flat_then_spike \<notin> set (butlast flat_then_spike)"
  by (auto simp: flat_then_spike_def)

theorem thinning_drops_the_newest_witness:
  "last flat_then_spike \<notin> set (downsample_segment flat_then_spike 700)"
  by (rule thinning_drops_the_newest [OF flat_then_spike_shape])

theorem thinning_keeps_extremes_witness:
  "length (downsample_segment flat_then_spike 700) \<le> 700"
  using thinning_keeps_extremes [of 700 flat_then_spike] flat_then_spike_shape(1) by simp

text \<open>The chart's hover readout names the sample whose instant is nearest to the pointer, not a
  neighbour: on samples in time order no sample is closer than the one it picks.\<close>

theorem hover_reads_nearest_sample:
  assumes ts: "map sample_ms samples = map Some ms" and s: "sorted ms" and i: "nearest_sample_index samples t = Some i"
  shows "i < length samples \<and> list_all (\<lambda>m. \<bar>of_int (ms ! i) - t\<bar> \<le> \<bar>of_int m - t\<bar>) ms"
proof -
  define low where "low = (\<lambda>mid. at_or_before (samples ! mid) t)"
  obtain lo hi where b: "bisect low 0 (length samples - 1) = (lo, hi)" by fastforce
  have ne: "samples \<noteq> []" using i by (auto simp: nearest_sample_index_def)
  have len: "length ms = length samples" using ts by (metis length_map)
  have at: "sample_ms (samples ! k) = Some (ms ! k)" if "k < length samples" for k
    using ts that len by (metis nth_map)
  have c: "lo \<le> hi" "hi \<le> length samples - 1" "hi \<le> Suc lo" "lo = 0 \<or> low lo" "hi = length samples - 1 \<or> \<not> low hi"
    using bisect_correct [OF le0 b] by simp_all
  have "0 < length samples" using ne by simp
  then have l: "lo < length samples" "hi < length samples" using c(1,2) by linarith+
  have low: "low k \<longleftrightarrow> of_int (ms ! k) \<le> t" if "k < length samples" for k
    using at [OF that] by (simp add: low_def at_or_before_def)
  have pick: "i = (if \<bar>of_int (ms ! lo) - t\<bar> \<le> \<bar>of_int (ms ! hi) - t\<bar> then lo else hi)"
    using i ne b at [OF l(1)] at [OF l(2)]
    by (simp add: nearest_sample_index_def low_def [symmetric] no_farther_def)
  have mono: "j \<le> k \<Longrightarrow> k < length samples \<Longrightarrow> (of_int (ms ! j) :: real) \<le> of_int (ms ! k)" for j k
    using sorted_nth_mono [OF s] len by simp
  have near: "\<bar>of_int (ms ! i) - t\<bar> \<le> \<bar>of_int (ms ! k) - t\<bar>" if k: "k < length samples" for k
  proof (cases "k \<le> lo")
    case True
    then have "k = lo \<or> low lo" using c(4) by auto
    then have "\<bar>of_int (ms ! lo) - t\<bar> \<le> \<bar>of_int (ms ! k) - t\<bar>"
      using mono [OF True l(1)] low [OF l(1)] by auto
    then show ?thesis using pick by (auto split: if_splits)
  next
    case False
    then have hk: "hi \<le> k" using c(3) by simp
    then have "k = hi \<or> \<not> low hi" using c(5) k by auto
    then have "\<bar>of_int (ms ! hi) - t\<bar> \<le> \<bar>of_int (ms ! k) - t\<bar>"
      using mono [OF hk k] low [OF l(2)] by auto
    then show ?thesis using pick by (auto split: if_splits)
  qed
  have "i < length samples" using pick l by (simp split: if_splits)
  then show ?thesis using near len by (auto simp: list_all_iff in_set_conv_nth)
qed

definition stamped :: "string \<Rightarrow> real \<Rightarrow> telemetry_sample" where
  "stamped ts free = \<lparr> tl_ts = ts, tl_cpu_temp_c = None, tl_load1 = None, tl_mem_available_kb = None,
     tl_disk_free_bytes = Some free, tl_uptime_s = None \<rparr>"

theorem hover_reads_nearest_sample_witness:
  "nearest_sample_index [stamped ''1970-01-01T00:00:10Z'' 0, stamped ''1970-01-01T00:02:00Z'' 0] 100000 = Some 1 \<and>
   list_all (\<lambda>m. \<bar>of_int ([10000, 120000] ! 1) - (100000::real)\<bar> \<le> \<bar>of_int m - 100000\<bar>) [10000, 120000]"
proof -
  let ?s = "[stamped ''1970-01-01T00:00:10Z'' 0, stamped ''1970-01-01T00:02:00Z'' 0]"
  have "date_parse ''1970-01-01T00:00:10Z'' = Some 10000" "date_parse ''1970-01-01T00:02:00Z'' = Some 120000"
    by code_simp+
  then have ts: "map sample_ms ?s = map Some [10000, 120000]" by (simp add: sample_ms_def stamped_def)
  then have "sample_ms (?s ! 0) = Some 10000" "sample_ms (?s ! 1) = Some 120000" by simp_all
  then have "nearest_sample_index ?s 100000 = Some 1"
    by (simp add: nearest_sample_index_def bisect.simps no_farther_def)
  then show ?thesis using hover_reads_nearest_sample [OF ts, of 100000 1] by simp
qed

text \<open>C36: The Storage panel only names a date when the history supports one: "full in d days" is said
  only from at least eight readings over at least an hour, the rate is the slope of the least
  squares line through all of them, at least a thousandth of the free space a day and downwards,
  and at that rate the space free now lasts exactly d days (none, when none is left).\<close>

theorem forecast_is_the_fitted_line:
  assumes "forecast_disk_full points = Filling r d" and u: "u = usable_points points"
  shows "enough_history u \<and>
    (\<exists>c. \<forall>a b. squared_error (fst (hd u)) u c (r / ms_per_day) \<le> squared_error (fst (hd u)) u a b) \<and>
    (if 0 < snd (last u) then r \<le> - snd (last u) * noise_floor_fraction \<and> snd (last u) + r * d = 0 else d = 0)"
proof -
  have enough: "enough_history u"
    using assms forecast_not_enough [of points] by (cases "enough_history u") simp_all
  have v: "verdict_of_slope (snd (last u)) (fitted_rate u) = Filling r d"
    using forecast_enough [of points] assms enough by simp
  have r: "r = fitted_rate u" using v by (auto simp: verdict_of_slope_def split: if_splits)
  have "if 0 < snd (last u) then r \<le> - snd (last u) * noise_floor_fraction \<and> snd (last u) + r * d = 0 else d = 0"
    using v by (auto simp: verdict_of_slope_def not_less split: if_splits)
  then show ?thesis using enough fitted_rate_best [OF enough] r by simp
qed

definition draining :: "free_space_point list" where
  "draining = map (\<lambda>i. \<lparr> fs_ts = Some (600000 * i), fs_free = Some (of_int (8 - i)) \<rparr>) [0, 1, 2, 3, 4, 5, 6, 7]"

lemma draining_forecast: "forecast_disk_full draining = Filling (- 144) (1 / 144)"
proof -
  have "usable_points draining = map (\<lambda>i. (600000 * i, of_int (8 - i))) [0, 1, 2, 3, 4, 5, 6, 7]"
    by (simp add: usable_points_def draining_def List.map_filter_simps)
  then show ?thesis
    by (simp add: forecast_disk_full_def regression_sums_def verdict_of_slope_def min_points_def min_span_ms_def
        noise_floor_fraction_def ms_per_day_def Let_def)
qed

theorem forecast_is_the_fitted_line_witness:
  "forecast_disk_full draining = Filling (- 144) (1 / 144) \<and> enough_history (usable_points draining)"
  using forecast_is_the_fitted_line [OF draining_forecast refl] draining_forecast by simp

text \<open>Whether the panel forecasts at all depends on the history alone: there is a verdict with a rate if
  and only if eight readings or more span an hour or more, so the branch for a vanishing
  denominator is never taken.\<close>

theorem forecast_needs_only_history:
  "forecast_rate (forecast_disk_full points) \<noteq> None \<longleftrightarrow> enough_history (usable_points points)"
  using forecast_enough [of points] forecast_not_enough [of points]
  by (cases "enough_history (usable_points points)") simp_all

end
