(* ===== verification/SensorDetail.thy ===== *)
theory SensorDetail
  imports ApiTypes JsNumber
begin

text \<open>
  A sensor's free-form \<open>detail\<close>, as the health card shows it: the summary tiles
  (\<open>features/health/sensor-summary.ts\<close>), the per-channel rankings (\<open>sensor-breakdowns.ts\<close>), the
  grouped counters (\<open>sensor-detail-groups.ts\<close>), the text of one value (\<open>detail-format.ts\<close>), and the card
  that composes them (\<open>components.tsx\<close>).

  A JSON object is the list of its entries in the order \<open>Object.entries\<close> gives, each key once.
  Parameters: \<open>lc\<close> for \<open>localeCompare\<close>, \<open>grouped\<close> for \<open>toLocaleString\<close>, \<open>num\<close> for the text of a number.
\<close>

section \<open>The summary tiles\<close>

datatype stat_tone = ToneDefault | ToneOk | ToneWarn | ToneDown | ToneMuted

datatype detail_kind = KindSeconds | KindMillis | KindFraction | KindProse | KindRaw | KindCount

record summary_metric =
  sm_id :: string
  sm_label :: string
  sm_kind :: detail_kind
  sm_value :: real
  sm_hint :: "string option"
  sm_tone :: "stat_tone option"

record sensor_summary =
  ss_metrics :: "summary_metric list"
  ss_consumed :: "string list"

type_synonym detail = "(string \<times> json) list"

text \<open>The counter at the first key that has one, and the keys consumed with it.\<close>

definition numeric_field :: "detail \<Rightarrow> string \<Rightarrow> real option" where
  "numeric_field detail key = (case map_of detail key of Some (JNum v) \<Rightarrow> Some v | _ \<Rightarrow> None)"

fun read_counter :: "detail \<Rightarrow> string list \<Rightarrow> string list \<Rightarrow> real option \<times> string list" where
  "read_counter detail [] consumed = (None, consumed)"
| "read_counter detail (key # keys) consumed =
     (case numeric_field detail key of
        Some v \<Rightarrow> (Some v, set_add key consumed)
      | None \<Rightarrow> read_counter detail keys consumed)"

definition listening_floor :: real where "listening_floor = 3 / 4"

definition heartbeat_metric :: "sensor_health \<Rightarrow> summary_metric" where
  "heartbeat_metric sensor =
     \<lparr> sm_id = ''heartbeat'', sm_label = ''Last heartbeat'', sm_kind = KindSeconds,
       sm_value = sh_seconds_since_heartbeat sensor, sm_hint = None,
       sm_tone = Some (if sh_healthy sensor then ToneDefault else ToneDown) \<rparr>"

definition tile ::
  "string \<Rightarrow> string \<Rightarrow> detail_kind \<Rightarrow> real option \<Rightarrow> (real \<Rightarrow> string option) \<Rightarrow> (real \<Rightarrow> stat_tone option) \<Rightarrow>
   summary_metric list" where
  "tile i label kind value hint tone =
     (case value of None \<Rightarrow> []
      | Some v \<Rightarrow> [\<lparr> sm_id = i, sm_label = label, sm_kind = kind, sm_value = v, sm_hint = hint v, sm_tone = tone v \<rparr>])"

definition wifi_metrics ::
  "(real \<Rightarrow> string) \<Rightarrow> sensor_health \<Rightarrow> detail \<Rightarrow> string list \<Rightarrow> summary_metric list \<times> string list" where
  "wifi_metrics grouped sensor detail c0 =
     (let (heard, c1) = read_counter detail [''beacons'', ''frames''] c0;
          (detections, c2) = read_counter detail [''detections''] c1;
          recent = map_option of_int (sh_detections_5m sensor);
          (listening, c3) = read_counter detail [''listening_fraction''] c2;
          (lost, c4) = read_counter detail [''hop_overhead_ms''] c3
      in (tile ''heard'' ''Heard'' KindCount heard
            (\<lambda>v. Some (if numeric_field detail ''beacons'' \<noteq> None then ''beacons'' else ''frames'')) (\<lambda>v. None) @
          tile ''detections'' ''Drone detections'' KindCount detections (\<lambda>v. Some ''since this sensor started'')
            (\<lambda>v. Some (if 0 < v then ToneOk else ToneDefault)) @
          tile ''detections-5m'' ''Last 5 minutes'' KindCount recent
            (\<lambda>v. if v = 0 \<and> sh_healthy sensor then Some ''quiet, not deaf'' else None)
            (\<lambda>v. Some (if v = 0 then ToneMuted else ToneDefault)) @
          tile ''listening'' ''Listening share'' KindFraction listening (\<lambda>v. Some ''of the time, not retuning'')
            (\<lambda>v. Some (if v < listening_floor then ToneWarn else ToneDefault)) @
          tile ''hop-overhead'' ''Lost to hopping'' KindMillis lost
            (\<lambda>v. map_option (\<lambda>h. grouped h @ '' hops'') (numeric_field detail ''hops'')) (\<lambda>v. None) @
          [heartbeat_metric sensor], c4))"

definition sdr_metrics ::
  "sensor_health \<Rightarrow> detail \<Rightarrow> string list \<Rightarrow> summary_metric list \<times> string list" where
  "sdr_metrics sensor detail c0 =
     (let (messages, c1) = read_counter detail [''messages_read'', ''frames''] c0;
          (parsed, c2) = read_counter detail [''parsed''] c1;
          (icaos, c3) = read_counter detail [''icaos''] c2;
          (errors, c4) = read_counter detail [''parse_errors''] c3;
          (uptime, c5) = read_counter detail [''uptime_s''] c4
      in (tile ''read'' ''Messages read'' KindCount messages (\<lambda>v. None) (\<lambda>v. None) @
          tile ''parsed'' ''Parsed'' KindCount parsed
            (\<lambda>v. case messages of None \<Rightarrow> None
                | Some m \<Rightarrow> if 0 < m then Some (to_fixed 0 (v / m * 100) @ ''% of what it read'') else None)
            (\<lambda>v. None) @
          tile ''icaos'' ''Aircraft heard'' KindCount icaos (\<lambda>v. Some ''manned traffic, context only'') (\<lambda>v. None) @
          tile ''parse-errors'' ''Parse errors'' KindCount errors (\<lambda>v. None)
            (\<lambda>v. Some (if 0 < v then ToneWarn else ToneDefault)) @
          tile ''uptime'' ''Sensor uptime'' KindSeconds uptime (\<lambda>v. None) (\<lambda>v. None) @
          [heartbeat_metric sensor], c5))"

text \<open>A kind of sensor this build has never heard of: \<^const>\<open>Ble\<close> and \<^const>\<open>Net\<close>.\<close>

definition other_metrics ::
  "sensor_health \<Rightarrow> detail \<Rightarrow> string list \<Rightarrow> summary_metric list \<times> string list" where
  "other_metrics sensor detail c0 =
     (let (detections, c1) = read_counter detail [''detections''] c0;
          (uptime, c2) = read_counter detail [''uptime_s''] c1
      in (tile ''detections'' ''Detections'' KindCount detections (\<lambda>v. None)
            (\<lambda>v. Some (if 0 < v then ToneOk else ToneDefault)) @
          tile ''uptime'' ''Sensor uptime'' KindSeconds uptime (\<lambda>v. None) (\<lambda>v. None) @
          [heartbeat_metric sensor], c2))"

definition summarise_sensor :: "(real \<Rightarrow> string) \<Rightarrow> sensor_health \<Rightarrow> sensor_summary" where
  "summarise_sensor grouped sensor =
     (let detail = nullish (sh_detail sensor) [];
          (metrics, consumed) =
            (case sh_sensor_kind sensor of
               Wifi \<Rightarrow> wifi_metrics grouped sensor detail []
             | Sdr \<Rightarrow> sdr_metrics sensor detail []
             | _ \<Rightarrow> other_metrics sensor detail [])
      in \<lparr> ss_metrics = metrics, ss_consumed = consumed \<rparr>)"

section \<open>The rankings\<close>

text \<open>An entry carries the length of its bar but not the CSS class that colours it.\<close>

record breakdown_entry =
  be_id :: string
  be_label :: string
  be_value :: string
  be_fraction :: real

record breakdown =
  bd_key :: string
  bd_title :: string
  bd_description :: string
  bd_entries :: "breakdown_entry list"

definition breakdown_keys :: "string list" where
  "breakdown_keys = [''dwell_share'', ''beacons_per_channel'', ''drone_hits_per_channel'']"

definition breakdown_title :: "string \<Rightarrow> string" where
  "breakdown_title key =
     (if key = ''dwell_share'' then ''Dwell share by channel''
      else if key = ''beacons_per_channel'' then ''Beacons by channel'' else ''Drone hits by channel'')"

definition breakdown_description :: "string \<Rightarrow> string" where
  "breakdown_description key =
     (if key = ''dwell_share'' then ''Where the receiver spent its listening time.''
      else if key = ''beacons_per_channel'' then ''Ambient Wi-Fi. Mostly other people, and not a detection.''
      else ''Where the detections actually were.'')"

definition breakdown_share :: "string \<Rightarrow> bool" where
  "breakdown_share key \<longleftrightarrow> key = ''dwell_share''"

definition by_channel :: "(string \<Rightarrow> string \<Rightarrow> int) \<Rightarrow> string \<Rightarrow> string \<Rightarrow> real" where
  "by_channel lc a b =
     (case (js_number a, js_number b) of
        (Some x, Some y) \<Rightarrow> x - y
      | _ \<Rightarrow> of_int (lc a b))"

definition numeric_entries :: "json \<Rightarrow> (string \<times> real) list" where
  "numeric_entries value =
     (case value of
        JObj fs \<Rightarrow> List.map_filter (\<lambda>(k, v). case v of JNum x \<Rightarrow> Some (k, x) | _ \<Rightarrow> None) fs
      | _ \<Rightarrow> [])"

definition entries_of ::
  "(string \<Rightarrow> string \<Rightarrow> int) \<Rightarrow> (real \<Rightarrow> string) \<Rightarrow> string \<Rightarrow> json \<Rightarrow> breakdown_entry list" where
  "entries_of lc grouped key value =
     map (\<lambda>(channel, n).
         \<lparr> be_id = channel, be_label = ''ch '' @ channel,
           be_value = (if breakdown_share key then to_fixed 1 (n * 100) @ ''%'' else grouped n),
           be_fraction = max 0 n \<rparr>)
       (js_sort (\<lambda>a b. by_channel lc (fst a) (fst b)) (numeric_entries value))"

definition sensor_breakdowns ::
  "(string \<Rightarrow> string \<Rightarrow> int) \<Rightarrow> (real \<Rightarrow> string) \<Rightarrow> detail \<Rightarrow> breakdown list" where
  "sensor_breakdowns lc grouped detail =
     List.map_filter
       (\<lambda>key. case map_of detail key of None \<Rightarrow> None
          | Some value \<Rightarrow>
              let entries = entries_of lc grouped key value
              in if entries = [] then None
                 else Some \<lparr> bd_key = key, bd_title = breakdown_title key,
                             bd_description = breakdown_description key, bd_entries = entries \<rparr>)
       breakdown_keys"

section \<open>The counters, grouped\<close>

datatype detail_section = RadioSection | TrafficSection | ErrorsSection | SurveySection | OtherSection

record detail_row =
  dr_key :: string
  dr_label :: string
  dr_value :: json
  dr_kind :: detail_kind

definition known_details :: "(string \<times> string \<times> detail_section \<times> detail_kind) list" where
  "known_details =
     [(''iface'', ''Interface'', RadioSection, KindRaw),
      (''channel'', ''Current channel'', RadioSection, KindRaw),
      (''connected'', ''Feed connected'', RadioSection, KindRaw),
      (''source'', ''Feed source'', RadioSection, KindRaw),
      (''subscribers'', ''Feed subscribers'', RadioSection, KindRaw),
      (''reconnects'', ''Reconnects'', RadioSection, KindRaw),
      (''uptime_s'', ''Sensor uptime'', RadioSection, KindSeconds),
      (''plan'', ''Channel plan'', RadioSection, KindRaw),
      (''plan_fallback'', ''Widened to full plan'', RadioSection, KindRaw),
      (''companion_iface'', ''Companion receiver'', RadioSection, KindRaw),
      (''companion_present'', ''Companion present'', RadioSection, KindRaw),
      (''plan_widened_for_peer'', ''Widened while peer busy'', RadioSection, KindRaw),
      (''plan_swaps'', ''Plan swaps'', RadioSection, KindRaw),
      (''peers_active'', ''Peer receiver busy'', RadioSection, KindRaw),
      (''peer_tracks_seen'', ''Peer tracks seen'', RadioSection, KindRaw),
      (''seconds_since_message'', ''Since last message'', RadioSection, KindSeconds),
      (''frames'', ''Frames heard'', TrafficSection, KindRaw),
      (''beacons'', ''Beacons heard'', TrafficSection, KindRaw),
      (''beacons_per_channel'', ''Beacons by channel'', TrafficSection, KindRaw),
      (''messages_read'', ''Messages read'', TrafficSection, KindRaw),
      (''parsed'', ''Messages parsed'', TrafficSection, KindRaw),
      (''icaos'', ''Aircraft heard'', TrafficSection, KindRaw),
      (''detections'', ''Drone detections'', TrafficSection, KindRaw),
      (''drone_hits_per_channel'', ''Drone hits by channel'', TrafficSection, KindRaw),
      (''class_a'', ''Class A (Remote ID)'', TrafficSection, KindRaw),
      (''class_b'', ''Class B (DJI DroneID)'', TrafficSection, KindRaw),
      (''class_c'', ''Class C (fingerprint)'', TrafficSection, KindRaw),
      (''hops'', ''Channel hops'', TrafficSection, KindRaw),
      (''scan_dwells'', ''Scan dwells'', TrafficSection, KindRaw),
      (''dwell_share'', ''Dwell share by channel'', TrafficSection, KindRaw),
      (''listening_fraction'', ''Time spent listening'', TrafficSection, KindFraction),
      (''hop_overhead_ms'', ''Time lost to hopping'', TrafficSection, KindMillis),
      (''hop_latency_ms'', ''Cost per hop'', TrafficSection, KindMillis),
      (''hop_latency_measured'', ''Hop cost measured'', TrafficSection, KindRaw),
      (''escalations'', ''Escalations'', TrafficSection, KindRaw),
      (''currently_escalated'', ''Escalated right now'', TrafficSection, KindRaw),
      (''channel_errors'', ''Channel errors'', ErrorsSection, KindRaw),
      (''parse_errors'', ''Parse errors'', ErrorsSection, KindRaw),
      (''read_errors'', ''Read errors'', ErrorsSection, KindRaw),
      (''unparsed'', ''Unparsed messages'', ErrorsSection, KindRaw),
      (''survey_available'', ''Survey available'', SurveySection, KindRaw),
      (''survey_seen'', ''Survey entries'', SurveySection, KindRaw),
      (''survey_reason'', ''Survey note'', SurveySection, KindProse)]"

definition known_order :: "string list" where
  "known_order = map fst known_details"

definition section_order :: "detail_section list" where
  "section_order = [RadioSection, TrafficSection, ErrorsSection, SurveySection, OtherSection]"

definition section_of :: "string \<Rightarrow> detail_section" where
  "section_of key = (case map_of known_details key of None \<Rightarrow> OtherSection | Some (l, s, k) \<Rightarrow> s)"

definition detail_row_of :: "string \<times> json \<Rightarrow> detail_row" where
  "detail_row_of e =
     \<lparr> dr_key = fst e,
       dr_label = (case map_of known_details (fst e) of
           None \<Rightarrow> map (\<lambda>c. if c = CHR ''_'' then CHR '' '' else c) (fst e) | Some (l, s, k) \<Rightarrow> l),
       dr_value = snd e,
       dr_kind = (case map_of known_details (fst e) of None \<Rightarrow> KindRaw | Some (l, s, k) \<Rightarrow> k) \<rparr>"

text \<open>One turn of the loop over the entries.\<close>

definition add_row ::
  "string list \<Rightarrow> string \<times> json \<Rightarrow> (detail_section \<times> detail_row list) list \<Rightarrow> (detail_section \<times> detail_row list) list" where
  "add_row omit e by_section =
     (if fst e \<in> set omit then by_section
      else
        let s = section_of (fst e)
        in AList.update s (nullish (map_of by_section s) [] @ [detail_row_of e]) by_section)"

definition row_cmp :: "(string \<Rightarrow> string \<Rightarrow> int) \<Rightarrow> detail_row \<Rightarrow> detail_row \<Rightarrow> int" where
  "row_cmp lc a b =
     (case (find_index (\<lambda>k. k = dr_key a) known_order, find_index (\<lambda>k. k = dr_key b) known_order) of
        (None, None) \<Rightarrow> lc (dr_key a) (dr_key b)
      | (None, Some j) \<Rightarrow> 1
      | (Some i, None) \<Rightarrow> - 1
      | (Some i, Some j) \<Rightarrow> int i - int j)"

definition group_sensor_detail ::
  "(string \<Rightarrow> string \<Rightarrow> int) \<Rightarrow> detail \<Rightarrow> string list \<Rightarrow> (detail_section \<times> detail_row list) list" where
  "group_sensor_detail lc detail omit =
     (let by_section = fold (add_row omit) detail []
      in List.map_filter (\<lambda>s. map_option (\<lambda>rows. (s, js_sort (row_cmp lc) rows)) (map_of by_section s)) section_order)"

section \<open>The text of a value\<close>

definition max_entries :: nat where "max_entries = 6"

definition short_number :: "(real \<Rightarrow> string) \<Rightarrow> (real \<Rightarrow> string) \<Rightarrow> real \<Rightarrow> string" where
  "short_number grouped num n =
     (if n = of_int \<lfloor>n\<rfloor> then grouped n
      else num ((if n < 0 then - 1 else 1) * of_int (js_round (\<bar>n\<bar> * 1000)) / 1000))"

definition ranked_text :: "(real \<Rightarrow> string) \<Rightarrow> (real \<Rightarrow> string) \<Rightarrow> (string \<times> real) list \<Rightarrow> string" where
  "ranked_text grouped num entries =
     (let as_share = list_all (\<lambda>e. 0 \<le> snd e \<and> snd e \<le> 1) entries;
          ranked = js_sort (\<lambda>a b. snd b - snd a) entries;
          shown = map (\<lambda>(k, v). k @ '': '' @ (if as_share then to_fixed 1 (v * 100) @ ''%'' else short_number grouped num v))
            (take max_entries ranked);
          rest = length ranked - length shown
      in if 0 < rest then join '', '' shown @ '', +'' @ digits_of_nat rest @ '' more'' else join '', '' shown)"

fun is_number :: "json \<Rightarrow> bool" where
  "is_number (JNum x) = True"
| "is_number _ = False"

fun format_detail_value :: "(real \<Rightarrow> string) \<Rightarrow> (real \<Rightarrow> string) \<Rightarrow> json \<Rightarrow> string" where
  "format_detail_value grouped num JNull = em_dash"
| "format_detail_value grouped num (JNum n) = short_number grouped num n"
| "format_detail_value grouped num (JBool b) = (if b then ''true'' else ''false'')"
| "format_detail_value grouped num (JStr s) = s"
| "format_detail_value grouped num (JArr vs) =
     (if vs = [] then em_dash else join '', '' (map (\<lambda>v. format_detail_value grouped num v) vs))"
| "format_detail_value grouped num (JObj fs) =
     (if fs = [] then ''none''
      else if list_all (\<lambda>(k, v). is_number v) fs then ranked_text grouped num (numeric_entries (JObj fs))
      else join '', '' (map (\<lambda>(k, v). k @ '': '' @ format_detail_value grouped num v) fs))"

definition format_detail_row ::
  "(real \<Rightarrow> string) \<Rightarrow> (real \<Rightarrow> string) \<Rightarrow> (real \<Rightarrow> string) \<Rightarrow> detail_row \<Rightarrow> string" where
  "format_detail_row duration grouped num row =
     (case (dr_kind row, dr_value row) of
        (KindSeconds, JNum v) \<Rightarrow> duration v
      | (KindMillis, JNum v) \<Rightarrow> duration (v / 1000)
      | (KindFraction, JNum v) \<Rightarrow> to_fixed 1 (v * 100) @ ''%''
      | (KindProse, JStr v) \<Rightarrow> v
      | (_, v) \<Rightarrow> format_detail_value grouped num v)"

definition format_summary_value :: "(real \<Rightarrow> string) \<Rightarrow> (real \<Rightarrow> string) \<Rightarrow> summary_metric \<Rightarrow> string" where
  "format_summary_value duration grouped m =
     (case sm_kind m of
        KindSeconds \<Rightarrow> duration (sm_value m)
      | KindMillis \<Rightarrow> duration (sm_value m / 1000)
      | KindFraction \<Rightarrow> to_fixed 0 (sm_value m * 100) @ ''%''
      | _ \<Rightarrow> grouped (sm_value m))"

section \<open>The card\<close>

text \<open>What \<open>SensorHealthCard\<close> shows: tiles, rankings, and the counters neither has promoted.\<close>

definition card_rows ::
  "(string \<Rightarrow> string \<Rightarrow> int) \<Rightarrow> (real \<Rightarrow> string) \<Rightarrow> sensor_health \<Rightarrow> (detail_section \<times> detail_row list) list" where
  "card_rows lc grouped sensor =
     group_sensor_detail lc (nullish (sh_detail sensor) [])
       (ss_consumed (summarise_sensor grouped sensor) @ breakdown_keys @ [''survey_reason''])"

fun kind_upper :: "sensor_kind \<Rightarrow> string" where
  "kind_upper Wifi = ''WIFI''"
| "kind_upper Sdr = ''SDR''"
| "kind_upper Ble = ''BLE''"
| "kind_upper Net = ''NET''"

definition capture_limitation :: "sensor_health \<Rightarrow> string option" where
  "capture_limitation sensor =
     (if (case sh_config sensor of None \<Rightarrow> False | Some c \<Rightarrow> scc_supported (src_capture c)) then None
      else Some (''capture is not implemented for '' @ kind_upper (sh_sensor_kind sensor) @ '' sensors''))"

section \<open>What the tiles consume\<close>

definition promoted :: "detail \<Rightarrow> summary_metric list \<Rightarrow> string list \<Rightarrow> bool" where
  "promoted detail metrics consumed \<longleftrightarrow> distinct consumed \<and>
     list_all (\<lambda>k. numeric_field detail k \<noteq> None \<and>
       list_ex (\<lambda>m. Some (sm_value m) = numeric_field detail k) metrics) consumed"

lemma read_counter_cases:
  assumes "read_counter detail keys c = (v, c')"
  obtains "v = None" "c' = c"
  | key w where "key \<in> set keys" "v = Some w" "numeric_field detail key = Some w" "c' = set_add key c"
proof -
  have "v = None \<and> c' = c \<or>
      (\<exists>key w. key \<in> set keys \<and> v = Some w \<and> numeric_field detail key = Some w \<and> c' = set_add key c)"
    using assms
  proof (induction keys)
    case (Cons k keys)
    show ?case
    proof (cases "numeric_field detail k")
      case None
      then show ?thesis using Cons by auto
    next
      case (Some a)
      then have "v = Some a" "c' = set_add k c" using Cons.prems by auto
      then show ?thesis using Some by (intro disjI2 exI [of _ k] exI [of _ a]) simp
    qed
  qed simp
  then show ?thesis using that by blast
qed

lemma promoted_more: "promoted detail ms c \<Longrightarrow> promoted detail (ms @ ms') c"
  by (auto simp: promoted_def list_all_iff list_ex_iff)

lemma promoted_Nil: "promoted detail [] []"
  by (simp add: promoted_def)

lemma promoted_tile:
  assumes p: "promoted detail ms c" and r: "read_counter detail keys c = (v, c')"
  shows "promoted detail (ms @ tile i l k v h t) c'"
  using r
proof (cases rule: read_counter_cases)
  case 1
  then show ?thesis using p by (simp add: tile_def)
next
  case (2 key w)
  have "promoted detail (ms @ tile i l k v h t) c" using promoted_more [OF p] .
  moreover have "list_ex (\<lambda>m. Some (sm_value m) = numeric_field detail key) (ms @ tile i l k v h t)"
    by (simp add: tile_def 2)
  ultimately show ?thesis using 2 by (simp add: promoted_def list_all_iff)
qed

lemma wifi_promoted:
  "promoted detail (fst (wifi_metrics g sensor detail [])) (snd (wifi_metrics g sensor detail []))"
proof -
  obtain heard c1 where 1: "read_counter detail [''beacons'', ''frames''] [] = (heard, c1)" by fastforce
  obtain found c2 where 2: "read_counter detail [''detections''] c1 = (found, c2)" by fastforce
  obtain listening c3 where 3: "read_counter detail [''listening_fraction''] c2 = (listening, c3)" by fastforce
  obtain lost c4 where 4: "read_counter detail [''hop_overhead_ms''] c3 = (lost, c4)" by fastforce
  note p = promoted_more [OF promoted_tile [OF promoted_tile [OF promoted_more
    [OF promoted_tile [OF promoted_tile [OF promoted_Nil 1] 2]] 3] 4]]
  show ?thesis
    unfolding wifi_metrics_def 1 2 3 4 Let_def prod.case fst_conv snd_conv by (rule p [unfolded append_assoc append_Nil])
qed

lemma sdr_promoted:
  "promoted detail (fst (sdr_metrics sensor detail [])) (snd (sdr_metrics sensor detail []))"
proof -
  obtain messages c1 where 1: "read_counter detail [''messages_read'', ''frames''] [] = (messages, c1)" by fastforce
  obtain parsed c2 where 2: "read_counter detail [''parsed''] c1 = (parsed, c2)" by fastforce
  obtain icaos c3 where 3: "read_counter detail [''icaos''] c2 = (icaos, c3)" by fastforce
  obtain errors c4 where 4: "read_counter detail [''parse_errors''] c3 = (errors, c4)" by fastforce
  obtain uptime c5 where 5: "read_counter detail [''uptime_s''] c4 = (uptime, c5)" by fastforce
  note p = promoted_more [OF promoted_tile [OF promoted_tile [OF promoted_tile
    [OF promoted_tile [OF promoted_tile [OF promoted_Nil 1] 2] 3] 4] 5]]
  show ?thesis
    unfolding sdr_metrics_def 1 2 3 4 5 Let_def prod.case fst_conv snd_conv by (rule p [unfolded append_assoc append_Nil])
qed

lemma other_promoted:
  "promoted detail (fst (other_metrics sensor detail [])) (snd (other_metrics sensor detail []))"
proof -
  obtain found c1 where 1: "read_counter detail [''detections''] [] = (found, c1)" by fastforce
  obtain uptime c2 where 2: "read_counter detail [''uptime_s''] c1 = (uptime, c2)" by fastforce
  note p = promoted_more [OF promoted_tile [OF promoted_tile [OF promoted_Nil 1] 2]]
  show ?thesis
    unfolding other_metrics_def 1 2 Let_def prod.case fst_conv snd_conv by (rule p [unfolded append_assoc append_Nil])
qed

lemma summary_promoted:
  "promoted (nullish (sh_detail sensor) []) (ss_metrics (summarise_sensor g sensor)) (ss_consumed (summarise_sensor g sensor))"
proof (cases "sh_sensor_kind sensor")
  case Wifi
  then show ?thesis
    using wifi_promoted by (simp add: summarise_sensor_def Let_def case_prod_beta)
next
  case Sdr
  then show ?thesis
    using sdr_promoted by (simp add: summarise_sensor_def Let_def case_prod_beta)
next
  case Ble
  then show ?thesis
    using other_promoted by (simp add: summarise_sensor_def Let_def case_prod_beta)
next
  case Net
  then show ?thesis
    using other_promoted by (simp add: summarise_sensor_def Let_def case_prod_beta)
qed

section \<open>What the groups hold\<close>

definition kept_entries :: "string list \<Rightarrow> detail \<Rightarrow> detail" where
  "kept_entries omit detail = filter (\<lambda>e. fst e \<notin> set omit) detail"

definition section_rows :: "string list \<Rightarrow> detail \<Rightarrow> detail_section \<Rightarrow> detail_row list" where
  "section_rows omit detail s =
     map detail_row_of (filter (\<lambda>e. section_of (fst e) = s) (kept_entries omit detail))"

lemma add_row_sections:
  "map_of (fold (add_row omit) detail []) s =
     (if section_rows omit detail s = [] then None else Some (section_rows omit detail s))"
proof (induction detail arbitrary: s rule: rev_induct)
  case (snoc e detail)
  then show ?case by (auto simp: add_row_def section_rows_def kept_entries_def update_conv' Let_def)
qed (simp add: section_rows_def kept_entries_def)

lemma group_sensor_detail_eq:
  "group_sensor_detail lc detail omit =
     map (\<lambda>s. (s, js_sort (row_cmp lc) (section_rows omit detail s)))
       (filter (\<lambda>s. section_rows omit detail s \<noteq> []) section_order)"
proof -
  have "List.map_filter (\<lambda>s. map_option (\<lambda>rows. (s, js_sort (row_cmp lc) rows))
        (if section_rows omit detail s = [] then None else Some (section_rows omit detail s))) ss =
      map (\<lambda>s. (s, js_sort (row_cmp lc) (section_rows omit detail s)))
        (filter (\<lambda>s. section_rows omit detail s \<noteq> []) ss)" for ss
    by (induction ss) (auto simp: List.map_filter_simps)
  then show ?thesis by (simp add: group_sensor_detail_def add_row_sections)
qed

lemma section_rows_mset:
  "mset (concat (map (section_rows omit detail) section_order)) = mset (map detail_row_of (kept_entries omit detail))"
proof -
  have "mset (concat (map (\<lambda>s. map detail_row_of (filter (\<lambda>e. section_of (fst e) = s) es)) section_order)) =
      mset (map detail_row_of es)" for es
  proof (induction es)
    case (Cons e es)
    then show ?case by (cases "section_of (fst e)") (simp_all add: section_order_def)
  qed (simp add: section_order_def)
  then show ?thesis by (simp add: section_rows_def [abs_def])
qed

text \<open>The comparator of the rows: table order first, then the unknown keys as \<open>lc\<close> collates them.\<close>

definition table_rank :: "detail_row \<Rightarrow> nat option" where
  "table_rank a = find_index (\<lambda>k. k = dr_key a) known_order"

lemma table_rank_inject: "table_rank a = Some i \<Longrightarrow> table_rank b = Some i \<Longrightarrow> dr_key a = dr_key b"
  using find_index_Some [of "\<lambda>k. k = dr_key a" known_order i] find_index_Some [of "\<lambda>k. k = dr_key b" known_order i]
  by (simp add: table_rank_def)

lemma row_cmp_positive:
  "0 < row_cmp lc a b \<longleftrightarrow>
     (case (table_rank a, table_rank b) of
        (None, None) \<Rightarrow> 0 < lc (dr_key a) (dr_key b)
      | (None, Some j) \<Rightarrow> True
      | (Some i, None) \<Rightarrow> False
      | (Some i, Some j) \<Rightarrow> j < i)"
  by (simp add: row_cmp_def table_rank_def split: option.split)

lemma row_cmp_consistent:
  assumes "collates lc (dr_key ` A)"
  shows "consistent_cmp (row_cmp lc) A"
proof -
  have anti: "\<not> 0 < lc (dr_key y) (dr_key x)" if "x \<in> A" "y \<in> A" "0 < lc (dr_key x) (dr_key y)" for x y
    using collatesD(1) [OF assms, of "dr_key x" "dr_key y"] that by auto
  have trans: "\<not> 0 < lc (dr_key x) (dr_key z)"
    if "x \<in> A" "y \<in> A" "z \<in> A" "\<not> 0 < lc (dr_key x) (dr_key y)" "\<not> 0 < lc (dr_key y) (dr_key z)" for x y z
    using collatesD(3) [OF assms, of "dr_key x" "dr_key y" "dr_key z"] that by auto
  show ?thesis
    unfolding consistent_cmp_def
  proof (intro conjI ballI impI)
    fix x y assume "x \<in> A" "y \<in> A" "0 < row_cmp lc x y"
    then show "\<not> 0 < row_cmp lc y x"
      using anti [of x y] unfolding row_cmp_positive
      by (cases "table_rank x"; cases "table_rank y") simp_all
  next
    fix x y z assume "x \<in> A" "y \<in> A" "z \<in> A" "\<not> 0 < row_cmp lc x y" "\<not> 0 < row_cmp lc y z"
    then show "\<not> 0 < row_cmp lc x z"
      using trans [of x y z] unfolding row_cmp_positive
      by (cases "table_rank x"; cases "table_rank y"; cases "table_rank z") simp_all
  qed
qed

lemma row_cmp_strict:
  assumes "collates lc (dr_key ` A)" "a \<in> A" "b \<in> A" "in_order (row_cmp lc) a b" "in_order (row_cmp lc) b a"
  shows "dr_key a = dr_key b"
proof (cases "table_rank a"; cases "table_rank b")
  assume "table_rank a = None" "table_rank b = None"
  then have "\<not> 0 < lc (dr_key a) (dr_key b)" "\<not> 0 < lc (dr_key b) (dr_key a)"
    using assms(4,5) by (simp_all add: in_order_def row_cmp_positive)
  then have "lc (dr_key a) (dr_key b) = 0"
    using collatesD(1) [OF assms(1), of "dr_key b" "dr_key a"] assms(2,3) by auto
  then show ?thesis using collatesD(2) [OF assms(1)] assms(2,3) by blast
next
  fix i j assume "table_rank a = Some i" "table_rank b = Some j"
  moreover from this have "i = j" using assms(4,5) by (simp add: in_order_def row_cmp_positive)
  ultimately show ?thesis using table_rank_inject by blast
qed (use assms(4,5) in \<open>simp_all add: in_order_def row_cmp_positive\<close>)

section \<open>Properties\<close>

definition group_keys :: "(detail_section \<times> detail_row list) list \<Rightarrow> string list" where
  "group_keys groups = concat (map (\<lambda>(s, rows). map dr_key rows) groups)"

lemma dr_key_row [simp]: "dr_key (detail_row_of e) = fst e"
  by (simp add: detail_row_of_def)

lemma group_keys_mset:
  "mset (group_keys (group_sensor_detail lc detail omit)) = mset (filter (\<lambda>k. k \<notin> set omit) (map fst detail))"
proof -
  have "mset (group_keys (map (\<lambda>s. (s, js_sort (row_cmp lc) (section_rows omit detail s)))
        (filter (\<lambda>s. section_rows omit detail s \<noteq> []) ss))) =
      image_mset dr_key (mset (concat (map (section_rows omit detail) ss)))" for ss
    by (induction ss) (auto simp: group_keys_def)
  then have "mset (group_keys (group_sensor_detail lc detail omit)) =
      image_mset dr_key (mset (map detail_row_of (kept_entries omit detail)))"
    unfolding group_sensor_detail_eq by (simp only: section_rows_mset)
  also have "\<dots> = mset (map fst (kept_entries omit detail))" by (simp add: comp_def flip: mset_map)
  also have "map fst (kept_entries omit detail) = filter (\<lambda>k. k \<notin> set omit) (map fst detail)"
    by (simp add: kept_entries_def filter_map comp_def)
  finally show ?thesis .
qed

text \<open>A sensor card prints a reading once: every tile's counter was read from a key of the sensor's
  detail, the keys behind the tiles are told apart, and the rows under "All counters" are exactly
  the other keys (less the three rankings and the survey note), each in its own section, under
  headings that are never empty.\<close>

theorem card_prints_each_reading_once:
  "promoted (nullish (sh_detail sensor) []) (ss_metrics (summarise_sensor grouped sensor))
     (ss_consumed (summarise_sensor grouped sensor)) \<and>
   mset (group_keys (card_rows lc grouped sensor)) =
     mset (filter (\<lambda>k. k \<notin> set (ss_consumed (summarise_sensor grouped sensor) @ breakdown_keys @ [''survey_reason'']))
       (map fst (nullish (sh_detail sensor) []))) \<and>
   list_all (\<lambda>(s, rows). rows \<noteq> [] \<and> list_all (\<lambda>r. section_of (dr_key r) = s) rows) (card_rows lc grouped sensor)"
proof (intro conjI)
  show "list_all (\<lambda>(s, rows). rows \<noteq> [] \<and> list_all (\<lambda>r. section_of (dr_key r) = s) rows) (card_rows lc grouped sensor)"
    unfolding card_rows_def group_sensor_detail_eq list_all_iff
    by (auto simp: section_rows_def simp flip: length_greater_0_conv)
qed (simp_all only: summary_promoted card_rows_def group_keys_mset)

text \<open>The counters have one stable layout: whatever order a sensor sends its keys in, the groups and the
  order of their rows are the same, as long as the collation tells the keys apart.\<close>

theorem card_layout_canonical:
  assumes lc: "collates lc (fst ` set detail)" and d: "distinct (map fst detail)" and perm: "mset detail = mset detail'"
  shows "group_sensor_detail lc detail omit = group_sensor_detail lc detail' omit"
proof -
  have rows: "mset (section_rows omit detail s) = mset (section_rows omit detail' s)" for s
    using perm by (simp add: section_rows_def kept_entries_def)
  have keys: "dr_key ` set (section_rows omit detail s) \<subseteq> fst ` set detail" for s
    by (force simp: section_rows_def kept_entries_def)
  have lc': "collates lc (dr_key ` set (section_rows omit detail s))" for s
    using lc keys [of s] unfolding collates_def by (meson subsetD)
  have "distinct (map dr_key (section_rows omit detail s))" for s
    using d by (simp add: section_rows_def kept_entries_def comp_def distinct_map_filter)
  then have dist: "distinct (section_rows omit detail s)" and inj: "inj_on dr_key (set (section_rows omit detail s))" for s
    unfolding distinct_map by blast+
  have "js_sort (row_cmp lc) (section_rows omit detail s) = js_sort (row_cmp lc) (section_rows omit detail' s)" for s
    using row_cmp_consistent [OF lc'] dist rows
    by (rule js_sort_unique) (metis row_cmp_strict [OF lc'] inj inj_onD)
  moreover have "section_rows omit detail s = [] \<longleftrightarrow> section_rows omit detail' s = []" for s
    using rows [of s] by (metis mset_zero_iff)
  ultimately show ?thesis by (simp add: group_sensor_detail_eq)
qed

definition shuffled :: detail where
  "shuffled = [(''zeta'', JNum 1), (''hops'', JNum 2), (''alpha'', JNum 3), (''iface'', JStr ''wlan1'')]"

theorem card_layout_canonical_witness:
  "group_sensor_detail code_unit_compare shuffled [''hops''] =
     group_sensor_detail code_unit_compare (rev shuffled) [''hops'']"
  by (rule card_layout_canonical [OF collates_code_unit_compare]) (simp_all add: shuffled_def)

definition counter_keys :: "string list" where
  "counter_keys = [''beacons'', ''frames'', ''detections'', ''listening_fraction'', ''hop_overhead_ms'', ''messages_read'',
     ''parsed'', ''icaos'', ''parse_errors'', ''uptime_s'']"

lemma read_counter_subset: "set keys \<subseteq> K \<Longrightarrow> set c \<subseteq> K \<Longrightarrow> set (snd (read_counter detail keys c)) \<subseteq> K"
  by (induction keys) (auto split: option.splits)

lemma consumed_subset: "set (ss_consumed (summarise_sensor g sensor)) \<subseteq> set counter_keys"
  by (cases "sh_sensor_kind sensor")
    (simp_all add: summarise_sensor_def wifi_metrics_def sdr_metrics_def other_metrics_def Let_def case_prod_beta
      read_counter_subset counter_keys_def del: read_counter.simps)

text \<open>A ranking a sensor sends in another shape disappears from its card: where the value under one of
  the three ranking keys holds no number per channel, it is in no tile, no ranking and no row,
  although the card says that nothing is dropped.\<close>

theorem unreadable_ranking_disappears:
  assumes "key \<in> set breakdown_keys" "map_of (nullish (sh_detail sensor) []) key = Some value" "numeric_entries value = []"
  shows "key \<notin> set (ss_consumed (summarise_sensor grouped sensor)) \<and>
    key \<notin> set (map bd_key (sensor_breakdowns lc grouped (nullish (sh_detail sensor) []))) \<and>
    key \<notin> set (group_keys (card_rows lc grouped sensor))"
proof (intro conjI)
  show "key \<notin> set (ss_consumed (summarise_sensor grouped sensor))"
    using consumed_subset [of grouped sensor] assms(1) by (auto simp: breakdown_keys_def counter_keys_def)
  have "set (map bd_key (List.map_filter (\<lambda>k. case map_of d k of None \<Rightarrow> None
      | Some v \<Rightarrow> let entries = entries_of lc grouped k v in if entries = [] then None
           else Some \<lparr> bd_key = k, bd_title = breakdown_title k, bd_description = breakdown_description k,
             bd_entries = entries \<rparr>) ks)) \<subseteq> {k. \<exists>v. map_of d k = Some v \<and> numeric_entries v \<noteq> []}" for d ks
    by (induction ks) (auto simp: List.map_filter_simps Let_def entries_of_def split: option.splits)
  then show "key \<notin> set (map bd_key (sensor_breakdowns lc grouped (nullish (sh_detail sensor) [])))"
    using assms(2,3) unfolding sensor_breakdowns_def by fastforce
  have "set (group_keys (card_rows lc grouped sensor)) \<inter> set breakdown_keys = {}"
    unfolding card_rows_def set_mset_mset [symmetric] group_keys_mset by auto
  then show "key \<notin> set (group_keys (card_rows lc grouped sensor))" using assms(1) by blast
qed

definition odd_sensor :: sensor_health where
  "odd_sensor =
     \<lparr> sh_sensor_id = ''wifi-0'', sh_sensor_kind = Wifi, sh_healthy = True, sh_last_heartbeat = [],
       sh_seconds_since_heartbeat = 1, sh_detections_5m = None, sh_reason = None,
       sh_detail = Some [(''dwell_share'', JStr ''6: 57.6%'')], sh_optional = None, sh_config = None \<rparr>"

theorem unreadable_ranking_disappears_witness:
  "''dwell_share'' \<notin> set (group_keys (card_rows code_unit_compare (\<lambda>v. []) odd_sensor))"
  using unreadable_ranking_disappears [of "''dwell_share''" odd_sensor "JStr ''6: 57.6%''"]
  by (simp add: breakdown_keys_def odd_sensor_def numeric_entries_def)

end
