(* ===== verification/LiveSession.thy ===== *)
theory LiveSession
  imports LiveStream LiveFrames LogBridge
begin

text \<open>
  \<open>app/live-provider.tsx\<close>: the component that joins the stream (\<open>LiveStream\<close>), the query cache
  (\<open>LiveFrames\<close>) and the session log (\<open>LogBridge\<close>, \<open>LogStore\<close>), and \<open>features/auth/use-auth.ts\<close>, which decides
  when it may connect.

  Each run of the effect makes a stream and a frame logger of its own, a \<open>session\<close> here; sockets of
  an earlier session may outlive it, so the sessions are kept. What a step of the stream appends
  to \<open>lv_out\<close> is what its listeners are called with, in that order; the listeners never call the stream back, apart
  from \<open>getAttempt\<close>, whose answer the notification carries. \<open>pv_heard\<close> is a history
  variable: the frames the provider was handed, with their times. The cache is shared with the rest of
  the console, so answers, evictions and invalidations from elsewhere are events too, and
  \<open>provider_story\<close> keeps what a run consisted of, read off the events alone.
\<close>

section \<open>Who may connect\<close>

record auth_me =
  am_authenticated :: bool
  am_auth_enabled :: bool
  am_setup_required :: bool
  am_role :: "string option"

definition connectable :: "auth_me option \<Rightarrow> bool" where
  "connectable me = (case me of None \<Rightarrow> False | Some m \<Rightarrow> am_authenticated m \<or> \<not> am_auth_enabled m)"

definition has_role :: "auth_me option \<Rightarrow> string \<Rightarrow> bool" where
  "has_role me need =
     (case me of None \<Rightarrow> False
      | Some m \<Rightarrow> if \<not> am_auth_enabled m then True else role_at_least (am_role m) need)"

section \<open>State\<close>

record session =
  se_stream :: live_stream
  se_logger :: frame_logger
  se_listening :: bool

record 'c provider =
  pv_sessions :: "session list"
  pv_mounted :: bool
  pv_connection :: connection_state
  pv_last_frame_at :: "int option"
  pv_attempt :: nat
  pv_cache :: 'c
  pv_log :: log_store
  pv_announced :: bool
  pv_heard :: "(int \<times> server_frame) list"

definition new_provider :: "'c \<Rightarrow> log_store \<Rightarrow> 'c provider" where
  "new_provider cache log0 =
     \<lparr> pv_sessions = [], pv_mounted = False, pv_connection = Closed, pv_last_frame_at = None, pv_attempt = 0,
       pv_cache = cache, pv_log = log0, pv_announced = False, pv_heard = [] \<rparr>"

definition current_session :: "'c provider \<Rightarrow> nat" where
  "current_session pv = length (pv_sessions pv) - 1"

section \<open>The listeners\<close>

fun connection_text :: "connection_state \<Rightarrow> string" where
  "connection_text Connecting = ''connecting''"
| "connection_text Open = ''open''"
| "connection_text Reconnecting = ''reconnecting''"
| "connection_text Closed = ''closed''"

definition record_lines :: "int \<Rightarrow> log_input list \<Rightarrow> log_store \<Rightarrow> log_store" where
  "record_lines now ls store = fold (log_append now) ls store"

fun is_tracks_key :: "qkey \<Rightarrow> bool" where
  "is_tracks_key (KTrack _) = True"
| "is_tracks_key (KTracks _) = True"
| "is_tracks_key _ = False"

definition on_stream_state :: "int \<Rightarrow> connection_state \<Rightarrow> nat \<Rightarrow> 'c provider \<Rightarrow> 'c provider" where
  "on_stream_state now st attempt pv =
     pv\<lparr> pv_connection := st, pv_attempt := attempt,
         pv_log := record_lines now
           (case log_connection (connection_text st) attempt of None \<Rightarrow> [] | Some l \<Rightarrow> [l]) (pv_log pv) \<rparr>"

definition on_stream_connect :: "'c query_client \<Rightarrow> 'c provider \<Rightarrow> 'c provider" where
  "on_stream_connect qc pv =
     pv\<lparr> pv_cache := qc_invalidate qc (\<lambda>k. k = KHealth)
           (qc_invalidate qc is_detections_key (qc_invalidate qc is_tracks_key (pv_cache pv))) \<rparr>"

definition on_stream_frame :: "'c query_client \<Rightarrow> nat \<Rightarrow> int \<Rightarrow> server_frame \<Rightarrow> 'c provider \<Rightarrow> 'c provider" where
  "on_stream_frame qc k now f pv =
     (let se = pv_sessions pv ! k; outcome = log_frame f (se_logger se)
      in pv\<lparr> pv_last_frame_at := Some now, pv_cache := apply_frame qc f (pv_cache pv),
             pv_sessions := (pv_sessions pv)[k := se\<lparr> se_logger := lo_state outcome \<rparr>],
             pv_log := record_lines now (lo_lines outcome) (pv_log pv),
             pv_heard := pv_heard pv @ [(now, f)] \<rparr>)"

fun deliver :: "'c query_client \<Rightarrow> nat \<Rightarrow> int \<Rightarrow> live_effect \<Rightarrow> 'c provider \<Rightarrow> 'c provider" where
  "deliver qc k now (NotifyState st attempt) pv = on_stream_state now st attempt pv"
| "deliver qc k now (NotifyConnect again) pv = on_stream_connect qc pv"
| "deliver qc k now (NotifyFrame f) pv = on_stream_frame qc k now f pv"
| "deliver qc k now _ pv = pv"

text \<open>What a step of a stream tells its listeners.\<close>

definition news :: "live_config \<Rightarrow> live_event \<Rightarrow> live_stream \<Rightarrow> live_effect list" where
  "news c e s = drop (length (lv_out s)) (lv_out (live_step c e s))"

definition stream_step ::
  "'c query_client \<Rightarrow> live_config \<Rightarrow> nat \<Rightarrow> int \<Rightarrow> live_event \<Rightarrow> 'c provider \<Rightarrow> 'c provider" where
  "stream_step qc c k now e pv =
     (let se = pv_sessions pv ! k;
          pv1 = pv\<lparr> pv_sessions := (pv_sessions pv)[k := se\<lparr> se_stream := live_step c e (se_stream se) \<rparr>] \<rparr>
      in if se_listening se then fold (deliver qc k now) (news c e (se_stream se)) pv1 else pv1)"

section \<open>The effect\<close>

definition run_effect ::
  "'c query_client \<Rightarrow> live_config \<Rightarrow> bool \<Rightarrow> auth_me option \<Rightarrow> bool \<Rightarrow> real \<Rightarrow> int \<Rightarrow> 'c provider \<Rightarrow> 'c provider" where
  "run_effect qc c enabled me factory_ok jitter now pv =
     (if \<not> enabled \<or> \<not> connectable me then pv
      else
        let (ls, announced) = log_session_start (pv_announced pv);
            se = \<lparr> se_stream = new_live_stream, se_logger = new_frame_logger, se_listening = True \<rparr>;
            pv1 = pv\<lparr> pv_sessions := pv_sessions pv @ [se], pv_mounted := True, pv_announced := announced,
                     pv_log := record_lines now ls (pv_log pv) \<rparr>
        in stream_step qc c (length (pv_sessions pv)) now (Connect factory_ok jitter) pv1)"

text \<open>The cleanup takes the listeners off before it closes the stream.\<close>

definition run_cleanup :: "'c query_client \<Rightarrow> live_config \<Rightarrow> int \<Rightarrow> 'c provider \<Rightarrow> 'c provider" where
  "run_cleanup qc c now pv =
     (if \<not> pv_mounted pv then pv
      else
        let k = current_session pv;
            pv1 = pv\<lparr> pv_mounted := False,
                     pv_sessions := (pv_sessions pv)[k := (pv_sessions pv ! k)\<lparr> se_listening := False \<rparr>] \<rparr>
        in stream_step qc c k now Close pv1)"

section \<open>Events\<close>

text \<open>
  A dependency of the effect changes, the provider unmounts, the browser has something for a socket or
  timer of some session's stream, or the page is shown, restored or back online. And what the rest of
  the console does to the shared cache in between: a fetch or refetch answers (or a view writes an
  entry), an unused entry is thrown away, a view asks for refetches of its own.
\<close>

datatype provider_event =
    DepsChanged bool "auth_me option" bool real
  | ProviderUnmounted
  | Browser nat live_event
  | Returned bool bool real
  | Answered qkey qdata
  | Evicted qkey
  | Invalidated "qkey \<Rightarrow> bool"

fun browser_event :: "live_event \<Rightarrow> bool" where
  "browser_event (Connect _ _) = False"
| "browser_event Close = False"
| "browser_event (Resume _ _) = False"
| "browser_event _ = True"

fun provider_enabled :: "provider_event \<Rightarrow> 'c provider \<Rightarrow> bool" where
  "provider_enabled (Browser k e) pv \<longleftrightarrow>
     k < length (pv_sessions pv) \<and> browser_event e \<and> live_enabled e (se_stream (pv_sessions pv ! k))"
| "provider_enabled (Returned _ _ _) pv \<longleftrightarrow> pv_mounted pv"
| "provider_enabled _ pv = True"

fun provider_step ::
  "'c query_client \<Rightarrow> live_config \<Rightarrow> int \<times> provider_event \<Rightarrow> 'c provider \<Rightarrow> 'c provider" where
  "provider_step qc c (now, DepsChanged enabled me ok j) pv =
     run_effect qc c enabled me ok j now (run_cleanup qc c now pv)"
| "provider_step qc c (now, ProviderUnmounted) pv = run_cleanup qc c now pv"
| "provider_step qc c (now, Browser k e) pv = stream_step qc c k now e pv"
| "provider_step qc c (now, Returned visible ok j) pv =
     (if visible then stream_step qc c (current_session pv) now (Resume ok j) pv else pv)"
| "provider_step qc c (now, Answered k v) pv = pv\<lparr> pv_cache := qc_set qc k v (pv_cache pv) \<rparr>"
| "provider_step qc c (now, Evicted k) pv = pv\<lparr> pv_cache := qc_remove qc k (pv_cache pv) \<rparr>"
| "provider_step qc c (now, Invalidated f) pv = pv\<lparr> pv_cache := qc_invalidate qc f (pv_cache pv) \<rparr>"

inductive provider_reach :: "'c query_client \<Rightarrow> live_config \<Rightarrow> 'c \<Rightarrow> 'c provider \<Rightarrow> bool"
  for qc c cache where
  provider_init: "provider_reach qc c cache (new_provider cache new_log_store)"
| provider_next: "provider_reach qc c cache pv \<Longrightarrow> provider_enabled e pv \<Longrightarrow>
    provider_reach qc c cache (provider_step qc c (now, e) pv)"

section \<open>What a stream tells its listeners\<close>

fun frame_news :: "live_event \<Rightarrow> live_stream \<Rightarrow> server_frame list" where
  "frame_news (SocketMessage i (Parsed f)) s = (if attached i s \<and> f \<noteq> Ping then [f] else [])"
| "frame_news _ s = []"

definition told_frames :: "live_effect list \<Rightarrow> server_frame list" where
  "told_frames es = List.map_filter (\<lambda>e. case e of NotifyFrame f \<Rightarrow> Some f | _ \<Rightarrow> None) es"

lemma told_frames_simps [simp]:
  "told_frames [] = []"
  "told_frames (e # es) = (case e of NotifyFrame f \<Rightarrow> [f] | _ \<Rightarrow> []) @ told_frames es"
  "told_frames (es @ es') = told_frames es @ told_frames es'"
  by (auto simp: told_frames_def List.map_filter_simps List.map_filter_def split: live_effect.split)

fun connect_news :: "live_event \<Rightarrow> live_stream \<Rightarrow> nat" where
  "connect_news (SocketOpened i) s = of_bool (attached i s)"
| "connect_news _ s = 0"

primrec told_connects :: "live_effect list \<Rightarrow> nat" where
  "told_connects [] = 0"
| "told_connects (e # es) = (case e of NotifyConnect _ \<Rightarrow> 1 | _ \<Rightarrow> 0) + told_connects es"

lemma told_connects_append [simp]: "told_connects (es @ es') = told_connects es + told_connects es'"
  by (induction es) simp_all

text \<open>
  One stream state follows another with the frames \<open>fs\<close> and \<open>n\<close> connections told and no notice of a
  closed stream.
\<close>

definition tells :: "server_frame list \<Rightarrow> nat \<Rightarrow> live_stream \<Rightarrow> live_stream \<Rightarrow> bool" where
  "tells fs n s s' \<longleftrightarrow>
     (\<exists>es. lv_out s' = lv_out s @ es \<and> told_frames es = fs \<and> told_connects es = n \<and>
        (\<forall>a. NotifyState Closed a \<notin> set es))"

lemma tells_refl: "lv_out s' = lv_out s \<Longrightarrow> tells [] 0 s s'"
  by (simp add: tells_def)

lemma tells_trans: "tells fs n s s' \<Longrightarrow> tells gs m s' s'' \<Longrightarrow> tells (fs @ gs) (n + m) s s''"
  by (fastforce simp: tells_def)

lemma tells_news:
  assumes "tells fs n s (live_step c e s)"
  shows "told_frames (news c e s) = fs" and "\<forall>a. NotifyState Closed a \<notin> set (news c e s)"
    and "lv_out (live_step c e s) = lv_out s @ news c e s" and "told_connects (news c e s) = n"
  using assms by (auto simp: tells_def news_def)

lemma tells_schedule: "tells [] 0 s (schedule_reconnect c j s)"
  by (auto simp: tells_def schedule_reconnect_def Let_def)

lemma tells_open: "tells [] 0 s (live_open c ok j s)"
proof (cases "lv_stopped s")
  case True
  then show ?thesis by (simp add: live_open_def tells_refl)
next
  case False
  define st where "st = (if lv_ever_connected s then Reconnecting else Connecting)"
  have start: "tells [] 0 s (live_set_state st s)" by (auto simp: tells_def st_def)
  show ?thesis
  proof (cases ok)
    case True
    then show ?thesis using False by (auto simp: tells_def live_open_def Let_def)
  next
    case fails: False
    then have "live_open c ok j s = schedule_reconnect c j (live_set_state st s)"
      using False by (simp add: live_open_def st_def)
    then show ?thesis using tells_trans [OF start tells_schedule] by simp
  qed
qed

lemma tells_sent: "tells [] 0 s (live_send f s)"
  by (auto simp: tells_def live_send_def split: option.splits)

lemma tells_step:
  assumes "e \<noteq> Close"
  shows "tells (frame_news e s) (connect_news e s) s (live_step c e s)"
proof (cases e)
  case (Connect ok j)
  then show ?thesis using tells_open [of "s\<lparr> lv_stopped := False \<rparr>"] by (simp add: live_connect_def tells_def)
next
  case (Resume ok j)
  then show ?thesis
    using tells_open [of "(live_clear_timer s)\<lparr> lv_attempt := 0 \<rparr>"] tells_refl [of s s]
    by (simp add: live_resume_def tells_def)
next
  case (SocketOpened i)
  have "tells [] 1 t (on_socket_open c t)" for t
    by (auto simp: tells_def on_socket_open_def Let_def live_send_def split: option.splits)
  from this [of "with_ready i SockOpen s"] show ?thesis
    using SocketOpened by (auto simp: tells_def Let_def with_ready_def)
next
  case (SocketMessage i m)
  show ?thesis
  proof (cases "attached i s")
    case True
    then show ?thesis using SocketMessage
      by (cases m) (auto simp: on_socket_message_def tells_refl tells_sent, auto simp: tells_def)
  next
    case False
    then show ?thesis using SocketMessage by (cases m) (simp_all add: tells_refl)
  qed
next
  case (SocketClosing i)
  then show ?thesis by (simp add: tells_refl with_ready_def)
next
  case (SocketClosed i j)
  then show ?thesis
    using tells_schedule [of "(with_ready i SockClosed s)\<lparr> lv_socket := None \<rparr>"]
    by (auto simp: tells_def Let_def with_ready_def on_socket_close_def)
next
  case (TimerFired ok j)
  then show ?thesis using tells_open [of "s\<lparr> lv_timer := None \<rparr>"] by (simp add: on_timer_def tells_def)
qed (use assms in simp)

section \<open>What the listeners change\<close>

definition session_view :: "'c provider \<Rightarrow> (live_stream \<times> bool) list" where
  "session_view pv = map (\<lambda>se. (se_stream se, se_listening se)) (pv_sessions pv)"

lemma session_view_nth:
  "k < length (pv_sessions pv) \<Longrightarrow>
   session_view pv ! k = (se_stream (pv_sessions pv ! k), se_listening (pv_sessions pv ! k))"
  by (simp add: session_view_def)

lemma session_view_length [simp]: "length (session_view pv) = length (pv_sessions pv)"
  by (simp add: session_view_def)

lemma session_view_logger:
  "session_view (pv\<lparr> pv_sessions := (pv_sessions pv)[k := (pv_sessions pv ! k)\<lparr> se_logger := l \<rparr>] \<rparr>) = session_view pv"
  by (cases "k < length (pv_sessions pv)")
    (auto simp: session_view_def map_update intro!: nth_equalityI simp: nth_list_update)

definition untold :: "live_effect list \<Rightarrow> bool" where
  "untold es \<longleftrightarrow> (\<forall>st a. NotifyState st a \<notin> set es)"

lemma deliver_keeps:
  "session_view (deliver qc k now e pv) = session_view pv \<and>
   pv_mounted (deliver qc k now e pv) = pv_mounted pv \<and>
   pv_heard (deliver qc k now e pv) = pv_heard pv @ map (Pair now) (told_frames [e])"
proof (cases e)
  case (NotifyFrame f)
  then show ?thesis
    using session_view_logger [of pv k "lo_state (log_frame f (se_logger (pv_sessions pv ! k)))"]
    by (simp add: on_stream_frame_def Let_def session_view_def)
qed (simp_all add: on_stream_state_def on_stream_connect_def session_view_def)

lemma delivered_keeps:
  "session_view (fold (deliver qc k now) es pv) = session_view pv \<and>
   pv_mounted (fold (deliver qc k now) es pv) = pv_mounted pv \<and>
   pv_heard (fold (deliver qc k now) es pv) = pv_heard pv @ map (Pair now) (told_frames es)"
proof (induction es arbitrary: pv)
  case (Cons e es)
  then show ?case using deliver_keeps [of qc k now e pv] by simp
qed simp

lemma delivered_connection:
  assumes "\<forall>a. NotifyState Closed a \<notin> set es" "pv_connection pv \<noteq> Closed \<or> \<not> untold es"
  shows "pv_connection (fold (deliver qc k now) es pv) \<noteq> Closed"
  using assms
proof (induction es arbitrary: pv)
  case (Cons e es)
  have "pv_connection (deliver qc k now e pv) \<noteq> Closed \<or> \<not> untold es"
    using Cons.prems by (cases e) (auto simp: on_stream_state_def on_stream_connect_def on_stream_frame_def Let_def untold_def)
  then show ?case using Cons by simp
qed (simp add: untold_def)

lemma delivered_last_frame:
  "pv_last_frame_at (fold (deliver qc k now) es pv) =
     (if told_frames es = [] then pv_last_frame_at pv else Some now)"
proof (induction es arbitrary: pv)
  case (Cons e es)
  then show ?case
    by (cases e) (simp_all add: on_stream_state_def on_stream_connect_def on_stream_frame_def Let_def)
qed simp

context query_cache
begin

lemma delivered_cache:
  "qc_get qc (pv_cache (fold (deliver qc k now) es pv)) q =
     fold (\<lambda>f. frame_effect f q) (told_frames es) (qc_get qc (pv_cache pv) q)"
proof (induction es arbitrary: pv)
  case (Cons e es)
  then show ?case
    by (cases e) (simp_all add: on_stream_state_def on_stream_connect_def on_stream_frame_def Let_def
        apply_frame_refines get_invalidate)
qed simp

end

section \<open>A step of a session's stream\<close>

lemma stream_step_view:
  assumes "k < length (pv_sessions pv)"
  shows "session_view (stream_step qc c k now e pv) =
      (session_view pv)[k := (live_step c e (se_stream (pv_sessions pv ! k)), se_listening (pv_sessions pv ! k))]"
    and "pv_mounted (stream_step qc c k now e pv) = pv_mounted pv"
    and "pv_heard (stream_step qc c k now e pv) = pv_heard pv @
      (if se_listening (pv_sessions pv ! k) then map (Pair now) (told_frames (news c e (se_stream (pv_sessions pv ! k)))) else [])"
proof -
  define pv1 where "pv1 = pv\<lparr> pv_sessions := (pv_sessions pv)[k := (pv_sessions pv ! k)
    \<lparr> se_stream := live_step c e (se_stream (pv_sessions pv ! k)) \<rparr>] \<rparr>"
  have v: "session_view pv1 =
      (session_view pv)[k := (live_step c e (se_stream (pv_sessions pv ! k)), se_listening (pv_sessions pv ! k))]"
    by (simp add: pv1_def session_view_def map_update)
  have st: "stream_step qc c k now e pv =
      (if se_listening (pv_sessions pv ! k)
       then fold (deliver qc k now) (news c e (se_stream (pv_sessions pv ! k))) pv1 else pv1)"
    by (simp add: stream_step_def Let_def pv1_def)
  have same: "pv_mounted pv1 = pv_mounted pv" "pv_heard pv1 = pv_heard pv" by (simp_all add: pv1_def)
  show "session_view (stream_step qc c k now e pv) =
      (session_view pv)[k := (live_step c e (se_stream (pv_sessions pv ! k)), se_listening (pv_sessions pv ! k))]"
    using delivered_keeps [of qc k now "news c e (se_stream (pv_sessions pv ! k))" pv1] v st by simp
  show "pv_mounted (stream_step qc c k now e pv) = pv_mounted pv"
    using delivered_keeps [of qc k now "news c e (se_stream (pv_sessions pv ! k))" pv1] same st by simp
  show "pv_heard (stream_step qc c k now e pv) = pv_heard pv @
      (if se_listening (pv_sessions pv ! k) then map (Pair now) (told_frames (news c e (se_stream (pv_sessions pv ! k)))) else [])"
    using delivered_keeps [of qc k now "news c e (se_stream (pv_sessions pv ! k))" pv1] same st by simp
qed

lemma stream_step_deaf:
  assumes "\<not> se_listening (pv_sessions pv ! k)"
  shows "stream_step qc c k now e pv = pv\<lparr> pv_sessions := (pv_sessions pv)[k := (pv_sessions pv ! k)
    \<lparr> se_stream := live_step c e (se_stream (pv_sessions pv ! k)) \<rparr>] \<rparr>"
  using assms by (simp add: stream_step_def Let_def)

section \<open>One session listens\<close>

definition one_listens :: "'c provider \<Rightarrow> bool" where
  "one_listens pv \<longleftrightarrow> (pv_mounted pv \<longrightarrow> pv_sessions pv \<noteq> []) \<and>
     (\<forall>k < length (pv_sessions pv). snd (session_view pv ! k) = (pv_mounted pv \<and> k = current_session pv))"

lemma one_listens_stream_step:
  assumes "one_listens pv" "k < length (pv_sessions pv)"
  shows "one_listens (stream_step qc c k now e pv)"
proof -
  note v = stream_step_view [OF assms(2), of qc c now e]
  have len: "length (pv_sessions (stream_step qc c k now e pv)) = length (pv_sessions pv)"
    using arg_cong [OF v(1), of length] by simp
  have "snd (session_view (stream_step qc c k now e pv) ! i) = snd (session_view pv ! i)"
    if "i < length (pv_sessions pv)" for i
    using that assms(2) v(1) by (cases "i = k") (simp_all add: session_view_nth)
  then show ?thesis
    using assms(1) v(2) len by (auto simp: one_listens_def current_session_def)
qed

definition muted :: "'c provider \<Rightarrow> 'c provider" where
  "muted pv =
     (let k = current_session pv
      in pv\<lparr> pv_mounted := False, pv_sessions := (pv_sessions pv)[k := (pv_sessions pv ! k)\<lparr> se_listening := False \<rparr>] \<rparr>)"

lemma run_cleanup_muted:
  "pv_mounted pv \<Longrightarrow> run_cleanup qc c now pv = stream_step qc c (current_session pv) now Close (muted pv)"
  by (simp add: run_cleanup_def muted_def Let_def)

lemma muted_simps [simp]:
  "length (pv_sessions (muted pv)) = length (pv_sessions pv)" "\<not> pv_mounted (muted pv)"
  "current_session (muted pv) = current_session pv" "pv_heard (muted pv) = pv_heard pv"
  "pv_cache (muted pv) = pv_cache pv" "pv_last_frame_at (muted pv) = pv_last_frame_at pv"
  "pv_connection (muted pv) = pv_connection pv"
  by (simp_all add: muted_def Let_def current_session_def)

lemma one_listens_muted:
  assumes "one_listens pv"
  shows "one_listens (muted pv)"
proof -
  have "snd (session_view (muted pv) ! i) = False" if "i < length (pv_sessions pv)" for i
    using assms that
    by (cases "i = current_session pv") (auto simp: one_listens_def session_view_nth muted_def Let_def)
  then show ?thesis by (simp add: one_listens_def)
qed

lemma current_inside: "pv_sessions pv \<noteq> [] \<Longrightarrow> current_session pv < length (pv_sessions pv)"
  by (simp add: current_session_def)

lemma current_mounted: "one_listens pv \<Longrightarrow> pv_mounted pv \<Longrightarrow> current_session pv < length (pv_sessions pv)"
  using current_inside [of pv] by (simp add: one_listens_def)

lemma muted_deaf:
  assumes "one_listens pv" "k < length (pv_sessions pv)"
  shows "\<not> se_listening (pv_sessions (muted pv) ! k)"
  using one_listens_muted [OF assms(1)] assms(2) by (simp add: one_listens_def session_view_nth)

lemma one_listens_cleanup:
  assumes "one_listens pv"
  shows "one_listens (run_cleanup qc c now pv)" and "\<not> pv_mounted (run_cleanup qc c now pv)"
    and "pv_heard (run_cleanup qc c now pv) = pv_heard pv"
proof -
  have "one_listens (run_cleanup qc c now pv) \<and> \<not> pv_mounted (run_cleanup qc c now pv) \<and>
      pv_heard (run_cleanup qc c now pv) = pv_heard pv"
  proof (cases "pv_mounted pv")
    case True
    then have k: "current_session pv < length (pv_sessions (muted pv))"
      using assms current_inside [of pv] by (simp add: one_listens_def)
    then show ?thesis
      using one_listens_stream_step [OF one_listens_muted [OF assms] k] stream_step_view(2,3) [OF k]
        muted_deaf [OF assms] by (simp add: run_cleanup_muted [OF True])
  next
    case False
    then show ?thesis using assms by (simp add: run_cleanup_def)
  qed
  then show "one_listens (run_cleanup qc c now pv)" "\<not> pv_mounted (run_cleanup qc c now pv)"
    "pv_heard (run_cleanup qc c now pv) = pv_heard pv" by simp_all
qed

definition opened_session :: "int \<Rightarrow> 'c provider \<Rightarrow> 'c provider" where
  "opened_session now pv =
     (let (ls, announced) = log_session_start (pv_announced pv);
          se = \<lparr> se_stream = new_live_stream, se_logger = new_frame_logger, se_listening = True \<rparr>
      in pv\<lparr> pv_sessions := pv_sessions pv @ [se], pv_mounted := True, pv_announced := announced,
             pv_log := record_lines now ls (pv_log pv) \<rparr>)"

lemma run_effect_opened:
  "enabled \<Longrightarrow> connectable me \<Longrightarrow>
   run_effect qc c enabled me ok j now pv =
     stream_step qc c (length (pv_sessions pv)) now (Connect ok j) (opened_session now pv)"
  by (simp add: run_effect_def opened_session_def Let_def split: prod.split)

lemma opened_session_simps [simp]:
  "pv_sessions (opened_session now pv) = pv_sessions pv @
     [\<lparr> se_stream = new_live_stream, se_logger = new_frame_logger, se_listening = True \<rparr>]"
  "pv_mounted (opened_session now pv)" "pv_heard (opened_session now pv) = pv_heard pv"
  "pv_cache (opened_session now pv) = pv_cache pv" "pv_last_frame_at (opened_session now pv) = pv_last_frame_at pv"
  by (simp_all add: opened_session_def Let_def split: prod.split)

lemma one_listens_opened:
  assumes "one_listens pv" "\<not> pv_mounted pv"
  shows "one_listens (opened_session now pv)"
  using assms by (auto simp: one_listens_def session_view_nth current_session_def nth_append less_Suc_eq)

lemma one_listens_effect:
  assumes "one_listens pv" "\<not> pv_mounted pv"
  shows "one_listens (run_effect qc c enabled me ok j now pv)"
    and "pv_heard (run_effect qc c enabled me ok j now pv) = pv_heard pv"
proof -
  have k: "length (pv_sessions pv) < length (pv_sessions (opened_session now pv))" by simp
  have quiet: "told_frames (news c (Connect ok j) new_live_stream) = []"
    using tells_news(1) [OF tells_step] by simp
  have "one_listens (run_effect qc c enabled me ok j now pv) \<and>
      pv_heard (run_effect qc c enabled me ok j now pv) = pv_heard pv"
  proof (cases "enabled \<and> connectable me")
    case True
    then show ?thesis
      using one_listens_stream_step [OF one_listens_opened [OF assms] k] stream_step_view(3) [OF k] quiet
      by (simp add: run_effect_opened)
  next
    case False
    then show ?thesis using assms(1) by (simp add: run_effect_def)
  qed
  then show "one_listens (run_effect qc c enabled me ok j now pv)"
    "pv_heard (run_effect qc c enabled me ok j now pv) = pv_heard pv" by simp_all
qed

lemma one_listens_cache: "one_listens (pv\<lparr> pv_cache := c \<rparr>) = one_listens pv"
  by (simp add: one_listens_def session_view_def current_session_def)

lemma one_listens_step:
  assumes "one_listens pv" "provider_enabled e pv"
  shows "one_listens (provider_step qc c (now, e) pv)"
proof (cases e)
  case (DepsChanged enabled me ok j)
  then show ?thesis
    using one_listens_effect(1) [OF one_listens_cleanup(1,2)] assms(1) by simp
next
  case ProviderUnmounted
  then show ?thesis using one_listens_cleanup(1) [OF assms(1)] by simp
next
  case (Browser k ev)
  then show ?thesis using one_listens_stream_step [OF assms(1)] assms(2) by simp
next
  case (Returned visible ok j)
  then have "current_session pv < length (pv_sessions pv)"
    using assms current_mounted [OF assms(1)] by simp
  then show ?thesis using Returned one_listens_stream_step [OF assms(1)] assms(1) by simp
qed (use assms(1) in \<open>simp_all add: one_listens_cache\<close>)

lemma one_listens_reach: "provider_reach qc c cache pv \<Longrightarrow> one_listens pv"
proof (induction rule: provider_reach.induct)
  case provider_init
  then show ?case by (simp add: one_listens_def new_provider_def)
next
  case (provider_next pv e)
  then show ?case using one_listens_step by blast
qed

section \<open>Frames are heard once, by the mounted session\<close>

fun frames_due :: "provider_event \<Rightarrow> 'c provider \<Rightarrow> server_frame list" where
  "frames_due (Browser k e) pv =
     (if pv_mounted pv \<and> k = current_session pv then frame_news e (se_stream (pv_sessions pv ! k)) else [])"
| "frames_due _ pv = []"

lemma heard_step:
  assumes "one_listens pv" "provider_enabled e pv"
  shows "pv_heard (provider_step qc c (now, e) pv) = pv_heard pv @ map (Pair now) (frames_due e pv)"
proof (cases e)
  case (DepsChanged enabled me ok j)
  then show ?thesis
    using one_listens_effect(2) [OF one_listens_cleanup(1,2) [OF assms(1)]] one_listens_cleanup(3) [OF assms(1)]
    by simp
next
  case ProviderUnmounted
  then show ?thesis using one_listens_cleanup(3) [OF assms(1)] by simp
next
  case (Browser k ev)
  then have k: "k < length (pv_sessions pv)" and "ev \<noteq> Close" using assms(2) by auto
  then have "told_frames (news c ev (se_stream (pv_sessions pv ! k))) = frame_news ev (se_stream (pv_sessions pv ! k))"
    using tells_news(1) [OF tells_step] by blast
  moreover have "se_listening (pv_sessions pv ! k) = (pv_mounted pv \<and> k = current_session pv)"
    using assms(1) k by (simp add: one_listens_def session_view_nth)
  moreover note stream_step_view(3) [OF k, of qc c now ev]
  ultimately show ?thesis using Browser by (cases "pv_mounted pv \<and> k = current_session pv") auto
next
  case (Returned visible ok j)
  then have k: "current_session pv < length (pv_sessions pv)"
    using assms current_mounted [OF assms(1)] by simp
  have "told_frames (news c (Resume ok j) s) = []" for s
    using tells_news(1) [OF tells_step] by simp
  then show ?thesis using Returned stream_step_view(3) [OF k] by simp
qed simp_all

section \<open>The story of a run\<close>

text \<open>
  A run's story is read off its events, not off what the listeners do: a frame due to be heard, a socket
  of the mounted session opening, and what the rest of the console does to the cache.
\<close>

datatype story_entry =
    Heard int server_frame
  | Connected
  | Written qkey qdata
  | Dropped qkey
  | Asked "qkey \<Rightarrow> bool"

fun connects_due :: "provider_event \<Rightarrow> 'c provider \<Rightarrow> nat" where
  "connects_due (Browser k e) pv =
     (if pv_mounted pv \<and> k = current_session pv then connect_news e (se_stream (pv_sessions pv ! k)) else 0)"
| "connects_due _ pv = 0"

fun done_elsewhere :: "provider_event \<Rightarrow> story_entry list" where
  "done_elsewhere (Answered k v) = [Written k v]"
| "done_elsewhere (Evicted k) = [Dropped k]"
| "done_elsewhere (Invalidated f) = [Asked f]"
| "done_elsewhere _ = []"

definition story_due :: "int \<Rightarrow> provider_event \<Rightarrow> 'c provider \<Rightarrow> story_entry list" where
  "story_due now e pv =
     map (Heard now) (frames_due e pv) @ replicate (connects_due e pv) Connected @ done_elsewhere e"

inductive provider_story :: "'c query_client \<Rightarrow> live_config \<Rightarrow> 'c \<Rightarrow> story_entry list \<Rightarrow> 'c provider \<Rightarrow> bool"
  for qc c cache where
  story_init: "provider_story qc c cache [] (new_provider cache new_log_store)"
| story_next: "provider_story qc c cache l pv \<Longrightarrow> provider_enabled e pv \<Longrightarrow>
    provider_story qc c cache (l @ story_due now e pv) (provider_step qc c (now, e) pv)"

lemma story_reach: "provider_story qc c cache l pv \<Longrightarrow> provider_reach qc c cache pv"
  by (induction rule: provider_story.induct) (auto intro: provider_init provider_next)

lemma reach_story: "provider_reach qc c cache pv \<Longrightarrow> \<exists>l. provider_story qc c cache l pv"
  by (induction rule: provider_reach.induct) (auto intro: story_init story_next)

text \<open>What one entry of the story means for the data under a key, and whether it asks for its refetch.\<close>

fun entry_effect :: "qkey \<Rightarrow> story_entry \<Rightarrow> qdata option \<Rightarrow> qdata option" where
  "entry_effect q (Heard now f) old = frame_effect f q old"
| "entry_effect q Connected old = old"
| "entry_effect q (Written k v) old = (if q = k then Some v else old)"
| "entry_effect q (Dropped k) old = (if q = k then None else old)"
| "entry_effect q (Asked f) old = old"

fun entry_asks :: "qkey \<Rightarrow> story_entry \<Rightarrow> bool" where
  "entry_asks q (Heard now f) = frame_asks f q"
| "entry_asks q Connected = (is_tracks_key q \<or> is_detections_key q \<or> q = KHealth)"
| "entry_asks q (Written k v) = False"
| "entry_asks q (Dropped k) = False"
| "entry_asks q (Asked f) = f q"

fun heard_time :: "story_entry \<Rightarrow> int option" where
  "heard_time (Heard now f) = Some now"
| "heard_time _ = None"

definition last_heard :: "story_entry list \<Rightarrow> int option" where
  "last_heard l = fold (\<lambda>e old. case heard_time e of None \<Rightarrow> old | Some t \<Rightarrow> Some t) l None"

section \<open>The cache and the age of the screen\<close>

definition heard_entries :: "int \<Rightarrow> live_effect list \<Rightarrow> story_entry list" where
  "heard_entries now es = map (Heard now) (told_frames es) @ replicate (told_connects es) Connected"

definition screen_ok :: "'c query_client \<Rightarrow> ('c \<Rightarrow> qkey \<Rightarrow> nat) \<Rightarrow> 'c \<Rightarrow> story_entry list \<Rightarrow> 'c provider \<Rightarrow> bool" where
  "screen_ok qc asked cache l pv \<longleftrightarrow>
     (\<forall>q. qc_get qc (pv_cache pv) q = fold (entry_effect q) l (qc_get qc cache q)) \<and>
     (\<forall>q. asked (pv_cache pv) q = asked cache q + length (filter (entry_asks q) l)) \<and>
     pv_last_frame_at pv = last_heard l"

lemma screen_ok_same:
  "pv_cache p = pv_cache pv \<Longrightarrow> pv_last_frame_at p = pv_last_frame_at pv \<Longrightarrow>
   screen_ok qc asked cache l p = screen_ok qc asked cache l pv"
  by (simp add: screen_ok_def)

lemma fold_connected [simp]: "(entry_effect q Connected ^^ n) old = old"
  by (induction n) simp_all

lemma fold_heard [simp]: "fold (entry_effect q) (map (Heard now) fs) old = fold (\<lambda>f. frame_effect f q) fs old"
  by (induction fs arbitrary: old) simp_all

lemma last_heard_append [simp]:
  "last_heard (l @ map (Heard now) fs @ replicate n Connected) = (if fs = [] then last_heard l else Some now)"
proof -
  have "fold (\<lambda>e old. case heard_time e of None \<Rightarrow> old | Some t \<Rightarrow> Some t) (replicate n Connected) old = old" for old
    by (induction n) simp_all
  moreover have "fold (\<lambda>e old. case heard_time e of None \<Rightarrow> old | Some t \<Rightarrow> Some t) (map (Heard now) fs) old =
      (if fs = [] then old else Some now)" for old
    by (induction fs arbitrary: old) simp_all
  ultimately show ?thesis by (simp add: last_heard_def)
qed

context refetching_cache
begin

lemma delivered_asks:
  "asked (pv_cache (fold (deliver qc k now) es pv)) q =
     asked (pv_cache pv) q + length (filter (entry_asks q) (heard_entries now es))"
proof (induction es arbitrary: pv)
  case (Cons e es)
  show ?case
  proof (cases e)
    case (NotifyConnect again)
    then show ?thesis using Cons
      by (cases q) (simp_all add: on_stream_connect_def asked_invalidate heard_entries_def)
  next
    case (NotifyFrame f)
    then show ?thesis using Cons by (simp add: on_stream_frame_def Let_def apply_frame_asks heard_entries_def)
  qed (use Cons in \<open>simp_all add: on_stream_state_def heard_entries_def\<close>)
qed (simp add: heard_entries_def)

lemma screen_ok_stream_step:
  assumes "screen_ok qc asked cache l pv"
  shows "screen_ok qc asked cache
    (l @ (if se_listening (pv_sessions pv ! k) then heard_entries now (news c e (se_stream (pv_sessions pv ! k))) else []))
    (stream_step qc c k now e pv)"
proof -
  define es where "es = news c e (se_stream (pv_sessions pv ! k))"
  define pv1 where "pv1 = pv\<lparr> pv_sessions := (pv_sessions pv)[k := (pv_sessions pv ! k)
    \<lparr> se_stream := live_step c e (se_stream (pv_sessions pv ! k)) \<rparr>] \<rparr>"
  have pv1: "screen_ok qc asked cache l pv1" using assms by (simp add: screen_ok_def pv1_def)
  have "screen_ok qc asked cache (l @ heard_entries now es) (fold (deliver qc k now) es pv1)"
    using pv1 by (simp add: screen_ok_def delivered_cache delivered_asks delivered_last_frame heard_entries_def)
  then show ?thesis using pv1 by (simp add: stream_step_def Let_def es_def pv1_def)
qed

lemma screen_ok_cleanup:
  assumes "screen_ok qc asked cache l pv" "one_listens pv"
  shows "screen_ok qc asked cache l (run_cleanup qc c now pv)"
proof (cases "pv_mounted pv")
  case True
  have "screen_ok qc asked cache l (muted pv)" using assms(1) by (simp add: screen_ok_def)
  from screen_ok_stream_step [OF this] muted_deaf [OF assms(2) current_mounted [OF assms(2) True]]
  show ?thesis by (metis (full_types) append_Nil2 run_cleanup_muted [OF True])
qed (use assms(1) in \<open>simp add: run_cleanup_def\<close>)

lemma screen_ok_effect:
  assumes "screen_ok qc asked cache l pv"
  shows "screen_ok qc asked cache l (run_effect qc c enabled me ok j now pv)"
proof (cases "enabled \<and> connectable me")
  case True
  have "screen_ok qc asked cache l (opened_session now pv)" using assms by (simp add: screen_ok_def)
  moreover have "heard_entries now (news c (Connect ok j) new_live_stream) = []"
    using tells_news(1,4) [OF tells_step, of "Connect ok j"] by (simp add: heard_entries_def)
  ultimately show ?thesis
    using True screen_ok_stream_step [of cache l "opened_session now pv" "length (pv_sessions pv)" now c "Connect ok j"]
    by (simp add: run_effect_opened)
qed (use assms in \<open>simp add: run_effect_def\<close>)

lemma screen_ok_step:
  assumes ok: "screen_ok qc asked cache l pv" and one: "one_listens pv" and enabled: "provider_enabled e pv"
  shows "screen_ok qc asked cache (l @ story_due now e pv) (provider_step qc c (now, e) pv)"
proof (cases e)
  case (DepsChanged enabled me j r)
  then show ?thesis using screen_ok_effect [OF screen_ok_cleanup [OF ok one]] by (simp add: story_due_def)
next
  case ProviderUnmounted
  then show ?thesis using screen_ok_cleanup [OF ok one] by (simp add: story_due_def)
next
  case (Browser k ev)
  then have "se_listening (pv_sessions pv ! k) = (pv_mounted pv \<and> k = current_session pv)" "ev \<noteq> Close"
    using one enabled by (auto simp: one_listens_def session_view_nth)
  then show ?thesis
    using Browser screen_ok_stream_step [OF ok, of k now c ev] tells_news(1,4) [OF tells_step, of ev]
    by (auto simp: story_due_def heard_entries_def split: if_splits)
next
  case (Returned visible r j)
  have "heard_entries now (news c (Resume r j) s) = []" for s
    using tells_news(1,4) [OF tells_step, of "Resume r j"] by (simp add: heard_entries_def)
  then show ?thesis
    using Returned ok screen_ok_stream_step [OF ok, of "current_session pv" now c "Resume r j"]
    by (auto simp: story_due_def split: if_splits)
qed (use ok in \<open>simp_all add: story_due_def screen_ok_def get_set get_remove get_invalidate asked_invalidate last_heard_def\<close>)

lemma screen_ok_story: "provider_story qc c cache l pv \<Longrightarrow> screen_ok qc asked cache l pv"
proof (induction rule: provider_story.induct)
  case story_init
  then show ?case by (simp add: screen_ok_def new_provider_def last_heard_def)
next
  case (story_next l pv e now)
  note one = one_listens_reach [OF story_reach [OF story_next.hyps(1)]]
  show ?case by (rule screen_ok_step [OF story_next.IH one story_next.hyps(2)])
qed

end

section \<open>A closed stream is never shown\<close>

definition never_closed :: "'c provider \<Rightarrow> bool" where
  "never_closed pv \<longleftrightarrow> (pv_sessions pv \<noteq> [] \<longrightarrow> pv_connection pv \<noteq> Closed)"

lemma connect_tells_state: "\<not> untold (news c (Connect ok j) new_live_stream)"
  by (auto simp: untold_def news_def live_connect_def live_open_def new_live_stream_def live_set_state_def live_emit_def
      schedule_reconnect_def Let_def live_clear_timer_def)

lemma shown_after_step:
  assumes "e \<noteq> Close" "pv_connection pv \<noteq> Closed \<or> \<not> untold (news c e (se_stream (pv_sessions pv ! k))) \<and> se_listening (pv_sessions pv ! k)"
  shows "pv_connection (stream_step qc c k now e pv) \<noteq> Closed"
proof -
  note quiet = tells_news(2) [OF tells_step [OF assms(1)], of c "se_stream (pv_sessions pv ! k)"]
  show ?thesis
    using delivered_connection [OF quiet] assms(2) by (auto simp: stream_step_def Let_def)
qed

lemma cleanup_connection:
  assumes "one_listens pv"
  shows "pv_connection (run_cleanup qc c now pv) = pv_connection pv \<and>
    length (pv_sessions (run_cleanup qc c now pv)) = length (pv_sessions pv)"
proof (cases "pv_mounted pv")
  case True
  then show ?thesis
    using stream_step_deaf [OF muted_deaf [OF assms current_mounted [OF assms]]] by (simp add: run_cleanup_muted)
qed (simp add: run_cleanup_def)

lemma never_closed_reach: "provider_reach qc c cache pv \<Longrightarrow> never_closed pv"
proof (induction rule: provider_reach.induct)
  case provider_init
  then show ?case by (simp add: never_closed_def new_provider_def)
next
  case (provider_next pv e)
  note one = one_listens_reach [OF provider_next.hyps(1)]
  show ?case
  proof (cases e)
    case (DepsChanged enabled me ok j)
    have idle: "never_closed (run_cleanup qc c now pv)" for now
      using provider_next.IH cleanup_connection [OF one, of qc c now] by (auto simp: never_closed_def)
    have "never_closed (run_effect qc c enabled me ok j now (run_cleanup qc c now pv))" for now
    proof (cases "enabled \<and> connectable me")
      case True
      have "pv_connection (stream_step qc c (length (pv_sessions p)) now (Connect ok j) (opened_session now p)) \<noteq> Closed" for p
        by (rule shown_after_step) (simp_all add: connect_tells_state)
      then show ?thesis using True by (simp add: run_effect_opened never_closed_def)
    next
      case False
      then show ?thesis using idle by (simp add: run_effect_def)
    qed
    then show ?thesis using DepsChanged by simp
  next
    case ProviderUnmounted
    then show ?thesis
      using provider_next.IH cleanup_connection [OF one] by (auto simp: never_closed_def simp flip: length_greater_0_conv)
  next
    case (Browser k ev)
    then have "pv_sessions pv \<noteq> []" "ev \<noteq> Close" using provider_next.hyps(2) by auto
    then show ?thesis using Browser provider_next.IH shown_after_step [of ev pv] by (simp add: never_closed_def)
  next
    case (Returned visible ok j)
    then have "pv_sessions pv \<noteq> []" using provider_next.hyps(2) one by (simp add: one_listens_def)
    then show ?thesis using Returned provider_next.IH shown_after_step [of "Resume ok j" pv] by (simp add: never_closed_def)
  qed (use provider_next.IH in \<open>simp_all add: never_closed_def\<close>)
qed

section \<open>A failed retry\<close>

definition retrying :: "live_stream \<Rightarrow> bool" where
  "retrying s \<longleftrightarrow> lv_state s = Reconnecting \<and> lv_ever_connected s \<and> \<not> lv_stopped s \<and> lv_timer s \<noteq> None"

text \<open>The timer fires, and the socket it opens (number \<open>i\<close>) closes without ever opening.\<close>

lemma retry_opens:
  fixes c :: live_config and j :: real
  assumes "retrying s"
  defines "s1 \<equiv> live_step c (TimerFired True j) s"
  shows "news c (TimerFired True j) s = [NewSocket (length (lv_sockets s))]"
    and "lv_sockets s1 = lv_sockets s @ [\<lparr> so_ready = SockConnecting, so_attached = True \<rparr>]"
    and "lv_state s1 = Reconnecting \<and> lv_ever_connected s1 \<and> \<not> lv_stopped s1 \<and> lv_attempt s1 = lv_attempt s"
  using assms by (simp_all add: retrying_def news_def s1_def on_timer_def live_open_def Let_def)

lemma retry_fails:
  assumes "lv_state s = Reconnecting" "lv_ever_connected s" "\<not> lv_stopped s" "so_attached (lv_sockets s ! i)"
    and "i < length (lv_sockets s)"
  shows "news c (SocketClosed i j) s = []" and "retrying (live_step c (SocketClosed i j) s)"
    and "lv_attempt (live_step c (SocketClosed i j) s) = Suc (lv_attempt s)"
  using assms
  by (simp_all add: retrying_def news_def attached_def with_ready_def on_socket_close_def schedule_reconnect_def Let_def)

primrec failed_retries :: "'c query_client \<Rightarrow> live_config \<Rightarrow> int \<Rightarrow> real \<Rightarrow> nat \<Rightarrow> 'c provider \<Rightarrow> 'c provider" where
  "failed_retries qc c now j 0 pv = pv"
| "failed_retries qc c now j (Suc n) pv =
     (let k = current_session pv; i = length (lv_sockets (se_stream (pv_sessions pv ! k)))
      in failed_retries qc c now j n
           (provider_step qc c (now, Browser k (SocketClosed i j))
             (provider_step qc c (now, Browser k (TimerFired True j)) pv)))"

definition waiting_to_retry :: "'c provider \<Rightarrow> bool" where
  "waiting_to_retry pv \<longleftrightarrow> current_session pv < length (pv_sessions pv) \<and>
     se_listening (pv_sessions pv ! current_session pv) \<and> retrying (se_stream (pv_sessions pv ! current_session pv))"

definition attempts_made :: "'c provider \<Rightarrow> nat" where
  "attempts_made pv = lv_attempt (se_stream (pv_sessions pv ! current_session pv))"

lemma one_failed_retry:
  fixes c :: live_config and j :: real and now :: int and pv :: "'c provider" and qc :: "'c query_client"
  assumes "waiting_to_retry pv"
  defines "k \<equiv> current_session pv"
  defines "i \<equiv> length (lv_sockets (se_stream (pv_sessions pv ! k)))"
  defines "pv2 \<equiv> provider_step qc c (now, Browser k (SocketClosed i j))
    (provider_step qc c (now, Browser k (TimerFired True j)) pv)"
  shows "waiting_to_retry pv2 \<and> attempts_made pv2 = Suc (attempts_made pv) \<and>
    pv_attempt pv2 = pv_attempt pv \<and> pv_connection pv2 = pv_connection pv"
proof -
  let ?s = "se_stream (pv_sessions pv ! k)"
  define s1 where "s1 = live_step c (TimerFired True j) ?s"
  define pv1 where "pv1 = provider_step qc c (now, Browser k (TimerFired True j)) pv"
  have k: "k < length (pv_sessions pv)" "se_listening (pv_sessions pv ! k)" "retrying ?s"
    using assms(1) by (simp_all add: waiting_to_retry_def k_def)
  note opens = retry_opens [OF k(3), of c j, folded s1_def]
  have pv1: "pv1 = pv\<lparr> pv_sessions := (pv_sessions pv)[k := (pv_sessions pv ! k)\<lparr> se_stream := s1 \<rparr>] \<rparr>"
    using k(2) opens(1) by (simp add: pv1_def stream_step_def s1_def Let_def)
  have at: "se_stream (pv_sessions pv1 ! k) = s1" "se_listening (pv_sessions pv1 ! k)"
    using k by (simp_all add: pv1)
  have "so_attached (lv_sockets s1 ! i)" "i < length (lv_sockets s1)" by (simp_all add: opens(2) i_def)
  note fails = retry_fails [OF _ _ _ this, of c j]
  have "pv2 = pv1\<lparr> pv_sessions := (pv_sessions pv1)[k := (pv_sessions pv1 ! k)\<lparr> se_stream := live_step c (SocketClosed i j) s1 \<rparr>] \<rparr>"
    using at fails(1) opens(3) unfolding pv2_def pv1_def [symmetric] by (simp add: stream_step_def Let_def)
  then show ?thesis
    using k fails(2,3) opens(3) at
    by (simp add: pv1 waiting_to_retry_def attempts_made_def current_session_def k_def)
qed

section \<open>Properties\<close>

text \<open>C4: The screen shows what was heard and fetched, no more and no less, through reconnects, sign-outs and
  any number of streams. For every run, with the refetches, evictions, writes and invalidations of the
  rest of the console at any point in between: the data under each key of the query cache is what the
  frames handed to the provider, the answers written and the entries dropped so far make of the
  initial data, in their order; a refetch of a key has been asked for exactly once per opened socket
  of the mounted session if it is a track, a track list, a detections list or the health, plus what
  the frames themselves ask for (captures after a capture's status, a sweep and the bands after a
  sweep that stopped running) and what other views asked for; and the age of the screen is the time of the last
  frame.\<close>

theorem screen_shows_what_was_heard:
  assumes "query_client_laws qc" and "refetch_laws qc asked" and "provider_story qc c cache l pv"
  shows "qc_get qc (pv_cache pv) q = fold (entry_effect q) l (qc_get qc cache q) \<and>
    asked (pv_cache pv) q = asked cache q + length (filter (entry_asks q) l) \<and>
    pv_last_frame_at pv = last_heard l"
proof -
  have "refetching_cache qc asked" by unfold_locales (rule assms(1), rule assms(2))
  from refetching_cache.screen_ok_story [OF this assms(3)] show ?thesis by (simp add: screen_ok_def)
qed

definition console_run :: "(int \<times> provider_event) list \<Rightarrow> ((qkey \<times> qdata) list \<times> (qkey \<Rightarrow> bool) list) provider" where
  "console_run evs = fold (provider_step counting_client default_config) evs (new_provider ([], []) new_log_store)"

lemma console_run_reach:
  "list_all (\<lambda>n. provider_enabled (snd (evs ! n)) (console_run (take n evs))) [0..<length evs] \<Longrightarrow>
   provider_reach counting_client default_config ([], []) (console_run evs)"
proof (induction evs rule: rev_induct)
  case Nil
  then show ?case by (simp add: console_run_def provider_init)
next
  case (snoc e evs)
  have "list_all (\<lambda>n. provider_enabled (snd (evs ! n)) (console_run (take n evs))) [0..<length evs]"
    using snoc.prems by (auto simp: list_all_iff nth_append)
  moreover have "provider_enabled (snd e) (console_run evs)" using snoc.prems by (simp add: list_all_iff)
  ultimately show ?case using snoc.IH provider_next [of _ _ _ _ "snd e" "fst e"]
    by (simp add: console_run_def)
qed

lemmas console_eval = console_run_def new_provider_def run_effect_def run_cleanup_def stream_step_def news_def connectable_def
  log_session_start_def current_session_def on_stream_connect_def on_stream_frame_def on_stream_state_def
  live_eval record_lines_def

definition signed_in :: "auth_me option" where
  "signed_in = Some \<lparr> am_authenticated = True, am_auth_enabled = True, am_setup_required = False, am_role = Some ''viewer'' \<rparr>"

definition first_minute :: "(int \<times> provider_event) list" where
  "first_minute = [(1, DepsChanged True signed_in True 1), (2, Browser 0 (SocketOpened 0))]"

lemma first_minute_reach: "provider_reach counting_client default_config ([], []) (console_run first_minute)"
  by (rule console_run_reach) (simp add: first_minute_def upt_rec console_eval signed_in_def Let_def)

definition hearing :: "(int \<times> provider_event) list" where
  "hearing = first_minute @ [(3, Browser 0 (SocketMessage 0 (Parsed (TrackClosed ''t1''))))]"

lemma hearing_reach: "provider_reach counting_client default_config ([], []) (console_run hearing)"
  by (rule console_run_reach)
    (simp add: hearing_def first_minute_def upt_rec console_eval signed_in_def Let_def)

lemma hearing_heard: "pv_heard (console_run hearing) = [(3, TrackClosed ''t1'')]"
  by (simp add: hearing_def first_minute_def console_eval signed_in_def Let_def)

text \<open>The tracks answer, the stream drops and comes back, and a track closes.\<close>

definition coming_back :: "(int \<times> provider_event) list" where
  "coming_back = first_minute @ [(3, Answered KHealth (QHealth sample_health)), (4, Browser 0 (SocketClosed 0 1)),
     (5, Browser 0 (TimerFired True 1)), (6, Browser 0 (SocketOpened 1)),
     (7, Browser 0 (SocketMessage 1 (Parsed (TrackClosed ''t1''))))]"

fun console_story :: "(int \<times> provider_event) list \<Rightarrow> ((qkey \<times> qdata) list \<times> (qkey \<Rightarrow> bool) list) provider \<Rightarrow> story_entry list" where
  "console_story [] pv = []"
| "console_story (e # evs) pv =
     story_due (fst e) (snd e) pv @ console_story evs (provider_step counting_client default_config e pv)"

fun console_allows :: "(int \<times> provider_event) list \<Rightarrow> ((qkey \<times> qdata) list \<times> (qkey \<Rightarrow> bool) list) provider \<Rightarrow> bool" where
  "console_allows [] pv = True"
| "console_allows (e # evs) pv \<longleftrightarrow> provider_enabled (snd e) pv \<and>
     console_allows evs (provider_step counting_client default_config e pv)"

lemma console_story_told:
  "provider_story counting_client default_config cache l pv \<Longrightarrow> console_allows evs pv \<Longrightarrow>
   provider_story counting_client default_config cache (l @ console_story evs pv)
     (fold (provider_step counting_client default_config) evs pv)"
proof (induction evs arbitrary: l pv)
  case (Cons e evs)
  then show ?case using story_next [OF Cons.prems(1), of "snd e" "fst e"] by (simp flip: append_assoc)
qed simp

theorem screen_shows_what_was_heard_witness:
  "map_of (fst (pv_cache (console_run coming_back))) KHealth = Some (QHealth sample_health) \<and>
   times_asked (pv_cache (console_run coming_back)) (KTracks None) = 2 \<and>
   times_asked (pv_cache (console_run coming_back)) KBands = 0 \<and>
   pv_last_frame_at (console_run coming_back) = Some 7"
proof -
  let ?l = "[Connected, Written KHealth (QHealth sample_health), Connected, Heard 7 (TrackClosed ''t1'')]"
  let ?p = "new_provider ([], []) new_log_store"
  have "console_allows coming_back ?p" "console_story coming_back ?p = ?l"
    by (simp_all add: coming_back_def first_minute_def console_eval signed_in_def Let_def story_due_def)
  then have "provider_story counting_client default_config ([], []) ?l (console_run coming_back)"
    using console_story_told [OF story_init, of coming_back "([], [])"] by (simp add: console_run_def)
  note shown = screen_shows_what_was_heard [OF counting_client_laws counting_client_asks this]
  show ?thesis using shown [of KHealth] shown [of "KTracks None"] shown [of KBands]
    by (simp add: counting_client_def case_prod_unfold times_asked_def last_heard_def)
qed

text \<open>C7: No frame is applied twice, lost or taken from a stale socket: in every reachable state an event hands
  the provider a frame exactly when it is a parsed message other than a ping, on a socket whose
  handlers are attached, of the stream of the session mounted now; then the frame is heard once,
  at the time of the event, and nothing else ever is.\<close>

theorem frames_heard_once:
  assumes "provider_reach qc c cache pv" and "provider_enabled e pv"
  shows "pv_heard (provider_step qc c (now, e) pv) = pv_heard pv @ map (Pair now) (frames_due e pv)"
  using heard_step [OF one_listens_reach [OF assms(1)] assms(2)] .

theorem frames_heard_once_witness:
  "pv_heard (provider_step counting_client default_config
     (3, Browser 0 (SocketMessage 0 (Parsed (TrackClosed ''t1'')))) (console_run first_minute)) = [(3, TrackClosed ''t1'')]"
proof -
  let ?e = "Browser 0 (SocketMessage 0 (Parsed (TrackClosed ''t1'')))"
  have "provider_enabled ?e (console_run first_minute)"
    "frames_due ?e (console_run first_minute) = [TrackClosed ''t1'']" "pv_heard (console_run first_minute) = []"
    by (simp_all add: first_minute_def console_eval signed_in_def Let_def)
  then show ?thesis using frames_heard_once [OF first_minute_reach, of ?e 3] by simp
qed

text \<open>A session that was signed out of or replaced cannot reach the console any more: whatever its sockets
  and timers still do, in every reachable state, they change neither the cache nor the log, the
  connection shown, the attempt shown nor the age of the screen.\<close>

theorem old_sessions_are_silent:
  assumes reach: "provider_reach qc c cache pv" and enabled: "provider_enabled (Browser k e) pv"
    and old: "\<not> (pv_mounted pv \<and> k = current_session pv)" and pv': "pv' = provider_step qc c (now, Browser k e) pv"
  shows "pv_cache pv' = pv_cache pv \<and> pv_log pv' = pv_log pv \<and> pv_connection pv' = pv_connection pv \<and>
    pv_attempt pv' = pv_attempt pv \<and> pv_last_frame_at pv' = pv_last_frame_at pv"
proof -
  have "\<not> se_listening (pv_sessions pv ! k)"
    using one_listens_reach [OF reach] enabled old by (auto simp: one_listens_def session_view_nth)
  then show ?thesis using stream_step_deaf [of pv k qc c now e] pv' by simp
qed

definition signed_out :: "(int \<times> provider_event) list" where
  "signed_out = first_minute @ [(3, DepsChanged True None True 1)]"

lemma signed_out_reach: "provider_reach counting_client default_config ([], []) (console_run signed_out)"
  by (rule console_run_reach)
    (simp add: signed_out_def first_minute_def upt_rec console_eval signed_in_def Let_def)

theorem old_sessions_are_silent_witness:
  "pv_log (provider_step counting_client default_config (4, Browser 0 (SocketClosed 0 1)) (console_run signed_out)) =
     pv_log (console_run signed_out)"
proof -
  have "provider_enabled (Browser 0 (SocketClosed 0 1)) (console_run signed_out)" "\<not> pv_mounted (console_run signed_out)"
    by (simp_all add: signed_out_def first_minute_def console_eval signed_in_def Let_def)
  then show ?thesis using old_sessions_are_silent [OF signed_out_reach _ _ refl] by blast
qed

text \<open>The console never shows that its stream was closed: the cleanup takes the state listener off before
  it closes the stream, so after a sign-out the stream is closed while the connection shown is still
  what it was before, and once a stream was made the connection shown is never "closed" again.\<close>

theorem closing_is_never_shown:
  assumes "provider_reach qc c cache pv" and "pv_mounted pv"
  shows "pv_connection (provider_step qc c (now, ProviderUnmounted) pv) = pv_connection pv \<and>
    pv_connection pv \<noteq> Closed \<and>
    lv_state (se_stream (pv_sessions (provider_step qc c (now, ProviderUnmounted) pv) ! current_session pv)) = Closed"
proof (intro conjI)
  note one = one_listens_reach [OF assms(1)]
  have k: "current_session pv < length (pv_sessions pv)" by (rule current_mounted [OF one assms(2)])
  show "pv_connection (provider_step qc c (now, ProviderUnmounted) pv) = pv_connection pv"
    using cleanup_connection [OF one] by simp
  show "pv_connection pv \<noteq> Closed"
    using never_closed_reach [OF assms(1)] k by (auto simp: never_closed_def)
  have "lv_state (live_close s) = Closed" for s by (simp add: live_close_def Let_def)
  then show "lv_state (se_stream (pv_sessions (provider_step qc c (now, ProviderUnmounted) pv) ! current_session pv)) = Closed"
    using stream_step_deaf [OF muted_deaf [OF one k], of qc c now Close] k
    by (simp add: run_cleanup_muted [OF assms(2)])
qed

theorem closing_is_never_shown_witness:
  "pv_connection (provider_step counting_client default_config (3, ProviderUnmounted) (console_run first_minute)) = Open"
proof -
  have "pv_mounted (console_run first_minute)" "pv_connection (console_run first_minute) = Open"
    by (simp_all add: first_minute_def console_eval signed_in_def Let_def)
  then show ?thesis using closing_is_never_shown [OF first_minute_reach] by simp
qed

text \<open>The attempt the console shows freezes: once a stream that had been open is retrying, any number of
  failed retries leaves the state shown and the attempt shown as they were, because the stream only
  notifies a change of state, while the attempts it has made go up by one each time.\<close>

theorem shown_attempt_freezes:
  assumes "waiting_to_retry pv"
  shows "attempts_made (failed_retries qc c now j n pv) = attempts_made pv + n \<and>
    pv_attempt (failed_retries qc c now j n pv) = pv_attempt pv \<and>
    pv_connection (failed_retries qc c now j n pv) = pv_connection pv"
  using assms
proof (induction n arbitrary: pv)
  case (Suc n)
  from one_failed_retry [OF Suc.prems, of qc c now j] Suc.IH show ?case
    unfolding failed_retries.simps Let_def by auto
qed simp

definition dropped :: "(int \<times> provider_event) list" where
  "dropped = first_minute @ [(3, Browser 0 (SocketClosed 0 1))]"

theorem shown_attempt_freezes_witness:
  "attempts_made (failed_retries counting_client default_config 4 1 9 (console_run dropped)) = 10 \<and>
   pv_attempt (failed_retries counting_client default_config 4 1 9 (console_run dropped)) = 1"
proof -
  have "waiting_to_retry (console_run dropped)" "attempts_made (console_run dropped) = 1" "pv_attempt (console_run dropped) = 1"
    by (simp_all add: dropped_def first_minute_def console_eval signed_in_def Let_def waiting_to_retry_def retrying_def
        attempts_made_def)
  then show ?thesis using shown_attempt_freezes [of "console_run dropped"] by simp
qed

end
