(* ===== verification/Units.thy ===== *)
theory Units
  imports Format
begin

text \<open>
  \<open>lib/units.ts\<close> and \<open>app/use-format.ts\<close>: the operator's units, coordinate formats and time stamps,
  over the preference-free texts of \<open>Format\<close>. The wire is SI; a conversion happens when a value is
  written. The three \<open>Intl.DateTimeFormat\<close> objects belong to the browser and are parameters. Then
  the noisy-OR of \<open>lib/detection-classes.ts\<close>. Numbers are reals, so no reading is \<open>NaN\<close>.
\<close>

section \<open>Unit systems\<close>

datatype unit_system = Metric | Imperial | Aviation

definition feet_per_metre :: real where "feet_per_metre = 3.280839895013123"
definition knots_per_mps :: real where "knots_per_mps = 1.9438444924406046"
definition mph_per_mps :: real where "mph_per_mps = 2.2369362920544025"
definition nm_per_metre :: real where "nm_per_metre = 1 / 1852"
definition miles_per_metre :: real where "miles_per_metre = 1 / 1609.344"

record converted =
  cv_value :: real
  cv_unit :: string
  cv_digits :: nat

definition convert_length :: "real \<Rightarrow> unit_system \<Rightarrow> converted" where
  "convert_length metres system =
     (if system = Metric then \<lparr> cv_value = metres, cv_unit = ''m'', cv_digits = 1 \<rparr>
      else \<lparr> cv_value = metres * feet_per_metre, cv_unit = ''ft'', cv_digits = 0 \<rparr>)"

definition convert_range :: "real \<Rightarrow> unit_system \<Rightarrow> converted" where
  "convert_range metres system =
     (case system of
        Metric \<Rightarrow>
          if 1000 \<le> metres then \<lparr> cv_value = metres / 1000, cv_unit = ''km'', cv_digits = 2 \<rparr>
          else \<lparr> cv_value = metres, cv_unit = ''m'', cv_digits = 0 \<rparr>
      | Aviation \<Rightarrow>
          if 1852 \<le> metres then \<lparr> cv_value = metres * nm_per_metre, cv_unit = ''NM'', cv_digits = 2 \<rparr>
          else \<lparr> cv_value = metres * feet_per_metre, cv_unit = ''ft'', cv_digits = 0 \<rparr>
      | Imperial \<Rightarrow>
          if 1609.344 \<le> metres then \<lparr> cv_value = metres * miles_per_metre, cv_unit = ''mi'', cv_digits = 2 \<rparr>
          else \<lparr> cv_value = metres * feet_per_metre, cv_unit = ''ft'', cv_digits = 0 \<rparr>)"

definition convert_speed :: "real \<Rightarrow> unit_system \<Rightarrow> converted" where
  "convert_speed mps system =
     (case system of
        Metric \<Rightarrow> \<lparr> cv_value = mps, cv_unit = ''m/s'', cv_digits = 1 \<rparr>
      | Aviation \<Rightarrow> \<lparr> cv_value = mps * knots_per_mps, cv_unit = ''kt'', cv_digits = 0 \<rparr>
      | Imperial \<Rightarrow> \<lparr> cv_value = mps * mph_per_mps, cv_unit = ''mph'', cv_digits = 0 \<rparr>)"

definition convert_altitude_feet :: "real \<Rightarrow> unit_system \<Rightarrow> converted" where
  "convert_altitude_feet feet system =
     (if system = Metric then \<lparr> cv_value = feet / feet_per_metre, cv_unit = ''m'', cv_digits = 0 \<rparr>
      else \<lparr> cv_value = feet, cv_unit = ''ft'', cv_digits = 0 \<rparr>)"

definition render_converted :: "converted \<Rightarrow> string" where
  "render_converted c = format_number (cv_digits c) (cv_unit c) (Some (cv_value c))"

record unit_labels =
  ul_length :: string
  ul_range :: string
  ul_speed :: string

definition unit_labels_of :: "unit_system \<Rightarrow> unit_labels" where
  "unit_labels_of system =
     \<lparr> ul_length = (if system = Metric then ''m'' else ''ft''),
       ul_range = (if system = Metric then ''km'' else if system = Aviation then ''NM'' else ''mi''),
       ul_speed = (if system = Metric then ''m/s'' else if system = Aviation then ''kt'' else ''mph'') \<rparr>"

section \<open>Coordinates\<close>

datatype coord_format = Decimal_Degrees | Dms | Ddm
datatype coord_axis = Latitude | Longitude

definition dms_parts :: "real \<Rightarrow> int \<times> int \<times> real" where
  "dms_parts value =
     (let a = \<bar>value\<bar>; deg = \<lfloor>a\<rfloor>; min_float = (a - of_int deg) * 60; minute = \<lfloor>min_float\<rfloor>
      in (deg, minute, (min_float - of_int minute) * 60))"

definition hemisphere :: "coord_axis \<Rightarrow> real \<Rightarrow> string" where
  "hemisphere axis value =
     (case axis of Latitude \<Rightarrow> if 0 \<le> value then ''N'' else ''S''
      | Longitude \<Rightarrow> if 0 \<le> value then ''E'' else ''W'')"

definition single_quote :: char where "single_quote = CHR 0x27"
definition double_quote :: char where "double_quote = CHR 0x22"

definition format_coordinate :: "real \<Rightarrow> coord_axis \<Rightarrow> coord_format \<Rightarrow> string" where
  "format_coordinate value axis fmt =
     (if fmt = Decimal_Degrees then to_fixed 6 value
      else
        let (deg, minute, sec) = dms_parts value;
            pad = (if axis = Latitude then 2 else 3);
            degrees = pad_start pad (string_of_int deg) @ degree_sign
        in if fmt = Ddm
           then degrees @ pad_start 6 (to_fixed 3 (of_int minute + sec / 60)) @
             single_quote # CHR '' '' # hemisphere axis value
           else degrees @ pad_start 2 (string_of_int minute) @ single_quote #
             pad_start 4 (to_fixed 1 sec) @ double_quote # CHR '' '' # hemisphere axis value)"

definition format_coordinate_pair :: "real \<Rightarrow> real \<Rightarrow> coord_format \<Rightarrow> string" where
  "format_coordinate_pair lat lon fmt =
     format_coordinate lat Latitude fmt @ '', '' @ format_coordinate lon Longitude fmt"

section \<open>The formatters of a component\<close>

datatype clock_format = Hours_24 | Hours_12
datatype zone_mode = Local_Zone | Utc_Zone
datatype timestamp_style = Relative_Style | Absolute_Style | Both_Styles

record format_preferences =
  fp_units :: unit_system
  fp_coord_format :: coord_format
  fp_clock :: clock_format
  fp_zone :: zone_mode
  fp_style :: timestamp_style

text \<open>Which of the three formatters of the browser writes an instant.\<close>

datatype intl_shape = Clock_Shape | Brief_Shape | Stamp_Shape

type_synonym intl = "intl_shape \<Rightarrow> clock_format \<Rightarrow> zone_mode \<Rightarrow> int \<Rightarrow> string"

definition in_units :: "(real \<Rightarrow> unit_system \<Rightarrow> converted) \<Rightarrow> format_preferences \<Rightarrow> real option \<Rightarrow> string" where
  "in_units convert p value =
     (case value of None \<Rightarrow> empty_text | Some v \<Rightarrow> render_converted (convert v (fp_units p)))"

definition fmt_length :: "format_preferences \<Rightarrow> real option \<Rightarrow> string" where
  "fmt_length p value = in_units convert_length p value"

definition fmt_range :: "format_preferences \<Rightarrow> real option \<Rightarrow> string" where
  "fmt_range p value = in_units convert_range p value"

definition fmt_speed :: "format_preferences \<Rightarrow> real option \<Rightarrow> string" where
  "fmt_speed p value = in_units convert_speed p value"

definition fmt_altitude_feet :: "format_preferences \<Rightarrow> real option \<Rightarrow> string" where
  "fmt_altitude_feet p value = in_units convert_altitude_feet p value"

definition fmt_coords :: "format_preferences \<Rightarrow> real \<Rightarrow> real \<Rightarrow> string" where
  "fmt_coords p lat lon = format_coordinate_pair lat lon (fp_coord_format p)"

definition parse_instant :: "string option \<Rightarrow> int option" where
  "parse_instant stamp = (if truthy stamp then date_parse (nullish stamp []) else None)"

definition fmt_instant :: "intl \<Rightarrow> intl_shape \<Rightarrow> format_preferences \<Rightarrow> string option \<Rightarrow> string" where
  "fmt_instant intl shape p stamp =
     (case parse_instant stamp of None \<Rightarrow> empty_text | Some t \<Rightarrow> intl shape (fp_clock p) (fp_zone p) t)"

definition fmt_when :: "intl \<Rightarrow> format_preferences \<Rightarrow> int \<Rightarrow> string option \<Rightarrow> string" where
  "fmt_when intl p now stamp =
     (if \<not> truthy stamp then empty_text
      else (case fp_style p of
          Relative_Style \<Rightarrow> format_relative stamp now
        | Absolute_Style \<Rightarrow> fmt_instant intl Clock_Shape p stamp
        | Both_Styles \<Rightarrow>
            let absolute = fmt_instant intl Clock_Shape p stamp
            in if absolute = empty_text then empty_text
               else absolute @ '' ('' @ format_relative stamp now @ '')''))"

definition zone_label :: "format_preferences \<Rightarrow> string" where
  "zone_label p = (if fp_zone p = Utc_Zone then ''UTC'' else ''local'')"

section \<open>Corroboration\<close>

record detection_class_info =
  dci_code :: detection_class
  dci_short :: string
  dci_label :: string
  dci_signal :: string
  dci_sensor :: string
  dci_default_weight :: "real option"
  dci_justification :: string

text \<open>The colours of a class's chip are the style sheet's and left out.\<close>

fun detection_classes :: "detection_class \<Rightarrow> detection_class_info" where
  "detection_classes ClassA =
     \<lparr> dci_code = ClassA, dci_short = ''Remote ID'', dci_label = ''ASTM F3411 Remote ID'',
       dci_signal = ''Wi-Fi Beacon vendor IE'', dci_sensor = ''Wi-Fi'', dci_default_weight = Some 0.6,
       dci_justification =
         ''Standards-compliant, self-identifying, structured.'' \<rparr>"
| "detection_classes ClassB =
     \<lparr> dci_code = ClassB, dci_short = ''DJI DroneID'', dci_label = ''DJI DroneID'',
       dci_signal = ''Wi-Fi vendor IE, OUI 26:37:12'', dci_sensor = ''Wi-Fi'', dci_default_weight = Some 0.5,
       dci_justification =
         ''Vendor-specific but unambiguous.'' \<rparr>"
| "detection_classes ClassC =
     \<lparr> dci_code = ClassC, dci_short = ''OUI/SSID'', dci_label = ''Wi-Fi OUI / SSID fingerprint'',
       dci_signal = ''MAC prefix or SSID pattern'', dci_sensor = ''Wi-Fi'', dci_default_weight = Some 0.1,
       dci_justification =
         ''Weakest evidence. MAC randomisation and OUI reuse cause errors; an OUI alone is a hint, not a detection.'' \<rparr>"
| "detection_classes ClassD =
     \<lparr> dci_code = ClassD, dci_short = ''ADS-B'', dci_label = ''ADS-B manned traffic'',
       dci_signal = ''1090 MHz Mode S extended squitter'', dci_sensor = ''SDR'', dci_default_weight = None,
       dci_justification =
         ''Never contributes to confidence. Used for airspace context and to suppress energy-only false positives.'' \<rparr>"
| "detection_classes ClassE =
     \<lparr> dci_code = ClassE, dci_short = ''Control link'', dci_label = ''Control-link cadence'',
       dci_signal = ''433 / 868 / 915 MHz burst pattern'', dci_sensor = ''SDR'', dci_default_weight = Some 0.3,
       dci_justification =
         ''Strong but inferential; ISM clutter is real.'' \<rparr>"
| "detection_classes ClassF =
     \<lparr> dci_code = ClassF, dci_short = ''Analog FPV'', dci_label = ''Analog FPV video downlink'',
       dci_signal = ''1.2 / 1.3 GHz carrier envelope'', dci_sensor = ''SDR'', dci_default_weight = Some 0.25,
       dci_justification =
         ''Distinctive, but shares bands with other services.'' \<rparr>"
| "detection_classes ClassG =
     \<lparr> dci_code = ClassG, dci_short = ''BLE Remote ID'', dci_label = ''ASTM F3411 Remote ID over Bluetooth LE'',
       dci_signal = ''BT4 legacy / BT5 long-range advertisement'', dci_sensor = ''BLE'', dci_default_weight = Some 0.6,
       dci_justification =
         ''Same payload semantics as Class A.'' \<rparr>"
| "detection_classes ClassH =
     \<lparr> dci_code = ClassH, dci_short = ''GNSS'', dci_label = ''GNSS interference indicator'',
       dci_signal = ''L1 noise floor elevation'', dci_sensor = ''SDR'', dci_default_weight = None,
       dci_justification =
         ''Environmental indicator; backlog.'' \<rparr>"

definition default_weight :: "detection_class \<Rightarrow> real option" where
  "default_weight c = dci_default_weight (detection_classes c)"

definition noisy_or :: "real list \<Rightarrow> real" where
  "noisy_or weights =
     (let product = fold (\<lambda>w acc. acc * (1 - w)) weights 1
      in of_int (js_round ((1 - product) * 1000)) / 1000)"

section \<open>Printed numbers\<close>

lemma digits_value_zeros: "digits_value (replicate k (CHR ''0'') @ ds) = digits_value ds"
proof -
  have "((*) 10 ^^ k) (0::int) = 0" by (induction k) simp_all
  then show ?thesis by (simp add: digits_value_def digit_value_zero)
qed

lemma digits_value_pad: "digits_value (pad_start k (digits_of_nat n)) = real n"
  by (simp add: pad_start_def digits_value_zeros digits_of_nat_value)

lemma is_digit_zero [simp]: "is_digit (CHR ''0'')"
  by (simp add: is_digit_def digit_value_zero)

lemma pad_digits: "list_all is_digit (pad_start k (digits_of_nat n))"
  using digits_of_nat_digits [of n] by (auto simp: pad_start_def list_all_iff)

lemma not_digit [simp]:
  "\<not> is_digit (CHR ''.'')" "\<not> is_digit (CHR ''-'')" "\<not> is_digit (CHR ''+'')" "\<not> is_digit single_quote"
  "\<not> is_digit (CHR 0xC2)"
  by (simp_all add: is_digit_def digit_value_def single_quote_def)

lemma span_digits:
  assumes "list_all is_digit w"
  shows "\<not> is_digit c \<Longrightarrow> takeWhile is_digit (w @ c # r) = w" "\<not> is_digit c \<Longrightarrow> dropWhile is_digit (w @ c # r) = c # r"
    "takeWhile is_digit w = w" "dropWhile is_digit w = []"
  using assms by (induction w) simp_all

text \<open>What \<open>Number\<close> reads from plain decimal digits, and the digits \<open>toFixed\<close> writes.\<close>

lemma decimal_number_digits:
  assumes "w \<noteq> []" "list_all is_digit w"
  shows "list_all is_digit f \<Longrightarrow> decimal_number ((if neg then ''-'' else '''') @ w @ CHR ''.'' # f) =
      Some ((if neg then - 1 else 1) * (digits_value w + digits_value f / 10 ^ length f))"
    and "decimal_number w = Some (digits_value w)" "decimal_number (CHR ''-'' # w) = Some (- digits_value w)"
proof -
  have "is_digit (hd w)" using assms by (cases w) simp_all
  then have "hd w \<noteq> CHR ''-''" "hd w \<noteq> CHR ''+''" by auto
  then have sign: "read_sign (w @ s) = (False, w @ s)" for s
    using assms(1) by (cases w) (simp_all add: read_sign_def)
  have minus: "read_sign (CHR ''-'' # s) = (True, s)" for s by (simp add: read_sign_def)
  have "read_exponent [] = Some 0" by (simp add: read_exponent_def)
  then show "list_all is_digit f \<Longrightarrow> decimal_number ((if neg then ''-'' else '''') @ w @ CHR ''.'' # f) =
      Some ((if neg then - 1 else 1) * (digits_value w + digits_value f / 10 ^ length f))"
    "decimal_number w = Some (digits_value w)" "decimal_number (CHR ''-'' # w) = Some (- digits_value w)"
    using assms sign sign [of "[]"]
    by (simp_all add: decimal_number_def minus span_digits digits_value_def Let_def)
qed

lemma to_fixed_digits:
  obtains w f where
    "to_fixed d x = (if x < 0 then ''-'' else '''') @ digits_of_nat w @ (if d = 0 then [] else CHR ''.'' # f)"
    and "list_all is_digit f" "length f = d"
    and "real w + digits_value f / 10 ^ d = of_int (js_round (\<bar>x\<bar> * 10 ^ d)) / 10 ^ d"
proof
  let ?n = "nat (js_round (\<bar>x\<bar> * 10 ^ d))"
  let ?f = "if d = 0 then [] else pad_start d (digits_of_nat (?n mod 10 ^ d))"
  show "to_fixed d x = (if x < 0 then ''-'' else '''') @ digits_of_nat (?n div 10 ^ d) @
      (if d = 0 then [] else CHR ''.'' # ?f)"
    by (simp add: to_fixed_def Let_def)
  show "list_all is_digit ?f" by (simp add: pad_digits)
  have "0 < d \<Longrightarrow> length (digits_of_nat (?n mod 10 ^ d)) \<le> d"
    using length_digits_of_nat [of d "?n mod 10 ^ d"] by simp
  then show "length ?f = d" by (simp add: pad_start_def)
  have "0 \<le> js_round (\<bar>x\<bar> * 10 ^ d)" by (simp add: js_round_def)
  then have "real ?n = of_int (js_round (\<bar>x\<bar> * 10 ^ d))" by simp
  moreover have "real (n div 10 ^ d * 10 ^ d + n mod 10 ^ d) = real n" for n
    by (simp only: div_mult_mod_eq)
  ultimately have sum: "real (?n div 10 ^ d) * 10 ^ d + real (?n mod 10 ^ d) = of_int (js_round (\<bar>x\<bar> * 10 ^ d))"
    unfolding of_nat_add of_nat_mult of_nat_power of_nat_numeral by (simp only:)
  have "digits_value ?f = real (?n mod 10 ^ d)"
    using digits_value_pad by (simp add: digits_value_def [of "[]"])
  moreover have "W * p + F = N \<Longrightarrow> p \<noteq> 0 \<Longrightarrow> W + F / p = N / p" for W p F N :: real
    by (simp add: field_simps)
  ultimately show "real (?n div 10 ^ d) + digits_value ?f / 10 ^ d = of_int (js_round (\<bar>x\<bar> * 10 ^ d)) / 10 ^ d"
    using sum by simp
qed

lemma rounded_near:
  fixes y :: real
  shows "\<bar>of_int (js_round (y * 10 ^ d)) / 10 ^ d - y\<bar> \<le> 1 / (2 * 10 ^ d)"
proof -
  have "\<bar>of_int (js_round z) - z\<bar> \<le> 1 / 2" for z :: real unfolding js_round_def by linarith
  then have "\<bar>of_int (js_round (y * 10 ^ d)) - y * 10 ^ d\<bar> / 10 ^ d \<le> (1 / 2) / 10 ^ d"
    by (intro divide_right_mono) simp_all
  moreover have "of_int (js_round (y * 10 ^ d)) / 10 ^ d - y = (of_int (js_round (y * 10 ^ d)) - y * 10 ^ d) / 10 ^ d"
    by (simp add: diff_divide_distrib)
  ultimately show ?thesis by (simp add: abs_divide)
qed

text \<open>A printed number read by \<open>Number\<close> is within half a last digit, leading zeros or not.\<close>

lemma to_fixed_reads:
  shows "\<exists>v. decimal_number (to_fixed d x) = Some v \<and> \<bar>v - x\<bar> \<le> 1 / (2 * 10 ^ d)"
    and "0 \<le> x \<Longrightarrow> \<exists>v. decimal_number (pad_start k (to_fixed d x)) = Some v \<and> \<bar>v - x\<bar> \<le> 1 / (2 * 10 ^ d)"
proof -
  obtain w f where
    t: "to_fixed d x = (if x < 0 then ''-'' else '''') @ digits_of_nat w @ (if d = 0 then [] else CHR ''.'' # f)"
      "list_all is_digit f" "length f = d"
    and v: "real w + digits_value f / 10 ^ d = of_int (js_round (\<bar>x\<bar> * 10 ^ d)) / 10 ^ d"
    by (rule to_fixed_digits)
  let ?v = "real w + digits_value f / 10 ^ d"
  have near: "\<bar>?v - \<bar>x\<bar>\<bar> \<le> 1 / (2 * 10 ^ d)"
    unfolding v by (rule rounded_near)
  have plain: "d = 0 \<Longrightarrow> ?v = real w" using t(3) by (simp add: digits_value_def)
  have "decimal_number (to_fixed d x) = Some ((if x < 0 then - 1 else 1) * ?v)"
    using t plain decimal_number_digits(2,3) [OF digits_of_nat_ne [of w] digits_of_nat_digits [of w]]
      decimal_number_digits(1) [OF digits_of_nat_ne [of w] digits_of_nat_digits [of w] t(2), of "x < 0"]
    by (cases "d = 0"; cases "x < 0") (simp_all add: digits_of_nat_value)
  moreover have "\<bar>(if x < 0 then - 1 else 1) * ?v - x\<bar> = \<bar>?v - \<bar>x\<bar>\<bar>"
    by auto
  ultimately show "\<exists>v. decimal_number (to_fixed d x) = Some v \<and> \<bar>v - x\<bar> \<le> 1 / (2 * 10 ^ d)"
    using near by auto
  assume pos: "0 \<le> x"
  obtain z where z: "z = replicate (k - length (to_fixed d x)) (CHR ''0'') @ digits_of_nat w" by blast
  have "pad_start k (to_fixed d x) = z @ (if d = 0 then [] else CHR ''.'' # f)"
    using t(1) pos by (simp add: pad_start_def z)
  moreover have "z \<noteq> []" "digits_value z = real w"
    by (simp_all add: z digits_of_nat_ne digits_value_zeros digits_of_nat_value)
  moreover have "list_all is_digit z"
    using digits_of_nat_digits [of w] by (auto simp: z list_all_iff)
  ultimately have "decimal_number (pad_start k (to_fixed d x)) = Some ?v"
    using decimal_number_digits(2) [of z] decimal_number_digits(1) [of z f False] t plain by simp
  then show "\<exists>v. decimal_number (pad_start k (to_fixed d x)) = Some v \<and> \<bar>v - x\<bar> \<le> 1 / (2 * 10 ^ d)"
    using near pos by simp
qed

text \<open>The characters of a printed number that is not negative.\<close>

lemma to_fixed_chars:
  assumes "0 \<le> x" "c \<in> set (pad_start k (to_fixed d x))"
  shows "is_digit c \<or> c = CHR ''.''"
proof -
  have digits: "c \<in> set (digits_of_nat n) \<Longrightarrow> is_digit c" for n
    using digits_of_nat_digits [of n] by (simp add: list_all_iff)
  have padded: "c \<in> set (pad_start j s) \<Longrightarrow> c = CHR ''0'' \<or> c \<in> set s" for j s
    by (auto simp: pad_start_def)
  let ?n = "nat (js_round (\<bar>x\<bar> * 10 ^ d))"
  obtain a b where ab: "a = ?n div 10 ^ d" "b = ?n mod 10 ^ d" by blast
  have "to_fixed d x = digits_of_nat a @ (if d = 0 then [] else CHR ''.'' # pad_start d (digits_of_nat b))"
    using assms(1) unfolding ab by (simp add: to_fixed_def Let_def)
  then have "c = CHR ''0'' \<or> c \<in> set (digits_of_nat a) \<or> c = CHR ''.'' \<or> c \<in> set (digits_of_nat b)"
    using padded [OF assms(2)] padded [of d "digits_of_nat b"] by (auto split: if_splits)
  then show ?thesis using digits by auto
qed

section \<open>Coordinates read back\<close>

text \<open>
  The angle a reader takes from a printed coordinate: degrees up to the sign, minutes up to the
  quote, seconds up to the double quote if there is one, and the hemisphere letter at the end.
\<close>

definition read_angle :: "string \<Rightarrow> real option" where
  "read_angle t =
     (let degrees = takeWhile is_digit t;
          r = drop 2 (dropWhile is_digit t);
          minutes = takeWhile (\<lambda>c. c \<noteq> single_quote) r;
          after = tl (dropWhile (\<lambda>c. c \<noteq> single_quote) r);
          sign = (if last t \<in> {CHR ''S'', CHR ''W''} then - 1 else 1)
      in (case (decimal_number degrees, decimal_number minutes) of
            (Some d, Some m) \<Rightarrow>
              if double_quote \<in> set after
              then map_option (\<lambda>s. sign * (d + m / 60 + s / 3600))
                (decimal_number (takeWhile (\<lambda>c. c \<noteq> double_quote) after))
              else Some (sign * (d + m / 60))
          | _ \<Rightarrow> None))"

lemma whole_text:
  assumes "0 \<le> i"
  shows "decimal_number (pad_start k (string_of_int i)) = Some (of_int i)"
    "list_all is_digit (pad_start k (string_of_int i))"
proof -
  have t: "pad_start k (string_of_int i) = pad_start k (digits_of_nat (nat i))"
    using assms by (simp add: string_of_int_def)
  then show "list_all is_digit (pad_start k (string_of_int i))" by (simp add: pad_digits)
  show "decimal_number (pad_start k (string_of_int i)) = Some (of_int i)"
    unfolding t using decimal_number_digits(2) [OF _ pad_digits, of k "nat i"] assms
      digits_value_pad [of k "nat i"] digits_of_nat_ne [of "nat i"]
    by (simp add: pad_start_def)
qed

lemma hemisphere_sign:
  "hemisphere axis v = [last (hemisphere axis v)]"
  "(if last (hemisphere axis v) \<in> {CHR ''S'', CHR ''W''} then - 1 else 1) * \<bar>v\<bar> = v"
  "last (hemisphere axis v) \<noteq> double_quote"
  by (cases axis; simp add: hemisphere_def double_quote_def)+

lemma read_angle_text:
  assumes "list_all is_digit ds" "decimal_number ds = Some d"
    and "single_quote \<notin> set ms" "decimal_number ms = Some m"
    and "h = hemisphere axis v" "s = (if last h \<in> {CHR ''S'', CHR ''W''} then - 1 else 1)"
  shows "read_angle (ds @ degree_sign @ ms @ single_quote # CHR '' '' # h) = Some (s * (d + m / 60))"
    and "double_quote \<notin> set ss \<Longrightarrow> decimal_number ss = Some x \<Longrightarrow>
      read_angle (ds @ degree_sign @ ms @ single_quote # ss @ double_quote # CHR '' '' # h) =
        Some (s * (d + m / 60 + x / 3600))"
proof -
  obtain l where l: "h = [l]" "l \<noteq> double_quote"
    using hemisphere_sign(1,3) [of axis v] assms(5) by metis
  have spans: "takeWhile (\<lambda>c. c \<noteq> q) (xs @ q # ys) = xs" "dropWhile (\<lambda>c. c \<noteq> q) (xs @ q # ys) = q # ys"
    if "q \<notin> set xs" for q :: char and xs ys using that by (induction xs) auto
  have [simp]: "CHR '' '' \<noteq> double_quote" "double_quote \<noteq> CHR '' ''" "takeWhile is_digit (ds @ CHR 0xC2 # r) = ds"
    "dropWhile is_digit (ds @ CHR 0xC2 # r) = CHR 0xC2 # r" for r
    using assms(1) by (simp_all add: double_quote_def span_digits)
  show "read_angle (ds @ degree_sign @ ms @ single_quote # CHR '' '' # h) = Some (s * (d + m / 60))"
    using assms(2-4,6) l by (simp add: read_angle_def degree_sign_def spans Let_def)
  show "read_angle (ds @ degree_sign @ ms @ single_quote # ss @ double_quote # CHR '' '' # h) =
        Some (s * (d + m / 60 + x / 3600))" if "double_quote \<notin> set ss" "decimal_number ss = Some x"
    using assms(2-4,6) l that by (simp add: read_angle_def degree_sign_def spans Let_def)
qed

lemma dms_parts_sum:
  assumes "dms_parts v = (deg, minute, sec)"
  shows "0 \<le> deg" "0 \<le> minute" "minute < 60" "0 \<le> sec" "sec < 60"
    "\<bar>v\<bar> = of_int deg + of_int minute / 60 + sec / 3600"
proof -
  let ?f = "(\<bar>v\<bar> - of_int deg) * 60"
  have p: "deg = \<lfloor>\<bar>v\<bar>\<rfloor>" "minute = \<lfloor>?f\<rfloor>" "sec = (?f - of_int minute) * 60"
    using assms by (auto simp: dms_parts_def Let_def)
  show "0 \<le> deg" using p(1) by simp
  have "of_int deg \<le> \<bar>v\<bar>" "\<bar>v\<bar> < of_int deg + 1" unfolding p(1) by linarith+
  then have f: "0 \<le> ?f" "?f < 60" by simp_all
  then show "0 \<le> minute" "minute < 60" using p(2) by linarith+
  have "of_int minute \<le> ?f" "?f < of_int minute + 1" unfolding p(2) by linarith+
  then show "0 \<le> sec" "sec < 60" using p(3) by simp_all
  show "\<bar>v\<bar> = of_int deg + of_int minute / 60 + sec / 3600" using p(3) by (simp add: field_simps)
qed

text \<open>C26: Every coordinate format names the coordinate it was given: a reader of the decimal text,
  of degrees and minutes, or of degrees, minutes and seconds gets the value back within half a unit
  of the last digit printed, on both axes and in both hemispheres.\<close>

theorem coordinate_text_reads_back:
  "\<exists>d m s. decimal_number (format_coordinate v axis Decimal_Degrees) = Some d \<and> \<bar>d - v\<bar> \<le> 1 / 2000000 \<and>
     read_angle (format_coordinate v axis Ddm) = Some m \<and> \<bar>m - v\<bar> \<le> 1 / 120000 \<and>
     read_angle (format_coordinate v axis Dms) = Some s \<and> \<bar>s - v\<bar> \<le> 1 / 72000"
proof -
  obtain deg minute sec where p: "dms_parts v = (deg, minute, sec)" by (cases "dms_parts v")
  note parts = dms_parts_sum [OF p]
  let ?sign = "(if last (hemisphere axis v) \<in> {CHR ''S'', CHR ''W''} then - 1 else 1) :: real"
  let ?ds = "pad_start (if axis = Latitude then 2 else 3) (string_of_int deg)"
  note whole = whole_text [OF parts(1)] whole_text [OF parts(2)]
  have sign: "\<bar>?sign * a - v\<bar> = \<bar>a - \<bar>v\<bar>\<bar>" for a :: real
    using hemisphere_sign(2) [of axis v] by (auto split: if_splits)
  have quotes: "single_quote \<notin> set (pad_start k (to_fixed n x))" "double_quote \<notin> set (pad_start k (to_fixed n x))"
    if "0 \<le> x" for k n x
    using to_fixed_chars [OF that, of single_quote] to_fixed_chars [OF that, of double_quote]
    by (auto simp: single_quote_def double_quote_def is_digit_def digit_value_def)
  obtain d where "decimal_number (format_coordinate v axis Decimal_Degrees) = Some d" "\<bar>d - v\<bar> \<le> 1 / 2000000"
    using to_fixed_reads(1) [of 6 v] by (auto simp: format_coordinate_def)
  moreover
  have m: "0 \<le> of_int minute + sec / 60" using parts by simp
  obtain m where m': "decimal_number (pad_start 6 (to_fixed 3 (of_int minute + sec / 60))) = Some m"
    "\<bar>m - (of_int minute + sec / 60)\<bar> \<le> 1 / 2000"
    using to_fixed_reads(2) [OF m, of 6 3] by auto
  have "read_angle (format_coordinate v axis Ddm) = Some (?sign * (of_int deg + m / 60))"
    using read_angle_text(1) [OF whole(2,1) quotes(1) [OF m] m'(1) refl refl]
    by (simp add: format_coordinate_def p)
  moreover have "\<bar>?sign * (of_int deg + m / 60) - v\<bar> \<le> 1 / 120000"
    unfolding sign parts(6) using m'(2) by linarith
  moreover
  obtain x where x: "decimal_number (pad_start 4 (to_fixed 1 sec)) = Some x" "\<bar>x - sec\<bar> \<le> 1 / 20"
    using to_fixed_reads(2) [OF parts(4), of 4 1] by auto
  have minute_text: "single_quote \<notin> set (pad_start 2 (string_of_int minute))"
    using whole(4) [of 2] not_digit(4) by (auto simp: list_all_iff)
  have "read_angle (format_coordinate v axis Dms) = Some (?sign * (of_int deg + of_int minute / 60 + x / 3600))"
    using read_angle_text(2) [OF whole(2,1) minute_text whole(3) refl refl quotes(2) [OF parts(4)] x(1)]
    by (simp add: format_coordinate_def p)
  moreover have "\<bar>?sign * (of_int deg + of_int minute / 60 + x / 3600) - v\<bar> \<le> 1 / 72000"
    unfolding sign parts(6) using x(2) by linarith
  ultimately show ?thesis by blast
qed

section \<open>Measurements read back\<close>

text \<open>What one of a unit is, in metres or metres per second.\<close>

definition unit_size :: "string \<Rightarrow> real" where
  "unit_size u =
     (if u = ''km'' then 1000 else if u = ''NM'' then 1852 else if u = ''mi'' then 1609.344
      else if u = ''ft'' then 0.3048 else if u = ''kt'' then 1852 / 3600 else if u = ''mph'' then 0.44704 else 1)"

lemma unit_sizes:
  "unit_size ''m'' = 1" "unit_size ''km'' = 1000" "unit_size ''NM'' = 1852" "unit_size ''mi'' = 1609.344"
  "unit_size ''ft'' = 0.3048" "unit_size ''m/s'' = 1" "unit_size ''kt'' = 1852 / 3600" "unit_size ''mph'' = 0.44704"
  by (simp_all add: unit_size_def)

text \<open>The text of a converted value names the SI value \<open>v\<close>: within half a last digit of the unit, and
  what the decimal conversion factors are off by.\<close>

definition reads_as :: "converted \<Rightarrow> real \<Rightarrow> bool" where
  "reads_as c v \<longleftrightarrow>
     (\<exists>x. decimal_number (takeWhile (\<lambda>b. b \<noteq> CHR 0xC2) (render_converted c)) = Some x \<and>
        \<bar>x * unit_size (cv_unit c) - v\<bar> \<le> unit_size (cv_unit c) / (2 * 10 ^ cv_digits c) + \<bar>v\<bar> / 10 ^ 12)"

lemma reads_as_conversion:
  assumes "cv_unit c \<noteq> []" "\<bar>cv_value c * unit_size (cv_unit c) - v\<bar> \<le> \<bar>v\<bar> / 10 ^ 12"
  shows "reads_as c v"
proof -
  let ?t = "to_fixed (cv_digits c) (cv_value c)"
  obtain w f where t: "?t = (if cv_value c < 0 then ''-'' else '''') @ digits_of_nat w @
      (if cv_digits c = 0 then [] else CHR ''.'' # f)" "list_all is_digit f"
    by (rule to_fixed_digits)
  have "CHR 0xC2 \<notin> set ?t"
    using t digits_of_nat_digits [of w] not_digit(5) by (auto simp: list_all_iff)
  moreover have "takeWhile (\<lambda>b. b \<noteq> CHR 0xC2) (xs @ CHR 0xC2 # ys) = xs" if "CHR 0xC2 \<notin> set xs" for xs ys
    using that by (induction xs) auto
  ultimately have shown: "takeWhile (\<lambda>b. b \<noteq> CHR 0xC2) (render_converted c) = ?t"
    using assms(1) by (simp add: render_converted_def format_number_def nbsp_def)
  obtain x where x: "decimal_number ?t = Some x" "\<bar>x - cv_value c\<bar> \<le> 1 / (2 * 10 ^ cv_digits c)"
    using to_fixed_reads(1) by blast
  have "0 < unit_size (cv_unit c)" by (simp add: unit_size_def)
  then have "\<bar>(x - cv_value c) * unit_size (cv_unit c)\<bar> \<le> unit_size (cv_unit c) / (2 * 10 ^ cv_digits c)"
    using mult_right_mono [OF x(2), of "unit_size (cv_unit c)"] by (simp add: abs_mult)
  then have "\<bar>x * unit_size (cv_unit c) - v\<bar> \<le> unit_size (cv_unit c) / (2 * 10 ^ cv_digits c) + \<bar>v\<bar> / 10 ^ 12"
    using assms(2) unfolding left_diff_distrib by linarith
  with x(1) shown show ?thesis by (auto simp: reads_as_def)
qed

lemma off_by:
  fixes v e :: real
  assumes "\<bar>e - 1\<bar> \<le> 1 / 10 ^ 12"
  shows "\<bar>v * e - v\<bar> \<le> \<bar>v\<bar> / 10 ^ 12"
proof -
  have "\<bar>v * e - v\<bar> = \<bar>v\<bar> * \<bar>e - 1\<bar>" by (simp add: abs_mult [symmetric] right_diff_distrib)
  also have "\<dots> \<le> \<bar>v\<bar> * (1 / 10 ^ 12)" by (intro mult_left_mono assms) simp
  finally show ?thesis by simp
qed

text \<open>Whatever unit system the operator chose, a printed length, range, speed or altitude names the
  reading: multiplied by the size of the unit that is printed beside it, the number is within half its
  last digit of the SI value. The coarse unit a range switches to and the six rounded conversion
  factors change nothing an operator could read.\<close>

theorem printed_measures_name_the_reading:
  "reads_as (convert_length v system) v \<and> reads_as (convert_range v system) v \<and>
   reads_as (convert_speed v system) v \<and> reads_as (convert_altitude_feet v system) (v * 0.3048)"
proof (intro conjI)
  have feet: "\<bar>feet_per_metre * 0.3048 - 1\<bar> \<le> 1 / 10 ^ 12"
    by (simp add: feet_per_metre_def)
  have knots: "\<bar>knots_per_mps * (1852 / 3600) - 1\<bar> \<le> 1 / 10 ^ 12"
    by (simp add: knots_per_mps_def)
  have mph: "\<bar>mph_per_mps * 0.44704 - 1\<bar> \<le> 1 / 10 ^ 12"
    by (simp add: mph_per_mps_def)
  have altitude: "\<bar>1 / (feet_per_metre * 0.3048) - 1\<bar> \<le> 1 / 10 ^ 12"
    by (simp add: feet_per_metre_def)
  have shown: "u \<noteq> [] \<Longrightarrow> \<bar>x * unit_size u - a\<bar> \<le> \<bar>a\<bar> / 10 ^ 12 \<Longrightarrow>
      reads_as \<lparr> cv_value = x, cv_unit = u, cv_digits = d \<rparr> a" for u x a d
    by (rule reads_as_conversion) simp_all
  have exact: "x * unit_size u = a \<Longrightarrow> \<bar>x * unit_size u - a\<bar> \<le> \<bar>a\<bar> / 10 ^ 12" for x u a by simp
  have feet_text: "\<bar>v * feet_per_metre * unit_size ''ft'' - v\<bar> \<le> \<bar>v\<bar> / 10 ^ 12"
    using off_by [OF feet, of v] by (simp add: unit_sizes mult.assoc)
  show "reads_as (convert_length v system) v"
    unfolding convert_length_def using shown [OF _ feet_text] shown [OF _ exact]
    by (simp add: unit_sizes)
  show "reads_as (convert_range v system) v"
    unfolding convert_range_def nm_per_metre_def miles_per_metre_def
    using shown [OF _ feet_text] shown [OF _ exact]
    by (cases system) (simp_all add: unit_sizes)
  have "\<bar>v * knots_per_mps * unit_size ''kt'' - v\<bar> \<le> \<bar>v\<bar> / 10 ^ 12"
    "\<bar>v * mph_per_mps * unit_size ''mph'' - v\<bar> \<le> \<bar>v\<bar> / 10 ^ 12"
    using off_by [OF knots, of v] off_by [OF mph, of v] by (simp_all add: unit_sizes mult.assoc)
  then show "reads_as (convert_speed v system) v"
    unfolding convert_speed_def using shown [OF _ exact]
    by (cases system) (simp_all add: shown unit_sizes)
  have "\<bar>v / feet_per_metre * unit_size ''m'' - v * 0.3048\<bar> \<le> \<bar>v * 0.3048\<bar> / 10 ^ 12"
    using off_by [OF altitude, of "v * 0.3048"] by (simp add: unit_sizes)
  then show "reads_as (convert_altitude_feet v system) (v * 0.3048)"
    unfolding convert_altitude_feet_def using shown [OF _ exact]
    by (simp add: shown unit_sizes)
qed

section \<open>Corroboration\<close>

lemma fold_shrink: "fold (\<lambda>w acc. acc * (1 - w)) ws a = a * fold (\<lambda>w acc. acc * (1 - w)) ws (1::real)"
proof (induction ws arbitrary: a)
  case (Cons w ws)
  show ?case using Cons [of "a * (1 - w)"] Cons [of "1 - w"] by simp
qed simp

lemma shrink_range:
  "list_all (\<lambda>w. 0 \<le> w \<and> w \<le> 1) ws \<Longrightarrow>
     0 \<le> fold (\<lambda>w acc. acc * (1 - w)) ws (1::real) \<and> fold (\<lambda>w acc. acc * (1 - w)) ws (1::real) \<le> 1"
proof (induction ws)
  case (Cons w ws)
  then show ?case by (simp add: fold_shrink [of ws "1 - w"] mult_le_one)
qed simp

text \<open>The recomputed confidence is the noisy-OR: for weights between 0 and 1 it lies between 0 and 1,
  is within half a thousandth of \<open>1 - (1 - w\<^sub>1) (1 - w\<^sub>2) \<dots>\<close>, and a further piece of evidence
  never lowers it.\<close>

theorem noisy_or_corroborates:
  assumes "list_all (\<lambda>w. 0 \<le> w \<and> w \<le> 1) (w # ws)"
  shows "0 \<le> noisy_or ws \<and> noisy_or ws \<le> 1 \<and> noisy_or ws \<le> noisy_or (w # ws) \<and>
    \<bar>noisy_or ws - (1 - prod_list (map (\<lambda>w. 1 - w) ws))\<bar> \<le> 1 / 2000"
proof -
  let ?p = "\<lambda>ws. fold (\<lambda>w acc. acc * (1 - w)) ws (1::real)"
  have r: "0 \<le> ?p ws" "?p ws \<le> 1" using shrink_range [of ws] assms by simp_all
  have prod: "?p ws = prod_list (map (\<lambda>w. 1 - w) ws)"
    by (induction ws) (simp_all add: fold_shrink [of _ "1 - _"])
  have mono: "js_round x \<le> js_round y" if "x \<le> y" for x y using that by (simp add: js_round_def floor_mono)
  have js: "js_round 0 = 0" "js_round 1000 = 1000" by (simp_all add: js_round_def floor_eq_iff)
  have "?p (w # ws) = (1 - w) * ?p ws" by (simp add: fold_shrink [of ws "1 - w"])
  also have "\<dots> \<le> ?p ws" using assms r by (simp add: mult_left_le_one_le)
  finally have le: "?p (w # ws) \<le> ?p ws" .
  have "js_round 0 \<le> js_round ((1 - ?p ws) * 1000)" "js_round ((1 - ?p ws) * 1000) \<le> js_round 1000"
    using r by (intro mono; simp)+
  moreover have "js_round ((1 - ?p ws) * 1000) \<le> js_round ((1 - ?p (w # ws)) * 1000)"
    using le by (intro mono) simp
  ultimately show ?thesis
    using rounded_near [of "1 - ?p ws" 3] unfolding js noisy_or_def Let_def prod [symmetric]
    by (simp add: divide_le_cancel)
qed

theorem noisy_or_corroborates_witness:
  "noisy_or [0.6, 0.5] = 0.8 \<and> noisy_or [0.6, 0.5] \<le> noisy_or [0.3, 0.6, 0.5] \<and> noisy_or [0.3, 0.6, 0.5] = 0.86"
  using noisy_or_corroborates [of "0.3" "[0.6, 0.5]"] by (simp add: noisy_or_def js_round_def)

text \<open>Sixty seconds: the seconds are rounded after the minutes were taken off, so a coordinate just below
  a whole minute is printed with \<open>60.0\<close> seconds.\<close>

lemma sixty_seconds_printed:
  "format_coordinate (9 + 59 / 60 + 59.96 / 3600) Latitude Dms =
     ''09'' @ degree_sign @ ''59'' @ single_quote # ''60.0'' @ double_quote # '' N''"
proof -
  have "dms_parts (9 + 59 / 60 + 59.96 / 3600) = (9, 59, 59.96)"
    by (simp add: dms_parts_def Let_def)
  moreover have "string_of_int 9 = ''9''" "string_of_int 59 = ''59''"
    by code_simp+
  moreover have "to_fixed 1 59.96 = digits_of_nat 60 @ ''.'' @ pad_start 1 (digits_of_nat 0)"
    by (simp add: to_fixed_def js_round_def)
  moreover have "digits_of_nat 60 @ ''.'' @ pad_start 1 (digits_of_nat 0) = ''60.0''" by code_simp
  ultimately show ?thesis
    by (simp add: format_coordinate_def hemisphere_def pad_start_def)
qed

end
