(* ===== verification/PathColour.thy ===== *)
theory PathColour
  imports FlightPlayback Units
begin

text \<open>
  \<open>features/map/path-colour.ts\<close> and \<open>features/map/track-map.tsx\<close>: the shaded route of a flight's
  detail page, its hover dots, the colours of its ramp and the legend beside it. A feature of the
  GeoJSON source is a record of its properties and the two ends of its line.
\<close>

section \<open>The shaded route\<close>

datatype path_colour_mode = By_Speed | By_Time | No_Colour

record coloured_segment =
  cs_gap :: bool
  cs_known :: bool
  cs_value :: real
  cs_speed_mps :: "real option"
  cs_line :: "coord \<times> coord"

record dwell_dot =
  dd_seconds :: int
  dd_start_ms :: int
  dd_point :: coord

record coloured_path =
  cp_mode :: path_colour_mode
  cp_segments :: "coloured_segment list"
  cp_dwells :: "dwell_dot list"
  cp_extent :: "(real \<times> real) option"
  cp_unknown :: nat

text \<open>A value's place in the ramp. An extent without width puts it at the top.\<close>

definition normalise :: "real \<Rightarrow> real \<times> real \<Rightarrow> real" where
  "normalise value extent =
     (let span = snd extent - fst extent
      in if span \<le> 0 then 1 else min 1 (max 0 ((value - fst extent) / span)))"

definition raw_value :: "path_colour_mode \<Rightarrow> path_segment \<Rightarrow> real option" where
  "raw_value mode sg =
     (case mode of By_Speed \<Rightarrow> sg_speed_mps sg | By_Time \<Rightarrow> sg_mid_ms sg | No_Colour \<Rightarrow> None)"

definition ramp_extent :: "path_colour_mode \<Rightarrow> position list \<Rightarrow> path_segment list \<Rightarrow> (real \<times> real) option" where
  "ramp_extent mode path segs =
     (case mode of
        By_Speed \<Rightarrow> speed_extent segs
      | By_Time \<Rightarrow> map_option (\<lambda>(a, b). (of_int a, of_int b)) (time_extent path)
      | No_Colour \<Rightarrow> None)"

definition ramp_value :: "path_colour_mode \<Rightarrow> (real \<times> real) option \<Rightarrow> path_segment \<Rightarrow> real option" where
  "ramp_value mode extent sg =
     (case (extent, raw_value mode sg) of
        (Some e, Some raw) \<Rightarrow> if sg_gap sg then None else Some (normalise raw e)
      | _ \<Rightarrow> None)"

definition colour_segment :: "path_colour_mode \<Rightarrow> (real \<times> real) option \<Rightarrow> path_segment \<Rightarrow> coloured_segment" where
  "colour_segment mode extent sg =
     \<lparr> cs_gap = sg_gap sg, cs_known = (ramp_value mode extent sg \<noteq> None),
       cs_value = nullish (ramp_value mode extent sg) 0, cs_speed_mps = sg_speed_mps sg,
       cs_line = (coord_of (sg_from sg), coord_of (sg_to sg)) \<rparr>"

definition dwell_dots :: "position list \<Rightarrow> dwell_dot list" where
  "dwell_dots path =
     map (\<lambda>d. \<lparr> dd_seconds = dw_seconds d, dd_start_ms = dw_start_ms d, dd_point = (dw_lon d, dw_lat d) \<rparr>)
       (dwell_points dwell_max_speed_mps dwell_min_ms path)"

definition coloured_path_of :: "position list \<Rightarrow> path_colour_mode \<Rightarrow> coloured_path" where
  "coloured_path_of path mode =
     (let segs = path_segments path
      in if segs = []
         then \<lparr> cp_mode = mode, cp_segments = [], cp_dwells = [], cp_extent = None, cp_unknown = 0 \<rparr>
         else
           let extent = ramp_extent mode path segs
           in \<lparr> cp_mode = mode, cp_segments = map (colour_segment mode extent) segs,
                cp_dwells = (if mode = By_Speed then dwell_dots path else []),
                cp_extent = extent,
                cp_unknown = length (filter (\<lambda>sg. mode \<noteq> No_Colour \<and> \<not> sg_gap sg \<and>
                  ramp_value mode extent sg = None) segs) \<rparr>)"

definition ramp_steps :: nat where "ramp_steps = 5"

definition ramp_mix_expressions :: "string \<Rightarrow> string \<Rightarrow> string list" where
  "ramp_mix_expressions dull bright =
     map (\<lambda>i. ''color-mix(in oklch, '' @ bright @ '' '' @
         string_of_int (js_round (real i / real (ramp_steps - 1) * 100)) @ ''%, '' @ dull @ '')'')
       [0..<ramp_steps]"

section \<open>The map of one flight\<close>

text \<open>The path rebuilt from detections replaces a shorter history.\<close>

definition plotted_track :: "track \<Rightarrow> position list option \<Rightarrow> track" where
  "plotted_track t path =
     (case path of
        None \<Rightarrow> t
      | Some ps \<Rightarrow> if length (nullish (trk_history t) []) < length ps then t\<lparr> trk_history := Some ps \<rparr> else t)"

definition longest_gap :: "trail_gap list \<Rightarrow> int" where
  "longest_gap gaps = fold (\<lambda>g longest. max longest (tg_seconds g)) gaps 0"

definition gap_legend :: "trail_gap list \<Rightarrow> string option" where
  "gap_legend gaps =
     (if gaps = [] then None
      else Some (''Not heard for '' @ format_duration (of_int (longest_gap gaps)) @
        (if 1 < length gaps then '' ('' @ digits_of_nat (length gaps) @ '' gaps)'' else [])))"

definition en_dash :: string where "en_dash = [CHR 0xE2, CHR 0x80, CHR 0x93]"

text \<open>The lines of the legend under the speed ramp.\<close>

definition speed_legend :: "format_preferences \<Rightarrow> coloured_path \<Rightarrow> string list" where
  "speed_legend p coloured =
     (case cp_extent coloured of
        None \<Rightarrow> [''No point in this flight reported a speed.'']
      | Some (lo, hi) \<Rightarrow>
          [fmt_speed p (Some lo) @ '' '' @ en_dash @ '' '' @ fmt_speed p (Some hi)] @
          (if 0 < cp_unknown coloured
           then [digits_of_nat (cp_unknown coloured) @ '' segments with no reported speed''] else []) @
          (let n = length (cp_dwells coloured)
           in if 0 < n
              then [digits_of_nat n @ '' '' @ (if n = 1 then ''hover'' else ''hovers'') @ '' '' @ em_dash @
                '' sized by how long''] else []))"

section \<open>What the ramp says\<close>

lemma extent_of_snoc:
  "extent_of (xs @ [x]) =
     (case extent_of xs of None \<Rightarrow> Some (x, x) | Some (lo, hi) \<Rightarrow> Some (min lo x, max hi x))"
  by (simp add: extent_of_def)

lemma extent_of_bounds:
  "x \<in> set xs \<Longrightarrow> \<exists>lo hi. extent_of xs = Some (lo, hi) \<and> lo \<le> x \<and> x \<le> hi"
proof (induction xs rule: rev_induct)
  case (snoc y ys)
  show ?case
  proof (cases "extent_of ys")
    case None
    then have "x = y" using snoc by auto
    then show ?thesis using None by (simp add: extent_of_snoc)
  next
    case (Some e)
    then show ?thesis using snoc by (cases e) (fastforce simp: extent_of_snoc min_def max_def)
  qed
qed simp

lemma in_map_filter: "x \<in> set xs \<Longrightarrow> f x = Some y \<Longrightarrow> y \<in> set (List.map_filter f xs)"
  by (induction xs) (auto simp: List.map_filter_def)

lemma normalise_scale:
  assumes "lo \<le> v" "v \<le> hi"
  shows "lo + normalise v (lo, hi) * (hi - lo) = v" "0 \<le> normalise v (lo, hi)" "normalise v (lo, hi) \<le> 1"
proof -
  show "lo + normalise v (lo, hi) * (hi - lo) = v"
  proof (cases "hi \<le> lo")
    case True
    then show ?thesis using assms by (simp add: normalise_def)
  next
    case False
    then have "0 \<le> (v - lo) / (hi - lo)" "(v - lo) / (hi - lo) \<le> 1" using assms by simp_all
    then have "normalise v (lo, hi) = (v - lo) / (hi - lo)" using False by (simp add: normalise_def)
    then show ?thesis using False by simp
  qed
qed (simp_all add: normalise_def)

lemma mean_within:
  fixes lo hi :: real
  assumes "mean_or_either a b = Some m" "\<And>x. a = Some x \<Longrightarrow> lo \<le> x \<and> x \<le> hi"
    and "\<And>x. b = Some x \<Longrightarrow> lo \<le> x \<and> x \<le> hi"
  shows "lo \<le> m \<and> m \<le> hi"
  using assms by (cases a; cases b) (auto simp: mean_or_either_def)

lemma segment_ends:
  assumes "sg \<in> set (path_segments path)"
  shows "sg_from sg \<in> set path" "sg_to sg \<in> set path"
    "sg_mid_ms sg = mean_or_either (map_option of_int (point_ms (sg_from sg))) (map_option of_int (point_ms (sg_to sg)))"
    "sg_gap sg \<Longrightarrow> sg_speed_mps sg = None"
  using assms by (auto simp: path_segments_def Let_def)

text \<open>Every value the ramp is asked for lies in the extent the ramp spans.\<close>

lemma raw_in_extent:
  assumes "sg \<in> set (path_segments path)" "raw_value mode sg = Some raw"
  shows "\<exists>lo hi. ramp_extent mode path (path_segments path) = Some (lo, hi) \<and> lo \<le> raw \<and> raw \<le> hi"
proof (cases mode)
  case By_Speed
  then have "raw \<in> set (List.map_filter sg_speed_mps (path_segments path))"
    using assms in_map_filter [of sg _ sg_speed_mps] by (simp add: raw_value_def)
  then show ?thesis
    using By_Speed extent_of_bounds by (simp add: ramp_extent_def speed_extent_def)
next
  case By_Time
  let ?times = "List.map_filter point_ms path"
  note ends = segment_ends [OF assms(1)]
  have mid: "mean_or_either (map_option of_int (point_ms (sg_from sg))) (map_option of_int (point_ms (sg_to sg))) = Some raw"
    using assms(2) By_Time ends(3) by (simp add: raw_value_def)
  have bound: "\<exists>lo hi. extent_of ?times = Some (lo, hi) \<and> lo \<le> t \<and> t \<le> hi" if "p \<in> set path" "point_ms p = Some t" for p t
    using in_map_filter [of p path point_ms t] that by (intro extent_of_bounds) simp
  obtain lo hi where e: "extent_of ?times = Some (lo, hi)"
    using mid bound [OF ends(1)] bound [OF ends(2)] by (fastforce simp: mean_or_either_def split: option.splits)
  have "of_int lo \<le> x \<and> x \<le> real_of_int hi" if "map_option of_int (point_ms p) = Some x" "p \<in> set path" for p x
    using that bound [of p] e by auto
  then have "of_int lo \<le> raw \<and> raw \<le> of_int hi"
    using mean_within [OF mid] ends(1,2) by blast
  then show ?thesis using By_Time e by (simp add: ramp_extent_def time_extent_def)
qed (use assms in \<open>simp add: raw_value_def\<close>)

text \<open>A feature that says of its segment what was measured, on the scale of the legend.\<close>

definition says_measured ::
  "path_colour_mode \<Rightarrow> (real \<times> real) option \<Rightarrow> path_segment \<Rightarrow> coloured_segment \<Rightarrow> bool" where
  "says_measured mode scale sg f \<longleftrightarrow>
     cs_gap f = sg_gap sg \<and> cs_known f = (\<not> sg_gap sg \<and> raw_value mode sg \<noteq> None) \<and>
     0 \<le> cs_value f \<and> cs_value f \<le> 1 \<and>
     (if cs_known f
      then (case scale of None \<Rightarrow> False
        | Some (lo, hi) \<Rightarrow> raw_value mode sg = Some (lo + cs_value f * (hi - lo)))
      else cs_value f = 0)"

text \<open>The shaded route says only what was measured. It has one feature for every pair of
  neighbouring points; a feature is coloured exactly when its segment has a value and no reception gap,
  the colour's place in the ramp read on the scale the legend prints is the measured value itself,
  places are between 0 and 1, and the legend's count is the number of heard segments left uncoloured.\<close>

theorem coloured_route_is_measured:
  "let c = coloured_path_of path mode; segs = path_segments path
   in list_all2 (says_measured mode (cp_extent c)) segs (cp_segments c) \<and> length segs = length path - 1 \<and>
      cp_unknown c = (if mode = No_Colour then 0 else length (filter (\<lambda>f. \<not> cs_gap f \<and> \<not> cs_known f) (cp_segments c)))"
proof -
  let ?segs = "path_segments path" and ?c = "coloured_path_of path mode"
  let ?e = "ramp_extent mode path ?segs"
  have parts: "cp_segments ?c = map (colour_segment mode ?e) ?segs" "?segs \<noteq> [] \<Longrightarrow> cp_extent ?c = ?e"
    "cp_unknown ?c = length (filter (\<lambda>sg. mode \<noteq> No_Colour \<and> \<not> sg_gap sg \<and> ramp_value mode ?e sg = None) ?segs)"
    by (simp_all add: coloured_path_of_def Let_def)
  have one: "says_measured mode (cp_extent ?c) sg (colour_segment mode ?e sg)" if "sg \<in> set ?segs" for sg
  proof (cases "raw_value mode sg")
    case None
    then show ?thesis by (simp add: says_measured_def colour_segment_def ramp_value_def split: option.split)
  next
    case (Some raw)
    from raw_in_extent [OF that Some] obtain lo hi where e: "?e = Some (lo, hi)" "lo \<le> raw" "raw \<le> hi" by blast
    have "cp_extent ?c = Some (lo, hi)" using parts(2) that e(1) by fastforce
    then show ?thesis
      using Some e normalise_scale [OF e(2,3)]
      by (simp add: says_measured_def colour_segment_def ramp_value_def)
  qed
  have "list_all2 (says_measured mode (cp_extent ?c)) ?segs (map (colour_segment mode ?e) ?segs)"
    unfolding list_all2_map2 by (intro list.rel_refl_strong one)
  moreover have "length ?segs = length path - 1" by (simp add: path_segments_def Let_def)
  moreover have "filter (\<lambda>f. \<not> cs_gap f \<and> \<not> cs_known f) (map (colour_segment mode ?e) ?segs) =
      map (colour_segment mode ?e) (filter (\<lambda>sg. \<not> sg_gap sg \<and> ramp_value mode ?e sg = None) ?segs)"
    by (simp add: filter_map comp_def colour_segment_def)
  ultimately show ?thesis unfolding Let_def parts(1,3) by simp
qed

text \<open>A flight flown at one speed is drawn at the top of the ramp.\<close>

lemma constant_speed_is_full:
  assumes "f \<in> set (cp_segments (coloured_path_of path By_Speed))" "cs_known f"
    and "cp_extent (coloured_path_of path By_Speed) = Some (v, v)"
  shows "cs_value f = 1"
proof -
  have "path_segments path \<noteq> []" using assms(1) by (auto simp: coloured_path_of_def Let_def)
  then have "ramp_extent By_Speed path (path_segments path) = Some (v, v)"
    using assms(3) by (simp add: coloured_path_of_def Let_def)
  then show ?thesis
    using assms(1,2)
    by (auto simp: coloured_path_of_def Let_def colour_segment_def ramp_value_def normalise_def
        split: if_splits option.splits)
qed

text \<open>The longest gap the legend names is one of the gaps, and no gap is longer.\<close>

lemma longest_gap_is_longest:
  assumes "list_all (\<lambda>g. 0 < tg_seconds g) gaps" "gaps \<noteq> []"
  shows "longest_gap gaps \<in> tg_seconds ` set gaps \<and> (\<forall>g \<in> set gaps. tg_seconds g \<le> longest_gap gaps)"
proof -
  have "fold (\<lambda>g longest. max longest (tg_seconds g)) gs a \<in> insert a (tg_seconds ` set gs) \<and>
      a \<le> fold (\<lambda>g longest. max longest (tg_seconds g)) gs a \<and>
      (\<forall>g \<in> set gs. tg_seconds g \<le> fold (\<lambda>g longest. max longest (tg_seconds g)) gs a)" for gs a
  proof (induction gs arbitrary: a)
    case (Cons g gs)
    show ?case
      using Cons [of "max a (tg_seconds g)"]
      by (cases "a \<le> tg_seconds g") (auto simp: max_absorb1 max_absorb2 intro: order_trans)
  qed simp
  from this [of gaps 0] assms show ?thesis by (cases gaps) (auto simp: longest_gap_def)
qed

end
