(* ===== verification/Offline.thy ===== *)
theory Offline
  imports AppUpdate JsNumber LogStore Health
begin

text \<open>
  The offline shell: which requests the service worker answers and from where (\<open>sw.ts\<close>,
  \<open>features/offline/tile-cache.ts\<close>), when it is registered (\<open>register-sw.ts\<close>), and the hook that takes
  a new build (\<open>useAppUpdate\<close> in \<open>features/offline/hooks.ts\<close>), over the watcher of \<open>AppUpdate\<close>. Workbox is
  a library: a request goes to the first route registered that matches it, routes answer GET only,
  \<open>NetworkOnly\<close> never touches a cache, \<open>CacheFirst\<close> stores what \<open>cacheWillUpdate\<close> lets through, and the
  expiration plugin may drop anything. The precache manifest is a parameter.
\<close>

section \<open>Tiles worth keeping\<close>

record worker_response =
  hr_status :: nat
  hr_headers :: "(string \<times> string) list"

definition header_get :: "worker_response \<Rightarrow> string \<Rightarrow> string option" where
  "header_get r name = map_of (map (\<lambda>(k, v). (to_lower k, v)) (hr_headers r)) (to_lower name)"

definition is_cacheable_tile_response :: "worker_response \<Rightarrow> bool" where
  "is_cacheable_tile_response r =
     (if hr_status r \<noteq> 200 then False
      else if header_get r ''X-ClassG-Basemap'' = Some ''offline fallback'' then False
      else \<not> js_includes (nullish (header_get r ''Cache-Control'') []) ''no-store'')"

section \<open>The routes of the worker\<close>

record sw_request =
  rq_url :: string
  rq_path :: string
  rq_get :: bool
  rq_navigate :: bool

datatype sw_strategy = Precached | Network_Only | Cache_First | App_Shell

definition all_digits :: "string \<Rightarrow> bool" where
  "all_digits s \<longleftrightarrow> s \<noteq> [] \<and> list_all is_digit s"

definition ends_with :: "string \<Rightarrow> string \<Rightarrow> bool" where
  "ends_with s suf \<longleftrightarrow> starts_with (rev s) (rev suf)"

definition satellite_tile :: "string \<Rightarrow> bool" where
  "satellite_tile path =
     (case split_on (CHR ''/'') [] path of
        [e, t, b, z, x, y] \<Rightarrow>
          e = [] \<and> t = ''tiles'' \<and> b = ''basemap'' \<and> all_digits z \<and> all_digits x \<and>
          ends_with y ''.jpg'' \<and> all_digits (take (length y - 4) y)
      | _ \<Rightarrow> False)"

definition sw_route :: "(string \<Rightarrow> bool) \<Rightarrow> sw_request \<Rightarrow> sw_strategy option" where
  "sw_route precached rq =
     (if \<not> rq_get rq then None
      else if precached (rq_path rq) then Some Precached
      else if starts_with (rq_path rq) ''/api/'' then Some Network_Only
      else if ends_with (rq_path rq) ''.pmtiles'' then Some Network_Only
      else if satellite_tile (rq_path rq) then Some Cache_First
      else if rq_navigate rq \<and> \<not> starts_with (rq_path rq) ''/api/'' \<and> \<not> starts_with (rq_path rq) ''/tiles/''
        then Some App_Shell else None)"

text \<open>Where an answer came from. The network may fail, which is \<^term>\<open>None\<close>.\<close>

datatype sw_answer = From_Network worker_response | From_Cache worker_response | From_Shell string | Network_Error

type_synonym tile_cache = "(sw_request \<times> worker_response) list"

definition cached_tile :: "tile_cache \<Rightarrow> string \<Rightarrow> worker_response option" where
  "cached_tile tiles url = map_option snd (find (\<lambda>(rq, r). rq_url rq = url) tiles)"

definition network_answer :: "worker_response option \<Rightarrow> sw_answer" where
  "network_answer net = (case net of None \<Rightarrow> Network_Error | Some r \<Rightarrow> From_Network r)"

definition cache_first :: "tile_cache \<Rightarrow> sw_request \<Rightarrow> worker_response option \<Rightarrow> sw_answer \<times> tile_cache" where
  "cache_first tiles rq net =
     (case cached_tile tiles (rq_url rq) of
        Some r \<Rightarrow> (From_Cache r, tiles)
      | None \<Rightarrow>
          (network_answer net,
           case net of None \<Rightarrow> tiles
           | Some r \<Rightarrow> if is_cacheable_tile_response r then tiles @ [(rq, r)] else tiles))"

definition sw_fetch ::
  "(string \<Rightarrow> bool) \<Rightarrow> tile_cache \<Rightarrow> sw_request \<Rightarrow> worker_response option \<Rightarrow> sw_answer \<times> tile_cache" where
  "sw_fetch precached tiles rq net =
     (case sw_route precached rq of
        Some Precached \<Rightarrow> (From_Shell (rq_path rq), tiles)
      | Some App_Shell \<Rightarrow> (From_Shell ''/index.html'', tiles)
      | Some Cache_First \<Rightarrow> cache_first tiles rq net
      | _ \<Rightarrow> (network_answer net, tiles))"

text \<open>The fetches of the page and the expirations, in any order.\<close>

datatype sw_event = Fetch sw_request "worker_response option" | Expire "sw_request \<times> worker_response \<Rightarrow> bool"

fun sw_step :: "(string \<Rightarrow> bool) \<Rightarrow> sw_event \<Rightarrow> tile_cache \<Rightarrow> tile_cache" where
  "sw_step precached (Fetch rq net) tiles = snd (sw_fetch precached tiles rq net)"
| "sw_step precached (Expire old) tiles = filter (\<lambda>x. \<not> old x) tiles"

definition sw_run :: "(string \<Rightarrow> bool) \<Rightarrow> sw_event list \<Rightarrow> tile_cache" where
  "sw_run precached evs = fold (sw_step precached) evs []"


text \<open>The message that lets a waiting worker take over.\<close>

definition asks_to_skip_waiting :: "json \<Rightarrow> bool" where
  "asks_to_skip_waiting data =
     (case data of JObj ms \<Rightarrow> map_of ms ''type'' = Some (JStr ''SKIP_WAITING'') | _ \<Rightarrow> False)"

section \<open>Registration\<close>

record sw_environment =
  env_prod :: bool
  env_has_workers :: bool
  env_secure :: bool
  env_origin :: string
  env_register_error :: "string option"

definition ui_line :: "log_level \<Rightarrow> string \<Rightarrow> log_detail option \<Rightarrow> log_input" where
  "ui_line level message detail =
     \<lparr> li_at = None, li_level = level, li_source = SrcUi, li_message = message, li_detail = detail,
       li_track_id = None \<rparr>"

text \<open>Whether there is a watcher, and what is logged.\<close>

definition register_worker :: "sw_environment \<Rightarrow> bool \<times> log_input list" where
  "register_worker env =
     (if \<not> env_prod env then (False, [])
      else if \<not> env_has_workers env then
        (False, [ui_line Warn ''Offline support unavailable: this browser has no service worker support.'' None])
      else if \<not> env_secure env then
        (False, [ui_line Warn ''Offline support and install unavailable: this page is not a secure context.''
           (Some [(''origin'', DStr (env_origin env)),
              (''reason'', DStr ''Service workers require HTTPS, or a localhost origin.'')])])
      else (case env_register_error env of
          Some e \<Rightarrow> (False, [ui_line Error (''Service worker registration failed: '' @ e) None])
        | None \<Rightarrow> (True, [ui_line Info ''Offline support active: the console shell is cached on this device.'' None])))"

text \<open>\<open>pending\<close> holds the one registration of the page load.\<close>

definition register_app_service_worker ::
  "sw_environment \<Rightarrow> bool option \<Rightarrow> bool \<times> bool option \<times> log_input list" where
  "register_app_service_worker env pending =
     (case pending of Some found \<Rightarrow> (found, pending, [])
      | None \<Rightarrow> (let (found, ls) = register_worker env in (found, Some found, ls)))"

section \<open>The age of the screen\<close>

text \<open>The newer of the last frame and the last health poll; \<open>data_updated\<close> is 0 when there was none.\<close>

definition data_freshness ::
  "bool \<Rightarrow> connection_state \<Rightarrow> nat \<Rightarrow> int option \<Rightarrow> int \<Rightarrow> int \<Rightarrow> int \<Rightarrow> freshness" where
  "data_freshness online connection attempt last_frame_at data_updated now stale_after =
     (let newest = max (nullish last_frame_at 0) data_updated
      in compute_freshness online connection attempt (if newest = 0 then None else Some newest) now stale_after)"

section \<open>The hook that takes a new build\<close>

text \<open>
  \<open>ap_status\<close> is the hook's state, \<open>ap_effect\<close> the status its effect last ran with; the hook hears the
  watcher while it is subscribed.
\<close>

record app_page =
  ap_watcher :: update_watcher
  ap_found :: bool
  ap_subscribed :: bool
  ap_cancelled :: bool
  ap_status :: update_status
  ap_effect :: "update_status option"

definition new_page :: "update_watcher \<Rightarrow> app_page" where
  "new_page w = \<lparr> ap_watcher = w, ap_found = False, ap_subscribed = False, ap_cancelled = False,
     ap_status = UpdIdle, ap_effect = None \<rparr>"

text \<open>What the watcher does reaches the hook through \<open>subscribe(setStatus)\<close>.\<close>

definition with_watcher :: "update_watcher \<Rightarrow> app_page \<Rightarrow> app_page" where
  "with_watcher w p =
     p\<lparr> ap_watcher := w,
        ap_status := (if ap_subscribed p \<and> aw_heard w \<noteq> aw_heard (ap_watcher p) then last (aw_heard w)
                      else ap_status p) \<rparr>"

definition registration_found :: "app_page \<Rightarrow> app_page" where
  "registration_found p =
     (if ap_cancelled p \<or> ap_found p then p
      else p\<lparr> ap_found := True, ap_status := aw_status (ap_watcher p), ap_subscribed := True \<rparr>)"

text \<open>React renders and, when the status changed since, runs the effect.\<close>

definition page_commit :: "app_page \<Rightarrow> app_page" where
  "page_commit p =
     (if ap_cancelled p \<or> ap_effect p = Some (ap_status p) then p
      else
        let p' = p\<lparr> ap_effect := Some (ap_status p) \<rparr>
        in if ap_status p = UpdAvailable \<and> ap_found p then with_watcher (apply_update (ap_watcher p)) p' else p')"

definition page_unmount :: "app_page \<Rightarrow> app_page" where
  "page_unmount p = p\<lparr> ap_cancelled := True, ap_subscribed := False \<rparr>"

text \<open>The browser's events are those of the watcher; \<^term>\<open>Apply_Call\<close> is not among them, since only the
  effect calls \<open>applyUpdate\<close>.\<close>

datatype page_event = Browser_Event update_event | Found | Commit | Unmount

fun page_step :: "app_page \<Rightarrow> page_event \<Rightarrow> app_page" where
  "page_step p (Browser_Event e) = (if e = Apply_Call then p else with_watcher (update_step (ap_watcher p) e) p)"
| "page_step p Found = registration_found p"
| "page_step p Commit = page_commit p"
| "page_step p Unmount = page_unmount p"

inductive page_reach :: "app_page \<Rightarrow> bool" where
  start: "page_reach (new_page (page_loaded waiting installing state controlled))"
| step: "page_reach p \<Longrightarrow> page_reach (page_step p e)"

section \<open>Lemmas on the worker\<close>

definition good_tiles :: "tile_cache \<Rightarrow> bool" where
  "good_tiles tiles \<longleftrightarrow> list_all (\<lambda>(rq, r). satellite_tile (rq_path rq) \<and> is_cacheable_tile_response r) tiles"

lemma good_tiles_step: "good_tiles tiles \<Longrightarrow> good_tiles (sw_step precached e tiles)"
proof (cases e)
  case (Fetch rq net)
  assume g: "good_tiles tiles"
  have "satellite_tile (rq_path rq)" if "sw_route precached rq = Some Cache_First"
    using that by (simp add: sw_route_def split: if_splits)
  then show ?thesis
    using g Fetch by (auto simp: sw_fetch_def cache_first_def good_tiles_def split: option.split sw_strategy.split)
next
  case (Expire old)
  assume "good_tiles tiles"
  then show ?thesis using Expire by (auto simp: good_tiles_def list_all_iff)
qed

lemma good_tiles_run: "good_tiles (sw_run precached evs)"
proof -
  have "good_tiles tiles \<Longrightarrow> good_tiles (fold (sw_step precached) evs tiles)" for tiles
    by (induction evs arbitrary: tiles) (simp_all add: good_tiles_step)
  then show ?thesis by (simp add: sw_run_def good_tiles_def)
qed

lemma cached_tile_in: "cached_tile tiles url = Some r \<Longrightarrow> \<exists>rq. (rq, r) \<in> set tiles"
  by (auto simp: cached_tile_def find_Some_iff dest!: nth_mem)

section \<open>Lemmas on the hook\<close>

lemma status_heard: "aw_heard (update_step s e) = aw_heard s \<Longrightarrow> aw_status (update_step s e) = aw_status s"
  by (cases e) (auto simp: watcher_defs split: option.splits if_splits)

lemma heard_last:
  "aw_heard (update_step s e) \<noteq> aw_heard s \<Longrightarrow> last (aw_heard (update_step s e)) = aw_status (update_step s e)"
  by (cases e) (auto simp: watcher_defs split: option.splits if_splits)

definition hook_inv :: "app_page \<Rightarrow> bool" where
  "hook_inv p \<longleftrightarrow> update_reach (ap_watcher p) \<and>
     (ap_subscribed p \<longrightarrow> ap_found p \<and> \<not> ap_cancelled p \<and> ap_status p = aw_status (ap_watcher p)) \<and>
     (\<not> ap_subscribed p \<longrightarrow> \<not> ap_found p \<or> ap_cancelled p)"

lemma with_watcher_simps [simp]:
  "ap_watcher (with_watcher w p) = w" "ap_found (with_watcher w p) = ap_found p"
  "ap_subscribed (with_watcher w p) = ap_subscribed p" "ap_cancelled (with_watcher w p) = ap_cancelled p"
  "ap_effect (with_watcher w p) = ap_effect p"
  "\<not> ap_subscribed p \<Longrightarrow> ap_status (with_watcher w p) = ap_status p"
  by (simp_all add: with_watcher_def)

text \<open>While it is subscribed the hook has the watcher's status after every step of it.\<close>

lemma hook_hears:
  assumes "ap_status p = aw_status (ap_watcher p)" "ap_subscribed p"
  shows "ap_status (with_watcher (update_step (ap_watcher p) e) p) = aw_status (update_step (ap_watcher p) e)"
  using assms status_heard [of "ap_watcher p" e] heard_last [of "ap_watcher p" e] by (auto simp: with_watcher_def)

lemma with_watcher_inv: "hook_inv p \<Longrightarrow> hook_inv (with_watcher (update_step (ap_watcher p) e) p)"
  using hook_hears [of p e] update_reach.step [of "ap_watcher p" e] by (auto simp: hook_inv_def)

lemma page_reach_inv [invars]: "page_reach p \<Longrightarrow> hook_inv p"
proof (induction rule: page_reach.induct)
  case (start waiting installing state controlled)
  then show ?case by (simp add: hook_inv_def new_page_def update_reach.loaded)
next
  case (step p e)
  show ?case
  proof (cases e)
    case (Browser_Event u)
    then show ?thesis using step.IH with_watcher_inv by simp
  next
    case Found
    then show ?thesis using step.IH by (auto simp: registration_found_def hook_inv_def)
  next
    case Unmount
    then show ?thesis using step.IH by (auto simp: page_unmount_def hook_inv_def)
  next
    case Commit
    let ?p = "p\<lparr> ap_effect := Some (ap_status p) \<rparr>"
    have "hook_inv ?p" using step.IH by (simp add: hook_inv_def)
    then show ?thesis
      using Commit step.IH with_watcher_inv [of ?p Apply_Call] by (auto simp: page_commit_def Let_def)
  qed
qed

definition page_run :: "app_page \<Rightarrow> page_event list \<Rightarrow> app_page" where
  "page_run p evs = foldl page_step p evs"

lemma page_run_reach: "page_reach p \<Longrightarrow> page_reach (page_run p evs)"
  unfolding page_run_def by (induction evs arbitrary: p) (simp_all add: page_reach.step del: page_step.simps)

text \<open>A page whose effect has run with an offer that was gone.\<close>

definition offer_missed :: "app_page \<Rightarrow> bool" where
  "offer_missed p \<longleftrightarrow> ap_effect p = Some UpdAvailable \<and> ap_status p = UpdAvailable \<and>
     aw_status (ap_watcher p) = UpdAvailable \<and> \<not> aw_applying (ap_watcher p) \<and> (ap_found p \<or> ap_cancelled p)"

lemma offer_missed_watcher:
  assumes "aw_status s = UpdAvailable" "\<not> aw_applying s" "e \<noteq> Apply_Call"
  shows "aw_status (update_step s e) = UpdAvailable \<and> \<not> aw_applying (update_step s e) \<and>
    aw_heard (update_step s e) = aw_heard s \<and> aw_posted (update_step s e) = aw_posted s \<and>
    aw_reloads (update_step s e) = aw_reloads s"
  using assms by (cases e) (auto simp: watcher_defs split: option.splits if_splits)

lemma offer_missed_step:
  assumes "offer_missed p"
  shows "offer_missed (page_step p e) \<and> aw_posted (ap_watcher (page_step p e)) = aw_posted (ap_watcher p) \<and>
    aw_reloads (ap_watcher (page_step p e)) = aw_reloads (ap_watcher p)"
proof (cases e)
  case (Browser_Event u)
  then show ?thesis
    using assms offer_missed_watcher [of "ap_watcher p" u] by (auto simp: offer_missed_def with_watcher_def)
qed (use assms in \<open>auto simp: offer_missed_def registration_found_def page_commit_def page_unmount_def\<close>)

lemma install_posts_nothing:
  "e \<notin> {Apply_Call, Take_Over} \<Longrightarrow> aw_posted (update_step s e) = aw_posted s \<and> aw_reloads (update_step s e) = aw_reloads s"
  by (cases e) (auto simp: watcher_defs split: option.splits if_splits)

section \<open>Properties\<close>

text \<open>C14: What the worker answers about the sky is never a replay: in whatever order the page has fetched and
  tiles have expired, a request under /api/ or for a map archive goes to the network and leaves the
  caches alone, and every response the worker ever keeps is a satellite tile that the server sent
  with status 200 and did not mark as a placeholder or as not to be stored.\<close>

theorem api_is_never_replayed:
  assumes "\<And>path. starts_with path ''/api/'' \<or> ends_with path ''.pmtiles'' \<Longrightarrow> \<not> precached path"
    and tiles: "tiles = sw_run precached evs"
  shows "(if starts_with (rq_path rq) ''/api/'' \<or> ends_with (rq_path rq) ''.pmtiles''
      then sw_fetch precached tiles rq net = (network_answer net, tiles) else True) \<and>
    list_all (\<lambda>(q, r). satellite_tile (rq_path q) \<and> hr_status r = 200 \<and>
      header_get r ''X-ClassG-Basemap'' \<noteq> Some ''offline fallback'' \<and>
      \<not> js_includes (nullish (header_get r ''Cache-Control'') []) ''no-store'') tiles"
proof
  have "sw_route precached rq \<in> {None, Some Network_Only}"
    if "starts_with (rq_path rq) ''/api/'' \<or> ends_with (rq_path rq) ''.pmtiles''"
    using assms(1) [OF that] that by (auto simp: sw_route_def)
  then show "if starts_with (rq_path rq) ''/api/'' \<or> ends_with (rq_path rq) ''.pmtiles''
      then sw_fetch precached tiles rq net = (network_answer net, tiles) else True"
    by (auto simp: sw_fetch_def)
  show "list_all (\<lambda>(q, r). satellite_tile (rq_path q) \<and> hr_status r = 200 \<and>
      header_get r ''X-ClassG-Basemap'' \<noteq> Some ''offline fallback'' \<and>
      \<not> js_includes (nullish (header_get r ''Cache-Control'') []) ''no-store'') tiles"
    using good_tiles_run [of precached evs] tiles
    by (auto simp: good_tiles_def is_cacheable_tile_response_def list_all_iff split: if_splits)
qed

text \<open>C38: A new build is taken without asking the operator: on a controlled page with the hook attached and a
  running watcher, where no earlier build is on offer or being applied (the status is idle, and idle is
  what the hook's effect saw last), a worker that installs, and that no other tab takes before the
  page's next commit, is told to take over at that commit, once, and the page reloads once, when it
  has taken over and not before. (What happens when another tab is first is \<open>missed_offer_is_final\<close>.)\<close>

theorem new_build_is_taken:
  assumes "page_reach p" "ap_subscribed p" "aw_started (ap_watcher p)" "aw_controller (ap_watcher p)"
    and "ap_effect p = Some UpdIdle" "ap_status p = UpdIdle"
    and q: "q = page_run p [Browser_Event (Begin_Install w), Browser_Event (Change_State w Installed), Commit]"
  shows "aw_posted (ap_watcher q) = aw_posted (ap_watcher p) @ [w] \<and>
    aw_reloads (ap_watcher q) = aw_reloads (ap_watcher p) \<and>
    aw_reloads (ap_watcher (page_step q (Browser_Event Take_Over))) = Suc (aw_reloads (ap_watcher p)) \<and>
    aw_posted (ap_watcher (page_run q [Commit, Commit])) = aw_posted (ap_watcher q)"
proof -
  let ?es = "[Begin_Install w, Change_State w Installed]"
  let ?s = "update_run (ap_watcher p) ?es" and ?p1 = "page_run p (map Browser_Event ?es)"
  have w: "ap_watcher ?p1 = ?s" "ap_effect ?p1 = Some UpdIdle" "ap_subscribed ?p1"
    using assms(2,5) by (simp_all add: page_run_def update_run_def del: update_step.simps)
  have "page_reach ?p1" by (rule page_run_reach [OF assms(1)])
  then have inv: "hook_inv ?p1" by (rule page_reach_inv)
  have "update_reach (ap_watcher p)" using page_reach_inv [OF assms(1)] by (simp add: hook_inv_def)
  from offered_when_installed [OF this assms(3,4), of w]
  have s: "aw_status ?s = UpdAvailable" "aw_waiting ?s = Some w" "aw_on_controller_change ?s" by simp_all
  have quiet: "aw_posted ?s = aw_posted (ap_watcher p)" "aw_reloads ?s = aw_reloads (ap_watcher p)"
    using install_posts_nothing by (simp_all add: update_run_def del: update_step.simps)
  have st: "ap_status ?p1 = UpdAvailable" "ap_found ?p1" "\<not> ap_cancelled ?p1"
    using inv w s(1) by (simp_all add: hook_inv_def)
  have "q = page_commit ?p1" by (simp add: q page_run_def del: update_step.simps)
  then have q': "q = with_watcher (apply_update ?s) (?p1\<lparr> ap_effect := Some UpdAvailable \<rparr>)"
    using w st by (simp add: page_commit_def)
  then have a: "ap_watcher q = apply_update ?s" by simp
  have "aw_status (apply_update ?s) = UpdApplying" using s by (simp add: apply_update_def set_status_def Let_def)
  moreover have "page_reach q" unfolding q by (rule page_run_reach [OF assms(1)])
  ultimately have "ap_status q = UpdApplying"
    using page_reach_inv [of q] w(3) a q' by (simp add: hook_inv_def)
  then have "ap_watcher (page_run q [Commit, Commit]) = ap_watcher q"
    by (simp add: page_run_def page_commit_def Let_def)
  then show ?thesis
    using s quiet by (simp add: a) (simp add: apply_update_def set_status_def Let_def on_controller_change_def)
qed

theorem new_build_is_taken_witness:
  "aw_posted (ap_watcher (page_run (new_page (page_loaded None None (\<lambda>_. Activated) True))
     [Browser_Event Start, Found, Commit, Browser_Event (Begin_Install 4), Browser_Event (Change_State 4 Installed), Commit])) = [4]"
proof -
  let ?p = "page_run (new_page (page_loaded None None (\<lambda>_. Activated) True)) [Browser_Event Start, Found, Commit]"
  have r: "page_reach ?p" by (rule page_run_reach [OF page_reach.start])
  have e: "?p = \<lparr> ap_watcher = start_watcher (page_loaded None None (\<lambda>_. Activated) True), ap_found = True,
      ap_subscribed = True, ap_cancelled = False, ap_status = UpdIdle, ap_effect = Some UpdIdle \<rparr>"
    by (simp add: page_run_def new_page_def registration_found_def page_commit_def with_watcher_def
        start_watcher_def page_loaded_def Let_def)
  have f: "ap_subscribed ?p" "aw_started (ap_watcher ?p)" "aw_controller (ap_watcher ?p)"
    "ap_effect ?p = Some UpdIdle" "ap_status ?p = UpdIdle"
    unfolding e by (simp_all add: start_watcher_def page_loaded_def Let_def)
  let ?es = "[Browser_Event (Begin_Install 4), Browser_Event (Change_State 4 Installed), Commit]"
  have "aw_posted (ap_watcher (page_run ?p ?es)) = aw_posted (ap_watcher ?p) @ [4]"
    by (rule new_build_is_taken [OF r f refl, THEN conjunct1])
  moreover have "aw_posted (ap_watcher ?p) = []"
    unfolding e by (simp add: start_watcher_def page_loaded_def Let_def)
  moreover have "page_run ?p ?es = page_run (new_page (page_loaded None None (\<lambda>_. Activated) True))
      ([Browser_Event Start, Found, Commit] @ ?es)" by (simp only: page_run_def foldl_append)
  ultimately show ?thesis by (simp only: append_Cons append_Nil)
qed

text \<open>An offer that another tab takes before the hook's effect has run is missed for good: the status stays
  the one the effect has seen, so whatever is installed later is never applied, and the page runs
  its old build until it is reloaded by hand.\<close>

theorem missed_offer_is_final:
  assumes "offer_missed p"
  shows "aw_posted (ap_watcher (page_run p evs)) = aw_posted (ap_watcher p) \<and>
    aw_reloads (ap_watcher (page_run p evs)) = aw_reloads (ap_watcher p)"
proof -
  have "offer_missed (page_run p evs) \<and> aw_posted (ap_watcher (page_run p evs)) = aw_posted (ap_watcher p) \<and>
    aw_reloads (ap_watcher (page_run p evs)) = aw_reloads (ap_watcher p)"
    using assms
  proof (induction evs arbitrary: p)
    case (Cons e evs)
    then show ?case using offer_missed_step [of p e] by (simp add: page_run_def)
  qed (simp add: page_run_def)
  then show ?thesis by simp
qed

theorem missed_offer_is_final_witness:
  "aw_posted (ap_watcher (page_run (page_run (new_page (page_loaded None None (\<lambda>_. Activated) True))
      [Browser_Event Start, Found, Commit, Browser_Event (Begin_Install 1), Browser_Event (Change_State 1 Installed),
       Browser_Event Take_Over, Commit])
     [Browser_Event (Begin_Install 2), Browser_Event (Change_State 2 Installed), Commit])) = []"
proof -
  let ?p = "page_run (new_page (page_loaded None None (\<lambda>_. Activated) True))
      [Browser_Event Start, Found, Commit, Browser_Event (Begin_Install 1), Browser_Event (Change_State 1 Installed),
       Browser_Event Take_Over, Commit]"
  have "offer_missed ?p" "aw_posted (ap_watcher ?p) = []"
    by (simp_all add: page_run_def new_page_def registration_found_def page_commit_def with_watcher_def
        page_loaded_def offer_missed_def watcher_defs)
  then show ?thesis using missed_offer_is_final [of ?p] by simp
qed

definition tile_request :: sw_request where
  "tile_request = \<lparr> rq_url = ''https://unit/tiles/basemap/9/1/2.jpg'', rq_path = ''/tiles/basemap/9/1/2.jpg'',
     rq_get = True, rq_navigate = False \<rparr>"

definition api_request :: sw_request where
  "api_request = \<lparr> rq_url = ''https://unit/api/v1/tracks'', rq_path = ''/api/v1/tracks'', rq_get = True, rq_navigate = True \<rparr>"

theorem api_is_never_replayed_witness:
  "sw_fetch (\<lambda>p. p = ''/index.html'') (sw_run (\<lambda>p. p = ''/index.html'') [Fetch tile_request (Some \<lparr> hr_status = 200, hr_headers = [] \<rparr>)])
     api_request None = (Network_Error, [(tile_request, \<lparr> hr_status = 200, hr_headers = [] \<rparr>)])"
proof -
  let ?pre = "\<lambda>p :: string. p = ''/index.html''"
  let ?evs = "[Fetch tile_request (Some \<lparr> hr_status = 200, hr_headers = [] \<rparr>)]"
  have "sw_run ?pre ?evs = [(tile_request, \<lparr> hr_status = 200, hr_headers = [] \<rparr>)]"
    by code_simp
  moreover have "starts_with (rq_path api_request) ''/api/''" by (simp add: api_request_def)
  moreover have pre: "\<not> ?pre path" if "starts_with path ''/api/'' \<or> ends_with path ''.pmtiles''" for path
    using that by (auto simp: ends_with_def)
  ultimately show ?thesis
    using api_is_never_replayed [where precached = ?pre and evs = ?evs and rq = api_request and net = None, OF pre refl] by (simp add: network_answer_def)
qed

end
