(* ===== verification/MapStyle.thy ===== *)
theory MapStyle
  imports Geo Offline
begin

text \<open>
  \<open>features/map/style.ts\<close>: the palettes, the range rings drawn where there are no tiles, the three map
  styles as lists of sources and layers, the probes that say which of them can be drawn, and from
  \<open>features/map/live-map.tsx\<close> the choice between them and the notice that the view has left the tiles.
  MapLibre, which draws a style, is the library around them; answers of the network are parameters.
\<close>

section \<open>Palettes\<close>

datatype map_theme = Dark | Light

record palette =
  pal_background :: string
  pal_ring :: string
  pal_ring_major :: string
  pal_spoke :: string
  pal_earth :: string
  pal_water :: string
  pal_green :: string
  pal_road :: string
  pal_road_minor :: string
  pal_building :: string
  pal_boundary :: string

definition dark_palette :: palette where
  "dark_palette =
     \<lparr> pal_background = ''#0d1117'', pal_ring = ''#1e2a3d'', pal_ring_major = ''#2c3e59'',
       pal_spoke = ''#1a2433'', pal_earth = ''#1a222c'', pal_water = ''#16324a'', pal_green = ''#1b2a20'',
       pal_road = ''#3d4a5c'', pal_road_minor = ''#2a3442'', pal_building = ''#232c37'',
       pal_boundary = ''#465569'' \<rparr>"

definition light_palette :: palette where
  "light_palette =
     \<lparr> pal_background = ''#eef1f5'', pal_ring = ''#cfd6e0'', pal_ring_major = ''#b3bdcc'',
       pal_spoke = ''#dbe0e8'', pal_earth = ''#e9edf2'', pal_water = ''#d3e0ec'', pal_green = ''#e0e9e0'',
       pal_road = ''#ffffff'', pal_road_minor = ''#f4f6f9'', pal_building = ''#dfe4ea'',
       pal_boundary = ''#c2cad4'' \<rparr>"

definition palette_of :: "map_theme \<Rightarrow> palette" where
  "palette_of theme = (if theme = Dark then dark_palette else light_palette)"

section \<open>Range rings\<close>

datatype ring_feature = Ring real bool "coord list" | Spoke nat "coord \<times> coord"

definition metres_per_degree :: real where "metres_per_degree = 111320"

text \<open>\<open>111_320 * Math.cos(...) || 1\<close>: at the poles the product is zero and 1 stands in for it.\<close>

definition metres_per_degree_lon :: "real \<Rightarrow> real" where
  "metres_per_degree_lon lat =
     (let m = metres_per_degree * cos (radians lat) in if m = 0 then 1 else m)"

definition ring_point :: "coord \<Rightarrow> real \<Rightarrow> nat \<Rightarrow> coord" where
  "ring_point centre radius deg =
     (fst centre + sin (radians (real deg)) * radius / metres_per_degree_lon (snd centre),
      snd centre + cos (radians (real deg)) * radius / metres_per_degree)"

definition range_rings :: "coord \<Rightarrow> real list \<Rightarrow> ring_feature list" where
  "range_rings centre radii =
     map (\<lambda>i. Ring (radii ! i) (i = length radii - 1)
         (map (\<lambda>k. ring_point centre (radii ! i) (3 * k)) [0..<121])) [0..<length radii] @
     (let outer = (if radii = [] then 1000 else last radii)
      in map (\<lambda>k. Spoke (45 * k) (centre, ring_point centre outer (45 * k))) [0..<8])"

definition ring_steps :: "real list" where
  "ring_steps = [50, 100, 250, 500, 1000, 2000, 5000, 10000, 20000, 50000, 100000, 200000]"

definition ring_radii_for :: "real \<Rightarrow> real list" where
  "ring_radii_for span_metres =
     (let target = span_metres / 2;
          index = (case find_index (\<lambda>s. target \<le> s) ring_steps of
              Some i \<Rightarrow> i | None \<Rightarrow> length ring_steps - 1)
      in take (index + 1 - (index - 2)) (drop (index - 2) ring_steps))"

text \<open>The rings redrawn when the camera comes to rest.\<close>

definition draw_rings :: "real \<Rightarrow> real \<Rightarrow> coord \<Rightarrow> ring_feature list" where
  "draw_rings west east centre =
     (let span_metres = \<bar>east - west\<bar> * metres_per_degree * cos (radians (snd centre))
      in range_rings centre (ring_radii_for span_metres))"

section \<open>Styles\<close>

datatype map_source =
    Geo_Source
  | Vector_Source string string
  | Raster_Source string nat nat nat string

datatype layer_kind = Background_Layer | Fill_Layer | Line_Layer | Raster_Layer

datatype layer_filter = No_Filter | Kinds "string list" | Spokes | Not_Spokes

datatype layer_colour = Flat string | By_Major string string | No_Colouring

datatype line_width = Plain_Width | Fixed_Width real | Major_Width real real | Zoom_Width nat real nat real

record map_layer =
  ly_id :: string
  ly_kind :: layer_kind
  ly_source :: "string option"
  ly_source_layer :: "string option"
  ly_filter :: layer_filter
  ly_min_zoom :: "nat option"
  ly_max_zoom :: "nat option"
  ly_colour :: layer_colour
  ly_width :: line_width
  ly_dashes :: "nat list"
  ly_opacity :: "real option"
  ly_rounded :: bool
  ly_raster :: "(real \<times> real) option"

record map_style =
  st_sources :: "(string \<times> map_source) list"
  st_layers :: "map_layer list"

definition layer :: "string \<Rightarrow> layer_kind \<Rightarrow> string option \<Rightarrow> string option \<Rightarrow> layer_colour \<Rightarrow> map_layer" where
  "layer i k src src_layer colour =
     \<lparr> ly_id = i, ly_kind = k, ly_source = src, ly_source_layer = src_layer, ly_filter = No_Filter,
       ly_min_zoom = None, ly_max_zoom = None, ly_colour = colour, ly_width = Plain_Width,
       ly_dashes = [], ly_opacity = None, ly_rounded = False, ly_raster = None \<rparr>"

definition background_layer :: "palette \<Rightarrow> map_layer" where
  "background_layer p = layer ''bg'' Background_Layer None None (Flat (pal_background p))"

definition ring_layer :: "string \<Rightarrow> layer_filter \<Rightarrow> layer_colour \<Rightarrow> line_width \<Rightarrow> real option \<Rightarrow> map_layer" where
  "ring_layer i f colour width opacity =
     (layer i Line_Layer (Some ''rings'') None colour)
       \<lparr> ly_filter := f, ly_width := width, ly_opacity := opacity \<rparr>"

definition no_tiles_style :: "map_theme \<Rightarrow> map_style" where
  "no_tiles_style theme =
     (let p = palette_of theme
      in \<lparr> st_sources = [(''rings'', Geo_Source)],
           st_layers =
             [background_layer p,
              ring_layer ''ring-spokes'' Spokes (Flat (pal_spoke p)) (Fixed_Width 1) None,
              ring_layer ''ring-circles'' Not_Spokes (By_Major (pal_ring_major p) (pal_ring p))
                (Major_Width 1.4 1) None] \<rparr>)"

definition landuse_kinds :: "string list" where
  "landuse_kinds =
     [''park'', ''forest'', ''wood'', ''grass'', ''grassland'', ''meadow'', ''scrub'', ''garden'',
      ''farmland'', ''nature_reserve'', ''recreation_ground'', ''golf_course'', ''cemetery'', ''wetland'']"

definition world_max_zoom :: nat where "world_max_zoom = 6"

definition copyright_sign :: string where "copyright_sign = [CHR 0xC2, CHR 0xA9]"

definition vector_attribution :: string where
  "vector_attribution =
     ''<a href=\"https://protomaps.com\" target=\"_blank\">Protomaps</a> '' @ copyright_sign @
     '' <a href=\"https://www.openstreetmap.org/copyright\" target=\"_blank\">OpenStreetMap</a>''"

definition fill_layer :: "string \<Rightarrow> string \<Rightarrow> string \<Rightarrow> string \<Rightarrow> map_layer" where
  "fill_layer i src src_layer colour = layer i Fill_Layer (Some src) (Some src_layer) (Flat colour)"

definition road_layer :: "string \<Rightarrow> string \<Rightarrow> string list \<Rightarrow> string \<Rightarrow> line_width \<Rightarrow> map_layer" where
  "road_layer i src kinds colour width =
     (layer i Line_Layer (Some src) (Some ''roads'') (Flat colour))
       \<lparr> ly_filter := Kinds kinds, ly_rounded := True, ly_width := width \<rparr>"

definition boundary_layer :: "string \<Rightarrow> string \<Rightarrow> string \<Rightarrow> map_layer" where
  "boundary_layer i src colour =
     (layer i Line_Layer (Some src) (Some ''boundaries'') (Flat colour))
       \<lparr> ly_width := Fixed_Width 0.8, ly_dashes := [3, 2] \<rparr>"

definition world_layers :: "palette \<Rightarrow> map_layer list" where
  "world_layers p =
     [fill_layer ''world-earth'' ''protomaps-world'' ''earth'' (pal_earth p),
      (fill_layer ''world-landuse'' ''protomaps-world'' ''landuse'' (pal_green p))
        \<lparr> ly_filter := Kinds landuse_kinds \<rparr>,
      fill_layer ''world-water'' ''protomaps-world'' ''water'' (pal_water p),
      (road_layer ''world-roads-major'' ''protomaps-world'' [''highway'', ''major_road''] (pal_road p)
        (Zoom_Width 6 0.5 18 6)) \<lparr> ly_max_zoom := Some (world_max_zoom + 1) \<rparr>,
      (boundary_layer ''world-boundaries'' ''protomaps-world'' (pal_boundary p))
        \<lparr> ly_max_zoom := Some (world_max_zoom + 1) \<rparr>]"

definition vector_style :: "map_theme \<Rightarrow> string \<Rightarrow> string option \<Rightarrow> map_style" where
  "vector_style theme archive_url world_url =
     (let p = palette_of theme
      in \<lparr> st_sources =
             [(''protomaps'', Vector_Source (''pmtiles://'' @ archive_url) vector_attribution)] @
             (if truthy world_url
              then [(''protomaps-world'', Vector_Source (''pmtiles://'' @ nullish world_url []) vector_attribution)]
              else []) @
             [(''rings'', Geo_Source)],
           st_layers =
             [background_layer p] @ (if truthy world_url then world_layers p else []) @
             [fill_layer ''earth'' ''protomaps'' ''earth'' (pal_earth p),
              (fill_layer ''landuse'' ''protomaps'' ''landuse'' (pal_green p))
                \<lparr> ly_filter := Kinds landuse_kinds \<rparr>,
              fill_layer ''water'' ''protomaps'' ''water'' (pal_water p),
              (fill_layer ''buildings'' ''protomaps'' ''buildings'' (pal_building p))
                \<lparr> ly_min_zoom := Some 14, ly_opacity := Some 0.85 \<rparr>,
              (road_layer ''roads-minor'' ''protomaps'' [''medium_road'', ''minor_road''] (pal_road_minor p)
                (Zoom_Width 11 0.4 18 4)) \<lparr> ly_min_zoom := Some 11 \<rparr>,
              road_layer ''roads-major'' ''protomaps'' [''highway'', ''major_road''] (pal_road p)
                (Zoom_Width 6 0.5 18 6),
              boundary_layer ''boundaries'' ''protomaps'' (pal_boundary p),
              ring_layer ''ring-spokes'' Spokes (Flat (pal_spoke p)) (Fixed_Width 1) (Some 0.6),
              ring_layer ''ring-circles'' Not_Spokes (By_Major (pal_ring_major p) (pal_ring p))
                (Major_Width 1.4 1) (Some 0.7)] \<rparr>)"

definition basemap_max_zoom :: nat where "basemap_max_zoom = 19"
definition tile_path :: string where "tile_path = ''tiles/basemap/{z}/{x}/{y}.jpg''"

definition basemap_attribution :: string where
  "basemap_attribution =
     ''<a href=\"https://www.arcgis.com/home/item.html?id=10df2279f9684e4a9f6a7f08febac2a9\" '' @
     ''target=\"_blank\">Esri World Imagery</a>''"

definition tiled_style :: "map_theme \<Rightarrow> string \<Rightarrow> map_style" where
  "tiled_style theme base_url =
     (let p = palette_of theme
      in \<lparr> st_sources =
             [(''basemap'', Raster_Source (base_url @ tile_path) 256 0 basemap_max_zoom basemap_attribution),
              (''rings'', Geo_Source)],
           st_layers =
             [background_layer p,
              (layer ''basemap'' Raster_Layer (Some ''basemap'') None No_Colouring)
                \<lparr> ly_opacity := Some (if theme = Dark then 0.7 else 0.95),
                  ly_raster := Some (if theme = Dark then (- 0.4, 0.9) else (0, 1)) \<rparr>,
              ring_layer ''ring-spokes'' Spokes (Flat (pal_spoke p)) (Fixed_Width 1) (Some 0.5),
              ring_layer ''ring-circles'' Not_Spokes (Flat (pal_ring p)) (Fixed_Width 1) (Some 0.6)] \<rparr>)"

section \<open>Probes\<close>

definition is_pmtiles_archive :: "string \<Rightarrow> bool" where
  "is_pmtiles_archive url = ends_with (to_lower (trim url)) ''.pmtiles''"

definition world_archive_url_for :: "string \<Rightarrow> string" where
  "world_archive_url_for archive_url =
     take (length (trim archive_url) - length ''.pmtiles'') (trim archive_url) @ ''-world.pmtiles''"

text \<open>What a probe gets back: whether the status is a success, two headers, and the bytes of the body.
  \<^term>\<open>None\<close> is a request that failed or was aborted.\<close>

record probe_reply =
  pr_ok :: bool
  pr_basemap :: "string option"
  pr_content_type :: "string option"
  pr_body :: string

definition vector_reachable :: "string \<Rightarrow> (string \<Rightarrow> bool \<Rightarrow> probe_reply option) \<Rightarrow> bool" where
  "vector_reachable url net =
     (if trim url = [] then False
      else
        let archive = is_pmtiles_archive url
        in (case net url archive of
              None \<Rightarrow> False
            | Some r \<Rightarrow>
                if \<not> pr_ok r then False
                else if \<not> archive then True
                else take 7 (pr_body r) = ''PMTiles''))"

definition tiles_reachable :: "string \<Rightarrow> (string \<Rightarrow> bool \<Rightarrow> probe_reply option) \<Rightarrow> bool" where
  "tiles_reachable base_url net =
     (case net (base_url @ ''tiles/basemap/0/0/0.jpg'') False of
        None \<Rightarrow> False
      | Some r \<Rightarrow>
          pr_ok r \<and> pr_basemap r \<noteq> Some ''offline fallback'' \<and>
          (case pr_content_type r of None \<Rightarrow> False | Some t \<Rightarrow> starts_with t ''image/''))"

datatype basemap_mode = Vector_Map | Tile_Map | No_Tiles

text \<open>
  The effect that probes once. \<open>loaded\<close> says whether the decoder of the archives could be imported; when
  it cannot, the promise rejects and there are no tiles. Nothing is set once the effect was cleaned up.
\<close>

definition choose_basemap ::
  "string \<Rightarrow> string \<Rightarrow> (string \<Rightarrow> bool \<Rightarrow> probe_reply option) \<Rightarrow> bool \<Rightarrow> bool \<Rightarrow> (basemap_mode \<times> string option) option" where
  "choose_basemap vector_url base_url net loaded aborted =
     (if aborted then None
      else if vector_url \<noteq> [] \<and> vector_reachable vector_url net
      then
        if is_pmtiles_archive vector_url
        then
          if \<not> loaded then Some (No_Tiles, None)
          else
            let world = world_archive_url_for vector_url
            in Some (Vector_Map, if vector_reachable world net then Some world else None)
        else Some (Vector_Map, None)
      else Some (if tiles_reachable base_url net then Tile_Map else No_Tiles, None))"

text \<open>The style the map is created with; a vector address that is no archive is handed on as it is.\<close>

datatype style_choice = Style map_style | Style_Url string

definition style_of :: "basemap_mode \<Rightarrow> map_theme \<Rightarrow> string \<Rightarrow> string option \<Rightarrow> string \<Rightarrow> style_choice" where
  "style_of basemap theme vector_url world base_url =
     (case basemap of
        Vector_Map \<Rightarrow>
          if is_pmtiles_archive vector_url then Style (vector_style theme vector_url world)
          else Style_Url vector_url
      | Tile_Map \<Rightarrow> Style (tiled_style theme base_url)
      | No_Tiles \<Rightarrow> Style (no_tiles_style theme))"

definition basemap_coverage_layers :: "string list" where
  "basemap_coverage_layers = [''earth'', ''water'', ''landuse'', ''roads-major'', ''roads-minor'']"

text \<open>The notice that the view is outside the tiles: \<^term>\<open>None\<close> leaves it as it was.\<close>

definition check_coverage ::
  "basemap_mode \<Rightarrow> string option \<Rightarrow> real \<Rightarrow> (string \<Rightarrow> bool) \<Rightarrow> (string list \<Rightarrow> nat) \<Rightarrow> bool option" where
  "check_coverage basemap world zoom has_layer drawn =
     (if basemap \<noteq> Vector_Map then None
      else if truthy world \<and> zoom < real world_max_zoom + 1 then Some False
      else Some (drawn (filter has_layer basemap_coverage_layers) = 0))"

definition coverage_notice :: "basemap_mode \<Rightarrow> string option \<Rightarrow> bool \<Rightarrow> string option" where
  "coverage_notice basemap world outside =
     (if basemap = No_Tiles then Some (''No basemap tiles '' @ em_dash @ '' range rings only'')
      else if basemap = Vector_Map \<and> outside
      then Some (if truthy world then ''Outside detailed basemap coverage '' @ em_dash @ '' world overview only''
        else ''Outside basemap coverage '' @ em_dash @ '' range rings only'')
      else None)"

section \<open>What is drawn\<close>

text \<open>A style MapLibre can draw: layers have distinct names, each layer but the background reads a source
  the style declares, and the rings have theirs.\<close>

definition drawable :: "map_style \<Rightarrow> bool" where
  "drawable st \<longleftrightarrow>
     distinct (map ly_id (st_layers st)) \<and> distinct (map fst (st_sources st)) \<and>
     ''rings'' \<in> set (map fst (st_sources st)) \<and>
     list_all (\<lambda>l. case ly_source l of None \<Rightarrow> ly_kind l = Background_Layer
       | Some s \<Rightarrow> s \<in> set (map fst (st_sources st))) (st_layers st)"

lemmas style_parts = layer_def background_layer_def ring_layer_def fill_layer_def road_layer_def boundary_layer_def
  world_layers_def

text \<open>Each of the three styles is well formed, whatever theme and addresses it is built for: no layer
  reads a source the style does not declare, names are distinct, and the source the range rings are put
  in is there. The vector style has every layer the coverage check asks about, and draws the world
  archive's layers below all of the local archive's and only up to the zooms it has.\<close>

theorem styles_are_drawable:
  "drawable (no_tiles_style theme) \<and> drawable (tiled_style theme base) \<and> drawable (vector_style theme url world) \<and>
   set basemap_coverage_layers \<subseteq> set (map ly_id (st_layers (vector_style theme url world))) \<and>
   sorted_wrt (\<lambda>a b. if ly_source b = Some ''protomaps-world'' then ly_source a \<noteq> Some ''protomaps'' else True)
     (st_layers (vector_style theme url world)) \<and>
   list_all (\<lambda>l. if ly_source l = Some ''protomaps-world'' \<and> ly_kind l = Line_Layer
       then ly_max_zoom l = Some (world_max_zoom + 1) else True) (st_layers (vector_style theme url world))"
proof (intro conjI)
  show "drawable (no_tiles_style theme)"
    by (simp add: drawable_def no_tiles_style_def style_parts Let_def)
  show "drawable (tiled_style theme base)"
    by (simp add: drawable_def tiled_style_def style_parts Let_def)
  show "drawable (vector_style theme url world)"
    by (cases "truthy world") (simp_all add: drawable_def vector_style_def style_parts Let_def)
  show "set basemap_coverage_layers \<subseteq> set (map ly_id (st_layers (vector_style theme url world)))"
    by (simp add: vector_style_def style_parts Let_def basemap_coverage_layers_def)
  show "sorted_wrt (\<lambda>a b. if ly_source b = Some ''protomaps-world'' then ly_source a \<noteq> Some ''protomaps'' else True)
     (st_layers (vector_style theme url world))"
    by (cases "truthy world") (simp_all add: vector_style_def style_parts Let_def)
  show "list_all (\<lambda>l. if ly_source l = Some ''protomaps-world'' \<and> ly_kind l = Line_Layer
       then ly_max_zoom l = Some (world_max_zoom + 1) else True) (st_layers (vector_style theme url world))"
    by (cases "truthy world") (simp_all add: vector_style_def style_parts Let_def)
qed

section \<open>What is reachable\<close>

definition holds_archive :: "(string \<Rightarrow> bool \<Rightarrow> probe_reply option) \<Rightarrow> string \<Rightarrow> bool" where
  "holds_archive net url \<longleftrightarrow> (\<exists>r. net url True = Some r \<and> pr_ok r \<and> take 7 (pr_body r) = ''PMTiles'')"

lemma trim_keeps_ends:
  assumes "s \<noteq> []" "\<not> is_space (hd s)" "\<not> is_space (last s)"
  shows "trim s = s"
proof -
  have d: "dropWhile is_space s = s" using assms by (cases s) simp_all
  have "dropWhile is_space (rev s) = rev s"
    using assms by (cases s rule: rev_cases) simp_all
  with d show ?thesis by (simp add: trim_def)
qed

lemma trim_first: "trim s \<noteq> [] \<Longrightarrow> \<not> is_space (hd (trim s))"
proof -
  assume ne: "trim s \<noteq> []"
  obtain d where d: "d = dropWhile is_space s" by blast
  have t: "trim s = rev (dropWhile is_space (rev d))" by (simp add: trim_def d)
  have "d \<noteq> []" using ne t by auto
  then have first: "\<not> is_space (hd d)" unfolding d by (rule hd_dropWhile)
  obtain e where "rev d = e @ dropWhile is_space (rev d)" by (metis takeWhile_dropWhile_id)
  then have "d = trim s @ rev e" using t by (metis rev_append rev_rev_ident)
  then show ?thesis using ne first by (metis hd_append2)
qed

lemma world_archive_is_archive: "is_pmtiles_archive (world_archive_url_for url)"
proof -
  obtain p where p: "p = take (length (trim url) - length ''.pmtiles'') (trim url)" by blast
  have "\<not> is_space (hd p)" if "p \<noteq> []"
    using trim_first [of url] that unfolding p by (metis hd_take take_eq_Nil neq0_conv)
  moreover have "\<not> is_space (CHR ''-'')" "\<not> is_space (CHR ''s'')" by (simp_all add: is_space_def)
  ultimately have "trim (p @ ''-world.pmtiles'') = p @ ''-world.pmtiles''"
    by (intro trim_keeps_ends) (cases p; simp)+
  then show ?thesis
    unfolding world_archive_url_for_def p [symmetric]
    by (simp add: is_pmtiles_archive_def ends_with_def to_lower_def ascii_lower_def)
qed

text \<open>A basemap is shown only if it was seen to be there. A vector archive, local or of the whole
  world, is used only when its first bytes are the PMTiles magic, so a page answered in its place is not
  taken for it; raster tiles only when the answer is an image and not the offline stand-in; the world
  archive only under a local one. Once the probes end every effect still mounted has chosen something.\<close>

theorem basemap_was_seen:
  "(case choose_basemap url base net loaded aborted of
      None \<Rightarrow> aborted
    | Some (mode, world) \<Rightarrow>
        \<not> aborted \<and>
        (mode = Vector_Map) = (vector_reachable url net \<and> (if is_pmtiles_archive url then loaded else True)) \<and>
        (if mode = Vector_Map \<and> is_pmtiles_archive url then holds_archive net url else True) \<and>
        (if mode = Tile_Map then \<exists>r t. net (base @ ''tiles/basemap/0/0/0.jpg'') False = Some r \<and> pr_ok r \<and>
            pr_content_type r = Some t \<and> starts_with t ''image/'' \<and> pr_basemap r \<noteq> Some ''offline fallback''
         else True) \<and>
        (case world of None \<Rightarrow> True
         | Some w \<Rightarrow> mode = Vector_Map \<and> is_pmtiles_archive url \<and> w = world_archive_url_for url \<and> holds_archive net w))"
proof -
  have archive: "vector_reachable u net \<Longrightarrow> is_pmtiles_archive u \<Longrightarrow> holds_archive net u" for u
    by (auto simp: vector_reachable_def holds_archive_def Let_def split: if_splits option.splits)
  have named: "\<not> vector_reachable [] net" by (simp add: vector_reachable_def trim_def)
  have tiles: "tiles_reachable base net \<Longrightarrow>
      \<exists>r t. net (base @ ''tiles/basemap/0/0/0.jpg'') False = Some r \<and> pr_ok r \<and>
            pr_content_type r = Some t \<and> starts_with t ''image/'' \<and> pr_basemap r \<noteq> Some ''offline fallback''"
    by (auto simp: tiles_reachable_def split: option.splits)
  show ?thesis
    using archive [of url] archive [OF _ world_archive_is_archive [of url]] named tiles
    by (cases "url = []") (simp_all add: choose_basemap_def Let_def)
qed

section \<open>Distances on the rings\<close>

definition local_metres :: "coord \<Rightarrow> coord \<Rightarrow> real" where
  "local_metres centre p =
     sqrt (((fst p - fst centre) * metres_per_degree_lon (snd centre))\<^sup>2 + ((snd p - snd centre) * metres_per_degree)\<^sup>2)"

lemma ring_point_distance:
  assumes "0 \<le> radius"
  shows "local_metres centre (ring_point centre radius deg) = radius"
proof -
  have m: "metres_per_degree_lon (snd centre) \<noteq> 0" by (simp add: metres_per_degree_lon_def Let_def)
  have "local_metres centre (ring_point centre radius deg) =
      sqrt ((sin (radians (real deg)) * radius)\<^sup>2 + (cos (radians (real deg)) * radius)\<^sup>2)"
    using m by (simp add: local_metres_def ring_point_def metres_per_degree_def)
  also have "\<dots> = sqrt (radius\<^sup>2 * ((sin (radians (real deg)))\<^sup>2 + (cos (radians (real deg)))\<^sup>2))"
    by (simp only: power_mult_distrib distrib_left mult.commute)
  also have "\<dots> = radius" unfolding sin_cos_squared_add using assms by simp
  finally show ?thesis .
qed

lemma ring_closes: "ring_point centre radius 360 = ring_point centre radius 0"
  by (simp add: ring_point_def radians_def)

lemma ring_slice:
  assumes "i < 12" "rs = take (i + 1 - (i - 2)) (drop (i - 2) ring_steps)"
  shows "length rs \<le> 3 \<and> rs \<noteq> [] \<and> sorted rs \<and> set rs \<subseteq> set ring_steps \<and> last rs = ring_steps ! i"
proof -
  have "i = 0 \<or> i = 1 \<or> i = 2 \<or> i = 3 \<or> i = 4 \<or> i = 5 \<or> i = 6 \<or> i = 7 \<or> i = 8 \<or> i = 9 \<or> i = 10 \<or> i = 11"
    using assms(1) by presburger
  then show ?thesis unfolding assms(2) ring_steps_def by (elim disjE) simp_all
qed

lemma length_ring_steps: "length ring_steps = 12" by (simp add: ring_steps_def)

lemma ring_radii_cover:
  "length (ring_radii_for d) \<le> 3 \<and> ring_radii_for d \<noteq> [] \<and> sorted (ring_radii_for d) \<and>
   set (ring_radii_for d) \<subseteq> set ring_steps \<and> min (d / 2) 200000 \<le> last (ring_radii_for d)"
proof (cases "find_index (\<lambda>s. d / 2 \<le> s) ring_steps")
  case None
  then have "ring_radii_for d = take (11 + 1 - (11 - 2)) (drop (11 - 2) ring_steps)"
    unfolding ring_radii_for_def Let_def by (simp only: option.case length_ring_steps) simp
  moreover have "ring_steps ! 11 = 200000" by (simp add: ring_steps_def)
  ultimately show ?thesis using ring_slice [of 11 "ring_radii_for d"] by simp
next
  case (Some i)
  then have i: "i < 12" "d / 2 \<le> ring_steps ! i"
    using find_index_Some [OF Some] by (simp_all add: length_ring_steps)
  have "ring_radii_for d = take (i + 1 - (i - 2)) (drop (i - 2) ring_steps)"
    unfolding ring_radii_for_def Let_def Some by simp
  from ring_slice [OF i(1) this] i(2) show ?thesis by simp
qed

text \<open>The range rings measure distance: every vertex of a ring lies at the ring's radius from the
  centre, the ring closes, the spokes end on the outermost ring, and the radii chosen for a view are at
  most three, increasing, the last reaching half the view up to the largest ring there is.\<close>

theorem rings_measure_distance:
  "list_all (\<lambda>f. case f of
       Ring r outer ps \<Rightarrow> r \<in> set radii \<and> ps \<noteq> [] \<and> hd ps = last ps \<and>
         (if 0 \<le> r then list_all (\<lambda>p. local_metres centre p = r) ps else True)
     | Spoke deg (a, b) \<Rightarrow> a = centre \<and>
         (if radii = [] then True
          else \<exists>ps. Ring (last radii) True ps \<in> set (range_rings centre radii) \<and> b \<in> set ps))
     (range_rings centre radii) \<and>
   length (ring_radii_for span_metres) \<le> 3 \<and> ring_radii_for span_metres \<noteq> [] \<and>
   sorted (ring_radii_for span_metres) \<and> set (ring_radii_for span_metres) \<subseteq> set ring_steps \<and>
   min (span_metres / 2) 200000 \<le> last (ring_radii_for span_metres)"
proof -
  let ?ring = "\<lambda>r. map (\<lambda>k. ring_point centre r (3 * k)) [0..<121]"
  have closed: "hd (?ring r) = last (?ring r)" for r
    using ring_closes [of centre r] by (simp add: hd_map last_map)
  have on_ring: "ring_point centre r (45 * k) \<in> set (?ring r)" if "k < 8" for r k
  proof -
    have "45 * k = 3 * (15 * k)" "15 * k < 121" using that by simp_all
    then show ?thesis by (metis (mono_tags, lifting) atLeastLessThan_iff image_eqI le0 set_map set_upt)
  qed
  have outer: "Ring (last radii) True (?ring (last radii)) \<in> set (range_rings centre radii)" if "radii \<noteq> []"
  proof -
    have "last radii = radii ! (length radii - 1)" using that by (rule last_conv_nth)
    then show ?thesis using that by (auto simp: range_rings_def intro!: image_eqI [of _ _ "length radii - 1"])
  qed
  have "list_all (\<lambda>f. case f of
       Ring r outer ps \<Rightarrow> r \<in> set radii \<and> ps \<noteq> [] \<and> hd ps = last ps \<and>
         (if 0 \<le> r then list_all (\<lambda>p. local_metres centre p = r) ps else True)
     | Spoke deg (a, b) \<Rightarrow> a = centre \<and>
         (if radii = [] then True
          else \<exists>ps. Ring (last radii) True ps \<in> set (range_rings centre radii) \<and> b \<in> set ps))
     (range_rings centre radii)"
    unfolding list_all_iff
  proof
    fix f assume "f \<in> set (range_rings centre radii)"
    then consider i where "i < length radii" "f = Ring (radii ! i) (i = length radii - 1) (?ring (radii ! i))"
      | k where "k < 8" "f = Spoke (45 * k) (centre, ring_point centre (if radii = [] then 1000 else last radii) (45 * k))"
      by (auto simp: range_rings_def Let_def simp del: upt_Suc upt_rec_numeral)
    then show "case f of
       Ring r outer ps \<Rightarrow> r \<in> set radii \<and> ps \<noteq> [] \<and> hd ps = last ps \<and>
         (if 0 \<le> r then \<forall>p \<in> set ps. local_metres centre p = r else True)
     | Spoke deg (a, b) \<Rightarrow> a = centre \<and>
         (if radii = [] then True
          else \<exists>ps. Ring (last radii) True ps \<in> set (range_rings centre radii) \<and> b \<in> set ps)"
    proof cases
      case 1
      then show ?thesis using closed [of "radii ! i"] ring_point_distance
        by (simp del: upt_Suc upt_rec_numeral)
    next
      case 2
      then show ?thesis using outer on_ring [OF 2(1)] by (auto simp del: upt_Suc upt_rec_numeral)
    qed
  qed
  moreover have "length (ring_radii_for span_metres) \<le> 3 \<and> ring_radii_for span_metres \<noteq> [] \<and>
   sorted (ring_radii_for span_metres) \<and> set (ring_radii_for span_metres) \<subseteq> set ring_steps \<and>
   min (span_metres / 2) 200000 \<le> last (ring_radii_for span_metres)"
    by (rule ring_radii_cover)
  ultimately show ?thesis by blast
qed

end
