(* ===== verification/Markers.thy ===== *)
theory Markers
  imports Units TrackTier
begin

text \<open>
  \<open>features/map/markers.ts\<close> and the effects of \<open>features/map/live-map.tsx\<close> that keep the markers of a
  map: a marker is its position and what its element says. The element of a drone or a manned aircraft
  is created once and updated while its key stays; an operator's is created and only moved. The lists
  of markers are the component's \<open>Map\<close>s. Style classes that carry no reading are left out.
\<close>

section \<open>Elements\<close>

definition middle_dot :: string where "middle_dot = [CHR 0xC2, CHR 0xB7]"

definition confidence_opacity :: "real \<Rightarrow> real" where
  "confidence_opacity confidence =
     of_int (js_round ((0.35 + 0.65 * min 1 (max 0 confidence)) * 100)) / 100"

text \<open>The name a track goes by on the map: serial, first address, end of the identifier.\<close>

definition marker_name :: "track \<Rightarrow> string" where
  "marker_name t =
     nullish (or_else (Option.bind (trk_identity t) id_serial)
       (case Option.bind (trk_identity t) id_macs of Some (m # _) \<Rightarrow> Some m | _ \<Rightarrow> None))
       (take_last 6 (trk_track_id t))"

definition short_label :: "string \<Rightarrow> string" where
  "short_label name = (if 14 < length name then ellipsis @ take_last 11 name else name)"

record drone_options =
  do_track :: track
  do_selected :: bool
  do_selectable :: bool
  do_format :: format_preferences

record drone_node =
  dn_clickable :: bool
  dn_rotation :: real
  dn_opacity :: real
  dn_dim :: bool
  dn_ring_opacity :: real
  dn_ring_px :: nat
  dn_ring_dashed :: bool
  dn_enlarged :: bool
  dn_label :: string
  dn_aria :: string
  dn_title :: string

definition drone_parts :: "drone_options \<Rightarrow> string list" where
  "drone_parts opts =
     (let t = do_track opts;
          heading = Option.bind (trk_current t) pos_track_deg;
          height = Option.bind (trk_current t) pos_height_agl_m
      in [''Drone track'', marker_name t,
          ''state '' @ to_lower (state_text (trk_state t)),
          ''confidence '' @ format_confidence (trk_confidence t),
          (if heading = None then ''heading unknown'' else ''heading '' @ format_heading heading),
          (if height = None then ''height unknown'' else ''height '' @ fmt_length (do_format opts) height),
          (if trk_operator t = None then ''operator position not broadcast'' else ''operator position known'')])"

definition update_drone_marker :: "drone_node \<Rightarrow> drone_options \<Rightarrow> drone_node" where
  "update_drone_marker node opts =
     (let t = do_track opts;
          coasting = (trk_state t = COASTING);
          opacity = confidence_opacity (trk_confidence t)
      in node\<lparr> dn_rotation := nullish (Option.bind (trk_current t) pos_track_deg) 0,
               dn_opacity := (if coasting then opacity * 0.55 else opacity),
               dn_dim := coasting,
               dn_ring_opacity := min 1 (trk_confidence t + 0.15),
               dn_ring_px := (if 0.6 \<le> trk_confidence t then 2 else 1),
               dn_ring_dashed := coasting,
               dn_enlarged := do_selected opts,
               dn_label := short_label (marker_name t),
               dn_aria := join '', '' (drone_parts opts) @ ''.'' @
                 (if do_selectable opts then '' Open track detail.'' else []),
               dn_title := join ('' '' @ middle_dot @ '' '') (take 5 (drone_parts opts)) \<rparr>)"

definition create_drone_marker :: "drone_options \<Rightarrow> drone_node" where
  "create_drone_marker opts =
     update_drone_marker
       \<lparr> dn_clickable = do_selectable opts, dn_rotation = 0, dn_opacity = 0, dn_dim = False,
         dn_ring_opacity = 0, dn_ring_px = 0, dn_ring_dashed = False, dn_enlarged = False,
         dn_label = [], dn_aria = [], dn_title = [] \<rparr> opts"

record manned_options =
  mo_icao :: string
  mo_callsign :: "string option"
  mo_heading_deg :: "real option"
  mo_alt_ft :: "real option"
  mo_selected :: bool
  mo_selectable :: bool
  mo_format :: format_preferences

record manned_node =
  mn_button :: bool
  mn_rotation :: real
  mn_label :: string
  mn_enlarged :: bool
  mn_bold :: bool
  mn_pressed :: "bool option"
  mn_image :: bool
  mn_aria :: string
  mn_title :: string

definition manned_name :: "manned_options \<Rightarrow> string" where
  "manned_name opts =
     (case map_option trim (mo_callsign opts) of
        None \<Rightarrow> mo_icao opts
      | Some c \<Rightarrow> if c = [] then mo_icao opts else c)"

definition manned_description :: "manned_options \<Rightarrow> string" where
  "manned_description opts =
     join '', '' [''Manned aircraft, ADS-B'', manned_name opts,
       (if mo_alt_ft opts = None then ''altitude unknown''
        else ''altitude '' @ fmt_altitude_feet (mo_format opts) (mo_alt_ft opts)),
       ''not a drone'']"

definition update_manned_marker :: "manned_node \<Rightarrow> manned_options \<Rightarrow> manned_node" where
  "update_manned_marker node opts =
     (let shown = node\<lparr> mn_rotation := nullish (mo_heading_deg opts) 0,
            mn_label := ''MANNED '' @ manned_name opts,
            mn_enlarged := mo_selected opts, mn_bold := mo_selected opts,
            mn_title := manned_description opts \<rparr>
      in if mn_button node
         then shown\<lparr> mn_pressed := Some (mo_selected opts),
           mn_aria := manned_description opts @ ''. Show its detail in the contacts list.'' \<rparr>
         else shown\<lparr> mn_image := True, mn_aria := manned_description opts \<rparr>)"

definition create_manned_marker :: "manned_options \<Rightarrow> manned_node" where
  "create_manned_marker opts =
     update_manned_marker
       \<lparr> mn_button = mo_selectable opts, mn_rotation = 0, mn_label = [], mn_enlarged = False,
         mn_bold = False, mn_pressed = None, mn_image = False, mn_aria = [], mn_title = [] \<rparr> opts"

record operator_node =
  on_label :: string
  on_description :: string

definition create_operator_marker :: "string \<Rightarrow> operator_node" where
  "create_operator_marker label =
     \<lparr> on_label = ''OPERATOR'',
       on_description = ''Operator ground position for '' @ label @ ''. Not an aircraft.'' \<rparr>"

section \<open>Keeping markers\<close>

type_synonym ('p, 'n) markers = "(string \<times> 'p \<times> 'n) list"

text \<open>The body of a loop: a marker that exists is updated and moved, another is created.\<close>

definition place_marker ::
  "('a \<Rightarrow> string option) \<Rightarrow> ('a \<Rightarrow> 'p) \<Rightarrow> ('a \<Rightarrow> 'n) \<Rightarrow> ('n \<Rightarrow> 'a \<Rightarrow> 'n) \<Rightarrow> 'a \<Rightarrow> ('p, 'n) markers \<Rightarrow> ('p, 'n) markers" where
  "place_marker key place create update item m =
     (case key item of
        None \<Rightarrow> m
      | Some k \<Rightarrow>
          AList.update k (place item, case map_of m k of None \<Rightarrow> create item | Some (_, n) \<Rightarrow> update n item) m)"

text \<open>The loop over the items and the one that removes what was not seen.\<close>

definition sync_markers ::
  "('a \<Rightarrow> string option) \<Rightarrow> ('a \<Rightarrow> 'p) \<Rightarrow> ('a \<Rightarrow> 'n) \<Rightarrow> ('n \<Rightarrow> 'a \<Rightarrow> 'n) \<Rightarrow> 'a list \<Rightarrow> ('p, 'n) markers \<Rightarrow> ('p, 'n) markers" where
  "sync_markers key place create update items m =
     filter (\<lambda>(k, _). k \<in> set (List.map_filter key items)) (fold (place_marker key place create update) items m)"

definition drone_key :: "track \<Rightarrow> string option" where
  "drone_key t = (if trk_current t = None then None else Some (trk_track_id t))"

definition drone_place :: "track \<Rightarrow> coord" where
  "drone_place t = (case trk_current t of None \<Rightarrow> (0, 0) | Some p \<Rightarrow> coord_of p)"

definition options_of :: "string option \<Rightarrow> bool \<Rightarrow> format_preferences \<Rightarrow> track \<Rightarrow> drone_options" where
  "options_of selected selectable p t =
     \<lparr> do_track = t, do_selected = (Some (trk_track_id t) = selected), do_selectable = selectable, do_format = p \<rparr>"

definition sync_drones ::
  "string option \<Rightarrow> bool \<Rightarrow> format_preferences \<Rightarrow> track list \<Rightarrow> (coord, drone_node) markers \<Rightarrow> (coord, drone_node) markers" where
  "sync_drones selected selectable p tracks m =
     sync_markers drone_key drone_place (\<lambda>t. create_drone_marker (options_of selected selectable p t))
       (\<lambda>n t. update_drone_marker n (options_of selected selectable p t)) tracks m"

definition operator_key :: "track \<Rightarrow> string option" where
  "operator_key t = (if trk_operator t = None then None else Some (trk_track_id t))"

definition operator_place :: "track \<Rightarrow> coord" where
  "operator_place t = (case trk_operator t of None \<Rightarrow> (0, 0) | Some p \<Rightarrow> coord_of p)"

definition operator_label :: "track \<Rightarrow> string" where
  "operator_label t = nullish (Option.bind (trk_identity t) id_serial) (take_last 6 (trk_track_id t))"

definition sync_operators :: "track list \<Rightarrow> (coord, operator_node) markers \<Rightarrow> (coord, operator_node) markers" where
  "sync_operators tracks m =
     sync_markers operator_key operator_place (\<lambda>t. create_operator_marker (operator_label t)) (\<lambda>n t. n) tracks m"

definition manned_key :: "detection \<Rightarrow> string option" where
  "manned_key d =
     (if det_position d = None \<or> \<not> truthy (map_option adsb_icao (det_adsb d)) then None
      else map_option adsb_icao (det_adsb d))"

definition manned_place :: "detection \<Rightarrow> real option \<times> real option" where
  "manned_place d = (case det_position d of None \<Rightarrow> (None, None) | Some p \<Rightarrow> (dp_lon p, dp_lat p))"

definition manned_options_of :: "string option \<Rightarrow> bool \<Rightarrow> format_preferences \<Rightarrow> detection \<Rightarrow> manned_options" where
  "manned_options_of selected selectable p d =
     \<lparr> mo_icao = nullish (map_option adsb_icao (det_adsb d)) [],
       mo_callsign = Option.bind (det_adsb d) adsb_callsign,
       mo_heading_deg = Option.bind (det_kinematics d) dk_track_deg,
       mo_alt_ft = Option.bind (det_adsb d) adsb_alt_ft,
       mo_selected = (map_option adsb_icao (det_adsb d) = selected \<and> selected \<noteq> None),
       mo_selectable = selectable, mo_format = p \<rparr>"

definition sync_manned ::
  "string option \<Rightarrow> bool \<Rightarrow> format_preferences \<Rightarrow> detection list \<Rightarrow>
     (real option \<times> real option, manned_node) markers \<Rightarrow> (real option \<times> real option, manned_node) markers" where
  "sync_manned selected selectable p adsb m =
     sync_markers manned_key manned_place (\<lambda>d. create_manned_marker (manned_options_of selected selectable p d))
       (\<lambda>n d. update_manned_marker n (manned_options_of selected selectable p d)) adsb m"

section \<open>A layer of markers\<close>

text \<open>
  What a layer asks of its elements: whatever an element says is decided by the item it was last given,
  for elements of the layer's kind \<open>mine\<close>. Then the markers depend on the last list of items only.
\<close>

definition last_of :: "('a \<Rightarrow> string option) \<Rightarrow> string \<Rightarrow> 'a list \<Rightarrow> 'a option" where
  "last_of key k items = find (\<lambda>a. key a = Some k) (rev items)"

locale marker_layer =
  fixes key :: "'a \<Rightarrow> string option"
    and place :: "'a \<Rightarrow> 'p"
    and create :: "'a \<Rightarrow> 'n"
    and update :: "'n \<Rightarrow> 'a \<Rightarrow> 'n"
    and mine :: "'n \<Rightarrow> bool"
  assumes mine_create: "mine (create a)"
    and update_create: "mine n \<Longrightarrow> update n a = create a"
begin

definition well_kept :: "('p, 'n) markers \<Rightarrow> bool" where
  "well_kept m \<longleftrightarrow> distinct (map fst m) \<and> list_all (\<lambda>(_, _, n). mine n) m"

lemma well_kept_lookup: "well_kept m \<Longrightarrow> map_of m k = Some (p, n) \<Longrightarrow> mine n"
  by (auto simp: well_kept_def list_all_iff dest!: map_of_SomeD)

lemma place_marker_lookup:
  assumes "well_kept m"
  shows "map_of (place_marker key place create update a m) k =
    (if key a = Some k then Some (place a, create a) else map_of m k)"
  using well_kept_lookup [OF assms] update_create
  by (auto simp: place_marker_def update_conv' split: option.splits)

lemma place_marker_kept:
  assumes "well_kept m"
  shows "well_kept (place_marker key place create update a m)"
proof (cases "key a")
  case None
  then show ?thesis using assms by (simp add: place_marker_def)
next
  case (Some k)
  let ?n = "case map_of m k of None \<Rightarrow> create a | Some (_, n) \<Rightarrow> update n a"
  have "mine ?n"
    using well_kept_lookup [OF assms, of k] update_create mine_create by (auto split: option.split)
  moreover have "x \<in> set (AList.update k v m) \<Longrightarrow> x = (k, v) \<or> x \<in> set m" for x v
    by (induction m) (auto split: if_splits)
  ultimately show ?thesis
    using assms Some distinct_update [of m k] by (fastforce simp: well_kept_def place_marker_def list_all_iff)
qed

lemma fold_place_marker:
  "well_kept m \<Longrightarrow>
     well_kept (fold (place_marker key place create update) items m) \<and>
     map_of (fold (place_marker key place create update) items m) k =
       (case last_of key k items of None \<Rightarrow> map_of m k | Some a \<Rightarrow> Some (place a, create a))"
proof (induction items arbitrary: m)
  case (Cons a items)
  have "find P (xs @ [x]) = (case find P xs of None \<Rightarrow> (if P x then Some x else None) | Some y \<Rightarrow> Some y)" for P xs and x :: 'a
    by (induction xs) simp_all
  then show ?case
    using Cons.IH [OF place_marker_kept [OF Cons.prems]] place_marker_lookup [OF Cons.prems]
    by (simp add: last_of_def split: option.split)
qed (simp add: last_of_def)

lemma sync_kept:
  assumes "well_kept m"
  shows "well_kept (sync_markers key place create update items m)"
  using fold_place_marker [OF assms] distinct_map_filter
  by (fastforce simp: well_kept_def sync_markers_def list_all_iff distinct_map_filter)

lemma sync_shows:
  assumes "well_kept m"
  shows "map_of (sync_markers key place create update items m) k =
    map_option (\<lambda>a. (place a, create a)) (last_of key k items)"
proof -
  have "k \<in> set (List.map_filter key items) \<longleftrightarrow> last_of key k items \<noteq> None"
    by (force simp: last_of_def find_None_iff List.map_filter_def)
  moreover have "map_of (filter (\<lambda>(j, _). j \<in> S) xs) k = (if k \<in> S then map_of xs k else None)" for S and xs :: "('p, 'n) markers"
    by (induction xs) auto
  ultimately show ?thesis
    using fold_place_marker [OF assms, of items k] by (auto simp: sync_markers_def split: option.splits)
qed

end

lemma updated_drone: "dn_clickable n = do_selectable opts \<Longrightarrow> update_drone_marker n opts = create_drone_marker opts"
  by (cases n) (simp add: create_drone_marker_def update_drone_marker_def Let_def)

lemma created_drone: "dn_clickable (create_drone_marker opts) = do_selectable opts"
  by (simp add: create_drone_marker_def update_drone_marker_def Let_def)

definition manned_kind :: "bool \<Rightarrow> manned_node \<Rightarrow> bool" where
  "manned_kind selectable n \<longleftrightarrow>
     mn_button n = selectable \<and> mn_image n = (\<not> selectable) \<and> (mn_pressed n \<noteq> None) = selectable"

lemma updated_manned: "manned_kind (mo_selectable opts) n \<Longrightarrow> update_manned_marker n opts = create_manned_marker opts"
  by (cases n; cases "mo_selectable opts")
    (simp_all add: create_manned_marker_def update_manned_marker_def manned_kind_def Let_def)

lemma created_manned: "manned_kind (mo_selectable opts) (create_manned_marker opts)"
  by (simp add: create_manned_marker_def update_manned_marker_def manned_kind_def Let_def)

interpretation drones: marker_layer drone_key drone_place
    "\<lambda>t. create_drone_marker (options_of selected selectable p t)"
    "\<lambda>n t. update_drone_marker n (options_of selected selectable p t)" "\<lambda>n. dn_clickable n = selectable"
  for selected selectable p
  by unfold_locales (simp_all add: options_of_def created_drone updated_drone)

interpretation manned: marker_layer manned_key manned_place
    "\<lambda>d. create_manned_marker (manned_options_of selected selectable p d)"
    "\<lambda>n d. update_manned_marker n (manned_options_of selected selectable p d)" "manned_kind selectable"
  for selected selectable p
proof unfold_locales
  have sel: "mo_selectable (manned_options_of selected selectable p a) = selectable" for a
    by (simp add: manned_options_of_def)
  show "manned_kind selectable (create_manned_marker (manned_options_of selected selectable p a))" for a
    using created_manned [of "manned_options_of selected selectable p a"] by (simp add: sel)
  show "update_manned_marker n (manned_options_of selected selectable p a) =
      create_manned_marker (manned_options_of selected selectable p a)" if "manned_kind selectable n" for n a
    using that updated_manned [of "manned_options_of selected selectable p a" n] by (simp add: sel)
qed

text \<open>An operator's element is never updated, so only its position is a layer.\<close>

interpretation operators: marker_layer operator_key operator_place "\<lambda>t. ()" "\<lambda>n t. ()" "\<lambda>n. True"
  by unfold_locales simp_all

lemma sync_markers_map:
  assumes "\<And>n a. h (update n a) = update' (h n) a" "\<And>a. h (create a) = create' a"
  shows "map (\<lambda>(k, p, n). (k, p, h n)) (sync_markers key place create update items m) =
    sync_markers key place create' update' items (map (\<lambda>(k, p, n). (k, p, h n)) m)"
proof -
  let ?h = "\<lambda>(k, p, n). (k, p, h n)"
  have look: "map_of (map ?h xs) k = map_option (\<lambda>(p, n). (p, h n)) (map_of xs k)" for xs k
    by (induction xs) auto
  have upd: "map ?h (AList.update k (p, n) xs) = AList.update k (p, h n) (map ?h xs)" for k p n xs
    by (induction xs) auto
  have step: "map ?h (place_marker key place create update a xs) =
      place_marker key place create' update' a (map ?h xs)" for a xs
    by (auto simp: place_marker_def look upd assms split: option.split)
  have "map ?h (fold (place_marker key place create update) items m) =
      fold (place_marker key place create' update') items (map ?h m)"
    by (induction items arbitrary: m) (simp_all add: step)
  moreover have "map ?h (filter (\<lambda>(k, _). k \<in> S) xs) = filter (\<lambda>(k, _). k \<in> S) (map ?h xs)" for S xs
    by (induction xs) auto
  ultimately show ?thesis unfolding sync_markers_def by metis
qed

section \<open>The markers of a map\<close>

record map_markers =
  mm_drones :: "(coord, drone_node) markers"
  mm_operators :: "(coord, operator_node) markers"
  mm_manned :: "(real option \<times> real option, manned_node) markers"

definition no_markers :: map_markers where
  "no_markers = \<lparr> mm_drones = [], mm_operators = [], mm_manned = [] \<rparr>"

text \<open>The two effects, and the map being taken down, which removes every marker. Whether contacts can be
  selected is settled by the page the map is on.\<close>

datatype marker_event =
    Tracks_Given "string option" format_preferences "track list"
  | Adsb_Given "string option" format_preferences "detection list"
  | Map_Removed

fun marker_step :: "bool \<Rightarrow> bool \<Rightarrow> marker_event \<Rightarrow> map_markers \<Rightarrow> map_markers" where
  "marker_step on_track on_manned (Tracks_Given sel p tracks) mm =
     mm\<lparr> mm_drones := sync_drones sel on_track p tracks (mm_drones mm),
        mm_operators := sync_operators tracks (mm_operators mm) \<rparr>"
| "marker_step on_track on_manned (Adsb_Given sel p adsb) mm =
     mm\<lparr> mm_manned := sync_manned sel on_manned p adsb (mm_manned mm) \<rparr>"
| "marker_step on_track on_manned Map_Removed mm = no_markers"

definition run_markers :: "bool \<Rightarrow> bool \<Rightarrow> marker_event list \<Rightarrow> map_markers" where
  "run_markers on_track on_manned evs = fold (marker_step on_track on_manned) evs no_markers"

text \<open>What the map was last given since it was made.\<close>

fun given :: "marker_event list \<Rightarrow>
    (string option \<times> format_preferences \<times> track list) option \<times>
    (string option \<times> format_preferences \<times> detection list) option" where
  "given [] = (None, None)"
| "given (e # evs) =
     (case given evs of (t, a) \<Rightarrow>
        (case e of Tracks_Given s p ts \<Rightarrow> (Some (s, p, ts), a) | Adsb_Given s p ds \<Rightarrow> (t, Some (s, p, ds))
         | Map_Removed \<Rightarrow> (None, None)))"

lemma run_markers_snoc: "run_markers t a (evs @ [e]) = marker_step t a e (run_markers t a evs)"
  by (simp add: run_markers_def)

definition positions :: "('p, 'n) markers \<Rightarrow> ('p, unit) markers" where
  "positions m = map (\<lambda>(k, p, n). (k, p, ())) m"

lemma sync_operators_positions:
  "positions (sync_operators tracks m) =
     sync_markers operator_key operator_place (\<lambda>t. ()) (\<lambda>n t. ()) tracks (positions m)"
  unfolding positions_def sync_operators_def by (rule sync_markers_map) simp_all

definition layers_kept :: "bool \<Rightarrow> bool \<Rightarrow> map_markers \<Rightarrow> bool" where
  "layers_kept on_track on_manned mm \<longleftrightarrow>
     distinct (map fst (mm_drones mm)) \<and> list_all (\<lambda>(_, _, n). dn_clickable n = on_track) (mm_drones mm) \<and>
     distinct (map fst (mm_manned mm)) \<and> list_all (\<lambda>(_, _, n). manned_kind on_manned n) (mm_manned mm) \<and>
     distinct (map fst (positions (mm_operators mm)))"

lemma layers_kept_run: "layers_kept t a (run_markers t a evs)"
proof (induction evs rule: rev_induct)
  case Nil
  show ?case by (simp add: layers_kept_def run_markers_def no_markers_def positions_def)
next
  case (snoc e evs)
  let ?mm = "run_markers t a evs"
  have "drones.well_kept t (mm_drones ?mm)" "manned.well_kept a (mm_manned ?mm)"
    "operators.well_kept (positions (mm_operators ?mm))"
    using snoc by (simp_all add: layers_kept_def drones.well_kept_def manned.well_kept_def
        operators.well_kept_def list_all_iff)
  note kept = drones.sync_kept [OF this(1)] manned.sync_kept [OF this(2)] operators.sync_kept [OF this(3)]
  show ?case
    using snoc kept
    by (cases e) (simp_all add: run_markers_snoc layers_kept_def drones.well_kept_def manned.well_kept_def
        operators.well_kept_def sync_drones_def sync_manned_def sync_operators_positions no_markers_def
        positions_def [of "[]"])
qed

text \<open>C21: The markers on the map are those of the last tracks and the last manned traffic it was given,
  whatever came before: an aircraft has a marker exactly when the last list has a track with that
  identifier and a current fix, the marker stands at the fix of the last such track and its element says
  what a new one would; operators stand where the last list puts them; and nothing outlives the map.\<close>

theorem markers_show_what_was_given:
  "let mm = run_markers on_track on_manned evs; (tracks, adsb) = given (rev evs)
   in map_of (mm_drones mm) k =
        Option.bind tracks (\<lambda>(sel, p, ts). map_option
          (\<lambda>t. (drone_place t, create_drone_marker (options_of sel on_track p t))) (last_of drone_key k ts)) \<and>
      map_of (mm_manned mm) k =
        Option.bind adsb (\<lambda>(sel, p, ds). map_option
          (\<lambda>d. (manned_place d, create_manned_marker (manned_options_of sel on_manned p d))) (last_of manned_key k ds)) \<and>
      map_option fst (map_of (mm_operators mm) k) =
        Option.bind tracks (\<lambda>(sel, p, ts). map_option operator_place (last_of operator_key k ts))"
proof (induction evs rule: rev_induct)
  case Nil
  show ?case by (simp add: run_markers_def no_markers_def)
next
  case (snoc e evs)
  let ?mm = "run_markers on_track on_manned evs"
  note kept = layers_kept_run [of on_track on_manned evs, unfolded layers_kept_def]
  have pos: "map_option fst (map_of xs k) = map_option fst (map_of (positions xs) k)"
    for xs :: "(coord, operator_node) markers"
    by (induction xs) (auto simp: positions_def)
  show ?case
  proof (cases e)
    case (Tracks_Given sel p ts)
    have "map_of (sync_drones sel on_track p ts (mm_drones ?mm)) k = map_option
        (\<lambda>t. (drone_place t, create_drone_marker (options_of sel on_track p t))) (last_of drone_key k ts)"
      unfolding sync_drones_def using kept by (intro drones.sync_shows) (simp add: drones.well_kept_def)
    moreover have "map_of (positions (sync_operators ts (mm_operators ?mm))) k =
        map_option (\<lambda>t. (operator_place t, ())) (last_of operator_key k ts)"
      unfolding sync_operators_positions using kept
      by (intro operators.sync_shows) (simp add: operators.well_kept_def list_all_iff)
    then have "map_option fst (map_of (sync_operators ts (mm_operators ?mm)) k) =
        map_option operator_place (last_of operator_key k ts)"
      unfolding pos by (simp add: option.map_comp comp_def)
    ultimately show ?thesis
      using snoc.IH Tracks_Given by (simp add: run_markers_snoc Let_def split: prod.splits)
  next
    case (Adsb_Given sel p ds)
    have "map_of (sync_manned sel on_manned p ds (mm_manned ?mm)) k = map_option
        (\<lambda>d. (manned_place d, create_manned_marker (manned_options_of sel on_manned p d))) (last_of manned_key k ds)"
      unfolding sync_manned_def using kept by (intro manned.sync_shows) (simp add: manned.well_kept_def)
    then show ?thesis
      using snoc.IH Adsb_Given by (simp add: run_markers_snoc Let_def split: prod.splits)
  next
    case Map_Removed
    then show ?thesis by (simp add: run_markers_snoc no_markers_def split: prod.split)
  qed
qed

text \<open>An operator's marker keeps the name it was created with: when the aircraft's serial becomes known
  later, the marker is moved but its description still names the end of the track's identifier.\<close>

theorem operator_name_goes_stale:
  assumes "trk_operator t \<noteq> None" "trk_operator t' = Some q" "trk_track_id t' = trk_track_id t"
    and "trk_identity t = None"
  shows "map_of (mm_operators (run_markers on_track on_manned [Tracks_Given None p [t], Tracks_Given None p [t']])) (trk_track_id t) =
    Some (coord_of q, create_operator_marker (take_last 6 (trk_track_id t)))"
proof -
  have "operator_key t = Some (trk_track_id t)" "operator_key t' = Some (trk_track_id t)"
    "operator_place t' = coord_of q" "operator_label t = take_last 6 (trk_track_id t)"
    using assms by (simp_all add: operator_key_def operator_place_def operator_label_def)
  then show ?thesis
    by (simp add: run_markers_def no_markers_def sync_operators_def sync_markers_def place_marker_def map_filter_simps)
qed

definition standing_operator :: position where
  "standing_operator = \<lparr> pos_lat = 47, pos_lon = 8, pos_alt_geodetic_m = None, pos_height_agl_m = None,
     pos_terrain_elevation_m = None, pos_speed_mps = None, pos_track_deg = None, pos_at = None \<rparr>"

definition plain_format :: format_preferences where
  "plain_format = \<lparr> fp_units = Metric, fp_coord_format = Decimal_Degrees, fp_clock = Hours_24, fp_zone = Utc_Zone,
     fp_style = Both_Styles \<rparr>"

theorem operator_name_goes_stale_witness:
  "let t = sample_track\<lparr> trk_operator := Some standing_operator, trk_identity := None \<rparr>;
       t' = t\<lparr> trk_identity := Some \<lparr> id_serial = Some ''1581F'', id_macs = None, id_vendor = None,
         id_manufacturer_code = None, id_model_hint = None, id_operator_id = None, id_ua_type = None \<rparr> \<rparr>
   in map_of (mm_operators (run_markers True True [Tracks_Given None plain_format [t], Tracks_Given None plain_format [t']])) ''T1'' =
        Some ((8, 47), create_operator_marker ''T1'') \<and> operator_label t' = ''1581F''"
  using operator_name_goes_stale [of "sample_track\<lparr> trk_operator := Some standing_operator, trk_identity := None \<rparr>"
    "sample_track\<lparr> trk_operator := Some standing_operator, trk_identity := Some \<lparr> id_serial = Some ''1581F'', id_macs = None,
       id_vendor = None, id_manufacturer_code = None, id_model_hint = None, id_operator_id = None, id_ua_type = None \<rparr> \<rparr>"
    standing_operator True True plain_format]
  by (simp add: sample_track_def standing_operator_def coord_of_def operator_label_def take_last_def Let_def)

end
