(* ===== verification/JsJson.thy ===== *)
theory JsJson
  imports ApiTypes JsNumber
begin

text \<open>
  \<open>JSON.stringify\<close> and \<open>JSON.parse\<close>, which the exports and the browser storage go through, over the
  \<^typ>\<open>json\<close> values of the model, and the law the rest relies on: a printed value reads back. The
  decimal text of a number and its reading are parameters. An object is the list of its members in
  order, with one member per key; the order JavaScript gives to keys that are array indices is not
  modelled. Characters outside ASCII are UTF-8 bytes, as in the rest of the model.
\<close>

section \<open>Strings\<close>

definition quote_char :: char where "quote_char = CHR 0x22"
definition backslash :: char where "backslash = CHR 0x5C"
definition newline :: char where "newline = CHR 0x0A"

definition hex_char :: "nat \<Rightarrow> char" where
  "hex_char n = (if n < 10 then char_of (48 + n) else char_of (87 + n))"

definition escape_char :: "char \<Rightarrow> string" where
  "escape_char c =
     (if c = quote_char \<or> c = backslash then [backslash, c]
      else if c = CHR 0x08 then [backslash, CHR ''b'']
      else if c = CHR 0x0C then [backslash, CHR ''f'']
      else if c = newline then [backslash, CHR ''n'']
      else if c = CHR 0x0D then [backslash, CHR ''r'']
      else if c = CHR 0x09 then [backslash, CHR ''t'']
      else if of_char c < (32::nat) then
        [backslash, CHR ''u'', CHR ''0'', CHR ''0'', hex_char (of_char c div 16), hex_char (of_char c mod 16)]
      else [c])"

definition json_string :: "string \<Rightarrow> string" where
  "json_string s = quote_char # concat (map escape_char s) @ [quote_char]"

definition hex_read :: "char \<Rightarrow> nat option" where
  "hex_read c =
     (let n = (of_char c :: nat)
      in if 48 \<le> n \<and> n \<le> 57 then Some (n - 48)
         else if 97 \<le> n \<and> n \<le> 102 then Some (n - 87)
         else if 65 \<le> n \<and> n \<le> 70 then Some (n - 55) else None)"

text \<open>A code unit of an escape as UTF-8; the halves of a surrogate pair stay apart.\<close>

definition utf8 :: "nat \<Rightarrow> string" where
  "utf8 n =
     (if n < 128 then [char_of n]
      else if n < 2048 then [char_of (192 + n div 64), char_of (128 + n mod 64)]
      else [char_of (224 + n div 4096), char_of (128 + n div 64 mod 64), char_of (128 + n mod 64)])"

definition plain_escape :: "char \<Rightarrow> char option" where
  "plain_escape c =
     (if c = quote_char \<or> c = backslash \<or> c = CHR ''/'' then Some c
      else if c = CHR ''b'' then Some (CHR 0x08)
      else if c = CHR ''f'' then Some (CHR 0x0C)
      else if c = CHR ''n'' then Some newline
      else if c = CHR ''r'' then Some (CHR 0x0D)
      else if c = CHR ''t'' then Some (CHR 0x09) else None)"

text \<open>The rest of a string literal, after its opening quote, and what follows it.\<close>

fun read_string :: "string \<Rightarrow> (string \<times> string) option" where
  "read_string [] = None"
| "read_string (c # cs) =
     (if c = quote_char then Some ([], cs)
      else if c = backslash then
        (case cs of [] \<Rightarrow> None
         | e # r \<Rightarrow>
             if e = CHR ''u'' then
               (case r of
                  h1 # h2 # h3 # h4 # r' \<Rightarrow>
                    (case (hex_read h1, hex_read h2, hex_read h3, hex_read h4) of
                       (Some a, Some b, Some c', Some d) \<Rightarrow>
                         map_option (\<lambda>(s, t). (utf8 (((a * 16 + b) * 16 + c') * 16 + d) @ s, t)) (read_string r')
                     | _ \<Rightarrow> None)
                | _ \<Rightarrow> None)
             else
               (case plain_escape e of None \<Rightarrow> None
                | Some x \<Rightarrow> map_option (\<lambda>(s, t). (x # s, t)) (read_string r)))
      else if of_char c < (32::nat) then None
      else map_option (\<lambda>(s, t). (c # s, t)) (read_string cs))"

lemmas char_defs = quote_char_def backslash_def newline_def

lemma hex_low:
  "n < 16 \<Longrightarrow> hex_read (hex_char n) = Some n"
  by (cases "n < 10") (simp_all add: hex_read_def hex_char_def Let_def)

lemma hex_zero: "hex_read (CHR ''0'') = Some 0"
  by (simp add: hex_read_def)

lemma read_escaped:
  "read_string (escape_char c @ s) = map_option (\<lambda>(u, t). (c # u, t)) (read_string s)"
proof (cases "of_char c < (32::nat) \<and> c \<notin> {CHR 0x08, CHR 0x0C, newline, CHR 0x0D, CHR 0x09}")
  case True
  let ?n = "of_char c :: nat"
  have n: "?n < 32" and other: "c \<noteq> CHR 0x08" "c \<noteq> CHR 0x0C" "c \<noteq> newline" "c \<noteq> CHR 0x0D" "c \<noteq> CHR 0x09"
    using True by simp_all
  have "c \<noteq> quote_char" "c \<noteq> backslash"
    using n by (intro notI; simp add: char_defs)+
  with n other have e: "escape_char c = [backslash, CHR ''u'', CHR ''0'', CHR ''0'', hex_char (?n div 16), hex_char (?n mod 16)]"
    by (simp add: escape_char_def)
  have h: "hex_read (hex_char (?n div 16)) = Some (?n div 16)" "hex_read (hex_char (?n mod 16)) = Some (?n mod 16)"
    using n by (auto intro!: hex_low)
  have u: "utf8 (?n div 16 * 16 + ?n mod 16) = [c]"
    using n by (simp add: utf8_def)
  have b: "backslash \<noteq> quote_char" by (simp add: char_defs)
  show ?thesis
    using u by (simp add: e h hex_zero b case_prod_unfold)
next
  case False
  then consider "c = quote_char" | "c = backslash" | "c = CHR 0x08" | "c = CHR 0x0C" | "c = newline"
    | "c = CHR 0x0D" | "c = CHR 0x09"
    | "c \<noteq> quote_char" "c \<noteq> backslash" "32 \<le> (of_char c :: nat)"
      "c \<noteq> CHR 0x08" "c \<noteq> CHR 0x0C" "c \<noteq> newline" "c \<noteq> CHR 0x0D" "c \<noteq> CHR 0x09"
    by fastforce
  then show ?thesis
    by cases (simp_all add: escape_char_def plain_escape_def char_defs)
qed

lemma read_json_string: "read_string (concat (map escape_char s) @ quote_char # r) = Some (s, r)"
  by (induction s) (simp_all add: read_escaped)

lemma escaped_no_newline: "newline \<notin> set (escape_char c)"
  by (auto simp: escape_char_def char_defs hex_char_def dest!: arg_cong [of _ _ "of_char :: char \<Rightarrow> nat"])

section \<open>Values\<close>

definition line_break :: "string \<Rightarrow> string \<Rightarrow> string" where
  "line_break gap indent = (if gap = [] then [] else newline # indent)"

text \<open>\<open>JSON.stringify(value, null, gap)\<close>; without a gap it is the compact text.\<close>

fun print_json :: "(real \<Rightarrow> string) \<Rightarrow> string \<Rightarrow> string \<Rightarrow> json \<Rightarrow> string" where
  "print_json num gap indent JNull = ''null''"
| "print_json num gap indent (JBool b) = (if b then ''true'' else ''false'')"
| "print_json num gap indent (JNum x) = num x"
| "print_json num gap indent (JStr s) = json_string s"
| "print_json num gap indent (JArr vs) =
     (if vs = [] then ''[]''
      else CHR ''['' # line_break gap (indent @ gap) @
        join (CHR '','' # line_break gap (indent @ gap)) (map (print_json num gap (indent @ gap)) vs) @
        line_break gap indent @ '']'')"
| "print_json num gap indent (JObj ms) =
     (if ms = [] then ''{}''
      else CHR ''{'' # line_break gap (indent @ gap) @
        join (CHR '','' # line_break gap (indent @ gap))
          (map (\<lambda>(k, v). json_string k @ (if gap = [] then '':'' else '': '') @
             print_json num gap (indent @ gap) v) ms) @
        line_break gap indent @ ''}'')"

definition stringify :: "(real \<Rightarrow> string) \<Rightarrow> json \<Rightarrow> string" where
  "stringify num v = print_json num [] [] v"

text \<open>The blanks between tokens, and the numbers JSON has: no plus sign, no leading zero, and a digit on
  both sides of a point.\<close>

definition json_blank :: "char \<Rightarrow> bool" where
  "json_blank c \<longleftrightarrow> c = CHR '' '' \<or> c = newline \<or> c = CHR 0x0D \<or> c = CHR 0x09"

definition skip_blanks :: "string \<Rightarrow> string" where
  "skip_blanks s = dropWhile json_blank s"

definition number_char :: "char \<Rightarrow> bool" where
  "number_char c \<longleftrightarrow> is_digit c \<or> c \<in> {CHR ''-'', CHR ''+'', CHR ''.'', CHR ''e'', CHR ''E''}"

definition json_number :: "string \<Rightarrow> real option" where
  "json_number t =
     (let r = (if t \<noteq> [] \<and> hd t = CHR ''-'' then tl t else t);
          whole = takeWhile is_digit r; rest = dropWhile is_digit r;
          dotted = (rest \<noteq> [] \<and> hd rest = CHR ''.'')
      in if whole = [] \<or> (hd whole = CHR ''0'' \<and> length whole > 1) \<or>
           (dotted \<and> takeWhile is_digit (tl rest) = []) then None
         else js_number t)"

definition put_member :: "string \<times> json \<Rightarrow> (string \<times> json) list \<Rightarrow> (string \<times> json) list" where
  "put_member kv ms = AList.update (fst kv) (snd kv) ms"

fun read_value :: "nat \<Rightarrow> string \<Rightarrow> (json \<times> string) option"
  and read_items :: "nat \<Rightarrow> string \<Rightarrow> (json list \<times> string) option"
  and read_members :: "nat \<Rightarrow> string \<Rightarrow> ((string \<times> json) list \<times> string) option" where
  "read_value 0 s = None"
| "read_value (Suc n) s =
     (case skip_blanks s of [] \<Rightarrow> None
      | c # r \<Rightarrow>
          if c = quote_char then map_option (\<lambda>(t, u). (JStr t, u)) (read_string r)
          else if c = CHR ''['' then
            (if take 1 (skip_blanks r) = '']'' then Some (JArr [], drop 1 (skip_blanks r))
             else map_option (\<lambda>(vs, u). (JArr vs, u)) (read_items n r))
          else if c = CHR ''{'' then
            (if take 1 (skip_blanks r) = ''}'' then Some (JObj [], drop 1 (skip_blanks r))
             else map_option (\<lambda>(ms, u). (JObj (fold put_member ms []), u)) (read_members n r))
          else if take 4 (c # r) = ''null'' then Some (JNull, drop 4 (c # r))
          else if take 4 (c # r) = ''true'' then Some (JBool True, drop 4 (c # r))
          else if take 5 (c # r) = ''false'' then Some (JBool False, drop 5 (c # r))
          else map_option (\<lambda>x. (JNum x, dropWhile number_char (c # r)))
                 (json_number (takeWhile number_char (c # r))))"
| "read_items 0 s = None"
| "read_items (Suc n) s =
     (case read_value n s of None \<Rightarrow> None
      | Some (v, r) \<Rightarrow>
          (case skip_blanks r of [] \<Rightarrow> None
           | c # u \<Rightarrow>
               if c = CHR '']'' then Some ([v], u)
               else if c = CHR '','' then map_option (\<lambda>(vs, w). (v # vs, w)) (read_items n u)
               else None))"
| "read_members 0 s = None"
| "read_members (Suc n) s =
     (case skip_blanks s of [] \<Rightarrow> None
      | q # r \<Rightarrow>
          if q \<noteq> quote_char then None
          else (case read_string r of None \<Rightarrow> None
            | Some (k, r1) \<Rightarrow>
                if take 1 (skip_blanks r1) \<noteq> '':'' then None
                else (case read_value n (drop 1 (skip_blanks r1)) of None \<Rightarrow> None
                  | Some (v, r2) \<Rightarrow>
                      (case skip_blanks r2 of [] \<Rightarrow> None
                       | c # u \<Rightarrow>
                           if c = CHR ''}'' then Some ([(k, v)], u)
                           else if c = CHR '','' then map_option (\<lambda>(ms, w). ((k, v) # ms, w)) (read_members n u)
                           else None))))"

text \<open>\<open>JSON.parse\<close>; \<^term>\<open>None\<close> is the SyntaxError. Every value takes a character, so the fuel does not
  run out before the text does.\<close>

definition json_parse :: "string \<Rightarrow> json option" where
  "json_parse s =
     (case read_value (2 * length s + 1) s of
        Some (v, r) \<Rightarrow> if skip_blanks r = [] then Some v else None
      | None \<Rightarrow> None)"

section \<open>A printed value reads back\<close>

text \<open>What is asked of the text of a number, and of a value: its numbers print, and an object has one
  member per key.\<close>

definition prints :: "(real \<Rightarrow> string) \<Rightarrow> real \<Rightarrow> bool" where
  "prints num x \<longleftrightarrow> list_all number_char (num x) \<and> json_number (num x) = Some x"

fun printable :: "(real \<Rightarrow> string) \<Rightarrow> json \<Rightarrow> bool" where
  "printable num (JNum x) = prints num x"
| "printable num (JArr vs) = list_all (printable num) vs"
| "printable num (JObj ms) = (distinct (map fst ms) \<and> list_all (\<lambda>kv. printable num (snd kv)) ms)"
| "printable num _ = True"

fun value_fuel :: "json \<Rightarrow> nat" where
  "value_fuel (JArr vs) = Suc (sum_list (map (\<lambda>v. Suc (value_fuel v)) vs))"
| "value_fuel (JObj ms) = Suc (sum_list (map (\<lambda>kv. Suc (value_fuel (snd kv))) ms))"
| "value_fuel _ = 1"

definition ends_number :: "string \<Rightarrow> bool" where
  "ends_number r \<longleftrightarrow> (r = [] \<or> \<not> number_char (hd r))"

lemma number_char_head:
  "number_char c \<Longrightarrow> c \<noteq> quote_char \<and> \<not> json_blank c \<and> c \<notin> {CHR ''['', CHR ''{'', CHR '']'', CHR ''}'', CHR ''n'', CHR ''t'', CHR ''f''}"
  by (auto simp: number_char_def json_blank_def char_defs is_digit_def digit_value_def split: if_splits)

lemma skip_line_break [simp]:
  "list_all json_blank indent \<Longrightarrow> skip_blanks (line_break gap indent @ s) = skip_blanks s"
  by (induction indent) (auto simp: line_break_def skip_blanks_def json_blank_def char_defs)

lemma skip_blank [simp]: "json_blank c \<Longrightarrow> skip_blanks (c # s) = skip_blanks s"
  by (simp add: skip_blanks_def)

lemma skip_token [simp]: "\<not> json_blank c \<Longrightarrow> skip_blanks (c # s) = c # s"
  by (simp add: skip_blanks_def)

lemma read_value_blanks: "read_value n (line_break gap indent @ s) = read_value n s"
  if "list_all json_blank indent"
  using that by (cases n) simp_all

lemma read_items_blanks: "read_items n (line_break gap indent @ s) = read_items n s"
  if "list_all json_blank indent"
  using that by (cases n) (simp_all add: read_value_blanks)

lemma read_members_blanks: "read_members n (line_break gap indent @ s) = read_members n s"
  if "list_all json_blank indent"
  using that by (cases n) simp_all

lemma token_chars [simp]:
  "\<not> json_blank quote_char" "\<not> json_blank (CHR ''['')" "\<not> json_blank (CHR ''{'')"
  "\<not> json_blank (CHR '']'')" "\<not> json_blank (CHR ''}'')" "\<not> json_blank (CHR '','')"
  "\<not> json_blank (CHR '':'')" "\<not> json_blank (CHR ''n'')" "\<not> json_blank (CHR ''t'')"
  "\<not> json_blank (CHR ''f'')" "json_blank (CHR '' '')" "quote_char \<noteq> CHR ''[''" "quote_char \<noteq> CHR ''{''"
  "CHR ''['' \<noteq> quote_char" "CHR ''{'' \<noteq> quote_char" "CHR ''n'' \<noteq> quote_char" "CHR ''t'' \<noteq> quote_char"
  "CHR ''f'' \<noteq> quote_char"
  by (simp_all add: json_blank_def char_defs)

lemma ends_number_token [simp]:
  "ends_number (CHR '','' # s)" "ends_number (CHR '']'' # s)" "ends_number (CHR ''}'' # s)" "ends_number []"
  by (simp_all add: ends_number_def number_char_def is_digit_def digit_value_def)

lemma ends_number_line_break: "ends_number s \<Longrightarrow> ends_number (line_break gap indent @ s)"
  by (cases gap) (simp_all add: line_break_def ends_number_def number_char_def is_digit_def digit_value_def newline_def)

lemma read_number_text:
  assumes "prints num x" "ends_number r"
  shows "read_value (Suc n) (num x @ r) = Some (JNum x, r)"
proof -
  have all: "list_all number_char (num x)" and val: "json_number (num x) = Some x"
    using assms(1) by (simp_all add: prints_def)
  have ne: "num x \<noteq> []" using val by (auto simp: json_number_def)
  then obtain c cs where n: "num x = c # cs" by (cases "num x") auto
  have c: "number_char c" using all n by simp
  note h = number_char_head [OF c]
  have t: "takeWhile number_char (num x @ r) = num x" "dropWhile number_char (num x @ r) = r"
  proof -
    have "takeWhile number_char r = []" "dropWhile number_char r = r"
      using assms(2) by (cases r; simp add: ends_number_def)+
    then show "takeWhile number_char (num x @ r) = num x" "dropWhile number_char (num x @ r) = r"
      using all by (simp_all add: list_all_iff takeWhile_append dropWhile_append)
  qed
  have l: "take 4 (num x @ r) \<noteq> ''null''" "take 4 (num x @ r) \<noteq> ''true''" "take 5 (num x @ r) \<noteq> ''false''"
    using h n by auto
  have "skip_blanks (num x @ r) = num x @ r" using h n by simp
  then show ?thesis using h n l t val by simp
qed

lemma print_json_head:
  assumes "printable num v"
  obtains c cs where "print_json num gap indent v = c # cs" "\<not> json_blank c" "c \<noteq> CHR '']''" "c \<noteq> CHR ''}''"
proof (cases v)
  case (JNum x)
  then have n: "list_all number_char (num x)" "num x \<noteq> []"
    using assms by (auto simp: prints_def json_number_def)
  then obtain c cs where c: "num x = c # cs" by (cases "num x") auto
  then have "number_char c" using n by simp
  then show ?thesis using that [of c cs] number_char_head [of c] JNum c by simp
next
  case (JStr t)
  then show ?thesis using that by (simp add: json_string_def quote_char_def json_blank_def newline_def)
next
  case (JBool b)
  then show ?thesis using that by (cases b) (simp_all add: json_blank_def newline_def)
next
  case JNull
  then show ?thesis using that by (simp add: json_blank_def newline_def)
next
  case (JArr vs)
  then show ?thesis using that by (cases "vs = []") (simp_all add: json_blank_def newline_def)
next
  case (JObj ms)
  then show ?thesis using that by (cases "ms = []") (simp_all add: json_blank_def newline_def)
qed

lemma read_items_text:
  assumes "vs \<noteq> []" "list_all json_blank i" "list_all json_blank j"
    and "\<And>v n r. v \<in> set vs \<Longrightarrow> value_fuel v \<le> n \<Longrightarrow> ends_number r \<Longrightarrow> read_value n (p v @ r) = Some (v, r)"
    and "sum_list (map (\<lambda>v. Suc (value_fuel v)) vs) \<le> n"
  shows "read_items n (join (CHR '','' # line_break gap i) (map p vs) @ line_break gap j @ CHR '']'' # r) = Some (vs, r)"
  using assms(1,4,5)
proof (induction vs arbitrary: n rule: list_nonempty_induct)
  case (single v)
  then obtain m where m: "n = Suc m" "value_fuel v \<le> m" by (cases n) auto
  have "read_value m (p v @ line_break gap j @ CHR '']'' # r) = Some (v, line_break gap j @ CHR '']'' # r)"
    using single(1) [of v m] m(2) by (simp add: ends_number_line_break)
  then show ?case using m assms(3) by simp
next
  case (cons v vs)
  then obtain m where m: "n = Suc m" "value_fuel v \<le> m" "sum_list (map (\<lambda>v. Suc (value_fuel v)) vs) \<le> m"
    by (cases n) auto
  have j: "join (CHR '','' # line_break gap i) (map p (v # vs)) =
      p v @ CHR '','' # line_break gap i @ join (CHR '','' # line_break gap i) (map p vs)"
    using cons(1) by (cases vs) simp_all
  have "read_items m (join (CHR '','' # line_break gap i) (map p vs) @ line_break gap j @ CHR '']'' # r) = Some (vs, r)"
    using cons(2) [of m] cons(3) m(3) by simp
  moreover have "read_value m (p v @ CHR '','' # line_break gap i @ s) = Some (v, CHR '','' # line_break gap i @ s)" for s
    using cons(3) [of v m] m(2) by simp
  ultimately show ?case
    using m(1) assms(2) unfolding j by (simp add: read_items_blanks)
qed

definition colon :: "string \<Rightarrow> string" where
  "colon gap = (if gap = [] then '':'' else '': '')"

lemma read_value_colon: "read_value n (drop (Suc 0) (skip_blanks (colon gap @ s))) = read_value n s"
  "take (Suc 0) (skip_blanks (colon gap @ s)) = '':''"
  by (simp_all add: colon_def) (cases n; simp)

lemma read_members_text:
  assumes "ms \<noteq> []" "list_all json_blank i" "list_all json_blank j"
    and "\<And>k v n r. (k, v) \<in> set ms \<Longrightarrow> value_fuel v \<le> n \<Longrightarrow> ends_number r \<Longrightarrow> read_value n (q v @ r) = Some (v, r)"
    and "sum_list (map (\<lambda>kv. Suc (value_fuel (snd kv))) ms) \<le> n"
  shows "read_members n (join (CHR '','' # line_break gap i) (map (\<lambda>(k, v). json_string k @ colon gap @ q v) ms) @
     line_break gap j @ CHR ''}'' # r) = Some (ms, r)"
  using assms(1,4,5)
proof (induction ms arbitrary: n rule: list_nonempty_induct)
  case (single kv)
  obtain k v where kv: "kv = (k, v)" by fastforce
  then obtain m where m: "n = Suc m" "value_fuel v \<le> m" using single by (cases n) auto
  have "read_value m (q v @ line_break gap j @ CHR ''}'' # r) = Some (v, line_break gap j @ CHR ''}'' # r)"
    using single(1) [of k v m] m(2) kv by (simp add: ends_number_line_break)
  then show ?case using m assms(3) kv
    by (simp add: json_string_def read_json_string read_value_colon)
next
  case (cons kv ms)
  obtain k v where kv: "kv = (k, v)" by fastforce
  then obtain m where m: "n = Suc m" "value_fuel v \<le> m" "sum_list (map (\<lambda>kv. Suc (value_fuel (snd kv))) ms) \<le> m"
    using cons by (cases n) auto
  let ?p = "\<lambda>(k, v). json_string k @ colon gap @ q v"
  have j: "join (CHR '','' # line_break gap i) (map ?p (kv # ms)) =
      json_string k @ colon gap @ q v @ CHR '','' # line_break gap i @ join (CHR '','' # line_break gap i) (map ?p ms)"
    using cons(1) kv by (cases ms) simp_all
  have "read_members m (join (CHR '','' # line_break gap i) (map ?p ms) @ line_break gap j @ CHR ''}'' # r) = Some (ms, r)"
    using cons(2) [of m] cons(3) m(3) by (metis list.set_intros(2))
  moreover have "read_value m (q v @ CHR '','' # line_break gap i @ s) = Some (v, CHR '','' # line_break gap i @ s)" for s
    using cons(3) [of k v m] m(2) kv by simp
  ultimately show ?case
    using m(1) assms(2) kv unfolding j
    by (simp add: json_string_def read_json_string read_value_colon read_members_blanks)
qed

lemma update_fresh: "k \<notin> set (map fst al) \<Longrightarrow> AList.update k v al = al @ [(k, v)]"
  by (induction al) auto

lemma put_members: "distinct (map fst ms) \<Longrightarrow> set (map fst ms) \<inter> set (map fst acc) = {} \<Longrightarrow>
    fold put_member ms acc = acc @ ms"
proof (induction ms arbitrary: acc)
  case (Cons kv ms)
  have "AList.update (fst kv) (snd kv) acc = acc @ [kv]"
    using Cons.prems update_fresh [of "fst kv" acc "snd kv"] by simp
  then show ?case using Cons by (auto simp: put_member_def)
qed simp

lemma first_token:
  assumes "printable num v" "list_all json_blank i"
  shows "take (Suc 0) (skip_blanks (line_break gap i @ print_json num gap i v @ s)) \<noteq> '']''"
proof -
  obtain c cs where "print_json num gap i v = c # cs" "\<not> json_blank c" "c \<noteq> CHR '']''"
    using print_json_head [OF assms(1)] by metis
  then show ?thesis using assms(2) by simp
qed

lemma json_members_text:
  "map (\<lambda>(k, v). json_string k @ (if gap = [] then '':'' else '': '') @ print_json num gap i v) ms =
   map (\<lambda>(k, v). json_string k @ colon gap @ print_json num gap i v) ms"
  by (simp add: colon_def)

lemma read_print_json:
  "printable num v \<Longrightarrow> list_all json_blank gap \<Longrightarrow> value_fuel v \<le> n \<Longrightarrow> list_all json_blank i \<Longrightarrow>
   ends_number r \<Longrightarrow> read_value n (print_json num gap i v @ r) = Some (v, r)"
proof (induction v arbitrary: n i r)
  case (JNum x)
  then show ?case using read_number_text [of num x r] by (cases n) simp_all
next
  case (JStr t)
  then show ?case by (cases n) (simp_all add: json_string_def read_json_string)
next
  case (JArr vs)
  then obtain m where m: "n = Suc m" "sum_list (map (\<lambda>v. Suc (value_fuel v)) vs) \<le> m" by (cases n) auto
  show ?case
  proof (cases "vs = []")
    case True
    then show ?thesis using m by simp
  next
    case False
    then obtain w ws where ws: "vs = w # ws" by (cases vs) auto
    let ?b = "line_break gap (i @ gap)" and ?t = "map (print_json num gap (i @ gap)) vs"
    have blank: "list_all json_blank (i @ gap)" using JArr.prems by simp
    have "read_items m (join (CHR '','' # ?b) ?t @ line_break gap i @ CHR '']'' # r) = Some (vs, r)"
      using JArr False m(2) blank by (intro read_items_text) (auto simp: list_all_iff)
    moreover have "take (Suc 0) (skip_blanks (?b @ join (CHR '','' # ?b) ?t @ s)) \<noteq> '']''" for s
      using first_token [OF _ blank, of num w gap] JArr.prems ws by (cases ws) simp_all
    ultimately show ?thesis
      using False m(1) blank by (simp add: read_items_blanks)
  qed
next
  case (JObj ms)
  then obtain m where m: "n = Suc m" "sum_list (map (\<lambda>kv. Suc (value_fuel (snd kv))) ms) \<le> m" by (cases n) auto
  show ?case
  proof (cases "ms = []")
    case True
    then show ?thesis using m by simp
  next
    case False
    then obtain k w ws where ws: "ms = (k, w) # ws" by (cases ms) auto
    let ?b = "line_break gap (i @ gap)"
      and ?t = "map (\<lambda>(k, v). json_string k @ colon gap @ print_json num gap (i @ gap) v) ms"
    have blank: "list_all json_blank (i @ gap)" using JObj.prems by simp
    have "read_members m (join (CHR '','' # ?b) ?t @ line_break gap i @ CHR ''}'' # r) = Some (ms, r)"
    proof (rule read_members_text [OF False blank _ _ m(2)])
      show "list_all json_blank i" using JObj.prems by simp
      fix k v n r assume "(k, v) \<in> set ms" "value_fuel v \<le> n" "ends_number r"
      then show "read_value n (print_json num gap (i @ gap) v @ r) = Some (v, r)"
        using JObj.IH [of "(k, v)" v n "i @ gap" r] JObj.prems blank by (auto simp: list_all_iff)
    qed
    moreover have "take (Suc 0) (skip_blanks (?b @ join (CHR '','' # ?b) ?t @ s)) \<noteq> ''}''" for s
      using ws blank by (cases ws) (simp_all add: json_string_def quote_char_def json_blank_def newline_def)
    moreover have "fold put_member ms [] = ms"
      using put_members [of ms "[]"] JObj.prems by simp
    ultimately show ?thesis
      using False m(1) blank unfolding print_json.simps json_members_text by (simp add: read_members_blanks)
  qed
next
  case JNull
  then show ?case by (cases n) simp_all
next
  case (JBool b)
  then show ?case by (cases n; cases b) simp_all
qed

lemma length_join: "xs \<noteq> [] \<Longrightarrow> length (join sep xs) + length sep = sum_list (map (\<lambda>x. length x + length sep) xs)"
  by (induction xs rule: list_nonempty_induct) (auto simp: neq_Nil_conv)

lemma sum_list_double: "sum_list (map (\<lambda>x. 2 * f x) xs) = 2 * sum_list (map f xs)" for f :: "'a \<Rightarrow> nat"
  by (induction xs) simp_all

lemma fuel_enough: "printable num v \<Longrightarrow> value_fuel v \<le> 2 * length (print_json num gap i v)"
proof (induction v arbitrary: i)
  case (JNum x)
  then show ?case by (cases "num x") (auto simp: prints_def json_number_def)
next
  case (JArr vs)
  show ?case
  proof (cases "vs = []")
    case False
    let ?t = "map (print_json num gap (i @ gap)) vs" and ?b = "line_break gap (i @ gap)"
    have "sum_list (map (\<lambda>v. Suc (value_fuel v)) vs) \<le> sum_list (map (\<lambda>v. 2 * (length (print_json num gap (i @ gap) v) + length (CHR '','' # ?b))) vs)"
    proof (intro sum_list_mono)
      fix v assume v: "v \<in> set vs"
      have "value_fuel v \<le> 2 * length (print_json num gap (i @ gap) v)"
        using JArr v by (auto simp: list_all_iff)
      then show "Suc (value_fuel v) \<le> 2 * (length (print_json num gap (i @ gap) v) + length (CHR '','' # ?b))" by simp
    qed
    also have "\<dots> = 2 * sum_list (map (\<lambda>x. length x + length (CHR '','' # ?b)) ?t)"
      by (simp only: sum_list_double map_map comp_def)
    also have "\<dots> = 2 * (length (join (CHR '','' # ?b) ?t) + length (CHR '','' # ?b))"
      using length_join [of ?t "CHR '','' # ?b"] False by simp
    finally show ?thesis using False by simp
  qed simp
next
  case (JObj ms)
  show ?case
  proof (cases "ms = []")
    case False
    let ?t = "map (\<lambda>(k, v). json_string k @ colon gap @ print_json num gap (i @ gap) v) ms" and ?b = "line_break gap (i @ gap)"
    have "sum_list (map (\<lambda>kv. Suc (value_fuel (snd kv))) ms) \<le>
        sum_list (map (\<lambda>kv. 2 * (length (case kv of (k, v) \<Rightarrow> json_string k @ colon gap @ print_json num gap (i @ gap) v) +
          length (CHR '','' # ?b))) ms)"
    proof (intro sum_list_mono)
      fix kv assume kv: "kv \<in> set ms"
      have "value_fuel (snd kv) \<le> 2 * length (print_json num gap (i @ gap) (snd kv))"
        using JObj kv by (cases kv) (auto simp: list_all_iff)
      then show "Suc (value_fuel (snd kv)) \<le> 2 * (length (case kv of (k, v) \<Rightarrow> json_string k @ colon gap @ print_json num gap (i @ gap) v) +
          length (CHR '','' # ?b))"
        by (cases kv) simp
    qed
    also have "\<dots> = 2 * sum_list (map (\<lambda>x. length x + length (CHR '','' # ?b)) ?t)"
      by (simp only: sum_list_double map_map comp_def)
    also have "\<dots> = 2 * (length (join (CHR '','' # ?b) ?t) + length (CHR '','' # ?b))"
      using length_join [of ?t "CHR '','' # ?b"] False by simp
    finally show ?thesis using False unfolding print_json.simps json_members_text by simp
  qed simp
qed (simp_all add: json_string_def)

theorem json_reads_back:
  assumes "printable num v" "list_all json_blank gap"
  shows "json_parse (print_json num gap [] v) = Some v"
  using read_print_json [OF assms, of "2 * length (print_json num gap [] v) + 1" "[]" "[]"]
    fuel_enough [OF assms(1), of gap "[]"]
  by (simp add: json_parse_def skip_blanks_def)

lemma stringify_reads_back: "printable num v \<Longrightarrow> json_parse (stringify num v) = Some v"
  by (simp add: stringify_def json_reads_back)

lemma prints_whole:
  assumes "num (of_int i) = string_of_int i"
  shows "prints num (of_int i)"
proof -
  let ?ds = "digits_of_nat (nat \<bar>i\<bar>)"
  have ds: "list_all is_digit ?ds" "takeWhile is_digit ?ds = ?ds" "?ds \<noteq> []"
    by (simp_all add: digits_of_nat_digits digits_of_nat_ne takeWhile_digits)
  have h: "hd ?ds \<noteq> CHR ''-''"
  proof -
    have "is_digit (hd ?ds)" using ds(1,3) by (simp add: list_all_iff)
    moreover have "\<not> is_digit (CHR ''-'')" by (simp add: is_digit_def digit_value_def)
    ultimately show ?thesis by metis
  qed
  have l: "\<not> (hd ?ds = CHR ''0'' \<and> length ?ds > 1)"
    using digits_of_nat_no_zero [of "nat \<bar>i\<bar>"] by simp
  have t: "string_of_int i = (if i < 0 then CHR ''-'' # ?ds else ?ds)"
    by (simp add: string_of_int_def)
  have "list_all number_char ?ds" using ds(1) by (auto simp: list_all_iff number_char_def)
  then have "list_all number_char (string_of_int i)"
    unfolding t by (cases "i < 0") (simp_all add: number_char_def)
  moreover have "json_number (string_of_int i) = Some (of_int i)"
  proof -
    have r: "(if string_of_int i \<noteq> [] \<and> hd (string_of_int i) = CHR ''-'' then tl (string_of_int i)
        else string_of_int i) = ?ds"
      using h ds(3) unfolding t by (cases "i < 0") simp_all
    have "?ds \<noteq> []" by (rule digits_of_nat_ne)
    then show ?thesis
      unfolding json_number_def Let_def r takeWhile_digits dropWhile_digits js_number_whole using l by simp
  qed
  ultimately show ?thesis using assms by (simp add: prints_def)
qed

end
