(* ===== verification/BrowserStorage.thy ===== *)
theory BrowserStorage
  imports JsJson Notifications
begin

text \<open>
  What the console keeps in the browser: \<open>app/preferences.tsx\<close> with \<open>preferences-context.ts\<close>,
  \<open>app/theme.tsx\<close>, \<open>features/notifications/last-seen.ts\<close>, \<open>dismissal-store.ts\<close>, \<open>use-dismissal.ts\<close>,
  \<open>components/ui/use-teaching.ts\<close>, the text of the cleared rows, and the wake lock of the preferences.
\<close>

section \<open>The storage\<close>

text \<open>
  A storage works, or refuses writes (private modes, a full quota), or throws on any access (blocked by
  the browser), or does not exist. A read gives \<^term>\<open>Threw\<close> in the third case.
\<close>

datatype storage_mode = Works | Refuses_Writes | Denied | Absent

record web_storage =
  ws_mode :: storage_mode
  ws_items :: "(string \<times> string) list"

datatype 'a attempt = Threw | Returned 'a

definition get_item :: "web_storage \<Rightarrow> string \<Rightarrow> string option attempt" where
  "get_item st k = (if ws_mode st \<in> {Denied, Absent} then Threw else Returned (map_of (ws_items st) k))"

text \<open>A write that is refused throws, and every caller swallows it.\<close>

definition set_item :: "string \<Rightarrow> string \<Rightarrow> web_storage \<Rightarrow> web_storage" where
  "set_item k v st = (if ws_mode st = Works then st\<lparr> ws_items := AList.update k v (ws_items st) \<rparr> else st)"

definition remove_item :: "string \<Rightarrow> web_storage \<Rightarrow> web_storage" where
  "remove_item k st =
     (if ws_mode st \<in> {Works, Refuses_Writes} then st\<lparr> ws_items := AList.delete k (ws_items st) \<rparr> else st)"

lemma get_set_item [simp]:
  "ws_mode st = Works \<Longrightarrow> get_item (set_item k v st) j = (if j = k then Returned (Some v) else get_item st j)"
  by (simp add: get_item_def set_item_def update_conv')

lemma set_item_mode [simp]: "ws_mode (set_item k v st) = ws_mode st"
  by (simp add: set_item_def)

section \<open>Preferences\<close>

text \<open>The preferences are the object they are stored as: the defaults with whatever was stored over them.\<close>

type_synonym preferences = "(string \<times> json) list"

definition default_preferences :: preferences where
  "default_preferences =
     [(''units'', JStr ''metric''), (''coordFormat'', JStr ''decimal''), (''clock'', JStr ''24h''),
      (''timeZone'', JStr ''utc''), (''timestampStyle'', JStr ''both''), (''textScale'', JStr ''md''),
      (''density'', JStr ''comfortable''), (''motion'', JStr ''system''), (''logLimit'', JNum 1000),
      (''logFollow'', JBool True), (''alertLevel'', JStr ''off''), (''keepAwake'', JBool False),
      (''confirmDestructive'', JBool True), (''notifyCategories'', JObj []), (''notifyMinLevel'', JStr ''info''),
      (''mapLegend'', JBool True), (''showClosedContacts'', JBool True), (''trackPathColour'', JStr ''speed'')]"

fun is_plain_object :: "json \<Rightarrow> bool" where
  "is_plain_object (JObj _) = True"
| "is_plain_object _ = False"

text \<open>The own members of a value that is an object: an array has its indices as keys.\<close>

fun object_members :: "json \<Rightarrow> (string \<times> json) list option" where
  "object_members (JObj ms) = Some ms"
| "object_members (JArr vs) = Some (map (\<lambda>i. (digits_of_nat i, vs ! i)) [0..<length vs])"
| "object_members _ = None"

definition repair_categories :: "preferences \<Rightarrow> preferences" where
  "repair_categories merged =
     (if (case map_of merged ''notifyCategories'' of Some v \<Rightarrow> is_plain_object v | None \<Rightarrow> False) then merged
      else put_member (''notifyCategories'', JObj []) merged)"

definition merge_preferences :: "json option \<Rightarrow> preferences" where
  "merge_preferences parsed =
     (case Option.bind parsed object_members of
        None \<Rightarrow> default_preferences
      | Some ms \<Rightarrow> repair_categories (fold put_member ms default_preferences))"

definition preferences_key :: string where "preferences_key = ''classg.preferences''"

text \<open>\<open>typeof localStorage\<close> stands before the \<open>try\<close>: a denied storage makes the provider throw.\<close>

definition read_preferences :: "web_storage \<Rightarrow> preferences attempt" where
  "read_preferences st =
     (if ws_mode st = Denied then Threw
      else if ws_mode st = Absent then Returned default_preferences
      else (case map_of (ws_items st) preferences_key of
          None \<Rightarrow> Returned default_preferences
        | Some raw \<Rightarrow> if raw = [] then Returned default_preferences else Returned (merge_preferences (json_parse raw))))"

definition persist_preferences :: "(real \<Rightarrow> string) \<Rightarrow> preferences \<Rightarrow> web_storage \<Rightarrow> web_storage" where
  "persist_preferences num p st = set_item preferences_key (stringify num (JObj p)) st"

definition set_preference :: "string \<Rightarrow> json \<Rightarrow> preferences \<Rightarrow> preferences" where
  "set_preference k v old = (if map_of old k = Some v then old else put_member (k, v) old)"

definition text_scale_values :: "(string \<times> real) list" where
  "text_scale_values = [(''sm'', 15 / 16), (''md'', 1), (''lg'', 17 / 16), (''xl'', 9 / 8)]"

text \<open>\<open>String(TEXT_SCALE_VALUES[preferences.textScale])\<close>, the scale the stylesheet gets.\<close>

definition ui_scale :: "(real \<Rightarrow> string) \<Rightarrow> preferences \<Rightarrow> string" where
  "ui_scale num p =
     (case map_of p ''textScale'' of
        Some (JStr s) \<Rightarrow> (case map_of text_scale_values s of Some x \<Rightarrow> num x | None \<Rightarrow> ''undefined'')
      | _ \<Rightarrow> ''undefined'')"

section \<open>Theme, read watermark, dismissals, teaching\<close>

definition theme_key :: string where "theme_key = ''classg.theme''"

definition read_theme :: "web_storage \<Rightarrow> string attempt" where
  "read_theme st =
     (if ws_mode st = Denied then Threw
      else if ws_mode st = Absent then Returned ''dark''
      else (case map_of (ws_items st) theme_key of
          Some v \<Rightarrow> Returned (if v \<in> {''light'', ''system'', ''dark''} then v else ''dark'')
        | None \<Rightarrow> Returned ''dark''))"

definition set_theme :: "string \<Rightarrow> web_storage \<Rightarrow> web_storage" where
  "set_theme next st = set_item theme_key next st"

definition resolved_theme :: "string \<Rightarrow> string \<Rightarrow> string" where
  "resolved_theme preference system_value = (if preference = ''system'' then system_value else preference)"

definition last_seen_key :: string where "last_seen_key = ''classg.notifications.lastSeenAt''"

text \<open>\<open>num\<close> is \<open>String(number)\<close>; a text that is no finite number counts as 0.\<close>

definition write_last_seen :: "(real \<Rightarrow> string) \<Rightarrow> real \<Rightarrow> web_storage \<Rightarrow> web_storage" where
  "write_last_seen num v st = set_item last_seen_key (num v) st"

definition read_last_seen :: "(real \<Rightarrow> string) \<Rightarrow> real \<Rightarrow> web_storage \<Rightarrow> real \<times> web_storage" where
  "read_last_seen num now st =
     (case get_item st last_seen_key of
        Threw \<Rightarrow> (now, st)
      | Returned (Some raw) \<Rightarrow> (nullish (js_number raw) 0, st)
      | Returned None \<Rightarrow> (now, write_last_seen num now st))"

definition read_dismissed :: "string \<Rightarrow> web_storage \<Rightarrow> string option" where
  "read_dismissed key st = (case get_item st key of Threw \<Rightarrow> None | Returned v \<Rightarrow> v)"

text \<open>\<open>useDismissal\<close>: the value held by the mounted component.\<close>

definition is_dismissed :: "string option \<Rightarrow> string \<Rightarrow> bool" where
  "is_dismissed dismissed_value current \<longleftrightarrow> dismissed_value = Some current"

definition dismiss_current :: "string \<Rightarrow> string \<Rightarrow> web_storage \<Rightarrow> string option \<times> web_storage" where
  "dismiss_current key current st = (Some current, set_item key current st)"

definition taught_key :: "string \<Rightarrow> string" where "taught_key i = ''classg.taught.'' @ i"

definition read_taught :: "string \<Rightarrow> web_storage \<Rightarrow> bool" where
  "read_taught i st = (get_item st (taught_key i) = Returned (Some ''1''))"

definition write_taught :: "string \<Rightarrow> bool \<Rightarrow> web_storage \<Rightarrow> web_storage" where
  "write_taught i taught st = (if taught then set_item (taught_key i) ''1'' st else remove_item (taught_key i) st)"

section \<open>The wake lock\<close>

text \<open>
  One run of the effect that keeps the screen awake. Locks are numbered; the browser refuses a request
  while the page is hidden, and hiding the page refuses the pending ones and takes the locks away.
\<close>

record wake_effect =
  wk_visible :: bool
  wk_released :: bool
  wk_pending :: nat
  wk_sentinel :: "nat option"
  wk_held :: "nat list"
  wk_next :: nat

datatype wake_event = Shown | Hidden | Granted | Refused | Cleanup

definition request_lock :: "wake_effect \<Rightarrow> wake_effect" where
  "request_lock w =
     (if wk_visible w then w\<lparr> wk_pending := Suc (wk_pending w) \<rparr> else w\<lparr> wk_sentinel := None \<rparr>)"

definition start_wake :: "bool \<Rightarrow> wake_effect" where
  "start_wake visible = request_lock
     \<lparr> wk_visible = visible, wk_released = False, wk_pending = 0, wk_sentinel = None, wk_held = [], wk_next = 0 \<rparr>"

definition lock_granted :: "wake_effect \<Rightarrow> wake_effect" where
  "lock_granted w =
     (let i = wk_next w
      in w\<lparr> wk_pending := wk_pending w - 1, wk_sentinel := Some i, wk_next := Suc i,
            wk_held := (if wk_released w then wk_held w else wk_held w @ [i]) \<rparr>)"

definition stop_wake :: "wake_effect \<Rightarrow> wake_effect" where
  "stop_wake w = w\<lparr> wk_released := True,
     wk_held := (case wk_sentinel w of None \<Rightarrow> wk_held w | Some i \<Rightarrow> removeAll i (wk_held w)) \<rparr>"

fun wake_step :: "wake_event \<Rightarrow> wake_effect \<Rightarrow> wake_effect" where
  "wake_step Shown w =
     (if wk_visible w then w
      else let w' = w\<lparr> wk_visible := True \<rparr> in if wk_released w then w' else request_lock w')"
| "wake_step Hidden w =
     w\<lparr> wk_visible := False, wk_held := [], wk_pending := 0,
        wk_sentinel := (if wk_pending w = 0 then wk_sentinel w else None) \<rparr>"
| "wake_step Granted w = (if wk_pending w = 0 then w else lock_granted w)"
| "wake_step Refused w = (if wk_pending w = 0 then w else w\<lparr> wk_pending := wk_pending w - 1, wk_sentinel := None \<rparr>)"
| "wake_step Cleanup w = (if wk_released w then w else stop_wake w)"

inductive wake_reach :: "wake_effect \<Rightarrow> bool" where
  start: "wake_reach (start_wake visible)"
| step: "wake_reach w \<Longrightarrow> wake_reach (wake_step e w)"

definition wake_inv :: "wake_effect \<Rightarrow> bool" where
  "wake_inv w \<longleftrightarrow>
     (if wk_released w then wk_held w = []
      else wk_held w = [] \<or> (wk_pending w = 0 \<and> (\<exists>i. wk_sentinel w = Some i \<and> wk_held w = [i]))) \<and>
     wk_pending w \<le> 1 \<and> (\<not> wk_visible w \<longrightarrow> wk_held w = [] \<and> wk_pending w = 0)"

lemma wake_reach_inv [invars]: "wake_reach w \<Longrightarrow> wake_inv w"
proof (induction rule: wake_reach.induct)
  case (start visible)
  then show ?case by (simp add: start_wake_def request_lock_def wake_inv_def)
next
  case (step w e)
  then show ?case
    by (cases e) (auto simp: wake_inv_def request_lock_def lock_granted_def stop_wake_def Let_def split: if_splits option.splits)
qed

section \<open>Lemmas on the preferences\<close>

definition preferences_ok :: "preferences \<Rightarrow> bool" where
  "preferences_ok p \<longleftrightarrow> distinct (map fst p) \<and> set (map fst default_preferences) \<subseteq> set (map fst p) \<and>
     (\<exists>ms. map_of p ''notifyCategories'' = Some (JObj ms))"

lemma map_of_put_member [simp]: "map_of (put_member (k, v) ms) = (map_of ms)(k \<mapsto> v)"
  by (simp add: put_member_def update_conv')

lemma put_member_keys:
  "set (map fst (put_member (k, v) ms)) = insert k (set (map fst ms))"
  "distinct (map fst ms) \<Longrightarrow> distinct (map fst (put_member (k, v) ms))"
  by (simp_all add: put_member_def dom_update distinct_update)

lemma fold_put_members:
  "distinct (map fst acc) \<Longrightarrow> distinct (map fst (fold put_member ms acc))"
  "set (map fst (fold put_member ms acc)) = set (map fst ms) \<union> set (map fst acc)"
proof (induction ms arbitrary: acc)
  case (Cons kv ms)
  obtain k v where kv: "kv = (k, v)" by fastforce
  { case 1 then show ?case using Cons.IH(1) put_member_keys(2) [of acc k v] kv by simp }
  { case 2 then show ?case using Cons.IH(2) [of "put_member kv acc"] put_member_keys(1) [of k v acc] kv by simp }
qed simp_all

lemma map_of_fold_put_members:
  "distinct (map fst ms) \<Longrightarrow>
   map_of (fold put_member ms acc) k = (case map_of ms k of Some v \<Rightarrow> Some v | None \<Rightarrow> map_of acc k)"
proof (induction ms arbitrary: acc)
  case (Cons kv ms)
  obtain j v where kv: "kv = (j, v)" by fastforce
  have "map_of ms j = None" using Cons.prems kv by (simp add: map_of_eq_None_iff)
  then show ?case
    using Cons.IH [of "put_member kv acc"] Cons.prems kv by (cases "k = j") (simp_all split: option.split)
qed simp

lemma default_preferences_ok: "preferences_ok default_preferences"
  by (simp add: preferences_ok_def default_preferences_def)

lemma repair_ok:
  assumes "distinct (map fst p)" "set (map fst default_preferences) \<subseteq> set (map fst p)"
  shows "preferences_ok (repair_categories p)"
proof (cases "case map_of p ''notifyCategories'' of Some v \<Rightarrow> is_plain_object v | None \<Rightarrow> False")
  case True
  then obtain ms where "map_of p ''notifyCategories'' = Some (JObj ms)"
    by (auto split: option.splits elim: is_plain_object.elims)
  then show ?thesis using assms True by (auto simp: repair_categories_def preferences_ok_def)
next
  case False
  then show ?thesis
    using assms put_member_keys [where k = "''notifyCategories''" and v = "JObj []" and ms = p]
    by (auto simp: repair_categories_def preferences_ok_def)
qed

lemma merge_preferences_ok: "preferences_ok (merge_preferences parsed)"
proof (cases "Option.bind parsed object_members")
  case None
  then show ?thesis by (simp add: merge_preferences_def default_preferences_ok)
next
  case (Some ms)
  then show ?thesis
    using default_preferences_ok fold_put_members(1) [of default_preferences ms]
      fold_put_members(2) [where acc = default_preferences and ms = ms]
    by (simp add: merge_preferences_def preferences_ok_def [of default_preferences] repair_ok)
qed

lemma set_preference_ok:
  assumes "preferences_ok p" "k \<noteq> ''notifyCategories'' \<or> is_plain_object v"
  shows "preferences_ok (set_preference k v p)"
proof -
  have "\<exists>ms. map_of (put_member (k, v) p) ''notifyCategories'' = Some (JObj ms)"
    using assms by (cases v) (auto simp: preferences_ok_def)
  then have "preferences_ok (put_member (k, v) p)"
    using assms(1) put_member_keys [where k = k and v = v and ms = p]
    unfolding preferences_ok_def by blast
  then show ?thesis using assms(1) by (simp add: set_preference_def)
qed

text \<open>The ids of the cleared rows, through the text they are stored as.\<close>

lemma cleared_text_reads_back:
  "read_stored (json_parse (stringify num (JArr (map JStr ids)))) = read_stored (Some (JArr (map JStr ids)))"
  by (simp add: stringify_reads_back list_all_iff)

section \<open>Properties\<close>

text \<open>C40: Whatever a browser has stored, the preferences are complete: unless storage is denied, reading gives
  every preference a value, each key once, and a category table that is an object; the operator's
  changes keep it so.\<close>

theorem preferences_are_complete:
  assumes "ws_mode st \<noteq> Denied" "k \<noteq> ''notifyCategories'' \<or> is_plain_object v"
  shows "\<exists>p. read_preferences st = Returned p \<and> preferences_ok p \<and> preferences_ok (set_preference k v p)"
proof -
  have "\<exists>p. read_preferences st = Returned p \<and> preferences_ok p"
    using assms(1) default_preferences_ok merge_preferences_ok
    by (simp add: read_preferences_def split: option.split)
  then show ?thesis using set_preference_ok [OF _ assms(2)] by blast
qed

theorem preferences_are_complete_witness:
  "\<exists>p. read_preferences \<lparr> ws_mode = Works, ws_items = [(preferences_key, ''[1'')] \<rparr> = Returned p \<and> preferences_ok p \<and>
    preferences_ok (set_preference ''units'' (JStr ''aviation'') p)"
  by (rule preferences_are_complete) simp_all

text \<open>What is stored reads back after a reload, in a storage that works: every preference has its value, the
  theme, the read watermark (of a time in whole milliseconds), a dismissal, an explainer closed or
  reopened, and the cleared rows are what they were; and reading the watermark writes nothing.\<close>

theorem what_is_stored_reads_back:
  assumes "ws_mode st = Works" "preferences_ok p" "printable num (JObj p)"
    and "num (of_int now) = string_of_int now" "theme \<in> {''light'', ''system'', ''dark''}"
  shows "(\<exists>p'. read_preferences (persist_preferences num p st) = Returned p' \<and> map_of p' = map_of p) \<and>
    read_theme (set_theme theme st) = Returned theme \<and>
    read_last_seen num later (write_last_seen num (of_int now) st) = (of_int now, write_last_seen num (of_int now) st) \<and>
    is_dismissed (read_dismissed key (snd (dismiss_current key v st))) v \<and>
    read_taught i (write_taught i taught st) = taught \<and>
    read_stored (json_parse (stringify num (JArr (map JStr ids)))) = read_stored (Some (JArr (map JStr ids)))"
proof (intro conjI)
  have ne: "stringify num (JObj p) \<noteq> []" by (simp add: stringify_def)
  have d: "distinct (map fst p)" using assms(2) by (simp add: preferences_ok_def)
  have keys: "map_of default_preferences k = None" if "map_of p k = None" for k
    using assms(2) that by (auto simp: preferences_ok_def map_of_eq_None_iff)
  let ?q = "fold put_member p default_preferences"
  have q: "map_of ?q = map_of p"
  proof
    fix k
    show "map_of ?q k = map_of p k"
      using map_of_fold_put_members [OF d, of default_preferences k] keys by (cases "map_of p k") simp_all
  qed
  moreover have "repair_categories ?q = ?q"
    using assms(2) q by (auto simp: repair_categories_def preferences_ok_def)
  moreover have "read_preferences (persist_preferences num p st) = Returned (merge_preferences (Some (JObj p)))"
    using assms(1,3) ne
    by (simp add: read_preferences_def persist_preferences_def set_item_def update_conv' stringify_reads_back)
  ultimately show "\<exists>p'. read_preferences (persist_preferences num p st) = Returned p' \<and> map_of p' = map_of p"
    by (simp add: merge_preferences_def)
  show "read_theme (set_theme theme st) = Returned theme"
    using assms(1,5) by (simp add: read_theme_def set_theme_def set_item_def update_conv')
  show "read_last_seen num later (write_last_seen num (of_int now) st) = (of_int now, write_last_seen num (of_int now) st)"
    using assms(1,4) js_number_whole [of now] by (simp add: read_last_seen_def write_last_seen_def)
  show "is_dismissed (read_dismissed key (snd (dismiss_current key v st))) v"
    using assms(1) by (simp add: is_dismissed_def read_dismissed_def dismiss_current_def)
  show "read_taught i (write_taught i taught st) = taught"
    using assms(1) by (simp add: read_taught_def write_taught_def get_item_def set_item_def remove_item_def
        update_conv' delete_conv')
  show "read_stored (json_parse (stringify num (JArr (map JStr ids)))) = read_stored (Some (JArr (map JStr ids)))"
    by (rule cleared_text_reads_back)
qed

definition whole_text :: "real \<Rightarrow> string" where "whole_text x = string_of_int \<lfloor>x\<rfloor>"

theorem what_is_stored_reads_back_witness:
  "read_last_seen whole_text 9 (write_last_seen whole_text (of_int 5) \<lparr> ws_mode = Works, ws_items = [] \<rparr>) =
     (of_int 5, write_last_seen whole_text (of_int 5) \<lparr> ws_mode = Works, ws_items = [] \<rparr>)"
proof -
  have "prints whole_text (of_int 1000)" by (rule prints_whole) (simp add: whole_text_def)
  then have "printable whole_text (JObj default_preferences)" by (simp add: default_preferences_def)
  then show ?thesis
    using what_is_stored_reads_back [of "\<lparr> ws_mode = Works, ws_items = [] \<rparr>" default_preferences whole_text 5 "''dark''" 9]
      default_preferences_ok
    by (simp add: whole_text_def)
qed

text \<open>A blocked storage takes the whole console down: the theme and the preferences, read while the
  providers mount, throw, although every other reader of the storage falls back.\<close>

theorem blocked_storage_throws:
  assumes "ws_mode st = Denied"
  shows "read_theme st = Threw \<and> read_preferences st = Threw \<and> read_last_seen num now st = (now, st) \<and>
    read_dismissed key st = None \<and> \<not> read_taught i st"
  using assms
  by (simp add: read_theme_def read_preferences_def read_last_seen_def read_dismissed_def read_taught_def get_item_def)

theorem blocked_storage_throws_witness:
  "read_theme \<lparr> ws_mode = Denied, ws_items = [] \<rparr> = Threw"
  using blocked_storage_throws [of "\<lparr> ws_mode = Denied, ws_items = [] \<rparr>"] by simp

text \<open>The screen is never kept awake for nothing: through any sequence of grants, refusals, hiding and
  showing, an effect that runs holds at most one lock, and one that has been cleaned up holds none.\<close>

theorem wake_lock_never_leaks:
  assumes "wake_reach w"
  shows "length (wk_held w) \<le> (if wk_released w then 0 else 1) \<and> (if wk_visible w then True else wk_held w = [])"
  using wake_reach_inv [OF assms] by (auto simp: wake_inv_def split: if_splits)

theorem wake_lock_never_leaks_witness:
  "length (wk_held (wake_step Granted (wake_step Cleanup (start_wake True)))) = 0"
proof -
  let ?w = "wake_step Granted (wake_step Cleanup (start_wake True))"
  have r: "wake_reach ?w" by (intro wake_reach.intros)
  have "wk_released ?w" by (simp add: start_wake_def request_lock_def stop_wake_def lock_granted_def Let_def)
  then show ?thesis using wake_lock_never_leaks [OF r] by simp
qed

end
