(* ===== verification/LiveMap.thy ===== *)
theory LiveMap
  imports MapStyle Markers PathColour BrowserStorage
begin

text \<open>
  \<open>features/map/live-map.tsx\<close> around its markers: the remembered viewport, the claims on the camera,
  where the browser is asked for its position, the overlays and the data they are given, the colours of
  the ramp, and what is written over the map. MapLibre and the browser's colour parser are parameters; a
  camera move is a record in a list. React renders with the state there is, and the effects of that commit
  see the \<open>ready\<close> of that render: what the cleanup of the map effect sets back is seen by the next one.
  An effect runs when one of its dependencies changed, which a commit says.
\<close>

section \<open>The remembered viewport\<close>

definition viewport_key :: string where "viewport_key = ''classg.live-map.viewport''"

type_synonym viewport = "coord \<times> real"

definition fallback_view :: viewport where "fallback_view = ((-98.5, 39.5), 3.3)"

definition read_viewport :: "json \<Rightarrow> viewport option" where
  "read_viewport v =
     (case v of
        JObj ms \<Rightarrow>
          (case (map_of ms ''center'', map_of ms ''zoom'') of
             (Some (JArr [JNum lon, JNum lat]), Some (JNum zoom)) \<Rightarrow>
               if 180 < \<bar>lon\<bar> \<or> 90 < \<bar>lat\<bar> then None else Some ((lon, lat), zoom)
           | _ \<Rightarrow> None)
      | _ \<Rightarrow> None)"

definition load_saved_viewport :: "web_storage \<Rightarrow> viewport option" where
  "load_saved_viewport st =
     (case get_item st viewport_key of
        Threw \<Rightarrow> None
      | Returned raw \<Rightarrow> if \<not> truthy raw then None else Option.bind (json_parse (nullish raw [])) read_viewport)"

definition persist_viewport :: "(real \<Rightarrow> string) \<Rightarrow> viewport \<Rightarrow> web_storage \<Rightarrow> web_storage" where
  "persist_viewport num view st =
     set_item viewport_key
       (stringify num (JObj [(''center'', JArr [JNum (fst (fst view)), JNum (snd (fst view))]), (''zoom'', JNum (snd view))])) st"

section \<open>Claims on the camera\<close>

datatype camera_move = Jump_To latlon | Fit_To bounds nat

record live_map =
  lm_open :: bool
  lm_site :: bool
  lm_ready :: bool
  lm_seen :: "bool option"
  lm_start :: viewport
  lm_restored :: bool
  lm_fitted :: "string option"
  lm_centred :: bool
  lm_loaded :: bool
  lm_made_ready :: bool
  lm_moves :: "camera_move list"
  lm_storage :: web_storage

text \<open>
  \<open>lm_ready\<close> is the state the next render sees, \<open>lm_seen\<close> the \<open>ready\<close> the effects ran with last, if they ran.
  \<open>lm_restored\<close>, \<open>lm_moves\<close> (what the effects did), \<open>lm_loaded\<close> (whether the style has) and \<open>lm_made_ready\<close>
  (whether the render that made it was ready) record what happened to the present map; they are not
  state of the code.
\<close>

definition create_map :: "bool \<Rightarrow> bool \<Rightarrow> live_map \<Rightarrow> live_map" where
  "create_map ready site_anchored lm =
     (let saved = (if site_anchored then load_saved_viewport (lm_storage lm) else None)
      in lm\<lparr> lm_open := True, lm_site := site_anchored, lm_start := nullish saved fallback_view,
            lm_restored := (saved \<noteq> None), lm_fitted := None, lm_centred := (saved \<noteq> None),
            lm_loaded := False, lm_made_ready := ready, lm_moves := [] \<rparr>)"

text \<open>The cleanup of the effect that made the map; it sets \<open>ready\<close> back for the next render.\<close>

definition remove_map :: "live_map \<Rightarrow> live_map" where
  "remove_map lm = lm\<lparr> lm_open := False, lm_ready := False, lm_loaded := False, lm_moves := [] \<rparr>"

text \<open>\<open>ready\<close> is the value of the render whose commit runs the effect.\<close>

definition centre_effect :: "bool \<Rightarrow> latlon option \<Rightarrow> latlon option \<Rightarrow> live_map \<Rightarrow> live_map" where
  "centre_effect ready receiver browser lm =
     (if \<not> lm_open lm \<or> \<not> ready \<or> lm_centred lm then lm
      else if lm_fitted lm \<noteq> None then lm
      else (case or_else receiver browser of
          None \<Rightarrow> lm
        | Some p \<Rightarrow> lm\<lparr> lm_centred := True, lm_moves := lm_moves lm @ [Jump_To p] \<rparr>))"

definition bounds_signature :: "bounds \<Rightarrow> string" where
  "bounds_signature b = join '','' (map (to_fixed 7) [bd_west b, bd_south b, bd_east b, bd_north b])"

definition fit_effect :: "bool \<Rightarrow> bool \<Rightarrow> nat \<Rightarrow> track list \<Rightarrow> live_map \<Rightarrow> live_map" where
  "fit_effect ready on_changes max_zoom tracks lm =
     (if \<not> lm_open lm \<or> \<not> ready then lm
      else (case bounds_of (plottable_points tracks) of
          None \<Rightarrow> lm
        | Some b \<Rightarrow>
            if lm_fitted lm = Some (bounds_signature b) then lm
            else if \<not> on_changes \<and> lm_fitted lm \<noteq> None then lm
            else lm\<lparr> lm_fitted := Some (bounds_signature b), lm_moves := lm_moves lm @ [Fit_To b max_zoom] \<rparr>))"

text \<open>
  A commit: whether the map effect runs, and for which kind of map; the places and contacts of the render,
  and whether they are new to the effects that depend on them. React runs the cleanup first, then the
  effects in their order.
\<close>

record commit_input =
  mc_make :: "bool option"
  mc_receiver :: "latlon option"
  mc_browser :: "latlon option"
  mc_new_place :: bool
  mc_max_zoom :: nat
  mc_tracks :: "track list"
  mc_new_tracks :: bool

definition map_commit :: "bool \<Rightarrow> commit_input \<Rightarrow> live_map \<Rightarrow> live_map" where
  "map_commit on_changes k lm =
     (let ready = lm_ready lm;
          changed = (lm_seen lm \<noteq> Some ready);
          lm1 = (case mc_make k of None \<Rightarrow> lm
                 | Some site_anchored \<Rightarrow> create_map ready site_anchored (remove_map lm));
          lm2 = (if changed \<or> mc_new_place k then centre_effect ready (mc_receiver k) (mc_browser k) lm1 else lm1);
          lm3 = (if changed \<or> mc_new_tracks k then fit_effect ready on_changes (mc_max_zoom k) (mc_tracks k) lm2 else lm2)
      in lm3\<lparr> lm_seen := Some ready \<rparr>)"

text \<open>
  The style has loaded; the camera came to rest somewhere, moved by the operator or by an effect; the
  component unmounts, and what it remembered goes with it.
\<close>

datatype map_event = Loaded | Commit_With commit_input | Move_Ended viewport | Unmounted

definition new_live_map :: "web_storage \<Rightarrow> live_map" where
  "new_live_map st =
     \<lparr> lm_open = False, lm_site = False, lm_ready = False, lm_seen = None, lm_start = fallback_view,
       lm_restored = False, lm_fitted = None, lm_centred = False, lm_loaded = False, lm_made_ready = False,
       lm_moves = [], lm_storage = st \<rparr>"

fun map_step :: "(real \<Rightarrow> string) \<Rightarrow> bool \<Rightarrow> map_event \<Rightarrow> live_map \<Rightarrow> live_map" where
  "map_step num on_changes Loaded lm = (if lm_open lm then lm\<lparr> lm_ready := True, lm_loaded := True \<rparr> else lm)"
| "map_step num on_changes (Commit_With k) lm = map_commit on_changes k lm"
| "map_step num on_changes (Move_Ended view) lm =
     (if lm_open lm \<and> lm_site lm then lm\<lparr> lm_storage := persist_viewport num view (lm_storage lm) \<rparr> else lm)"
| "map_step num on_changes Unmounted lm = new_live_map (lm_storage lm)"

inductive map_reach :: "(real \<Rightarrow> string) \<Rightarrow> bool \<Rightarrow> live_map \<Rightarrow> bool"
  for num :: "real \<Rightarrow> string" and on_changes :: bool where
  start: "map_reach num on_changes (new_live_map st)"
| step: "map_reach num on_changes lm \<Longrightarrow> map_reach num on_changes (map_step num on_changes e lm)"

section \<open>Where here is\<close>

text \<open>Whether the effect asks the browser for its position, and what the map centres on.\<close>

definition asks_browser_location :: "bool \<Rightarrow> latlon option \<Rightarrow> bool \<Rightarrow> bool \<Rightarrow> bool" where
  "asks_browser_location settings_resolved receiver secure_context has_geolocation \<longleftrightarrow>
     settings_resolved \<and> receiver = None \<and> secure_context \<and> has_geolocation"

definition position_prompt_key :: string where
  "position_prompt_key = ''classg.live-map.position-prompt-dismissed''"

definition read_prompt_dismissed :: "web_storage \<Rightarrow> bool attempt" where
  "read_prompt_dismissed st =
     (case get_item st position_prompt_key of Threw \<Rightarrow> Threw | Returned v \<Rightarrow> Returned (v = Some ''true''))"

definition dismiss_prompt :: "web_storage \<Rightarrow> web_storage" where
  "dismiss_prompt st = set_item position_prompt_key ''true'' st"

definition shows_position_prompt :: "bool \<Rightarrow> bool \<Rightarrow> bool \<Rightarrow> latlon option \<Rightarrow> bool \<Rightarrow> bool" where
  "shows_position_prompt site_anchored is_admin settings_resolved receiver dismissed \<longleftrightarrow>
     site_anchored \<and> is_admin \<and> settings_resolved \<and> receiver = None \<and> \<not> dismissed"

definition offers_recentre :: "bool \<Rightarrow> latlon option \<Rightarrow> latlon option \<Rightarrow> bool" where
  "offers_recentre site_anchored receiver browser \<longleftrightarrow> site_anchored \<and> or_else receiver browser \<noteq> None"

definition shows_loading :: "basemap_mode option \<Rightarrow> bool \<Rightarrow> bool" where
  "shows_loading basemap tiles_settled \<longleftrightarrow> basemap \<noteq> Some No_Tiles \<and> \<not> tiles_settled"

definition scale_unit :: "unit_system \<Rightarrow> string" where
  "scale_unit units =
     (if units = Metric then ''metric'' else if units = Aviation then ''nautical'' else ''imperial'')"

section \<open>Overlays\<close>

text \<open>A layer: its source, whether it draws the gaps of the source or the rest, and how it is painted. A
  colour is a token of the style sheet with what stands in for it on a dark and a light map, or the five
  stops of the ramp with the ink of a segment nothing measured.\<close>

datatype overlay_colour = Token_Ink string string string | Ramp_Ink overlay_colour overlay_colour overlay_colour

datatype overlay_width =
    Fixed_Line real
  | By_Confidence real real
  | By_Seconds nat real nat real

datatype overlay_opacity = Fixed_Opacity real | If_Stale real real

record overlay =
  ov_id :: string
  ov_source :: string
  ov_gap :: "bool option"
  ov_colour :: overlay_colour
  ov_width :: overlay_width
  ov_opacity :: overlay_opacity
  ov_dashes :: "nat list"
  ov_joined :: bool
  ov_stroke :: "(real \<times> real) option"

definition overlay_sources :: "string list" where
  "overlay_sources = [''trails'', ''operator-links'', ''path-segments'', ''path-dwells'']"

definition track_ink :: overlay_colour where "track_ink = Token_Ink ''--track'' ''#5fd3f0'' ''#1e7fa8''"
definition dim_track_ink :: overlay_colour where "dim_track_ink = Token_Ink ''--track-dim'' ''#3f7f93'' ''#9fc4d6''"
definition operator_ink :: overlay_colour where "operator_ink = Token_Ink ''--operator'' ''#e879c8'' ''#a8368c''"
definition unknown_ink :: overlay_colour where
  "unknown_ink = Token_Ink ''--muted-foreground'' ''#8a9199'' ''#6b7280''"

text \<open>The dashed line of a gap and the plain line of the rest of a route.\<close>

definition route_line ::
  "string \<Rightarrow> string \<Rightarrow> bool \<Rightarrow> overlay_colour \<Rightarrow> overlay_width \<Rightarrow> overlay_opacity \<Rightarrow> overlay" where
  "route_line i src gap colour width opacity =
     \<lparr> ov_id = i, ov_source = src, ov_gap = Some gap, ov_colour = colour, ov_width = width,
       ov_opacity = opacity, ov_dashes = (if gap then [2, 3] else []), ov_joined = (\<not> gap), ov_stroke = None \<rparr>"

definition overlay_layers :: "overlay list" where
  "overlay_layers =
     [\<lparr> ov_id = ''operator-links'', ov_source = ''operator-links'', ov_gap = None, ov_colour = operator_ink,
        ov_width = Fixed_Line 1.2, ov_opacity = Fixed_Opacity 0.65, ov_dashes = [1, 2], ov_joined = False,
        ov_stroke = None \<rparr>,
      route_line ''trail-gaps'' ''trails'' True track_ink (Fixed_Line 1.2) (Fixed_Opacity 0.55),
      route_line ''trails'' ''trails'' False track_ink (By_Confidence 1 2.6) (If_Stale 0.28 0.7),
      route_line ''path-gaps'' ''path-segments'' True track_ink (Fixed_Line 1.2) (Fixed_Opacity 0.55),
      route_line ''path-segments'' ''path-segments'' False (Ramp_Ink dim_track_ink track_ink unknown_ink)
        (Fixed_Line 2.4) (Fixed_Opacity 0.9),
      \<lparr> ov_id = ''path-dwells'', ov_source = ''path-dwells'', ov_gap = None, ov_colour = track_ink,
        ov_width = By_Seconds 10 3.5 300 10, ov_opacity = Fixed_Opacity 0.18, ov_dashes = [], ov_joined = False,
        ov_stroke = Some (1.4, 0.9) \<rparr>]"

text \<open>What the style has so far; each overlay is added when its name is missing.\<close>

definition add_overlays :: "string list \<times> overlay list \<Rightarrow> string list \<times> overlay list" where
  "add_overlays st =
     (fold set_add overlay_sources (fst st),
      fold (\<lambda>l ls. if ov_id l \<in> set (map ov_id ls) then ls else ls @ [l]) overlay_layers (snd st))"

definition trails_data :: "coloured_path option \<Rightarrow> track list \<Rightarrow> feature list" where
  "trails_data coloured tracks = (if coloured \<noteq> None then [] else trails_geo_json tracks)"

definition path_data :: "coloured_path option \<Rightarrow> coloured_segment list \<times> dwell_dot list" where
  "path_data coloured = (case coloured of None \<Rightarrow> ([], []) | Some c \<Rightarrow> (cp_segments c, cp_dwells c))"

section \<open>Colours\<close>

text \<open>\<open>paint\<close> is the canvas: the literal the browser paints an expression as, if it accepts it.\<close>

definition resolve_css_color :: "(string \<Rightarrow> string option) \<Rightarrow> string \<Rightarrow> string \<Rightarrow> string" where
  "resolve_css_color paint expression fallback = nullish (paint expression) fallback"

definition resolve_token_color :: "(string \<Rightarrow> string) \<Rightarrow> (string \<Rightarrow> string option) \<Rightarrow> string \<Rightarrow> string \<Rightarrow> string" where
  "resolve_token_color property paint token fallback =
     (let raw = trim (property token)
      in if raw = [] then fallback else resolve_css_color paint raw fallback)"

definition resolve_ramp :: "(string \<Rightarrow> string) \<Rightarrow> (string \<Rightarrow> string option) \<Rightarrow> string \<Rightarrow> string \<Rightarrow> string list" where
  "resolve_ramp property paint dull bright =
     (let dull_raw = trim (property ''--track-dim''); bright_raw = trim (property ''--track'')
      in if dull_raw = [] \<or> bright_raw = [] then [dull, bright]
         else map (\<lambda>(i, mix). resolve_css_color paint mix (if i = 0 then dull else bright))
           (enumerate 0 (ramp_mix_expressions dull_raw bright_raw)))"

text \<open>The five stops of the line colour, at 0, 0.25, 0.5, 0.75 and 1: a missing one is the one before.\<close>

definition ramp_stops :: "string list \<Rightarrow> string \<Rightarrow> string list" where
  "ramp_stops ramp track_colour =
     (let stop = (\<lambda>i before. if i < length ramp then ramp ! i else before);
          s0 = stop 0 track_colour; s1 = stop 1 s0; s2 = stop 2 s1; s3 = stop 3 s2; s4 = stop 4 s3
      in [s0, s1, s2, s3, s4])"

section \<open>The viewport comes back\<close>

lemma load_persisted:
  assumes "ws_mode st = Works" "prints num (fst (fst view))" "prints num (snd (fst view))" "prints num (snd view)"
    and "\<bar>fst (fst view)\<bar> \<le> 180" "\<bar>snd (fst view)\<bar> \<le> 90"
  shows "load_saved_viewport (persist_viewport num view st) = Some view"
proof -
  let ?v = "JObj [(''center'', JArr [JNum (fst (fst view)), JNum (snd (fst view))]), (''zoom'', JNum (snd view))]"
  have "json_parse (stringify num ?v) = Some ?v"
    using assms(2-4) by (intro stringify_reads_back) simp
  moreover have "read_viewport ?v = Some view" using assms(5,6) by (cases view) (auto simp: read_viewport_def)
  moreover have "stringify num ?v \<noteq> []" by (simp add: stringify_def)
  ultimately show ?thesis
    using assms(1) by (simp add: load_saved_viewport_def persist_viewport_def truthy_def)
qed

lemma read_view_valid: "read_viewport v = Some ((lon, lat), zoom) \<Longrightarrow> \<bar>lon\<bar> \<le> 180 \<and> \<bar>lat\<bar> \<le> 90"
  unfolding read_viewport_def
  by (simp split: json.splits option.splits list.splits if_splits)

lemma loaded_view_valid: "load_saved_viewport st = Some ((lon, lat), zoom) \<Longrightarrow> \<bar>lon\<bar> \<le> 180 \<and> \<bar>lat\<bar> \<le> 90"
  using read_view_valid
  by (auto simp: load_saved_viewport_def bind_eq_Some_conv split: attempt.splits if_splits)

lemma centre_effect_cases:
  obtains "centre_effect ready receiver browser lm = lm"
  | p where "centre_effect ready receiver browser lm = lm\<lparr> lm_centred := True, lm_moves := lm_moves lm @ [Jump_To p] \<rparr>"
      "lm_open lm" "ready" "\<not> lm_centred lm" "lm_fitted lm = None"
proof (cases "or_else receiver browser")
  case None
  then have "centre_effect ready receiver browser lm = lm" by (simp add: centre_effect_def)
  then show ?thesis by (rule that(1))
next
  case (Some p)
  define idle where "idle \<longleftrightarrow> \<not> lm_open lm \<or> \<not> ready \<or> lm_centred lm \<or> lm_fitted lm \<noteq> None"
  have e: "centre_effect ready receiver browser lm = (if idle then lm
      else lm\<lparr> lm_centred := True, lm_moves := lm_moves lm @ [Jump_To p] \<rparr>)"
    using Some by (simp add: centre_effect_def idle_def)
  show ?thesis
  proof (cases idle)
    case True
    then show ?thesis using e that(1) by simp
  next
    case False
    then have "lm_open lm" "ready" "\<not> lm_centred lm" "lm_fitted lm = None" by (auto simp: idle_def)
    then show ?thesis using e False by (intro that(2)) simp_all
  qed
qed

lemma fit_effect_cases:
  obtains "fit_effect ready c z tracks lm = lm"
  | b g where "fit_effect ready c z tracks lm = lm\<lparr> lm_fitted := Some g, lm_moves := lm_moves lm @ [Fit_To b z] \<rparr>"
      "lm_open lm" "ready" "c \<or> lm_fitted lm = None"
proof (cases "bounds_of (plottable_points tracks)")
  case None
  then have "fit_effect ready c z tracks lm = lm" by (simp add: fit_effect_def)
  then show ?thesis by (rule that(1))
next
  case (Some b)
  define idle where "idle \<longleftrightarrow> \<not> lm_open lm \<or> \<not> ready \<or> lm_fitted lm = Some (bounds_signature b) \<or> \<not> c \<and> lm_fitted lm \<noteq> None"
  have e: "fit_effect ready c z tracks lm = (if idle then lm
      else lm\<lparr> lm_fitted := Some (bounds_signature b), lm_moves := lm_moves lm @ [Fit_To b z] \<rparr>)"
    using Some by (simp add: fit_effect_def idle_def)
  show ?thesis
  proof (cases idle)
    case True
    then show ?thesis using e that(1) by simp
  next
    case False
    then have "lm_open lm" "ready" "c \<or> lm_fitted lm = None" by (auto simp: idle_def)
    then show ?thesis using e False by (intro that(2)) simp_all
  qed
qed

text \<open>A site's map reopens where it was left: after the camera came to rest at a view inside the
  coordinate range, taking the map down and making it again starts at exactly that view, and no jump to
  the receiver follows. A map of one flight never does this, and a stored view that is not one, or storage
  that is blocked, gives the fallback view: no stored text makes the map start out of range.\<close>

theorem viewport_is_remembered:
  assumes "ws_mode (lm_storage lm) = Works" "lm_open lm" "lm_site lm"
    and "list_all (prints num) [fst (fst view), snd (fst view), snd view]"
    and "\<bar>fst (fst view)\<bar> \<le> 180" "\<bar>snd (fst view)\<bar> \<le> 90"
  shows "(let again = create_map r True (remove_map (map_step num c (Move_Ended view) lm))
       in lm_start again = view \<and> lm_moves (centre_effect ready receiver browser again) = []) \<and>
    lm_start (create_map r False lm) = fallback_view \<and>
    \<bar>fst (fst (lm_start (create_map r b (lm\<lparr> lm_storage := other \<rparr>))))\<bar> \<le> 180 \<and>
    \<bar>snd (fst (lm_start (create_map r b (lm\<lparr> lm_storage := other \<rparr>))))\<bar> \<le> 90"
proof (intro conjI)
  have l: "load_saved_viewport (persist_viewport num view (lm_storage lm)) = Some view"
    using assms by (intro load_persisted) simp_all
  then show "let again = create_map r True (remove_map (map_step num c (Move_Ended view) lm))
       in lm_start again = view \<and> lm_moves (centre_effect ready receiver browser again) = []"
    using assms(2,3) by (cases view) (auto simp: create_map_def remove_map_def centre_effect_def Let_def)
  show "lm_start (create_map r False lm) = fallback_view" by (simp add: create_map_def)
  have "\<bar>fst (fst (nullish (load_saved_viewport other) fallback_view))\<bar> \<le> 180 \<and>
      \<bar>snd (fst (nullish (load_saved_viewport other) fallback_view))\<bar> \<le> 90"
  proof (cases "load_saved_viewport other")
    case (Some v)
    obtain lon lat zoom where "v = ((lon, lat), zoom)" by (cases v) auto
    then show ?thesis using loaded_view_valid [of other lon lat zoom] Some by simp
  qed (simp add: fallback_view_def)
  then show "\<bar>fst (fst (lm_start (create_map r b (lm\<lparr> lm_storage := other \<rparr>))))\<bar> \<le> 180"
    "\<bar>snd (fst (lm_start (create_map r b (lm\<lparr> lm_storage := other \<rparr>))))\<bar> \<le> 90"
    by (simp_all add: create_map_def Let_def fallback_view_def)
qed

theorem viewport_is_remembered_witness:
  "let lm = (new_live_map \<lparr> ws_mode = Works, ws_items = [] \<rparr>)\<lparr> lm_open := True, lm_site := True \<rparr>
   in lm_start (create_map True True (remove_map (map_step whole_text False (Move_Ended ((8, 47), 12)) lm))) = ((8, 47), 12)"
proof -
  have "prints whole_text 8" "prints whole_text 47" "prints whole_text 12"
    using prints_whole [of whole_text 8] prints_whole [of whole_text 47] prints_whole [of whole_text 12]
    by (simp_all add: whole_text_def)
  then show ?thesis
    using viewport_is_remembered [of "(new_live_map \<lparr> ws_mode = Works, ws_items = [] \<rparr>)\<lparr> lm_open := True, lm_site := True \<rparr>"
      whole_text "((8, 47), 12)" True False True None None False "\<lparr> ws_mode = Works, ws_items = [] \<rparr>"]
    by (simp add: new_live_map_def Let_def)
qed

section \<open>One claim at a time\<close>

definition is_jump :: "camera_move \<Rightarrow> bool" where
  "is_jump m = (case m of Jump_To _ \<Rightarrow> True | Fit_To _ _ \<Rightarrow> False)"

definition camera_inv :: "bool \<Rightarrow> live_map \<Rightarrow> bool" where
  "camera_inv on_changes lm \<longleftrightarrow>
     length (filter is_jump (lm_moves lm)) \<le> (if lm_restored lm \<or> \<not> lm_centred lm then 0 else 1) \<and>
     (lm_fitted lm = None \<longrightarrow> list_all is_jump (lm_moves lm)) \<and>
     sorted_wrt (\<lambda>a b. is_jump b \<longrightarrow> is_jump a) (lm_moves lm) \<and>
     (\<not> on_changes \<longrightarrow> length (filter (\<lambda>m. \<not> is_jump m) (lm_moves lm)) \<le> 1) \<and>
     (lm_restored lm \<longrightarrow> lm_centred lm) \<and> (lm_moves lm \<noteq> [] \<longrightarrow> lm_open lm)"

text \<open>Between commits the state is ready only when the present map's style has loaded.\<close>

definition ready_inv :: "live_map \<Rightarrow> bool" where
  "ready_inv lm \<longleftrightarrow> (lm_ready lm \<longrightarrow> lm_loaded lm) \<and> (\<not> lm_loaded lm \<and> lm_moves lm \<noteq> [] \<longrightarrow> lm_made_ready lm)"

lemma centre_effect_inv:
  assumes "camera_inv c lm"
  shows "camera_inv c (centre_effect ready receiver browser lm)"
  by (rule centre_effect_cases [of ready receiver browser lm])
    (use assms in \<open>simp_all add: camera_inv_def is_jump_def sorted_wrt_append list_all_iff\<close>)

lemma fit_effect_inv:
  assumes "camera_inv c lm"
  shows "camera_inv c (fit_effect ready c z tracks lm)"
proof (rule fit_effect_cases [of ready c z tracks lm])
  fix b g
  assume e: "fit_effect ready c z tracks lm = lm\<lparr> lm_fitted := Some g, lm_moves := lm_moves lm @ [Fit_To b z] \<rparr>"
    "lm_open lm" "c \<or> lm_fitted lm = None"
  have "filter (\<lambda>m. \<not> is_jump m) (lm_moves lm) = []" if "lm_fitted lm = None"
    using assms that by (auto simp: camera_inv_def list_all_iff filter_empty_conv)
  with e show ?thesis using assms by (auto simp: camera_inv_def is_jump_def sorted_wrt_append)
qed (use assms in simp)

lemma effects_frame:
  "lm_ready (centre_effect r a b lm) = lm_ready lm" "lm_loaded (centre_effect r a b lm) = lm_loaded lm"
  "lm_made_ready (centre_effect r a b lm) = lm_made_ready lm" "\<not> r \<Longrightarrow> centre_effect r a b lm = lm"
  "lm_ready (fit_effect r c z ts lm) = lm_ready lm" "lm_loaded (fit_effect r c z ts lm) = lm_loaded lm"
  "lm_made_ready (fit_effect r c z ts lm) = lm_made_ready lm" "\<not> r \<Longrightarrow> fit_effect r c z ts lm = lm"
  by (simp_all add: centre_effect_def fit_effect_def split: option.split)

lemma camera_inv_seen [simp]: "camera_inv c (lm\<lparr> lm_seen := r \<rparr>) = camera_inv c lm"
  by (simp add: camera_inv_def)

lemma map_commit_inv:
  assumes "camera_inv c lm" "ready_inv lm"
  shows "camera_inv c (map_commit c k lm) \<and> ready_inv (map_commit c k lm)"
proof -
  let ?r = "lm_ready lm"
  define lm1 where "lm1 = (case mc_make k of None \<Rightarrow> lm | Some s \<Rightarrow> create_map ?r s (remove_map lm))"
  define lm2 where "lm2 = (if lm_seen lm \<noteq> Some ?r \<or> mc_new_place k
    then centre_effect ?r (mc_receiver k) (mc_browser k) lm1 else lm1)"
  define lm3 where "lm3 = (if lm_seen lm \<noteq> Some ?r \<or> mc_new_tracks k
    then fit_effect ?r c (mc_max_zoom k) (mc_tracks k) lm2 else lm2)"
  have e: "map_commit c k lm = lm3\<lparr> lm_seen := Some ?r \<rparr>"
    by (simp add: map_commit_def lm1_def lm2_def lm3_def Let_def)
  have "camera_inv c lm1"
    using assms(1) by (cases "mc_make k") (simp_all add: lm1_def, simp add: create_map_def camera_inv_def Let_def)
  then have "camera_inv c lm3" by (simp add: lm3_def lm2_def centre_effect_inv fit_effect_inv)
  moreover have "ready_inv lm3"
  proof (cases ?r)
    case True
    then have "(lm_ready lm1 \<longrightarrow> lm_loaded lm1) \<and> (lm_loaded lm1 \<or> lm_made_ready lm1)"
      using assms(2) by (simp add: lm1_def ready_inv_def create_map_def remove_map_def Let_def split: option.split)
    then show ?thesis by (auto simp: ready_inv_def lm3_def lm2_def effects_frame)
  next
    case False
    then have "lm3 = lm1" by (simp add: lm3_def lm2_def effects_frame)
    then show ?thesis
      using assms(2) by (simp add: lm1_def ready_inv_def create_map_def remove_map_def Let_def split: option.split)
  qed
  ultimately show ?thesis by (simp add: e ready_inv_def)
qed

lemma camera_reach_inv: "map_reach num c lm \<Longrightarrow> camera_inv c lm \<and> ready_inv lm"
proof (induction rule: map_reach.induct)
  case (start st)
  show ?case by (simp add: camera_inv_def ready_inv_def new_live_map_def)
next
  case (step lm e)
  show ?case
  proof (cases e)
    case (Commit_With k)
    then show ?thesis using step.IH map_commit_inv by simp
  next
    case Loaded
    then show ?thesis using step.IH by (cases "lm_open lm") (simp_all add: camera_inv_def ready_inv_def)
  next
    case (Move_Ended view)
    then show ?thesis using step.IH by (cases "lm_open lm \<and> lm_site lm") (auto simp: camera_inv_def ready_inv_def)
  next
    case Unmounted
    then show ?thesis by (simp add: camera_inv_def ready_inv_def new_live_map_def)
  qed
qed

text \<open>C22: The code does not pull the camera about: on one map the jump to the receiver or the browser's
  position happens at most once, not at all when a viewport was restored, and never after the map was
  fitted to the contacts; a map that does not follow its tracks is fitted at most once. A map whose style has not
  loaded is moved by the effects in one case only: when the render that made it was still ready, for
  the map before it; a map made by any other render is left alone until its style has loaded.\<close>

theorem camera_is_claimed_once:
  assumes "map_reach num on_changes lm"
  shows "length (filter is_jump (lm_moves lm)) \<le> (if lm_restored lm then 0 else 1) \<and>
    sorted_wrt (\<lambda>a b. if is_jump b then is_jump a else True) (lm_moves lm) \<and>
    (if on_changes then True else length (filter (\<lambda>m. \<not> is_jump m) (lm_moves lm)) \<le> 1) \<and>
    (if lm_loaded lm \<or> lm_made_ready lm then True else lm_moves lm = []) \<and>
    (if lm_open lm then True else lm_moves lm = [])"
proof -
  have "(\<lambda>a b. if is_jump b then is_jump a else True) = (\<lambda>a b. is_jump b \<longrightarrow> is_jump a)" by auto
  then show ?thesis using camera_reach_inv [OF assms] by (auto simp: camera_inv_def ready_inv_def split: if_splits)
qed

definition seen_nothing :: commit_input where
  "seen_nothing = \<lparr> mc_make = None, mc_receiver = None, mc_browser = None, mc_new_place = False, mc_max_zoom = 16,
     mc_tracks = [], mc_new_tracks = False \<rparr>"

definition map_run :: "map_event list \<Rightarrow> live_map" where
  "map_run es = fold (map_step whole_text False) es (new_live_map \<lparr> ws_mode = Works, ws_items = [] \<rparr>)"

lemma map_run_reach: "map_reach whole_text False (map_run es)"
proof (induction es rule: rev_induct)
  case Nil
  then show ?case by (simp add: map_run_def map_reach.start)
next
  case (snoc e es)
  then show ?case using map_reach.step [of whole_text False "map_run es" e] by (simp add: map_run_def)
qed

lemmas map_eval = map_run_def new_live_map_def map_commit_def create_map_def remove_map_def centre_effect_def
  fit_effect_def seen_nothing_def plottable_points_def bounds_of_def Let_def

theorem camera_is_claimed_once_witness:
  "let p = \<lparr> ll_lat = 47, ll_lon = 8 \<rparr>;
       lm = map_run [Commit_With (seen_nothing\<lparr> mc_make := Some False \<rparr>), Loaded,
         Commit_With (seen_nothing\<lparr> mc_receiver := Some p \<rparr>)]
   in lm_moves lm = [Jump_To p] \<and> length (filter is_jump (lm_moves lm)) \<le> 1"
  using camera_is_claimed_once [OF map_run_reach [of "[Commit_With (seen_nothing\<lparr> mc_make := Some False \<rparr>), Loaded,
      Commit_With (seen_nothing\<lparr> mc_receiver := Some \<lparr> ll_lat = 47, ll_lon = 8 \<rparr> \<rparr>)]"]]
  by (simp add: map_eval)

text \<open>And that case occurs: when the map is made again in the commit that brings a new place (or new contacts),
  the effects still see the ready of the old map and move the new one before its style has loaded.\<close>

lemma remade_map_is_moved_unloaded:
  "let p = \<lparr> ll_lat = 47, ll_lon = 8 \<rparr>;
       lm = map_run [Commit_With (seen_nothing\<lparr> mc_make := Some False \<rparr>), Loaded, Commit_With seen_nothing,
         Commit_With (seen_nothing\<lparr> mc_make := Some False, mc_receiver := Some p, mc_new_place := True \<rparr>)]
   in lm_moves lm = [Jump_To p] \<and> \<not> lm_loaded lm"
  by (simp add: map_eval)

text \<open>The operator's own pan claims nothing: it changes what is stored and nothing the effects look at, so a
  position that arrives after it still takes the camera away.\<close>

lemma pan_claims_nothing:
  "let lm' = map_step num c (Move_Ended view) lm
   in lm' = lm\<lparr> lm_storage := lm_storage lm' \<rparr> \<and>
     lm_moves (centre_effect ready receiver browser lm') = lm_moves (centre_effect ready receiver browser lm)"
  by (simp add: centre_effect_def Let_def split: option.split)

section \<open>Overlays and colours\<close>

text \<open>However often the style is set and the overlays added again, each is there once, reads a source that
  is there, and a gap is drawn by one layer of its source while the rest is drawn by the other.\<close>

lemma overlays_added_once:
  "add_overlays (add_overlays ([], [])) = add_overlays ([], [])"
  "add_overlays ([], []) = (overlay_sources, overlay_layers)"
  "list_all (\<lambda>l. ov_source l \<in> set overlay_sources) overlay_layers"
  "list_all (\<lambda>s. list_all (\<lambda>g. length (filter (\<lambda>l. ov_source l = s \<and> (ov_gap l = None \<or> ov_gap l = Some g))
     overlay_layers) = 1) [True, False]) overlay_sources"
  by (simp_all add: add_overlays_def overlay_sources_def overlay_layers_def route_line_def set_add_def)

text \<open>Where the browser cannot mix colours the ramp is not the two-stop one the comment promises: the bright
  end is reached a quarter of the way up and held.\<close>

lemma two_stop_ramp_saturates:
  "ramp_stops [dull, bright] track_colour = [dull, bright, bright, bright, bright]"
  "trim (property ''--track'') = [] \<Longrightarrow> resolve_ramp property paint dull bright = [dull, bright]"
  by (simp_all add: ramp_stops_def resolve_ramp_def Let_def)

text \<open>The guard on the receiver's position checks that there are two numbers, not that they are a place.\<close>

lemma receiver_guard_checks_no_range:
  "as_receiver_position (JObj [(''lat'', JNum 200), (''lon'', JNum 8)]) = Some \<lparr> ll_lat = 200, ll_lon = 8 \<rparr>"
  by (simp add: as_receiver_position_def)


end
