(* ===== verification/GraphQl.thy ===== *)
theory GraphQl
  imports LiveFrames JsNumber TrackTier
begin

text \<open>
  \<open>lib/api/graphql.ts\<close>: the one query that fetches a track with its detections, and \<open>trackQuery\<close> of
  \<open>lib/api/queries.ts\<close>, which seeds a second cache entry with it. An answer arrives typed here; its
  texts for frequencies and the fields the query asks for are as the code has them.
\<close>

section \<open>What arrives\<close>

record gql_position =
  gp_lat :: real
  gp_lon :: real
  gp_alt_geodetic_m :: "real option"
  gp_height_agl_m :: "real option"
  gp_speed_mps :: "real option"
  gp_track_deg :: "real option"
  gp_at :: "string option"

record gql_operator =
  go_lat :: real
  go_lon :: real
  go_alt_m :: "real option"
  go_at :: "string option"

record gql_rf =
  gr_freq_hz :: "string option"
  gr_channel :: "int option"
  gr_rssi_dbm :: "real option"
  gr_bandwidth_hz :: "string option"
  gr_snr_db :: "real option"

record gql_detection_position =
  gd_lat :: "real option"
  gd_lon :: "real option"
  gd_alt_geodetic_m :: "real option"
  gd_height_agl_m :: "real option"

record gql_signal_features =
  gs_burst_rate_hz :: "real option"
  gs_burst_duration_us :: "real option"
  gs_duty_cycle :: "real option"
  gs_hop_count :: "int option"
  gs_occupied_bw_hz :: "string option"
  gs_protocol_hint :: "string option"

record gql_detection =
  gdet_detection_id :: string
  gdet_ts :: string
  gdet_sensor_id :: string
  gdet_sensor_kind :: sensor_kind
  gdet_class :: detection_class
  gdet_rf :: "gql_rf option"
  gdet_identity :: "detection_identity option"
  gdet_position :: "gql_detection_position option"
  gdet_kinematics :: "detection_kinematics option"
  gdet_operator :: "gql_operator option"
  gdet_signal_features :: "gql_signal_features option"
  gdet_adsb :: "detection_adsb option"

record gql_page =
  gpg_detections :: "gql_detection list"
  gpg_next_cursor :: "string option"
  gpg_total :: "int option"

record gql_track =
  gt_track_id :: string
  gt_state :: track_state
  gt_first_seen :: string
  gt_last_seen :: string
  gt_detection_count :: int
  gt_confidence :: real
  gt_rssi_dbm :: "real option"
  gt_adsb_correlated :: bool
  gt_identity :: "track_identity option"
  gt_evidence :: "evidence list option"
  gt_receivers :: "receiver list option"
  gt_current :: "gql_position option"
  gt_history :: "gql_position list option"
  gt_operator :: "gql_operator option"
  gt_detections :: gql_page

section \<open>The mappings\<close>

definition parse_hz :: "string option \<Rightarrow> real option" where
  "parse_hz value = Option.bind value js_number"

definition map_position :: "gql_position \<Rightarrow> position" where
  "map_position p =
     \<lparr> pos_lat = gp_lat p, pos_lon = gp_lon p, pos_alt_geodetic_m = gp_alt_geodetic_m p,
       pos_height_agl_m = gp_height_agl_m p, pos_terrain_elevation_m = None,
       pos_speed_mps = gp_speed_mps p, pos_track_deg = gp_track_deg p, pos_at = gp_at p \<rparr>"

definition map_operator :: "gql_operator option \<Rightarrow> position option" where
  "map_operator o' =
     map_option (\<lambda>q. \<lparr> pos_lat = go_lat q, pos_lon = go_lon q, pos_alt_geodetic_m = None,
       pos_height_agl_m = None, pos_terrain_elevation_m = None, pos_speed_mps = None,
       pos_track_deg = None, pos_at = go_at q \<rparr>) o'"

definition map_detection :: "gql_detection \<Rightarrow> detection" where
  "map_detection d =
     \<lparr> det_detection_id = gdet_detection_id d, det_ts = gdet_ts d, det_sensor_id = gdet_sensor_id d,
       det_sensor_kind = gdet_sensor_kind d, det_class = gdet_class d,
       det_rf = map_option (\<lambda>r.
           \<lparr> rf_freq_hz = parse_hz (gr_freq_hz r), rf_channel = gr_channel r, rf_rssi_dbm = gr_rssi_dbm r,
             rf_bandwidth_hz = parse_hz (gr_bandwidth_hz r), rf_snr_db = gr_snr_db r \<rparr>) (gdet_rf d),
       det_identity = gdet_identity d,
       det_position = map_option (\<lambda>p.
           \<lparr> dp_lat = gd_lat p, dp_lon = gd_lon p, dp_alt_geodetic_m = gd_alt_geodetic_m p,
             dp_alt_pressure_m = None, dp_height_agl_m = gd_height_agl_m p,
             dp_h_accuracy_m = None, dp_v_accuracy_m = None \<rparr>) (gdet_position d),
       det_kinematics = gdet_kinematics d,
       det_operator = map_option (\<lambda>q.
           \<lparr> do_lat = Some (go_lat q), do_lon = Some (go_lon q), do_alt_m = go_alt_m q \<rparr>) (gdet_operator d),
       det_signal_features = map_option (\<lambda>f.
           \<lparr> sf_burst_rate_hz = gs_burst_rate_hz f, sf_burst_duration_us = gs_burst_duration_us f,
             sf_duty_cycle = gs_duty_cycle f, sf_hop_count = gs_hop_count f,
             sf_occupied_bw_hz = parse_hz (gs_occupied_bw_hz f), sf_protocol_hint = gs_protocol_hint f \<rparr>)
         (gdet_signal_features d),
       det_adsb = gdet_adsb d, det_raw = None \<rparr>"

definition map_track :: "gql_track \<Rightarrow> track" where
  "map_track t =
     \<lparr> trk_track_id = gt_track_id t, trk_state = gt_state t, trk_first_seen = gt_first_seen t,
       trk_last_seen = gt_last_seen t, trk_detection_count = gt_detection_count t,
       trk_identity = gt_identity t, trk_confidence = gt_confidence t,
       trk_evidence = Some (nullish (gt_evidence t) []),
       trk_current = map_option map_position (gt_current t),
       trk_history = Some (map map_position (nullish (gt_history t) [])),
       trk_operator = map_operator (gt_operator t), trk_rssi_dbm = gt_rssi_dbm t,
       trk_receivers = Some (nullish (gt_receivers t) []),
       trk_adsb_correlated = Some (gt_adsb_correlated t) \<rparr>"

section \<open>The request\<close>

text \<open>
  The endpoint answers 200 for failures too: \<open>errors\<close> is read first, then a missing \<open>data\<close>. A \<open>data\<close>
  that is \<open>null\<close> reaches \<open>data.track\<close> and is a TypeError, as is an answer without a body.
\<close>

datatype 'a gql_data = Data_Absent | Data_Null | Data_Present 'a

record gql_response =
  gres_data :: "gql_track option gql_data"
  gres_errors :: "string list option"

datatype gql_answer = Request_Failed api_error | Request_Unreadable | Request_Empty | Answered gql_response

datatype track_result = Loaded track detections_response | Api_Error api_error | Type_Error | Unreadable

definition internal_error :: "string \<Rightarrow> api_error" where
  "internal_error message =
     \<lparr> ae_status = 200, ae_code = Some (JStr ''internal''), ae_message = Some (JStr message), ae_field = None \<rparr>"

definition graphql_request :: "gql_answer \<Rightarrow> track_result + gql_track option gql_data" where
  "graphql_request answer =
     (case answer of
        Request_Failed e \<Rightarrow> Inl (Api_Error e)
      | Request_Unreadable \<Rightarrow> Inl Unreadable
      | Request_Empty \<Rightarrow> Inl Type_Error
      | Answered r \<Rightarrow>
          if nullish (gres_errors r) [] \<noteq> [] then
            Inl (Api_Error (internal_error (join ''; '' (nullish (gres_errors r) []))))
          else if gres_data r = Data_Absent then Inl (Api_Error (internal_error ''GraphQL response carried no data''))
          else Inr (gres_data r))"

definition detections_of_page :: "gql_page \<Rightarrow> detections_response" where
  "detections_of_page pg =
     \<lparr> dr_detections = map map_detection (gpg_detections pg), dr_next_cursor = gpg_next_cursor pg,
       dr_total = nullish (gpg_total pg) (int (length (gpg_detections pg))) \<rparr>"

definition track_with_detections :: "string \<Rightarrow> gql_answer \<Rightarrow> track_result" where
  "track_with_detections track_id answer =
     (case graphql_request answer of
        Inl e \<Rightarrow> e
      | Inr (Data_Present (Some t)) \<Rightarrow> Loaded (map_track t) (detections_of_page (gt_detections t))
      | Inr (Data_Present None) \<Rightarrow>
          Api_Error \<lparr> ae_status = 404, ae_code = Some (JStr ''not_found''),
            ae_message = Some (JStr (''no track with id '' @ track_id)), ae_field = None \<rparr>
      | Inr _ \<Rightarrow> Type_Error)"

text \<open>\<open>trackQuery\<close>: the track, and the detections it writes under \<open>['tracks', 'detections', id]\<close> first.\<close>

definition track_query ::
  "string \<Rightarrow> gql_answer \<Rightarrow> (track_result + track) \<times> (string \<times> detections_response) list" where
  "track_query track_id answer =
     (case track_with_detections track_id answer of
        Loaded t ds \<Rightarrow> (Inr t, [(track_id, ds)])
      | e \<Rightarrow> (Inl e, []))"

section \<open>The same track over REST\<close>

















section \<open>Properties\<close>





text \<open>Every way the query can fail is told apart: a refused request keeps its own error, an answer with
  errors or without data is an internal error and not a missing track, and a track the service does
  not know is not found, as it is over REST; nothing is seeded.\<close>

theorem graphql_failures_told_apart:
  "track_query i (Request_Failed e) = (Inl (Api_Error e), []) \<and>
   track_query i (Answered \<lparr> gres_data = d, gres_errors = Some (m # ms) \<rparr>) =
     (Inl (Api_Error (internal_error (join ''; '' (m # ms)))), []) \<and>
   track_query i (Answered \<lparr> gres_data = Data_Absent, gres_errors = None \<rparr>) =
     (Inl (Api_Error (internal_error ''GraphQL response carried no data'')), []) \<and>
   \<not> is_not_found (internal_error text') \<and>
   (\<exists>nf. track_query i (Answered \<lparr> gres_data = Data_Present None, gres_errors = None \<rparr>) = (Inl (Api_Error nf), []) \<and>
      is_not_found nf)"
  by (simp add: track_query_def track_with_detections_def graphql_request_def is_not_found_def internal_error_def)

end
