(* ===== verification/QueryPolicy.thy ===== *)
theory QueryPolicy
  imports ApiClient LogStore
begin

text \<open>
  When the console asks again: the retry rules of \<open>main.tsx\<close> and of \<open>authMeQuery\<close>, and the refetch
  intervals and stale times \<open>lib/api/queries.ts\<close> computes from what a query last held. The query library
  asks \<open>retry(failureCount, error)\<close> after a failed attempt, with the number of failures before it,
  and tries again while the answer is true. An interval is in milliseconds, \<^term>\<open>None\<close> is \<open>false\<close>.
\<close>

section \<open>Retries\<close>

datatype request_failure = Api_Failure api_error | Other_Failure string

definition refused_statuses :: "nat list" where
  "refused_statuses = [400, 401, 403, 404, 409]"

definition default_retry :: "nat \<Rightarrow> request_failure \<Rightarrow> bool" where
  "default_retry failure_count failure =
     (case failure of
        Api_Failure e \<Rightarrow> if ae_status e \<in> set refused_statuses then False else failure_count < 1
      | Other_Failure _ \<Rightarrow> failure_count < 1)"

definition auth_retry :: "nat \<Rightarrow> request_failure \<Rightarrow> bool" where
  "auth_retry failure_count failure =
     ((case failure of Api_Failure _ \<Rightarrow> False | Other_Failure _ \<Rightarrow> True) \<and> failure_count < 2)"

definition report_retry :: "nat \<Rightarrow> request_failure \<Rightarrow> bool" where
  "report_retry failure_count failure = False"

text \<open>The attempts of one fetch: how many were made, and what the last one gave. \<open>attempt n\<close> is what the
  server does the n-th time.\<close>

partial_function (option) fetch_with ::
  "(nat \<Rightarrow> request_failure \<Rightarrow> bool) \<Rightarrow> (nat \<Rightarrow> request_failure + 'v) \<Rightarrow> nat \<Rightarrow> (nat \<times> (request_failure + 'v)) option"
where
  "fetch_with retry attempt n =
     (case attempt n of
        Inr v \<Rightarrow> Some (Suc n, Inr v)
      | Inl f \<Rightarrow> if retry n f then fetch_with retry attempt (Suc n) else Some (Suc n, Inl f))"



section \<open>What a failure does\<close>

definition failure_text :: "request_failure \<Rightarrow> string" where
  "failure_text f =
     (case f of
        Api_Failure e \<Rightarrow> (case ae_message e of Some (JStr m) \<Rightarrow> m | _ \<Rightarrow> [])
      | Other_Failure m \<Rightarrow> m)"

text \<open>The code and the field are texts when the envelope is the documented one.\<close>

definition json_detail :: "json option \<Rightarrow> detail_value" where
  "json_detail v = (case v of Some (JStr s) \<Rightarrow> DStr s | Some (JNum x) \<Rightarrow> DNum x | Some (JBool b) \<Rightarrow> DBool b | _ \<Rightarrow> DNull)"

definition log_api_failure :: "request_failure \<Rightarrow> string \<Rightarrow> log_input" where
  "log_api_failure failure cause =
     \<lparr> li_at = None, li_level = Error, li_source = SrcApi, li_message = cause @ '': '' @ failure_text failure,
       li_detail =
         (case failure of
            Api_Failure e \<Rightarrow>
              Some ([(''code'', json_detail (ae_code e)), (''status'', DNum (of_nat (ae_status e)))] @
                (case ae_field e of Some (JStr f) \<Rightarrow> if f = [] then [] else [(''field'', DStr f)] | _ \<Rightarrow> []))
          | Other_Failure _ \<Rightarrow> None),
       li_track_id = None \<rparr>"

text \<open>Whether the session is asked about again.\<close>

definition on_unauthenticated :: "request_failure \<Rightarrow> bool" where
  "on_unauthenticated failure =
     (case failure of Api_Failure e \<Rightarrow> ae_status e = 401 | Other_Failure _ \<Rightarrow> False)"

definition on_query_error :: "request_failure \<Rightarrow> string \<Rightarrow> log_input \<times> bool" where
  "on_query_error failure key =
     (log_api_failure failure (''Request failed ('' @ key @ '')''), on_unauthenticated failure)"

definition on_mutation_error :: "request_failure \<Rightarrow> log_input \<times> bool" where
  "on_mutation_error failure = (log_api_failure failure ''Action failed'', on_unauthenticated failure)"

section \<open>Intervals\<close>

definition auth_interval :: "bool \<Rightarrow> nat option" where
  "auth_interval in_error = (if in_error then Some 5000 else None)"

definition deployment_interval :: "deployment_status option \<Rightarrow> nat" where
  "deployment_interval state =
     (if Option.bind state dep_last_result = Some ''deploying'' then 3000
      else if (case state of Some s \<Rightarrow> dep_deploy_requested s | None \<Rightarrow> False) then 10000
      else 60000)"

definition bands_interval :: "string option \<Rightarrow> nat option" where
  "bands_interval running_sweep_id = (if truthy running_sweep_id then Some 3000 else None)"

definition sweeps_interval :: "spectrum_sweep list option \<Rightarrow> nat option" where
  "sweeps_interval sweeps =
     (if list_ex (\<lambda>w. sw_state w = Running) (nullish sweeps []) then Some 3000 else None)"

definition sweep_is_settled :: "run_state option \<Rightarrow> bool" where
  "sweep_is_settled state \<longleftrightarrow> state = Some Completed \<or> state = Some run_state.Failed"

text \<open>\<^term>\<open>None\<close> is \<open>Infinity\<close>.\<close>

definition sweep_stale_time :: "run_state option \<Rightarrow> nat option" where
  "sweep_stale_time state = (if sweep_is_settled state then None else Some 0)"

definition sweep_interval :: "run_state option \<Rightarrow> nat option" where
  "sweep_interval state = (if sweep_is_settled state then None else Some 2000)"

definition adsb_window_ms :: int where "adsb_window_ms = 5 * 60000"

definition adsb_since :: "int \<Rightarrow> string" where
  "adsb_since now = to_iso (now - adsb_window_ms)"

section \<open>Closed-track history\<close>

text \<open>An infinite query holds its pages in order; another is fetched on request, from the cursor of the
  last, while there is one.\<close>

definition history_page_size :: int where "history_page_size = 100"

definition next_page_param :: "tracks_response \<Rightarrow> string option" where
  "next_page_param page = tr_next_cursor page"

definition history_query :: "string option \<Rightarrow> string option \<Rightarrow> tracks_query" where
  "history_query since page_param =
     \<lparr> tq_state = Some [CLOSED], tq_since = since, tq_until = None, tq_serial = None, tq_vendor = None,
       tq_min_confidence = None, tq_limit = Some history_page_size, tq_cursor = page_param \<rparr>"

definition fetch_next_page ::
  "(tracks_query \<Rightarrow> tracks_response) \<Rightarrow> string option \<Rightarrow> tracks_response list \<Rightarrow> tracks_response list" where
  "fetch_next_page api since pages =
     (if pages = [] then [api (history_query since None)]
      else (case next_page_param (last pages) of
          None \<Rightarrow> pages
        | Some c \<Rightarrow> pages @ [api (history_query since (Some c))]))"

section \<open>The history of a paged list\<close>

text \<open>The service as the history sees it: a list of closed tracks, of which a page is a slice, and a cursor
  the offset of the next.\<close>

definition serves :: "(tracks_query \<Rightarrow> tracks_response) \<Rightarrow> string option \<Rightarrow> track list \<Rightarrow> (nat \<Rightarrow> string) \<Rightarrow> bool" where
  "serves api since ts cursor \<longleftrightarrow>
     (\<forall>k. tr_tracks (api (history_query since (if k = 0 then None else Some (cursor k)))) = take 100 (drop (100 * k) ts) \<and>
        tr_next_cursor (api (history_query since (if k = 0 then None else Some (cursor k)))) =
          (if 100 * Suc k < length ts then Some (cursor (Suc k)) else None))"

definition history_after :: "(tracks_query \<Rightarrow> tracks_response) \<Rightarrow> string option \<Rightarrow> nat \<Rightarrow> tracks_response list" where
  "history_after api since n = (fetch_next_page api since ^^ n) []"

lemma history_shape:
  assumes "serves api since ts cursor" "0 < n"
  shows "\<exists>m. 0 < m \<and> m \<le> n \<and> length (history_after api since n) = m \<and>
    (\<forall>k < m. tr_tracks (history_after api since n ! k) = take 100 (drop (100 * k) ts)) \<and>
    tr_next_cursor (last (history_after api since n)) = (if 100 * m < length ts then Some (cursor m) else None) \<and>
    (m < n \<longrightarrow> length ts \<le> 100 * m)"
  using assms(2)
proof (induction n)
  case (Suc n)
  have pg: "tr_tracks (api (history_query since (if k = 0 then None else Some (cursor k)))) = take 100 (drop (100 * k) ts)"
    "tr_next_cursor (api (history_query since (if k = 0 then None else Some (cursor k)))) =
          (if 100 * Suc k < length ts then Some (cursor (Suc k)) else None)" for k
    using assms(1) unfolding serves_def by blast+
  show ?case
  proof (cases "n = 0")
    case True
    have "history_after api since (Suc n) = [api (history_query since None)]"
      using True by (simp add: history_after_def fetch_next_page_def)
    then show ?thesis using pg [of 0] True by (intro exI [of _ 1]) simp
  next
    case False
    let ?h = "history_after api since n"
    obtain m where m: "0 < m" "m \<le> n" "length ?h = m"
      "\<And>k. k < m \<Longrightarrow> tr_tracks (?h ! k) = take 100 (drop (100 * k) ts)"
      "tr_next_cursor (last ?h) = (if 100 * m < length ts then Some (cursor m) else None)"
      "m < n \<Longrightarrow> length ts \<le> 100 * m"
      using Suc.IH False by blast
    have ne: "?h \<noteq> []" using m(1,3) by auto
    have h': "history_after api since (Suc n) = fetch_next_page api since ?h"
      by (simp add: history_after_def)
    show ?thesis
    proof (cases "100 * m < length ts")
      case True
      then have e: "history_after api since (Suc n) = ?h @ [api (history_query since (Some (cursor m)))]"
        using h' ne m(5) by (simp add: fetch_next_page_def next_page_param_def)
      have "m = n" using m(2,6) True by fastforce
      then show ?thesis
        using e m pg [of m] by (intro exI [of _ "Suc m"]) (auto simp: nth_append less_Suc_eq)
    next
      case False
      then have "history_after api since (Suc n) = ?h"
        using h' ne m(5) by (simp add: fetch_next_page_def next_page_param_def)
      then show ?thesis using False m by (intro exI [of _ m]) auto
    qed
  qed
qed simp

lemma concat_slices:
  "(\<And>k. k < m \<Longrightarrow> f k = take b (drop (b * k) xs)) \<Longrightarrow> concat (map f [0..<m]) = take (b * m) xs"
proof (induction m)
  case (Suc m)
  have "take b (drop (b * m) xs) = drop (b * m) (take (b * Suc m) xs)" by (simp add: drop_take algebra_simps)
  moreover have "take (b * Suc m) xs = take (b * m) xs @ drop (b * m) (take (b * Suc m) xs)"
    by (metis append_take_drop_id le_add2 min.absorb1 mult_Suc_right take_take)
  ultimately show ?case using Suc by simp
qed simp

section \<open>Properties\<close>

text \<open>C13: Every request settles: whatever the server does, the default rule makes at most two attempts, the
  session query at most three, a refusal with status 400, 401, 403, 404 or 409 is final at the first
  attempt, any answer of the API is final for the session, and a capture report is asked for once;
  what is returned is what the last attempt gave.\<close>

theorem requests_settle:
  "(\<exists>k. fetch_with default_retry attempt 0 = Some (k, attempt (k - 1)) \<and> 1 \<le> k \<and> k \<le> 2) \<and>
   (\<exists>k. fetch_with auth_retry attempt 0 = Some (k, attempt (k - 1)) \<and> 1 \<le> k \<and> k \<le> 3) \<and>
   fetch_with report_retry attempt 0 = Some (1, attempt 0) \<and>
   (if \<exists>e. attempt 0 = Inl (Api_Failure e) \<and> ae_status e \<in> set refused_statuses
    then fetch_with default_retry attempt 0 = Some (1, attempt 0) else True) \<and>
   (if \<exists>e. attempt 0 = Inl (Api_Failure e) then fetch_with auth_retry attempt 0 = Some (1, attempt 0) else True)"
proof (intro conjI)
  have d: "\<not> default_retry (Suc 0) f" for f by (simp add: default_retry_def split: request_failure.split)
  have a: "\<not> auth_retry (Suc (Suc 0)) f" for f by (simp add: auth_retry_def)
  note step = fetch_with.simps [of _ attempt]
  show "\<exists>k. fetch_with default_retry attempt 0 = Some (k, attempt (k - 1)) \<and> 1 \<le> k \<and> k \<le> 2"
    using d by (cases "attempt 0"; cases "attempt 1") (auto simp: step [of _ 0] step [of _ "Suc 0"])
  show "fetch_with report_retry attempt 0 = Some (1, attempt 0)"
    by (cases "attempt 0") (simp_all add: step [of _ 0] report_retry_def)
  show "if \<exists>e. attempt 0 = Inl (Api_Failure e) \<and> ae_status e \<in> set refused_statuses
    then fetch_with default_retry attempt 0 = Some (1, attempt 0) else True"
    by (auto simp: step [of _ 0] default_retry_def)
  show "if \<exists>e. attempt 0 = Inl (Api_Failure e) then fetch_with auth_retry attempt 0 = Some (1, attempt 0) else True"
    by (auto simp: step [of _ 0] auth_retry_def)
  show "\<exists>k. fetch_with auth_retry attempt 0 = Some (k, attempt (k - 1)) \<and> 1 \<le> k \<and> k \<le> 3"
    using a by (cases "attempt 0"; cases "attempt 1"; cases "attempt 2")
      (auto simp: step [of _ 0] step [of _ "Suc 0"] step [of _ "Suc (Suc 0)"] numeral_2_eq_2)
qed

text \<open>The closed-track history is the service's list: against a service that pages its list by hundreds, the
  pages after any number of requests are its first tracks, in order, without a repetition or a gap,
  and once all are loaded further requests change nothing.\<close>

theorem history_pages_are_the_list:
  assumes "serves api since ts cursor"
  shows "concat (map tr_tracks (history_after api since n)) = take (100 * n) ts"
proof (cases "n = 0")
  case False
  then obtain m where m: "m \<le> n" "length (history_after api since n) = m"
    "\<And>k. k < m \<Longrightarrow> tr_tracks (history_after api since n ! k) = take 100 (drop (100 * k) ts)"
    "m < n \<Longrightarrow> length ts \<le> 100 * m"
    using history_shape [OF assms, of n] by blast
  have "map tr_tracks (history_after api since n) = map (\<lambda>k. tr_tracks (history_after api since n ! k)) [0..<m]"
    by (rule nth_equalityI) (simp_all add: m(2))
  then have "concat (map tr_tracks (history_after api since n)) = take (100 * m) ts"
    using concat_slices [of m "\<lambda>k. tr_tracks (history_after api since n ! k)" 100 ts] m(3) by simp
  then show ?thesis using m(1,4) by (cases "m < n") auto
qed (simp add: history_after_def)

definition one_page :: "track list \<Rightarrow> tracks_query \<Rightarrow> tracks_response" where
  "one_page ts q = \<lparr> tr_tracks = (if tq_cursor q = None then ts else []), tr_next_cursor = None, tr_total = int (length ts) \<rparr>"

definition closed_flight :: track where
  "closed_flight = \<lparr> trk_track_id = ''t1'', trk_state = CLOSED, trk_first_seen = ''x'', trk_last_seen = ''y'',
     trk_detection_count = 3, trk_identity = None, trk_confidence = 1, trk_evidence = None,
     trk_current = None, trk_history = None, trk_operator = None, trk_rssi_dbm = None,
     trk_receivers = None, trk_adsb_correlated = None \<rparr>"

theorem history_pages_are_the_list_witness:
  "concat (map tr_tracks (history_after (one_page [closed_flight]) None 2)) = [closed_flight]"
proof -
  have "serves (one_page [closed_flight]) None [closed_flight] (\<lambda>k. digits_of_nat k)"
    unfolding serves_def by (auto simp: one_page_def history_query_def)
  from history_pages_are_the_list [OF this, of 2] show ?thesis by simp
qed

text \<open>A measurement still running is never mistaken for a finished one: a sweep is refetched and never kept
  fresh until it is settled, and a settled one is kept for good and never asked for again.\<close>

lemma sweep_cached_iff_settled:
  "(sweep_interval state = None \<longleftrightarrow> sweep_is_settled state) \<and> (sweep_stale_time state = None \<longleftrightarrow> sweep_is_settled state)"
  by (simp add: sweep_interval_def sweep_stale_time_def)

end
