(* ===== verification/LiveView.thy ===== *)
theory LiveView
  imports FlightMetrics Units QueryPolicy Health
begin

text \<open>
  \<open>routes/index.tsx\<close> and \<open>features/map/contacts-panel.tsx\<close>, with the label lookup of
  \<open>features/tracks/use-aircraft-label.ts\<close>: what the live view gives the map and the contacts panel, the
  panel's sections and the text of their rows. Layout, icons and class names are left out; a row is the
  record of its texts, and a click is the selection it asks for.
\<close>

section \<open>What the view derives\<close>

record live_view =
  lv_active :: "track list"
  lv_unidentified :: "track list"
  lv_closed :: "track list"
  lv_adsb :: "detection list"
  lv_contact_count :: nat
  lv_sky :: sky_state
  lv_confirmed :: nat
  lv_unplotted :: nat

definition live_view_of ::
  "tracks_response option \<Rightarrow> health option \<Rightarrow> detections_response option \<Rightarrow> bool \<Rightarrow> int \<Rightarrow> live_view" where
  "live_view_of tracks_data health adsb_data show_closed now =
     (let p = partition_tracks (case tracks_data of None \<Rightarrow> [] | Some r \<Rightarrow> tr_tracks r);
          adsb = aircraft_from_detections (case adsb_data of None \<Rightarrow> [] | Some r \<Rightarrow> dr_detections r)
            (Some adsb_window_ms) now
      in \<lparr> lv_active = tp_active p, lv_unidentified = tp_unidentified p, lv_closed = tp_closed p, lv_adsb = adsb,
           lv_contact_count = length (tp_active p) + length (tp_unidentified p) +
             (if show_closed then length (tp_closed p) else 0) + length adsb,
           lv_sky = compute_sky_state health (length (tp_active p)),
           lv_confirmed = length (filter (\<lambda>t. trk_state t = CONFIRMED) (tp_active p)),
           lv_unplotted = length (filter (\<lambda>t. trk_current t = None) (tp_active p)) \<rparr>)"

record metric =
  mt_id :: string
  mt_label :: string
  mt_value :: nat
  mt_tone :: string
  mt_hint :: string

definition airspace_metrics :: "live_view \<Rightarrow> metric list" where
  "airspace_metrics v =
     [\<lparr> mt_id = ''active'', mt_label = ''Active'', mt_value = length (lv_active v), mt_tone = ''default'',
        mt_hint = ''tracks fusion is watching'' \<rparr>,
      \<lparr> mt_id = ''confirmed'', mt_label = ''Confirmed'', mt_value = lv_confirmed v,
        mt_tone = (if 0 < lv_confirmed v then ''ok'' else ''default''), mt_hint = ''corroborated by evidence'' \<rparr>,
      \<lparr> mt_id = ''manned'', mt_label = ''Manned'', mt_value = length (lv_adsb v), mt_tone = ''default'',
        mt_hint = ''ADS-B, context only'' \<rparr>,
      \<lparr> mt_id = ''unplotted'', mt_label = ''No position'', mt_value = lv_unplotted v,
        mt_tone = (if 0 < lv_unplotted v then ''warn'' else ''muted''),
        mt_hint = (if 0 < lv_unplotted v then ''in the list, not on the map'' else ''all tracks plotted'') \<rparr>]"

section \<open>Labels\<close>

definition use_aircraft_label :: "aircraft_label list \<Rightarrow> string option \<Rightarrow> aircraft_label option" where
  "use_aircraft_label labels serial =
     (if \<not> truthy serial then None else find (\<lambda>e. Some (al_serial e) = serial) labels)"

definition use_aircraft_labels :: "aircraft_label list \<Rightarrow> (string \<times> aircraft_label) list" where
  "use_aircraft_labels labels = fold (\<lambda>e. AList.update (al_serial e) e) labels []"

section \<open>The sections of the panel\<close>

definition flights_per_aircraft :: nat where "flights_per_aircraft = 3"

record panel_sections =
  ps_drones :: "track list"
  ps_shelved :: "track list"
  ps_closed_flights :: "track list"
  ps_aircraft :: "aircraft_group list"
  ps_manned :: "detection list"

definition panel_sections_of ::
  "(string \<Rightarrow> string \<Rightarrow> int) \<Rightarrow> track list \<Rightarrow> track list \<Rightarrow> track list \<Rightarrow> bool \<Rightarrow> detection list \<Rightarrow> panel_sections" where
  "panel_sections_of lc tracks unidentified closed_tracks show_closed adsb =
     (let closed_flights = filter is_identified closed_tracks;
          plotted = filter (\<lambda>t. trk_current t \<noteq> None) tracks;
          unplotted = filter (\<lambda>t. trk_current t = None) tracks;
          unidentified_closed = (if show_closed then filter (\<lambda>t. \<not> is_identified t) closed_tracks else [])
      in \<lparr> ps_drones = plotted @ unplotted, ps_shelved = unidentified @ unidentified_closed,
           ps_closed_flights = closed_flights,
           ps_aircraft = group_by_aircraft (rev (order_flights lc closed_flights)),
           ps_manned = adsb \<rparr>)"

text \<open>The headings that are shown, with the number each claims. The shelf is left out when it is empty and
  the closed section when the operator hid it.\<close>

definition panel_headings :: "bool \<Rightarrow> panel_sections \<Rightarrow> (string \<times> nat) list" where
  "panel_headings show_closed s =
     [(''Active drone tracks'', length (ps_drones s))] @
     (if ps_shelved s \<noteq> [] then [(''Unidentified RF'', length (ps_shelved s))] else []) @
     (if show_closed then [(''Closed flights'', length (ps_closed_flights s))] else []) @
     [(''Manned traffic'', length (ps_manned s))]"

section \<open>Rows\<close>

definition mps_per_knot :: real where "mps_per_knot = 0.5144444444444445"

definition manned_speed :: "detection \<Rightarrow> real option" where
  "manned_speed d =
     or_else (Option.bind (det_kinematics d) dk_speed_mps)
       (map_option (\<lambda>kt. kt * mps_per_knot) (Option.bind (det_adsb d) adsb_ground_speed_kt))"

record manned_row =
  mr_name :: string
  mr_altitude :: string
  mr_icao :: "string option"
  mr_pressed :: bool
  mr_detail :: "(string \<times> string) list"

definition row_name :: "detection \<Rightarrow> string" where
  "row_name d =
     (case map_option trim (Option.bind (det_adsb d) adsb_callsign) of
        Some (c # cs) \<Rightarrow> c # cs
      | _ \<Rightarrow> nullish (map_option adsb_icao (det_adsb d)) (det_detection_id d))"

text \<open>The pairs shown when the row is selected. A position in a frame has both its coordinates.\<close>

definition manned_details :: "intl \<Rightarrow> format_preferences \<Rightarrow> int \<Rightarrow> detection \<Rightarrow> (string \<times> string) list" where
  "manned_details intl p now d =
     (let altitude = Option.bind (det_adsb d) adsb_alt_ft;
          geodetic = Option.bind (det_position d) dp_alt_geodetic_m;
          rssi = Option.bind (det_rf d) rf_rssi_dbm
      in [(''Position'', case finite_position d of
             None \<Rightarrow> ''not reported '' @ em_dash @ '' not on map''
           | Some (lat, lon) \<Rightarrow> fmt_coords p lat lon),
          (''Altitude'', fmt_altitude_feet p altitude)] @
         (if geodetic = None then [] else [(''GNSS altitude'', fmt_length p geodetic)]) @
         [(''Ground speed'', fmt_speed p (manned_speed d)),
          (''Heading'', format_heading (Option.bind (det_kinematics d) dk_track_deg)),
          (''Vertical rate'', fmt_speed p (Option.bind (det_kinematics d) dk_vertical_speed_mps))] @
         (if rssi = None then [] else [(''Signal'', format_rssi rssi)]) @
         [(''Last heard'', fmt_when intl p now (Some (det_ts d)))])"

definition manned_row_of :: "intl \<Rightarrow> format_preferences \<Rightarrow> int \<Rightarrow> string option \<Rightarrow> detection \<Rightarrow> manned_row" where
  "manned_row_of intl p now selected_icao d =
     (let icao = map_option adsb_icao (det_adsb d);
          selected = (icao \<noteq> None \<and> icao = selected_icao)
      in \<lparr> mr_name = row_name d,
           mr_altitude = fmt_altitude_feet p (Option.bind (det_adsb d) adsb_alt_ft),
           mr_icao = icao, mr_pressed = selected,
           mr_detail = (if selected then manned_details intl p now d else []) \<rparr>)"

text \<open>What a click on a row selects: the row's contact, or nothing when it was selected.\<close>

definition click_manned :: "manned_row \<Rightarrow> selection \<Rightarrow> selection" where
  "click_manned r sel =
     (case mr_icao r of None \<Rightarrow> sel | Some i \<Rightarrow> select_manned (if mr_pressed r then None else Some i) sel)"

definition click_track :: "track \<Rightarrow> selection \<Rightarrow> selection" where
  "click_track t sel =
     select_track (if selected_track_id sel = Some (trk_track_id t) then None else Some (trk_track_id t)) sel"

record aircraft_row =
  ar_title :: string
  ar_kind :: string
  ar_count :: string
  ar_flights :: "(string \<times> string \<times> string) list"
  ar_more :: "(string \<times> string) option"

definition plural :: "nat \<Rightarrow> string \<Rightarrow> string" where
  "plural n word = digits_of_nat n @ '' '' @ word @ (if n = 1 then [] else ''s'')"

definition aircraft_row_of ::
  "intl \<Rightarrow> format_preferences \<Rightarrow> aircraft_label option \<Rightarrow> aircraft_group \<Rightarrow> aircraft_row" where
  "aircraft_row_of intl p label g =
     (let named = (case label of None \<Rightarrow> [] | Some l \<Rightarrow> al_label l);
          shown = take flights_per_aircraft (ag_flights g);
          left = length (ag_flights g) - length shown;
          kind = filter (\<lambda>v. v \<noteq> []) [nullish (ag_vendor g) [], nullish (ag_ua_type g) []]
      in \<lparr> ar_title = (if named = [] then ag_label g else named),
           ar_kind = (if kind = [] then ''no vendor reported'' else join ('' '' @ [CHR 0xC2, CHR 0xB7] @ '' '') kind),
           ar_count = plural (length (ag_flights g)) ''flight'',
           ar_flights = map (\<lambda>t. (trk_track_id t, fmt_instant intl Stamp_Shape p (Some (trk_first_seen t)),
               case flight_duration_s t of None \<Rightarrow> em_dash | Some s \<Rightarrow> format_duration s)) shown,
           ar_more = (if 0 < left
             then Some (ag_label g, digits_of_nat left @ '' more flight'' @ (if left = 1 then [] else ''s'') @ '' '' @ right_arrow)
             else None) \<rparr>)"

definition unidentified_row :: "int \<Rightarrow> track \<Rightarrow> string \<times> string" where
  "unidentified_row now t =
     (let vendor = Option.bind (trk_identity t) id_vendor
      in (nullish (case Option.bind (trk_identity t) id_macs of Some (m # _) \<Rightarrow> Some m | _ \<Rightarrow> None) (trk_track_id t),
          (if truthy vendor then nullish vendor [] @ '' hardware'' else ''vendor match'') @ '' '' @ [CHR 0xC2, CHR 0xB7] @
          '' seen '' @ format_relative (Some (trk_last_seen t)) now @ '' '' @ [CHR 0xC2, CHR 0xB7] @ '' '' @
          string_of_int (trk_detection_count t) @ '' detections''))"

record track_row =
  tw_name :: string
  tw_state :: string
  tw_when :: string
  tw_fix :: "(string \<times> string) option"
  tw_confidence :: string
  tw_operator :: "string option"

definition panel_track_name :: "track \<Rightarrow> string" where
  "panel_track_name t =
     nullish (or_else (Option.bind (trk_identity t) id_serial)
       (case Option.bind (trk_identity t) id_macs of Some (m # _) \<Rightarrow> Some m | _ \<Rightarrow> None)) (trk_track_id t)"

definition track_row_of :: "intl \<Rightarrow> format_preferences \<Rightarrow> int \<Rightarrow> track \<Rightarrow> track_row" where
  "track_row_of intl p now t =
     \<lparr> tw_name = panel_track_name t, tw_state = to_lower (state_text (trk_state t)),
       tw_when = fmt_when intl p now (Some (trk_last_seen t)),
       tw_fix = map_option (\<lambda>c. (''hdg '' @ format_heading (pos_track_deg c),
           fmt_length p (pos_height_agl_m c) @ '' AGL'')) (trk_current t),
       tw_confidence = format_confidence (trk_confidence t),
       tw_operator = (case (trk_operator t, trk_current t) of
           (Some q, Some c) \<Rightarrow>
             Some (''Operator '' @ fmt_range p (Some (distance_metres (latlon_of c) (latlon_of q))) @ '' away, bearing '' @
               format_heading (Some (bearing_degrees (latlon_of c) (latlon_of q))))
         | _ \<Rightarrow> None) \<rparr>"

section \<open>What the panel accounts for\<close>

lemma groups_flights: "sum_list (map (\<lambda>g. mset (ag_flights g)) (group_by_aircraft ts)) = mset ts"
proof -
  have members: "ag_flights g = filter (\<lambda>t. aircraft_key t = ag_key g) ts" if "g \<in> set (group_by_aircraft ts)" for g
    using group_members [OF that] by (simp add: group_ok_def)
  have "mset ts = sum_list (map (\<lambda>k. mset (filter (\<lambda>t. aircraft_key t = k) ts)) ks)"
    if "distinct ks" "aircraft_key ` set ts \<subseteq> set ks" for ks and ts :: "track list"
    using that
  proof (induction ks arbitrary: ts)
    case (Cons k ks)
    have "mset ts = mset (filter (\<lambda>t. aircraft_key t = k) ts) + mset (filter (\<lambda>t. aircraft_key t \<noteq> k) ts)"
      by (induction ts) auto
    moreover have "mset (filter (\<lambda>t. aircraft_key t \<noteq> k) ts) =
        sum_list (map (\<lambda>j. mset (filter (\<lambda>t. aircraft_key t = j) (filter (\<lambda>t. aircraft_key t \<noteq> k) ts))) ks)"
      using Cons.prems by (intro Cons.IH) auto
    moreover have "filter (\<lambda>t. aircraft_key t = j) (filter (\<lambda>t. aircraft_key t \<noteq> k) ts) = filter (\<lambda>t. aircraft_key t = j) ts"
      if "j \<in> set ks" for j
      using that Cons.prems(1) by (auto intro!: filter_cong)
    ultimately show ?case by (simp cong: map_cong del: mset_filter filter_filter)
  qed simp
  from this [of "map ag_key (group_by_aircraft ts)" ts] group_keys [of ts]
  have "mset ts = sum_list (map (\<lambda>k. mset (filter (\<lambda>t. aircraft_key t = k) ts)) (map ag_key (group_by_aircraft ts)))"
    by simp
  then show ?thesis using members by (simp add: comp_def cong: map_cong)
qed

lemma aircraft_row_texts:
  fixes intl p label g
  defines "row \<equiv> aircraft_row_of intl p label g" and "n \<equiv> length (ag_flights g)"
  shows "ar_count row = digits_of_nat n @ (if n = 1 then '' flight'' else '' flights'')"
    and "map fst (ar_flights row) = map trk_track_id (take 3 (ag_flights g))"
    and "ar_more row = (if n \<le> 3 then None
      else Some (ag_label g, digits_of_nat (n - 3) @ (if n = 4 then '' more flight '' else '' more flights '') @ right_arrow))"
  by (auto simp: row_def n_def aircraft_row_of_def flights_per_aircraft_def plural_def Let_def comp_def min_def)

text \<open>C23: The panel and the count beside it tell the same story, and lose nobody: the headings' numbers add
  up to the contact count of the tab; every track the view was given is in exactly one section, those that
  are closed in none when the operator hid them; the aircraft's flights together are the closed flights;
  and an aircraft says how many flights it has, lists the first three of them, and, when there are more,
  says exactly how many are not listed.\<close>

theorem panel_accounts_for_every_contact:
  "let v = live_view_of (Some r) health adsb sc now;
       s = panel_sections_of lc (lv_active v) (lv_unidentified v) (lv_closed v) sc (lv_adsb v)
   in sum_list (map snd (panel_headings sc s)) = lv_contact_count v \<and>
      mset (ps_drones s) + mset (ps_shelved s) + (if sc then mset (ps_closed_flights s) else {#}) =
        mset (filter (\<lambda>t. if sc then True else trk_state t \<noteq> CLOSED) (tr_tracks r)) \<and>
      sum_list (map (\<lambda>g. mset (ag_flights g)) (ps_aircraft s)) = mset (ps_closed_flights s) \<and>
      list_all (\<lambda>g. let row = aircraft_row_of intl p label g
        in ar_count row = digits_of_nat (length (ag_flights g)) @ (if length (ag_flights g) = 1 then '' flight'' else '' flights'') \<and>
           map fst (ar_flights row) = map trk_track_id (take 3 (ag_flights g)) \<and>
           ar_more row = (if length (ag_flights g) \<le> 3 then None
             else Some (ag_label g, digits_of_nat (length (ag_flights g) - 3) @
               (if length (ag_flights g) = 4 then '' more flight '' else '' more flights '') @ right_arrow))) (ps_aircraft s)"
proof -
  let ?ts = "tr_tracks r"
  let ?v = "live_view_of (Some r) health adsb sc now"
  let ?s = "panel_sections_of lc (lv_active ?v) (lv_unidentified ?v) (lv_closed ?v) sc (lv_adsb ?v)"
  have split: "mset (filter P xs) + mset (filter (\<lambda>x. \<not> P x) xs) = mset xs"
    "length (filter P xs) + length (filter (\<lambda>x. \<not> P x) xs) = length xs" for P and xs :: "track list"
    by (induction xs) auto
  have none_left: "length (filter P xs) = length xs" if "filter (\<lambda>x. \<not> P x) xs = []" for P and xs :: "track list"
    using split(2) [of P xs] that by simp
  have parts: "tp_active (partition_tracks ?ts) = filter (\<lambda>t. trk_state t \<noteq> CLOSED \<and> is_identified t) ?ts"
    "tp_unidentified (partition_tracks ?ts) = filter (\<lambda>t. trk_state t \<noteq> CLOSED \<and> \<not> is_identified t) ?ts"
    "tp_closed (partition_tracks ?ts) = filter (\<lambda>t. trk_state t = CLOSED) ?ts"
    by (simp_all add: partition_tracks_def fold_place_track)
  have view: "lv_active ?v = tp_active (partition_tracks ?ts)" "lv_unidentified ?v = tp_unidentified (partition_tracks ?ts)"
    "lv_closed ?v = tp_closed (partition_tracks ?ts)"
    "lv_contact_count ?v = length (lv_active ?v) + length (lv_unidentified ?v) +
        (if sc then length (lv_closed ?v) else 0) + length (lv_adsb ?v)"
    by (simp_all add: live_view_of_def Let_def)
  have drones: "mset (ps_drones ?s) = mset (lv_active ?v)"
    using split(1) [of "\<lambda>t. trk_current t \<noteq> None" "lv_active ?v"]
    by (simp add: panel_sections_of_def Let_def del: not_None_eq)
  have shelf: "ps_shelved ?s = lv_unidentified ?v @ (if sc then filter (\<lambda>t. \<not> is_identified t) (lv_closed ?v) else [])"
    "ps_closed_flights ?s = filter is_identified (lv_closed ?v)" "ps_manned ?s = lv_adsb ?v"
    by (simp_all add: panel_sections_of_def Let_def)
  have "sum_list (map snd (panel_headings sc ?s)) = lv_contact_count ?v"
  proof -
    have "length (ps_drones ?s) = length (lv_active ?v)" using arg_cong [OF drones, of size] by (simp only: size_mset)
    then show ?thesis using split(2) [of is_identified "lv_closed ?v"]
      shelf
      unfolding view(4) by (cases sc) (auto simp: panel_headings_def none_left)
  qed
  moreover have "mset (ps_drones ?s) + mset (ps_shelved ?s) + (if sc then mset (ps_closed_flights ?s) else {#}) =
      mset (filter (\<lambda>t. if sc then True else trk_state t \<noteq> CLOSED) ?ts)"
  proof -
    have open_tracks: "mset (lv_active ?v) + mset (lv_unidentified ?v) = mset (filter (\<lambda>t. trk_state t \<noteq> CLOSED) ?ts)"
      using split(1) [of is_identified "filter (\<lambda>t. trk_state t \<noteq> CLOSED) ?ts"] unfolding view parts
      by (simp add: conj_commute)
    show ?thesis
      using open_tracks drones split(1) [of is_identified "lv_closed ?v"] split(1) [of "\<lambda>t. trk_state t \<noteq> CLOSED" ?ts]
shelf(1,2)
      unfolding view(3) parts(3) by (cases sc) (simp_all add: ac_simps)
  qed
  moreover have "sum_list (map (\<lambda>g. mset (ag_flights g)) (ps_aircraft ?s)) = mset (ps_closed_flights ?s)"
    by (simp add: panel_sections_of_def Let_def groups_flights order_flights_def)
  moreover have "list_all (\<lambda>g. let row = aircraft_row_of intl p label g
        in ar_count row = digits_of_nat (length (ag_flights g)) @ (if length (ag_flights g) = 1 then '' flight'' else '' flights'') \<and>
           map fst (ar_flights row) = map trk_track_id (take 3 (ag_flights g)) \<and>
           ar_more row = (if length (ag_flights g) \<le> 3 then None
             else Some (ag_label g, digits_of_nat (length (ag_flights g) - 3) @
               (if length (ag_flights g) = 4 then '' more flight '' else '' more flights '') @ right_arrow))) (ps_aircraft ?s)"
    using aircraft_row_texts by (simp add: list_all_iff Let_def)
  ultimately show ?thesis by (simp add: Let_def)
qed

text \<open>At most one contact is selected whatever was clicked, a row shows as pressed what a click on it
  selected, and a second click on the same row clears the selection.\<close>

lemma one_contact_selected:
  "selected_track_id sel = None \<or> selected_manned_icao sel = None"
  "selected_track_id (click_track t None) = Some (trk_track_id t)"
  "click_track t (click_track t None) = None"
  "mr_icao row = Some i \<Longrightarrow> row = manned_row_of intl p now (selected_manned_icao sel) d \<Longrightarrow>
     selected_manned_icao (click_manned row sel) = (if selected_manned_icao sel = Some i then None else Some i)"
  by (auto simp: selected_track_id_def selected_manned_icao_def click_track_def click_manned_def select_track_def
      select_manned_def manned_row_of_def Let_def split: option.split contact_kind.split)

text \<open>A ground speed reported in knots and shown in knots is the reported one.\<close>

lemma knots_survive:
  assumes "Option.bind (det_kinematics d) dk_speed_mps = None" "Option.bind (det_adsb d) adsb_ground_speed_kt = Some kt"
    and "manned_speed d = Some mps"
  shows "\<bar>cv_value (convert_speed mps Aviation) - kt\<bar> \<le> \<bar>kt\<bar> / 10 ^ 12"
proof -
  have "\<bar>mps_per_knot * knots_per_mps - 1\<bar> \<le> 1 / 10 ^ 12" by (simp add: mps_per_knot_def knots_per_mps_def)
  from off_by [OF this, of kt] show ?thesis
    using assms by (auto simp: manned_speed_def convert_speed_def mult.assoc)
qed

text \<open>The label map answers as the linear lookup does, for serials that are not repeated.\<close>

lemma labels_agree:
  assumes "distinct (map al_serial labels)" "s \<noteq> []"
  shows "map_of (use_aircraft_labels labels) s = use_aircraft_label labels (Some s)"
proof -
  have "map_of (fold (\<lambda>e. AList.update (al_serial e) e) ls m) s =
      (case find (\<lambda>e. al_serial e = s) ls of None \<Rightarrow> map_of m s | Some e \<Rightarrow> Some e)"
    if "distinct (map al_serial ls)" for ls m
    using that
  proof (induction ls arbitrary: m)
    case (Cons e ls)
    have "find (\<lambda>e. al_serial e = s) ls = None" if "al_serial e = s" using that Cons.prems unfolding find_None_iff by (auto simp: image_iff)
    with Cons show ?case by (auto simp: update_conv' split: option.split)
  qed simp
  from this [OF assms(1), of "[]"] show ?thesis
    using assms(2) by (simp add: use_aircraft_labels_def use_aircraft_label_def truthy_def split: option.splits)
qed

end
