(* ===== verification/HookRules.thy ===== *)
theory HookRules
  imports ApiTypes JsNumber Markers
begin

text \<open>
  \<open>features/hooks/hooks-panel.tsx\<close>: the alert rules of the console, the card and the editor of a rule, and
  the deliveries. What a save means depends on the API, so its side of the exchange (\<open>hooks.go\<close> and
  \<open>hooksapi.go\<close> of \<open>services/api\<close>: what is read back, how a PUT is merged and validated) is modelled with it.
\<close>

section \<open>Rules on the wire\<close>

datatype hook_event =
    Track_Confirmed | Track_Closed | Detection_Created | Sensor_Unhealthy | Sensor_Recovered
  | Capture_Completed | Sweep_Completed

fun hook_event_text :: "hook_event \<Rightarrow> string" where
  "hook_event_text Track_Confirmed = ''track.confirmed''"
| "hook_event_text Track_Closed = ''track.closed''"
| "hook_event_text Detection_Created = ''detection.created''"
| "hook_event_text Sensor_Unhealthy = ''sensor.unhealthy''"
| "hook_event_text Sensor_Recovered = ''sensor.recovered''"
| "hook_event_text Capture_Completed = ''capture.completed''"
| "hook_event_text Sweep_Completed = ''sweep.completed''"

datatype hook_action = Webhook | Email | Ntfy

datatype delivery_status = Pending | Delivered | Delivery_Failed | Suppressed

definition secret_placeholder :: string where
  "secret_placeholder = concat (replicate 8 [CHR 0xE2, CHR 0x80, CHR 0xA2])"

type_synonym hook_config = "(string \<times> json) list"

record hook_rule =
  hr_rule_id :: string
  hr_name :: string
  hr_enabled :: bool
  hr_event :: hook_event
  hr_min_confidence :: "real option"
  hr_classes :: "string list option"
  hr_sensor_kinds :: "string list option"
  hr_only_drones :: "bool option"
  hr_boundary_id :: "string option"
  hr_cooldown_s :: int
  hr_action :: hook_action
  hr_config :: hook_config
  hr_created_at :: string
  hr_updated_at :: string
  hr_last_fired_at :: "string option"
  hr_fire_count :: int

record hook_event_doc =
  ed_event :: hook_event
  ed_description :: string
  ed_supports_boundary :: bool

record hook_delivery =
  hd_delivery_id :: string
  hd_rule_id :: string
  hd_rule_name :: "string option"
  hd_event :: string
  hd_status :: delivery_status
  hd_attempts :: int
  hd_error :: "string option"
  hd_created_at :: string

text \<open>
  The body of a create or an update, a \<open>Partial<HookRule>\<close>: an absent member is \<^term>\<open>None\<close>. The cooldown
  is a number the operator typed, \<^term>\<open>None\<close> when it is not one (\<open>NaN\<close> is sent as null).
\<close>

record rule_body =
  rb_name :: string
  rb_event :: hook_event
  rb_action :: hook_action
  rb_enabled :: bool
  rb_cooldown_s :: "real option"
  rb_only_drones :: "bool option"
  rb_min_confidence :: "real option"
  rb_classes :: "string list option"
  rb_sensor_kinds :: "string list option"
  rb_boundary_id :: "string option"
  rb_config :: hook_config

datatype hook_call =
    Create_Rule rule_body | Update_Rule string rule_body | is_Delete_Rule: Delete_Rule string | Test_Rule string

section \<open>The editor\<close>

definition config_string :: "hook_config \<Rightarrow> string \<Rightarrow> string" where
  "config_string config key = (case map_of config key of Some (JStr v) \<Rightarrow> v | _ \<Rightarrow> [])"

record rule_editor =
  re_rule :: "hook_rule option"
  re_name :: string
  re_event :: hook_event
  re_action :: hook_action
  re_cooldown_min :: "real option"
  re_only_drones :: bool
  re_min_confidence :: "real option"
  re_url :: string
  re_authorization :: string
  re_to :: string
  re_subject :: string
  re_ntfy_priority :: string
  re_ntfy_access_token :: string
  re_boundary_id :: string

definition open_editor :: "hook_rule option \<Rightarrow> rule_editor" where
  "open_editor rule =
     (let config = (case rule of None \<Rightarrow> [] | Some r \<Rightarrow> hr_config r);
          priority = config_string config ''priority''
      in \<lparr> re_rule = rule,
           re_name = nullish (map_option hr_name rule) [],
           re_event = nullish (map_option hr_event rule) Track_Confirmed,
           re_action = nullish (map_option hr_action rule) Webhook,
           re_cooldown_min = Some (of_int (js_round (of_int (nullish (map_option hr_cooldown_s rule) 300) / 60))),
           re_only_drones = nullish (Option.bind rule hr_only_drones) True,
           re_min_confidence = Some (nullish (Option.bind rule hr_min_confidence) 0),
           re_url = config_string config ''url'', re_authorization = config_string config ''authorization'',
           re_to = config_string config ''to'', re_subject = config_string config ''subject'',
           re_ntfy_priority = (if priority = [] then ''default'' else priority),
           re_ntfy_access_token = config_string config ''access_token'',
           re_boundary_id = nullish (Option.bind rule hr_boundary_id) [] \<rparr>)"

definition supports_boundary :: "hook_event_doc list \<Rightarrow> hook_event \<Rightarrow> bool" where
  "supports_boundary docs event =
     (case find (\<lambda>e. ed_event e = event) docs of None \<Rightarrow> False | Some e \<Rightarrow> ed_supports_boundary e)"

definition optional_member :: "string \<Rightarrow> string \<Rightarrow> hook_config" where
  "optional_member key v = (if v = [] then [] else [(key, JStr v)])"

definition editor_config :: "rule_editor \<Rightarrow> hook_config" where
  "editor_config ed =
     (case re_action ed of
        Webhook \<Rightarrow> (''url'', JStr (re_url ed)) # optional_member ''authorization'' (re_authorization ed)
      | Ntfy \<Rightarrow> (''url'', JStr (re_url ed)) # (''priority'', JStr (re_ntfy_priority ed)) #
          optional_member ''access_token'' (re_ntfy_access_token ed)
      | Email \<Rightarrow> (''to'', JStr (re_to ed)) # optional_member ''subject'' (re_subject ed))"

definition editor_body :: "hook_event_doc list \<Rightarrow> rule_editor \<Rightarrow> rule_body" where
  "editor_body docs ed =
     \<lparr> rb_name = re_name ed, rb_event = re_event ed, rb_action = re_action ed,
       rb_enabled = nullish (map_option hr_enabled (re_rule ed)) True,
       rb_cooldown_s = map_option (\<lambda>m. max 1 m * 60) (re_cooldown_min ed),
       rb_only_drones = Some (re_only_drones ed),
       rb_min_confidence = (if re_min_confidence ed = Some 0 then None else re_min_confidence ed),
       rb_classes = None, rb_sensor_kinds = None,
       rb_boundary_id =
         (if supports_boundary docs (re_event ed) \<and> re_boundary_id ed \<noteq> [] then Some (re_boundary_id ed) else None),
       rb_config = editor_config ed \<rparr>"

text \<open>The submit button is disabled while a save is on its way and while the rule has no name.\<close>

definition submit_editor :: "hook_event_doc list \<Rightarrow> bool \<Rightarrow> rule_editor \<Rightarrow> hook_call option" where
  "submit_editor docs saving ed =
     (if saving \<or> re_name ed = [] then None
      else Some (case re_rule ed of
          Some r \<Rightarrow> Update_Rule (hr_rule_id r) (editor_body docs ed)
        | None \<Rightarrow> Create_Rule (editor_body docs ed)))"

text \<open>What the form warns about before anything is sent.\<close>

definition secret_hint :: "string \<Rightarrow> string \<Rightarrow> string" where
  "secret_hint v otherwise =
     (if v = secret_placeholder then ''a value is set; leave as-is to keep it'' else otherwise)"

definition exposes_operator :: "json option \<Rightarrow> bool" where
  "exposes_operator v \<longleftrightarrow> v = Some (JBool True) \<or> v = Some (JStr ''true'')"

text \<open>What leaves the unit, as the form says it beside the target (the typographic apostrophe is its bytes).\<close>

definition apostrophe :: string where "apostrophe = [CHR 0xE2, CHR 0x80, CHR 0x99]"

definition chevron :: string where "chevron = [CHR 0xE2, CHR 0x80, CHR 0xBA]"

definition payload_notice :: "bool \<Rightarrow> hook_action \<Rightarrow> (string \<times> string) option" where
  "payload_notice exposed a =
     (let tone = (if exposed then ''warn'' else ''info'');
          s = apostrophe @ ''s''
      in case a of
        Webhook \<Rightarrow> Some (tone,
          ''A track.confirmed POST carries the track id, confidence, the aircraft'' @ s @
          '' serial and vendor where known, and its position.'' @
          (if exposed
           then '' It also carries operator_lat and operator_lon '' @ em_dash @ '' the pilot'' @ s @ '' ground position '' @
             em_dash @ '' because Settings '' @ chevron @
             '' Data has that switched on. Turning it off there removes it from webhooks as well.''
           else '' The pilot'' @ s @ '' ground position is not included: Settings '' @ chevron @ '' Data has it switched off.''))
      | Ntfy \<Rightarrow> Some (tone,
          ''A track.confirmed notification names the track, confidence, and the aircraft'' @ s @
          '' serial and vendor where known.'' @
          (if exposed
           then '' It also carries the pilot'' @ s @ '' ground position, because Settings '' @ chevron @
             '' Data has that switched on. Turning it off there removes it here as well.''
           else []) @
          '' Anyone who knows the topic URL can read it '' @ em_dash @ '' a public ntfy.sh topic name is a shared secret, '' @
          ''not just an address; a self-hosted server on your own LAN or Tailscale net keeps it off the '' @
          ''public internet entirely.'')
      | Email \<Rightarrow> None)"

definition email_will_fail :: "rule_editor \<Rightarrow> bool \<Rightarrow> bool" where
  "email_will_fail ed smtp_configured \<longleftrightarrow> re_action ed = Email \<and> \<not> smtp_configured"

text \<open>What the operator can change, by the field that changes it. The number fields read their text with
  \<open>Number\<close>; the boundary field spells no boundary as any.\<close>

datatype field_edit =
    Type_Name string | Pick_Event hook_event | Type_Cooldown string | Type_Min_Confidence string
  | Switch_Only_Drones bool | Pick_Boundary string | Pick_Action hook_action | Type_Url string
  | Type_Authorization string | Type_To string | Type_Subject string | Pick_Priority string | Type_Access_Token string

fun edit_field :: "field_edit \<Rightarrow> rule_editor \<Rightarrow> rule_editor" where
  "edit_field (Type_Name v) ed = ed\<lparr> re_name := v \<rparr>"
| "edit_field (Pick_Event e) ed = ed\<lparr> re_event := e \<rparr>"
| "edit_field (Type_Cooldown v) ed = ed\<lparr> re_cooldown_min := js_number v \<rparr>"
| "edit_field (Type_Min_Confidence v) ed = ed\<lparr> re_min_confidence := js_number v \<rparr>"
| "edit_field (Switch_Only_Drones b) ed = ed\<lparr> re_only_drones := b \<rparr>"
| "edit_field (Pick_Boundary v) ed = ed\<lparr> re_boundary_id := (if v = ''any'' then [] else v) \<rparr>"
| "edit_field (Pick_Action a) ed = ed\<lparr> re_action := a \<rparr>"
| "edit_field (Type_Url v) ed = ed\<lparr> re_url := v \<rparr>"
| "edit_field (Type_Authorization v) ed = ed\<lparr> re_authorization := v \<rparr>"
| "edit_field (Type_To v) ed = ed\<lparr> re_to := v \<rparr>"
| "edit_field (Type_Subject v) ed = ed\<lparr> re_subject := v \<rparr>"
| "edit_field (Pick_Priority v) ed = ed\<lparr> re_ntfy_priority := v \<rparr>"
| "edit_field (Type_Access_Token v) ed = ed\<lparr> re_ntfy_access_token := v \<rparr>"

text \<open>The fields on screen, each with its hint and the text in it. The boundary is offered only for an event
  that has a position; no boundaries at all, once they are known, is said in its hint.\<close>

record form_field =
  ff_label :: string
  ff_hint :: string
  ff_value :: string

definition action_label :: "hook_action \<Rightarrow> string" where
  "action_label a =
     (case a of Webhook \<Rightarrow> ''Webhook '' @ em_dash @ '' POST JSON to a URL'' | Email \<Rightarrow> ''Email''
      | Ntfy \<Rightarrow> ''ntfy '' @ em_dash @ '' push notification'')"

definition number_text :: "(real \<Rightarrow> string) \<Rightarrow> real option \<Rightarrow> string" where
  "number_text num v = (case v of None \<Rightarrow> ''NaN'' | Some x \<Rightarrow> num x)"

definition boundary_field :: "(string \<times> string) list option \<Rightarrow> rule_editor \<Rightarrow> form_field" where
  "boundary_field boundaries ed =
     \<lparr> ff_label = ''Within boundary'',
       ff_hint = (if boundaries = Some [] then ''no boundaries drawn yet '' @ em_dash @ '' see Geofence boundaries above''
         else ''optional '' @ em_dash @ '' leave as Any to skip the geographic filter''),
       ff_value = (if re_boundary_id ed = [] then ''Any''
         else nullish (map_of (nullish boundaries []) (re_boundary_id ed)) []) \<rparr>"

definition action_fields :: "rule_editor \<Rightarrow> form_field list" where
  "action_fields ed =
     (case re_action ed of
        Webhook \<Rightarrow>
          [\<lparr> ff_label = ''URL'', ff_hint = [], ff_value = re_url ed \<rparr>,
           \<lparr> ff_label = ''Authorization header'', ff_hint = secret_hint (re_authorization ed) ''optional'',
             ff_value = re_authorization ed \<rparr>]
      | Ntfy \<Rightarrow>
          [\<lparr> ff_label = ''Topic URL'', ff_hint = ''e.g. https://ntfy.sh/classg-<random>, or your own server'',
             ff_value = re_url ed \<rparr>,
           \<lparr> ff_label = ''Priority'', ff_hint = [], ff_value = re_ntfy_priority ed \<rparr>,
           \<lparr> ff_label = ''Access token'',
             ff_hint = secret_hint (re_ntfy_access_token ed)
               (''optional '' @ em_dash @ '' only needed if your ntfy server requires auth to publish''),
             ff_value = re_ntfy_access_token ed \<rparr>]
      | Email \<Rightarrow>
          [\<lparr> ff_label = ''To'', ff_hint = ''comma separated'', ff_value = re_to ed \<rparr>,
           \<lparr> ff_label = ''Subject'', ff_hint = ''optional'', ff_value = re_subject ed \<rparr>])"

definition form_fields ::
  "(real \<Rightarrow> string) \<Rightarrow> hook_event_doc list \<Rightarrow> (string \<times> string) list option \<Rightarrow> rule_editor \<Rightarrow> form_field list" where
  "form_fields num docs boundaries ed =
     [\<lparr> ff_label = ''Name'', ff_hint = [], ff_value = re_name ed \<rparr>,
      \<lparr> ff_label = ''When'', ff_hint = (case find (\<lambda>e. ed_event e = re_event ed) docs of None \<Rightarrow> [] | Some e \<Rightarrow> ed_description e),
        ff_value = hook_event_text (re_event ed) \<rparr>,
      \<lparr> ff_label = ''Cooldown (minutes)'',
        ff_hint = ''per aircraft or sensor, not per rule '' @ em_dash @ '' a second drone still alerts immediately'',
        ff_value = number_text num (re_cooldown_min ed) \<rparr>,
      \<lparr> ff_label = ''Minimum confidence'', ff_hint = ''0 for no filter'', ff_value = number_text num (re_min_confidence ed) \<rparr>] @
     (if supports_boundary docs (re_event ed) then [boundary_field boundaries ed] else []) @
     [\<lparr> ff_label = ''Do what'', ff_hint = [], ff_value = action_label (re_action ed) \<rparr>] @
     action_fields ed"

section \<open>The card of a rule\<close>

record rule_card =
  rc_editing :: bool
  rc_confirming :: bool
  rc_deleting :: bool
  rc_testing :: bool
  rc_calls :: "hook_call list"

definition new_card :: rule_card where
  "new_card = \<lparr> rc_editing = False, rc_confirming = False, rc_deleting = False, rc_testing = False, rc_calls = [] \<rparr>"

definition send_call :: "hook_call \<Rightarrow> rule_card \<Rightarrow> rule_card" where
  "send_call call c = c\<lparr> rc_calls := rc_calls c @ [call] \<rparr>"

definition body_of_rule :: "hook_rule \<Rightarrow> rule_body" where
  "body_of_rule r =
     \<lparr> rb_name = hr_name r, rb_event = hr_event r, rb_action = hr_action r, rb_enabled = hr_enabled r,
       rb_cooldown_s = Some (of_int (hr_cooldown_s r)), rb_only_drones = hr_only_drones r,
       rb_min_confidence = hr_min_confidence r, rb_classes = hr_classes r, rb_sensor_kinds = hr_sensor_kinds r,
       rb_boundary_id = hr_boundary_id r, rb_config = hr_config r \<rparr>"

definition toggle_body :: "hook_rule \<Rightarrow> rule_body" where
  "toggle_body r = (body_of_rule r)\<lparr> rb_enabled := \<not> hr_enabled r \<rparr>"

text \<open>A click on Delete carries the preference it was read under; only the buttons on screen can be clicked.\<close>

datatype card_event =
    Click_Toggle | Click_Test | Click_Edit | Editor_Done | Click_Delete bool | Click_Confirm | Click_Cancel
  | Delete_Settled | Test_Settled

definition remove_rule :: "hook_rule \<Rightarrow> rule_card \<Rightarrow> rule_card" where
  "remove_rule r c = (send_call (Delete_Rule (hr_rule_id r)) c)\<lparr> rc_deleting := True \<rparr>"

fun card_step :: "hook_rule \<Rightarrow> card_event \<Rightarrow> rule_card \<Rightarrow> rule_card" where
  "card_step r Delete_Settled c = c\<lparr> rc_deleting := False \<rparr>"
| "card_step r Test_Settled c = c\<lparr> rc_testing := False \<rparr>"
| "card_step r Editor_Done c = c\<lparr> rc_editing := False \<rparr>"
| "card_step r Click_Toggle c =
     (if rc_editing c then c else send_call (Update_Rule (hr_rule_id r) (toggle_body r)) c)"
| "card_step r Click_Test c =
     (if rc_editing c \<or> rc_testing c then c else (send_call (Test_Rule (hr_rule_id r)) c)\<lparr> rc_testing := True \<rparr>)"
| "card_step r Click_Edit c = c\<lparr> rc_editing := True \<rparr>"
| "card_step r (Click_Delete confirm_destructive) c =
     (if rc_editing c \<or> rc_confirming c \<or> rc_deleting c then c
      else if confirm_destructive then c\<lparr> rc_confirming := True \<rparr> else remove_rule r c)"
| "card_step r Click_Confirm c =
     (if rc_editing c \<or> \<not> rc_confirming c \<or> rc_deleting c then c
      else remove_rule r (c\<lparr> rc_confirming := False \<rparr>))"
| "card_step r Click_Cancel c = (if rc_editing c then c else c\<lparr> rc_confirming := False \<rparr>)"

definition run_card :: "hook_rule \<Rightarrow> card_event list \<Rightarrow> rule_card" where
  "run_card r events = fold (card_step r) events new_card"

definition rule_summary :: "(real \<Rightarrow> string) \<Rightarrow> (string \<Rightarrow> string) \<Rightarrow> hook_rule \<Rightarrow> string" where
  "rule_summary num timestamp r =
     (let minutes = js_round (of_int (hr_cooldown_s r) / 60)
      in ''One alert per '' @ (if starts_with (hook_event_text (hr_event r)) ''track'' then ''aircraft'' else ''subject'') @
         '' every '' @ string_of_int (if minutes = 0 then 1 else minutes) @ '' min'' @
         (if hr_only_drones r = Some True then '' '' @ middle_dot @ '' manned ADS-B traffic excluded'' else []) @
         (case hr_min_confidence r of None \<Rightarrow> []
          | Some c \<Rightarrow> if c = 0 then []
              else '' '' @ middle_dot @ '' confidence '' @ [CHR 0xE2, CHR 0x89, CHR 0xA5] @ '' '' @ num c) @
         (if 0 < hr_fire_count r \<and> truthy (hr_last_fired_at r)
          then '' '' @ middle_dot @ '' fired '' @ string_of_int (hr_fire_count r) @ [CHR 0xC3, CHR 0x97] @ '', last '' @
            timestamp (nullish (hr_last_fired_at r) [])
          else '' '' @ middle_dot @ '' never fired''))"

definition delivery_tone :: "delivery_status \<Rightarrow> string" where
  "delivery_tone st =
     (case st of Delivered \<Rightarrow> ''ok'' | Delivery_Failed \<Rightarrow> ''down'' | Suppressed \<Rightarrow> ''muted'' | Pending \<Rightarrow> ''warn'')"

fun delivery_status_text :: "delivery_status \<Rightarrow> string" where
  "delivery_status_text Pending = ''pending''"
| "delivery_status_text Delivered = ''delivered''"
| "delivery_status_text Delivery_Failed = ''failed''"
| "delivery_status_text Suppressed = ''suppressed''"

definition delivery_row :: "(string \<Rightarrow> string) \<Rightarrow> hook_delivery \<Rightarrow> string list" where
  "delivery_row timestamp d =
     [delivery_status_text (hd_status d), nullish (hd_rule_name d) (hd_rule_id d), hd_event d] @
     (if truthy (hd_error d) then [nullish (hd_error d) []] else []) @
     (if 1 < hd_attempts d then [string_of_int (hd_attempts d) @ '' attempts''] else []) @
     [timestamp (hd_created_at d)]"

section \<open>The API's side\<close>

text \<open>A stored rule. An empty text, an empty list, 0 and false stand for a condition that is not set.\<close>

record stored_rule =
  sr_rule_id :: string
  sr_name :: string
  sr_enabled :: bool
  sr_event :: hook_event
  sr_min_confidence :: real
  sr_classes :: "string list"
  sr_sensor_kinds :: "string list"
  sr_only_drones :: bool
  sr_boundary_id :: string
  sr_cooldown_s :: int
  sr_action :: hook_action
  sr_config :: hook_config
  sr_created_at :: string
  sr_updated_at :: string
  sr_last_fired_at :: "string option"
  sr_fire_count :: int

definition secret_config_keys :: "string list" where
  "secret_config_keys =
     [''authorization'', ''auth_header'', ''bearer_token'', ''password'', ''secret'', ''token'', ''access_token'']"

definition redacted :: "hook_config \<Rightarrow> hook_config" where
  "redacted config =
     map (\<lambda>(k, v). (k, if to_lower k \<in> set secret_config_keys then JStr secret_placeholder else v)) config"

text \<open>What a client reads: members whose value is the zero of their type are left out (\<open>omitempty\<close>).\<close>

definition omit_empty :: "'a \<Rightarrow> 'a \<Rightarrow> 'a option" where
  "omit_empty zero v = (if v = zero then None else Some v)"

lemma omitted_reads_zero [simp]: "nullish (omit_empty z v) z = v"
  by (simp add: omit_empty_def)

definition read_rule :: "stored_rule \<Rightarrow> hook_rule" where
  "read_rule g =
     \<lparr> hr_rule_id = sr_rule_id g, hr_name = sr_name g, hr_enabled = sr_enabled g, hr_event = sr_event g,
       hr_min_confidence = omit_empty 0 (sr_min_confidence g), hr_classes = omit_empty [] (sr_classes g),
       hr_sensor_kinds = omit_empty [] (sr_sensor_kinds g), hr_only_drones = omit_empty False (sr_only_drones g),
       hr_boundary_id = omit_empty [] (sr_boundary_id g), hr_cooldown_s = sr_cooldown_s g, hr_action = sr_action g,
       hr_config = redacted (sr_config g), hr_created_at = sr_created_at g, hr_updated_at = sr_updated_at g,
       hr_last_fired_at = sr_last_fired_at g, hr_fire_count = sr_fire_count g \<rparr>"

definition events_with_position :: "hook_event list" where
  "events_with_position = [Track_Confirmed, Track_Closed]"

definition merge_secrets :: "hook_config \<Rightarrow> hook_config \<Rightarrow> hook_config" where
  "merge_secrets old incoming =
     List.map_filter (\<lambda>(k, v).
       if v = JStr secret_placeholder then map_option (Pair k) (map_of old k) else Some (k, v)) incoming"

definition default_cooldown_s :: int where "default_cooldown_s = 300"

text \<open>A class is one letter from A to H. The check fills in the default cooldown.\<close>

definition validate_rule :: "stored_rule \<Rightarrow> stored_rule option" where
  "validate_rule g =
     (if trim (sr_name g) = [] then None
      else if sr_min_confidence g < 0 \<or> 1 < sr_min_confidence g then None
      else if sr_cooldown_s g < 0 then None
      else if list_ex (\<lambda>c. c \<notin> set (map (\<lambda>l. [l]) ''ABCDEFGH'')) (sr_classes g) then None
      else if sr_boundary_id g \<noteq> [] \<and> sr_event g \<notin> set events_with_position then None
      else Some (if sr_cooldown_s g = 0 then g\<lparr> sr_cooldown_s := default_cooldown_s \<rparr> else g))"

text \<open>A cooldown that is no whole number of seconds is refused as the body is read; null leaves 0.\<close>

definition decode_cooldown :: "real option \<Rightarrow> int option" where
  "decode_cooldown v =
     (case v of None \<Rightarrow> Some 0 | Some x \<Rightarrow> if of_int \<lfloor>x\<rfloor> = x then Some \<lfloor>x\<rfloor> else None)"

text \<open>
  An update keeps the identity and the history of the stored rule and takes the rest from the body; a
  member the body does not have is the zero of its type. The dispatcher's own checks of the target are a
  parameter.
\<close>

definition update_rule :: "(stored_rule \<Rightarrow> bool) \<Rightarrow> string \<Rightarrow> stored_rule \<Rightarrow> rule_body \<Rightarrow> stored_rule option" where
  "update_rule accepts now g body =
     (case decode_cooldown (rb_cooldown_s body) of
        None \<Rightarrow> None
      | Some cooldown \<Rightarrow>
          (case validate_rule
             (g\<lparr> sr_name := rb_name body, sr_enabled := rb_enabled body, sr_event := rb_event body,
                 sr_min_confidence := nullish (rb_min_confidence body) 0, sr_classes := nullish (rb_classes body) [],
                 sr_sensor_kinds := nullish (rb_sensor_kinds body) [],
                 sr_only_drones := nullish (rb_only_drones body) False,
                 sr_boundary_id := nullish (rb_boundary_id body) [], sr_cooldown_s := cooldown,
                 sr_action := rb_action body, sr_config := merge_secrets (sr_config g) (rb_config body),
                 sr_updated_at := now \<rparr>) of
             None \<Rightarrow> None
           | Some g' \<Rightarrow> if accepts g' then Some g' else None))"

section \<open>What a save changes\<close>

text \<open>The keys the editor has a field for.\<close>

fun editor_keys :: "hook_action \<Rightarrow> string list" where
  "editor_keys Webhook = [''url'', ''authorization'']"
| "editor_keys Ntfy = [''url'', ''priority'', ''access_token'']"
| "editor_keys Email = [''to'', ''subject'']"

text \<open>A configuration as the editor writes it: texts, none empty, the fields the form always sends among
  them.\<close>

definition editable :: "stored_rule \<Rightarrow> bool" where
  "editable g \<longleftrightarrow>
     list_all (\<lambda>(k, v). case v of JStr s \<Rightarrow> s \<noteq> [] | _ \<Rightarrow> False) (sr_config g) \<and>
     list_all (\<lambda>k. map_of (sr_config g) k \<noteq> None)
       (case sr_action g of Webhook \<Rightarrow> [''url''] | Ntfy \<Rightarrow> [''url'', ''priority''] | Email \<Rightarrow> [''to''])"

definition api_docs :: "(hook_event \<Rightarrow> string) \<Rightarrow> hook_event_doc list" where
  "api_docs doc = map (\<lambda>e. \<lparr> ed_event = e, ed_description = doc e,
       ed_supports_boundary = e \<in> set events_with_position \<rparr>)
     [Track_Confirmed, Track_Closed, Detection_Created, Sensor_Unhealthy, Sensor_Recovered, Capture_Completed,
      Sweep_Completed]"

lemma api_docs_support [simp]: "supports_boundary (api_docs doc) e \<longleftrightarrow> e \<in> set events_with_position"
  by (cases e) (simp_all add: supports_boundary_def api_docs_def events_with_position_def)

lemma map_of_redacted:
  "map_of (redacted config) k =
     map_option (\<lambda>v. if to_lower k \<in> set secret_config_keys then JStr secret_placeholder else v) (map_of config k)"
  by (induction config) (auto simp: redacted_def)

lemma config_string_editable:
  assumes "editable g" "map_of (sr_config g) k = Some v"
  obtains s where "v = JStr s" "s \<noteq> []"
proof -
  have "(k, v) \<in> set (sr_config g)" using assms(2) by (rule map_of_SomeD)
  then show thesis using assms(1) that by (fastforce simp: editable_def list_all_iff split: json.splits)
qed

lemma placeholder_not_empty [simp]: "secret_placeholder \<noteq> []"
  by (simp add: secret_placeholder_def)

text \<open>A field that is left as it was read is stored as it was: the value itself, or the placeholder, which the
  merge replaces by the stored value.\<close>

definition sent_back :: "hook_config \<Rightarrow> string \<Rightarrow> hook_config" where
  "sent_back config k = optional_member k (config_string (redacted config) k)"

lemma sent_back_restored:
  assumes "editable g"
  shows "merge_secrets (sr_config g) (sent_back (sr_config g) k) =
    (case map_of (sr_config g) k of None \<Rightarrow> [] | Some v \<Rightarrow> [(k, v)])"
proof (cases "map_of (sr_config g) k")
  case (Some v)
  with assms obtain s where "v = JStr s" "s \<noteq> []" by (rule config_string_editable)
  then show ?thesis using Some
    by (simp add: sent_back_def merge_secrets_def optional_member_def config_string_def map_of_redacted map_filter_simps)
qed (simp add: sent_back_def merge_secrets_def optional_member_def config_string_def map_of_redacted map_filter_simps)

lemma merge_secrets_append:
  "merge_secrets old (a @ b) = merge_secrets old a @ merge_secrets old b"
  by (induction a) (simp_all add: merge_secrets_def map_filter_simps split: option.split)

text \<open>The configuration an untouched form sends, field by field.\<close>

lemma editor_config_sent_back:
  assumes "editable g"
  shows "editor_config (open_editor (Some (read_rule g))) =
    concat (map (sent_back (sr_config g)) (editor_keys (sr_action g)))"
proof -
  have mandatory: "config_string (redacted (sr_config g)) k \<noteq> []"
    if "map_of (sr_config g) k \<noteq> None" for k
  proof -
    from that obtain v where v: "map_of (sr_config g) k = Some v" by blast
    with assms obtain s where "v = JStr s" "s \<noteq> []" by (rule config_string_editable)
    with v show ?thesis by (simp add: config_string_def map_of_redacted)
  qed
  show ?thesis
    using assms mandatory
    by (cases "sr_action g")
       (simp_all add: editor_config_def open_editor_def read_rule_def sent_back_def optional_member_def editable_def Let_def)
qed

lemma untouched_config:
  assumes "editable g"
  shows "merge_secrets (sr_config g) (editor_config (open_editor (Some (read_rule g)))) =
    List.map_filter (\<lambda>k. map_option (Pair k) (map_of (sr_config g) k)) (editor_keys (sr_action g))"
proof -
  have "merge_secrets c (concat (map (sent_back c) ks)) =
      List.map_filter (\<lambda>k. map_option (Pair k) (map_of c k)) ks"
    if "c = sr_config g" for c ks
  proof (induction ks)
    case (Cons k ks)
    then show ?case unfolding that
      by (simp add: merge_secrets_append sent_back_restored [OF assms] map_filter_simps split: option.split)
  qed (simp add: merge_secrets_def map_filter_simps)
  then show ?thesis by (simp add: editor_config_sent_back [OF assms])
qed

text \<open>C27: Opening a stored rule in the editor and saving it without touching anything keeps its name, event,
  action, confidence, boundary and history, and keeps its secrets, which the client never saw; but it
  clears the filters on detection class and sensor kind, drops the configuration keys the form has no field
  for, rounds the cooldown to whole minutes (at least one), and turns the exclusion of manned traffic on,
  because a stored false is not sent and the form reads what is absent as true.\<close>

theorem untouched_save_changes_filters:
  assumes "editable g" "validate_rule g = Some g"
  shows "update_rule accepts now g (editor_body (api_docs doc) (open_editor (Some (read_rule g)))) =
    (let g' = g\<lparr> sr_classes := [], sr_sensor_kinds := [], sr_only_drones := True,
         sr_cooldown_s := max 1 (js_round (of_int (sr_cooldown_s g) / 60)) * 60,
         sr_config := List.map_filter (\<lambda>k. map_option (Pair k) (map_of (sr_config g) k)) (editor_keys (sr_action g)),
         sr_updated_at := now \<rparr>
     in if accepts g' then Some g' else None)"
proof -
  let ?m = "max 1 (js_round (of_int (sr_cooldown_s g) / 60)) * 60"
  let ?ed = "open_editor (Some (read_rule g))"
  have valid: "trim (sr_name g) \<noteq> []" "0 \<le> sr_min_confidence g" "sr_min_confidence g \<le> 1"
    "sr_boundary_id g \<noteq> [] \<Longrightarrow> sr_event g \<in> set events_with_position"
    using assms(2) by (auto simp: validate_rule_def split: if_splits)
  have whole: "decode_cooldown (Some (max 1 (of_int n) * 60)) = Some (max 1 n * 60)" for n :: int
  proof -
    have "max 1 (of_int n) * 60 = (of_int (max 1 n * 60) :: real)" by (simp add: of_int_max)
    then show ?thesis by (simp only: decode_cooldown_def option.case floor_of_int if_True simp_thms)
  qed
  have body: "rb_cooldown_s (editor_body (api_docs doc) ?ed) =
      Some (max 1 (of_int (js_round (of_int (sr_cooldown_s g) / 60))) * 60)"
    "rb_config (editor_body (api_docs doc) ?ed) = editor_config ?ed"
    "nullish (rb_min_confidence (editor_body (api_docs doc) ?ed)) 0 = sr_min_confidence g"
    "nullish (rb_boundary_id (editor_body (api_docs doc) ?ed)) [] = sr_boundary_id g"
    "nullish (rb_only_drones (editor_body (api_docs doc) ?ed)) False"
    using valid(4) by (auto simp: editor_body_def open_editor_def read_rule_def omit_empty_def Let_def)
  have same: "rb_name (editor_body (api_docs doc) ?ed) = sr_name g" "rb_event (editor_body (api_docs doc) ?ed) = sr_event g"
    "rb_action (editor_body (api_docs doc) ?ed) = sr_action g" "rb_enabled (editor_body (api_docs doc) ?ed) = sr_enabled g"
    "rb_classes (editor_body (api_docs doc) ?ed) = None" "rb_sensor_kinds (editor_body (api_docs doc) ?ed) = None"
    by (simp_all add: editor_body_def open_editor_def read_rule_def Let_def)
  have "0 < ?m" by simp
  then show ?thesis
    unfolding update_rule_def body(1,2) same whole option.case untouched_config [OF assms(1)]
    using valid body(3-5) by (auto simp: validate_rule_def Let_def)
qed

definition night_rule :: stored_rule where
  "night_rule =
     \<lparr> sr_rule_id = ''r1'', sr_name = ''Night watch'', sr_enabled = True, sr_event = Track_Confirmed,
       sr_min_confidence = 1 / 2, sr_classes = [''A''], sr_sensor_kinds = [''wifi''], sr_only_drones = False,
       sr_boundary_id = ''b1'', sr_cooldown_s = 90, sr_action = Ntfy,
       sr_config = [(''url'', JStr ''https://ntfy.sh/x''), (''priority'', JStr ''high''), (''tags'', JStr ''owl''),
         (''access_token'', JStr ''tk'')],
       sr_created_at = ''t0'', sr_updated_at = ''t0'', sr_last_fired_at = None, sr_fire_count = 0 \<rparr>"

theorem untouched_save_changes_filters_witness:
  "update_rule (\<lambda>_. True) ''t1'' night_rule
     (editor_body (api_docs hook_event_text) (open_editor (Some (read_rule night_rule)))) =
   Some (night_rule\<lparr> sr_classes := [], sr_sensor_kinds := [], sr_only_drones := True, sr_cooldown_s := 120,
     sr_config := [(''url'', JStr ''https://ntfy.sh/x''), (''priority'', JStr ''high''), (''access_token'', JStr ''tk'')],
     sr_updated_at := ''t1'' \<rparr>)"
proof -
  have "editable night_rule" by (simp add: editable_def night_rule_def)
  moreover have "validate_rule night_rule = Some night_rule"
    by (simp add: validate_rule_def night_rule_def events_with_position_def trim_def is_space_def)
  ultimately show ?thesis
    using untouched_save_changes_filters [of night_rule "\<lambda>_. True" "''t1''" hook_event_text]
    by (simp add: night_rule_def js_round_def map_filter_simps)
qed

text \<open>C28: Switching a rule on or off changes nothing else, although the client sends the whole rule back with
  its secrets hidden.\<close>

theorem toggle_changes_nothing_else:
  assumes "distinct (map fst (sr_config g))" "validate_rule g = Some g"
  shows "update_rule accepts now g (toggle_body (read_rule g)) =
    (let g' = g\<lparr> sr_enabled := \<not> sr_enabled g, sr_updated_at := now \<rparr> in if accepts g' then Some g' else None)"
proof -
  have merge: "merge_secrets c (redacted d) = d" if "\<And>k v. (k, v) \<in> set d \<Longrightarrow> map_of c k = Some v" for c d
    using that
  proof (induction d)
    case (Cons e d)
    obtain k v where e: "e = (k, v)" by fastforce
    have "map_of c k = Some v" using Cons.prems e by simp
    moreover have "merge_secrets c (redacted d) = d" using Cons by simp
    ultimately show ?case by (auto simp: e redacted_def merge_secrets_def map_filter_simps)
  qed (simp add: redacted_def merge_secrets_def map_filter_simps)
  have kept: "merge_secrets (sr_config g) (redacted (sr_config g)) = sr_config g"
    using assms(1) by (intro merge) simp
  have ok: "trim (sr_name g) \<noteq> []" "\<not> sr_min_confidence g < 0" "\<not> 1 < sr_min_confidence g" "\<not> sr_cooldown_s g < 0"
    "\<not> list_ex (\<lambda>c. c \<notin> set (map (\<lambda>l. [l]) ''ABCDEFGH'')) (sr_classes g)"
    "\<not> (sr_boundary_id g \<noteq> [] \<and> sr_event g \<notin> set events_with_position)"
    using assms(2) unfolding validate_rule_def by (simp_all only: split: if_splits) simp_all
  have cooldown: "sr_cooldown_s g \<noteq> 0"
  proof
    assume "sr_cooldown_s g = 0"
    then have "sr_cooldown_s (the (validate_rule g)) = 300"
      using ok unfolding validate_rule_def by (simp only: if_False if_True) (simp add: default_cooldown_s_def)
    with assms(2) \<open>sr_cooldown_s g = 0\<close> show False by simp
  qed
  have valid: "validate_rule (g\<lparr> sr_enabled := b, sr_updated_at := t \<rparr>) = Some (g\<lparr> sr_enabled := b, sr_updated_at := t \<rparr>)"
    for b t
    using ok cooldown by (simp add: validate_rule_def)
  have decode: "decode_cooldown (Some (of_int n)) = Some n" for n
    by (simp add: decode_cooldown_def)
  show ?thesis
    by (simp add: update_rule_def toggle_body_def body_of_rule_def read_rule_def kept decode valid)
qed

theorem toggle_changes_nothing_else_witness:
  "update_rule (\<lambda>_. True) ''t1'' night_rule (toggle_body (read_rule night_rule)) =
   Some (night_rule\<lparr> sr_enabled := False, sr_updated_at := ''t1'' \<rparr>)"
proof -
  have "distinct (map fst (sr_config night_rule))" by (simp add: night_rule_def)
  moreover have "validate_rule night_rule = Some night_rule"
    by (simp add: validate_rule_def night_rule_def events_with_position_def trim_def is_space_def)
  ultimately show ?thesis
    using toggle_changes_nothing_else [of night_rule "\<lambda>_. True" "''t1''"] by (simp add: night_rule_def)
qed

text \<open>C29: While the operator wants destructive actions confirmed, a rule is deleted at most as often as its
  Delete was clicked and as often as the question after it was answered with yes; toggling, testing and
  editing delete nothing.\<close>

theorem deleting_takes_two_clicks:
  "if Click_Delete False \<in> set events then True
   else length (filter is_Delete_Rule (rc_calls (run_card r events))) \<le>
          min (count_list events (Click_Delete True)) (count_list events Click_Confirm)"
proof -
  have "Click_Delete False \<notin> set events \<longrightarrow>
      length (filter is_Delete_Rule (rc_calls (run_card r events))) + of_bool (rc_confirming (run_card r events)) \<le>
        count_list events (Click_Delete True) \<and>
      length (filter is_Delete_Rule (rc_calls (run_card r events))) \<le> count_list events Click_Confirm"
  proof (induction events rule: rev_induct)
    case (snoc e events)
    then show ?case
      by (cases e) (auto simp: run_card_def send_call_def remove_rule_def)
  qed (simp add: run_card_def new_card_def)
  then show ?thesis by auto
qed

text \<open>Whatever was typed, a stored secret is replaced only by another text, never by the bullets that hide
  it.\<close>

lemma bullets_are_never_stored:
  assumes "update_rule accepts now g body = Some g'" "map_of (sr_config g) k \<noteq> Some (JStr secret_placeholder)"
  shows "map_of (sr_config g') k \<noteq> Some (JStr secret_placeholder)"
proof -
  have "map_of (merge_secrets c d) k \<noteq> Some (JStr secret_placeholder)"
    if "map_of c k \<noteq> Some (JStr secret_placeholder)" for c d
    using that by (induction d) (auto simp: merge_secrets_def map_filter_simps split: option.splits if_splits)
  moreover have "sr_config g' = merge_secrets (sr_config g) (rb_config body)"
    using assms(1) by (auto simp: update_rule_def validate_rule_def split: option.splits if_splits)
  ultimately show ?thesis using assms(2) by simp
qed

text \<open>However the form was filled in, every text that is sent under a configuration key is on screen in a field of
  the form, and no save is refused for a boundary on an event without a position: a boundary picked before
  the event was changed is dropped.\<close>

lemma sent_texts_are_on_screen:
  "(k, JStr v) \<in> set (editor_config ed) \<Longrightarrow> \<exists>f \<in> set (form_fields num docs boundaries ed). ff_value f = v"
  by (cases "re_action ed")
     (auto simp: editor_config_def form_fields_def action_fields_def optional_member_def split: if_splits)

lemma boundary_needs_a_position:
  "rb_boundary_id (editor_body (api_docs doc) (fold edit_field edits (open_editor rule))) \<noteq> None \<Longrightarrow>
   rb_event (editor_body (api_docs doc) (fold edit_field edits (open_editor rule))) \<in> set events_with_position"
  by (auto simp: editor_body_def split: if_splits)

end
