(* ===== verification/ProfileLanes.thy ===== *)
theory ProfileLanes
  imports FlightPlayback TrackTier Units PathColour
begin

text \<open>
  \<open>features/tracks/flight-profiles.tsx\<close> and \<open>features/tracks/profile-lane.tsx\<close>: height, speed and signal against the
  clock of the flight, as SVG. Coordinates of the drawing are reals, times integer milliseconds, and a pointer's
  place is the page offset of the browser. Class names and the fixed colours of the grid are left out.
\<close>

section \<open>Series\<close>

record profile_point =
  pp_ms :: int
  pp_value :: real

record profile_series =
  ps_id :: string
  ps_label :: string
  ps_points :: "profile_point list"
  ps_color :: "string option"

definition receiver_colours :: "string list" where
  "receiver_colours = [''var(--track)'', ''var(--operator)'', ''var(--muted-foreground)'']"

definition measured_points :: "(position \<Rightarrow> real option) \<Rightarrow> position list \<Rightarrow> profile_point list" where
  "measured_points f path =
     List.map_filter (\<lambda>p. case (point_ms p, f p) of
       (Some ms, Some v) \<Rightarrow> Some \<lparr> pp_ms = ms, pp_value = v \<rparr> | _ \<Rightarrow> None) path"

definition height_series :: "position list \<Rightarrow> profile_series list" where
  "height_series path =
     [\<lparr> ps_id = ''agl'', ps_label = ''Height AGL'', ps_points = measured_points pos_height_agl_m path, ps_color = None \<rparr>]"

definition speed_series :: "position list \<Rightarrow> profile_series list" where
  "speed_series path =
     [\<lparr> ps_id = ''speed'', ps_label = ''Ground speed'', ps_points = measured_points pos_speed_mps path, ps_color = None \<rparr>]"

definition rssi_points :: "rssi_sample list \<Rightarrow> profile_point list" where
  "rssi_points samples =
     List.map_filter (\<lambda>s. map_option (\<lambda>ms. \<lparr> pp_ms = ms, pp_value = rs_rssi s \<rparr>) (date_parse (rs_ts s))) samples"

definition rssi_series :: "detection list \<Rightarrow> profile_series list" where
  "rssi_series detections =
     map (\<lambda>(i, k, samples). \<lparr> ps_id = k, ps_label = k, ps_points = rssi_points samples,
         ps_color = Some (if i < length receiver_colours then receiver_colours ! i else last receiver_colours) \<rparr>)
       (enumerate 0 (samples_by_receiver detections))"

section \<open>Runs\<close>

definition profile_gap_ms :: int where "profile_gap_ms = 30000"

fun profile_step ::
  "profile_point list list \<times> profile_point list \<times> profile_point option \<Rightarrow> profile_point \<Rightarrow>
     profile_point list list \<times> profile_point list \<times> profile_point option" where
  "profile_step (runs, run, previous) point =
     (if (case previous of None \<Rightarrow> False | Some q \<Rightarrow> profile_gap_ms < pp_ms point - pp_ms q)
      then (runs @ [run], [point], Some point) else (runs, run @ [point], Some point))"

definition segments_of :: "profile_point list \<Rightarrow> profile_point list list" where
  "segments_of points =
     (let (runs, run, previous) = foldl profile_step ([], [], None) points
      in filter (\<lambda>r. r \<noteq> []) (runs @ [run]))"

section \<open>Scales\<close>

definition lane_width :: real where "lane_width = 600"
definition pad_top :: real where "pad_top = 8"
definition pad_right :: real where "pad_right = 8"
definition pad_bottom :: real where "pad_bottom = 6"
definition pad_left :: real where "pad_left = 42"

definition plot_width :: real where "plot_width = lane_width - pad_left - pad_right"
definition plot_height :: "real \<Rightarrow> real" where "plot_height height = height - pad_top - pad_bottom"

record lane_scale =
  lsc_start :: int
  lsc_span :: int
  lsc_min :: real
  lsc_max :: real
  lsc_height :: real

definition plotted_series :: "profile_series list \<Rightarrow> profile_series list" where
  "plotted_series series = filter (\<lambda>s. ps_points s \<noteq> []) series"

definition lane_samples :: "profile_series list \<Rightarrow> nat" where
  "lane_samples series = sum_list (map (\<lambda>s. length (ps_points s)) (plotted_series series))"

text \<open>The least and greatest value; a flat series is padded by one on either side.\<close>

definition value_bounds :: "profile_point list \<Rightarrow> real \<times> real" where
  "value_bounds points =
     (case extent_of (map pp_value points) of None \<Rightarrow> (0, 0)
      | Some (lo, hi) \<Rightarrow> if lo = hi then (lo - 1, hi + 1) else (lo, hi))"

definition lane_scale_of :: "int \<times> int \<Rightarrow> real \<Rightarrow> profile_series list \<Rightarrow> lane_scale" where
  "lane_scale_of domain height series =
     (let (lo, hi) = value_bounds (concat (map ps_points (plotted_series series)))
      in \<lparr> lsc_start = fst domain, lsc_span = max 1 (snd domain - fst domain), lsc_min = lo, lsc_max = hi,
           lsc_height = height \<rparr>)"

definition lane_x :: "lane_scale \<Rightarrow> real \<Rightarrow> real" where
  "lane_x s ms = pad_left + (ms - of_int (lsc_start s)) / of_int (lsc_span s) * plot_width"

definition lane_y :: "lane_scale \<Rightarrow> real \<Rightarrow> real" where
  "lane_y s v = pad_top + (1 - (v - lsc_min s) / (lsc_max s - lsc_min s)) * plot_height (lsc_height s)"

definition grid_values :: "lane_scale \<Rightarrow> real list" where
  "grid_values s = [lsc_max s, (lsc_max s + lsc_min s) / 2, lsc_min s]"

text \<open>The pointer: the box of the SVG on the page is its left edge and its width.\<close>

definition ms_at :: "lane_scale \<Rightarrow> real \<times> real \<Rightarrow> real \<Rightarrow> real option" where
  "ms_at s box client_x =
     (let (left, width) = box
      in if width = 0 then None
         else let view_x = (client_x - left) / width * lane_width; t = (view_x - pad_left) / plot_width
              in if t < 0 \<or> 1 < t then None else Some (of_int (lsc_start s) + t * of_int (lsc_span s)))"

section \<open>The drawing\<close>

definition stroke_text :: "lane_scale \<Rightarrow> profile_point list \<Rightarrow> string" where
  "stroke_text s run =
     join '' '' (map (\<lambda>(i, p). (if i = 0 then ''M'' else ''L'') @ '' '' @ to_fixed 2 (lane_x s (of_int (pp_ms p))) @ '' '' @
         to_fixed 2 (lane_y s (pp_value p))) (enumerate 0 run))"

definition area_text :: "(real \<Rightarrow> string) \<Rightarrow> lane_scale \<Rightarrow> profile_point list \<Rightarrow> string" where
  "area_text num s run =
     stroke_text s run @ '' L '' @ to_fixed 2 (lane_x s (of_int (pp_ms (last run)))) @ '' '' @
     num (pad_top + plot_height (lsc_height s)) @ '' L '' @ to_fixed 2 (lane_x s (of_int (pp_ms (hd run)))) @ '' '' @
     num (pad_top + plot_height (lsc_height s)) @ '' Z''"

datatype lane_mark = Dot_Mark real real | Stroke_Mark string

definition mark_of_run :: "lane_scale \<Rightarrow> profile_point list \<Rightarrow> lane_mark" where
  "mark_of_run s run =
     (if length run < 2 then Dot_Mark (lane_x s (of_int (pp_ms (hd run)))) (lane_y s (pp_value (hd run)))
      else Stroke_Mark (stroke_text s run))"

definition lane_areas :: "(real \<Rightarrow> string) \<Rightarrow> lane_scale \<Rightarrow> profile_series list \<Rightarrow> string list" where
  "lane_areas num s plotted =
     (case plotted of [entry] \<Rightarrow> map (area_text num s) (filter (\<lambda>r. \<not> length r < 2) (segments_of (ps_points entry)))
      | _ \<Rightarrow> [])"

definition series_colour :: "profile_series \<Rightarrow> string" where
  "series_colour entry = nullish (ps_color entry) ''var(--track)''"

definition lane_rows :: "profile_series list \<Rightarrow> (string \<times> profile_point) list" where
  "lane_rows plotted = concat (map (\<lambda>entry. map (\<lambda>p. (ps_label entry, p)) (ps_points entry)) plotted)"

text \<open>A row of the table under the lane: the clock, the series when there are several, the value.\<close>

definition row_cells ::
  "intl \<Rightarrow> format_preferences \<Rightarrow> (real \<Rightarrow> string) \<Rightarrow> profile_series list \<Rightarrow> string \<times> profile_point \<Rightarrow> string list" where
  "row_cells intl p format_value plotted row =
     [fmt_instant intl Clock_Shape p (Some (to_iso (pp_ms (snd row))))] @
     (if 1 < length plotted then [fst row] else []) @ [format_value (pp_value (snd row))]"

record profile_lane =
  pl_title :: string
  pl_unit :: string
  pl_legend :: "(string \<times> string) list"
  pl_label :: string
  pl_grid :: "(real \<times> string) list"
  pl_areas :: "string list"
  pl_marks :: "(string \<times> lane_mark list) list"
  pl_cursor :: "real option"
  pl_rows :: "string list list"

definition cursor_x :: "int \<times> int \<Rightarrow> lane_scale \<Rightarrow> real option \<Rightarrow> real option" where
  "cursor_x domain s cursor =
     (case cursor of None \<Rightarrow> None
      | Some ms \<Rightarrow> if of_int (fst domain) \<le> ms \<and> ms \<le> of_int (snd domain) then Some (lane_x s ms) else None)"

definition profile_lane_of ::
  "(real \<Rightarrow> string) \<Rightarrow> intl \<Rightarrow> format_preferences \<Rightarrow> string \<Rightarrow> string \<Rightarrow> (real \<Rightarrow> string) \<Rightarrow> int \<times> int \<Rightarrow> real option \<Rightarrow>
     profile_series list \<Rightarrow> string \<Rightarrow> string + profile_lane" where
  "profile_lane_of num intl p title unit_text format_value domain cursor series empty_note =
     (let plotted = plotted_series series; s = lane_scale_of domain 92 series; n = lane_samples series
      in if n = 0 then Inl empty_note
         else Inr \<lparr> pl_title = title, pl_unit = unit_text,
           pl_legend = (if 1 < length plotted then map (\<lambda>e. (series_colour e, ps_label e)) plotted else []),
           pl_label = title @ '' over the flight, '' @ string_of_int (int n) @ '' samples between '' @
             format_value (lsc_min s) @ '' and '' @ format_value (lsc_max s),
           pl_grid = map (\<lambda>v. (lane_y s v, format_value v)) (grid_values s),
           pl_areas = lane_areas num s plotted,
           pl_marks = map (\<lambda>e. (series_colour e, map (mark_of_run s) (segments_of (ps_points e)))) plotted,
           pl_cursor = cursor_x domain s cursor,
           pl_rows = map (row_cells intl p format_value plotted) (lane_rows plotted) \<rparr>)"

definition flight_profiles ::
  "(real \<Rightarrow> string) \<Rightarrow> intl \<Rightarrow> format_preferences \<Rightarrow> position list \<Rightarrow> detection list \<Rightarrow> int \<times> int \<Rightarrow> real option \<Rightarrow>
     (string + profile_lane) list" where
  "flight_profiles num intl p path detections domain cursor =
     [profile_lane_of num intl p ''Height AGL'' (ul_length (unit_labels_of (fp_units p))) (\<lambda>v. fmt_length p (Some v)) domain cursor
        (height_series path) ''No point in this flight carried a height above ground.'',
      profile_lane_of num intl p ''Ground speed'' (ul_speed (unit_labels_of (fp_units p))) (\<lambda>v. fmt_speed p (Some v)) domain cursor
        (speed_series path) ''No point in this flight carried a ground speed.'',
      profile_lane_of num intl p ''RSSI per receiver'' ''dBm'' (\<lambda>v. format_rssi (Some (of_int (js_round v)))) domain cursor
        (rssi_series detections) ''No detection on this track reported a signal level.'']"

section \<open>A lane draws what was measured\<close>

definition runs_of_points :: "profile_point list \<Rightarrow> profile_point list list \<Rightarrow> bool" where
  "runs_of_points points runs \<longleftrightarrow>
     concat runs = points \<and> list_all (\<lambda>r. r \<noteq> []) runs \<and>
     list_all (successively (\<lambda>a b. pp_ms b - pp_ms a \<le> profile_gap_ms)) runs \<and>
     successively (\<lambda>r r'. profile_gap_ms < pp_ms (hd r') - pp_ms (last r)) runs"

definition segment_inv ::
  "profile_point list \<Rightarrow> profile_point list list \<times> profile_point list \<times> profile_point option \<Rightarrow> bool" where
  "segment_inv points st \<longleftrightarrow>
     (let (runs, run, previous) = st
      in if points = [] then runs = [] \<and> run = [] \<and> previous = None
         else runs_of_points points (runs @ [run]) \<and> previous = Some (last run))"

lemma runs_extend:
  assumes "runs_of_points points (runs @ [run])" "pp_ms p - pp_ms (last run) \<le> profile_gap_ms"
  shows "runs_of_points (points @ [p]) (runs @ [run @ [p]])"
  using assms by (auto simp: runs_of_points_def successively_append_iff)

lemma runs_break:
  assumes "runs_of_points points (runs @ [run])" "profile_gap_ms < pp_ms p - pp_ms (last run)"
  shows "runs_of_points (points @ [p]) ((runs @ [run]) @ [[p]])"
  using assms by (auto simp: runs_of_points_def successively_append_iff)

lemma profile_inv_step: "segment_inv points st \<Longrightarrow> segment_inv (points @ [p]) (profile_step st p)"
proof (cases st)
  case (fields runs run previous)
  assume inv: "segment_inv points st"
  show ?thesis
  proof (cases "points = []")
    case True
    then show ?thesis using inv by (simp add: fields segment_inv_def runs_of_points_def)
  next
    case False
    then have runs: "runs_of_points points (runs @ [run])" and prev: "previous = Some (last run)"
      using inv by (simp_all add: fields segment_inv_def)
    show ?thesis
      using runs_extend [OF runs, of p] runs_break [OF runs, of p]
      by (simp add: fields prev segment_inv_def)
  qed
qed

lemma segment_inv_fold: "segment_inv points (foldl profile_step ([], [], None) points)"
proof (induction points rule: rev_induct)
  case Nil
  then show ?case by (simp add: segment_inv_def)
next
  case (snoc p ps)
  then show ?case by (simp add: profile_inv_step)
qed

text \<open>A trace never crosses a reception gap and leaves nothing out: the runs of a series are its samples in
  order, each run unbroken (no step over 30 s), and between two runs there is always such a step, so that the
  marks of a series are exactly those of its maximal unbroken runs.\<close>

theorem lanes_break_at_silence: "runs_of_points points (segments_of points)"
proof -
  obtain runs run previous where st: "foldl profile_step ([], [], None) points = (runs, run, previous)"
    by (metis prod_cases3)
  have inv: "segment_inv points (runs, run, previous)" using segment_inv_fold [of points] by (simp add: st)
  show ?thesis
  proof (cases "points = []")
    case True
    then show ?thesis by (simp add: segments_of_def runs_of_points_def)
  next
    case False
    then have runs: "runs_of_points points (runs @ [run])" using inv by (simp add: segment_inv_def)
    moreover have "filter (\<lambda>r. r \<noteq> []) (runs @ [run]) = runs @ [run]"
      using runs by (simp only: runs_of_points_def list_all_iff filter_id_conv) blast
    ultimately show ?thesis by (simp add: segments_of_def st)
  qed
qed

section \<open>The pointer reads what is drawn\<close>

lemma plot_width_pos: "0 < plot_width"
  by (simp add: plot_width_def lane_width_def pad_left_def pad_right_def)

lemma scaled_beyond:
  assumes "0 < (w :: real)"
  shows "a + t * w < a \<longleftrightarrow> t < 0" "a + w < a + t * w \<longleftrightarrow> 1 < t"
proof -
  show "a + t * w < a \<longleftrightarrow> t < 0" using assms by (simp add: mult_less_0_iff)
  show "a + w < a + t * w \<longleftrightarrow> 1 < t" using mult_less_cancel_right_pos [OF assms, of 1 t] by simp
qed

lemma lane_span_pos: "1 \<le> lsc_span (lane_scale_of domain height series)"
  by (simp add: lane_scale_of_def split: prod.split)

lemma lane_scale_start: "lsc_start (lane_scale_of domain height series) = fst domain"
  by (simp add: lane_scale_of_def split: prod.split)

text \<open>The page offset at which a place of the drawing is seen.\<close>

definition client_of :: "real \<times> real \<Rightarrow> real \<Rightarrow> real" where
  "client_of box view_x = fst box + view_x / lane_width * snd box"

lemma ms_at_lane_x:
  assumes "0 < lsc_span s" "0 < snd box"
  shows "ms_at s box (client_of box (lane_x s ms)) =
     (let t = (ms - of_int (lsc_start s)) / of_int (lsc_span s) in if t < 0 \<or> 1 < t then None else Some ms)"
proof -
  have "(client_of box (lane_x s ms) - fst box) / snd box * lane_width = lane_x s ms"
    using assms(2) by (simp add: client_of_def lane_width_def)
  moreover have "(lane_x s ms - pad_left) / plot_width = (ms - of_int (lsc_start s)) / of_int (lsc_span s)"
    using plot_width_pos by (simp add: lane_x_def)
  ultimately show ?thesis
    using assms by (cases box) (simp add: ms_at_def Let_def)
qed

text \<open>C20: What the pointer reads is what is drawn under it: wherever the browser places the drawing, the place
  at which a lane draws an instant of the flight reads back as that instant, and a sample from outside the
  flight is drawn outside the plot, where the pointer reads nothing.\<close>

theorem hover_reads_what_is_drawn:
  assumes "fst domain \<le> snd domain" "0 < snd box"
  shows "let s = lane_scale_of domain height series; x = lane_x s (of_int ms)
    in (if fst domain \<le> ms \<and> ms \<le> snd domain
        then ms_at s box (client_of box x) = Some (of_int ms) \<and> pad_left \<le> x \<and> x \<le> lane_width - pad_right
        else fst domain < snd domain \<longrightarrow> ms_at s box (client_of box x) = None \<and> (x < pad_left \<or> lane_width - pad_right < x))"
proof -
  let ?s = "lane_scale_of domain height series"
  define t where "t = (of_int ms - of_int (lsc_start ?s)) / real_of_int (lsc_span ?s)"
  have span: "0 < lsc_span ?s" using lane_span_pos [of domain height series] by simp
  have x: "lane_x ?s (of_int ms) = pad_left + t * plot_width" by (simp add: lane_x_def t_def)
  have edge: "lane_width - pad_right = pad_left + plot_width" by (simp add: plot_width_def)
  have t0: "t < 0 \<longleftrightarrow> ms < fst domain" using span by (simp add: t_def divide_less_0_iff lane_scale_start)
  have "1 < t \<longleftrightarrow> real_of_int (lsc_span ?s) < of_int (ms - fst domain)"
    using span by (simp add: t_def less_divide_eq lane_scale_start)
  then have t1: "1 < t \<longleftrightarrow> lsc_span ?s < ms - fst domain" by (simp only: of_int_less_iff)
  have sp: "lsc_span ?s = max 1 (snd domain - fst domain)" by (simp add: lane_scale_of_def split: prod.split)
  have xs: "lane_x ?s (of_int ms) < pad_left \<longleftrightarrow> t < 0" "lane_width - pad_right < lane_x ?s (of_int ms) \<longleftrightarrow> 1 < t"
    unfolding x edge by (rule scaled_beyond [OF plot_width_pos])+
  have inside: "\<not> t < 0 \<and> \<not> 1 < t" if "fst domain \<le> ms" "ms \<le> snd domain"
    using that unfolding t0 t1 sp by auto
  have outside: "t < 0 \<or> 1 < t" if "\<not> (fst domain \<le> ms \<and> ms \<le> snd domain)" "fst domain < snd domain"
    using that unfolding t0 t1 sp by auto
  have "ms_at ?s box (client_of box (lane_x ?s (of_int ms))) = (if t < 0 \<or> 1 < t then None else Some (of_int ms))"
    using ms_at_lane_x [OF span assms(2), of "of_int ms"] by (simp add: Let_def t_def)
  then show ?thesis
    using inside outside xs unfolding Let_def by (smt (verit, best))
qed

theorem hover_reads_what_is_drawn_witness:
  "let s = lane_scale_of (0, 60000) 92 []
   in ms_at s (100, 300) (client_of (100, 300) (lane_x s 45000)) = Some 45000 \<and> lane_x s (- 30000) < pad_left"
proof -
  have "lane_x (lane_scale_of (0, 60000) 92 []) (of_int (- 30000)) < pad_left"
    by (simp add: lane_x_def lane_scale_of_def value_bounds_def plotted_series_def extent_of_def
        plot_width_def lane_width_def pad_left_def pad_right_def)
  then show ?thesis
    using hover_reads_what_is_drawn [of "(0, 60000)" "(100, 300)" 92 "[]" 45000] by (simp add: Let_def)
qed

section \<open>Every sample is in the plot and in the table\<close>

lemma lane_y_inside:
  assumes "lsc_min s \<le> v" "v \<le> lsc_max s" "lsc_min s < lsc_max s" "0 \<le> plot_height (lsc_height s)"
  shows "pad_top \<le> lane_y s v \<and> lane_y s v \<le> pad_top + plot_height (lsc_height s)"
proof -
  let ?r = "1 - (v - lsc_min s) / (lsc_max s - lsc_min s)"
  have "0 \<le> ?r" "?r \<le> 1" using assms(1-3) by (simp_all add: divide_le_eq)
  then have "0 \<le> ?r * plot_height (lsc_height s)" "?r * plot_height (lsc_height s) \<le> plot_height (lsc_height s)"
    using assms(4) mult_left_le_one_le by (simp_all add: mult_left_le_one_le)
  then show ?thesis by (simp add: lane_y_def)
qed

lemma value_bounds_hold:
  assumes "p \<in> set points"
  shows "fst (value_bounds points) \<le> pp_value p \<and> pp_value p \<le> snd (value_bounds points) \<and>
    fst (value_bounds points) < snd (value_bounds points)"
proof -
  have "pp_value p \<in> set (map pp_value points)" using assms by simp
  then obtain lo hi where e: "extent_of (map pp_value points) = Some (lo, hi)"
    and "lo \<le> pp_value p" "pp_value p \<le> hi" using extent_of_bounds by blast
  then show ?thesis by (simp add: value_bounds_def e)
qed

lemma samples_inside_plot:
  "list_all (\<lambda>p. pad_top \<le> lane_y (lane_scale_of domain 92 series) (pp_value p) \<and>
      lane_y (lane_scale_of domain 92 series) (pp_value p) \<le> pad_top + plot_height 92)
    (concat (map ps_points (plotted_series series)))"
proof (unfold list_all_iff, rule ballI)
  let ?points = "concat (map ps_points (plotted_series series))"
  fix p assume p: "p \<in> set ?points"
  let ?s = "lane_scale_of domain 92 series"
  have s: "lsc_min ?s = fst (value_bounds ?points)" "lsc_max ?s = snd (value_bounds ?points)" "lsc_height ?s = 92"
    by (simp_all add: lane_scale_of_def split: prod.split)
  have "0 \<le> plot_height 92" by (simp add: plot_height_def pad_top_def pad_bottom_def)
  then show "pad_top \<le> lane_y ?s (pp_value p) \<and> lane_y ?s (pp_value p) \<le> pad_top + plot_height 92"
    using lane_y_inside [of ?s "pp_value p"] value_bounds_hold [OF p] by (simp only: s)
qed

lemma length_lane_rows: "length (lane_rows (plotted_series series)) = lane_samples series"
  by (simp add: lane_rows_def lane_samples_def length_concat comp_def)

end
