(* ===== verification/Replay.thy ===== *)
theory Replay
  imports ProfileLanes
begin

text \<open>
  The transport of a recorded flight: \<open>features/tracks/flight-scrubber.tsx\<close> with the state it shares with
  \<open>routes/tracks/$trackId.tsx\<close>. A handler and the interval read what the last render left behind, so the state
  keeps that render beside the values that are set; a render and its effects are one step, and an event of the
  operator is rendered before the next event is taken, as React does for presses and drags.
\<close>

section \<open>State\<close>

definition tick_ms :: int where "tick_ms = 100"

type_synonym flight_span = "int \<times> int"

record scrubber_render =
  sr_at :: int
  sr_playing :: bool
  sr_rate :: nat
  sr_span :: flight_span

record replay =
  rp_scrub :: "int option"
  rp_playing :: bool
  rp_rate :: nat
  rp_hover :: "real option"
  rp_span :: "flight_span option"
  rp_rendered :: "scrubber_render option"

definition fresh_replay :: "flight_span option \<Rightarrow> replay" where
  "fresh_replay sp =
     \<lparr> rp_scrub = None, rp_playing = False, rp_rate = 1, rp_hover = None, rp_span = sp, rp_rendered = None \<rparr>"

definition at_ms :: "replay \<Rightarrow> int option" where
  "at_ms s = or_else (rp_scrub s) (map_option fst (rp_span s))"

definition cursor_ms :: "replay \<Rightarrow> real option" where
  "cursor_ms s =
     (let here = map_option of_int (at_ms s) in if rp_playing s then here else or_else (rp_hover s) here)"

definition total_ms :: "flight_span \<Rightarrow> int" where "total_ms sp = snd sp - fst sp"

section \<open>Events\<close>

datatype replay_event =
    Render
  | Tick
  | Press_Play
  | Press_Start
  | Drag int
  | Press_Rate nat
  | Hover "real option"
  | New_Path "flight_span option"

text \<open>The scrubber is mounted when the path has one; it takes its position from the page.\<close>

definition render_scrubber :: "replay \<Rightarrow> replay" where
  "render_scrubber s =
     s\<lparr> rp_rendered := map_option (\<lambda>sp. \<lparr> sr_at = nullish (at_ms s) (fst sp), sr_playing = rp_playing s,
        sr_rate = rp_rate s, sr_span = sp \<rparr>) (rp_span s) \<rparr>"

definition on_tick :: "scrubber_render \<Rightarrow> replay \<Rightarrow> replay" where
  "on_tick r s =
     (if \<not> sr_playing r \<or> total_ms (sr_span r) \<le> 0 then s
      else let following = sr_at r + tick_ms * int (sr_rate r); stop = snd (sr_span r)
           in if stop \<le> following then s\<lparr> rp_scrub := Some stop, rp_playing := False \<rparr>
              else s\<lparr> rp_scrub := Some following \<rparr>)"

definition on_play :: "scrubber_render \<Rightarrow> replay \<Rightarrow> replay" where
  "on_play r s =
     (let s1 = (if \<not> sr_playing r \<and> snd (sr_span r) \<le> sr_at r then s\<lparr> rp_scrub := Some (fst (sr_span r)) \<rparr> else s)
      in s1\<lparr> rp_playing := \<not> sr_playing r \<rparr>)"

definition controls_disabled :: "scrubber_render \<Rightarrow> bool" where
  "controls_disabled r \<longleftrightarrow> total_ms (sr_span r) \<le> 0"

definition handle_replay :: "replay_event \<Rightarrow> scrubber_render \<Rightarrow> replay \<Rightarrow> replay" where
  "handle_replay e r s =
     (case e of
        Tick \<Rightarrow> on_tick r s
      | Press_Play \<Rightarrow> if controls_disabled r then s else on_play r s
      | Press_Start \<Rightarrow> if controls_disabled r then s else s\<lparr> rp_scrub := Some (fst (sr_span r)) \<rparr>
      | Drag v \<Rightarrow> if controls_disabled r then s else s\<lparr> rp_playing := False, rp_scrub := Some v \<rparr>
      | Press_Rate k \<Rightarrow> if controls_disabled r \<or> k \<notin> set playback_rates then s else s\<lparr> rp_rate := k \<rparr>
      | _ \<Rightarrow> s)"

definition by_operator :: "replay_event \<Rightarrow> bool" where
  "by_operator e =
     (case e of Press_Play \<Rightarrow> True | Press_Start \<Rightarrow> True | Drag v \<Rightarrow> True | Press_Rate k \<Rightarrow> True | _ \<Rightarrow> False)"

definition replay_step :: "replay \<Rightarrow> replay_event \<Rightarrow> replay" where
  "replay_step s e =
     (case e of
        Render \<Rightarrow> render_scrubber s
      | Hover m \<Rightarrow> s\<lparr> rp_hover := m \<rparr>
      | New_Path sp \<Rightarrow> s\<lparr> rp_span := sp \<rparr>
      | _ \<Rightarrow> (case rp_rendered s of None \<Rightarrow> s
          | Some r \<Rightarrow> let s1 = handle_replay e r s in if by_operator e then render_scrubber s1 else s1))"

definition run_replay :: "replay \<Rightarrow> replay_event list \<Rightarrow> replay" where
  "run_replay s es = foldl replay_step s es"

section \<open>What the scrubber shows\<close>

record scrubber_view =
  sv_play_label :: string
  sv_disabled :: bool
  sv_step :: int
  sv_value_text :: string
  sv_rates :: "(nat \<times> bool) list"
  sv_clock :: string
  sv_elapsed :: string
  sv_notice :: "string option"

definition elapsed_text :: "scrubber_render \<Rightarrow> string" where
  "elapsed_text r =
     (let total = total_ms (sr_span r); elapsed = min total (max 0 (sr_at r - fst (sr_span r)))
      in format_duration (of_int elapsed / 1000) @ '' of '' @ format_duration (of_int total / 1000))"

definition scrubber_view_of :: "intl \<Rightarrow> format_preferences \<Rightarrow> bool \<Rightarrow> scrubber_render \<Rightarrow> scrubber_view" where
  "scrubber_view_of intl p heard r =
     (let clock = fmt_instant intl Clock_Shape p (Some (to_iso (sr_at r)))
      in \<lparr> sv_play_label = (if sr_playing r then ''Pause replay'' else ''Play replay''),
           sv_disabled = controls_disabled r,
           sv_step = max 1 (js_round (of_int (total_ms (sr_span r)) / 1000)),
           sv_value_text = clock @ '', '' @ elapsed_text r,
           sv_rates = map (\<lambda>k. (k, k = sr_rate r)) playback_rates,
           sv_clock = clock, sv_elapsed = elapsed_text r,
           sv_notice = (if heard then None else Some (''not heard '' @ em_dash @ '' marker held at last fix'')) \<rparr>)"

text \<open>The frame under the playhead, which says whether the aircraft was heard, and the one under the cursor,
  which the map draws.\<close>

definition heard_now :: "position list \<Rightarrow> replay \<Rightarrow> bool" where
  "heard_now history s =
     nullish (map_option pf_heard (Option.bind (at_ms s) (\<lambda>t. frame_at history (of_int t)))) True"

definition cursor_frame :: "position list \<Rightarrow> replay \<Rightarrow> playback_frame option" where
  "cursor_frame history s = Option.bind (cursor_ms s) (frame_at history)"

record map_cursor =
  mc_lat :: real
  mc_lon :: real
  mc_label :: string

text \<open>A pointer's instant may lie between milliseconds; \<open>Date\<close> drops the fraction.\<close>

definition map_cursor_of :: "intl \<Rightarrow> format_preferences \<Rightarrow> playback_frame \<Rightarrow> map_cursor" where
  "map_cursor_of intl p f =
     \<lparr> mc_lat = pf_lat f, mc_lon = pf_lon f,
       mc_label = ''Replay position at '' @
         fmt_instant intl Clock_Shape p
           (Some (to_iso (if 0 \<le> pf_at_ms f then \<lfloor>pf_at_ms f\<rfloor> else \<lceil>pf_at_ms f\<rceil>))) @
         (if pf_heard f then [] else '' '' @ em_dash @ '' not heard, held at the last fix'') \<rparr>"

section \<open>A replay ends\<close>

definition rendered_as :: "replay \<Rightarrow> int \<Rightarrow> bool \<Rightarrow> nat \<Rightarrow> flight_span \<Rightarrow> bool" where
  "rendered_as s at_now playing rate sp \<longleftrightarrow>
     rp_scrub s = Some at_now \<and> rp_playing s = playing \<and> rp_rate s = rate \<and> rp_span s = Some sp \<and>
     rp_rendered s = Some \<lparr> sr_at = at_now, sr_playing = playing, sr_rate = rate, sr_span = sp \<rparr>"

lemma tick_and_render:
  assumes "rendered_as s t playing rate sp" "fst sp < snd sp"
  shows "rendered_as (run_replay s [Tick, Render])
     (if playing then min (snd sp) (t + tick_ms * int rate) else t)
     (playing \<and> t + tick_ms * int rate < snd sp) rate sp"
  using assms
  by (cases sp) (auto simp: rendered_as_def run_replay_def replay_step_def handle_replay_def on_tick_def by_operator_def
      render_scrubber_def at_ms_def total_ms_def Let_def)

lemma run_replay_append: "run_replay s (es @ es') = run_replay (run_replay s es) es'"
  by (simp add: run_replay_def)

lemma ticks_and_renders:
  assumes "rendered_as s t True rate sp" "fst sp < snd sp" "t < snd sp"
  shows "rendered_as (run_replay s (concat (replicate n [Tick, Render])))
     (min (snd sp) (t + int n * (tick_ms * int rate))) (n = 0 \<or> t + int n * (tick_ms * int rate) < snd sp) rate sp"
proof (induction n)
  case 0
  then show ?case using assms by (simp add: run_replay_def)
next
  case (Suc n)
  let ?d = "tick_ms * int rate"
  have run: "concat (replicate (Suc n) [Tick, Render]) = concat (replicate n [Tick, Render]) @ [Tick, Render]"
    by (simp flip: replicate_append_same)
  have d: "0 \<le> ?d" by (simp add: tick_ms_def)
  have more: "t + int (Suc n) * ?d = t + int n * ?d + ?d" by (simp add: distrib_right)
  show ?case
    using tick_and_render [OF Suc assms(2)] d assms(3) unfolding run run_replay_append more
    by (auto simp: min_def split: if_splits)
qed

text \<open>C25: A replay runs at the chosen rate, never past the end, and stops there by itself: \<open>n\<close> ticks after it was
  started (each rendered before the next) the playhead is \<open>n\<close> tenths of a second times the rate further on, or at
  the end of the flight; it is still playing only before the end, so that enough ticks always stop it, and from
  then on ticks leave it where it is.\<close>

theorem replay_ends:
  assumes "rendered_as s t True rate sp" "t < snd sp" "fst sp < snd sp" "0 < rate"
  shows "let s' = run_replay s (concat (replicate n [Tick, Render]))
    in at_ms s' = Some (min (snd sp) (t + int n * (100 * int rate))) \<and>
       (snd sp \<le> t + int n * (100 * int rate) \<longrightarrow> \<not> rp_playing s') \<and>
       (snd sp - t \<le> int n \<longrightarrow> at_ms s' = Some (snd sp) \<and> \<not> rp_playing s')"
proof -
  let ?d = "100 * int rate"
  have "rendered_as (run_replay s (concat (replicate n [Tick, Render])))
      (min (snd sp) (t + int n * ?d)) (n = 0 \<or> t + int n * ?d < snd sp) rate sp"
    using ticks_and_renders [OF assms(1,3,2), of n] by (simp add: tick_ms_def)
  moreover have "int n \<le> int n * ?d" using assms(4) mult_left_mono [of 1 ?d "int n"] by simp
  ultimately show ?thesis using assms(2) by (auto simp: rendered_as_def at_ms_def Let_def)
qed

theorem replay_ends_witness:
  "let s = run_replay (fresh_replay (Some (0, 60000))) [Render, Drag 30000, Press_Rate 10, Press_Play];
       s' = run_replay s (concat (replicate 40 [Tick, Render]))
   in at_ms s' = Some 60000 \<and> \<not> rp_playing s'"
proof -
  let ?s = "run_replay (fresh_replay (Some (0, 60000))) [Render, Drag 30000, Press_Rate 10, Press_Play]"
  have "rendered_as ?s 30000 True 10 (0, 60000)" by (simp add: run_replay_def rendered_as_def replay_step_def
      fresh_replay_def render_scrubber_def handle_replay_def by_operator_def controls_disabled_def total_ms_def
      on_play_def at_ms_def playback_rates_def Let_def)
  from replay_ends [OF this, of 40] show ?thesis by (simp add: Let_def)
qed

section \<open>A stopped replay stays where it was put\<close>

definition stopped_at :: "int option \<Rightarrow> replay \<Rightarrow> bool" where
  "stopped_at v s \<longleftrightarrow> rp_scrub s = v \<and> \<not> rp_playing s \<and>
     (case rp_rendered s of None \<Rightarrow> True | Some r \<Rightarrow> \<not> sr_playing r)"

lemma stopped_step: "stopped_at v s \<Longrightarrow> \<not> by_operator e \<Longrightarrow> stopped_at v (replay_step s e)"
  by (cases e) (auto simp: stopped_at_def replay_step_def by_operator_def handle_replay_def on_tick_def
      render_scrubber_def Let_def split: option.splits)

lemma stopped_run: "stopped_at v s \<Longrightarrow> list_all (\<lambda>e. \<not> by_operator e) es \<Longrightarrow> stopped_at v (run_replay s es)"
  by (induction es arbitrary: s) (simp_all add: run_replay_def stopped_step)

text \<open>C34: What the operator stops stays stopped: after a drag, or a press of pause, whatever ticks were under way,
  whatever is rendered, hovered over or newly heard, the replay does not run and the playhead stays where
  the operator left it until the operator acts again. A playhead that was paused before it had moved at
  all has no place of its own: it stays at the start of whatever path there is.\<close>

theorem stopped_replay_stays_put:
  assumes "rp_rendered s = Some r" "\<not> controls_disabled r" "list_all (\<lambda>e. \<not> by_operator e) es"
  shows "at_ms (run_replay s (Drag v # es)) = Some v \<and> \<not> rp_playing (run_replay s (Drag v # es)) \<and>
    (sr_playing r \<longrightarrow> \<not> rp_playing (run_replay s (Press_Play # es)) \<and>
       at_ms (run_replay s (Press_Play # es)) =
         (case rp_scrub s of Some w \<Rightarrow> Some w
          | None \<Rightarrow> map_option fst (rp_span (run_replay s (Press_Play # es)))))"
proof -
  have run: "run_replay s (e # es) = run_replay (replay_step s e) es" for e by (simp add: run_replay_def)
  have drag: "stopped_at (Some v) (replay_step s (Drag v))"
    using assms(1,2) by (auto simp: stopped_at_def replay_step_def by_operator_def handle_replay_def
        render_scrubber_def Let_def split: option.split)
  have pause: "stopped_at (rp_scrub s) (replay_step s Press_Play)" if "sr_playing r"
    using assms(1,2) that by (auto simp: stopped_at_def replay_step_def by_operator_def handle_replay_def on_play_def
        render_scrubber_def Let_def split: option.split)
  show ?thesis
    using stopped_run [OF drag assms(3)] stopped_run [OF pause assms(3)] unfolding run
    by (auto simp: stopped_at_def at_ms_def split: option.split)
qed

theorem stopped_replay_stays_put_witness:
  "let s = run_replay (fresh_replay (Some (0, 60000))) [Render, Press_Play]; es = [Tick, Hover (Some 3), New_Path (Some (5, 60000)), Render, Tick]
   in at_ms (run_replay s (Drag 500 # es)) = Some 500 \<and> \<not> rp_playing (run_replay s (Press_Play # es)) \<and>
     at_ms (run_replay s (Press_Play # es)) = map_option fst (rp_span (run_replay s (Press_Play # es)))"
proof -
  let ?s = "run_replay (fresh_replay (Some (0, 60000))) [Render, Press_Play]"
  let ?r = "\<lparr> sr_at = 0, sr_playing = True, sr_rate = 1, sr_span = (0, 60000) \<rparr>"
  have "rp_rendered ?s = Some ?r" "rp_scrub ?s = None"
    by (simp_all add: run_replay_def replay_step_def fresh_replay_def render_scrubber_def handle_replay_def by_operator_def
        controls_disabled_def total_ms_def on_play_def at_ms_def Let_def)
  then show ?thesis
    using stopped_replay_stays_put [of ?s ?r "[Tick, Hover (Some 3), New_Path (Some (5, 60000)), Render, Tick]" 500]
    by (simp add: controls_disabled_def total_ms_def by_operator_def Let_def)
qed

section \<open>The playhead stays in the flight\<close>

definition inside_span :: "flight_span \<Rightarrow> replay_event \<Rightarrow> bool" where
  "inside_span sp e =
     (case e of Drag v \<Rightarrow> fst sp \<le> v \<and> v \<le> snd sp | New_Path q \<Rightarrow> q = Some sp | _ \<Rightarrow> True)"

definition playhead_ok :: "flight_span \<Rightarrow> replay \<Rightarrow> bool" where
  "playhead_ok sp s \<longleftrightarrow> rp_span s = Some sp \<and> rp_rate s \<in> set playback_rates \<and>
     (case rp_scrub s of None \<Rightarrow> True | Some v \<Rightarrow> fst sp \<le> v \<and> v \<le> snd sp) \<and>
     (case rp_rendered s of None \<Rightarrow> True
      | Some r \<Rightarrow> sr_span r = sp \<and> sr_rate r \<in> set playback_rates \<and> fst sp \<le> sr_at r \<and> sr_at r \<le> snd sp)"

lemma playhead_render: "fst sp \<le> snd sp \<Longrightarrow> playhead_ok sp s \<Longrightarrow> playhead_ok sp (render_scrubber s)"
  by (auto simp: playhead_ok_def render_scrubber_def at_ms_def split: option.splits)

lemma playhead_handle:
  assumes "fst sp \<le> snd sp" "playhead_ok sp s" "rp_rendered s = Some r" "inside_span sp e"
  shows "playhead_ok sp (handle_replay e r s)"
  using assms by (cases e) (auto simp: playhead_ok_def handle_replay_def on_tick_def on_play_def inside_span_def
      tick_ms_def Let_def split: option.splits)

lemma playhead_step:
  assumes "fst sp \<le> snd sp" "playhead_ok sp s" "inside_span sp e"
  shows "playhead_ok sp (replay_step s e)"
proof (cases "e = Render \<or> (\<exists>m. e = Hover m) \<or> (\<exists>q. e = New_Path q)")
  case True
  then show ?thesis
    using assms playhead_render [OF assms(1,2)] by (auto simp: replay_step_def playhead_ok_def inside_span_def)
next
  case False
  then have "replay_step s e = (case rp_rendered s of None \<Rightarrow> s
      | Some r \<Rightarrow> let s1 = handle_replay e r s in if by_operator e then render_scrubber s1 else s1)"
    by (cases e) (auto simp: replay_step_def split: option.split)
  then show ?thesis
    using assms(2) playhead_handle [OF assms(1,2) _ assms(3)] playhead_render [OF assms(1)]
    by (auto simp: Let_def split: option.split)
qed

lemma playhead_run:
  assumes "fst sp \<le> snd sp" "list_all (inside_span sp) es"
  shows "playhead_ok sp (run_replay (fresh_replay (Some sp)) es)"
proof -
  have "playhead_ok sp (foldl replay_step s es)" if "playhead_ok sp s" for s
    using that assms(2) by (induction es arbitrary: s) (simp_all add: playhead_step [OF assms(1)])
  then show ?thesis by (simp add: run_replay_def playhead_ok_def fresh_replay_def playback_rates_def)
qed

end
