(* ===== verification/SettingFields.thy ===== *)
theory SettingFields
  imports JsJson Format
begin

text \<open>
  \<open>features/settings/setting-fields.tsx\<close>: a group of settings of the receiver with one Save, how a value of
  the registry becomes the text of a field, and, from \<open>services/api\<close>, how the API reads the declared
  sensors back. Layout is left out.
\<close>

section \<open>Values of the registry\<close>

datatype setting_source = From_Env | From_Db | From_Seed | From_Default

record setting_value =
  sv_value :: json
  sv_source :: setting_source
  sv_mutable :: bool
  sv_doc :: "string option"

type_synonym settings = "(string \<times> setting_value) list"

datatype field_kind = Switch_Field | Text_Field | Number_Field

record field_spec =
  fs_key :: string
  fs_label :: string
  fs_kind :: field_kind
  fs_hint :: "string option"

definition sensor_decl_text :: "json \<Rightarrow> string" where
  "sensor_decl_text decl =
     (case decl of
        JObj fs \<Rightarrow>
          (case (map_of fs ''sensor_id'', map_of fs ''sensor_kind'') of
             (Some (JStr i), Some (JStr k)) \<Rightarrow>
               i @ '':'' @ k @ (if map_of fs ''optional'' = Some (JBool True) then '':optional'' else [])
           | _ \<Rightarrow> [])
      | _ \<Rightarrow> [])"

definition as_text :: "(real \<Rightarrow> string) \<Rightarrow> setting_value option \<Rightarrow> string" where
  "as_text num setting =
     (case map_option sv_value setting of
        Some (JBool b) \<Rightarrow> (if b then ''true'' else ''false'')
      | Some (JNum x) \<Rightarrow> num x
      | Some (JStr t) \<Rightarrow> t
      | Some (JArr xs) \<Rightarrow> join '','' (filter (\<lambda>t. t \<noteq> []) (map sensor_decl_text xs))
      | _ \<Rightarrow> [])"

definition is_locked :: "setting_value option \<Rightarrow> bool" where
  "is_locked setting =
     (case setting of None \<Rightarrow> False | Some v \<Rightarrow> sv_source v = From_Env \<or> \<not> sv_mutable v)"

section \<open>A group with one Save\<close>

text \<open>
  The draft, what was stored but may not be running, the save on its way and the error of the last one; and
  every save that was sent, which is the API's to see. An error names the field it belongs to, or none; an
  error that is not the API's is \<^term>\<open>None\<close>.
\<close>

record settings_group =
  sg_draft :: "(string \<times> string) list"
  sg_pending :: "(string \<times> string) list"
  sg_restart :: bool
  sg_sending :: "(string \<times> string) list option"
  sg_error :: "(string option \<times> string) option"
  sg_sent :: "(string \<times> string) list list"

definition fresh_settings :: settings_group where
  "fresh_settings = \<lparr> sg_draft = [], sg_pending = [], sg_restart = False, sg_sending = None, sg_error = None, sg_sent = [] \<rparr>"

definition spread :: "('k \<times> 'v) list \<Rightarrow> ('k \<times> 'v) list \<Rightarrow> ('k \<times> 'v) list" where
  "spread old new_members = fold (\<lambda>(k, v). AList.update k v) new_members old"

definition group_dirty :: "settings_group \<Rightarrow> bool" where
  "group_dirty g \<longleftrightarrow> sg_draft g \<noteq> []"

text \<open>Draft beats pending beats running.\<close>

definition value_of :: "(real \<Rightarrow> string) \<Rightarrow> settings \<Rightarrow> settings_group \<Rightarrow> string \<Rightarrow> string" where
  "value_of num data g key =
     nullish (or_else (map_of (sg_draft g) key) (map_of (sg_pending g) key)) (as_text num (map_of data key))"

definition field_error :: "settings_group \<Rightarrow> string \<Rightarrow> string option" where
  "field_error g key =
     (case sg_error g of Some (Some f, m) \<Rightarrow> (if f = key then Some m else None) | _ \<Rightarrow> None)"

datatype group_event =
    Type_Setting string string
  | Submit_Group
  | Save_Stored bool
  | Save_Refused "string option" string
  | Save_Broken

text \<open>A locked field takes no typing, and the button is disabled while a save is on its way.\<close>

fun group_step :: "field_spec list \<Rightarrow> settings \<Rightarrow> group_event \<Rightarrow> settings_group \<Rightarrow> settings_group" where
  "group_step specs data (Type_Setting key v) g =
     (if key \<notin> set (map fs_key specs) \<or> is_locked (map_of data key) then g
      else g\<lparr> sg_draft := AList.update key v (sg_draft g) \<rparr>)"
| "group_step specs data Submit_Group g =
     (if \<not> group_dirty g \<or> sg_sending g \<noteq> None then g
      else g\<lparr> sg_sending := Some (sg_draft g), sg_error := None, sg_sent := sg_sent g @ [sg_draft g] \<rparr>)"
| "group_step specs data (Save_Stored restart_required) g =
     (case sg_sending g of None \<Rightarrow> g
      | Some updates \<Rightarrow>
          g\<lparr> sg_pending := spread (sg_pending g) updates, sg_restart := restart_required, sg_draft := [],
             sg_sending := None \<rparr>)"
| "group_step specs data (Save_Refused f m) g =
     (if sg_sending g = None then g else g\<lparr> sg_error := Some (f, m), sg_sending := None \<rparr>)"
| "group_step specs data Save_Broken g =
     (if sg_sending g = None then g else g\<lparr> sg_error := None, sg_sending := None \<rparr>)"

definition run_group :: "field_spec list \<Rightarrow> settings \<Rightarrow> group_event list \<Rightarrow> settings_group" where
  "run_group specs data events = fold (group_step specs data) events fresh_settings"

section \<open>What the group shows\<close>

record setting_row =
  st_label :: string
  st_hint :: "string option"
  st_value :: string
  st_checked :: bool
  st_note :: "string option"
  st_error :: "string option"

definition lock_note :: "bool \<Rightarrow> string option" where
  "lock_note locked =
     (if locked then Some (''Held in the environment '' @ em_dash @
        '' a saved value would be ignored by the process that reads it.'') else None)"

definition setting_row_of :: "(real \<Rightarrow> string) \<Rightarrow> settings \<Rightarrow> settings_group \<Rightarrow> field_spec \<Rightarrow> setting_row" where
  "setting_row_of num data g f =
     (let setting = map_of data (fs_key f); v = value_of num data g (fs_key f)
      in \<lparr> st_label = fs_label f, st_hint = or_else (fs_hint f) (Option.bind setting sv_doc), st_value = v,
           st_checked = (fs_kind f = Switch_Field \<and> v = ''true''), st_note = lock_note (is_locked setting),
           st_error = field_error g (fs_key f) \<rparr>)"

definition toggle_switch :: "bool \<Rightarrow> string" where
  "toggle_switch checked = (if checked then ''true'' else ''false'')"

definition group_notices :: "settings_group \<Rightarrow> (string \<times> string) list" where
  "group_notices g =
     (case sg_error g of Some (None, m) \<Rightarrow> [(''Could not save'', m)] | _ \<Rightarrow> []) @
     (if sg_pending g \<noteq> [] \<and> \<not> group_dirty g
      then [if sg_restart g
            then (''Saved '' @ em_dash @ '' not running yet'',
              ''Stored on the Pi. The process assembled its configuration at startup, so it is still running '' @
              ''the previous value; the fields above show what it will use once restarted.'')
            else (''Saved'', ''Stored on the Pi and in effect.'')]
      else [])"

definition save_button :: "string \<Rightarrow> settings_group \<Rightarrow> string \<times> bool \<times> string option" where
  "save_button save_label g =
     (if sg_sending g \<noteq> None then ''Saving'' @ ellipsis else save_label,
      group_dirty g \<and> sg_sending g = None,
      if group_dirty g then Some ''Unsaved changes'' else None)"

section \<open>Declared sensors\<close>

record sensor_decl =
  sd_sensor_id :: string
  sd_sensor_kind :: string
  sd_optional :: bool

text \<open>The API's side: what a GET carries, where a false \<open>optional\<close> is left out, and how a PUT is read. A part
  that is refused is reported with its text.\<close>

definition decl_json :: "sensor_decl \<Rightarrow> json" where
  "decl_json d =
     JObj ([(''sensor_id'', JStr (sd_sensor_id d)), (''sensor_kind'', JStr (sd_sensor_kind d))] @
       (if sd_optional d then [(''optional'', JBool True)] else []))"

definition parse_decl :: "string \<Rightarrow> sensor_decl option" where
  "parse_decl part =
     (case map trim (split_on CHR '':'' [] part) of
        [i, k] \<Rightarrow>
          if i = [] \<or> k \<notin> {''wifi'', ''sdr'', ''ble''} then None
          else Some \<lparr> sd_sensor_id = i, sd_sensor_kind = k, sd_optional = False \<rparr>
      | [i, k, q] \<Rightarrow>
          if i = [] \<or> k \<notin> {''wifi'', ''sdr'', ''ble''} \<or> q \<notin> {''optional'', ''required''} then None
          else Some \<lparr> sd_sensor_id = i, sd_sensor_kind = k, sd_optional = (q = ''optional'') \<rparr>
      | _ \<Rightarrow> None)"

definition add_decl :: "string \<Rightarrow> sensor_decl list \<times> string list \<Rightarrow> sensor_decl list \<times> string list" where
  "add_decl part acc =
     (let (decls, errs) = acc; p = trim part
      in if p = [] then acc
         else case parse_decl p of
             None \<Rightarrow> (decls, errs @ [p])
           | Some d \<Rightarrow>
               if sd_sensor_id d \<in> set (map sd_sensor_id decls) then (decls, errs @ [p]) else (decls @ [d], errs))"

definition parse_sensor_decls :: "string \<Rightarrow> sensor_decl list \<times> string list" where
  "parse_sensor_decls raw =
     (if trim raw = [] then ([], []) else fold add_decl (split_on CHR '','' [] raw) ([], []))"

definition plain_id :: "string \<Rightarrow> bool" where
  "plain_id s \<longleftrightarrow> s \<noteq> [] \<and> list_all (\<lambda>c. c \<noteq> CHR '','' \<and> c \<noteq> CHR '':'' \<and> \<not> is_space c) s"

section \<open>Laws\<close>

lemma map_of_spread: "map_of (spread old updates) k = (case map_of (rev updates) k of None \<Rightarrow> map_of old k | Some v \<Rightarrow> Some v)"
  by (induction updates arbitrary: old) (auto simp: spread_def update_conv' map_add_def split: option.split)

lemma map_of_rev_distinct:
  assumes "distinct (map fst xs)"
  shows "map_of (rev xs) = map_of xs"
proof
  fix k
  have "map_of (rev xs) k = Some v \<longleftrightarrow> map_of xs k = Some v" for v
    using assms by (simp add: map_of_eq_Some_iff rev_map [symmetric])
  then show "map_of (rev xs) k = map_of xs k" by (metis not_None_eq)
qed

text \<open>A draft has one entry a field, of fields that can be edited; what is sent is such a draft.\<close>

definition editable_draft :: "field_spec list \<Rightarrow> settings \<Rightarrow> (string \<times> string) list \<Rightarrow> bool" where
  "editable_draft specs data d \<longleftrightarrow>
     distinct (map fst d) \<and> list_all (\<lambda>(k, _). k \<in> set (map fs_key specs) \<and> \<not> is_locked (map_of data k)) d"

lemma editable_draft_update:
  assumes "editable_draft specs data d" "k \<in> set (map fs_key specs)" "\<not> is_locked (map_of data k)"
  shows "editable_draft specs data (AList.update k v d)"
proof -
  have "fst ` set (AList.update k v d) = insert k (fst ` set d)" by (simp add: dom_update)
  then have "k' = k \<or> k' \<in> fst ` set d" if "(k', v') \<in> set (AList.update k v d)" for k' v'
    using that by (metis fst_conv imageI insertE)
  then show ?thesis using assms by (fastforce simp: editable_draft_def distinct_update list_all_iff)
qed

lemma run_group_drafts:
  "let g = run_group specs data events
   in editable_draft specs data (sg_draft g) \<and> list_all (editable_draft specs data) (sg_sent g) \<and>
      (\<forall>u. sg_sending g = Some u \<longrightarrow> u \<in> set (sg_sent g))"
proof (induction events rule: rev_induct)
  case (snoc e events)
  then show ?case
    by (cases e) (auto simp: run_group_def Let_def editable_draft_update editable_draft_def [of _ _ "[]"] split: option.splits)
qed (simp add: run_group_def fresh_settings_def editable_draft_def Let_def)

text \<open>Whatever was clicked and typed, a save carries every setting at most once, and only settings the
  group has a field for and the operator may change: a value held in the environment or declared immutable
  is never sent.\<close>

theorem locked_settings_are_never_sent:
  "list_all (\<lambda>updates. distinct (map fst updates) \<and>
      list_all (\<lambda>(k, _). list_ex (\<lambda>f. fs_key f = k) specs \<and> \<not> is_locked (map_of data k)) updates)
     (sg_sent (run_group specs data events))"
  using run_group_drafts [of specs data events]
  by (fastforce simp: Let_def editable_draft_def list_all_iff list_ex_iff)

text \<open>An operator who types into a group while its save is on its way loses what was typed: when the save
  is stored the whole draft is dropped, so the field goes back to the value that was sent, or to the one
  stored or running before; the typed value is neither sent nor marked as unsaved.\<close>

theorem typing_during_a_save_is_lost:
  assumes "sg_sending (run_group specs data events) = Some updates"
  shows "let g = run_group specs data events;
             g' = run_group specs data (events @ [Type_Setting key v, Save_Stored restart])
         in sg_draft g' = [] \<and> sg_sent g' = sg_sent g \<and> snd (snd (save_button label g')) = None \<and>
            value_of num data g' key =
              nullish (or_else (map_of updates key) (map_of (sg_pending g) key)) (as_text num (map_of data key))"
proof -
  let ?g = "run_group specs data events"
  have "distinct (map fst updates)"
    using run_group_drafts [of specs data events] assms by (auto simp: Let_def list_all_iff editable_draft_def)
  then have "map_of (rev updates) key = map_of updates key" by (simp add: map_of_rev_distinct)
  moreover have "run_group specs data (events @ [Type_Setting key v, Save_Stored restart]) =
      group_step specs data (Save_Stored restart) (group_step specs data (Type_Setting key v) ?g)"
    by (simp add: run_group_def)
  ultimately show ?thesis
    using assms
    by (auto simp: Let_def value_of_def map_of_spread save_button_def group_dirty_def or_else_def split: option.split)
qed

definition timing_specs :: "field_spec list" where
  "timing_specs = [\<lparr> fs_key = ''fusion.track_ttl'', fs_label = ''Close a track after'', fs_kind = Text_Field, fs_hint = None \<rparr>]"

theorem typing_during_a_save_is_lost_witness:
  "let events = [Type_Setting ''fusion.track_ttl'' ''30s'', Submit_Group];
       g' = run_group timing_specs [] (events @ [Type_Setting ''fusion.track_ttl'' ''45s'', Save_Stored True])
   in sg_draft g' = [] \<and> value_of (\<lambda>_. []) [] g' ''fusion.track_ttl'' = ''30s''"
  using typing_during_a_save_is_lost
    [of timing_specs "[]" "[Type_Setting ''fusion.track_ttl'' ''30s'', Submit_Group]" "[(''fusion.track_ttl'', ''30s'')]"
        "''fusion.track_ttl''" "''45s''" True "''Save''" "\<lambda>_. []"]
  by (simp add: run_group_def fresh_settings_def timing_specs_def is_locked_def group_dirty_def Let_def)

section \<open>The declared sensors read back\<close>

lemma plain_id_parts:
  assumes "plain_id s"
  shows "CHR '','' \<notin> set s" "CHR '':'' \<notin> set s" "trim s = s" "s \<noteq> []"
proof -
  show "trim s = s" using assms by (intro trim_no_space) (auto simp: plain_id_def list_all_iff)
qed (use assms in \<open>auto simp: plain_id_def list_all_iff\<close>)

definition declarable :: "sensor_decl \<Rightarrow> bool" where
  "declarable d \<longleftrightarrow> plain_id (sd_sensor_id d) \<and> sd_sensor_kind d \<in> {''wifi'', ''sdr'', ''ble''}"

lemma decl_text:
  "sensor_decl_text (decl_json d) =
     join '':'' ([sd_sensor_id d, sd_sensor_kind d] @ (if sd_optional d then [''optional''] else []))"
  by (simp add: sensor_decl_text_def decl_json_def)

lemma trim_blank: "trim s = [] \<Longrightarrow> c \<in> set s \<Longrightarrow> is_space c"
proof -
  assume "trim s = []" and c: "c \<in> set s"
  then have all: "\<forall>x \<in> set (dropWhile is_space s). is_space x" by (simp add: trim_def dropWhile_eq_Nil_conv)
  have "dropWhile is_space s = []"
  proof (rule ccontr)
    assume "dropWhile is_space s \<noteq> []"
    then show False using all hd_dropWhile [of is_space s] hd_in_set by blast
  qed
  then show "is_space c" using c by (simp add: dropWhile_eq_Nil_conv)
qed

lemma kind_plain:
  assumes "k = ''wifi'' \<or> k = ''sdr'' \<or> k = ''ble''"
  shows "list_all (\<lambda>c. \<not> is_space c \<and> c \<noteq> CHR '','') k" "CHR '':'' \<notin> set k" "trim k = k"
  using assms by (elim disjE; simp add: is_space_def trim_def)+

lemma decl_text_plain:
  assumes "declarable d"
  shows "CHR '','' \<notin> set (sensor_decl_text (decl_json d))" "trim (sensor_decl_text (decl_json d)) = sensor_decl_text (decl_json d)"
    "sensor_decl_text (decl_json d) \<noteq> []"
proof -
  have spaceless: "list_all (\<lambda>c. \<not> is_space c \<and> c \<noteq> CHR '','') (sensor_decl_text (decl_json d))"
  proof -
    have "list_all (\<lambda>c. \<not> is_space c \<and> c \<noteq> CHR '','') (sd_sensor_id d)"
      using assms by (simp add: declarable_def plain_id_def list_all_iff)
    moreover have "list_all (\<lambda>c. \<not> is_space c \<and> c \<noteq> CHR '','') (sd_sensor_kind d)"
      using assms kind_plain(1) by (simp add: declarable_def)
    moreover have "list_all (\<lambda>c. \<not> is_space c \<and> c \<noteq> CHR '','') '':optional''" by (simp add: is_space_def)
    ultimately show ?thesis by (simp add: decl_text is_space_def)
  qed
  then show "trim (sensor_decl_text (decl_json d)) = sensor_decl_text (decl_json d)"
    by (intro trim_no_space) (auto simp: list_all_iff)
  show "CHR '','' \<notin> set (sensor_decl_text (decl_json d))" using spaceless by (auto simp: list_all_iff)
  show "sensor_decl_text (decl_json d) \<noteq> []" by (simp add: decl_text)
qed

lemma parse_decl_text:
  assumes "declarable d"
  shows "parse_decl (sensor_decl_text (decl_json d)) = Some d"
proof -
  have parts: "split_on CHR '':'' [] (sensor_decl_text (decl_json d)) =
      [sd_sensor_id d, sd_sensor_kind d] @ (if sd_optional d then [''optional''] else [])"
    unfolding decl_text
    by (intro split_on_join) (use assms plain_id_parts(2) kind_plain(2) in \<open>simp_all add: declarable_def\<close>)
  have kind: "trim (sd_sensor_kind d) = sd_sensor_kind d" "trim ''optional'' = ''optional''"
    using assms kind_plain(3) by (simp_all add: declarable_def trim_def is_space_def)
  show ?thesis
    using assms plain_id_parts(3,4) [of "sd_sensor_id d"] unfolding parse_decl_def parts
    by (auto simp: declarable_def kind)
qed

lemma add_decl_texts:
  assumes "list_all declarable ds" "distinct (map sd_sensor_id (before @ ds))"
  shows "fold add_decl (map (\<lambda>d. sensor_decl_text (decl_json d)) ds) (before, []) = (before @ ds, [])"
  using assms
proof (induction ds arbitrary: before)
  case (Cons d ds)
  have "add_decl (sensor_decl_text (decl_json d)) (before, []) = (before @ [d], [])"
    using Cons.prems decl_text_plain(2,3) [of d] parse_decl_text [of d] by (auto simp: add_decl_def Let_def)
  then show ?case using Cons.IH [of "before @ [d]"] Cons.prems by simp
qed simp

text \<open>C30: The field of the declared sensors shows exactly what can be sent back: the list the API answers with
  is printed as a text the API reads as the same list, optional sensors included, without a complaint.\<close>

theorem declared_sensors_read_back:
  assumes "sv_value setting = JArr (map decl_json ds)" "list_all declarable ds" "distinct (map sd_sensor_id ds)"
  shows "parse_sensor_decls (as_text num (Some setting)) = (ds, [])"
proof (cases "ds = []")
  case True
  then show ?thesis using assms(1) by (simp add: as_text_def parse_sensor_decls_def trim_def)
next
  case False
  let ?texts = "map (\<lambda>d. sensor_decl_text (decl_json d)) ds"
  have "filter (\<lambda>t. t \<noteq> []) ?texts = ?texts"
    using assms(2) decl_text_plain(3) by (auto simp: filter_id_conv list_all_iff)
  then have shown: "as_text num (Some setting) = join '','' ?texts"
    using assms(1) by (simp add: as_text_def comp_def)
  have split: "split_on CHR '','' [] (join '','' ?texts) = ?texts"
    using False assms(2) decl_text_plain(1) by (intro split_on_join) (auto simp: list_all_iff)
  have "trim (join '','' ?texts) \<noteq> []"
  proof
    assume blank: "trim (join '','' ?texts) = []"
    have "\<exists>c \<in> set (join '','' ?texts). \<not> is_space c"
    proof -
      obtain d rest where ds: "ds = d # rest" using False by (cases ds) auto
      have "\<not> is_space (CHR '':'')" "CHR '':'' \<in> set (sensor_decl_text (decl_json d))"
        by (auto simp: is_space_def decl_text)
      then show ?thesis by (cases rest) (auto simp: ds)
    qed
    with blank show False using trim_blank by blast
  qed
  then show ?thesis
    unfolding shown parse_sensor_decls_def split using add_decl_texts [OF assms(2), of "[]"] assms(3) by simp
qed

definition reference_build :: "sensor_decl list" where
  "reference_build =
     [\<lparr> sd_sensor_id = ''wifi-0'', sd_sensor_kind = ''wifi'', sd_optional = False \<rparr>,
      \<lparr> sd_sensor_id = ''sdr-0'', sd_sensor_kind = ''sdr'', sd_optional = True \<rparr>]"

theorem declared_sensors_read_back_witness:
  "parse_sensor_decls (as_text (\<lambda>_. []) (Some \<lparr> sv_value = JArr (map decl_json reference_build), sv_source = From_Db,
      sv_mutable = True, sv_doc = None \<rparr>)) = (reference_build, [])"
  by (rule declared_sensors_read_back)
     (simp_all add: reference_build_def declarable_def plain_id_def is_space_def)

end
