(* ===== verification/Calibration.thy ===== *)
theory Calibration
  imports SettingFields Units
begin

text \<open>
  \<open>routes/settings/calibration.tsx\<close>: the receiver's position, the fields of the timing and sensor cards, the
  channel plan as it is shown and copied, and the editor of the fusion weights.
\<close>

section \<open>The receiver's position\<close>

text \<open>
  The form: what was typed over the stored position, the error it shows, and every text it sent. The value
  shown is the draft, or the stored position, or nothing.
\<close>

record position_form =
  pf_draft :: "(string \<times> string) option"
  pf_error :: "string option"
  pf_sending :: bool
  pf_sent :: "string list"

definition shown_lat :: "(real \<Rightarrow> string) \<Rightarrow> latlon option \<Rightarrow> position_form \<Rightarrow> string" where
  "shown_lat num current f =
     nullish (map_option fst (pf_draft f)) (case current of None \<Rightarrow> [] | Some c \<Rightarrow> num (ll_lat c))"

definition shown_lon :: "(real \<Rightarrow> string) \<Rightarrow> latlon option \<Rightarrow> position_form \<Rightarrow> string" where
  "shown_lon num current f =
     nullish (map_option snd (pf_draft f)) (case current of None \<Rightarrow> [] | Some c \<Rightarrow> num (ll_lon c))"

datatype position_check = Save_Text string | Refuse string

definition check_position :: "(real \<Rightarrow> string) \<Rightarrow> string \<Rightarrow> string \<Rightarrow> position_check" where
  "check_position num lat lon =
     (let lat_blank = trim lat = []; lon_blank = trim lon = []
      in if lat_blank \<and> lon_blank then Save_Text []
         else if lat_blank \<or> lon_blank
         then Refuse ((if lat_blank then ''Latitude'' else ''Longitude'') @
           '' is blank. Fill in both fields, or clear both to unset the position.'')
         else case (js_number lat, js_number lon) of
             (Some a, Some b) \<Rightarrow> Save_Text (num a @ '','' @ num b)
           | _ \<Rightarrow> Refuse ''Both fields must be decimal degrees.'')"

datatype position_event =
    Type_Lat string | Type_Lon string | Located real real | Reset_Position | Submit_Position
  | Position_Saved | Position_Failed

text \<open>The fields and buttons of a position held in the environment are disabled; so is Save while there is
  nothing to write or a save is on its way.\<close>

definition submit_position :: "(real \<Rightarrow> string) \<Rightarrow> latlon option \<Rightarrow> position_form \<Rightarrow> position_form" where
  "submit_position num current f =
     (if pf_sending f \<or> pf_draft f = None then f
      else case check_position num (shown_lat num current f) (shown_lon num current f) of
          Refuse m \<Rightarrow> f\<lparr> pf_error := Some m \<rparr>
        | Save_Text t \<Rightarrow> f\<lparr> pf_error := None, pf_sending := True, pf_sent := pf_sent f @ [t] \<rparr>)"

fun position_step ::
  "(real \<Rightarrow> string) \<Rightarrow> latlon option \<Rightarrow> bool \<Rightarrow> position_event \<Rightarrow> position_form \<Rightarrow> position_form" where
  "position_step num current locked (Type_Lat v) f =
     (if locked then f else f\<lparr> pf_draft := Some (v, shown_lon num current f) \<rparr>)"
| "position_step num current locked (Type_Lon v) f =
     (if locked then f else f\<lparr> pf_draft := Some (shown_lat num current f, v) \<rparr>)"
| "position_step num current locked (Located a b) f =
     (if locked then f else f\<lparr> pf_draft := Some (num a, num b) \<rparr>)"
| "position_step num current locked Reset_Position f = f\<lparr> pf_draft := None, pf_error := None \<rparr>"
| "position_step num current locked Submit_Position f = (if locked then f else submit_position num current f)"
| "position_step num current locked Position_Saved f =
     (if pf_sending f then f\<lparr> pf_sending := False, pf_draft := None \<rparr> else f)"
| "position_step num current locked Position_Failed f = f\<lparr> pf_sending := False \<rparr>"

definition run_position ::
  "(real \<Rightarrow> string) \<Rightarrow> latlon option \<Rightarrow> bool \<Rightarrow> position_event list \<Rightarrow> position_form" where
  "run_position num current locked events =
     fold (position_step num current locked) events \<lparr> pf_draft = None, pf_error = None, pf_sending = False, pf_sent = [] \<rparr>"

text \<open>The API's reading of the stored text: nothing, a position in range, or a refusal. The names of infinity
  and of no number, which no client can send, are left out.\<close>

definition parse_receiver_position :: "string \<Rightarrow> latlon option option" where
  "parse_receiver_position raw =
     (let t = trim raw
      in if t = [] then Some None
         else case split_on CHR '','' [] t of
             [a, b] \<Rightarrow>
               (case (decimal_number (trim a), decimal_number (trim b)) of
                  (Some lat, Some lon) \<Rightarrow>
                    if lat < - 90 \<or> 90 < lat \<or> lon < - 180 \<or> 180 < lon then None
                    else Some (Some \<lparr> ll_lat = lat, ll_lon = lon \<rparr>)
                | _ \<Rightarrow> None)
           | _ \<Rightarrow> None)"

section \<open>The cards\<close>

definition spec_field :: "string \<Rightarrow> string \<Rightarrow> field_kind \<Rightarrow> string \<Rightarrow> field_spec" where
  "spec_field key label kind hint =
     \<lparr> fs_key = key, fs_label = label, fs_kind = kind, fs_hint = (if hint = [] then None else Some hint) \<rparr>"

definition expected_sensors_fields :: "field_spec list" where
  "expected_sensors_fields =
     [spec_field ''sensors.expected'' ''Declared sensors'' Text_Field
        ''Reference build: wifi-0:wifi,wifi-1:wifi:optional,sdr-0:sdr:optional'']"

definition detection_timing_fields :: "field_spec list" where
  "detection_timing_fields =
     [spec_field ''sensors.stale_after'' ''Sensor is unhealthy after'' Text_Field [],
      spec_field ''fusion.track_ttl'' ''Close a track after'' Text_Field [],
      spec_field ''fusion.resume_within'' ''Resume a closed flight within'' Text_Field
        ''Heard again airborne inside this window, an aircraft rejoins the track it left. 0 turns it off.'',
      spec_field ''fusion.max_history'' ''Position history per track'' Number_Field
        ''Points kept per track. The trail on the map and the history table both read this.'',
      spec_field ''spectrum.sweep_timeout'' ''Abandon a sweep after'' Text_Field
        ''A wedged USB device must not hold the radio away from ADS-B for ever.'',
      spec_field ''capture.analyze_timeout'' ''Abandon a capture analysis after'' Text_Field
        ''Raise it for large captures; bounded so a wedged parse cannot hold a request open for ever.'']"

section \<open>The channel plan\<close>

record channel_plan_entry =
  cp_channel :: real
  cp_freq_mhz :: real
  cp_weight :: real

type_synonym channel_plan = "channel_plan_entry list"

definition weight_text :: "(real \<Rightarrow> string) \<Rightarrow> real \<Rightarrow> string" where
  "weight_text num w = (if of_int \<lfloor>w\<rfloor> = w then to_fixed 1 w else num w)"

definition plan_row :: "(real \<Rightarrow> string) \<Rightarrow> channel_plan_entry \<Rightarrow> string" where
  "plan_row num c =
     ''  - { channel: '' @ num (cp_channel c) @ '', freq_mhz: '' @ num (cp_freq_mhz c) @ '', weight: '' @
     weight_text num (cp_weight c) @ '' }''"

definition channel_plan_yaml :: "(real \<Rightarrow> string) \<Rightarrow> channel_plan \<Rightarrow> string" where
  "channel_plan_yaml num plan = join [CHR 0x0A] ([''channels:''] @ map (plan_row num) plan @ [[]])"

record loaded_plan =
  lp_file :: "string option"
  lp_widened :: bool
  lp_widened_for_peer :: bool

definition loaded_plan_of :: "sensor_health \<Rightarrow> loaded_plan" where
  "loaded_plan_of s =
     (let detail = nullish (sh_detail s) []
      in \<lparr> lp_file = (case map_of detail ''plan'' of Some (JStr f) \<Rightarrow> Some f | _ \<Rightarrow> None),
           lp_widened = (map_of detail ''plan_fallback'' = Some (JBool True)),
           lp_widened_for_peer = (map_of detail ''plan_widened_for_peer'' = Some (JBool True)) \<rparr>)"

definition loaded_plan_row :: "sensor_health \<Rightarrow> string \<times> string \<times> string option" where
  "loaded_plan_row s =
     (let p = loaded_plan_of s
      in (sh_sensor_id s, nullish (lp_file p) ''not reported on its heartbeat'',
          if lp_widened p then Some (''Widened to the full plan '' @ em_dash @ '' it found itself alone.'')
          else if lp_widened_for_peer p then Some ''Widened while its peer is busy.'' else None))"

definition loaded_plans :: "sensor_health list option \<Rightarrow> (string \<times> string \<times> string option) list" where
  "loaded_plans sensors = map loaded_plan_row (filter (\<lambda>s. sh_sensor_kind s = Wifi) (nullish sensors []))"

definition total_weight :: "channel_plan \<Rightarrow> real" where
  "total_weight plan = fold (\<lambda>c total. total + cp_weight c) plan 0"

definition dwell_share :: "channel_plan \<Rightarrow> channel_plan_entry \<Rightarrow> string" where
  "dwell_share plan c =
     (if 0 < total_weight plan then to_fixed 1 (cp_weight c / total_weight plan * 100) @ ''%'' else em_dash)"

definition plan_table :: "(real \<Rightarrow> string) \<Rightarrow> channel_plan \<Rightarrow> (string \<times> string \<times> string \<times> string) list" where
  "plan_table num plan =
     map (\<lambda>c. (num (cp_channel c), num (cp_freq_mhz c) @ '' MHz'', num (cp_weight c), dwell_share plan c)) plan"

definition plan_footer :: "channel_plan \<Rightarrow> string" where
  "plan_footer plan =
     digits_of_nat (length plan) @ '' channels '' @ [CHR 0xC2, CHR 0xB7] @ '' total weight '' @ to_fixed 2 (total_weight plan)"

section \<open>Fusion weights\<close>

text \<open>The weights by class; a weight that is no number is \<^term>\<open>None\<close>.\<close>

type_synonym fusion_weights = "(detection_class \<times> real option) list"

definition detection_class_order :: "detection_class list" where
  "detection_class_order = [ClassA, ClassB, ClassC, ClassD, ClassE, ClassF, ClassG, ClassH]"

record weights_editor =
  we_draft :: "fusion_weights option"
  we_errors :: "(detection_class \<times> string) list"
  we_sent :: "fusion_weights list"

datatype weights_event = Type_Weight detection_class string | Submit_Weights | Reset_Weights

text \<open>What the schema says of each weight; the message for no number is the library's.\<close>

definition weight_issue :: "string \<Rightarrow> real option \<Rightarrow> string option" where
  "weight_issue nan_message w =
     (case w of None \<Rightarrow> Some nan_message
      | Some x \<Rightarrow> if x < 0 \<or> 1 < x then Some ''Weight must be between 0 and 1'' else None)"

definition weight_issues :: "string \<Rightarrow> fusion_weights \<Rightarrow> (detection_class \<times> string) list" where
  "weight_issues nan_message weights =
     List.map_filter (\<lambda>(c, w). map_option (Pair c) (weight_issue nan_message w)) weights"

definition shown_weights :: "fusion_weights option \<Rightarrow> weights_editor \<Rightarrow> fusion_weights option" where
  "shown_weights data e = or_else (we_draft e) data"

text \<open>A change is applied to the draft there is; the stored weights are only what is shown without one.\<close>

fun weights_step :: "string \<Rightarrow> fusion_weights option \<Rightarrow> weights_event \<Rightarrow> weights_editor \<Rightarrow> weights_editor" where
  "weights_step nan_message data (Type_Weight c v) e =
     e\<lparr> we_draft := map_option (AList.update c (js_number v)) (we_draft e) \<rparr>"
| "weights_step nan_message data Reset_Weights e =
     e\<lparr> we_draft := or_else data (we_draft e), we_errors := [] \<rparr>"
| "weights_step nan_message data Submit_Weights e =
     (case shown_weights data e of
        None \<Rightarrow> e
      | Some w \<Rightarrow>
          let issues = weight_issues nan_message w
          in if issues \<noteq> [] then e\<lparr> we_errors := issues \<rparr>
             else e\<lparr> we_errors := [], we_sent := we_sent e @ [w] \<rparr>)"

definition run_weights :: "string \<Rightarrow> fusion_weights option \<Rightarrow> weights_event list \<Rightarrow> weights_editor" where
  "run_weights nan_message data events =
     fold (weights_step nan_message data) events \<lparr> we_draft = None, we_errors = [], we_sent = [] \<rparr>"

text \<open>The worked examples below the fields: \<^term>\<open>None\<close> when a weight in it is no number.\<close>

definition example_of :: "detection_class list \<Rightarrow> fusion_weights \<Rightarrow> real option" where
  "example_of classes weights =
     (let ws = List.map_filter (map_of weights) classes
      in if None \<in> set ws then None else Some (noisy_or (map the ws)))"

definition present_classes :: "fusion_weights \<Rightarrow> detection_class list" where
  "present_classes weights = filter (\<lambda>c. map_of weights c \<noteq> None) detection_class_order"

definition weight_rows :: "weights_editor \<Rightarrow> fusion_weights \<Rightarrow> (string \<times> real option \<times> string \<times> string option) list" where
  "weight_rows e weights =
     map (\<lambda>c. let info = detection_classes c; why = dci_justification info
       in (dci_label info, nullish (map_of weights c) (Some 0),
           take 64 why @ (if 64 < length why then ellipsis else []), map_of (we_errors e) c))
       (present_classes weights)"

section \<open>Numbers in texts\<close>

definition numeral_text :: "string \<Rightarrow> real \<Rightarrow> bool" where
  "numeral_text s x \<longleftrightarrow> s \<noteq> [] \<and> list_all number_char s \<and> decimal_number s = Some x"

lemma number_char_facts:
  assumes "number_char c"
  shows "\<not> is_space c" "c \<noteq> CHR '',''" "c \<noteq> CHR '':''" "c \<noteq> CHR 0x0A" "c \<notin> set ''xXoObB''"
  using assms by (auto simp: number_char_def is_digit_def digit_value_def is_space_def Let_def)

lemma numeral_text_plain:
  assumes "numeral_text s x"
  shows "CHR '','' \<notin> set s" "CHR '':'' \<notin> set s" "CHR 0x0A \<notin> set s" "list_all (\<lambda>c. \<not> is_space c) s" "s \<noteq> []"
proof -
  have n: "number_char c" if "c \<in> set s" for c using assms that by (simp add: numeral_text_def list_all_iff)
  show "CHR '','' \<notin> set s" "CHR '':'' \<notin> set s" "CHR 0x0A \<notin> set s"
    using n number_char_facts(2-4) by metis+
  show "list_all (\<lambda>c. \<not> is_space c) s" using n number_char_facts(1) by (simp add: list_all_iff)
  show "s \<noteq> []" using assms by (simp add: numeral_text_def)
qed

lemma printed_numeral:
  assumes "prints num x"
  shows "numeral_text (num x) x"
proof -
  let ?s = "num x"
  have chars: "list_all number_char ?s" and read: "json_number ?s = Some x" using assms by (simp_all add: prints_def)
  have number: "js_number ?s = Some x" using read by (auto simp: json_number_def Let_def split: if_splits)
  have ne: "?s \<noteq> []" using read by (auto simp: json_number_def Let_def)
  have "trim ?s = ?s" using chars number_char_facts(1) by (intro trim_no_space) (auto simp: list_all_iff)
  moreover have "take 2 ?s \<noteq> [d, c]" if "c \<in> set ''xXoObB''" for c d
  proof
    assume "take 2 ?s = [d, c]"
    then have "c \<in> set ?s" by (metis in_set_takeD list.set_intros)
    then show False using chars that number_char_facts(5) by (auto simp only: list_all_iff)
  qed
  ultimately have "decimal_number ?s = Some x"
    using number ne by (simp add: js_number_def)
  then show ?thesis using chars ne by (simp add: numeral_text_def)
qed

lemma whole_weight_numeral:
  assumes "of_int \<lfloor>w\<rfloor> = w"
  shows "numeral_text (to_fixed 1 w) w"
proof -
  obtain n f where t: "to_fixed 1 w = (if w < 0 then ''-'' else '''') @ digits_of_nat n @ (if (1::nat) = 0 then [] else CHR ''.'' # f)"
    "list_all is_digit f" "length f = 1" "real n + digits_value f / 10 ^ 1 = of_int (js_round (\<bar>w\<bar> * 10 ^ 1)) / 10 ^ 1"
    by (rule to_fixed_digits)
  have "\<bar>w\<bar> * 10 ^ 1 = of_int (\<bar>\<lfloor>w\<rfloor>\<bar> * 10)" using assms by (metis of_int_abs of_int_mult of_int_numeral power_one_right)
  then have "js_round (\<bar>w\<bar> * 10 ^ 1) = \<bar>\<lfloor>w\<rfloor>\<bar> * 10" unfolding js_round_def by linarith
  then have "of_int (js_round (\<bar>w\<bar> * 10 ^ 1)) = 10 * \<bar>w\<bar>" using assms by (metis mult.commute of_int_abs of_int_mult of_int_numeral)
  then have v: "real n + digits_value f / 10 = \<bar>w\<bar>"
    using t(4) by simp
  have "decimal_number (to_fixed 1 w) = Some ((if w < 0 then - 1 else 1) * \<bar>w\<bar>)"
    using t(1,3) v decimal_number_digits(1) [OF digits_of_nat_ne [of n] digits_of_nat_digits [of n] t(2), of "w < 0"]
    by (simp add: digits_of_nat_value)
  moreover have "list_all number_char (to_fixed 1 w)"
    using t(1,2) digits_of_nat_digits [of n] by (auto simp: list_all_iff number_char_def)
  ultimately show ?thesis using t(1) by (auto simp: numeral_text_def abs_if)
qed

lemma trim_padded:
  assumes "list_all is_space p" "list_all is_space q" "list_all (\<lambda>c. \<not> is_space c) s" "s \<noteq> []"
  shows "trim (p @ s @ q) = s"
proof -
  have drop: "dropWhile is_space (p @ s @ q) = s @ q" if "list_all is_space p" "list_all (\<lambda>c. \<not> is_space c) s" "s \<noteq> []"
    for p s q
    using that by (cases s) (simp_all add: list_all_iff dropWhile_append2)
  have "dropWhile is_space (rev q @ rev s @ []) = rev s @ []"
    using assms by (intro drop) (simp_all add: list_all_iff)
  then show ?thesis using drop [OF assms(1,3,4)] by (simp add: trim_def)
qed

section \<open>What is stored is what was typed\<close>

text \<open>C33: A position that is saved is read back by the API as the two numbers that were typed; it is unset only
  when both fields were blank; and a form with one blank field is refused, never saved with a zero.\<close>

theorem saved_position_is_the_one_typed:
  assumes "js_number lat = Some a" "js_number lon = Some b" "prints num a" "prints num b"
  shows "case check_position num lat lon of
      Refuse _ \<Rightarrow> (trim lat = []) \<noteq> (trim lon = [])
    | Save_Text t \<Rightarrow> (trim lat = []) = (trim lon = []) \<and>
        parse_receiver_position t =
          (if trim lat = [] then Some None
           else if a < - 90 \<or> 90 < a \<or> b < - 180 \<or> 180 < b then None
           else Some (Some \<lparr> ll_lat = a, ll_lon = b \<rparr>))"
proof -
  note na = printed_numeral [OF assms(3)] and nb = printed_numeral [OF assms(4)]
  note pa = numeral_text_plain [OF na] and pb = numeral_text_plain [OF nb]
  have comma: "\<not> is_space (CHR '','')" by (simp add: is_space_def)
  have "split_on CHR '','' [] (num a @ '','' @ num b) = [num a, num b]"
    using split_on_join [of "[num a, num b]" "CHR '',''"] pa(1) pb(1) by simp
  moreover have "trim (num a @ '','' @ num b) = num a @ '','' @ num b"
    using pa(4) pb(4) comma by (intro trim_no_space) simp
  moreover have "trim (num a) = num a" "trim (num b) = num b" using pa(4) pb(4) by (simp_all add: trim_no_space)
  ultimately have "parse_receiver_position (num a @ '','' @ num b) =
      (if a < - 90 \<or> 90 < a \<or> b < - 180 \<or> 180 < b then None else Some (Some \<lparr> ll_lat = a, ll_lon = b \<rparr>))"
    using na nb by (simp add: parse_receiver_position_def numeral_text_def)
  moreover have "parse_receiver_position [] = Some None" by (simp add: parse_receiver_position_def trim_def)
  ultimately show ?thesis using assms(1,2) by (simp add: check_position_def Let_def)
qed

lemma position_sends_checked_texts:
  "list_all (\<lambda>t. \<exists>lat lon. check_position num lat lon = Save_Text t) (pf_sent (run_position num current locked events)) \<and>
   (locked \<longrightarrow> pf_sent (run_position num current locked events) = [])"
proof (induction events rule: rev_induct)
  case (snoc e events)
  then show ?case
    by (cases e) (auto simp: run_position_def submit_position_def split: position_check.splits)
qed (simp add: run_position_def)

theorem saved_position_is_the_one_typed_witness:
  "case check_position (\<lambda>x. string_of_int \<lfloor>x\<rfloor>) ''51'' ''-2'' of
      Refuse _ \<Rightarrow> False | Save_Text t \<Rightarrow> parse_receiver_position t = Some (Some \<lparr> ll_lat = 51, ll_lon = - 2 \<rparr>)"
proof -
  have "prints (\<lambda>x. string_of_int \<lfloor>x\<rfloor>) (of_int i)" for i by (rule prints_whole) simp
  from this [of 51] this [of "- 2"]
  have "prints (\<lambda>x. string_of_int \<lfloor>x\<rfloor>) 51" "prints (\<lambda>x. string_of_int \<lfloor>x\<rfloor>) (- 2)" by simp_all
  moreover have "js_number ''51'' = Some 51" "js_number ''-2'' = Some (- 2)" by code_simp+
  moreover have "trim ''51'' = ''51''" "trim ''-2'' = ''-2''" by code_simp+
  ultimately show ?thesis
    using saved_position_is_the_one_typed [of "''51''" 51 "''-2''" "- 2" "\<lambda>x. string_of_int \<lfloor>x\<rfloor>"]
    by (auto split: position_check.splits)
qed

section \<open>The plan that is copied\<close>

text \<open>A reader of the files' shape: flow mappings, one a line, under \<open>channels:\<close>.\<close>

definition read_flow_member :: "string \<Rightarrow> (string \<times> real) option" where
  "read_flow_member s =
     (case split_on CHR '':'' [] s of [k, v] \<Rightarrow> map_option (Pair (trim k)) (decimal_number (trim v)) | _ \<Rightarrow> None)"

definition read_flow_row :: "string \<Rightarrow> channel_plan_entry option" where
  "read_flow_row line =
     (let t = trim line
      in if take 3 t \<noteq> ''- {'' \<or> last t \<noteq> CHR ''}'' then None
         else Option.bind (those (map read_flow_member (split_on CHR '','' [] (butlast (drop 3 t)))))
           (\<lambda>ms. case (map_of ms ''channel'', map_of ms ''freq_mhz'', map_of ms ''weight'') of
              (Some c, Some f, Some w) \<Rightarrow> Some \<lparr> cp_channel = c, cp_freq_mhz = f, cp_weight = w \<rparr>
            | _ \<Rightarrow> None))"

definition read_plan :: "string \<Rightarrow> channel_plan option" where
  "read_plan txt =
     (case split_on (CHR 0x0A) [] txt of
        header # rows \<Rightarrow>
          if header = ''channels:'' then those (map read_flow_row (filter (\<lambda>l. trim l \<noteq> []) rows)) else None
      | [] \<Rightarrow> None)"

lemma read_member:
  assumes "numeral_text v x" "list_all is_space q" "trim (CHR '' '' # k) = k" "CHR '':'' \<notin> set k" "CHR '':'' \<notin> set q"
  shows "read_flow_member (CHR '' '' # k @ '': '' @ v @ q) = Some (k, x)"
proof -
  note v = numeral_text_plain [OF assms(1)]
  have "split_on CHR '':'' [] (join '':'' [CHR '' '' # k, CHR '' '' # v @ q]) = [CHR '' '' # k, CHR '' '' # v @ q]"
    using v(2) assms(4,5) by (intro split_on_join) simp_all
  moreover have "trim (CHR '' '' # v @ q) = v"
    using trim_padded [of "'' ''" q v] v(4,5) assms(2) by (simp add: is_space_def)
  ultimately show ?thesis using assms(1,3) by (simp add: read_flow_member_def numeral_text_def)
qed

lemma weight_numeral: "prints num w \<Longrightarrow> numeral_text (weight_text num w) w"
  using whole_weight_numeral printed_numeral by (simp add: weight_text_def)

lemma read_plan_row:
  assumes "prints num (cp_channel c)" "prints num (cp_freq_mhz c)" "prints num (cp_weight c)"
  shows "read_flow_row (plan_row num c) = Some c" "CHR 0x0A \<notin> set (plan_row num c)" "trim (plan_row num c) \<noteq> []"
proof -
  note n = printed_numeral [OF assms(1)] printed_numeral [OF assms(2)] weight_numeral [OF assms(3)]
  note pa = numeral_text_plain [OF n(1)] and pb = numeral_text_plain [OF n(2)] and pc = numeral_text_plain [OF n(3)]
  let ?ms = "['' channel: '' @ num (cp_channel c), '' freq_mhz: '' @ num (cp_freq_mhz c),
      '' weight: '' @ weight_text num (cp_weight c) @ '' '']"
  have row: "plan_row num c = ''  '' @ ''- {'' @ join '','' ?ms @ ''}''" by (simp add: plan_row_def)
  have "trim (plan_row num c) = ''- {'' @ join '','' ?ms @ ''}''"
    unfolding row trim_def by (simp add: is_space_def)
  moreover have "split_on CHR '','' [] (join '','' ?ms) = ?ms"
    using pa(1) pb(1) pc(1) by (intro split_on_join) simp_all
  moreover have "read_flow_member ('' channel: '' @ num (cp_channel c)) = Some (''channel'', cp_channel c)"
    "read_flow_member ('' freq_mhz: '' @ num (cp_freq_mhz c)) = Some (''freq_mhz'', cp_freq_mhz c)"
    "read_flow_member ('' weight: '' @ weight_text num (cp_weight c) @ '' '') = Some (''weight'', cp_weight c)"
    using read_member [OF n(1), of "[]" "''channel''"] read_member [OF n(2), of "[]" "''freq_mhz''"]
      read_member [OF n(3), of "'' ''" "''weight''"]
    by (simp_all add: trim_def is_space_def)
  ultimately show "read_flow_row (plan_row num c) = Some c"
    by (simp add: read_flow_row_def butlast_append del: join.simps)
  show "CHR 0x0A \<notin> set (plan_row num c)" using pa(3) pb(3) pc(3) by (simp add: plan_row_def)
  show "trim (plan_row num c) \<noteq> []" unfolding \<open>trim (plan_row num c) = _\<close> by simp
qed

text \<open>The YAML that is copied is the plan on screen: a reader of the receivers' files gets back every
  channel with its frequency and its weight, in order, whole weights (written with one decimal) included.\<close>

theorem copied_plan_reads_back:
  assumes "list_all (\<lambda>c. prints num (cp_channel c) \<and> prints num (cp_freq_mhz c) \<and> prints num (cp_weight c)) plan"
  shows "read_plan (channel_plan_yaml num plan) = Some plan"
proof -
  have rows: "read_flow_row (plan_row num c) = Some c \<and> CHR 0x0A \<notin> set (plan_row num c) \<and> trim (plan_row num c) \<noteq> []"
    if "c \<in> set plan" for c
    using assms that read_plan_row by (auto simp: list_all_iff)
  then have split: "split_on (CHR 0x0A) [] (channel_plan_yaml num plan) = ''channels:'' # map (plan_row num) plan @ [[]]"
    unfolding channel_plan_yaml_def by (subst split_on_join) auto
  have "filter (\<lambda>l. trim l \<noteq> []) (map (plan_row num) plan @ [[]]) = map (plan_row num) plan"
    using rows by (simp add: filter_id_conv trim_def [of "[]"])
  moreover have "those (map read_flow_row (map (plan_row num) p)) = Some p" if "set p \<subseteq> set plan" for p
    using that rows by (induction p) auto
  ultimately show ?thesis unfolding read_plan_def split by simp
qed

theorem copied_plan_reads_back_witness:
  "read_plan (channel_plan_yaml (\<lambda>x. string_of_int \<lfloor>x\<rfloor>)
     [\<lparr> cp_channel = 6, cp_freq_mhz = 2437, cp_weight = 10 \<rparr>, \<lparr> cp_channel = 1, cp_freq_mhz = 2412, cp_weight = 1 \<rparr>]) =
   Some [\<lparr> cp_channel = 6, cp_freq_mhz = 2437, cp_weight = 10 \<rparr>, \<lparr> cp_channel = 1, cp_freq_mhz = 2412, cp_weight = 1 \<rparr>]"
proof (rule copied_plan_reads_back)
  have "prints (\<lambda>x. string_of_int \<lfloor>x\<rfloor>) (of_int i)" for i by (rule prints_whole) simp
  from this [of 6] this [of 2437] this [of 10] this [of 1] this [of 2412]
  show "list_all (\<lambda>c. prints (\<lambda>x. string_of_int \<lfloor>x\<rfloor>) (cp_channel c) \<and> prints (\<lambda>x. string_of_int \<lfloor>x\<rfloor>) (cp_freq_mhz c) \<and>
      prints (\<lambda>x. string_of_int \<lfloor>x\<rfloor>) (cp_weight c))
     [\<lparr> cp_channel = 6, cp_freq_mhz = 2437, cp_weight = 10 \<rparr>, \<lparr> cp_channel = 1, cp_freq_mhz = 2412, cp_weight = 1 \<rparr>]"
    by simp
qed

text \<open>The shares of the dwell time sum up to the whole.\<close>

lemma total_weight_sum: "total_weight plan = (\<Sum>c \<leftarrow> plan. cp_weight c)"
proof -
  have "fold (\<lambda>c total. total + cp_weight c) p t = t + (\<Sum>c \<leftarrow> p. cp_weight c)" for p :: channel_plan and t
    by (induction p arbitrary: t) (simp_all add: add.assoc)
  then show ?thesis by (simp add: total_weight_def)
qed

lemma shares_are_the_whole: "0 < total_weight plan \<Longrightarrow> (\<Sum>c \<leftarrow> plan. cp_weight c / total_weight plan * 100) = 100"
proof -
  assume pos: "0 < total_weight plan"
  have "(\<Sum>c \<leftarrow> p. cp_weight c / t * 100) = (\<Sum>c \<leftarrow> p. cp_weight c) / t * 100" for p :: channel_plan and t
    by (induction p) (simp_all add: add_divide_distrib distrib_right)
  then show ?thesis using pos by (simp add: total_weight_sum [symmetric])
qed

section \<open>The weights that are recorded\<close>

definition in_unit :: "real option \<Rightarrow> bool" where
  "in_unit w = (case w of None \<Rightarrow> False | Some x \<Rightarrow> 0 \<le> x \<and> x \<le> 1)"

lemma weight_issue_None: "weight_issue nan_message w = None \<longleftrightarrow> in_unit w"
  by (auto simp: weight_issue_def in_unit_def split: option.split)

lemma weight_issues_empty: "weight_issues nan_message ws = [] \<longleftrightarrow> list_all (\<lambda>(c, w). in_unit w) ws"
proof (induction ws)
  case (Cons cw ws)
  obtain c w where "cw = (c, w)" by fastforce
  with Cons show ?case
    using weight_issue_None [of nan_message w]
    by (cases "weight_issue nan_message w") (simp_all add: weight_issues_def map_filter_simps)
qed (simp add: weight_issues_def map_filter_simps)

lemma no_draft_before_reset: "Reset_Weights \<notin> set events \<Longrightarrow> we_draft (run_weights nan_message data events) = None"
proof (induction events rule: rev_induct)
  case (snoc e events)
  then show ?case by (cases e) (auto simp: run_weights_def Let_def split: option.split)
qed (simp add: run_weights_def)

text \<open>C32: Only weights between 0 and 1 are recorded; but until Reset was pressed the editor changes nothing: typing is applied to a draft there is not
  yet, so every field keeps its stored value and what is recorded is what was stored before.\<close>

theorem weights_need_a_reset_first:
  "list_all (list_all (\<lambda>(c, w). in_unit w)) (we_sent (run_weights nan_message data events)) \<and>
   (if Reset_Weights \<in> set events then True
    else shown_weights data (run_weights nan_message data events) = data \<and>
      list_all (\<lambda>w. Some w = data) (we_sent (run_weights nan_message data events)))"
proof (induction events rule: rev_induct)
  case (snoc e events)
  show ?case
    using snoc no_draft_before_reset [of events nan_message data]
    by (cases e)
       (auto simp: run_weights_def shown_weights_def Let_def weight_issues_empty split: option.splits if_splits)
qed (simp add: run_weights_def shown_weights_def)

end
