(* ===== verification/FlightTables.thy ===== *)
theory FlightTables
  imports LiveView Calibration FlightFilters Markers
begin

text \<open>
  The flight list: \<open>features/tracks/flights-table.tsx\<close> with the expanded row of \<open>flight-quick-view.tsx\<close>, and
  \<open>features/tracks/evidence.tsx\<close> with \<open>components/ui/bar-meter.tsx\<close>. A cell is its text; the table of wide
  screens and the cards of narrow ones are both modelled, since both are mounted. Class names are left out.
\<close>

section \<open>Evidence\<close>

definition class_rank :: "detection_class \<Rightarrow> nat" where
  "class_rank c = nullish (find_index (\<lambda>d. d = c) detection_class_order) 0"

definition sort_evidence :: "evidence list \<Rightarrow> evidence list" where
  "sort_evidence es = js_sort (\<lambda>a b. int (class_rank (ev_class a)) - int (class_rank (ev_class b))) es"

definition times_sign :: string where "times_sign = [CHR 0xC3, CHR 0x97]"

definition evidence_chip :: "evidence \<Rightarrow> string \<times> string" where
  "evidence_chip e =
     (let info = detection_classes (ev_class e)
      in (class_text (ev_class e) @ times_sign @ string_of_int (ev_count e),
          ''Class '' @ class_text (ev_class e) @ '' '' @ em_dash @ '' '' @ dci_label info @ '' '' @
          dci_signal info @ '' '' @ middle_dot @ '' '' @ string_of_int (ev_count e) @ '' detections via '' @
          kind_text (ev_sensor_kind e) @ '' '' @ dci_justification info))"

definition evidence_chips :: "evidence list \<Rightarrow> (string \<times> string) list" where
  "evidence_chips es = (if es = [] then [(''no evidence'', [])] else map evidence_chip (sort_evidence es))"

definition bar_percent :: "real \<Rightarrow> int" where
  "bar_percent fraction = js_round (max 0 (min 1 fraction) * 100)"

definition confidence_bar :: "real \<Rightarrow> int \<times> string" where
  "confidence_bar confidence =
     (bar_percent confidence, ''Confidence that this is a drone: '' @ format_confidence confidence)"

record evidence_row =
  er_class :: string
  er_short :: string
  er_signal :: string
  er_count :: string
  er_weight :: string
  er_last_seen :: string

definition evidence_row_of :: "int \<Rightarrow> evidence \<Rightarrow> evidence_row" where
  "evidence_row_of now e =
     (let info = detection_classes (ev_class e)
      in \<lparr> er_class = class_text (ev_class e), er_short = dci_short info,
           er_signal = dci_signal info @ '' '' @ middle_dot @ '' via '' @ kind_text (ev_sensor_kind e),
           er_count = string_of_int (ev_count e),
           er_weight = (if ev_weight e = 0 then ''n/a'' else to_fixed 2 (ev_weight e)),
           er_last_seen = format_relative (ev_last_seen e) now \<rparr>)"

definition contributing :: "evidence list \<Rightarrow> evidence list" where
  "contributing es = filter (\<lambda>e. 0 < ev_weight e) (sort_evidence es)"

definition recomputed :: "evidence list \<Rightarrow> real" where
  "recomputed es = noisy_or (map ev_weight (contributing es))"

definition minus_sign :: string where "minus_sign = [CHR 0xE2, CHR 0x88, CHR 0x92]"

definition confidence_formula :: "evidence list \<Rightarrow> string" where
  "confidence_formula es =
     ''1 '' @ minus_sign @ '' '' @
     (if contributing es \<noteq> []
      then join ('' '' @ times_sign @ '' '')
        (map (\<lambda>e. ''(1 '' @ minus_sign @ '' '' @ to_fixed 2 (ev_weight e) @ '')'') (contributing es))
      else ''1'') @
     '' = '' @ to_fixed 3 (recomputed es)"

definition confidence_mismatch :: "evidence list \<Rightarrow> real \<Rightarrow> bool" where
  "confidence_mismatch es confidence \<longleftrightarrow> 0.011 < \<bar>recomputed es - confidence\<bar>"

record evidence_breakdown =
  eb_rows :: "evidence_row list"
  eb_formula :: string
  eb_warning :: "string option"

definition evidence_breakdown_of :: "int \<Rightarrow> evidence list \<Rightarrow> real \<Rightarrow> evidence_breakdown option" where
  "evidence_breakdown_of now es confidence =
     (if sort_evidence es = [] then None
      else Some \<lparr> eb_rows = map (evidence_row_of now) (sort_evidence es), eb_formula = confidence_formula es,
        eb_warning = (if confidence_mismatch es confidence
          then Some (''The API reported '' @ format_confidence confidence @
            '', which does not match the weights above.'') else None) \<rparr>)"

definition state_tone :: "track_state \<Rightarrow> string" where
  "state_tone s =
     (case s of CONFIRMED \<Rightarrow> ''ok'' | COASTING \<Rightarrow> ''warn'' | CLOSED \<Rightarrow> ''muted'' | TENTATIVE \<Rightarrow> ''info'')"

definition track_states :: "(track_state \<times> string) list" where
  "track_states =
     [(TENTATIVE, ''New contact; waiting for at least 2 detections spanning 2 seconds.''),
      (CONFIRMED, ''Corroborated contact receiving current detections.''),
      (COASTING, ''No detection for 30 seconds; retained in case the same aircraft returns.''),
      (CLOSED, ''No detection for 5 minutes; archived and removed from the active list.'')]"

section \<open>Columns\<close>

record flight_column =
  fc_id :: string
  fc_label :: string
  fc_sort :: "sort_column option"

definition flight_columns :: "flight_column list" where
  "flight_columns =
     [\<lparr> fc_id = ''start'', fc_label = ''Start'', fc_sort = Some SortStart \<rparr>,
      \<lparr> fc_id = ''duration'', fc_label = ''Duration'', fc_sort = Some SortDuration \<rparr>,
      \<lparr> fc_id = ''path'', fc_label = ''Path'', fc_sort = None \<rparr>,
      \<lparr> fc_id = ''range'', fc_label = ''Max range'', fc_sort = Some SortRange \<rparr>,
      \<lparr> fc_id = ''agl'', fc_label = ''Max AGL'', fc_sort = Some SortAgl \<rparr>,
      \<lparr> fc_id = ''operator'', fc_label = ''Operator'', fc_sort = None \<rparr>,
      \<lparr> fc_id = ''detections'', fc_label = ''Detections'', fc_sort = Some SortDetections \<rparr>,
      \<lparr> fc_id = ''rssi'', fc_label = ''Peak RSSI'', fc_sort = Some SortRssi \<rparr>]"

definition next_sort :: "string \<Rightarrow> sort_column \<Rightarrow> string" where
  "next_sort current column =
     (let (col, desc) = parse_flight_sort current
      in if col \<noteq> column_text column then column_text column @ ''-desc''
         else column_text column @ (if desc then ''-asc'' else ''-desc''))"

definition header_label :: "string \<Rightarrow> flight_column \<Rightarrow> string" where
  "header_label zone c = (if fc_id c = ''start'' then fc_label c @ '' ('' @ zone @ '')'' else fc_label c)"

definition aria_sort :: "string \<Rightarrow> flight_column \<Rightarrow> string option" where
  "aria_sort srt c =
     (let (col, desc) = parse_flight_sort srt
      in case fc_sort c of None \<Rightarrow> None
         | Some s \<Rightarrow> Some (if col = column_text s then (if desc then ''descending'' else ''ascending'') else ''none''))"

text \<open>
  A cell is a text, except that the operator's is a mark, the path's is a drawing and the detections' is a
  count with a tooltip: a sentence, or the chips of the evidence.
\<close>

datatype flight_cell =
    Text_Cell string | Path_Cell | Operator_Cell bool | Detections_Cell int "string + (string \<times> string) list"

definition detections_cell :: "track \<Rightarrow> flight_cell" where
  "detections_cell t =
     (let evidence = nullish (trk_evidence t) []
      in Detections_Cell (trk_detection_count t)
           (if evidence \<noteq> [] then Inr (evidence_chips evidence) else Inl ''No evidence recorded for this track.''))"

definition duration_text :: "track \<Rightarrow> string" where
  "duration_text t = (case flight_duration_s t of None \<Rightarrow> em_dash | Some s \<Rightarrow> format_duration s)"

definition flight_cell_of :: "intl \<Rightarrow> format_preferences \<Rightarrow> latlon option \<Rightarrow> track \<Rightarrow> flight_column \<Rightarrow> flight_cell" where
  "flight_cell_of intl p receiver t c =
     (if fc_id c = ''start'' then Text_Cell (fmt_instant intl Stamp_Shape p (Some (trk_first_seen t)))
      else if fc_id c = ''duration'' then Text_Cell (duration_text t)
      else if fc_id c = ''path'' then Path_Cell
      else if fc_id c = ''range'' then Text_Cell (fmt_range p (max_range_m t receiver))
      else if fc_id c = ''agl'' then Text_Cell (fmt_length p (max_height_agl_m t))
      else if fc_id c = ''operator'' then Operator_Cell (has_operator_fix t)
      else if fc_id c = ''detections''
      then detections_cell t
      else Text_Cell (format_rssi (trk_rssi_dbm t)))"

section \<open>Rows, cards and groups\<close>

record flights_table =
  ft_own_expanded :: "string option"
  ft_collapsed :: "string list"

record flight_row =
  fr_track :: track
  fr_identity :: "(string \<times> bool) option"
  fr_cells :: "flight_cell list"
  fr_expanded :: bool

text \<open>The flight that is expanded: the owner's choice when there is an owner, the table's otherwise.\<close>

definition expanded_id :: "string option option \<Rightarrow> flights_table \<Rightarrow> string option" where
  "expanded_id controlled s = (case controlled of Some e \<Rightarrow> e | None \<Rightarrow> ft_own_expanded s)"

definition toggle_row :: "string option option \<Rightarrow> string \<Rightarrow> flights_table \<Rightarrow> flights_table \<times> string option" where
  "toggle_row controlled i s =
     (let e = (if expanded_id controlled s = Some i then None else Some i)
      in (if controlled = None then s\<lparr> ft_own_expanded := e \<rparr> else s, e))"

definition toggle_group :: "string \<Rightarrow> flights_table \<Rightarrow> flights_table" where
  "toggle_group k s =
     s\<lparr> ft_collapsed := (if k \<in> set (ft_collapsed s) then filter (\<lambda>j. j \<noteq> k) (ft_collapsed s)
       else ft_collapsed s @ [k]) \<rparr>"

definition row_at ::
  "intl \<Rightarrow> format_preferences \<Rightarrow> latlon option \<Rightarrow> string option \<Rightarrow> bool \<Rightarrow> track option \<Rightarrow> track \<Rightarrow> flight_row" where
  "row_at intl p receiver expanded with_identity previous t =
     \<lparr> fr_track = t,
       fr_identity = (if with_identity
         then Some (aircraft_name t, map_option aircraft_name previous = Some (aircraft_name t)) else None),
       fr_cells = map (flight_cell_of intl p receiver t) flight_columns,
       fr_expanded = (expanded = Some (trk_track_id t)) \<rparr>"

definition rows_for ::
  "intl \<Rightarrow> format_preferences \<Rightarrow> latlon option \<Rightarrow> string option \<Rightarrow> bool \<Rightarrow> track list \<Rightarrow> flight_row list" where
  "rows_for intl p receiver expanded with_identity flights =
     map2 (row_at intl p receiver expanded with_identity) (None # map Some flights) flights"

record group_summary =
  gs_label :: string
  gs_kind :: "string option"
  gs_count :: string
  gs_collapsed :: bool

definition day_span :: "(int \<Rightarrow> string) \<Rightarrow> aircraft_group \<Rightarrow> string option" where
  "day_span day_label g =
     (case (map_option day_label (ag_first_seen_ms g), map_option day_label (ag_last_seen_ms g)) of
        (Some from_day, Some to_day) \<Rightarrow>
          Some (if from_day = to_day then from_day else from_day @ '' '' @ [CHR 0xE2, CHR 0x80, CHR 0x93] @ '' '' @ to_day)
      | _ \<Rightarrow> None)"

definition group_summary_of :: "(int \<Rightarrow> string) \<Rightarrow> string list \<Rightarrow> aircraft_group \<Rightarrow> group_summary" where
  "group_summary_of day_label collapsed g =
     \<lparr> gs_label = ag_label g,
       gs_kind = (if ag_vendor g = None \<and> ag_ua_type g = None then None
         else Some (join ('' '' @ middle_dot @ '' '')
           (filter (\<lambda>v. v \<noteq> []) [nullish (ag_vendor g) [], nullish (ag_ua_type g) []]))),
       gs_count = plural (length (ag_flights g)) ''flight'' @
         (let span = day_span day_label g in if truthy span then '' '' @ middle_dot @ '' '' @ nullish span [] else []),
       gs_collapsed = (ag_key g \<in> set collapsed) \<rparr>"

datatype group_mode = No_Grouping | By_Aircraft

text \<open>The body of the table, a heading (if any) with its rows; the cards follow the same walk.\<close>

definition table_body ::
  "intl \<Rightarrow> format_preferences \<Rightarrow> (int \<Rightarrow> string) \<Rightarrow> latlon option \<Rightarrow> group_mode \<Rightarrow> flight_sort \<Rightarrow> string option option \<Rightarrow>
     flights_table \<Rightarrow> track list \<Rightarrow> (group_summary option \<times> flight_row list) list" where
  "table_body intl p day_label receiver mode srt controlled s tracks =
     (let sorted_tracks = sort_flights tracks srt receiver; expanded = expanded_id controlled s
      in case mode of
           No_Grouping \<Rightarrow> [(None, rows_for intl p receiver expanded True sorted_tracks)]
         | By_Aircraft \<Rightarrow>
             map (\<lambda>g. (Some (group_summary_of day_label (ft_collapsed s) g),
                 if ag_key g \<in> set (ft_collapsed s) then []
                 else rows_for intl p receiver expanded False (ag_flights g)))
               (group_by_aircraft sorted_tracks))"

record flight_card =
  fk_track_id :: string
  fk_identity :: "string option"
  fk_line :: string
  fk_facts :: "string list"
  fk_expanded :: bool

definition flight_card_of ::
  "intl \<Rightarrow> format_preferences \<Rightarrow> latlon option \<Rightarrow> string option \<Rightarrow> bool \<Rightarrow> track \<Rightarrow> flight_card" where
  "flight_card_of intl p receiver expanded show_identity t =
     \<lparr> fk_track_id = trk_track_id t, fk_identity = (if show_identity then Some (aircraft_name t) else None),
       fk_line = fmt_instant intl Stamp_Shape p (Some (trk_first_seen t)) @ '' '' @ duration_text t @ '' '' @ middle_dot @
         '' '' @ fmt_range p (max_range_m t receiver) @ '' '' @ middle_dot @ '' '' @
         string_of_int (trk_detection_count t) @ '' det'',
       fk_facts = [fmt_length p (max_height_agl_m t), format_rssi (trk_rssi_dbm t),
         if has_operator_fix t then [CHR 0xE2, CHR 0x9C, CHR 0x93] else em_dash],
       fk_expanded = (expanded = Some (trk_track_id t)) \<rparr>"

definition flight_cards ::
  "intl \<Rightarrow> format_preferences \<Rightarrow> latlon option \<Rightarrow> group_mode \<Rightarrow> flight_sort \<Rightarrow> string option option \<Rightarrow>
     flights_table \<Rightarrow> track list \<Rightarrow> flight_card list" where
  "flight_cards intl p receiver mode srt controlled s tracks =
     (let sorted_tracks = sort_flights tracks srt receiver; expanded = expanded_id controlled s
      in case mode of
           No_Grouping \<Rightarrow> map (flight_card_of intl p receiver expanded True) sorted_tracks
         | By_Aircraft \<Rightarrow>
             concat (map (\<lambda>g. if ag_key g \<in> set (ft_collapsed s) then []
                 else map (flight_card_of intl p receiver expanded False) (ag_flights g))
               (group_by_aircraft sorted_tracks)))"

definition empty_table :: "bool \<Rightarrow> string \<Rightarrow> string \<Rightarrow> string \<times> string" where
  "empty_table narrowed title description =
     (if narrowed then (''No flights match the filter'',
        ''Clear the search box, a facet chip, or the selected day to widen the list.'')
      else (title, description))"

text \<open>What is mounted: the notice when there is nothing to list, the table otherwise.\<close>

definition table_view ::
  "intl \<Rightarrow> format_preferences \<Rightarrow> (int \<Rightarrow> string) \<Rightarrow> latlon option \<Rightarrow> group_mode \<Rightarrow> flight_sort \<Rightarrow> string option option \<Rightarrow>
     bool \<Rightarrow> string \<Rightarrow> string \<Rightarrow> flights_table \<Rightarrow> track list \<Rightarrow>
     (string \<times> string) + (group_summary option \<times> flight_row list) list" where
  "table_view intl p day_label receiver mode srt controlled narrowed title description s tracks =
     (if sort_flights tracks srt receiver = [] then Inl (empty_table narrowed title description)
      else Inr (table_body intl p day_label receiver mode srt controlled s tracks))"

text \<open>The expanded row: the facts, and whether there is a path to draw.\<close>

definition quick_view :: "intl \<Rightarrow> format_preferences \<Rightarrow> latlon option \<Rightarrow> track \<Rightarrow> bool \<times> (string \<times> string) list" where
  "quick_view intl p receiver t =
     (plottable_points [t] \<noteq> [],
      [(''Window'', fmt_instant intl Clock_Shape p (Some (trk_first_seen t)) @ '' '' @ [CHR 0xE2, CHR 0x80, CHR 0x93] @ '' '' @
          fmt_instant intl Clock_Shape p (Some (trk_last_seen t))),
       (''Duration'', duration_text t), (''Max range'', fmt_range p (max_range_m t receiver)),
       (''Max height AGL'', fmt_length p (max_height_agl_m t)), (''Detections'', string_of_int (trk_detection_count t)),
       (''Operator'', if has_operator_fix t then ''located'' else ''not located'')])"

section \<open>Every flight once\<close>

lemma length_rows_for [simp]: "length (rows_for intl p receiver e w flights) = length flights"
  by (simp add: rows_for_def)

lemma tracks_of_rows [simp]: "map fr_track (rows_for intl p receiver e w flights) = flights"
  by (rule nth_equalityI) (simp_all add: rows_for_def row_at_def)

lemma row_ids: "map (trk_track_id \<circ> fr_track) (rows_for intl p receiver e w flights) = map trk_track_id flights"
  by (metis map_map tracks_of_rows)

lemma mset_rows [simp]: "image_mset fr_track (mset (rows_for intl p receiver e w flights)) = mset flights"
  by (metis mset_map tracks_of_rows)

lemma rows_expanded: "map fr_expanded (rows_for intl p receiver e w ts) = map (\<lambda>t. e = Some (trk_track_id t)) ts"
  by (rule nth_equalityI) (simp_all add: rows_for_def row_at_def)

lemma row_expanded: "list_all (\<lambda>r. fr_expanded r = (e = Some (trk_track_id (fr_track r)))) (rows_for intl p receiver e w flights)"
  by (simp add: rows_for_def row_at_def list_all_length)

lemma mset_concat_map: "mset (concat (map f xs)) = sum_list (map (\<lambda>x. mset (f x)) xs)"
  by (induction xs) simp_all

lemma concat_congruent:
  "(\<And>g. map f (c g) = map h (r g)) \<Longrightarrow> map f (concat (map c gs)) = map h (concat (map r gs))"
  by (induction gs) simp_all

lemma mset_sort_flights: "mset (sort_flights ts s r) = mset ts"
proof -
  have "mset (map fst (js_sort c (map (\<lambda>t. (t, f t)) ts))) = mset ts" for c :: "track \<times> real option \<Rightarrow> track \<times> real option \<Rightarrow> real" and f
    unfolding mset_map mset_js_sort by (simp add: multiset.map_comp comp_def)
  then show ?thesis by (simp add: sort_flights_def Let_def)
qed

text \<open>C24: The table shows every flight it was given exactly once, except those of the aircraft the operator
  folded away: grouped or not, whatever the order; the cards of a narrow screen are the same flights in the
  same order, expanded in the same place; and a row is expanded exactly when its flight is the one that was
  chosen.\<close>

theorem table_lists_each_flight_once:
  "let body = table_body intl p day_label receiver mode srt controlled s tracks;
       cards = flight_cards intl p receiver mode srt controlled s tracks;
       rows = concat (map snd body)
   in mset (map fr_track rows) =
        {#t \<in># mset tracks. case mode of No_Grouping \<Rightarrow> True | By_Aircraft \<Rightarrow> aircraft_key t \<notin> set (ft_collapsed s)#} \<and>
      map fk_track_id cards = map (trk_track_id \<circ> fr_track) rows \<and> map fk_expanded cards = map fr_expanded rows \<and>
      list_all (\<lambda>r. fr_expanded r = (expanded_id controlled s = Some (trk_track_id (fr_track r)))) rows"
proof (cases mode)
  case No_Grouping
  let ?ts = "sort_flights tracks srt receiver"
  show ?thesis
    using row_expanded by (simp add: rows_expanded No_Grouping table_body_def flight_cards_def Let_def mset_sort_flights flight_card_of_def
        comp_def row_ids [unfolded comp_def])
next
  case By_Aircraft
  let ?gs = "group_by_aircraft (sort_flights tracks srt receiver)"
  let ?e = "expanded_id controlled s" and ?c = "set (ft_collapsed s)"
  let ?rows = "\<lambda>g. if ag_key g \<in> ?c then [] else rows_for intl p receiver ?e False (ag_flights g)"
  let ?cards = "\<lambda>g. if ag_key g \<in> ?c then [] else map (flight_card_of intl p receiver ?e False) (ag_flights g)"
  have rows: "concat (map snd (table_body intl p day_label receiver mode srt controlled s tracks)) = concat (map ?rows ?gs)"
    by (simp add: By_Aircraft table_body_def Let_def comp_def)
  have cards: "flight_cards intl p receiver mode srt controlled s tracks = concat (map ?cards ?gs)"
    by (simp add: By_Aircraft flight_cards_def Let_def)
  have each: "map fk_track_id (?cards g) = map (trk_track_id \<circ> fr_track) (?rows g)"
    "map fk_expanded (?cards g) = map fr_expanded (?rows g)" for g
  proof -
    show "map fk_track_id (?cards g) = map (trk_track_id \<circ> fr_track) (?rows g)"
      by (simp add: row_ids flight_card_of_def comp_def row_ids [unfolded comp_def])
    show "map fk_expanded (?cards g) = map fr_expanded (?rows g)"
      by (simp add: rows_expanded flight_card_of_def)
  qed
  have same: "map fk_track_id (concat (map ?cards gs)) = map (trk_track_id \<circ> fr_track) (concat (map ?rows gs)) \<and>
      map fk_expanded (concat (map ?cards gs)) = map fr_expanded (concat (map ?rows gs))" for gs
    using concat_congruent [of fk_track_id ?cards "trk_track_id \<circ> fr_track" ?rows gs, OF each(1)]
      concat_congruent [of fk_expanded ?cards fr_expanded ?rows gs, OF each(2)] by blast
  have expanded: "list_all (\<lambda>r. fr_expanded r = (?e = Some (trk_track_id (fr_track r)))) (concat (map ?rows gs))" for gs
    by (induction gs) (simp_all add: row_expanded)
  have key: "aircraft_key t = ag_key g" if "g \<in> set ?gs" "t \<in> set (ag_flights g)" for g t
    using group_members [OF that(1)] that(2) by (auto simp: group_ok_def)
  have part: "mset (map fr_track (?rows g)) = {#t \<in># mset (ag_flights g). aircraft_key t \<notin> ?c#}" if "g \<in> set ?gs" for g
  proof -
    have "filter (\<lambda>t. aircraft_key t \<notin> ?c) (ag_flights g) = (if ag_key g \<in> ?c then [] else ag_flights g)"
      using key [OF that] by (auto simp: filter_empty_conv filter_id_conv)
    then show ?thesis by (simp flip: mset_filter)
  qed
  have sums: "mset (map fr_track (concat (map ?rows gs))) = {#t \<in># sum_list (map (\<lambda>g. mset (ag_flights g)) gs). aircraft_key t \<notin> ?c#}"
    if "set gs \<subseteq> set ?gs" for gs
    using that by (induction gs) (use part in simp_all)
  show ?thesis
    using sums [of ?gs] same [of ?gs] expanded [of ?gs]
    unfolding rows cards Let_def by (simp add: By_Aircraft groups_flights mset_sort_flights)
qed

section \<open>Headers, evidence and bars\<close>

text \<open>A first press on a header sorts by its column, greatest first; every further press turns the order round;
  and the headers announce the order that is in force, on one column only.\<close>

lemma header_press:
  "next_sort (flight_sort_value s) c = flight_sort_value \<lparr> fs_column = c, fs_desc = (fs_column s = c \<longrightarrow> \<not> fs_desc s) \<rparr>"
proof -
  have "column_text a = column_text b \<longleftrightarrow> a = b" for a b by (cases a; cases b) simp_all
  then show ?thesis unfolding next_sort_def parse_flight_sort_value by (auto simp: flight_sort_value_def)
qed

lemma one_header_announces:
  "filter (\<lambda>c. aria_sort (flight_sort_value s) c \<notin> {None, Some ''none''}) flight_columns =
     filter (\<lambda>c. fc_sort c = Some (fs_column s)) flight_columns"
  by (cases "fs_column s") (simp_all add: aria_sort_def flight_columns_def parse_flight_sort_value Let_def)

lemma class_rank_inject: "class_rank a = class_rank b \<Longrightarrow> a = b"
  by (cases a; cases b) (simp_all add: class_rank_def detection_class_order_def)

text \<open>The working shown is of the evidence, not of the order it arrived in: the rows, the formula and the
  warning are the same for every order of the same entries, one a class.\<close>

lemma breakdown_canonical:
  assumes "mset es = mset es'" "distinct (map ev_class es)"
  shows "evidence_breakdown_of now es confidence = evidence_breakdown_of now es' confidence"
proof -
  let ?cmp = "\<lambda>a b. int (class_rank (ev_class a)) - int (class_rank (ev_class b))"
  have same: "set es = set es'" using assms(1) by (rule mset_eq_setD)
  have "sort_evidence es = sort_evidence es'"
    unfolding sort_evidence_def
  proof (rule js_sort_unique)
    show "mset es = mset es'" by (rule assms(1))
    show "distinct es" using assms(2) by (simp add: distinct_map)
    show "consistent_cmp ?cmp (set es)" by (rule in_order_key [of _ _ "\<lambda>e. class_rank (ev_class e)"]) simp
    fix x y assume "x \<in> set es" "y \<in> set es" "in_order ?cmp x y" "in_order ?cmp y x"
    then have "class_rank (ev_class x) = class_rank (ev_class y)" by (simp add: in_order_def)
    then have "ev_class x = ev_class y" by (rule class_rank_inject)
    then show "x = y" using assms(2) \<open>x \<in> set es\<close> \<open>y \<in> set es\<close> by (auto simp: distinct_map dest: inj_onD)
  qed
  then show ?thesis
    by (simp add: evidence_breakdown_of_def confidence_formula_def confidence_mismatch_def recomputed_def contributing_def)
qed

lemma bar_percent_bounds: "0 \<le> bar_percent f \<and> bar_percent f \<le> 100"
  unfolding bar_percent_def js_round_def by (simp add: floor_le_iff le_floor_iff)

end
