(* ===== verification/AircraftLabels.thy ===== *)
theory AircraftLabels
  imports LiveView MapStyle LiveSession
begin

text \<open>
  Naming an aircraft: the popover of \<open>features/tracks/aircraft-label.tsx\<close> with the handler that stores a label
  (\<open>services/api/internal/httpapi/aircraftapi.go\<close>, the memory store) and the hook that shows it. Texts are
  UTF-8 bytes; the store is an association list keyed by serial. Blanks are taken off as each side does it.
\<close>

section \<open>Blanks\<close>

text \<open>
  \<open>String.prototype.trim\<close> in the form and \<open>strings.TrimSpace\<close> in the API take the same blanks off both ends, as
  UTF-8, but for two: only JavaScript takes the byte order mark, only Go takes the next-line control.
\<close>

function strip_front :: "string list \<Rightarrow> string \<Rightarrow> string" where
  "strip_front blanks s =
     (case find (\<lambda>b. b \<noteq> [] \<and> take (length b) s = b) blanks of
        None \<Rightarrow> s
      | Some b \<Rightarrow> strip_front blanks (drop (length b) s))"
  by pat_completeness auto

termination
proof (relation "Wellfounded.measure (\<lambda>(_, s). length s)")
  fix blanks s b
  assume "find (\<lambda>b. b \<noteq> [] \<and> take (length b) s = b) blanks = Some b"
  then have "b \<noteq> []" "take (length b) s = b" by (auto simp: find_Some_iff)
  then have "0 < length b" "length b \<le> length s" by (auto dest: arg_cong [of _ _ length])
  then have "length (drop (length b) s) < length s" by (simp add: diff_less del: length_greater_0_conv)
  then show "((blanks, drop (length b) s), blanks, s) \<in> Wellfounded.measure (\<lambda>(_, s). length s)" by simp
qed simp

declare strip_front.simps [simp del]

definition text_trim :: "string list \<Rightarrow> string \<Rightarrow> string" where
  "text_trim blanks s = rev (strip_front (map rev blanks) (rev (strip_front blanks s)))"

definition shared_blanks :: "string list" where
  "shared_blanks = [[CHR 0x09], [CHR 0x0A], [CHR 0x0B], [CHR 0x0C], [CHR 0x0D], [CHR 0x20], [CHR 0xC2, CHR 0xA0],
     [CHR 0xE1, CHR 0x9A, CHR 0x80], [CHR 0xE2, CHR 0x80, CHR 0x80], [CHR 0xE2, CHR 0x80, CHR 0x81],
     [CHR 0xE2, CHR 0x80, CHR 0x82], [CHR 0xE2, CHR 0x80, CHR 0x83], [CHR 0xE2, CHR 0x80, CHR 0x84],
     [CHR 0xE2, CHR 0x80, CHR 0x85], [CHR 0xE2, CHR 0x80, CHR 0x86], [CHR 0xE2, CHR 0x80, CHR 0x87],
     [CHR 0xE2, CHR 0x80, CHR 0x88], [CHR 0xE2, CHR 0x80, CHR 0x89], [CHR 0xE2, CHR 0x80, CHR 0x8A],
     [CHR 0xE2, CHR 0x80, CHR 0xA8], [CHR 0xE2, CHR 0x80, CHR 0xA9], [CHR 0xE2, CHR 0x80, CHR 0xAF],
     [CHR 0xE2, CHR 0x81, CHR 0x9F], [CHR 0xE3, CHR 0x80, CHR 0x80]]"

definition js_trim :: "string \<Rightarrow> string" where
  "js_trim s = text_trim ([CHR 0xEF, CHR 0xBB, CHR 0xBF] # shared_blanks) s"

definition go_trim :: "string \<Rightarrow> string" where
  "go_trim s = text_trim ([CHR 0xC2, CHR 0x85] # shared_blanks) s"

lemma strip_front_done: "find (\<lambda>b. b \<noteq> [] \<and> take (length b) (strip_front blanks s) = b) blanks = None"
proof (induction blanks s rule: strip_front.induct)
  case (1 blanks s)
  show ?case
  proof (cases "find (\<lambda>b. b \<noteq> [] \<and> take (length b) s = b) blanks")
    case None
    then show ?thesis by (simp add: strip_front.simps [of blanks s])
  next
    case (Some b)
    then have "strip_front blanks s = strip_front blanks (drop (length b) s)" by (simp add: strip_front.simps [of blanks s])
    then show ?thesis using 1 [OF Some] by simp
  qed
qed

lemma strip_front_none: "find (\<lambda>b. b \<noteq> [] \<and> take (length b) s = b) blanks = None \<Longrightarrow> strip_front blanks s = s"
  by (simp add: strip_front.simps)

lemma strip_front_suffix: "suffix (strip_front blanks s) s"
proof (induction blanks s rule: strip_front.induct)
  case (1 blanks s)
  show ?case
  proof (cases "find (\<lambda>b. b \<noteq> [] \<and> take (length b) s = b) blanks")
    case None
    then show ?thesis by (simp add: strip_front.simps [of blanks s])
  next
    case (Some b)
    then have "strip_front blanks s = strip_front blanks (drop (length b) s)" by (simp add: strip_front.simps [of blanks s])
    then show ?thesis using suffix_order.trans [OF 1 [OF Some] suffix_drop] by simp
  qed
qed

text \<open>Taking the blanks off a second time changes nothing.\<close>

lemma text_trim_idem: "text_trim blanks (text_trim blanks s) = text_trim blanks s"
proof -
  define front where "front = strip_front blanks s"
  define rest where "rest = strip_front (map rev blanks) (rev front)"
  obtain q where q: "front = rev rest @ q"
    using strip_front_suffix [of "map rev blanks" "rev front"] unfolding rest_def [symmetric]
    by (auto simp: suffix_def rev_eq_append_conv)
  have "find (\<lambda>b. b \<noteq> [] \<and> take (length b) (rev rest) = b) blanks = None"
  proof (rule ccontr)
    assume "find (\<lambda>b. b \<noteq> [] \<and> take (length b) (rev rest) = b) blanks \<noteq> None"
    then obtain b where b: "b \<in> set blanks" "b \<noteq> []" "take (length b) (rev rest) = b" by (auto simp: find_None_iff)
    then have "prefix b (rev rest)" by (metis take_is_prefix)
    then have "prefix b front" by (simp add: q)
    then have "take (length b) front = b" by (auto simp: prefix_def)
    then show False using b(1,2) strip_front_done [of blanks s] by (auto simp: find_None_iff front_def)
  qed
  then have "strip_front blanks (rev rest) = rev rest" by (rule strip_front_none)
  moreover have "strip_front (map rev blanks) rest = rest"
    unfolding rest_def by (rule strip_front_none [OF strip_front_done])
  ultimately show ?thesis by (simp add: text_trim_def flip: front_def rest_def)
qed

lemma go_trim_idem [simp]: "go_trim (go_trim s) = go_trim s"
  by (simp add: go_trim_def text_trim_idem)

section \<open>The form\<close>

fun flag_text :: "aircraft_flag \<Rightarrow> string" where
  "flag_text NoFlag = []"
| "flag_text Known = ''known''"
| "flag_text Watch = ''watch''"
| "flag_text Ignore = ''ignore''"

definition flag_options :: "(aircraft_flag \<times> string) list" where
  "flag_options = [(NoFlag, ''No flag''), (Known, ''Known''), (Watch, ''Watch''), (Ignore, ''Ignore'')]"

fun flag_tone :: "aircraft_flag \<Rightarrow> string option" where
  "flag_tone NoFlag = None"
| "flag_tone Known = Some ''info''"
| "flag_tone Watch = Some ''warn''"
| "flag_tone Ignore = Some ''muted''"

definition flag_badge :: "aircraft_flag \<Rightarrow> (string \<times> string) option" where
  "flag_badge f = map_option (\<lambda>tone. (tone, flag_text f)) (flag_tone f)"

record label_form =
  lf_text :: string
  lf_flag :: aircraft_flag
  lf_pending :: bool

type_synonym label_body = "string \<times> aircraft_flag"

datatype label_event =
    Open_Label "aircraft_label option"
  | Type_Label string
  | Pick_Flag aircraft_flag
  | Press_Save
  | Press_Clear "aircraft_label option"
  | Label_Answered "string + label_body"
  | Close_Label

definition open_label :: "aircraft_label option \<Rightarrow> label_form" where
  "open_label stored =
     \<lparr> lf_text = (case stored of None \<Rightarrow> [] | Some l \<Rightarrow> al_label l),
       lf_flag = (case stored of None \<Rightarrow> NoFlag | Some l \<Rightarrow> al_flag l), lf_pending = False \<rparr>"

definition label_notice :: "string + label_body \<Rightarrow> string \<times> string" where
  "label_notice answer =
     (case answer of
        Inl problem \<Rightarrow> (''Could not save the label'', problem)
      | Inr (text', flag) \<Rightarrow> (if text' = [] \<and> flag = NoFlag then ''Label cleared'' else ''Label saved'', []))"

text \<open>The popover is closed or holds a form; a step may send a body and raise a notice.\<close>

definition label_step ::
  "label_form option \<Rightarrow> label_event \<Rightarrow> label_form option \<times> label_body option \<times> (string \<times> string) option" where
  "label_step form e =
     (case e of
        Open_Label stored \<Rightarrow> (Some (case form of None \<Rightarrow> open_label stored | Some f \<Rightarrow> f), None, None)
      | Close_Label \<Rightarrow> (None, None, None)
      | Type_Label v \<Rightarrow> (map_option (\<lambda>f. f\<lparr> lf_text := v \<rparr>) form, None, None)
      | Pick_Flag v \<Rightarrow> (map_option (\<lambda>f. f\<lparr> lf_flag := v \<rparr>) form, None, None)
      | Press_Save \<Rightarrow>
          (case form of
             Some f \<Rightarrow> if lf_pending f then (form, None, None)
               else (Some (f\<lparr> lf_pending := True \<rparr>), Some (js_trim (lf_text f), lf_flag f), None)
           | None \<Rightarrow> (form, None, None))
      | Press_Clear stored \<Rightarrow>
          (case form of
             Some f \<Rightarrow> if lf_pending f \<or> stored = None then (form, None, None)
               else (Some (f\<lparr> lf_pending := True \<rparr>), Some ([], NoFlag), None)
           | None \<Rightarrow> (form, None, None))
      | Label_Answered answer \<Rightarrow>
          ((case answer of Inl problem \<Rightarrow> map_option (\<lambda>f. f\<lparr> lf_pending := False \<rparr>) form | Inr body \<Rightarrow> None),
           None, Some (label_notice answer)))"

definition label_control :: "auth_me option \<Rightarrow> aircraft_label option \<Rightarrow> string option" where
  "label_control me stored =
     (if has_role me ''operator'' then Some (if stored \<noteq> None then ''Edit label'' else ''Label'') else None)"

section \<open>The API\<close>

definition max_label_length :: nat where "max_label_length = 120"
definition max_serial_length :: nat where "max_serial_length = 64"

definition aircraft_serial :: "string \<Rightarrow> string + string" where
  "aircraft_serial segment =
     (let serial = go_trim segment
      in if serial = [] then Inl ''serial is required''
         else if max_serial_length < length serial then Inl ''serial must be at most 64 characters''
         else Inr serial)"

type_synonym label_store = "(string \<times> aircraft_label) list"

definition flag_of_text :: "string \<Rightarrow> aircraft_flag option" where
  "flag_of_text s = find (\<lambda>f. flag_text f = s) (map fst flag_options)"

definition put_label :: "string \<Rightarrow> string \<Rightarrow> string \<Rightarrow> string \<Rightarrow> label_store \<Rightarrow> string + label_store" where
  "put_label now segment label_text flag_field store =
     (case aircraft_serial segment of
        Inl problem \<Rightarrow> Inl problem
      | Inr serial \<Rightarrow>
          (let label = go_trim label_text
           in if max_label_length < length label then Inl ''label must be at most 120 characters''
              else (case flag_of_text (go_trim flag_field) of
                  None \<Rightarrow> Inl ''flag must be one of known, watch, ignore, or empty to clear it''
                | Some flag \<Rightarrow>
                    if label = [] \<and> flag = NoFlag then Inr (AList.delete serial store)
                    else Inr (AList.update serial
                      \<lparr> al_serial = serial, al_label = label, al_flag = flag, al_updated_at = now \<rparr> store))))"

definition list_labels :: "label_store \<Rightarrow> aircraft_label list" where
  "list_labels store = js_sort (\<lambda>a b. code_unit_compare (al_serial a) (al_serial b)) (map snd store)"

text \<open>What every store the API keeps looks like: one label a serial, under its own serial.\<close>

definition label_store_ok :: "label_store \<Rightarrow> bool" where
  "label_store_ok store \<longleftrightarrow>
     distinct (map fst store) \<and>
     list_all (\<lambda>(k, l). al_serial l = k \<and> go_trim k = k \<and> k \<noteq> [] \<and> go_trim (al_label l) = al_label l \<and>
       length (al_label l) \<le> max_label_length \<and> \<not> (al_label l = [] \<and> al_flag l = NoFlag)) store"

section \<open>What is saved is shown\<close>

lemma flag_of_text_back [simp]: "flag_of_text (go_trim (flag_text f)) = Some f"
proof -
  have "go_trim [] = []" "go_trim ''known'' = ''known''" "go_trim ''watch'' = ''watch''" "go_trim ''ignore'' = ''ignore''"
    by code_simp+
  then have "go_trim (flag_text f) = flag_text f" by (cases f) simp_all
  then show ?thesis by (cases f) (simp_all add: flag_of_text_def flag_options_def)
qed

lemma label_store_values: "label_store_ok store \<Longrightarrow> map al_serial (map snd store) = map fst store"
  by (induction store) (auto simp: label_store_ok_def)

lemma use_label_of_list:
  assumes "label_store_ok store" "serial \<noteq> []"
  shows "use_aircraft_label (list_labels store) (Some serial) = map_of store serial"
proof -
  have set': "set (list_labels store) = snd ` set store" by (simp add: list_labels_def)
  have serials: "l \<in> snd ` set store \<and> al_serial l = k \<longleftrightarrow> (k, l) \<in> set store" for k l
    using assms(1) by (force simp: label_store_ok_def list_all_iff)
  have "distinct (map fst store)" using assms(1) by (simp add: label_store_ok_def)
  note in_map = map_of_eq_Some_iff [OF this]
  have found: "find (\<lambda>e. al_serial e = serial) (list_labels store) = map_of store serial"
  proof (cases "find (\<lambda>e. al_serial e = serial) (list_labels store)")
    case None
    then have "(serial, l) \<notin> set store" for l using serials set' by (auto simp: find_None_iff)
    then show ?thesis using None in_map by (metis option.exhaust)
  next
    case (Some l)
    then have "l \<in> set (list_labels store)" "al_serial l = serial" by (auto simp: find_Some_iff)
    then have "map_of store serial = Some l" using serials [of l serial] set' in_map by blast
    then show ?thesis using Some by simp
  qed
  have "use_aircraft_label (list_labels store) (Some serial) = find (\<lambda>e. al_serial e = serial) (list_labels store)"
    using assms(2) by (simp add: use_aircraft_label_def truthy_def)
  then show ?thesis using found by simp
qed

lemma put_label_inr:
  assumes "go_trim serial = serial" "serial \<noteq> []" "length serial \<le> max_serial_length"
    and "length (go_trim label) \<le> max_label_length"
  shows "put_label now serial label (flag_text flag) store =
     Inr (if go_trim label = [] \<and> flag = NoFlag then AList.delete serial store
       else AList.update serial \<lparr> al_serial = serial, al_label = go_trim label, al_flag = flag, al_updated_at = now \<rparr> store)"
  using assms by (simp add: put_label_def aircraft_serial_def Let_def)

lemma text_trim_shorter: "length (text_trim blanks s) \<le> length s"
  using strip_front_suffix [of blanks s, THEN suffix_length_le]
    strip_front_suffix [of "map rev blanks" "rev (strip_front blanks s)", THEN suffix_length_le]
  by (simp add: text_trim_def)

lemma label_store_delete: "label_store_ok store \<Longrightarrow> label_store_ok (AList.delete k store)"
  by (auto simp: label_store_ok_def list_all_iff AList.delete_eq distinct_map_filter)

lemma label_store_update:
  assumes "label_store_ok store" "al_serial l = k" "go_trim k = k" "k \<noteq> []" "go_trim (al_label l) = al_label l"
    "length (al_label l) \<le> max_label_length" "\<not> (al_label l = [] \<and> al_flag l = NoFlag)"
  shows "label_store_ok (AList.update k l store)"
proof -
  have "distinct (map fst (AList.update k l store))" using assms(1) by (simp add: label_store_ok_def distinct_update)
  moreover have "set (AList.update k l store) \<subseteq> insert (k, l) (set store)"
    by (induction store) auto
  ultimately show ?thesis using assms by (fastforce simp: label_store_ok_def list_all_iff)
qed

text \<open>C18: A label that was saved is the label shown, for an aircraft whose serial has no blanks around it and at
  most 64 bytes and a label of at most 120 bytes: after the press of Save on a form, the API's list gives
  the aircraft the text that was typed, less the blanks around it, and the flag that was picked, or no
  label when both are empty; every other aircraft keeps its own. A form opened on the stored label and
  saved untouched sends the stored flag and the stored label, less the blanks JavaScript sees around
  it. (What happens outside these bounds is \<open>padded_serial_never_shows_its_label\<close> and
  \<open>label_that_fits_is_refused\<close>.)\<close>

theorem saved_label_is_shown:
  assumes "label_store_ok store" "go_trim serial = serial" "serial \<noteq> []" "length serial \<le> max_serial_length"
    and "label_step (Some f) Press_Save = (form, Some (label, flag), notice)" "length label \<le> max_label_length"
  shows "\<exists>store'. put_label now serial label (flag_text flag) store = Inr store' \<and> label_store_ok store' \<and>
    use_aircraft_label (list_labels store') (Some serial) =
      (let shown = go_trim (js_trim (lf_text f))
       in if shown = [] \<and> lf_flag f = NoFlag then None
          else Some \<lparr> al_serial = serial, al_label = shown, al_flag = lf_flag f, al_updated_at = now \<rparr>) \<and>
    (other \<noteq> serial \<longrightarrow>
       use_aircraft_label (list_labels store') (Some other) = use_aircraft_label (list_labels store) (Some other)) \<and>
    (f = open_label (Some stored) \<longrightarrow> label = js_trim (al_label stored) \<and> flag = al_flag stored)"
proof -
  have sent: "label = js_trim (lf_text f)" "flag = lf_flag f"
    using assms(5) by (auto simp: label_step_def split: if_splits)
  let ?l = "\<lparr> al_serial = serial, al_label = go_trim label, al_flag = flag, al_updated_at = now \<rparr>"
  let ?store = "if go_trim label = [] \<and> flag = NoFlag then AList.delete serial store
    else AList.update serial ?l store"
  have len: "length (go_trim label) \<le> max_label_length"
    using text_trim_shorter [of "[CHR 0xC2, CHR 0x85] # shared_blanks" label] assms(6) by (simp add: go_trim_def)
  have put: "put_label now serial label (flag_text flag) store = Inr ?store"
    by (rule put_label_inr [OF assms(2-4) len])
  have ok: "label_store_ok ?store"
    using label_store_delete [OF assms(1)] label_store_update [OF assms(1), of ?l serial] assms(2,3) len by auto
  have shown: "use_aircraft_label (list_labels ?store) (Some serial) =
      (if go_trim label = [] \<and> flag = NoFlag then None else Some ?l)"
    using use_label_of_list [OF ok assms(3)] by (simp add: update_conv' AList.delete_conv')
  have others: "use_aircraft_label (list_labels ?store) (Some other) = use_aircraft_label (list_labels store) (Some other)"
    if "other \<noteq> serial"
  proof (cases "other = []")
    case True
    then show ?thesis by (simp add: use_aircraft_label_def truthy_def)
  next
    case False
    then show ?thesis
      using use_label_of_list [OF ok False] use_label_of_list [OF assms(1) False] that
      by (simp add: update_conv' AList.delete_conv')
  qed
  have stored: "label = js_trim (al_label stored) \<and> flag = al_flag stored" if "f = open_label (Some stored)"
    using that by (simp add: sent open_label_def)
  show ?thesis using put ok shown others stored unfolding sent Let_def by blast
qed

theorem saved_label_is_shown_witness:
  "\<exists>store'. put_label ''now'' ''SN1'' ''Mini'' ''watch'' [] = Inr store' \<and>
    use_aircraft_label (list_labels store') (Some ''SN1'') =
      Some \<lparr> al_serial = ''SN1'', al_label = ''Mini'', al_flag = Watch, al_updated_at = ''now'' \<rparr>"
proof -
  let ?f = "\<lparr> lf_text = '' Mini '', lf_flag = Watch, lf_pending = False \<rparr>"
  have t: "js_trim '' Mini '' = ''Mini''" "go_trim ''SN1'' = ''SN1''" "go_trim ''Mini'' = ''Mini''" by code_simp+
  have "label_step (Some ?f) Press_Save = (Some (?f\<lparr> lf_pending := True \<rparr>), Some (''Mini'', Watch), None)"
    by (simp add: label_step_def t)
  from saved_label_is_shown [OF _ t(2) _ _ this, of "[]" "''now''"] show ?thesis
    by (simp add: label_store_ok_def max_serial_length_def max_label_length_def t) blast
qed

section \<open>Where a label is lost\<close>

text \<open>The API trims the serial it is given, and the console looks for the serial that was broadcast.\<close>

lemma padded_serial_never_shows_its_label:
  assumes "label_store_ok store" "go_trim serial \<noteq> serial"
  shows "use_aircraft_label (list_labels store) (Some serial) = None"
proof (cases "serial = []")
  case True
  then show ?thesis by (simp add: use_aircraft_label_def truthy_def)
next
  case False
  have "(serial, l) \<notin> set store" for l
    using assms by (auto simp: label_store_ok_def list_all_iff)
  then have "map_of store serial = None" by (metis map_of_SomeD option.exhaust)
  then show ?thesis using use_label_of_list [OF assms(1) False] by simp
qed

text \<open>The browser counts UTF-16 units against the limit of the field, the API counts bytes: 61 letters with an
  umlaut fit the field and are refused.\<close>

definition utf16_units :: "string \<Rightarrow> nat" where
  "utf16_units s =
     sum_list (map (\<lambda>c. let n = (of_char c :: nat) in if 128 \<le> n \<and> n < 192 then 0 else if 240 \<le> n then 2 else 1) s)"

lemma label_that_fits_is_refused:
  "let label = concat (replicate 61 [CHR 0xC3, CHR 0xBC])
   in utf16_units label = 61 \<and> put_label now ''SN1'' label [] store = Inl ''label must be at most 120 characters''"
proof -
  have "utf16_units (concat (replicate 61 [CHR 0xC3, CHR 0xBC])) = 61" by code_simp
  moreover have "length (go_trim (concat (replicate 61 [CHR 0xC3, CHR 0xBC]))) = 122" by code_simp
  moreover have "aircraft_serial ''SN1'' = Inr ''SN1''" by code_simp
  ultimately show ?thesis by (simp add: put_label_def max_label_length_def Let_def)
qed

end
