(* ===== verification/Exports.thy ===== *)
theory Exports
  imports JsJson LogStore TrackTier
begin

text \<open>
  What leaves the console as a file, and the log screen: \<open>features/tracks/track-export.ts\<close>, the exports
  of \<open>features/logs/log-store.ts\<close>, the filters of \<open>features/logs/logs-view.tsx\<close> and the search
  parameters of \<open>routes/logs.tsx\<close>. The files are checked against readers of their formats: RFC 4180 for
  CSV, \<open>JSON.parse\<close> for each line of NDJSON, and RFC 7946 over \<open>JSON.parse\<close> for GeoJSON. \<open>num\<close> is \<open>String(number)\<close>.
\<close>

section \<open>CSV\<close>

definition csv_special :: "char \<Rightarrow> bool" where
  "csv_special c \<longleftrightarrow> c = quote_char \<or> c = CHR '','' \<or> c = newline"

definition double_quotes :: "string \<Rightarrow> string" where
  "double_quotes s = concat (map (\<lambda>c. if c = quote_char then [c, c] else [c]) s)"

definition csv_field :: "string \<Rightarrow> string" where
  "csv_field v = (if list_ex csv_special v then quote_char # double_quotes v @ [quote_char] else v)"

definition opt_num :: "(real \<Rightarrow> string) \<Rightarrow> real option \<Rightarrow> string" where
  "opt_num num v = (case v of None \<Rightarrow> [] | Some x \<Rightarrow> num x)"

definition positions_header :: string where
  "positions_header = ''at,lat,lon,alt_geodetic_m,height_agl_m,speed_mps,track_deg''"

definition position_record :: "(real \<Rightarrow> string) \<Rightarrow> position \<Rightarrow> string" where
  "position_record num p = join '',''
     [csv_field (nullish (pos_at p) []), num (pos_lat p), num (pos_lon p), opt_num num (pos_alt_geodetic_m p),
      opt_num num (pos_height_agl_m p), opt_num num (pos_speed_mps p), opt_num num (pos_track_deg p)]"

definition positions_csv :: "(real \<Rightarrow> string) \<Rightarrow> position list \<Rightarrow> string" where
  "positions_csv num ps = join [newline] (positions_header # map (position_record num) ps @ [[]])"

definition rssi_csv :: "(real \<Rightarrow> string) \<Rightarrow> rssi_sample list \<Rightarrow> string" where
  "rssi_csv num samples =
     join [newline] (''at,rssi_dbm'' # map (\<lambda>s. csv_field (rs_ts s) @ '','' @ num (rs_rssi s)) samples @ [[]])"

section \<open>GeoJSON and the file name\<close>

definition json_opt :: "string option \<Rightarrow> json" where
  "json_opt v = (case v of None \<Rightarrow> JNull | Some s \<Rightarrow> JStr s)"

definition path_coords :: "position \<Rightarrow> json" where
  "path_coords p =
     JArr (case pos_alt_geodetic_m p of
         None \<Rightarrow> [JNum (pos_lon p), JNum (pos_lat p)]
       | Some a \<Rightarrow> [JNum (pos_lon p), JNum (pos_lat p), JNum a])"

definition path_document :: "track \<Rightarrow> position list \<Rightarrow> json" where
  "path_document t history =
     JObj [(''type'', JStr ''FeatureCollection''),
       (''features'', JArr
         (JObj [(''type'', JStr ''Feature''),
            (''geometry'', JObj [(''type'', JStr ''LineString''), (''coordinates'', JArr (map path_coords history))]),
            (''properties'', JObj
              [(''track_id'', JStr (trk_track_id t)), (''serial'', json_opt (trk_serial t)),
               (''vendor'', json_opt (trk_vendor t)), (''state'', JStr (state_text (trk_state t))),
               (''first_seen'', JStr (trk_first_seen t)), (''last_seen'', JStr (trk_last_seen t)),
               (''detection_count'', JNum (of_int (trk_detection_count t)))])] #
          (case trk_operator t of None \<Rightarrow> []
           | Some q \<Rightarrow>
               [JObj [(''type'', JStr ''Feature''),
                  (''geometry'', JObj [(''type'', JStr ''Point''),
                     (''coordinates'', JArr [JNum (pos_lon q), JNum (pos_lat q)])]),
                  (''properties'', JObj [(''role'', JStr ''operator'')])]])))]"

definition path_geojson :: "(real \<Rightarrow> string) \<Rightarrow> track \<Rightarrow> position list \<Rightarrow> string" where
  "path_geojson num t history = print_json num ''  '' [] (path_document t history)"

definition safe_char :: "char \<Rightarrow> bool" where
  "safe_char c \<longleftrightarrow>
     (let n = (of_char c :: nat)
      in (65 \<le> n \<and> n \<le> 90) \<or> (97 \<le> n \<and> n \<le> 122) \<or> (48 \<le> n \<and> n \<le> 57) \<or> c \<in> {CHR ''.'', CHR ''_'', CHR ''-''})"

text \<open>Each run of other characters becomes one dash.\<close>

fun replace_unsafe :: "bool \<Rightarrow> string \<Rightarrow> string" where
  "replace_unsafe in_run [] = []"
| "replace_unsafe in_run (c # cs) =
     (if safe_char c then c # replace_unsafe False cs
      else if in_run then replace_unsafe True cs else CHR ''-'' # replace_unsafe True cs)"

definition export_basename :: "track \<Rightarrow> string" where
  "export_basename t =
     ''classg-track-'' @ replace_unsafe False (nullish (or_else (trk_serial t) (trk_first_mac t)) (trk_track_id t))"

section \<open>The log's files\<close>

fun level_text :: "log_level \<Rightarrow> string" where
  "level_text Debug = ''debug''"
| "level_text Info = ''info''"
| "level_text Warn = ''warn''"
| "level_text Error = ''error''"

fun source_text :: "log_source \<Rightarrow> string" where
  "source_text SrcStream = ''stream''"
| "source_text SrcTrack = ''track''"
| "source_text SrcDetection = ''detection''"
| "source_text SrcSensor = ''sensor''"
| "source_text SrcCapture = ''capture''"
| "source_text SrcSpectrum = ''spectrum''"
| "source_text SrcDeploy = ''deploy''"
| "source_text SrcApi = ''api''"
| "source_text SrcUi = ''ui''"

definition log_sources :: "log_source list" where
  "log_sources = [SrcStream, SrcTrack, SrcDetection, SrcSensor, SrcCapture, SrcSpectrum, SrcDeploy, SrcApi, SrcUi]"

fun detail_json :: "detail_value \<Rightarrow> json" where
  "detail_json (DStr s) = JStr s"
| "detail_json (DNum x) = JNum x"
| "detail_json (DBool b) = JBool b"
| "detail_json DNull = JNull"

definition detail_object :: "log_detail \<Rightarrow> json" where
  "detail_object d = JObj (map (\<lambda>(k, v). (k, detail_json v)) d)"

text \<open>The members in the order of the literals the callers append, then those \<open>push\<close> adds.\<close>

definition entry_object :: "log_entry \<Rightarrow> json" where
  "entry_object e =
     JObj ([(''level'', JStr (level_text (le_level e))), (''source'', JStr (source_text (le_source e))),
         (''message'', JStr (le_message e))] @
       (case le_track_id e of None \<Rightarrow> [] | Some i \<Rightarrow> [(''trackId'', JStr i)]) @
       (case le_detail e of None \<Rightarrow> [] | Some d \<Rightarrow> [(''detail'', detail_object d)]) @
       [(''id'', JNum (of_nat (le_id e))), (''at'', JStr (le_at e))])"

definition to_ndjson :: "(real \<Rightarrow> string) \<Rightarrow> log_entry list \<Rightarrow> string" where
  "to_ndjson num entries = join [newline] (map (\<lambda>e. stringify num (entry_object e)) entries)"

definition log_line :: "(real \<Rightarrow> string) \<Rightarrow> log_entry \<Rightarrow> string" where
  "log_line num e = join '',''
     [le_at e, level_text (le_level e), source_text (le_source e), csv_field (le_message e),
      nullish (le_track_id e) [],
      csv_field (case le_detail e of None \<Rightarrow> [] | Some d \<Rightarrow> stringify num (detail_object d))]"

definition to_csv :: "(real \<Rightarrow> string) \<Rightarrow> log_entry list \<Rightarrow> string" where
  "to_csv num entries =
     join [newline] (''timestamp,level,source,message,track_id,detail'' # map (log_line num) entries)"

section \<open>The log screen\<close>

definition render_cap :: nat where "render_cap = 400"

definition haystack :: "(real \<Rightarrow> string) \<Rightarrow> log_entry \<Rightarrow> string" where
  "haystack num e = to_lower
     (le_message e @ '' '' @ source_text (le_source e) @ '' '' @ nullish (le_track_id e) [] @ '' '' @
      (case le_detail e of None \<Rightarrow> [] | Some d \<Rightarrow> stringify num (detail_object d)))"

definition filtered_entries ::
  "(real \<Rightarrow> string) \<Rightarrow> log_level \<Rightarrow> log_source list \<Rightarrow> string \<Rightarrow> log_entry list \<Rightarrow> log_entry list" where
  "filtered_entries num min_level sources search entries =
     (let needle = to_lower (trim search)
      in filter (\<lambda>e.
           if level_rank (le_level e) < level_rank min_level then False
           else if le_source e \<notin> set sources then False
           else if needle = [] then True
           else js_includes (haystack num e) needle) entries)"

definition visible_entries :: "log_entry list \<Rightarrow> log_entry list" where
  "visible_entries filtered = (if length filtered > render_cap then take_last render_cap filtered else filtered)"

definition level_counts :: "log_entry list \<Rightarrow> log_level \<Rightarrow> nat" where
  "level_counts entries =
     fold (\<lambda>e tally. tally(le_level e := tally (le_level e) + 1)) entries (\<lambda>_. 0)"

text \<open>A \<open>Set\<close> of sources is the list of its members in insertion order.\<close>

definition toggle_source :: "log_source \<Rightarrow> log_source list \<Rightarrow> log_source list" where
  "toggle_source src sources =
     (let next = (if src \<in> set sources then removeAll src sources else sources @ [src])
      in if next = [] then log_sources else next)"

definition source_named :: "string \<Rightarrow> log_source option" where
  "source_named name = find (\<lambda>s. source_text s = name) log_sources"

definition parse_log_sources :: "string option \<Rightarrow> log_source list" where
  "parse_log_sources value =
     (case value of None \<Rightarrow> log_sources
      | Some v \<Rightarrow>
          let known = List.map_filter (\<lambda>name. source_named (trim name)) (split_on (CHR '','') [] v)
          in if known \<noteq> [] then fold set_add known [] else log_sources)"

definition format_log_sources :: "log_source list \<Rightarrow> string option" where
  "format_log_sources sources =
     (if length sources = length log_sources then None
      else Some (join '','' (map source_text (filter (\<lambda>s. s \<in> set sources) log_sources))))"

section \<open>Reading CSV\<close>

text \<open>
  A reader of RFC 4180: the mode says whether a field has begun, and how. Outside quotes a line break is
  never part of a field; besides the CR LF of the RFC a lone line feed, which these files use, and a
  lone carriage return end a record too, as spreadsheets have it.
\<close>

datatype csv_mode = Field_Start | Plain_Field | In_Quotes | Quote_Closed | Line_Start

definition carriage_return :: char where "carriage_return = CHR 0x0D"

fun csv_read :: "csv_mode \<Rightarrow> string \<Rightarrow> string list \<Rightarrow> string \<Rightarrow> string list list" where
  "csv_read m f row [] = (if (m = Field_Start \<or> m = Line_Start) \<and> row = [] then [] else [row @ [f]])"
| "csv_read m f row (c # cs) =
     (if m = In_Quotes then
        (if c = quote_char then csv_read Quote_Closed f row cs else csv_read In_Quotes (f @ [c]) row cs)
      else if m = Quote_Closed \<and> c = quote_char then csv_read In_Quotes (f @ [c]) row cs
      else if (m = Field_Start \<or> m = Line_Start) \<and> c = quote_char then csv_read In_Quotes f row cs
      else if m = Line_Start \<and> c = newline then csv_read Field_Start f row cs
      else if c = CHR '','' then csv_read Field_Start [] (row @ [f]) cs
      else if c = newline then (row @ [f]) # csv_read Field_Start [] [] cs
      else if c = carriage_return then (row @ [f]) # csv_read Line_Start [] [] cs
      else csv_read Plain_Field (f @ [c]) row cs)"

definition csv_rows :: "string \<Rightarrow> string list list" where
  "csv_rows s = csv_read Field_Start [] [] s"

definition plain_field :: "string \<Rightarrow> bool" where
  "plain_field v \<longleftrightarrow> \<not> list_ex csv_special v"

lemma plain_csv_field [simp]: "plain_field v \<Longrightarrow> csv_field v = v"
  by (simp add: plain_field_def csv_field_def)

text \<open>A text that its quotes protect or that needs none: the writer quotes nothing for a carriage return.\<close>

definition csv_safe :: "string \<Rightarrow> bool" where
  "csv_safe v \<longleftrightarrow> list_ex csv_special v \<or> carriage_return \<notin> set v"

definition ends_field :: "string \<Rightarrow> bool" where
  "ends_field s \<longleftrightarrow> s = [] \<or> hd s = CHR '','' \<or> hd s = newline"

lemma read_quoted:
  "csv_read In_Quotes f row (double_quotes v @ quote_char # s) = csv_read Quote_Closed (f @ v) row s"
  by (induction v arbitrary: f) (simp_all add: double_quotes_def)

lemma read_plain:
  "plain_field v \<Longrightarrow> carriage_return \<notin> set v \<Longrightarrow> m \<in> {Field_Start, Plain_Field} \<Longrightarrow>
   csv_read m f row (v @ s) = csv_read (if v = [] then m else Plain_Field) (f @ v) row s"
  by (induction v arbitrary: f m) (auto simp: plain_field_def csv_special_def)

text \<open>A written field followed by a separator is read as its value.\<close>

lemma read_field_comma:
  assumes "csv_safe v"
  shows "csv_read Field_Start [] row (csv_field v @ CHR '','' # s) = csv_read Field_Start [] (row @ [v]) s"
proof (cases "plain_field v")
  case True
  then have "carriage_return \<notin> set v" using assms by (simp add: csv_safe_def plain_field_def)
  then show ?thesis using True by (simp add: read_plain quote_char_def)
next
  case False
  then have "csv_field v = quote_char # double_quotes v @ [quote_char]" by (simp add: csv_field_def plain_field_def)
  then show ?thesis using read_quoted [of "[]" row v] by (simp add: char_defs)
qed

lemma read_field_newline:
  assumes "csv_safe v"
  shows "csv_read Field_Start [] row (csv_field v @ newline # s) = (row @ [v]) # csv_read Field_Start [] [] s"
proof (cases "plain_field v")
  case True
  then have "carriage_return \<notin> set v" using assms by (simp add: csv_safe_def plain_field_def)
  then show ?thesis using True by (simp add: read_plain) (simp add: char_defs)
next
  case False
  then have "csv_field v = quote_char # double_quotes v @ [quote_char]" by (simp add: csv_field_def plain_field_def)
  then show ?thesis using read_quoted [of "[]" row v] by (simp add: char_defs)
qed

lemma read_field_end:
  assumes "row \<noteq> []" "csv_safe v"
  shows "csv_read Field_Start [] row (csv_field v) = [row @ [v]]"
proof (cases "plain_field v")
  case True
  then have "carriage_return \<notin> set v" using assms by (simp add: csv_safe_def plain_field_def)
  then show ?thesis using assms True read_plain [of v Field_Start "[]" row "[]"] by simp
next
  case False
  then have "csv_field v = quote_char # double_quotes v @ [quote_char]" by (simp add: csv_field_def plain_field_def)
  then show ?thesis using read_quoted [of "[]" row v "[]"] by (simp add: char_defs)
qed

text \<open>So a line of at least two fields is read as its fields.\<close>

lemma read_line_newline:
  "vs \<noteq> [] \<Longrightarrow> list_all csv_safe vs \<Longrightarrow> csv_read Field_Start [] row (join '','' (map csv_field vs) @ newline # s) =
     (row @ vs) # csv_read Field_Start [] [] s"
  by (induction vs arbitrary: row rule: list_nonempty_induct)
    (auto simp: read_field_newline neq_Nil_conv read_field_comma)

lemma read_line_end:
  "vs \<noteq> [] \<Longrightarrow> list_all csv_safe vs \<Longrightarrow> row \<noteq> [] \<Longrightarrow> csv_read Field_Start [] row (join '','' (map csv_field vs)) = [row @ vs]"
proof (induction vs arbitrary: row rule: list_nonempty_induct)
  case (cons v vs)
  then obtain w ws where w: "vs = w # ws" by (cases vs) auto
  then have "csv_read Field_Start [] row (join '','' (map csv_field (v # vs))) =
      csv_read Field_Start [] (row @ [v]) (join '','' (map csv_field vs))"
    using read_field_comma [of v row] cons.prems by simp
  then show ?case using cons by simp
qed (simp add: read_field_end)

definition csv_text :: "string list list \<Rightarrow> string" where
  "csv_text rows = join [newline] (map (\<lambda>r. join '','' (map csv_field r)) rows)"

lemma csv_text_reads_back:
  assumes "list_all (\<lambda>r. 2 \<le> length r \<and> list_all csv_safe r) rows"
  shows "csv_rows (csv_text rows) = rows" "csv_rows (csv_text rows @ [newline]) = rows \<or> rows = []"
proof -
  have first: "csv_rows (join '','' (map csv_field r)) = [r]" if len: "2 \<le> length r" and ok: "list_all csv_safe r" for r
  proof -
    obtain v w vs where r: "r = v # w # vs" using len
      by (metis Suc_le_length_iff numeral_2_eq_2)
    show ?thesis
      using ok read_field_comma [of v "[]"] read_line_end [of "w # vs" "[v]"] by (simp add: csv_rows_def r)
  qed
  show "csv_rows (csv_text rows) = rows"
    using assms
  proof (induction rows)
    case (Cons r rows)
    show ?case
    proof (cases rows)
      case Nil
      then show ?thesis using Cons first by (simp add: csv_text_def)
    next
      case (Cons q qs)
      have "r \<noteq> []" using Cons.prems by auto
      then show ?thesis
        using read_line_newline [of r "[]"] Cons.IH Cons.prems by (simp add: csv_text_def csv_rows_def local.Cons)
    qed
  qed (simp add: csv_text_def csv_rows_def)
  show "csv_rows (csv_text rows @ [newline]) = rows \<or> rows = []"
    using assms
  proof (induction rows)
    case (Cons r rows)
    have "r \<noteq> []" using Cons.prems by auto
    then show ?case
      using read_line_newline [of r "[]"] Cons.IH Cons.prems by (cases rows) (auto simp: csv_text_def csv_rows_def)
  qed simp
qed

section \<open>Texts without a line break\<close>

lemma number_char_plain: "number_char c \<Longrightarrow> \<not> csv_special c"
  by (auto simp: number_char_def csv_special_def char_defs is_digit_def digit_value_def)

lemma number_char_one_line: "number_char c \<Longrightarrow> c \<noteq> newline \<and> c \<noteq> carriage_return"
  by (auto simp: number_char_def carriage_return_def char_defs is_digit_def digit_value_def)

lemma hex_char_visible: "n < 16 \<Longrightarrow> hex_char n \<noteq> carriage_return"
  by (auto simp: hex_char_def carriage_return_def dest!: arg_cong [of _ _ "of_char :: char \<Rightarrow> nat"])

lemma prints_plain: "prints num x \<Longrightarrow> plain_field (num x)"
  using number_char_plain by (auto simp: prints_def plain_field_def list_ex_iff list_all_iff)

lemma plain_field_literal:
  "plain_field v \<Longrightarrow> newline \<notin> set v" "plain_field v \<Longrightarrow> CHR '','' \<notin> set v"
  by (auto simp: plain_field_def list_ex_iff csv_special_def)

lemma char_join:
  "c \<notin> set sep \<Longrightarrow> \<forall>s \<in> set xs. c \<notin> set s \<Longrightarrow> c \<notin> set (join sep xs)"
  by (induction sep xs rule: join.induct) auto

definition line_chars :: "char set" where "line_chars = {newline, carriage_return}"

lemma line_chars_not [simp]:
  "c \<in> line_chars \<Longrightarrow> c \<noteq> CHR '',''" "c \<in> line_chars \<Longrightarrow> c \<noteq> quote_char"
  "c \<in> line_chars \<Longrightarrow> c \<noteq> CHR '':''" "c \<in> line_chars \<Longrightarrow> c \<noteq> CHR ''[''" "c \<in> line_chars \<Longrightarrow> c \<noteq> CHR '']''"
  "c \<in> line_chars \<Longrightarrow> c \<noteq> CHR ''{''" "c \<in> line_chars \<Longrightarrow> c \<noteq> CHR ''}''"
  by (auto simp: line_chars_def char_defs carriage_return_def)

lemma line_chars_literals:
  "c \<in> line_chars \<Longrightarrow> c \<notin> set ''null'' \<and> c \<notin> set ''true'' \<and> c \<notin> set ''false'' \<and> c \<notin> set ''[]'' \<and> c \<notin> set ''{}''"
  by (auto simp: line_chars_def char_defs carriage_return_def)

lemma escaped_one_line:
  assumes "c \<in> line_chars"
  shows "c \<notin> set (escape_char d)"
proof -
  have "carriage_return \<notin> set (escape_char d)"
  proof -
    have "hex_char (of_char d div 16) \<noteq> carriage_return" if "of_char d < (32 :: nat)"
      by (rule hex_char_visible) (use that in simp)
    moreover have "hex_char (of_char d mod 16) \<noteq> carriage_return" by (rule hex_char_visible) simp
    ultimately show ?thesis
      by (auto simp: escape_char_def carriage_return_def char_defs split: if_splits)
  qed
  then show ?thesis using assms escaped_no_newline [of d] by (auto simp: line_chars_def)
qed

lemma json_string_one_line: "c \<in> line_chars \<Longrightarrow> c \<notin> set (json_string s)"
  using escaped_one_line by (simp add: json_string_def)

lemma prints_one_line: "prints num x \<Longrightarrow> c \<in> line_chars \<Longrightarrow> c \<notin> set (num x)"
  using number_char_one_line by (auto simp: prints_def list_all_iff line_chars_def)

lemma compact_one_line: "printable num v \<Longrightarrow> c \<in> line_chars \<Longrightarrow> c \<notin> set (print_json num [] i v)"
proof (induction v arbitrary: i)
  case (JArr vs)
  let ?t = "map (print_json num [] (i @ [])) vs"
  have "\<forall>s \<in> set ?t. c \<notin> set s" using JArr by (auto simp: list_all_iff)
  then have "c \<notin> set (join (CHR '','' # line_break [] (i @ [])) ?t)"
    using JArr.prems(2) by (intro char_join) (simp_all add: line_break_def)
  then show ?case using JArr.prems(2) line_chars_literals [of c] by (simp add: line_break_def)
next
  case (JObj ms)
  let ?t = "map (\<lambda>(k, v). json_string k @ colon [] @ print_json num [] (i @ []) v) ms"
  have "c \<notin> set (colon [])" using JObj.prems(2) by (simp add: colon_def)
  then have "\<forall>s \<in> set ?t. c \<notin> set s"
    using JObj json_string_one_line by (fastforce simp: list_all_iff)
  then have "c \<notin> set (join (CHR '','' # line_break [] (i @ [])) ?t)"
    using JObj.prems(2) by (intro char_join) (simp_all add: line_break_def)
  then show ?case unfolding print_json.simps json_members_text
    using JObj.prems(2) line_chars_literals [of c] by (simp add: line_break_def)
next
  case (JStr s)
  then show ?case by (simp add: json_string_one_line)
next
  case (JNum x)
  then show ?case using prints_one_line by simp
next
  case (JBool b)
  then show ?case using line_chars_literals [of c] by (cases b) simp_all
next
  case JNull
  then show ?case using line_chars_literals [of c] by simp
qed

section \<open>What the files hold\<close>

definition some_list :: "'a option \<Rightarrow> 'a list" where
  "some_list v = (case v of None \<Rightarrow> [] | Some x \<Rightarrow> [x])"

lemma list_all_some_list [simp]: "list_all P (some_list v) \<longleftrightarrow> pred_option P v"
  by (cases v) (simp_all add: some_list_def)

definition position_numbers :: "position \<Rightarrow> real list" where
  "position_numbers p = [pos_lat p, pos_lon p] @ some_list (pos_alt_geodetic_m p) @
     some_list (pos_height_agl_m p) @ some_list (pos_speed_mps p) @ some_list (pos_track_deg p)"

definition position_columns :: "string list" where
  "position_columns = [''at'', ''lat'', ''lon'', ''alt_geodetic_m'', ''height_agl_m'', ''speed_mps'', ''track_deg'']"

definition position_cells :: "(real \<Rightarrow> string) \<Rightarrow> position \<Rightarrow> string list" where
  "position_cells num p =
     [nullish (pos_at p) [], num (pos_lat p), num (pos_lon p), opt_num num (pos_alt_geodetic_m p),
      opt_num num (pos_height_agl_m p), opt_num num (pos_speed_mps p), opt_num num (pos_track_deg p)]"

lemma opt_num_plain: "pred_option (prints num) v \<Longrightarrow> plain_field (opt_num num v)"
  using prints_plain by (cases v) (simp_all add: opt_num_def plain_field_def)

lemma number_safe: "prints num x \<Longrightarrow> csv_safe (num x)"
  using number_char_one_line by (auto simp: prints_def csv_safe_def list_all_iff)

lemma opt_num_safe: "pred_option (prints num) v \<Longrightarrow> csv_safe (opt_num num v)"
  using number_safe by (cases v) (simp_all add: opt_num_def csv_safe_def)

lemma position_record_cells:
  assumes "list_all (prints num) (position_numbers p)"
  shows "position_record num p = join '','' (map csv_field (position_cells num p))"
  using assms opt_num_plain prints_plain
  by (simp add: position_record_def position_cells_def position_numbers_def)

lemma join_snoc_empty: "xs \<noteq> [] \<Longrightarrow> join sep (xs @ [[]]) = join sep xs @ sep"
  by (induction xs rule: list_nonempty_induct) (auto simp: neq_Nil_conv)

lemma csv_file_reads_back:
  assumes "list_all (\<lambda>r. 2 \<le> length r \<and> list_all csv_safe r) rows" "rows \<noteq> []"
  shows "csv_rows (join [newline] (map (\<lambda>r. join '','' (map csv_field r)) rows @ [[]])) = rows"
  using csv_text_reads_back(2) [OF assms(1)] assms(2) by (simp add: join_snoc_empty csv_text_def)

lemma plain_header: "list_all plain_field r \<Longrightarrow> map csv_field r = r"
  by (auto simp: list_all_iff intro: map_idI)

lemma path_document_printable:
  assumes "list_all (prints num) (concat (map position_numbers history))"
    and "list_all (prints num) (of_int (trk_detection_count t) #
      (case trk_operator t of None \<Rightarrow> [] | Some q \<Rightarrow> position_numbers q))"
  shows "printable num (path_document t history)"
proof -
  have "printable num (path_coords p)" if "p \<in> set history" for p
  proof -
    have "list_all (prints num) (position_numbers p)" using assms(1) that by (auto simp: list_all_iff)
    then show ?thesis
      by (auto simp: path_coords_def position_numbers_def split: option.splits)
  qed
  then have coords: "list_all (printable num) (map path_coords history)" by (simp add: list_all_iff)
  have opt: "printable num (json_opt v)" for v by (cases v) (simp_all add: json_opt_def)
  show ?thesis
    using assms(2) coords opt
    by (cases "trk_operator t") (simp_all add: path_document_def position_numbers_def)
qed

fun detail_printable :: "(real \<Rightarrow> string) \<Rightarrow> log_detail \<Rightarrow> bool" where
  "detail_printable num d = (distinct (map fst d) \<and> list_all (\<lambda>kv. printable num (detail_json (snd kv))) d)"

definition entry_prints :: "(real \<Rightarrow> string) \<Rightarrow> log_entry \<Rightarrow> bool" where
  "entry_prints num e \<longleftrightarrow> prints num (of_nat (le_id e)) \<and>
     (case le_detail e of None \<Rightarrow> True | Some d \<Rightarrow> detail_printable num d)"

lemma detail_object_printable: "detail_printable num d \<Longrightarrow> printable num (detail_object d)"
  by (auto simp: detail_object_def list_all_iff comp_def case_prod_unfold)

lemma entry_object_printable: "entry_prints num e \<Longrightarrow> printable num (entry_object e)"
  using detail_object_printable
  by (auto simp: entry_prints_def entry_object_def split: option.splits simp del: detail_printable.simps)

definition log_columns :: "string list" where
  "log_columns = [''timestamp'', ''level'', ''source'', ''message'', ''track_id'', ''detail'']"

definition log_cells :: "(real \<Rightarrow> string) \<Rightarrow> string list \<Rightarrow> log_entry \<Rightarrow> string list" where
  "log_cells num track_id e =
     [le_at e, level_text (le_level e), source_text (le_source e), le_message e] @ track_id @
     [case le_detail e of None \<Rightarrow> [] | Some d \<Rightarrow> stringify num (detail_object d)]"

lemma texts_plain: "plain_field (level_text l)" "plain_field (source_text s)"
  by (cases l; simp add: plain_field_def csv_special_def char_defs)
    (cases s; simp add: plain_field_def csv_special_def char_defs)

lemma texts_safe: "csv_safe (level_text l)" "csv_safe (source_text s)"
  by (cases l; simp add: csv_safe_def carriage_return_def) (cases s; simp add: csv_safe_def carriage_return_def)

lemma detail_safe:
  "entry_prints num e \<Longrightarrow> csv_safe (case le_detail e of None \<Rightarrow> [] | Some d \<Rightarrow> stringify num (detail_object d))"
  using compact_one_line [of num _ carriage_return] detail_object_printable
  by (auto simp: entry_prints_def csv_safe_def stringify_def line_chars_def simp del: detail_printable.simps
      split: option.splits)

definition line_field :: "string \<Rightarrow> bool" where
  "line_field v \<longleftrightarrow> plain_field v \<and> carriage_return \<notin> set v"

lemma line_field_safe: "line_field v \<Longrightarrow> csv_safe v"
  by (simp add: line_field_def csv_safe_def)

lemma log_columns_safe: "list_all csv_safe log_columns"
  by (simp add: log_columns_def csv_safe_def carriage_return_def)

lemma log_line_cells:
  assumes "plain_field (le_at e)" "list_all plain_field ids" "nullish (le_track_id e) [] = join '','' ids" "ids \<noteq> []"
  shows "log_line num e = join '','' (map csv_field (log_cells num ids e))"
proof -
  have "join '','' ids @ '','' @ x = join '','' (ids @ [x])" for x
    using assms(4) by (induction ids rule: list_nonempty_induct) (auto simp: neq_Nil_conv)
  then show ?thesis
    using assms texts_plain plain_header [of ids] by (cases ids) (simp_all add: log_line_def log_cells_def)
qed

section \<open>Properties\<close>

lemma position_cells_safe:
  "list_all (prints num) (position_numbers p) \<Longrightarrow> csv_safe (nullish (pos_at p) []) \<Longrightarrow>
   list_all csv_safe (position_cells num p)"
  by (simp add: position_cells_def position_numbers_def number_safe opt_num_safe)

lemma positions_csv_reads_back:
  assumes "list_all (prints num) (concat (map position_numbers history))"
    and "list_all (\<lambda>p. csv_safe (nullish (pos_at p) [])) history"
  shows "csv_rows (positions_csv num history) = position_columns # map (position_cells num) history"
proof -
  let ?rows = "position_columns # map (position_cells num) history"
  have "map (\<lambda>r. join '','' (map csv_field r)) ?rows = positions_header # map (position_record num) history"
    using assms(1) position_record_cells
    by (auto simp: positions_header_def position_columns_def csv_field_def csv_special_def char_defs list_all_iff)
  then have "positions_csv num history = join [newline] (map (\<lambda>r. join '','' (map csv_field r)) ?rows @ [[]])"
    unfolding positions_csv_def by (simp only: append_Cons)
  moreover have "list_all csv_safe (position_cells num p)" if "p \<in> set history" for p
    using assms that by (intro position_cells_safe) (auto simp: list_all_iff)
  ultimately show ?thesis
    using csv_file_reads_back [of ?rows]
    by (auto simp: position_columns_def position_cells_def list_all_iff csv_safe_def carriage_return_def)
qed

text \<open>
  Readers of the two files that know their formats and nothing of the code: a CSV record's cells go by
  the header's names, an empty cell is no reading; a GeoJSON coordinate is a longitude, a latitude
  and perhaps an altitude (RFC 7946), a \<open>LineString\<close> is the path and a \<open>Point\<close> with the role "operator"
  the operator's position.
\<close>

definition read_number :: "string \<Rightarrow> real option option" where
  "read_number cell = (if cell = [] then Some None else map_option Some (json_number cell))"

definition named_cell :: "string list \<Rightarrow> string list \<Rightarrow> string \<Rightarrow> string" where
  "named_cell header row name = nullish (map_of (zip header row) name) []"

definition read_position :: "string list \<Rightarrow> string list \<Rightarrow> position option" where
  "read_position header row =
     (case (json_number (named_cell header row ''lat''), json_number (named_cell header row ''lon''),
            read_number (named_cell header row ''alt_geodetic_m''), read_number (named_cell header row ''height_agl_m''),
            read_number (named_cell header row ''speed_mps''), read_number (named_cell header row ''track_deg'')) of
        (Some lat, Some lon, Some alt, Some height, Some speed, Some deg) \<Rightarrow>
          Some \<lparr> pos_lat = lat, pos_lon = lon, pos_alt_geodetic_m = alt, pos_height_agl_m = height,
                 pos_terrain_elevation_m = None, pos_speed_mps = speed, pos_track_deg = deg,
                 pos_at = (let a = named_cell header row ''at'' in if a = [] then None else Some a) \<rparr>
      | _ \<Rightarrow> None)"

definition read_positions :: "string \<Rightarrow> position option list" where
  "read_positions file = (case csv_rows file of [] \<Rightarrow> [] | header # rows \<Rightarrow> map (read_position header) rows)"

text \<open>What the CSV file carries of a position: everything but the terrain elevation.\<close>

definition exported_position :: "position \<Rightarrow> position" where
  "exported_position p =
     p\<lparr> pos_terrain_elevation_m := None, pos_at := (if pos_at p = Some [] then None else pos_at p) \<rparr>"

record geo_flight =
  gf_path :: "position option list"
  gf_operator :: "position option list"
  gf_properties :: "(string \<times> json) list list"

fun json_at :: "string \<Rightarrow> json \<Rightarrow> json option" where
  "json_at k (JObj ms) = map_of ms k"
| "json_at k _ = None"

fun geo_position :: "json \<Rightarrow> position option" where
  "geo_position (JArr [JNum lon, JNum lat]) =
     Some \<lparr> pos_lat = lat, pos_lon = lon, pos_alt_geodetic_m = None, pos_height_agl_m = None,
       pos_terrain_elevation_m = None, pos_speed_mps = None, pos_track_deg = None, pos_at = None \<rparr>"
| "geo_position (JArr [JNum lon, JNum lat, JNum alt]) =
     Some \<lparr> pos_lat = lat, pos_lon = lon, pos_alt_geodetic_m = Some alt, pos_height_agl_m = None,
       pos_terrain_elevation_m = None, pos_speed_mps = None, pos_track_deg = None, pos_at = None \<rparr>"
| "geo_position _ = None"

definition add_feature :: "json \<Rightarrow> geo_flight \<Rightarrow> geo_flight" where
  "add_feature f g =
     (let geometry = Option.bind (json_at ''geometry'' f) (json_at ''coordinates'');
          kind = Option.bind (json_at ''geometry'' f) (json_at ''type'');
          props = nullish (json_at ''properties'' f) JNull
      in if kind = Some (JStr ''LineString'') then
           (case (geometry, props) of (Some (JArr cs), JObj ms) \<Rightarrow>
              g\<lparr> gf_path := gf_path g @ map geo_position cs, gf_properties := gf_properties g @ [ms] \<rparr> | _ \<Rightarrow> g)
         else if kind = Some (JStr ''Point'') \<and> json_at ''role'' props = Some (JStr ''operator'') then
           (case geometry of Some c \<Rightarrow> g\<lparr> gf_operator := gf_operator g @ [geo_position c] \<rparr> | None \<Rightarrow> g)
         else g)"

definition read_geojson :: "string \<Rightarrow> geo_flight option" where
  "read_geojson file =
     (case json_parse file of None \<Rightarrow> None
      | Some doc \<Rightarrow>
          (case (json_at ''type'' doc, json_at ''features'' doc) of
             (Some (JStr kind), Some (JArr fs)) \<Rightarrow>
               if kind = ''FeatureCollection''
               then Some (fold add_feature fs \<lparr> gf_path = [], gf_operator = [], gf_properties = [] \<rparr>) else None
           | _ \<Rightarrow> None))"

definition place_of :: "real option \<Rightarrow> position \<Rightarrow> position" where
  "place_of alt p = \<lparr> pos_lat = pos_lat p, pos_lon = pos_lon p, pos_alt_geodetic_m = alt, pos_height_agl_m = None,
     pos_terrain_elevation_m = None, pos_speed_mps = None, pos_track_deg = None, pos_at = None \<rparr>"

lemma number_not_empty: "prints num x \<Longrightarrow> num x \<noteq> []"
  by (auto simp: prints_def json_number_def)

lemma read_cell_number: "pred_option (prints num) v \<Longrightarrow> read_number (opt_num num v) = Some v"
  using number_not_empty by (cases v) (auto simp: read_number_def opt_num_def prints_def)

lemma read_position_cells:
  "list_all (prints num) (position_numbers p) \<Longrightarrow>
   read_position position_columns (position_cells num p) = Some (exported_position p)"
  by (cases p)
    (auto simp: read_position_def position_columns_def position_cells_def named_cell_def position_numbers_def
      read_cell_number exported_position_def prints_def Let_def nullish_def split: option.splits)

lemma geo_position_coords: "geo_position (path_coords p) = Some (place_of (pos_alt_geodetic_m p) p)"
  by (simp add: path_coords_def place_of_def split: option.split)

lemma read_path_document:
  assumes "json_parse file = Some (path_document t history)"
  shows "read_geojson file = Some \<lparr> gf_path = map (\<lambda>p. Some (place_of (pos_alt_geodetic_m p) p)) history,
    gf_operator = (case trk_operator t of None \<Rightarrow> [] | Some q \<Rightarrow> [Some (place_of None q)]),
    gf_properties = [[(''track_id'', JStr (trk_track_id t)), (''serial'', json_opt (trk_serial t)),
      (''vendor'', json_opt (trk_vendor t)), (''state'', JStr (state_text (trk_state t))),
      (''first_seen'', JStr (trk_first_seen t)), (''last_seen'', JStr (trk_last_seen t)),
      (''detection_count'', JNum (of_int (trk_detection_count t)))]] \<rparr>"
  using assms
  by (cases "trk_operator t")
    (simp_all add: read_geojson_def path_document_def add_feature_def geo_position_coords place_of_def comp_def)

text \<open>C16: The files of a track give back what they carry, to readers that know the formats only. The CSV
  file, read by RFC 4180, has the header and one row per position, in order, with an empty cell for a
  reading never reported, and read by column name each row is its position again, all but the terrain
  elevation, which no column holds. The GeoJSON file, parsed as JSON and read by RFC 7946, is one path
  with each position's longitude, latitude and, where it was reported, altitude in their places, with
  the identity, state, times and count of the flight, and the operator's position if there is one.
  The timestamps may hold commas, quotes and line feeds, but no carriage return that none of these
  goes with: the writer does not quote for one.\<close>

theorem track_files_read_back:
  assumes "list_all (prints num) (concat (map position_numbers history))"
    and "list_all (prints num) (of_int (trk_detection_count t) #
      (case trk_operator t of None \<Rightarrow> [] | Some q \<Rightarrow> position_numbers q))"
    and "list_all (\<lambda>p. csv_safe (nullish (pos_at p) [])) history"
  shows "csv_rows (positions_csv num history) = position_columns # map (position_cells num) history \<and>
    read_positions (positions_csv num history) = map (\<lambda>p. Some (exported_position p)) history \<and>
    read_geojson (path_geojson num t history) = Some
      \<lparr> gf_path = map (\<lambda>p. Some (place_of (pos_alt_geodetic_m p) p)) history,
        gf_operator = (case trk_operator t of None \<Rightarrow> [] | Some q \<Rightarrow> [Some (place_of None q)]),
        gf_properties = [[(''track_id'', JStr (trk_track_id t)), (''serial'', json_opt (trk_serial t)),
          (''vendor'', json_opt (trk_vendor t)), (''state'', JStr (state_text (trk_state t))),
          (''first_seen'', JStr (trk_first_seen t)), (''last_seen'', JStr (trk_last_seen t)),
          (''detection_count'', JNum (of_int (trk_detection_count t)))]] \<rparr>"
proof -
  let ?rows = "position_columns # map (position_cells num) history"
  have csv: "csv_rows (positions_csv num history) = ?rows" by (rule positions_csv_reads_back [OF assms(1,3)])
  moreover have "read_position position_columns (position_cells num p) = Some (exported_position p)" if "p \<in> set history" for p
    using read_position_cells [of num p] assms(1) that by (auto simp: list_all_iff)
  moreover have "json_parse (path_geojson num t history) = Some (path_document t history)"
    using json_reads_back [OF path_document_printable [OF assms(1,2)], of "''  ''"]
    by (simp add: path_geojson_def json_blank_def)
  ultimately show ?thesis using read_path_document by (simp add: read_positions_def)
qed

text \<open>A carriage return alone is enough to break a row: nothing is quoted for it, so the row ends there.\<close>

theorem carriage_return_breaks_row:
  assumes "plain_field a" "plain_field b" "carriage_return \<notin> set a" "b \<noteq> []" "hd b \<noteq> carriage_return"
  shows "csv_rows (rssi_csv num [\<lparr> rs_ts = a @ carriage_return # b, rs_rssi = r \<rparr>]) ! 1 = [a]"
proof -
  have sep: "plain_field (a @ carriage_return # b)"
    using assms(1,2) by (simp add: plain_field_def csv_special_def carriage_return_def char_defs)
  have head: "csv_rows (''at,rssi_dbm'' @ newline # s) = [''at'', ''rssi_dbm''] # csv_read Field_Start [] [] s" for s
    by (simp add: csv_rows_def char_defs carriage_return_def)
  have "csv_rows (rssi_csv num [\<lparr> rs_ts = a @ carriage_return # b, rs_rssi = r \<rparr>]) =
      [''at'', ''rssi_dbm''] # csv_read Field_Start [] [] (a @ carriage_return # b @ '','' @ num r @ [newline])"
    using head [of "a @ carriage_return # b @ '','' @ num r @ [newline]"] sep by (simp add: rssi_csv_def)
  then show ?thesis
    using assms(1,3) by (simp add: read_plain) (simp add: carriage_return_def char_defs)
qed

definition whole_num :: "real \<Rightarrow> string" where "whole_num x = string_of_int \<lfloor>x\<rfloor>"

theorem carriage_return_breaks_row_witness:
  "csv_rows (rssi_csv whole_num [\<lparr> rs_ts = ''a'' @ carriage_return # ''b'', rs_rssi = 1 \<rparr>]) ! 1 = [''a'']"
  by (rule carriage_return_breaks_row) (simp_all add: plain_field_def csv_special_def char_defs carriage_return_def)

text \<open>The log's files lose nothing either: each line of the NDJSON is one entry's object, and the rows of
  the CSV are the entries' cells, whatever the details contain, as long as the two fields written
  unescaped, the timestamp and the track id, hold no comma, quote or line break, and no message holds
  a carriage return without a quote, comma or line feed beside it.\<close>

theorem log_files_read_back:
  assumes "list_all (entry_prints num) entries" "entries \<noteq> []"
    and "list_all (\<lambda>e. line_field (le_at e) \<and> line_field (nullish (le_track_id e) []) \<and> csv_safe (le_message e)) entries"
  shows "map json_parse (split_on newline [] (to_ndjson num entries)) = map (\<lambda>e. Some (entry_object e)) entries \<and>
    csv_rows (to_csv num entries) = log_columns # map (\<lambda>e. log_cells num [nullish (le_track_id e) []] e) entries"
proof
  have p: "printable num (entry_object e)" if "e \<in> set entries" for e
    using assms(1) that entry_object_printable by (auto simp: list_all_iff)
  then have "split_on newline [] (to_ndjson num entries) = map (\<lambda>e. stringify num (entry_object e)) entries"
    unfolding to_ndjson_def using assms(2) compact_one_line [of num _ newline]
    by (intro split_on_join) (auto simp: stringify_def line_chars_def)
  then show "map json_parse (split_on newline [] (to_ndjson num entries)) = map (\<lambda>e. Some (entry_object e)) entries"
    using p stringify_reads_back by simp
  let ?rows = "log_columns # map (\<lambda>e. log_cells num [nullish (le_track_id e) []] e) entries"
  have "map (\<lambda>r. join '','' (map csv_field r)) ?rows =
      ''timestamp,level,source,message,track_id,detail'' # map (log_line num) entries"
  proof -
    have "join '','' (map csv_field (log_cells num [nullish (le_track_id e) []] e)) = log_line num e"
      if "e \<in> set entries" for e
      using log_line_cells [of e "[nullish (le_track_id e) []]"] assms(3) that by (auto simp: list_all_iff line_field_def)
    moreover have "join '','' (map csv_field log_columns) = ''timestamp,level,source,message,track_id,detail''"
      by (simp add: log_columns_def csv_field_def csv_special_def char_defs)
    ultimately show ?thesis by simp
  qed
  then have "to_csv num entries = csv_text ?rows" unfolding to_csv_def csv_text_def by (simp only:)
  moreover have "list_all csv_safe (log_cells num [nullish (le_track_id e) []] e)" if "e \<in> set entries" for e
    using assms(1,3) that texts_safe detail_safe line_field_safe by (auto simp: log_cells_def list_all_iff)
  ultimately show "csv_rows (to_csv num entries) = ?rows"
    using csv_text_reads_back(1) [of ?rows] log_columns_safe
    by (simp add: list_all_iff) (simp add: log_columns_def log_cells_def)
qed

text \<open>A track id is written to the CSV as it is: one comma in it splits its cell, and the row has a column
  too many, with the detail under no header.\<close>

theorem comma_in_track_id_shifts_row:
  assumes "le_track_id e = Some (a @ '','' @ b)" "plain_field a" "plain_field b" "plain_field (le_at e)"
    and "list_all csv_safe (log_cells num [a, b] e)"
  shows "csv_rows (to_csv num [e]) = [log_columns, log_cells num [a, b] e] \<and>
    length (log_cells num [a, b] e) = Suc (length log_columns)"
proof -
  have "log_line num e = join '','' (map csv_field (log_cells num [a, b] e))"
    using assms by (intro log_line_cells) simp_all
  then have "to_csv num [e] = csv_text [log_columns, log_cells num [a, b] e]"
    by (simp add: to_csv_def csv_text_def log_columns_def csv_field_def csv_special_def char_defs)
  then show ?thesis
    using csv_text_reads_back(1) [of "[log_columns, log_cells num [a, b] e]"] assms(5) log_columns_safe
    by simp (simp add: log_columns_def log_cells_def)
qed

text \<open>A link to a filtered log shows the sources it was made from: parsing the formatted selection gives
  the selection back, for every selection of sources without repetition that is not empty, and the
  chips never make it empty.\<close>

theorem log_source_links_round_trip:
  assumes "distinct sources" "sources \<noteq> []"
  shows "set (parse_log_sources (format_log_sources sources)) = set sources \<and>
    toggle_source src sources \<noteq> [] \<and> distinct (toggle_source src sources)"
proof (intro conjI)
  have all: "set log_sources = UNIV" by (auto simp: log_sources_def intro: log_source.exhaust)
  have d: "distinct log_sources" by (simp add: log_sources_def)
  show "set (parse_log_sources (format_log_sources sources)) = set sources"
  proof (cases "length sources = length log_sources")
    case True
    then have "card (set sources) = card (set log_sources)"
      using assms(1) d by (simp add: distinct_card)
    moreover have "set sources \<subseteq> set log_sources" using all by simp
    ultimately have "set sources = set log_sources" by (rule card_subset_eq [OF finite_set, rotated])
    then have "set sources = UNIV" using all by simp
    then show ?thesis using True all by (simp add: format_log_sources_def parse_log_sources_def)
  next
    case False
    let ?known = "filter (\<lambda>s. s \<in> set sources) log_sources"
    have ne: "?known \<noteq> []" using assms(2) all by (cases sources) (auto simp: filter_empty_conv)
    have "split_on (CHR '','') [] (join '','' (map source_text ?known)) = map source_text ?known"
      using ne texts_plain(2) plain_field_literal(2) by (intro split_on_join) auto
    moreover have "source_named (trim (source_text s)) = Some s" for s
      by (cases s) (simp_all add: source_named_def log_sources_def trim_def is_space_def)
    ultimately have "parse_log_sources (format_log_sources sources) = fold set_add ?known []"
      using False ne by (simp add: format_log_sources_def parse_log_sources_def List.map_filter_def comp_def)
    moreover have "set (fold set_add xs acc) = set xs \<union> set acc" for xs acc :: "log_source list"
      by (induction xs arbitrary: acc) auto
    ultimately show ?thesis using all by auto
  qed
  show "toggle_source src sources \<noteq> []" by (simp add: toggle_source_def Let_def log_sources_def)
  show "distinct (toggle_source src sources)"
    using assms(1) d by (auto simp: toggle_source_def Let_def distinct_removeAll)
qed

theorem log_source_links_round_trip_witness:
  "set (parse_log_sources (format_log_sources [SrcUi, SrcTrack])) = {SrcUi, SrcTrack}"
  using log_source_links_round_trip [of "[SrcUi, SrcTrack]" SrcApi] by simp

lemma whole_num_prints: "prints whole_num (of_int i)"
  using prints_whole [of whole_num i] by (simp add: whole_num_def)

definition sample_path :: "position list" where
  "sample_path = [\<lparr> pos_lat = 51, pos_lon = -1, pos_alt_geodetic_m = Some 30, pos_height_agl_m = None,
     pos_terrain_elevation_m = None, pos_speed_mps = Some 4, pos_track_deg = None, pos_at = Some ''a,b'' \<rparr>]"

definition sample_flight :: track where
  "sample_flight = \<lparr> trk_track_id = ''t1'', trk_state = CONFIRMED, trk_first_seen = ''x'', trk_last_seen = ''y'',
     trk_detection_count = 3, trk_identity = None, trk_confidence = 1, trk_evidence = None,
     trk_current = None, trk_history = None, trk_operator = None, trk_rssi_dbm = None,
     trk_receivers = None, trk_adsb_correlated = None \<rparr>"

theorem track_files_read_back_witness:
  "csv_rows (positions_csv whole_num sample_path) = position_columns # map (position_cells whole_num) sample_path \<and>
   read_positions (positions_csv whole_num sample_path) = map Some sample_path \<and>
   map_option gf_path (read_geojson (path_geojson whole_num sample_flight sample_path)) =
     Some [Some (place_of (Some 30) (hd sample_path))]"
proof -
  have "list_all (prints whole_num) (concat (map position_numbers sample_path))"
    using whole_num_prints [of 51] whole_num_prints [of "-1"] whole_num_prints [of 30] whole_num_prints [of 4]
    by (simp add: sample_path_def position_numbers_def some_list_def)
  moreover have "list_all (prints whole_num) (of_int (trk_detection_count sample_flight) #
      (case trk_operator sample_flight of None \<Rightarrow> [] | Some q \<Rightarrow> position_numbers q))"
    using whole_num_prints [of 3] by (simp add: sample_flight_def)
  moreover have "list_all (\<lambda>p. csv_safe (nullish (pos_at p) [])) sample_path"
    by (simp add: sample_path_def csv_safe_def csv_special_def char_defs)
  moreover have "map (\<lambda>p. Some (exported_position p)) sample_path = map Some sample_path"
    by (simp add: sample_path_def exported_position_def)
  moreover have "map (\<lambda>p. Some (place_of (pos_alt_geodetic_m p) p)) sample_path = [Some (place_of (Some 30) (hd sample_path))]"
    by (simp add: sample_path_def)
  ultimately show ?thesis using track_files_read_back [of whole_num sample_path sample_flight] by simp
qed

definition sample_entry :: log_entry where
  "sample_entry = \<lparr> le_id = 7, le_at = ''2026-08-16T03:48:00Z'', le_level = Warn, le_source = SrcTrack,
     le_message = ''lost, again'', le_detail = Some [(''n'', DNum 2)], le_track_id = Some ''t1,x'' \<rparr>"

theorem log_files_read_back_witness:
  "csv_rows (to_csv whole_num [sample_entry\<lparr> le_track_id := None \<rparr>]) =
     [log_columns, log_cells whole_num [[]] (sample_entry\<lparr> le_track_id := None \<rparr>)]"
proof -
  have "entry_prints whole_num (sample_entry\<lparr> le_track_id := None \<rparr>)"
    using whole_num_prints [of 7] whole_num_prints [of 2] by (simp add: entry_prints_def sample_entry_def)
  then show ?thesis
    using log_files_read_back [of whole_num "[sample_entry\<lparr> le_track_id := None \<rparr>]"]
    by (simp add: sample_entry_def line_field_def csv_safe_def carriage_return_def plain_field_def csv_special_def char_defs)
qed

theorem comma_in_track_id_shifts_row_witness:
  "length (csv_rows (to_csv whole_num [sample_entry]) ! 1) = 7"
proof -
  have "entry_prints whole_num sample_entry"
    using whole_num_prints [of 7] whole_num_prints [of 2] by (simp add: entry_prints_def sample_entry_def)
  then have "list_all csv_safe (log_cells whole_num [''t1'', ''x''] sample_entry)"
    using detail_safe [of whole_num sample_entry] texts_safe
    by (simp add: log_cells_def) (simp add: sample_entry_def csv_safe_def csv_special_def carriage_return_def char_defs)
  then show ?thesis
    using comma_in_track_id_shifts_row [of sample_entry "''t1''" "''x''" whole_num]
    by (simp add: sample_entry_def plain_field_def csv_special_def char_defs log_columns_def)
qed

section \<open>Lemmas on the log screen\<close>

text \<open>The rows drawn are the newest of the filtered entries, and the tiles count every entry once.\<close>

lemma visible_are_newest: "suffix (visible_entries es) es" "length (visible_entries es) = min render_cap (length es)"
  by (auto simp: visible_entries_def take_last_def suffix_drop render_cap_def)

lemma level_counts_eq: "level_counts es l = length (filter (\<lambda>e. le_level e = l) es)"
proof -
  have "fold (\<lambda>e tally. tally(le_level e := tally (le_level e) + 1)) es t l = t l + length (filter (\<lambda>e. le_level e = l) es)" for t :: "log_level \<Rightarrow> nat"
    by (induction es arbitrary: t) auto
  then show ?thesis by (simp add: level_counts_def)
qed

text \<open>A file name is safe on every file system, whatever the identity holds.\<close>

lemma basename_safe: "list_all safe_char (export_basename t)"
proof -
  have "list_all safe_char (replace_unsafe r s)" for r s
    by (induction r s rule: replace_unsafe.induct) (simp_all add: safe_char_def)
  then show ?thesis by (simp add: export_basename_def) (simp add: safe_char_def)
qed

end
