(* ===== verification/TrackDetail.thy ===== *)
theory TrackDetail
  imports Replay FlightTables AircraftLabels Exports
begin

text \<open>
  The page of one flight: \<open>routes/tracks/$trackId.tsx\<close>, with \<open>features/tracks/receivers.tsx\<close> and
  \<open>features/tracks/aircraft-flights.tsx\<close>. The replay is in \<open>Replay\<close>, the lanes in \<open>ProfileLanes\<close>, the map's layers
  in \<open>PathColour\<close> and \<open>LiveMap\<close>. A row is a label with its text; icons, tooltips and fixed prose are left out.
\<close>

section \<open>Loading\<close>

datatype load_outcome = Track_Loaded track | Track_Not_Found | Load_Failed request_failure

definition track_loader :: "request_failure + track \<Rightarrow> load_outcome" where
  "track_loader answer =
     (case answer of
        Inr t \<Rightarrow> Track_Loaded t
      | Inl (Api_Failure e) \<Rightarrow> if is_not_found e then Track_Not_Found else Load_Failed (Api_Failure e)
      | Inl (Other_Failure m) \<Rightarrow> Load_Failed (Other_Failure m))"

definition reported :: "string option \<Rightarrow> string" where
  "reported value = (case value of None \<Rightarrow> empty_text | Some v \<Rightarrow> if v = [] then empty_text else v)"

section \<open>Header\<close>

record track_header =
  th_title :: string
  th_mono :: bool
  th_copy :: string
  th_state :: "string \<times> string"
  th_flag :: "(string \<times> string) option"
  th_adsb :: bool
  th_identifier :: "string option"
  th_hints :: "string option"
  th_window :: string
  th_no_export :: bool
  th_label_control :: "string option"

definition identifier_of :: "track \<Rightarrow> string" where
  "identifier_of t = nullish (or_else (trk_serial t) (trk_first_mac t)) (trk_track_id t)"

definition given_name :: "aircraft_label option \<Rightarrow> string option" where
  "given_name label = (case label of None \<Rightarrow> None | Some l \<Rightarrow> if al_label l = [] then None else Some (al_label l))"

definition identity_hints :: "track \<Rightarrow> string" where
  "identity_hints t =
     join ('' '' @ middle_dot @ '' '')
       (filter (\<lambda>v. v \<noteq> []) (List.map_filter id
         [trk_vendor t, Option.bind (trk_identity t) id_model_hint, trk_ua_type t]))"

definition lower_text :: "track_state \<Rightarrow> string" where "lower_text s = to_lower (state_text s)"

definition track_header_of ::
  "intl \<Rightarrow> format_preferences \<Rightarrow> auth_me option \<Rightarrow> aircraft_label list \<Rightarrow> position list \<Rightarrow> track \<Rightarrow> track_header" where
  "track_header_of intl p me labels history t =
     (let label = use_aircraft_label labels (trk_serial t); named = given_name label
      in \<lparr> th_title = nullish named (identifier_of t), th_mono = (named = None), th_copy = identifier_of t,
           th_state = (state_tone (trk_state t), lower_text (trk_state t)),
           th_flag = Option.bind label (\<lambda>l. flag_badge (al_flag l)),
           th_adsb = (trk_adsb_correlated t = Some True),
           th_identifier = (if named \<noteq> None then Some (identifier_of t) else None),
           th_hints = (if identity_hints t = [] then None else Some (identity_hints t)),
           th_window = fmt_instant intl Stamp_Shape p (Some (trk_first_seen t)) @ '' '' @ right_arrow @ '' '' @
             fmt_instant intl Clock_Shape p (Some (trk_last_seen t)),
           th_no_export = (history = []),
           th_label_control = (if truthy (trk_serial t) then label_control me label else None) \<rparr>)"

section \<open>Summary\<close>

record summary_tile =
  su_id :: string
  su_label :: string
  su_value :: string
  su_hint :: "string option"
  su_tone :: string

definition flown :: "position list \<Rightarrow> track \<Rightarrow> track" where
  "flown history t = t\<lparr> trk_history := Some history \<rparr>"

definition from_receiver :: "(latlon \<Rightarrow> latlon \<Rightarrow> real) \<Rightarrow> latlon option \<Rightarrow> track \<Rightarrow> real option" where
  "from_receiver gauge receiver t =
     (case (trk_operator t, receiver) of (Some q, Some r) \<Rightarrow> Some (gauge r (latlon_of q)) | _ \<Rightarrow> None)"

definition summary_strip ::
  "format_preferences \<Rightarrow> latlon option \<Rightarrow> position list \<Rightarrow> track \<Rightarrow> summary_tile list" where
  "summary_strip p receiver history t =
     (let operator_range = from_receiver distance_metres receiver t;
          operator_bearing = from_receiver bearing_degrees receiver t
      in [\<lparr> su_id = ''duration'', su_label = ''Duration'', su_value = duration_text t, su_hint = None, su_tone = ''default'' \<rparr>,
          \<lparr> su_id = ''range'', su_label = ''Max range'', su_value = fmt_range p (max_range_m (flown history t) receiver),
            su_hint = Some (if receiver \<noteq> None then ''from the receiver'' else ''set a receiver position''),
            su_tone = (if receiver \<noteq> None then ''default'' else ''muted'') \<rparr>,
          \<lparr> su_id = ''agl'', su_label = ''Max height AGL'', su_value = fmt_length p (max_height_agl_m (flown history t)),
            su_hint = None, su_tone = ''default'' \<rparr>,
          \<lparr> su_id = ''speed'', su_label = ''Max speed'', su_value = fmt_speed p (max_speed_mps (flown history t)),
            su_hint = None, su_tone = ''default'' \<rparr>,
          \<lparr> su_id = ''detections'', su_label = ''Detections'', su_value = string_of_int (trk_detection_count t),
            su_hint = Some (digits_of_nat (length history) @ '' path points''), su_tone = ''default'' \<rparr>,
          \<lparr> su_id = ''operator'', su_label = ''Operator'',
            su_value = (if operator_range = None then empty_text else fmt_range p operator_range),
            su_hint = Some (case operator_bearing of
                None \<Rightarrow> if trk_operator t \<noteq> None then ''no receiver position'' else ''not broadcast''
              | Some b \<Rightarrow> ''bearing '' @ format_heading (Some b) @ '' from the receiver''),
            su_tone = (if operator_range = None then ''muted'' else ''default'') \<rparr>])"

section \<open>Evidence\<close>

definition evidence_line :: "track \<Rightarrow> string" where
  "evidence_line t =
     (let evidence = nullish (trk_evidence t) [];
          classes = map (\<lambda>e. ''Class '' @ class_text (ev_class e) @ '' via '' @ kind_text (ev_sensor_kind e)) evidence;
          frames = sum_list (map ev_count evidence)
      in (if classes \<noteq> [] then join ('' '' @ middle_dot @ '' '') classes else ''No evidence recorded'') @
         (if 0 < frames then '' '' @ middle_dot @ '' '' @ string_of_int frames @ '' frames'' else []) @
         '' '' @ middle_dot @ '' confidence '' @ format_confidence (trk_confidence t))"

section \<open>Position history\<close>

definition history_limit :: nat where "history_limit = 500"

text \<open>A height with its mark and the sentence behind the mark.\<close>

definition agl_cell :: "format_preferences \<Rightarrow> position \<Rightarrow> string \<times> (string \<times> string) option" where
  "agl_cell p pos =
     (fmt_length p (pos_height_agl_m pos),
      (case height_provenance_of (Some pos) of
         Some prov \<Rightarrow> if hp_source prov = Derived then Some (derived_mark, height_provenance_hint prov (fmt_length p)) else None
       | None \<Rightarrow> None))"

record history_row =
  hr_time :: string
  hr_place :: string
  hr_agl :: "string \<times> (string \<times> string) option"
  hr_geodetic :: string
  hr_speed :: string
  hr_track :: string

definition history_row_of :: "intl \<Rightarrow> format_preferences \<Rightarrow> position \<Rightarrow> history_row" where
  "history_row_of intl p pos =
     \<lparr> hr_time = fmt_instant intl Clock_Shape p (pos_at pos), hr_place = fmt_coords p (pos_lat pos) (pos_lon pos),
       hr_agl = agl_cell p pos, hr_geodetic = fmt_length p (pos_alt_geodetic_m pos),
       hr_speed = fmt_speed p (pos_speed_mps pos), hr_track = format_heading (pos_track_deg pos) \<rparr>"

definition listed_points :: "position list \<Rightarrow> position list" where
  "listed_points history = take history_limit (rev history)"

definition any_derived :: "position list \<Rightarrow> bool" where
  "any_derived rows \<longleftrightarrow>
     list_ex (\<lambda>pos. map_option hp_source (height_provenance_of (Some pos)) = Some Derived) rows"

record history_panel =
  hp_summary :: string
  hp_exports :: "(string \<times> string \<times> string) list"
  hp_rows :: "history_row list"
  hp_empty :: bool
  hp_legend :: bool

definition path_exports :: "(real \<Rightarrow> string) \<Rightarrow> track \<Rightarrow> position list \<Rightarrow> (string \<times> string \<times> string) list" where
  "path_exports num t history =
     [(export_basename t @ ''-path.csv'', ''text/csv'', positions_csv num history),
      (export_basename t @ ''-path.geojson'', ''application/geo+json'', path_geojson num t history)]"

definition history_panel_of ::
  "(real \<Rightarrow> string) \<Rightarrow> intl \<Rightarrow> format_preferences \<Rightarrow> track \<Rightarrow> position list \<Rightarrow> history_panel" where
  "history_panel_of num intl p t history =
     (let rows = listed_points history; hidden = length history - length rows
      in \<lparr> hp_summary = digits_of_nat (length history) @ '' reported points'' @
             (if 0 < hidden then '' (newest '' @ digits_of_nat history_limit @ '' listed)'' else []),
           hp_exports = (if 0 < length history then path_exports num t history else []),
           hp_rows = map (history_row_of intl p) rows, hp_empty = (history = []), hp_legend = any_derived rows \<rparr>)"

section \<open>Identity\<close>

definition serial_text :: "track \<Rightarrow> string" where
  "serial_text t =
     (case split_serial (trk_serial t) of
        (Some code, rest) \<Rightarrow> if code = [] then empty_text else code @ nullish rest []
      | (None, rest) \<Rightarrow> empty_text)"

definition identity_rows :: "track \<Rightarrow> (string \<times> string list) list" where
  "identity_rows t =
     [(''Serial'', [serial_text t]), (''Vendor'', [reported (trk_vendor t)]),
      (''Model hint'', [reported (Option.bind (trk_identity t) id_model_hint)]),
      (''UA type'', [reported (trk_ua_type t)]),
      (''Operator ID'', [reported (Option.bind (trk_identity t) id_operator_id)]),
      (''MACs'', if trk_macs t = [] then [empty_text] else trk_macs t),
      (''Track ID'', [trk_track_id t])]"

text \<open>A row may carry a hint under its value.\<close>

definition position_rows :: "format_preferences \<Rightarrow> position \<Rightarrow> (string \<times> string \<times> string option) list" where
  "position_rows p pos =
     [(''Latitude, longitude'', fmt_coords p (pos_lat pos) (pos_lon pos), None),
      (''Geodetic altitude'', fmt_length p (pos_alt_geodetic_m pos), None),
      (''Height AGL'', fmt_length p (pos_height_agl_m pos),
       map_option (\<lambda>prov. height_provenance_hint prov (fmt_length p)) (height_provenance_of (Some pos)))]"

definition copied_coordinates :: "position \<Rightarrow> string" where
  "copied_coordinates pos = to_fixed 6 (pos_lat pos) @ '', '' @ to_fixed 6 (pos_lon pos)"

definition operator_rows :: "format_preferences \<Rightarrow> position option \<Rightarrow> position \<Rightarrow> (string \<times> string \<times> string option) list" where
  "operator_rows p current q =
     [(''Latitude, longitude'', fmt_coords p (pos_lat q) (pos_lon q), None),
      (''Altitude'', fmt_length p (pos_alt_geodetic_m q), None)] @
     (case current of None \<Rightarrow> []
      | Some c \<Rightarrow> [(''Distance from aircraft'', fmt_range p (Some (distance_metres (latlon_of c) (latlon_of q))),
          Some (''bearing '' @ format_heading (Some (bearing_degrees (latlon_of c) (latlon_of q)))))])"

section \<open>Receivers\<close>

definition sort_receivers :: "(string \<Rightarrow> string \<Rightarrow> int) \<Rightarrow> receiver list \<Rightarrow> receiver list" where
  "sort_receivers lc rs =
     js_sort (\<lambda>a b. if rcv_detection_count b - rcv_detection_count a \<noteq> 0
       then rcv_detection_count b - rcv_detection_count a else lc (rcv_sensor_id a) (rcv_sensor_id b)) rs"

definition receiver_cells :: "int \<Rightarrow> receiver \<Rightarrow> string list" where
  "receiver_cells now r =
     [rcv_sensor_id r, kind_text (rcv_sensor_kind r), string_of_int (rcv_detection_count r), format_rssi (rcv_rssi_dbm r),
      (if truthy (rcv_last_seen r) then format_relative (rcv_last_seen r) now else em_dash)]"

definition receiver_breakdown ::
  "(string \<Rightarrow> string \<Rightarrow> int) \<Rightarrow> int \<Rightarrow> receiver list \<Rightarrow> (string list list \<times> string option) option" where
  "receiver_breakdown lc now rs =
     (if rs = [] then None
      else let sorted_rs = sort_receivers lc rs
        in Some (map (receiver_cells now) sorted_rs,
          if 1 < length sorted_rs
          then Some (''Heard by '' @ digits_of_nat (length sorted_rs) @ '' receivers'') else None))"

definition peak_rssi :: "rssi_sample list \<Rightarrow> real option" where
  "peak_rssi samples = (if samples = [] then None else Some (fold (\<lambda>s m. max m (rs_rssi s)) samples (rs_rssi (hd samples))))"

section \<open>The other flights of the airframe\<close>

definition max_flights :: nat where "max_flights = 1000"
definition max_thumbnails :: nat where "max_thumbnails = 12"

record aircraft_block =
  ab_caption :: string
  ab_previous :: "string option"
  ab_next :: "string option"
  ab_strip :: "(string \<times> bool \<times> string) list"
  ab_showing :: "string option"

definition flight_caption :: "(int \<Rightarrow> string) \<Rightarrow> track list \<Rightarrow> flight_neighbours \<Rightarrow> string" where
  "flight_caption day_label flights n =
     digits_of_nat (fn_total n) @ '' '' @ (if fn_total n = 1 then ''flight'' else ''flights'') @
     (case flight_range_ms flights of None \<Rightarrow> []
      | Some (first, final) \<Rightarrow> '' '' @ middle_dot @ '' '' @ day_label first @ '' '' @ [CHR 0xE2, CHR 0x80, CHR 0x93] @ '' '' @
          day_label final) @
     (case fn_number n of None \<Rightarrow> []
      | Some k \<Rightarrow> '' '' @ middle_dot @ '' this is flight '' @ digits_of_nat k @ '' of '' @ digits_of_nat (fn_total n))"

definition strip_item :: "intl \<Rightarrow> format_preferences \<Rightarrow> string \<Rightarrow> track \<Rightarrow> string \<times> bool \<times> string" where
  "strip_item intl p tid t =
     (trk_track_id t, trk_track_id t = tid,
      (case flight_start_ms t of None \<Rightarrow> em_dash | Some ms \<Rightarrow> fmt_instant intl Brief_Shape p (Some (to_iso ms))) @
      (case flight_duration_s t of None \<Rightarrow> [] | Some s \<Rightarrow> '' '' @ middle_dot @ '' '' @ format_duration s))"

definition aircraft_block_of ::
  "(string \<Rightarrow> string \<Rightarrow> int) \<Rightarrow> intl \<Rightarrow> format_preferences \<Rightarrow> (int \<Rightarrow> string) \<Rightarrow> string \<Rightarrow> track list \<Rightarrow> aircraft_block option" where
  "aircraft_block_of lc intl p day_label tid tracks =
     (let flights = order_flights lc tracks; n = flight_neighbours_of flights tid;
          (items, from_index) = flights_around trk_track_id flights tid max_thumbnails
      in if fn_total n = 0 then None
         else Some \<lparr> ab_caption = flight_caption day_label flights n,
           ab_previous = map_option trk_track_id (fn_previous n), ab_next = map_option trk_track_id (fn_next n),
           ab_strip = map (strip_item intl p tid) items,
           ab_showing = (if max_thumbnails < length flights
             then Some (''Showing flights '' @ digits_of_nat (from_index + 1) @ [CHR 0xE2, CHR 0x80, CHR 0x93] @
               digits_of_nat (from_index + length items) @ '' of '' @ digits_of_nat (length flights)) else None) \<rparr>)"

section \<open>The page\<close>

record detail_data =
  dd_track :: track
  dd_detections :: "detection list"
  dd_path_detections :: "detection list"
  dd_receiver :: "latlon option"
  dd_labels :: "aircraft_label list"
  dd_me :: "auth_me option"
  dd_flights :: "track list"

definition detail_history :: "detail_data \<Rightarrow> position list" where
  "detail_history d = flight_path (dd_path_detections d) (nullish (trk_history (dd_track d)) [])"

record detail_page =
  dp_header :: track_header
  dp_summary :: "summary_tile list"
  dp_cursor :: "map_cursor option"
  dp_scrubber :: "scrubber_view option"
  dp_profiles :: "(string + profile_lane) list option"
  dp_rssi_export :: "(string \<times> string \<times> string) option"
  dp_history_panel :: history_panel
  dp_identity :: "(string \<times> string list) list"
  dp_position :: "(string \<times> string \<times> string option) list option"
  dp_operator :: "(string \<times> string \<times> string option) list option"
  dp_evidence :: string
  dp_receivers :: "(string list list \<times> string option) + string"
  dp_aircraft :: "aircraft_block option"

definition detail_page_of ::
  "(real \<Rightarrow> string) \<Rightarrow> (string \<Rightarrow> string \<Rightarrow> int) \<Rightarrow> intl \<Rightarrow> format_preferences \<Rightarrow> (int \<Rightarrow> string) \<Rightarrow> int \<Rightarrow> detail_data \<Rightarrow>
     replay \<Rightarrow> detail_page" where
  "detail_page_of num lc intl p day_label now d s =
     (let t = dd_track d; history = detail_history d; span_of = playback_span history;
          samples = samples_from_detections (dd_detections d); receivers = nullish (trk_receivers t) []
      in \<lparr> dp_header = track_header_of intl p (dd_me d) (dd_labels d) history t,
           dp_summary = summary_strip p (dd_receiver d) history t,
           dp_cursor = map_option (map_cursor_of intl p) (cursor_frame history s),
           dp_scrubber = (case rp_rendered (render_scrubber (s\<lparr> rp_span := span_of \<rparr>)) of None \<Rightarrow> None
             | Some r \<Rightarrow> Some (scrubber_view_of intl p (heard_now history s) r)),
           dp_profiles = (case span_of of None \<Rightarrow> None
             | Some domain \<Rightarrow> Some (flight_profiles num intl p history (dd_detections d) domain (cursor_ms s))),
           dp_rssi_export = (if samples = [] then None
             else Some (export_basename t @ ''-rssi.csv'', ''text/csv'', rssi_csv num samples)),
           dp_history_panel = history_panel_of num intl p t history, dp_identity = identity_rows t,
           dp_position = map_option (position_rows p) (trk_current t),
           dp_operator = map_option (operator_rows p (trk_current t)) (trk_operator t),
           dp_evidence = evidence_line t,
           dp_receivers = (case receiver_breakdown lc now receivers of Some b \<Rightarrow> Inl b
             | None \<Rightarrow> Inr (''the pooled peak is '' @ format_rssi (peak_rssi samples))),
           dp_aircraft = (if truthy (trk_serial t)
             then aircraft_block_of lc intl p day_label (trk_track_id t) (dd_flights d) else None) \<rparr>)"

section \<open>The figures\<close>

text \<open>The largest of a set of readings, if there is one.\<close>

definition largest :: "real set \<Rightarrow> real option" where
  "largest vs = (if vs = {} then None else Some (Max vs))"

lemma max_of_snoc:
  "max_of f (xs @ [x]) = (case f x of None \<Rightarrow> max_of f xs
     | Some v \<Rightarrow> (case max_of f xs of None \<Rightarrow> Some v | Some m \<Rightarrow> if m < v then Some v else Some m))"
  by (simp add: max_of_def split: option.split)

lemma largest_insert:
  "finite vs \<Longrightarrow> largest (insert v vs) = (case largest vs of None \<Rightarrow> Some v | Some m \<Rightarrow> if m < v then Some v else Some m)"
proof (cases "vs = {}")
  case False
  assume fin: "finite vs"
  have "Max (insert v vs) = (if Max vs < v then v else Max vs)"
    using Max_insert [OF fin False] by (simp add: max_def not_le del: Max_insert Max_less_iff Max_ge_iff)
  then show ?thesis using False by (simp add: largest_def del: Max_insert Max_less_iff)
qed (simp add: largest_def)

lemma max_of_largest: "max_of f xs = largest {v. \<exists>x \<in> set xs. f x = Some v}"
proof (induction xs rule: rev_induct)
  case Nil
  then show ?case by (simp add: max_of_def largest_def)
next
  case (snoc x xs)
  have fin: "finite {v. \<exists>x \<in> set xs. f x = Some v}"
    by (rule finite_subset [of _ "(\<lambda>x. the (f x)) ` set xs"]) force+
  have "{v. \<exists>y \<in> set (xs @ [x]). f y = Some v} =
      (case f x of None \<Rightarrow> {v. \<exists>y \<in> set xs. f y = Some v} | Some v \<Rightarrow> insert v {v. \<exists>y \<in> set xs. f y = Some v})"
    by (auto split: option.split)
  then show ?case by (cases "f x") (simp_all add: max_of_snoc snoc.IH largest_insert [OF fin])
qed

text \<open>The figures at the top are those of the whole path that is drawn: the greatest range, height and speed
  over its points, each attained at one of them and exceeded at none, whatever the flight kept of its own.\<close>

theorem figures_cover_the_path:
  "let f = flown history t
   in if history = [] then True
      else max_height_agl_m f = largest {v. \<exists>q \<in> set history. pos_height_agl_m q = Some v} \<and>
        max_speed_mps f = largest {v. \<exists>q \<in> set history. pos_speed_mps q = Some v} \<and>
        max_range_m f receiver = (case receiver of None \<Rightarrow> None
          | Some r \<Rightarrow> largest ((\<lambda>q. distance_metres r (latlon_of q)) ` set history))"
proof (cases "history = []")
  case False
  then have path: "flight_positions (flown history t) = history" by (simp add: flight_positions_def flown_def Let_def)
  have image: "{v. \<exists>x \<in> set history. Some (g x) = Some v} = g ` set history" for g :: "position \<Rightarrow> real" by auto
  have "max_range_m (flown history t) receiver = (case receiver of None \<Rightarrow> None
      | Some r \<Rightarrow> largest ((\<lambda>q. distance_metres r (latlon_of q)) ` set history))"
    unfolding max_range_m_def path max_of_largest image ..
  then show ?thesis
    using False by (simp add: max_height_agl_m_def max_speed_mps_def path max_of_largest Let_def)
qed simp

section \<open>What the rebuilt path forgets\<close>

text \<open>C31: Rebuilding the path from the detections drops every height that fusion derived: once the detections have
  more points than the flight kept, no point of the page carries the mark of a derived height, and the greatest
  height shown is that of the broadcast heights alone, a dash when the aircraft broadcast none, although the list
  of flights shows the derived one.\<close>

theorem rebuilt_path_forgets_derived_heights:
  assumes "length history < length (filter (\<lambda>d. finite_position d \<noteq> None) detections)"
  shows "let path = flight_path detections history
    in \<not> any_derived path \<and>
       max_height_agl_m (flown path t) =
         largest {v. \<exists>d \<in> set detections. finite_position d \<noteq> None \<and> Option.bind (det_position d) dp_height_agl_m = Some v}"
proof -
  let ?fixed = "filter (\<lambda>d. finite_position d \<noteq> None) detections"
  let ?path = "map path_point (js_sort (ts_cmp det_ts) ?fixed)"
  have path: "flight_path detections history = ?path" using assms by (simp add: flight_path_def)
  have plain: "pos_terrain_elevation_m (path_point d) = None"
    "pos_height_agl_m (path_point d) = Option.bind (det_position d) dp_height_agl_m" for d
    by (simp_all add: path_point_def split: prod.split)
  have none: "\<not> any_derived ?path"
    by (auto simp: any_derived_def list_ex_iff height_provenance_of_def plain split: option.splits)
  have "?path \<noteq> []" using assms by (metis length_0_conv length_js_sort length_map not_less_zero)
  then have "flight_positions (flown ?path t) = ?path" by (simp add: flight_positions_def flown_def Let_def)
  moreover have "{v. \<exists>q \<in> set ?path. pos_height_agl_m q = Some v} =
      {v. \<exists>d \<in> set detections. finite_position d \<noteq> None \<and> Option.bind (det_position d) dp_height_agl_m = Some v}"
    by (auto simp: plain)
  ultimately show ?thesis
    using none by (simp add: path max_height_agl_m_def max_of_largest Let_def del: set_map)
qed

definition hovering_hit :: detection where
  "hovering_hit = \<lparr> det_detection_id = ''D1'', det_ts = ''2026-01-01T00:00:00.000Z'', det_sensor_id = ''wifi0'',
     det_sensor_kind = Wifi, det_class = ClassA, det_rf = None, det_identity = None,
     det_position = Some \<lparr> dp_lat = Some 52, dp_lon = Some 4, dp_alt_geodetic_m = Some 67, dp_alt_pressure_m = None,
       dp_height_agl_m = None, dp_h_accuracy_m = None, dp_v_accuracy_m = None \<rparr>,
     det_kinematics = None, det_operator = None, det_signal_features = None, det_adsb = None, det_raw = None \<rparr>"

definition derived_point :: position where
  "derived_point = \<lparr> pos_lat = 52, pos_lon = 4, pos_alt_geodetic_m = Some 67, pos_height_agl_m = Some 42,
     pos_terrain_elevation_m = Some 25, pos_speed_mps = None, pos_track_deg = None,
     pos_at = Some ''2026-01-01T00:00:00.000Z'' \<rparr>"

theorem rebuilt_path_forgets_derived_heights_witness:
  "let t = sample_track\<lparr> trk_history := Some [derived_point] \<rparr>
   in max_height_agl_m t = Some 42 \<and>
      max_height_agl_m (flown (flight_path [hovering_hit, hovering_hit] [derived_point]) t) = None"
proof -
  have "length [derived_point] < length (filter (\<lambda>d. finite_position d \<noteq> None) [hovering_hit, hovering_hit])"
    by (simp add: hovering_hit_def finite_position_def)
  from rebuilt_path_forgets_derived_heights [OF this, of "sample_track\<lparr> trk_history := Some [derived_point] \<rparr>"]
  show ?thesis
    by (simp add: Let_def hovering_hit_def largest_def max_height_agl_m_def flight_positions_def max_of_def derived_point_def)
qed

section \<open>Rows\<close>

text \<open>The panel lists the newest points, newest first, and says how many there are; its legend is there exactly
  when a listed height bears the mark.\<close>

lemma history_panel_is_honest:
  "let panel = history_panel_of num intl p t history
   in rev (listed_points history) = drop (length history - length (hp_rows panel)) history \<and>
      length (hp_rows panel) = min history_limit (length history) \<and>
      hp_legend panel = list_ex (\<lambda>r. snd (hr_agl r) \<noteq> None) (hp_rows panel)"
proof -
  have rows: "length (hp_rows (history_panel_of num intl p t history)) = min history_limit (length history)"
    by (simp add: history_panel_of_def listed_points_def Let_def min.commute)
  have mark: "(snd (agl_cell p q) \<noteq> None) = (map_option hp_source (height_provenance_of (Some q)) = Some Derived)" for q
    by (simp add: agl_cell_def split: option.split)
  have "rev (listed_points history) = drop (length history - min history_limit (length history)) history"
    by (simp add: listed_points_def take_rev min_def)
  moreover have "hp_legend (history_panel_of num intl p t history) =
      list_ex (\<lambda>r. snd (hr_agl r) \<noteq> None) (hp_rows (history_panel_of num intl p t history))"
    by (simp add: history_panel_of_def Let_def any_derived_def list_ex_iff history_row_of_def mark del: not_None_eq map_option_eq_Some)
  ultimately show ?thesis using rows by (simp add: Let_def)
qed

lemma consistent_then:
  fixes key :: "'a \<Rightarrow> int" and f :: "'a \<Rightarrow> string" and lc :: "string \<Rightarrow> string \<Rightarrow> int"
  assumes "consistent_cmp lc (f ` A)"
  shows "consistent_cmp (\<lambda>a b. if key b - key a \<noteq> 0 then key b - key a else lc (f a) (f b)) A"
proof -
  let ?c = "\<lambda>a b. if key b - key a \<noteq> 0 then key b - key a else lc (f a) (f b)"
  have pos: "0 < ?c a b \<longleftrightarrow> key a < key b \<or> key a = key b \<and> 0 < lc (f a) (f b)" for a b by auto
  have tail: "\<not> 0 < lc (f y) (f x)" if "x \<in> A" "y \<in> A" "0 < lc (f x) (f y)" for x y
    using assms [unfolded consistent_cmp_def, THEN conjunct1, rule_format, of "f x" "f y"] that by blast
  have chain: "\<not> 0 < lc (f x) (f z)"
    if "x \<in> A" "y \<in> A" "z \<in> A" "\<not> 0 < lc (f x) (f y)" "\<not> 0 < lc (f y) (f z)" for x y z
    using assms [unfolded consistent_cmp_def, THEN conjunct2, rule_format, of "f x" "f y" "f z"] that by blast
  show ?thesis
    unfolding consistent_cmp_def pos
  proof (intro conjI ballI impI)
    fix x y assume "x \<in> A" "y \<in> A" "key x < key y \<or> key x = key y \<and> 0 < lc (f x) (f y)"
    then show "\<not> (key y < key x \<or> key y = key x \<and> 0 < lc (f y) (f x))" using tail by auto
  next
    fix x y z assume xyz: "x \<in> A" "y \<in> A" "z \<in> A"
      and "\<not> (key x < key y \<or> key x = key y \<and> 0 < lc (f x) (f y))"
      and "\<not> (key y < key z \<or> key y = key z \<and> 0 < lc (f y) (f z))"
    then show "\<not> (key x < key z \<or> key x = key z \<and> 0 < lc (f x) (f z))" using chain [OF xyz] by auto
  qed
qed

text \<open>The receivers are listed by what they contributed, not by the order they arrived in.\<close>

lemma receivers_canonical:
  assumes "mset rs = mset rs'" "distinct (map rcv_sensor_id rs)" "collates lc (rcv_sensor_id ` set rs)"
  shows "sort_receivers lc rs = sort_receivers lc rs'"
proof -
  let ?c = "\<lambda>a b. if rcv_detection_count b - rcv_detection_count a \<noteq> 0
    then rcv_detection_count b - rcv_detection_count a else lc (rcv_sensor_id a) (rcv_sensor_id b)"
  have lc: "consistent_cmp lc (rcv_sensor_id ` set rs)" using assms(3) by (rule collates_consistent)
  have inj: "a = b" if "a \<in> set rs" "b \<in> set rs" "rcv_sensor_id a = rcv_sensor_id b" for a b
    using assms(2) that by (auto simp: distinct_map dest: inj_onD)
  show ?thesis
    unfolding sort_receivers_def
  proof (rule js_sort_unique)
    show "mset rs = mset rs'" by (rule assms(1))
    show "distinct rs" using assms(2) by (simp add: distinct_map)
    show "consistent_cmp ?c (set rs)" by (rule consistent_then [OF lc])
    fix x y assume xy: "x \<in> set rs" "y \<in> set rs" "in_order ?c x y" "in_order ?c y x"
    then have "lc (rcv_sensor_id x) (rcv_sensor_id y) \<le> 0" "lc (rcv_sensor_id y) (rcv_sensor_id x) \<le> 0"
      by (auto simp: in_order_def split: if_splits)
    then have "lc (rcv_sensor_id y) (rcv_sensor_id x) = 0"
      using collatesD(1) [OF assms(3), of "rcv_sensor_id x" "rcv_sensor_id y"] xy(1,2) by force
    then have "rcv_sensor_id x = rcv_sensor_id y"
      using collatesD(2) [OF assms(3), of "rcv_sensor_id y" "rcv_sensor_id x"] xy(1,2) by simp
    then show "x = y" using inj xy(1,2) by blast
  qed
qed

text \<open>The warning beside the clock and the label of the marker are about the same instant while the replay plays
  or no lane is pointed at.\<close>

lemma notice_matches_marker:
  assumes "rp_playing s \<or> rp_hover s = None" "cursor_frame history s = Some f"
  shows "heard_now history s = pf_heard f"
proof -
  have "cursor_ms s = map_option of_int (at_ms s)" using assms(1) by (auto simp: cursor_ms_def Let_def or_else_def)
  then have "Option.bind (at_ms s) (\<lambda>t. frame_at history (of_int t)) = Some f"
    using assms(2) by (cases "at_ms s") (simp_all add: cursor_frame_def)
  then show ?thesis by (simp add: heard_now_def)
qed

section \<open>Where the page says less than it was told\<close>

text \<open>A serial too short to carry a manufacturer code is shown as not reported, and an empty one titles the page
  with nothing, although the aircraft has other names.\<close>

lemma short_serial_reads_not_reported:
  "trk_serial t = Some s \<Longrightarrow> length s < 5 \<Longrightarrow> serial_text t = empty_text"
  by (simp add: serial_text_def split_serial_def)

lemma empty_serial_blanks_the_title:
  "trk_serial t = Some [] \<Longrightarrow> th_title (track_header_of intl p me labels history t) = []"
  by (simp add: track_header_of_def Let_def use_aircraft_label_def truthy_def given_name_def identifier_of_def)

text \<open>The replay is the page's, and the router keeps the page when only the flight changes: a playhead that was
  moved stays at the old flight's instant on the next one.\<close>

lemma playhead_survives_navigation:
  assumes "rp_scrub s = Some v" "\<not> rp_playing s"
  shows "at_ms (run_replay s [New_Path (Some (a, b)), Render]) = Some v"
  using assms by (simp add: run_replay_def replay_step_def render_scrubber_def at_ms_def)

text \<open>A reading of the signal from before the first position is counted by its lane and drawn off the plot.\<close>

lemma early_reading_is_off_the_plot:
  assumes "fst domain < snd domain" "ms < fst domain"
  shows "lane_x (lane_scale_of domain 92 series) (of_int ms) < pad_left"
proof -
  have "lane_x (lane_scale_of domain 92 series) (of_int ms) < pad_left \<longleftrightarrow>
      (of_int ms - of_int (fst domain)) / real_of_int (lsc_span (lane_scale_of domain 92 series)) < 0"
    unfolding lane_x_def lane_scale_start by (rule scaled_beyond [OF plot_width_pos])
  then show ?thesis
    using assms(2) lane_span_pos [of domain 92 series] by (simp add: divide_less_0_iff)
qed

end
