(* ===== verification/Spec2Isabelle.thy ===== *)
theory Spec2Isabelle
  imports LogBridge LiveStream LiveFrames FlightFilters Health Lanes SearchResolver PathShape
    Notifications UnitEvents AppUpdate Endpoints FlightPlayback SpectrumViews Telemetry
    SensorDetail LiveSession PathColour MapStyle Markers LiveMap Offline GraphQl QueryPolicy
    BrowserStorage LiveView HookRules TrackDetail
begin

text \<open>
  The logic of the ClassG console, the TypeScript under \<open>services/ui/src\<close>. Paths below are relative to
  that directory.

  \<^bold>\<open>The program.\<close> ClassG listens for drones by radio. Sensors report detections, a fusion service makes
  tracks of them, and an API serves both to this console, a single page application. A WebSocket
  client (\<open>lib/api/live.ts\<close>) keeps a connection with backoff and hands frames to a provider
  (\<open>app/live-provider.tsx\<close>), which applies them to the query cache (\<open>app/live-frames.ts\<close>), logs their
  transitions (\<open>features/logs\<close>) and dates the screen. The views read the cache through pure functions:
  health and freshness verdicts, contacts, flights with their filters, metrics and replay, timelines,
  notifications, host telemetry, search and exports.

  \<^bold>\<open>Conventions.\<close> A field keeps its name under a prefix naming its record; an optional or nullable
  field is an option; a JavaScript number is a \<^typ>\<open>real\<close>, or an \<^typ>\<open>int\<close> or \<^typ>\<open>nat\<close> where the code only
  puts integers there. Only the thinning in \<open>Telemetry\<close> computes in double precision, because there the
  rounding is visible. A \<open>Map\<close> is an association list in insertion order, \<open>sort\<close> is the stable insertion
  sort \<open>js_sort\<close>, a text is the list of its UTF-8 bytes. What the host decides is a parameter: \<open>lc\<close> for
  \<open>localeCompare\<close>, \<open>num\<close> for the decimal text of a number, \<open>grouped\<close> for \<open>toLocaleString\<close>, \<open>z\<close> for
  the time zone, the query cache and the random jitter. The laws a parameter obeys are hypotheses of
  the properties that need them, each with a witness.

  \<^bold>\<open>The theories.\<close>
  \<^item> \<open>Prelude\<close>, \<open>JsDate\<close>, \<open>JsNumber\<close>, \<open>Runs\<close>: JavaScript's strings, sorting, dates and
    numbers; runs of consecutive items and bisection, which charts, routes and replay share.
  \<^item> \<open>ApiTypes\<close>, \<open>ApiClient\<close>, \<open>Endpoints\<close>: the wire types, \<open>lib/api/client.ts\<close> with its error
    envelope, query strings and page walk, and every endpoint with the route it must reach.
  \<^item> \<open>LiveStream\<close>: the WebSocket client as a state machine over its sockets and timer; one connection,
    never stuck, silent once closed, and what a closing socket does to \<open>resume()\<close>.
  \<^item> \<open>LiveFrames\<close>: the cache reducer over an abstract query client (locale \<open>query_cache\<close>, and
    \<open>refetching_cache\<close> where refetches are counted), refined to the effect of a frame on each list; eviction.
  \<^item> \<open>LogStore\<close>, \<open>LogBridge\<close>: the bounded, batched event log and the lines a frame becomes.
  \<^item> \<open>LiveSession\<close>: the provider that composes the four above, over any number of sessions; frames are
    heard once, in order, from the mounted session only, and every connection has the tracks, detections
    and health fetched again.
  \<^item> \<open>Health\<close>: sky state, header summary, recording state and freshness.
  \<^item> \<open>Geo\<close>, \<open>TrackTier\<close>, \<open>FlightMetrics\<close>, \<open>FlightTime\<close>, \<open>FlightFilters\<close>, \<open>FlightPlayback\<close>, \<open>PathShape\<close>,
    \<open>Lanes\<close>, \<open>Format\<close>: the flights, their order, groups, facets, calendar days, speeds, replay, thumbnail
    and timeline lanes.
  \<^item> \<open>SearchResolver\<close>, \<open>Notifications\<close>, \<open>UnitEvents\<close>, \<open>AppUpdate\<close>, \<open>ShareCard\<close>: the header search, the
    notification feed with its cleared rows, the deploy log, the update watcher, the share card.
  \<^item> \<open>SensorDetail\<close>, \<open>SpectrumViews\<close>, \<open>Telemetry\<close>: the sensor cards, the spectrum and channel views,
    the host charts and the storage forecast.
  \<^item> \<open>JsJson\<close>, \<open>Exports\<close>: \<open>JSON.stringify\<close> and \<open>JSON.parse\<close> with the law that a printed value reads
    back; the track and log files, read by RFC 4180 and RFC 7946 readers; the log screen's filters.
  \<^item> \<open>Offline\<close>: the service worker's routes and tile cache, its registration, and the hook that takes a
    new build, composed with the watcher of \<open>AppUpdate\<close>.
  \<^item> \<open>GraphQl\<close>: the query that fetches a track with its detections, against what REST carries and what it
    leaves out.
  \<^item> \<open>QueryPolicy\<close>: retries, error handling, polling computed from data, the paged closed-track list.
  \<^item> \<open>BrowserStorage\<close>: preferences, theme, read watermark, dismissals and explainers in the browser's
    storage, and the wake lock.
  \<^item> \<open>Units\<close>: unit systems, coordinate texts and time stamps as the operator chose them, each read back
    to the SI value; the noisy-OR.
  \<^item> \<open>PathColour\<close>: the shaded route of a flight, its hover dots and its legend.
  \<^item> \<open>MapStyle\<close>: the map's styles, range rings and basemap probes. \<open>Markers\<close>: the markers as a layer whose
    elements depend only on what the map was last given. \<open>LiveMap\<close>: the camera, the remembered viewport,
    the overlays and their colours.
  \<^item> \<open>LiveView\<close>: what the live view derives from the lists, and the contacts panel: its sections,
    headings, rows and clicks.
  \<^item> \<open>HookRules\<close>: the editor and the card of an alert rule, with the API's merge of a save, and what a save
    keeps.
  \<^item> \<open>SettingFields\<close>: a group of the receiver's settings with its draft, and the declared sensors as the API
    reads them back.
  \<^item> \<open>Calibration\<close>: the receiver's position, the channel plan and the fusion weights, read back by the API
    and by a reader of the receivers' files.
  \<^item> \<open>FlightTables\<close>: the list of closed flights as a table and as cards, its sorting headers and folded
    groups, the expanded row, and the working behind a confidence.
  \<^item> \<open>ProfileLanes\<close>: the lanes of height, speed and signal, their runs, scales and pointer. \<open>Replay\<close>: the
    transport of a flight as a state machine that keeps what the last render left behind.
  \<^item> \<open>AircraftLabels\<close>: naming an aircraft, from the popover through the API's store to the label shown.
  \<^item> \<open>TrackDetail\<close>: the page of one flight, its figures, history, receivers and the other flights of the airframe.

  \<^bold>\<open>The lemmas.\<close> Each component proves an invariant of its reachable states by rule induction and the
  function of its operations on every branch, and states its contract against a reference definition
  where it has one: an overlap count for lanes, a scan for a bisection, the filter for facet counts,
  least squares for the forecast, the transitions of a stream for the event logs. Interfaces are
  locales, interpreted on the model: a client's lemmas are proved once for every provider.

  \<^bold>\<open>Bounds and fuel.\<close> \<open>path_max_pages\<close> is the code's ten pages. \<open>fill_days\<close> runs 130 rounds, over the at
  most 120 day buckets the code allows. The reader of JSON has fuel twice the length of the text,
  enough because each value takes a character.

  \<^bold>\<open>Not modelled.\<close> React views, CSS, MapLibre layers, canvas rendering and \<open>Intl\<close> formatting, which
  draw what the modelled functions return; the development mocks; generated files; the Go, Python and
  Rust services behind the API, whose answers and frames are inputs here.
\<close>

end
